(* ===== verification/Prelude.thy ===== *)
theory Prelude
  imports
    Main
    "HOL-Library.AList"
    "HOL-Library.Char_ord"
    "HOL-Library.List_Lexorder"
    "HOL-Library.Monad_Syntax"
begin

text \<open>
  What the components share: JavaScript values and the tests the code makes of them,
  ECMAScript \<open>Map\<close> objects with their insertion order, decimal and base-36 numerals,
  and the small matchers that the code's regular expressions are translated into.

  Strings are \<open>char list\<close>s holding the UTF-8 bytes of the text. Every string the code
  itself takes apart (identifiers, markers, paths, object ids) is ASCII, where bytes and
  UTF-16 code units coincide.
\<close>

named_theorems js_simps \<open>unfolding of the JavaScript value tests\<close>

section \<open>JavaScript values\<close>

text \<open>
  \<open>JInt\<close> is a number with an integral value; \<open>JFrac p q\<close> is a non-integral finite number
  (read \<open>p/q\<close>); \<open>JNaN\<close> and \<open>JInf\<close> are the remaining doubles. An object keeps its own
  enumerable properties in order.
\<close>

datatype js =
    JUndef
  | JNull
  | JBool bool
  | JInt int
  | JFrac int nat
  | JNaN
  | JInf bool
  | JStr string
  | JArr "js list"
  | JObj "(string \<times> js) list"

text \<open>The value of \<open>x.key\<close> (and of \<open>x?.key\<close>): \<open>undefined\<close> where there is none.\<close>

definition fld :: "js \<Rightarrow> string \<Rightarrow> js" where
  "fld v k = (case v of JObj fs \<Rightarrow> (case map_of fs k of Some x \<Rightarrow> x | None \<Rightarrow> JUndef) | _ \<Rightarrow> JUndef)"

text \<open>The test \<open>x == null\<close>.\<close>

definition nullish :: "js \<Rightarrow> bool" where
  "nullish v = (case v of JUndef \<Rightarrow> True | JNull \<Rightarrow> True | _ \<Rightarrow> False)"

text \<open>The operator \<open>x ?? y\<close>.\<close>

definition coalesce :: "js \<Rightarrow> js \<Rightarrow> js" where
  "coalesce v w = (if nullish v then w else v)"

definition is_string :: "js \<Rightarrow> bool" where
  "is_string v = (case v of JStr _ \<Rightarrow> True | _ \<Rightarrow> False)"

definition is_bool :: "js \<Rightarrow> bool" where
  "is_bool v = (case v of JBool _ \<Rightarrow> True | _ \<Rightarrow> False)"

text \<open>\<open>x != null && typeof x === "object"\<close> without and with arrays.\<close>

definition is_mapping :: "js \<Rightarrow> bool" where
  "is_mapping v = (case v of JObj _ \<Rightarrow> True | _ \<Rightarrow> False)"

definition is_object :: "js \<Rightarrow> bool" where
  "is_object v = (case v of JObj _ \<Rightarrow> True | JArr _ \<Rightarrow> True | _ \<Rightarrow> False)"

text \<open>\<open>Number.isInteger(x)\<close>, with the integer it finds.\<close>

definition as_int :: "js \<Rightarrow> int option" where
  "as_int v = (case v of JInt n \<Rightarrow> Some n | _ \<Rightarrow> None)"

definition is_pos_int :: "js \<Rightarrow> bool" where
  "is_pos_int v = (case v of JInt n \<Rightarrow> 0 < n | _ \<Rightarrow> False)"

definition obj_keys :: "js \<Rightarrow> string list" where
  "obj_keys v = (case v of JObj fs \<Rightarrow> map fst fs | _ \<Rightarrow> [])"

text \<open>The boolean value of \<open>x\<close>.\<close>

definition truthy :: "js \<Rightarrow> bool" where
  "truthy v = (case v of
      JUndef \<Rightarrow> False | JNull \<Rightarrow> False | JBool b \<Rightarrow> b | JInt n \<Rightarrow> n \<noteq> 0 | JNaN \<Rightarrow> False
    | JStr s \<Rightarrow> s \<noteq> [] | _ \<Rightarrow> True)"

lemmas js_value_defs [js_simps] =
  nullish_def coalesce_def is_string_def is_bool_def is_mapping_def is_object_def
  as_int_def is_pos_int_def obj_keys_def

lemma fld_obj [simp]:
  "fld (JObj fs) k = (case map_of fs k of Some x \<Rightarrow> x | None \<Rightarrow> JUndef)"
  by (simp add: fld_def)

lemma is_pos_int_iff: "is_pos_int v \<longleftrightarrow> (\<exists>n. v = JInt n \<and> 0 < n)"
  by (cases v) (auto simp: is_pos_int_def)

lemma is_string_iff: "is_string v \<longleftrightarrow> (\<exists>s. v = JStr s)"
  by (cases v) (auto simp: is_string_def)

lemma is_mapping_iff: "is_mapping v \<longleftrightarrow> (\<exists>fs. v = JObj fs)"
  by (cases v) (auto simp: is_mapping_def)

lemma as_int_JInt [simp]: "as_int (JInt n) = Some n"
  by (simp add: as_int_def)

lemma as_int_Some [simp]: "as_int v = Some n \<longleftrightarrow> v = JInt n"
  by (cases v) (auto simp: as_int_def)

section \<open>Map objects\<close>

text \<open>
  An ECMAScript \<open>Map\<close> iterates in insertion order; \<open>set\<close> on a present key replaces the
  value in place, on an absent key appends the entry.
\<close>

type_synonym ('k, 'v) jmap = "('k \<times> 'v) list"

definition jm_get :: "('k, 'v) jmap \<Rightarrow> 'k \<Rightarrow> 'v option" where
  "jm_get m k = map_of m k"

definition jm_set :: "'k \<Rightarrow> 'v \<Rightarrow> ('k, 'v) jmap \<Rightarrow> ('k, 'v) jmap" where
  "jm_set k v m = AList.update k v m"

definition jm_del :: "'k \<Rightarrow> ('k, 'v) jmap \<Rightarrow> ('k, 'v) jmap" where
  "jm_del k m = filter (\<lambda>e. fst e \<noteq> k) m"

definition jm_wf :: "('k, 'v) jmap \<Rightarrow> bool" where
  "jm_wf m = distinct (map fst m)"

text \<open>The contract the clients of a \<open>Map\<close> rely on.\<close>

locale ordered_map =
  fixes get :: "'m \<Rightarrow> 'k \<Rightarrow> 'v option"
    and put :: "'k \<Rightarrow> 'v \<Rightarrow> 'm \<Rightarrow> 'm"
    and del :: "'k \<Rightarrow> 'm \<Rightarrow> 'm"
    and entries :: "'m \<Rightarrow> ('k \<times> 'v) list"
    and wf :: "'m \<Rightarrow> bool"
  assumes get_put: "get (put k v m) k' = (if k' = k then Some v else get m k')"
    and get_del: "get (del k m) k' = (if k' = k then None else get m k')"
    and wf_put: "wf m \<Longrightarrow> wf (put k v m)"
    and wf_del: "wf m \<Longrightarrow> wf (del k m)"
    and entries_get: "wf m \<Longrightarrow> (k, v) \<in> set (entries m) \<longleftrightarrow> get m k = Some v"
    and entries_put_new: "get m k = None \<Longrightarrow> entries (put k v m) = entries m @ [(k, v)]"
    and keys_put_old: "get m k \<noteq> None \<Longrightarrow> map fst (entries (put k v m)) = map fst (entries m)"
    and entries_del: "entries (del k m) = filter (\<lambda>e. fst e \<noteq> k) (entries m)"
begin

lemma size_put: "length (entries (put k v m)) = (if get m k = None then Suc (length (entries m)) else length (entries m))"
  using entries_put_new [of m k v] keys_put_old [of m k v]
  by (cases "get m k") (simp_all, metis length_map)

lemma size_del: "length (entries (del k m)) \<le> length (entries m)"
  by (simp add: entries_del)

lemma in_put: "wf m \<Longrightarrow> e \<in> set (entries (put k v m)) \<longleftrightarrow> e = (k, v) \<or> e \<in> set (entries m) \<and> fst e \<noteq> k"
  by (cases e) (auto simp: entries_get wf_put get_put split: if_splits)

lemma in_del: "e \<in> set (entries (del k m)) \<longleftrightarrow> e \<in> set (entries m) \<and> fst e \<noteq> k"
  by (auto simp: entries_del)

lemma absent_iff: "wf m \<Longrightarrow> get m k = None \<longleftrightarrow> k \<notin> fst ` set (entries m)"
proof -
  assume "wf m"
  then have "(\<exists>v. (k, v) \<in> set (entries m)) \<longleftrightarrow> get m k \<noteq> None"
    by (simp add: entries_get)
  moreover have "k \<in> fst ` set (entries m) \<longleftrightarrow> (\<exists>v. (k, v) \<in> set (entries m))"
    by force
  ultimately show ?thesis by blast
qed

end

lemma jm_update_new: "map_of m k = None \<Longrightarrow> AList.update k v m = m @ [(k, v)]"
  by (induction m) (auto split: if_splits)

lemma jm_update_keys: "map_of m k \<noteq> None \<Longrightarrow> map fst (AList.update k v m) = map fst m"
  by (induction m) auto

interpretation jm: ordered_map jm_get jm_set jm_del "\<lambda>m. m" jm_wf
proof unfold_locales
  fix m :: "('k, 'v) jmap" and k v
  show "jm_wf m \<Longrightarrow> (k, v) \<in> set m \<longleftrightarrow> jm_get m k = Some v"
    by (simp add: jm_wf_def jm_get_def)
  show "jm_wf m \<Longrightarrow> jm_wf (jm_set k v m)"
    by (simp add: jm_wf_def jm_set_def distinct_update)
  show "jm_wf m \<Longrightarrow> jm_wf (jm_del k m)"
    by (simp add: jm_wf_def jm_del_def distinct_map_filter)
  show "jm_get m k = None \<Longrightarrow> jm_set k v m = m @ [(k, v)]"
    by (simp add: jm_get_def jm_set_def jm_update_new)
  show "jm_get m k \<noteq> None \<Longrightarrow> map fst (jm_set k v m) = map fst m"
    unfolding jm_get_def jm_set_def by (rule jm_update_keys)
  fix k'
  show "jm_get (jm_set k v m) k' = (if k' = k then Some v else jm_get m k')"
    by (simp add: jm_get_def jm_set_def update_conv')
  show "jm_get (jm_del k m) k' = (if k' = k then None else jm_get m k')"
    unfolding jm_get_def jm_del_def by (induction m) auto
qed (simp_all add: jm_del_def)

lemmas jm_laws =
  jm.get_put jm.get_del jm.wf_put jm.wf_del jm.in_put jm.in_del jm.size_put

section \<open>Replaying events\<close>

text \<open>A state that is rebuilt by folding a step over an event list keeps what each step keeps.\<close>

locale replay =
  fixes step :: "'s \<Rightarrow> 'e \<Rightarrow> 's"
    and inv :: "'s \<Rightarrow> bool"
  assumes step_inv: "inv s \<Longrightarrow> inv (step s e)"
begin

lemma replay_inv: "inv s \<Longrightarrow> inv (foldl step s es)"
  by (induction es arbitrary: s) (simp_all add: step_inv)

lemma replay_append: "foldl step s (es @ fs) = foldl step (foldl step s es) fs"
  by simp

end

end
