(* ===== verification/Scanning.thy ===== *)
theory Scanning
  imports Prelude
begin

text \<open>
  Text as the code reads and writes it: numerals (\<open>String(n)\<close>, \<open>n.toString(36)\<close>,
  \<open>Number.parseInt\<close>), trimming and case folding, and the matchers the regular expressions
  of the marker records are translated into. Every pattern translated here is
  deterministic (after each greedy run the next pattern element cannot start inside the run),
  so matching left to right without backtracking finds what the regular expression finds.
\<close>

section \<open>Character classes\<close>

definition is_digit :: "char \<Rightarrow> bool" where
  "is_digit c \<longleftrightarrow> CHR ''0'' \<le> c \<and> c \<le> CHR ''9''"

definition is_lower :: "char \<Rightarrow> bool" where
  "is_lower c \<longleftrightarrow> CHR ''a'' \<le> c \<and> c \<le> CHR ''z''"

definition is_upper :: "char \<Rightarrow> bool" where
  "is_upper c \<longleftrightarrow> CHR ''A'' \<le> c \<and> c \<le> CHR ''Z''"

definition is_hex :: "char \<Rightarrow> bool" where
  "is_hex c \<longleftrightarrow> is_digit c \<or> (CHR ''a'' \<le> c \<and> c \<le> CHR ''f'')"

text \<open>\<open>\w\<close>.\<close>

definition word_char :: "char \<Rightarrow> bool" where
  "word_char c \<longleftrightarrow> is_digit c \<or> is_lower c \<or> is_upper c \<or> c = CHR ''_''"

text \<open>The ASCII members of \<open>\s\<close>.\<close>

definition is_ws :: "char \<Rightarrow> bool" where
  "is_ws c \<longleftrightarrow> c = CHR '' '' \<or> (CHR 0x09 \<le> c \<and> c \<le> CHR 0x0D)"

abbreviation dq :: char where "dq \<equiv> CHR 0x22"
abbreviation nl :: char where "nl \<equiv> CHR 0x0A"
abbreviation cr :: char where "cr \<equiv> CHR 0x0D"

text \<open>\<open>s.trim()\<close> and \<open>s.toLowerCase()\<close> on ASCII text.\<close>

definition trim :: "string \<Rightarrow> string" where
  "trim s = rev (dropWhile is_ws (rev (dropWhile is_ws s)))"

definition lower_char :: "char \<Rightarrow> char" where
  "lower_char c = (if is_upper c then char_of (of_char c + (32::nat)) else c)"

definition lower :: "string \<Rightarrow> string" where
  "lower s = map lower_char s"

text \<open>\<open>s.toUpperCase()\<close>.\<close>

definition upper_char :: "char \<Rightarrow> char" where
  "upper_char c = (if is_lower c then char_of (of_char c - (32::nat)) else c)"

definition upper :: "string \<Rightarrow> string" where
  "upper s = map upper_char s"

definition starts_with :: "'a list \<Rightarrow> 'a list \<Rightarrow> bool" where
  "starts_with p s \<longleftrightarrow> take (length p) s = p"

definition ends_with :: "'a list \<Rightarrow> 'a list \<Rightarrow> bool" where
  "ends_with p s \<longleftrightarrow> starts_with (rev p) (rev s)"

text \<open>\<open>s.split(sep)\<close> for a one-character separator: never the empty list.\<close>

fun split_on :: "'a \<Rightarrow> 'a list \<Rightarrow> 'a list list" where
  "split_on sep [] = [[]]"
| "split_on sep (c # cs) =
     (if c = sep then [] # split_on sep cs
      else (case split_on sep cs of [] \<Rightarrow> [[c]] | w # ws \<Rightarrow> (c # w) # ws))"

text \<open>\<open>ws.join(sep)\<close>.\<close>

definition join :: "'a list \<Rightarrow> 'a list list \<Rightarrow> 'a list" where
  "join sep ws = (case ws of [] \<Rightarrow> [] | w # rest \<Rightarrow> w @ concat (map (\<lambda>x. sep @ x) rest))"

lemma split_on_nonempty [simp]: "split_on sep s \<noteq> []"
  by (induction s) (auto split: list.splits)

section \<open>Numerals\<close>

definition digit_char :: "nat \<Rightarrow> char" where
  "digit_char d = (if d < 10 then char_of (48 + d) else char_of (87 + d))"

fun radix_str :: "nat \<Rightarrow> nat \<Rightarrow> string" where
  "radix_str b n =
     (if b < 2 \<or> n < b then [digit_char n] else radix_str b (n div b) @ [digit_char (n mod b)])"

declare radix_str.simps [simp del]

definition show_nat :: "nat \<Rightarrow> string" where
  "show_nat n = radix_str 10 n"

definition show_int :: "int \<Rightarrow> string" where
  "show_int i = (if i < 0 then CHR ''-'' # show_nat (nat (- i)) else show_nat (nat i))"

text \<open>\<open>Number(ds)\<close> of a nonempty run of digits (exact; the code's numbers are safe integers).\<close>

definition dec_val :: "string \<Rightarrow> nat" where
  "dec_val ds = foldl (\<lambda>a c. a * 10 + (of_char c - 48)) 0 ds"

lemma of_char_digit_char:
  "d < 36 \<Longrightarrow> of_char (digit_char d) = (if d < 10 then 48 + d else 87 + d)"
  by (simp add: digit_char_def)

lemma digit_char_inj: "d < 36 \<Longrightarrow> e < 36 \<Longrightarrow> digit_char d = digit_char e \<Longrightarrow> d = e"
proof -
  assume d: "d < 36" and e: "e < 36" and eq: "digit_char d = digit_char e"
  from eq have "(of_char (digit_char d) :: nat) = of_char (digit_char e)" by simp
  with d e show "d = e" by (auto simp: of_char_digit_char split: if_splits)
qed

lemma is_digit_digit_char: "d < 10 \<Longrightarrow> is_digit (digit_char d)"
  by (simp add: is_digit_def digit_char_def less_eq_char_def)

lemma is_lower_digit_char: "10 \<le> d \<Longrightarrow> d < 36 \<Longrightarrow> is_lower (digit_char d)"
  by (simp add: is_lower_def digit_char_def less_eq_char_def)

lemma radix_str_nonempty [simp]: "radix_str b n \<noteq> []" "[] \<noteq> radix_str b n"
  by (subst radix_str.simps, simp)+

lemma show_nat_nonempty [simp]: "show_nat n \<noteq> []"
  by (simp add: show_nat_def)

lemma show_nat_digits: "\<forall>c \<in> set (show_nat n). is_digit c"
proof (induction n rule: less_induct)
  case (less n)
  show ?case
  proof (cases "n < 10")
    case True
    then show ?thesis
      unfolding show_nat_def by (subst radix_str.simps) (simp add: is_digit_digit_char)
  next
    case False
    then have "\<forall>c \<in> set (show_nat (n div 10)). is_digit c" by (intro less) simp
    with False show ?thesis
      unfolding show_nat_def by (subst radix_str.simps) (auto simp: is_digit_digit_char)
  qed
qed

lemma radix_str_chars:
  "2 \<le> b \<Longrightarrow> b \<le> 36 \<Longrightarrow> \<forall>c \<in> set (radix_str b n). is_digit c \<or> is_lower c"
proof (induction n rule: less_induct)
  case (less n)
  have small: "d < b \<Longrightarrow> is_digit (digit_char d) \<or> is_lower (digit_char d)" for d
    using less.prems is_digit_digit_char [of d] is_lower_digit_char [of d] by linarith
  show ?case
  proof (cases "n < b")
    case True
    then show ?thesis by (subst radix_str.simps) (simp add: small)
  next
    case False
    with less.prems have "\<forall>c \<in> set (radix_str b (n div b)). is_digit c \<or> is_lower c"
      by (intro less.IH) auto
    moreover from less.prems have "n mod b < b" by simp
    ultimately show ?thesis using False less.prems small
      by (subst radix_str.simps) auto
  qed
qed

lemma radix_str_length_pos: "0 < length (radix_str b n)"
  by simp

lemma radix_str_length: "2 \<le> b \<Longrightarrow> n < b ^ k \<Longrightarrow> 0 < k \<Longrightarrow> length (radix_str b n) \<le> k"
proof (induction k arbitrary: n)
  case 0
  then show ?case by simp
next
  case (Suc k)
  show ?case
  proof (cases "n < b")
    case True
    then show ?thesis by (subst radix_str.simps) simp
  next
    case False
    with Suc.prems have "k \<noteq> 0" by (cases k) auto
    moreover have "n div b < b ^ k"
      using Suc.prems by (simp add: less_mult_imp_div_less mult.commute)
    ultimately have "length (radix_str b (n div b)) \<le> k" using Suc by simp
    with False Suc.prems show ?thesis by (subst radix_str.simps) simp
  qed
qed

lemma radix_str_inj:
  "2 \<le> b \<Longrightarrow> b \<le> 36 \<Longrightarrow> radix_str b m = radix_str b n \<Longrightarrow> m = n"
proof (induction m arbitrary: n rule: less_induct)
  case (less m)
  note eq = less.prems(3) [unfolded radix_str.simps [of b m] radix_str.simps [of b n]]
  have lt: "m mod b < 36" "n mod b < 36"
    using less.prems(1,2) mod_less_divisor [of b m] mod_less_divisor [of b n] by linarith+
  show ?case
  proof (cases "m < b"; cases "n < b")
    assume "m < b" "n < b"
    with eq less.prems show ?thesis by (auto intro: digit_char_inj)
  next
    assume "m < b" "\<not> n < b"
    with eq less.prems show ?thesis by auto
  next
    assume "\<not> m < b" "n < b"
    with eq less.prems show ?thesis by auto
  next
    assume a: "\<not> m < b" "\<not> n < b"
    with eq less.prems have "radix_str b (m div b) = radix_str b (n div b)"
      and d: "digit_char (m mod b) = digit_char (n mod b)" by auto
    moreover from a less.prems have "m div b < m" by (intro div_less_dividend) auto
    ultimately have "m div b = n div b" using less by blast
    moreover from d lt have "m mod b = n mod b" by (rule digit_char_inj [rotated 2])
    ultimately show ?thesis by (metis mult_div_mod_eq)
  qed
qed

lemma dec_val_snoc: "dec_val (ds @ [c]) = dec_val ds * 10 + (of_char c - 48)"
  by (simp add: dec_val_def)

lemma dec_val_show_nat [simp]: "dec_val (show_nat n) = n"
proof (induction n rule: less_induct)
  case (less n)
  show ?case
  proof (cases "n < 10")
    case True
    then show ?thesis
      unfolding show_nat_def
      by (subst radix_str.simps) (simp add: dec_val_def of_char_digit_char)
  next
    case False
    then have IH: "dec_val (show_nat (n div 10)) = n div 10" by (intro less) simp
    have "show_nat n = show_nat (n div 10) @ [digit_char (n mod 10)]"
      using False unfolding show_nat_def by (subst radix_str.simps) simp
    then show ?thesis by (simp add: dec_val_snoc IH of_char_digit_char)
  qed
qed

lemma show_nat_inj [simp]: "show_nat m = show_nat n \<longleftrightarrow> m = n"
  by (metis dec_val_show_nat)

lemma length_show_nat_mono: "m \<le> n \<Longrightarrow> length (show_nat m) \<le> length (show_nat n)"
proof (induction n arbitrary: m rule: less_induct)
  case (less n)
  have one: "k < 10 \<Longrightarrow> length (show_nat k) = 1" for k unfolding show_nat_def by (subst radix_str.simps) simp
  have step: "\<not> k < 10 \<Longrightarrow> length (show_nat k) = Suc (length (show_nat (k div 10)))" for k
    unfolding show_nat_def by (subst radix_str.simps) simp
  show ?case
  proof (cases "m < 10")
    case True
    then show ?thesis using one show_nat_nonempty [of n] by (cases "show_nat n") simp_all
  next
    case False
    then have "\<not> n < 10" using less.prems by simp
    moreover have "length (show_nat (m div 10)) \<le> length (show_nat (n div 10))"
      using \<open>\<not> n < 10\<close> less.prems by (intro less.IH div_le_mono) simp_all
    ultimately show ?thesis using step False by simp
  qed
qed

section \<open>Matchers\<close>

text \<open>A matcher looks at the front of a text and returns what it captured and the rest.\<close>

type_synonym 'a matcher = "string \<Rightarrow> ('a \<times> string) option"

fun lit :: "string \<Rightarrow> string \<Rightarrow> string option" where
  "lit [] s = Some s"
| "lit (x # xs) [] = None"
| "lit (x # xs) (y # ys) = (if x = y then lit xs ys else None)"

text \<open>\<open>\s*\<close> and \<open>\s+\<close>.\<close>

definition ws0 :: "string \<Rightarrow> string" where
  "ws0 s = dropWhile is_ws s"

definition ws1 :: "string \<Rightarrow> string option" where
  "ws1 s = (case s of [] \<Rightarrow> None | c # cs \<Rightarrow> if is_ws c then Some (ws0 cs) else None)"

text \<open>\<open>Number.parseInt(s, 10)\<close>: blanks, a sign, a run of digits; \<open>None\<close> for \<open>NaN\<close>.\<close>

definition parse_int :: "string \<Rightarrow> int option" where
  "parse_int s =
     (let t = ws0 s;
          (neg, u) = (case t of
             c # r \<Rightarrow> if c = CHR ''-'' then (True, r) else if c = CHR ''+'' then (False, r) else (False, t)
           | [] \<Rightarrow> (False, t));
          ds = takeWhile is_digit u
      in if ds = [] then None else Some (if neg then - int (dec_val ds) else int (dec_val ds)))"

text \<open>A captured run of a character class that must satisfy a test (its length, its first character).\<close>

definition run :: "(char \<Rightarrow> bool) \<Rightarrow> (string \<Rightarrow> bool) \<Rightarrow> string matcher" where
  "run P ok s = (let v = takeWhile P s in if ok v then Some (v, dropWhile P s) else None)"

text \<open>\<open>\s+name="(...)"\<close> with the captured value a run of \<open>P\<close>, a class without the quote.\<close>

definition attr :: "string \<Rightarrow> (char \<Rightarrow> bool) \<Rightarrow> (string \<Rightarrow> bool) \<Rightarrow> string matcher" where
  "attr nm P ok s = do {
     s1 \<leftarrow> ws1 s;
     s2 \<leftarrow> lit (nm @ [CHR ''='', dq]) s1;
     (v, s3) \<leftarrow> run P ok s2;
     s4 \<leftarrow> lit [dq] s3;
     Some (v, s4) }"

text \<open>\<open>(?:\s+name="(...)")?\<close>.\<close>

definition opt_attr :: "string \<Rightarrow> (char \<Rightarrow> bool) \<Rightarrow> (string \<Rightarrow> bool) \<Rightarrow> string \<Rightarrow> string option \<times> string" where
  "opt_attr nm P ok s = (case attr nm P ok s of Some (v, r) \<Rightarrow> (Some v, r) | None \<Rightarrow> (None, s))"

text \<open>What the builders write: \<open> name="value"\<close>.\<close>

definition attr_str :: "string \<Rightarrow> string \<Rightarrow> string" where
  "attr_str nm v = CHR '' '' # nm @ [CHR ''='', dq] @ v @ [dq]"

definition opt_attr_str :: "string \<Rightarrow> string option \<Rightarrow> string" where
  "opt_attr_str nm ov = (case ov of None \<Rightarrow> [] | Some v \<Rightarrow> attr_str nm v)"

text \<open>\<open>s.matchAll(re)\<close>: scan from the left; after a match continue behind it.\<close>

function find_all :: "'a matcher \<Rightarrow> string \<Rightarrow> 'a list" where
  "find_all m [] = []"
| "find_all m (c # cs) =
     (case m (c # cs) of
        Some (a, r) \<Rightarrow> if length r \<le> length cs then a # find_all m r else find_all m cs
      | None \<Rightarrow> find_all m cs)"
  by pat_completeness auto
termination
  by (relation "measure (\<lambda>(m, s). length s)") auto

text \<open>The text after the first occurrence of \<open>p\<close>, as \<open>[^]*?p\<close> consumes it.\<close>

fun after_first :: "string \<Rightarrow> string \<Rightarrow> string option" where
  "after_first p [] = lit p []"
| "after_first p (c # cs) = (case lit p (c # cs) of Some r \<Rightarrow> Some r | None \<Rightarrow> after_first p cs)"

text \<open>\<open>([^]*?)p\<close>: what precedes the first occurrence, and what follows it.\<close>

fun until :: "string \<Rightarrow> string \<Rightarrow> (string \<times> string) option" where
  "until p [] = map_option (\<lambda>r. ([], r)) (lit p [])"
| "until p (c # cs) = (case lit p (c # cs) of
       Some r \<Rightarrow> Some ([], r)
     | None \<Rightarrow> map_option (\<lambda>(v, r). (c # v, r)) (until p cs))"

definition not_dq :: "char \<Rightarrow> bool" where
  "not_dq c \<longleftrightarrow> c \<noteq> dq"

definition nonempty :: "string \<Rightarrow> bool" where
  "nonempty v \<longleftrightarrow> v \<noteq> []"

text \<open>\<open><!--\s*tag\<close> and \<open>\s*-->\<close>, the two ends of every marker.\<close>

definition marker_close :: "string \<Rightarrow> string option" where
  "marker_close s = lit ''-->'' (ws0 s)"

definition marker_open :: "string \<Rightarrow> string \<Rightarrow> string option" where
  "marker_open tag s = do { r \<leftarrow> lit ''<!--'' s; lit tag (ws0 r) }"

text \<open>\<open>\d{k}\<close>.\<close>

definition digits_n :: "nat \<Rightarrow> string \<Rightarrow> string option" where
  "digits_n k s = (if length (take k s) = k \<and> list_all is_digit (take k s) then Some (drop k s) else None)"

lemma lit_append [simp]: "lit p (p @ s) = Some s"
  by (induction p) auto

lemma lit_iff: "lit p s = Some r \<longleftrightarrow> s = p @ r"
  by (induction p s rule: lit.induct) auto

lemma lit_length: "lit p s = Some r \<Longrightarrow> length s = length p + length r"
  by (simp add: lit_iff)

lemma ws1_space [simp]: "ws1 (CHR '' '' # s) = Some (ws0 s)"
  by (simp add: ws1_def is_ws_def)

lemma ws0_nonws: "\<not> is_ws c \<Longrightarrow> ws0 (c # s) = c # s"
  by (simp add: ws0_def)

lemma ws0_length: "length (ws0 s) \<le> length s"
  by (simp add: ws0_def length_dropWhile_le)

lemma ws1_length: "ws1 s = Some r \<Longrightarrow> length r < length s"
  using ws0_length by (auto simp: ws1_def less_Suc_eq_le split: list.splits if_splits)

lemma run_append: "\<forall>c \<in> set v. P c \<Longrightarrow> \<not> P d \<Longrightarrow> ok v \<Longrightarrow> run P ok (v @ d # s) = Some (v, d # s)"
  by (simp add: run_def)

lemma dropWhile_head: "dropWhile P s = c # r \<Longrightarrow> \<not> P c"
  by (induction s) (auto split: if_splits)

lemma run_iff:
  "run P ok s = Some (v, r) \<longleftrightarrow>
     s = v @ r \<and> ok v \<and> (\<forall>c \<in> set v. P c) \<and> (case r of [] \<Rightarrow> True | c # _ \<Rightarrow> \<not> P c)"
proof
  assume "run P ok s = Some (v, r)"
  then have eq: "ok (takeWhile P s) \<and> v = takeWhile P s \<and> r = dropWhile P s"
    unfolding run_def Let_def by (metis option.distinct(1) option.inject prod.inject)
  have "\<forall>c \<in> set (takeWhile P s). P c" by (meson set_takeWhileD)
  moreover have "case dropWhile P s of [] \<Rightarrow> True | c # _ \<Rightarrow> \<not> P c"
    by (auto split: list.split dest: dropWhile_head)
  ultimately show "s = v @ r \<and> ok v \<and> (\<forall>c \<in> set v. P c) \<and> (case r of [] \<Rightarrow> True | c # _ \<Rightarrow> \<not> P c)"
    using eq by simp
next
  assume "s = v @ r \<and> ok v \<and> (\<forall>c \<in> set v. P c) \<and> (case r of [] \<Rightarrow> True | c # _ \<Rightarrow> \<not> P c)"
  then show "run P ok s = Some (v, r)"
    by (cases r) (auto simp: run_def takeWhile_eq_all_conv [THEN iffD2] dropWhile_eq_Nil_conv [THEN iffD2])
qed

lemma run_length: "run P ok s = Some (v, r) \<Longrightarrow> length r \<le> length s"
  by (auto simp: run_iff)

lemma attr_build:
  assumes "\<forall>c \<in> set v. P c" and "\<not> P dq" and "ok v" and "nm \<noteq> []" and "\<not> is_ws (hd nm)"
  shows "attr nm P ok (attr_str nm v @ s) = Some (v, s)"
proof -
  from assms obtain n ns where nm: "nm = n # ns" "\<not> is_ws n" by (cases nm) auto
  have "ws1 (attr_str nm v @ s) = Some ((nm @ [CHR ''='', dq]) @ v @ dq # s)"
    using nm by (simp add: attr_str_def ws0_nonws)
  moreover have "run P ok (v @ dq # s) = Some (v, dq # s)"
    using assms by (intro run_append)
  ultimately show ?thesis
    unfolding attr_def by (simp del: append_assoc)
qed

lemma opt_attr_build:
  assumes "\<And>v. ov = Some v \<Longrightarrow> (\<forall>c \<in> set v. P c) \<and> ok v"
    and "\<not> P dq" and "nm \<noteq> []" and "\<not> is_ws (hd nm)"
    and "ov = None \<Longrightarrow> attr nm P ok s = None"
  shows "opt_attr nm P ok (opt_attr_str nm ov @ s) = (ov, s)"
  using assms by (cases ov) (auto simp: opt_attr_def opt_attr_str_def attr_build)

lemma attr_length: "attr nm P ok s = Some (v, r) \<Longrightarrow> length r < length s"
  unfolding attr_def
  by (auto simp: bind_eq_Some_conv dest!: ws1_length lit_length run_length split: prod.splits)

lemma attr_sound:
  "attr nm P ok s = Some (v, r) \<Longrightarrow> ok v \<and> (\<forall>c \<in> set v. P c)"
  unfolding attr_def by (auto simp: bind_eq_Some_conv run_iff split: prod.splits)

lemma after_first_nomatch:
  "(\<forall>c \<in> set t. c \<noteq> hd p) \<Longrightarrow> p \<noteq> [] \<Longrightarrow> after_first p (t @ p @ s) = Some s"
proof (induction t)
  case Nil
  then show ?case by (cases p) (auto split: option.splits)
next
  case (Cons c cs)
  then have "lit p (c # cs @ p @ s) = None" by (cases p) auto
  with Cons show ?case by simp
qed

lemma after_first_close: "CHR ''>'' \<notin> set t \<Longrightarrow> after_first ''-->'' (t @ ''-->'' @ s) = Some s"
proof (induction t)
  case Nil
  then show ?case by simp
next
  case (Cons c t)
  have "lit ''-->'' (c # t @ ''-->'' @ s) = None"
    using Cons.prems by (cases t; cases "tl t") auto
  then show ?case using Cons by simp
qed

lemma until_close: "CHR ''>'' \<notin> set t \<Longrightarrow> until ''-->'' (t @ '' -->'' @ s) = Some (t @ '' '', s)"
proof (induction t)
  case Nil
  then show ?case by simp
next
  case (Cons c t)
  have "lit ''-->'' (c # t @ '' -->'' @ s) = None"
    using Cons.prems by (cases t; cases "tl t") auto
  then show ?case using Cons by simp
qed

lemma after_first_length: "after_first p s = Some r \<Longrightarrow> length r \<le> length s"
  by (induction s) (auto split: option.splits dest: lit_length)

lemma parse_int_show [simp]: "parse_int (show_nat n) = Some (int n)"
proof -
  obtain c cs where c: "show_nat n = c # cs" by (cases "show_nat n") auto
  then have all: "\<forall>d \<in> set (c # cs). is_digit d" using show_nat_digits [of n] by simp
  then have d: "\<not> is_ws c \<and> c \<noteq> CHR ''-'' \<and> c \<noteq> CHR ''+''"
    by (auto simp: is_digit_def is_ws_def less_eq_char_def)
  have "takeWhile is_digit (c # cs) = c # cs" using all by (simp add: takeWhile_eq_all_conv)
  moreover have "dec_val (c # cs) = n" using dec_val_show_nat [of n] c by simp
  ultimately show ?thesis unfolding c parse_int_def using d by (simp add: ws0_nonws)
qed

lemma show_nat_attr [simp]: "\<forall>c \<in> set (show_nat n). is_digit c" "nonempty (show_nat n)"
  by (simp_all add: show_nat_digits nonempty_def)

lemma marker_open_start: "marker_open t s = Some r \<Longrightarrow> \<exists>u. s = CHR ''<'' # u"
  by (auto simp: marker_open_def bind_eq_Some_conv lit_iff)

lemma marker_close_build [simp]: "marker_close ('' -->'' @ s) = Some s"
  by (simp add: marker_close_def ws0_def is_ws_def less_eq_char_def)

lemma attr_none:
  "attr nm P ok (CHR '' '' # c # s) = None" if "\<not> is_ws c" and "nm \<noteq> []" and "c \<noteq> hd nm"
  using that by (cases nm) (simp_all add: attr_def ws0_nonws)

lemma opt_attr_close:
  assumes "\<And>v. ov = Some v \<Longrightarrow> (\<forall>c \<in> set v. P c) \<and> ok v" and "\<not> P dq"
    and "nm \<noteq> []" and "\<not> is_ws (hd nm)" and "hd nm \<noteq> CHR ''-''"
  shows "opt_attr nm P ok (opt_attr_str nm ov @ '' -->'' @ s) = (ov, '' -->'' @ s)"
  using assms by (intro opt_attr_build) (auto intro!: attr_none simp: is_ws_def less_eq_char_def)

lemma opt_attr_then:
  assumes "\<And>v. ov = Some v \<Longrightarrow> (\<forall>c \<in> set v. P c) \<and> ok v" and "\<not> P dq"
    and "nm \<noteq> []" and "\<not> is_ws (hd nm)" and "hd nm \<noteq> CHR ''-''"
    and "nm2 \<noteq> []" and "hd nm2 \<noteq> hd nm" and "\<not> is_ws (hd nm2)"
  shows "opt_attr nm P ok (opt_attr_str nm ov @ opt_attr_str nm2 ow @ '' -->'' @ s)
           = (ov, opt_attr_str nm2 ow @ '' -->'' @ s)"
proof (rule opt_attr_build)
  from assms obtain n2 ns2 where "nm2 = n2 # ns2" "n2 \<noteq> hd nm" "\<not> is_ws n2" by (cases nm2) auto
  then show "attr nm P ok (opt_attr_str nm2 ow @ '' -->'' @ s) = None"
    using assms by (cases ow) (auto intro!: attr_none simp: opt_attr_str_def attr_str_def is_ws_def less_eq_char_def)
qed (use assms in auto)

section \<open>Object ids and lengths\<close>

definition hex_run :: "nat \<Rightarrow> string \<Rightarrow> bool" where
  "hex_run n s \<longleftrightarrow> length s = n \<and> list_all is_hex s"

text \<open>\<open>GIT_OBJECT_ID_RE\<close>.\<close>

definition git_object_id :: "string \<Rightarrow> bool" where
  "git_object_id s \<longleftrightarrow> hex_run 40 s \<or> hex_run 64 s"

text \<open>\<open>s.length\<close> of a text given by its UTF-8 bytes: a four-byte character is two code units.\<close>

definition unit_length :: "string \<Rightarrow> nat" where
  "unit_length s = length (filter (\<lambda>c. c < CHR 0x80 \<or> CHR 0xC0 \<le> c) s) + length (filter (\<lambda>c. CHR 0xF0 \<le> c) s)"

text \<open>\<open>GITHUB_REPO_RE\<close>.\<close>

definition repo_segment :: "string \<Rightarrow> bool" where
  "repo_segment s = (case s of
      [] \<Rightarrow> False
    | c # cs \<Rightarrow> (is_digit c \<or> is_lower c \<or> is_upper c)
        \<and> list_all (\<lambda>c. is_digit c \<or> is_lower c \<or> is_upper c \<or> c \<in> {CHR ''.'', CHR ''_'', CHR ''-''}) cs)"

definition github_repo_ok :: "string \<Rightarrow> bool" where
  "github_repo_ok s = (case split_on (CHR ''/'') s of [a, b] \<Rightarrow> repo_segment a \<and> repo_segment b | _ \<Rightarrow> False)"

section \<open>Marker formats\<close>

text \<open>
  The contract of a marker format: a builder whose output the matcher reads back whatever
  follows it, and a matcher that can only start at a \<open><\<close>.
\<close>

locale marker_codec =
  fixes build :: "'a \<Rightarrow> string"
    and matcher :: "'b matcher"
    and view :: "'a \<Rightarrow> 'b"
    and ok :: "'a \<Rightarrow> bool"
  assumes match_build: "ok a \<Longrightarrow> matcher (build a @ s) = Some (view a, s)"
    and build_start: "\<exists>t. build a = CHR ''<'' # t"
    and match_start: "matcher s = Some r \<Longrightarrow> \<exists>t. s = CHR ''<'' # t"
begin

lemma find_plain:
  assumes "CHR ''<'' \<notin> set t"
  shows "find_all matcher (t @ s) = find_all matcher s"
  using assms
proof (induction t)
  case Nil
  then show ?case by simp
next
  case (Cons c cs)
  then have "matcher (c # cs @ s) = None"
    using match_start [of "c # cs @ s"] by (cases "matcher (c # cs @ s)") auto
  with Cons show ?case by simp
qed

lemma find_none: "CHR ''<'' \<notin> set t \<Longrightarrow> find_all matcher t = []"
  using find_plain [of t "[]"] by simp

lemma find_build: "ok a \<Longrightarrow> find_all matcher (build a @ s) = view a # find_all matcher s"
proof -
  assume ok: "ok a"
  obtain t where t: "build a = CHR ''<'' # t" using build_start by blast
  then show ?thesis using match_build [OF ok, of s] by simp
qed

lemma find_record:
  "ok a \<Longrightarrow> CHR ''<'' \<notin> set pre \<Longrightarrow> CHR ''<'' \<notin> set post \<Longrightarrow>
     find_all matcher (pre @ build a @ post) = [view a]"
  by (simp add: find_plain find_build find_none)

end

section \<open>What every object inherits\<close>

text \<open>A lookup \<open>map[key]\<close> in a plain object also finds these members of \<open>Object.prototype\<close>.\<close>

definition inherited_names :: "string list" where
  "inherited_names = [''constructor'', ''toString'', ''toLocaleString'', ''valueOf'', ''hasOwnProperty'', ''isPrototypeOf'',
     ''propertyIsEnumerable'', ''__defineGetter__'', ''__defineSetter__'', ''__lookupGetter__'', ''__lookupSetter__'', ''__proto__'']"

text \<open>
  Such a member as a template literal prints it: all are native functions, but \<open>__proto__\<close>, which is the prototype
  itself. Distinct members print distinct texts.
\<close>

definition inherited_text :: "string \<Rightarrow> string" where
  "inherited_text k =
     (if k = ''__proto__'' then ''[object Object]''
      else ''function '' @ (if k = ''constructor'' then ''Object'' else k) @ ''() { [native code] }'')"

lemma inherited_text_inj: "inj_on inherited_text (set inherited_names)"
  by (simp add: inherited_names_def inherited_text_def)

end
