(* ===== verification/JsonText.thy ===== *)
theory JsonText
  imports Scanning
begin

text \<open>
  JSON string literals as the markers embed them: \<open>JSON.stringify\<close> of a text, and
  \<open>JSON.parse\<close> of a quoted body. Texts are UTF-8 bytes; a \<open>\u\<close> escape is decoded to the UTF-8
  bytes of its code point, a surrogate pair to those of the code point it encodes.
\<close>

abbreviation bs :: char where "bs \<equiv> CHR 0x5C"

definition hex_digit :: "nat \<Rightarrow> char" where
  "hex_digit d = digit_char d"

definition control :: "char \<Rightarrow> bool" where
  "control c \<longleftrightarrow> (of_char c :: nat) < 32"

text \<open>\<open>JSON.stringify(s).slice(1, -1)\<close>, one character and the whole text.\<close>

definition json_escape_char :: "char \<Rightarrow> string" where
  "json_escape_char c =
     (if c = dq then [bs, dq] else if c = bs then [bs, bs]
      else if c = CHR 0x08 then [bs, CHR ''b''] else if c = CHR 0x0C then [bs, CHR ''f'']
      else if c = nl then [bs, CHR ''n''] else if c = cr then [bs, CHR ''r'']
      else if c = CHR 0x09 then [bs, CHR ''t'']
      else if control c then [bs, CHR ''u'', CHR ''0'', CHR ''0'',
                              hex_digit (of_char c div 16), hex_digit (of_char c mod 16)]
      else [c])"

definition json_escape :: "string \<Rightarrow> string" where
  "json_escape s = concat (map json_escape_char s)"

definition json_string :: "string \<Rightarrow> string" where
  "json_string s = dq # json_escape s @ [dq]"

text \<open>Four hexadecimal digits, in either case.\<close>

definition hex_val :: "char \<Rightarrow> nat option" where
  "hex_val c =
     (if is_digit c then Some (of_char c - 48)
      else if CHR ''a'' \<le> c \<and> c \<le> CHR ''f'' then Some (of_char c - 87)
      else if CHR ''A'' \<le> c \<and> c \<le> CHR ''F'' then Some (of_char c - 55)
      else None)"

definition hex4 :: "char \<Rightarrow> char \<Rightarrow> char \<Rightarrow> char \<Rightarrow> nat option" where
  "hex4 a b c d = do { w \<leftarrow> hex_val a; x \<leftarrow> hex_val b; y \<leftarrow> hex_val c; z \<leftarrow> hex_val d;
     Some (w * 4096 + x * 256 + y * 16 + z) }"

definition utf8 :: "nat \<Rightarrow> string" where
  "utf8 n =
     (if n < 0x80 then [char_of n]
      else if n < 0x800 then [char_of (0xC0 + n div 64), char_of (0x80 + n mod 64)]
      else if n < 0x10000 then
        [char_of (0xE0 + n div 4096), char_of (0x80 + n div 64 mod 64), char_of (0x80 + n mod 64)]
      else
        [char_of (0xF0 + n div 262144), char_of (0x80 + n div 4096 mod 64),
         char_of (0x80 + n div 64 mod 64), char_of (0x80 + n mod 64)])"

definition simple_escape :: "char \<Rightarrow> char option" where
  "simple_escape c =
     (if c = dq then Some dq else if c = bs then Some bs else if c = CHR ''/'' then Some (CHR ''/'')
      else if c = CHR ''b'' then Some (CHR 0x08) else if c = CHR ''f'' then Some (CHR 0x0C)
      else if c = CHR ''n'' then Some nl else if c = CHR ''r'' then Some cr
      else if c = CHR ''t'' then Some (CHR 0x09) else None)"

text \<open>The code point of a \<open>\u\<close> escape, with the low surrogate that may follow it.\<close>

fun unicode_escape :: "string \<Rightarrow> (nat \<times> string) option" where
  "unicode_escape (a # b # c # d # s) = do {
     n \<leftarrow> hex4 a b c d;
     (if 0xD800 \<le> n \<and> n < 0xDC00 then
        (case s of
           e # u # a' # b' # c' # d' # t \<Rightarrow>
             (if e = bs \<and> u = CHR ''u'' then
                (case hex4 a' b' c' d' of
                   Some m \<Rightarrow>
                     (if 0xDC00 \<le> m \<and> m < 0xE000
                      then Some (0x10000 + (n - 0xD800) * 1024 + (m - 0xDC00), t) else Some (n, s))
                 | None \<Rightarrow> Some (n, s))
              else Some (n, s))
         | _ \<Rightarrow> Some (n, s))
      else Some (n, s)) }"
| "unicode_escape _ = None"

lemma unicode_escape_length: "unicode_escape s = Some (n, t) \<Longrightarrow> length t < length s"
  by (cases s rule: unicode_escape.cases)
    (auto simp: bind_eq_Some_conv split: if_splits list.splits option.splits)

text \<open>\<open>JSON.parse\<close> of a quoted body that holds no bare quote.\<close>

function json_unescape :: "string \<Rightarrow> string option" where
  "json_unescape [] = Some []"
| "json_unescape (c # s) =
     (if c = bs then
        (case s of
           [] \<Rightarrow> None
         | e # t \<Rightarrow>
             (case simple_escape e of
                Some x \<Rightarrow> map_option (\<lambda>r. x # r) (json_unescape t)
              | None \<Rightarrow>
                  (if e = CHR ''u'' then
                     (case unicode_escape t of
                        Some (n, t') \<Rightarrow> map_option (\<lambda>r. utf8 n @ r) (json_unescape t')
                      | None \<Rightarrow> None)
                   else None)))
      else if c = dq \<or> control c then None
      else map_option (\<lambda>r. c # r) (json_unescape s))"
  by pat_completeness auto
termination
  by (relation "measure length") (auto dest: unicode_escape_length)

text \<open>\<open>(?:[^"\\]|\\.)*\<close> up to the closing quote: the raw body and the rest from the quote on.\<close>

fun json_raw :: "string \<Rightarrow> (string \<times> string) option" where
  "json_raw [] = None"
| "json_raw (c # s) =
     (if c = dq then Some ([], c # s)
      else if c = bs then
        (case s of
           [] \<Rightarrow> None
         | e # t \<Rightarrow> if e = nl \<or> e = cr then None
                    else map_option (\<lambda>(v, r). (c # e # v, r)) (json_raw t))
      else map_option (\<lambda>(v, r). (c # v, r)) (json_raw s))"

lemma hex_val_digit: "d < 16 \<Longrightarrow> hex_val (hex_digit d) = Some d"
  by (simp add: hex_val_def hex_digit_def digit_char_def is_digit_def less_eq_char_def)

lemma control_hex:
  assumes "control c"
  shows "hex4 (CHR ''0'') (CHR ''0'') (hex_digit (of_char c div 16)) (hex_digit (of_char c mod 16)) = Some (of_char c)"
proof -
  have "(of_char c :: nat) div 16 < 16" using assms by (simp add: control_def)
  then show ?thesis
    by (simp add: hex4_def hex_val_digit) (simp add: hex_val_def is_digit_def less_eq_char_def)
qed

lemma utf8_ascii: "control c \<Longrightarrow> utf8 (of_char c) = [c]"
  by (simp add: utf8_def control_def)

lemma control_small: "control c \<Longrightarrow> (of_char c :: nat) < 0xD800"
  by (simp add: control_def)

lemma unicode_control:
  "control c \<Longrightarrow> unicode_escape (CHR ''0'' # CHR ''0'' # hex_digit (of_char c div 16) # hex_digit (of_char c mod 16) # t)
     = Some (of_char c, t)"
  using control_small [of c] by (simp add: control_hex)

lemma append_single: "(@) [c] = (#) c"
  by auto

lemma hex_digit_plain:
  assumes "d < 16" shows "hex_digit d \<noteq> dq" "hex_digit d \<noteq> bs"
proof -
  have "is_digit (hex_digit d) \<or> is_lower (hex_digit d)"
    using assms is_digit_digit_char [of d] is_lower_digit_char [of d]
    by (cases "d < 10") (simp_all add: hex_digit_def)
  then show "hex_digit d \<noteq> dq" "hex_digit d \<noteq> bs"
    by (auto simp: is_digit_def is_lower_def less_eq_char_def)
qed

lemma json_unescape_escape_char:
  "json_unescape (json_escape_char c @ s) = map_option (\<lambda>r. c # r) (json_unescape s)"
proof -
  have u: "simple_escape (CHR ''u'') = None" by (simp add: simple_escape_def)
  show ?thesis
    by (auto simp: json_escape_char_def simple_escape_def [of dq] simple_escape_def [of bs] simple_escape_def
        [of "CHR ''b''"] simple_escape_def [of "CHR ''f''"] simple_escape_def [of "CHR ''n''"]
        simple_escape_def [of "CHR ''r''"] simple_escape_def [of "CHR ''t''"] u unicode_control utf8_ascii
        append_single simp del: unicode_escape.simps)
qed

theorem json_string_roundtrip: "json_unescape (json_escape s) = Some s"
  by (induction s) (simp_all add: json_escape_def json_unescape_escape_char)

lemma escape_char_raw:
  "json_raw (json_escape_char c @ s) = map_option (\<lambda>(v, r). (json_escape_char c @ v, r)) (json_raw s)"
proof -
  have "control c \<Longrightarrow> (of_char c :: nat) div 16 < 16" by (simp add: control_def)
  then show ?thesis
    by (cases "json_raw s") (auto simp: json_escape_char_def hex_digit_plain)
qed

lemma json_raw_escape: "json_raw (json_escape s @ dq # r) = Some (json_escape s, dq # r)"
  by (induction s) (simp_all add: json_escape_def escape_char_raw)

end
