(* ===== verification/Thread.thy ===== *)
theory Thread
  imports Scanning
begin

text \<open>
  The issue thread and who is believed on it (\<open>lib/grc-legacy-compat-3.js\<close>, \<open>-4.js\<close>,
  \<open>lib/grc-legacy-compat.js\<close>, \<open>lib/codex-review.js\<close>): comments as GitHub returns them, the effective
  repository permission of their authors, and the phase markers that gate the workflow.

  GitHub is a parameter: \<open>perm login\<close> is what the collaborator-permission endpoint prints for a
  login, \<open>None\<close> when the call fails.
\<close>

section \<open>Comments\<close>

record comment =
  c_id :: "int option"
  c_body :: string
  c_author :: "string option"
  c_association :: "string option"
  c_author_type :: "string option"
  c_created_at :: "string option"

fun js_str :: "js \<Rightarrow> string option" where
  "js_str (JStr s) = Some s"
| "js_str _ = None"

fun js_flat :: "js list \<Rightarrow> js list" where
  "js_flat [] = []"
| "js_flat (JArr xs # vs) = xs @ js_flat vs"
| "js_flat (v # vs) = v # js_flat vs"

text \<open>\<open>readIssueCommentsWithAuthors\<close> from the parsed JSON pages on.\<close>

definition parse_comments :: "js \<Rightarrow> comment list" where
  "parse_comments pages =
     (case pages of
        JArr ps \<Rightarrow>
          (let cs = (case ps of JArr _ # _ \<Rightarrow> js_flat ps | _ \<Rightarrow> ps)
           in map (\<lambda>c. \<lparr>c_id = as_int (fld c ''id''),
                        c_body = the (js_str (fld c ''body'')),
                        c_author = js_str (fld (fld c ''user'') ''login''),
                        c_association = map_option upper (js_str (fld c ''author_association'')),
                        c_author_type = js_str (fld (fld c ''user'') ''type''),
                        c_created_at = js_str (fld c ''created_at'')\<rparr>)
                (filter (\<lambda>c. is_string (fld c ''body'')) cs))
      | _ \<Rightarrow> [])"

section \<open>Authors\<close>

definition write_permissions :: "string list" where
  "write_permissions = [''admin'', ''maintain'', ''write'']"

definition getEffectiveRepositoryPermission :: "(string \<Rightarrow> string option) \<Rightarrow> string \<Rightarrow> string option" where
  "getEffectiveRepositoryPermission perm login =
     (if trim login = [] then None
      else (case perm login of
              None \<Rightarrow> None
            | Some out \<Rightarrow> let p = lower (trim out)
                          in if p \<in> set write_permissions then Some p else None))"

definition author_login :: "comment \<Rightarrow> string option" where
  "author_login c = map_option lower (c_author c)"

text \<open>The set of distinct non-empty author logins, and the permission looked up for each.\<close>

definition author_logins :: "comment list \<Rightarrow> string list" where
  "author_logins cs =
     filter (\<lambda>l. l \<noteq> []) (map the (filter (\<lambda>x. x \<noteq> None) (map author_login cs)))"

type_synonym trust = "(string, string option) jmap"

definition resolveExecutionObligationTrust :: "(string \<Rightarrow> string option) \<Rightarrow> comment list \<Rightarrow> trust" where
  "resolveExecutionObligationTrust perm cs =
     fold (\<lambda>l. jm_set l (getEffectiveRepositoryPermission perm l)) (author_logins cs) []"

definition isTrusted :: "trust \<Rightarrow> comment \<Rightarrow> bool" where
  "isTrusted t c = (case author_login c of
      None \<Rightarrow> False
    | Some l \<Rightarrow> (case jm_get t l of Some (Some _) \<Rightarrow> True | _ \<Rightarrow> False))"

definition isResolved :: "trust \<Rightarrow> comment \<Rightarrow> bool" where
  "isResolved t c = (case author_login c of None \<Rightarrow> False | Some l \<Rightarrow> jm_get t l \<noteq> None)"

definition github_actions_bot_login :: string where
  "github_actions_bot_login = ''github-actions[bot]''"

definition isRepositoryAutomationAuthor :: "comment \<Rightarrow> bool" where
  "isRepositoryAutomationAuthor c \<longleftrightarrow>
     c_author_type c = Some ''Bot''
     \<and> lower (case c_author c of Some l \<Rightarrow> l | None \<Rightarrow> []) = github_actions_bot_login"

text \<open>What trust means: the author has a login whose reported permission is a write permission.\<close>

definition write_author :: "(string \<Rightarrow> string option) \<Rightarrow> comment \<Rightarrow> bool" where
  "write_author perm c \<longleftrightarrow>
     (case author_login c of None \<Rightarrow> False | Some l \<Rightarrow> getEffectiveRepositoryPermission perm l \<noteq> None)"

lemma fold_set_get:
  "jm_get (fold (\<lambda>l. jm_set l (f l)) ls m) k = (if k \<in> set ls then Some (f k) else jm_get m k)"
  by (induction ls arbitrary: m) (auto simp: jm.get_put)

lemma in_author_logins:
  "l \<in> set (author_logins cs) \<longleftrightarrow> l \<noteq> [] \<and> (\<exists>c \<in> set cs. author_login c = Some l)"
  by (force simp: author_logins_def)

lemma trust_get:
  "jm_get (resolveExecutionObligationTrust perm cs) l =
     (if l \<in> set (author_logins cs) then Some (getEffectiveRepositoryPermission perm l) else None)"
  unfolding resolveExecutionObligationTrust_def fold_set_get by (simp add: jm_get_def)

lemma permission_empty [simp]: "getEffectiveRepositoryPermission perm [] = None"
  by (simp add: getEffectiveRepositoryPermission_def trim_def)

lemma isTrusted_write_author:
  "c \<in> set cs \<Longrightarrow> isTrusted (resolveExecutionObligationTrust perm cs) c \<longleftrightarrow> write_author perm c"
  by (cases "author_login c"; cases "getEffectiveRepositoryPermission perm (the (author_login c))")
    (auto simp: isTrusted_def write_author_def trust_get in_author_logins split: option.splits)

lemma trusted_write: "isTrusted (resolveExecutionObligationTrust perm cs) c \<Longrightarrow> write_author perm c"
  by (auto simp: isTrusted_def write_author_def trust_get split: option.splits if_splits)

lemma write_author_iff:
  "write_author perm c \<longleftrightarrow> (\<exists>l out. c_author c = Some l \<and> trim (lower l) \<noteq> []
      \<and> perm (lower l) = Some out \<and> lower (trim out) \<in> {''admin'', ''maintain'', ''write''})"
  by (auto simp: write_author_def author_login_def getEffectiveRepositoryPermission_def
      write_permissions_def Let_def split: option.splits if_splits)

text \<open>
  The contract every reader of the thread relies on: a decision about authors that needs a login
  and does not depend on its case.
\<close>

locale author_trust =
  fixes trusted :: "comment \<Rightarrow> bool"
  assumes trusted_login: "trusted c \<Longrightarrow> author_login c \<noteq> None"
    and trusted_cong: "author_login c = author_login c' \<Longrightarrow> trusted c = trusted c'"
begin

text \<open>A record is believed only when some author of it is.\<close>

definition believed :: "(comment \<Rightarrow> bool) \<Rightarrow> comment list \<Rightarrow> comment list" where
  "believed P cs = filter trusted (filter P cs)"

lemma believed_iff: "c \<in> set (believed P cs) \<longleftrightarrow> c \<in> set cs \<and> P c \<and> trusted c"
  by (auto simp: believed_def)

lemma anonymous_ignored: "author_login c = None \<Longrightarrow> c \<notin> set (believed P cs)"
  using trusted_login [of c] by (auto simp: believed_iff)

lemma believed_extend: "\<not> trusted c \<Longrightarrow> believed P (cs @ [c]) = believed P cs"
  by (simp add: believed_def)

end

interpretation ta: author_trust "write_author perm" for perm
  by unfold_locales (auto simp: write_author_def split: option.splits)

interpretation tt: author_trust "isTrusted t" for t
  by unfold_locales (auto simp: isTrusted_def split: option.splits)

section \<open>Phase markers\<close>

definition phase_char :: "char \<Rightarrow> bool" where
  "phase_char c \<longleftrightarrow> is_lower c \<or> c = CHR ''_''"

text \<open>\<open>PHASE_MARKER_RE\<close>, with the phase and the issue number it captures.\<close>

definition phase_marker :: "(string \<times> nat) matcher" where
  "phase_marker s = do {
     s1 \<leftarrow> marker_open ''gc:phase'' s;
     (ph, s2) \<leftarrow> attr ''phase'' phase_char nonempty s1;
     (i, s3) \<leftarrow> attr ''issue'' is_digit nonempty s2;
     s4 \<leftarrow> after_first ''-->'' s3;
     Some ((ph, dec_val i), s4) }"

text \<open>The first line of \<open>buildPhaseMarker\<close>.\<close>

fun phase_marker_line :: "string \<times> nat \<Rightarrow> string" where
  "phase_marker_line (ph, n) =
     ''<!-- gc:phase'' @ attr_str ''phase'' ph @ attr_str ''issue'' (show_nat n) @ '' -->''"

text \<open>\<open>Set.add\<close> on an insertion-ordered set.\<close>

definition set_add :: "'a list \<Rightarrow> 'a \<Rightarrow> 'a list" where
  "set_add xs x = (if x \<in> set xs then xs else xs @ [x])"

definition parsePhaseMarkers :: "string list \<Rightarrow> nat \<Rightarrow> string list" where
  "parsePhaseMarkers bodies n =
     foldl set_add []
       (map fst (filter (\<lambda>(_, i). i = n) (concat (map (find_all phase_marker) bodies))))"

text \<open>\<open>thread\<close> is the result of reading the comments, \<open>None\<close> when that fails.\<close>

definition readCompletedPhases :: "(string \<Rightarrow> string option) \<Rightarrow> comment list option \<Rightarrow> nat \<Rightarrow> string list" where
  "readCompletedPhases perm thread n =
     (case thread of
        None \<Rightarrow> []
      | Some comments \<Rightarrow>
          (let marked = filter (\<lambda>c. parsePhaseMarkers [c_body c] n \<noteq> []) comments
           in if marked = [] then []
              else let trust = resolveExecutionObligationTrust perm comments
                   in parsePhaseMarkers (map c_body (filter (isTrusted trust) marked)) n))"

record phase_refusal =
  pr_error :: string
  pr_next_phase :: string
  pr_missing :: "string list"
  pr_completed :: "string list"
  pr_issue :: nat

definition evaluatePhasePrerequisite ::
  "string list \<Rightarrow> string \<Rightarrow> string list \<Rightarrow> nat \<Rightarrow> phase_refusal + string" where
  "evaluatePhasePrerequisite completed next_phase requires n =
     (let missing = filter (\<lambda>p. p \<notin> set completed) requires
      in if missing \<noteq> []
         then Inl \<lparr>pr_error = ''phase_prerequisite_missing'', pr_next_phase = next_phase,
                   pr_missing = missing, pr_completed = completed, pr_issue = n\<rparr>
         else Inr next_phase)"

lemma set_foldl_add: "set (foldl set_add acc xs) = set acc \<union> set xs"
  by (induction xs arbitrary: acc) (auto simp: set_add_def)

lemma distinct_foldl_add: "distinct acc \<Longrightarrow> distinct (foldl set_add acc xs)"
  by (induction xs arbitrary: acc) (auto simp: set_add_def)

lemma set_parsePhaseMarkers:
  "set (parsePhaseMarkers bodies n) = (\<Union>b \<in> set bodies. set (parsePhaseMarkers [b] n))"
  by (force simp: parsePhaseMarkers_def set_foldl_add)

lemma phase_attr_cond: "list_all phase_char ph \<Longrightarrow> \<forall>c \<in> set ph. phase_char c"
  by (simp add: list_all_iff)

lemma phase_no_dq [simp]: "\<not> phase_char dq" "\<not> is_digit dq"
  by (simp_all add: phase_char_def is_lower_def is_digit_def less_eq_char_def)

lemma phase_match_build:
  assumes "fst p \<noteq> []" and "list_all phase_char (fst p)"
  shows "phase_marker (phase_marker_line p @ s) = Some (p, s)"
proof -
  obtain ph n where p: "p = (ph, n)" by (cases p)
  note c = phase_attr_cond [OF assms(2), unfolded p fst_conv]
  have ne: "nonempty ph" using assms by (simp add: nonempty_def p)
  have o: "marker_open ''gc:phase'' (''<!-- gc:phase'' @ t) = Some t" for t
    by (simp add: marker_open_def ws0_def is_ws_def less_eq_char_def)
  have e: "after_first ''-->'' ('' -->'' @ s) = Some s" by simp
  show ?thesis
    unfolding p phase_marker_def phase_marker_line.simps append_assoc o
    by (simp add: attr_build c ne is_ws_def less_eq_char_def e del: append.simps after_first.simps)
qed

interpretation phase: marker_codec phase_marker_line phase_marker "\<lambda>p. p"
  "\<lambda>p. fst p \<noteq> [] \<and> list_all phase_char (fst p)"
proof unfold_locales
  fix a s and r :: "(string \<times> nat) \<times> string"
  show "fst a \<noteq> [] \<and> list_all phase_char (fst a) \<Longrightarrow> phase_marker (phase_marker_line a @ s) = Some (a, s)"
    by (rule phase_match_build) auto
  show "\<exists>t. phase_marker_line a = CHR ''<'' # t" by (cases a) simp
  show "phase_marker s = Some r \<Longrightarrow> \<exists>t. s = CHR ''<'' # t"
    unfolding phase_marker_def by (auto simp: bind_eq_Some_conv dest: marker_open_start)
qed

lemma parsePhaseMarkers_Nil [simp]: "parsePhaseMarkers [] n = []"
  by (simp add: parsePhaseMarkers_def)

lemma readCompletedPhases_Some:
  "readCompletedPhases perm (Some cs) n =
     parsePhaseMarkers (map c_body (filter (isTrusted (resolveExecutionObligationTrust perm cs))
       (filter (\<lambda>c. parsePhaseMarkers [c_body c] n \<noteq> []) cs))) n"
  by (auto simp: readCompletedPhases_def Let_def simp del: filter_filter)

lemma in_completed:
  "p \<in> set (readCompletedPhases perm (Some cs) n) \<longleftrightarrow>
     ta.believed perm (\<lambda>c. p \<in> set (parsePhaseMarkers [c_body c] n)) cs \<noteq> []"
proof -
  have "p \<in> set (readCompletedPhases perm (Some cs) n) \<longleftrightarrow>
      (\<exists>c \<in> set cs. write_author perm c \<and> p \<in> set (parsePhaseMarkers [c_body c] n))"
    unfolding readCompletedPhases_Some
    by (subst set_parsePhaseMarkers) (force simp: isTrusted_write_author)
  then show ?thesis by (auto simp: ta.believed_def filter_empty_conv)
qed

text \<open>
  A phase counts as completed exactly when some comment carries its marker for this issue
  and the comment's author has a login with admin, maintain or write permission; a thread that
  cannot be read completes nothing.
\<close>

theorem completed_phase_iff:
  "p \<in> set (readCompletedPhases perm thread n) \<longleftrightarrow>
     (\<exists>cs c l out. thread = Some cs \<and> c \<in> set cs \<and> p \<in> set (parsePhaseMarkers [c_body c] n)
        \<and> c_author c = Some l \<and> trim (lower l) \<noteq> [] \<and> perm (lower l) = Some out
        \<and> lower (trim out) \<in> {''admin'', ''maintain'', ''write''})"
proof (cases thread)
  case None
  then show ?thesis by (simp add: readCompletedPhases_def)
next
  case (Some cs)
  then show ?thesis
    by (auto simp: in_completed ta.believed_def filter_empty_conv write_author_iff)
qed

text \<open>
  The workflow's own marker, posted by an author with write permission, records its phase
  whatever marker-free text surrounds it, and admits every later phase it is the prerequisite of.
\<close>

theorem phase_marker_admits:
  assumes "ph \<noteq> []" and "list_all phase_char ph" and "write_author perm c"
    and "CHR ''<'' \<notin> set pre" and "CHR ''<'' \<notin> set post"
    and "c_body c = pre @ phase_marker_line (ph, n) @ post" and "c \<in> set cs"
  shows "evaluatePhasePrerequisite (readCompletedPhases perm (Some cs) n) nxt [ph] n = Inr nxt"
proof -
  have "find_all phase_marker (c_body c) = [(ph, n)]"
    unfolding assms(6) using assms by (intro phase.find_record) auto
  then have "ph \<in> set (parsePhaseMarkers [c_body c] n)"
    by (simp add: parsePhaseMarkers_def set_add_def)
  then have "ph \<in> set (readCompletedPhases perm (Some cs) n)"
    using assms(3,7) unfolding in_completed ta.believed_def filter_empty_conv set_filter by blast
  then show ?thesis by (simp add: evaluatePhasePrerequisite_def)
qed

section \<open>Witnesses\<close>

definition said :: "string \<Rightarrow> int \<Rightarrow> string \<Rightarrow> comment" where
  "said who i b = \<lparr>c_id = Some i, c_body = b, c_author = Some who, c_association = None,
     c_author_type = Some ''User'', c_created_at = None\<rparr>"

text \<open>A repository in which only \<open>alice\<close> and \<open>gc-bot\<close> may write.\<close>

definition two_writers :: "string \<Rightarrow> string option" where
  "two_writers l = (if l = ''alice'' \<or> l = ''gc-bot'' then Some ''write'' else Some ''read'')"

lemma writers [simp]:
  "write_author two_writers (said ''alice'' i b)" "write_author two_writers (said ''gc-bot'' i b)"
  "\<not> write_author two_writers (said ''mallory'' i b)"
  by (simp_all add: write_author_iff said_def two_writers_def lower_def lower_char_def is_upper_def
      less_eq_char_def trim_def is_ws_def)

lemma said_fields [simp]: "c_body (said w i b) = b" "c_id (said w i b) = Some i" "c_author (said w i b) = Some w"
  by (simp_all add: said_def)

lemma phase_marker_admits_witness:
  "evaluatePhasePrerequisite
     (readCompletedPhases two_writers (Some [said ''alice'' 1 (phase_marker_line (''plan'', 7))]) 7)
     ''implement'' [''plan''] 7 = Inr ''implement''"
  by (rule phase_marker_admits
      [where pre = "[]" and post = "[]" and c = "said ''alice'' 1 (phase_marker_line (''plan'', 7))"])
    (simp_all add: phase_char_def is_lower_def less_eq_char_def del: phase_marker_line.simps)

end
