(* ===== verification/Obligations.thy ===== *)
theory Obligations
  imports Scanning
begin

text \<open>
  Execution obligations on the issue thread (\<open>lib/codex-workflow.js\<close>,
  \<open>lib/execution-obligation-v2.js\<close>, and the trusted read of
  \<open>lib/grc-legacy-compat-3.js\<close> and \<open>-4.js\<close>): the two marker families with their builders
  and parsers, the replay of the events into obligation states, the trust in comment authors,
  and the read that completion gates call.

  The thread is a list of comments. The GitHub collaborator endpoint is the parameter
  \<open>perm\<close> (the permission it prints for a login, \<open>None\<close> when the call fails), the
  authenticated login the parameter \<open>me\<close>.
\<close>

section \<open>Events\<close>

datatype obl_action = Opened | Escalated | Resolved

datatype disposition = Fix | Wontfix | NotApplicable | Reobserved

datatype obl_kind = StationObservation

record obl_event =
  issue_number :: nat
  obligation_id :: string
  obl_action :: obl_action
  schema_version :: nat
  kind :: "obl_kind option"
  station :: "string option"
  cycle :: "nat option"
  disposition :: "disposition option"
  observation_record_id :: "nat option"
  authorization_comment_id :: "nat option"

fun action_str :: "obl_action \<Rightarrow> string" where
  "action_str Opened = ''opened''"
| "action_str Escalated = ''escalated''"
| "action_str Resolved = ''resolved''"

definition action_of :: "string \<Rightarrow> obl_action option" where
  "action_of s =
     (if s = ''opened'' then Some Opened else if s = ''escalated'' then Some Escalated
      else if s = ''resolved'' then Some Resolved else None)"

fun disposition_str :: "disposition \<Rightarrow> string" where
  "disposition_str Fix = ''fix''"
| "disposition_str Wontfix = ''wontfix''"
| "disposition_str NotApplicable = ''not-applicable''"
| "disposition_str Reobserved = ''reobserved''"

text \<open>The dispositions a version 1 marker may carry, and those a version 2 marker may carry.\<close>

definition v1_disposition_of :: "string \<Rightarrow> disposition option" where
  "v1_disposition_of s =
     (if s = ''fix'' then Some Fix else if s = ''wontfix'' then Some Wontfix
      else if s = ''not-applicable'' then Some NotApplicable else None)"

definition v2_disposition_of :: "string \<Rightarrow> disposition option" where
  "v2_disposition_of s = (if s = ''reobserved'' then Some Reobserved else v1_disposition_of s)"

definition is_action :: "string \<Rightarrow> bool" where
  "is_action v \<longleftrightarrow> action_of v \<noteq> None"

definition is_v1_disposition :: "string \<Rightarrow> bool" where
  "is_v1_disposition v \<longleftrightarrow> v1_disposition_of v \<noteq> None"

definition is_v2_disposition :: "string \<Rightarrow> bool" where
  "is_v2_disposition v \<longleftrightarrow> v2_disposition_of v \<noteq> None"

lemma action_of_str [simp]: "action_of (action_str a) = Some a"
  by (cases a) (simp_all add: action_of_def)

lemma v2_disposition_of_str [simp]: "v2_disposition_of (disposition_str d) = Some d"
  by (cases d) (simp_all add: v2_disposition_of_def v1_disposition_of_def)

lemma v1_disposition_of_str: "d \<noteq> Reobserved \<Longrightarrow> v1_disposition_of (disposition_str d) = Some d"
  by (cases d) (simp_all add: v1_disposition_of_def)

lemma is_action_str [simp]: "is_action (action_str a)"
  by (simp add: is_action_def)

lemma is_v2_disposition_str [simp]: "is_v2_disposition (disposition_str d)"
  by (simp add: is_v2_disposition_def)

lemma is_v1_disposition_str [simp]: "is_v1_disposition (disposition_str d) \<longleftrightarrow> d \<noteq> Reobserved"
  by (cases d) (simp_all add: is_v1_disposition_def v1_disposition_of_def)

lemma v1_disposition_not_reobserved: "v1_disposition_of s \<noteq> Some Reobserved"
  by (simp add: v1_disposition_of_def)

section \<open>Identifiers\<close>

text \<open>\<open>[A-Z0-9][A-Z0-9._-]{0,63}\<close> and \<open>[a-z][a-z0-9_]{0,63}\<close>.\<close>

definition id_char :: "char \<Rightarrow> bool" where
  "id_char c \<longleftrightarrow> is_upper c \<or> is_digit c \<or> c = CHR ''.'' \<or> c = CHR ''_'' \<or> c = CHR ''-''"

definition obligation_id_ok :: "string \<Rightarrow> bool" where
  "obligation_id_ok v \<longleftrightarrow>
     v \<noteq> [] \<and> (is_upper (hd v) \<or> is_digit (hd v)) \<and> list_all id_char v \<and> length v \<le> 64"

definition station_char :: "char \<Rightarrow> bool" where
  "station_char c \<longleftrightarrow> is_lower c \<or> is_digit c \<or> c = CHR ''_''"

definition station_ok :: "string \<Rightarrow> bool" where
  "station_ok v \<longleftrightarrow> v \<noteq> [] \<and> is_lower (hd v) \<and> list_all station_char v \<and> length v \<le> 64"

lemma class_no_dq [simp]:
  "\<not> id_char dq" "\<not> station_char dq" "\<not> not_dq dq" "\<not> is_digit dq"
  by (simp_all add: id_char_def station_char_def not_dq_def is_digit_def is_upper_def is_lower_def
      less_eq_char_def)

section \<open>Marker family v1\<close>

definition schema_v1 :: string where
  "schema_v1 = ''gc.implement.execution-obligation/v1''"

definition schema_v2 :: string where
  "schema_v2 = ''gc.implement.execution-obligation/v2''"

text \<open>\<open>EXECUTION_OBLIGATION_MARKER_RE\<close>, with the event its captures describe.\<close>

definition v1_marker :: "obl_event matcher" where
  "v1_marker s = do {
     s1 \<leftarrow> marker_open ''gc:execution-obligation'' s;
     (_, s2) \<leftarrow> attr ''schema'' not_dq (\<lambda>v. v = schema_v1) s1;
     (i, s3) \<leftarrow> attr ''issue'' is_digit nonempty s2;
     (oid, s4) \<leftarrow> attr ''id'' id_char obligation_id_ok s3;
     (e, s5) \<leftarrow> attr ''event'' not_dq is_action s4;
     (let (d, s6) = opt_attr ''disposition'' not_dq is_v1_disposition s5;
          (a, s7) = opt_attr ''authorization_comment_id'' is_digit nonempty s6
      in do {
        s8 \<leftarrow> marker_close s7;
        Some (\<lparr>issue_number = dec_val i, obligation_id = oid, obl_action = the (action_of e),
               schema_version = 1, kind = None, station = None, cycle = None,
               disposition = Option.bind d v1_disposition_of,
               observation_record_id = None,
               authorization_comment_id = map_option dec_val a\<rparr>, s8) }) }"

text \<open>\<open>buildExecutionObligationMarker\<close>, for an already resolved authorization comment id.\<close>

definition v1_build :: "obl_event \<Rightarrow> string" where
  "v1_build e =
     ''<!-- gc:execution-obligation'' @ attr_str ''schema'' schema_v1
     @ attr_str ''issue'' (show_nat (issue_number e)) @ attr_str ''id'' (obligation_id e)
     @ attr_str ''event'' (action_str (obl_action e))
     @ opt_attr_str ''disposition'' (map_option disposition_str (disposition e))
     @ opt_attr_str ''authorization_comment_id'' (map_option show_nat (authorization_comment_id e))
     @ '' -->''"

section \<open>Marker family v2\<close>

definition v2_marker :: "obl_event matcher" where
  "v2_marker s = do {
     s1 \<leftarrow> marker_open ''gc:execution-obligation'' s;
     (_, s2) \<leftarrow> attr ''schema'' not_dq (\<lambda>v. v = schema_v2) s1;
     (i, s3) \<leftarrow> attr ''issue'' is_digit nonempty s2;
     (oid, s4) \<leftarrow> attr ''id'' id_char obligation_id_ok s3;
     (e, s5) \<leftarrow> attr ''event'' not_dq is_action s4;
     (_, s6) \<leftarrow> attr ''kind'' not_dq (\<lambda>v. v = ''station_observation'') s5;
     (st, s7) \<leftarrow> attr ''station'' station_char station_ok s6;
     (cy, s8) \<leftarrow> attr ''cycle'' is_digit nonempty s7;
     (let (d, s9) = opt_attr ''disposition'' not_dq is_v2_disposition s8;
          (r, s10) = opt_attr ''observation_record_id'' is_digit nonempty s9
      in do {
        s11 \<leftarrow> marker_close s10;
        Some (\<lparr>issue_number = dec_val i, obligation_id = oid, obl_action = the (action_of e),
               schema_version = 2, kind = Some StationObservation, station = Some st,
               cycle = Some (dec_val cy),
               disposition = Option.bind d v2_disposition_of,
               observation_record_id = map_option dec_val r,
               authorization_comment_id = None\<rparr>, s11) }) }"

definition v2_build :: "obl_event \<Rightarrow> string" where
  "v2_build e =
     ''<!-- gc:execution-obligation'' @ attr_str ''schema'' schema_v2
     @ attr_str ''issue'' (show_nat (issue_number e)) @ attr_str ''id'' (obligation_id e)
     @ attr_str ''event'' (action_str (obl_action e))
     @ attr_str ''kind'' ''station_observation''
     @ attr_str ''station'' (case station e of Some s \<Rightarrow> s | None \<Rightarrow> ''null'')
     @ attr_str ''cycle'' (case cycle e of Some n \<Rightarrow> show_nat n | None \<Rightarrow> ''null'')
     @ opt_attr_str ''disposition'' (map_option disposition_str (disposition e))
     @ opt_attr_str ''observation_record_id'' (map_option show_nat (observation_record_id e))
     @ '' -->''"

text \<open>The events each family can carry.\<close>

definition v1_ok :: "obl_event \<Rightarrow> bool" where
  "v1_ok e \<longleftrightarrow> obligation_id_ok (obligation_id e) \<and> schema_version e = 1 \<and> kind e = None
     \<and> station e = None \<and> cycle e = None \<and> observation_record_id e = None
     \<and> disposition e \<noteq> Some Reobserved"

definition v2_ok :: "obl_event \<Rightarrow> bool" where
  "v2_ok e \<longleftrightarrow> obligation_id_ok (obligation_id e) \<and> schema_version e = 2
     \<and> kind e = Some StationObservation \<and> authorization_comment_id e = None
     \<and> (\<exists>s. station e = Some s \<and> station_ok s) \<and> cycle e \<noteq> None"

lemma id_attr: "obligation_id_ok v \<Longrightarrow> \<forall>c \<in> set v. id_char c"
  by (simp add: obligation_id_ok_def list_all_iff)

lemma station_attr: "station_ok v \<Longrightarrow> \<forall>c \<in> set v. station_char c"
  by (simp add: station_ok_def list_all_iff)

lemma action_attr [simp]: "\<forall>c \<in> set (action_str a). not_dq c"
  by (cases a) (simp_all add: not_dq_def)

lemma disposition_attr [simp]: "\<forall>c \<in> set (disposition_str d). not_dq c"
  by (cases d) (simp_all add: not_dq_def)

lemma schema_attr [simp]: "\<forall>c \<in> set schema_v1. not_dq c" "\<forall>c \<in> set schema_v2. not_dq c"
  by (simp_all add: not_dq_def schema_v1_def schema_v2_def)

lemma kind_attr [simp]: "\<forall>c \<in> set ''station_observation''. not_dq c"
  by (simp add: not_dq_def)

lemma marker_open_build [simp]:
  "marker_open ''gc:execution-obligation'' (''<!-- gc:execution-obligation'' @ s) = Some s"
  by (simp add: marker_open_def ws0_def is_ws_def less_eq_char_def)

lemma v1_match_build: "v1_ok e \<Longrightarrow> v1_marker (v1_build e @ s) = Some (e, s)"
proof -
  assume ok: "v1_ok e"
  let ?d = "map_option disposition_str (disposition e)"
  let ?a = "map_option show_nat (authorization_comment_id e)"
  have d: "opt_attr ''disposition'' not_dq is_v1_disposition
      (opt_attr_str ''disposition'' ?d @ opt_attr_str ''authorization_comment_id'' ?a @ '' -->'' @ s)
      = (?d, opt_attr_str ''authorization_comment_id'' ?a @ '' -->'' @ s)"
    using ok by (intro opt_attr_then) (auto simp: v1_ok_def is_ws_def less_eq_char_def)
  have a: "opt_attr ''authorization_comment_id'' is_digit nonempty
      (opt_attr_str ''authorization_comment_id'' ?a @ '' -->'' @ s) = (?a, '' -->'' @ s)"
    by (intro opt_attr_close) (auto simp: is_ws_def less_eq_char_def)
  have dv: "Option.bind ?d v1_disposition_of = disposition e"
    using ok by (cases "disposition e") (auto simp: v1_ok_def v1_disposition_of_str)
  have av: "map_option dec_val ?a = authorization_comment_id e"
    by (cases "authorization_comment_id e") auto
  have e: "e = \<lparr>issue_number = issue_number e, obligation_id = obligation_id e,
     obl_action = obl_action e, schema_version = 1, kind = None, station = None, cycle = None,
     disposition = disposition e, observation_record_id = None,
     authorization_comment_id = authorization_comment_id e\<rparr>"
    using ok by (cases e) (simp add: v1_ok_def)
  have i: "\<forall>c \<in> set (obligation_id e). id_char c" "obligation_id_ok (obligation_id e)"
    using ok id_attr [of "obligation_id e"] by (simp_all add: v1_ok_def)
  show ?thesis
    unfolding v1_marker_def v1_build_def append_assoc marker_open_build
    by (simp add: attr_build i d a dv av is_ws_def less_eq_char_def del: append.simps)
      (rule e [symmetric, simplified])
qed

lemma v2_match_build: "v2_ok e \<Longrightarrow> v2_marker (v2_build e @ s) = Some (e, s)"
proof -
  assume ok: "v2_ok e"
  let ?d = "map_option disposition_str (disposition e)"
  let ?r = "map_option show_nat (observation_record_id e)"
  obtain st where st: "station e = Some st" "station_ok st" using ok by (auto simp: v2_ok_def)
  obtain cy where cy: "cycle e = Some cy" using ok by (auto simp: v2_ok_def)
  have d: "opt_attr ''disposition'' not_dq is_v2_disposition
      (opt_attr_str ''disposition'' ?d @ opt_attr_str ''observation_record_id'' ?r @ '' -->'' @ s)
      = (?d, opt_attr_str ''observation_record_id'' ?r @ '' -->'' @ s)"
    by (intro opt_attr_then) (auto simp: is_ws_def less_eq_char_def)
  have r: "opt_attr ''observation_record_id'' is_digit nonempty
      (opt_attr_str ''observation_record_id'' ?r @ '' -->'' @ s) = (?r, '' -->'' @ s)"
    by (intro opt_attr_close) (auto simp: is_ws_def less_eq_char_def)
  have dv: "Option.bind ?d v2_disposition_of = disposition e"
    by (cases "disposition e") auto
  have rv: "map_option dec_val ?r = observation_record_id e"
    by (cases "observation_record_id e") auto
  have e: "e = \<lparr>issue_number = issue_number e, obligation_id = obligation_id e,
     obl_action = obl_action e, schema_version = 2, kind = Some StationObservation,
     station = Some st, cycle = Some cy,
     disposition = disposition e, observation_record_id = observation_record_id e,
     authorization_comment_id = None\<rparr>"
    using ok st cy by (cases e) (simp add: v2_ok_def)
  have i: "\<forall>c \<in> set (obligation_id e). id_char c" "obligation_id_ok (obligation_id e)"
    using ok id_attr [of "obligation_id e"] by (simp_all add: v2_ok_def)
  note sa = station_attr [OF st(2)]
  show ?thesis
    unfolding v2_marker_def v2_build_def append_assoc marker_open_build
    by (simp add: attr_build i d r dv rv st cy sa is_ws_def less_eq_char_def del: append.simps)
      (rule e [symmetric, simplified])
qed

interpretation v1: marker_codec v1_build v1_marker "\<lambda>e. e" v1_ok
proof unfold_locales
  fix a s and r :: "obl_event \<times> string"
  show "v1_ok a \<Longrightarrow> v1_marker (v1_build a @ s) = Some (a, s)" by (rule v1_match_build)
  show "\<exists>t. v1_build a = CHR ''<'' # t" by (simp add: v1_build_def)
  show "v1_marker s = Some r \<Longrightarrow> \<exists>t. s = CHR ''<'' # t"
    unfolding v1_marker_def by (auto simp: bind_eq_Some_conv dest: marker_open_start)
qed

interpretation v2: marker_codec v2_build v2_marker "\<lambda>e. e" v2_ok
proof unfold_locales
  fix a s and r :: "obl_event \<times> string"
  show "v2_ok a \<Longrightarrow> v2_marker (v2_build a @ s) = Some (a, s)" by (rule v2_match_build)
  show "\<exists>t. v2_build a = CHR ''<'' # t" by (simp add: v2_build_def)
  show "v2_marker s = Some r \<Longrightarrow> \<exists>t. s = CHR ''<'' # t"
    unfolding v2_marker_def by (auto simp: bind_eq_Some_conv dest: marker_open_start)
qed

text \<open>Neither family reads the other's records.\<close>

lemma v1_ignores_v2: "v1_marker (v2_build e @ s) = None"
  unfolding v1_marker_def v2_build_def append_assoc marker_open_build
  by (simp add: attr_def attr_str_def run_def schema_v1_def schema_v2_def not_dq_def ws0_def
      is_ws_def less_eq_char_def)

lemma v2_ignores_v1: "v2_marker (v1_build e @ s) = None"
  unfolding v2_marker_def v1_build_def append_assoc marker_open_build
  by (simp add: attr_def attr_str_def run_def schema_v1_def schema_v2_def not_dq_def ws0_def
      is_ws_def less_eq_char_def)

end
