(* ===== verification/ObligationReplay.thy ===== *)
theory ObligationReplay
  imports Obligations
begin

text \<open>
  Parsing a comment thread into obligation events and replaying them into the open list
  (\<open>parseExecutionObligationMarkers\<close>, \<open>evaluateExecutionObligations\<close> of
  \<open>lib/codex-workflow.js\<close> and \<open>canReobservationClose\<close> of \<open>lib/execution-obligation-v2.js\<close>).
\<close>

section \<open>From comment bodies to events\<close>

definition parseExecutionObligationV2Markers :: "string \<Rightarrow> nat \<Rightarrow> obl_event list" where
  "parseExecutionObligationV2Markers body n =
     filter (\<lambda>e. issue_number e = n) (find_all v2_marker body)"

definition parseExecutionObligationMarkers :: "string list \<Rightarrow> nat \<Rightarrow> obl_event list" where
  "parseExecutionObligationMarkers bodies n =
     concat (map (\<lambda>body. filter (\<lambda>e. issue_number e = n) (find_all v1_marker body)
                          @ parseExecutionObligationV2Markers body n) bodies)"

definition buildStationObservationObligationId :: "string \<Rightarrow> nat \<Rightarrow> string" where
  "buildStationObservationObligationId st cy =
     ''STATION-OBS-'' @ map (\<lambda>c. if c = CHR ''_'' then CHR ''-'' else c) (upper st)
     @ ''-C'' @ show_nat cy"

section \<open>Replay\<close>

datatype obl_status = StOpen | StResolved

record obl_state =
  st_status :: obl_status
  st_disposition :: "disposition option"
  st_schema_version :: nat
  st_kind :: "obl_kind option"
  st_station :: "string option"
  st_cycle :: "nat option"

type_synonym obl_states = "(string, obl_state) jmap"

definition canReobservationClose :: "obl_state \<Rightarrow> obl_event \<Rightarrow> bool" where
  "canReobservationClose cur e \<longleftrightarrow>
     st_kind cur = Some StationObservation
     \<and> st_schema_version cur = 2
     \<and> schema_version e = 2
     \<and> kind e = Some StationObservation
     \<and> station e = st_station cur
     \<and> cycle e = st_cycle cur
     \<and> observation_record_id e \<noteq> None"

definition isTerminalObligationResolution :: "obl_state \<Rightarrow> obl_event \<Rightarrow> bool" where
  "isTerminalObligationResolution cur e \<longleftrightarrow>
     (if st_kind cur = Some StationObservation
      then disposition e = Some Reobserved \<and> canReobservationClose cur e
      else disposition e \<in> {Some Fix, Some Wontfix, Some NotApplicable})"

definition opened_state :: "obl_event \<Rightarrow> obl_state" where
  "opened_state e =
     \<lparr>st_status = StOpen, st_disposition = None, st_schema_version = schema_version e,
      st_kind = kind e, st_station = station e, st_cycle = cycle e\<rparr>"

definition obl_step :: "obl_states \<Rightarrow> obl_event \<Rightarrow> obl_states" where
  "obl_step m e =
     (let current = jm_get m (obligation_id e)
      in if obl_action e = Opened then jm_set (obligation_id e) (opened_state e) m
         else (case current of
             None \<Rightarrow> m
           | Some cur \<Rightarrow>
               if obl_action e = Escalated \<and> st_status cur = StOpen
               then jm_set (obligation_id e) (cur\<lparr>st_status := StOpen, st_disposition := None\<rparr>) m
               else if obl_action e = Resolved \<and> st_status cur = StOpen
                         \<and> isTerminalObligationResolution cur e
               then jm_set (obligation_id e)
                      (cur\<lparr>st_status := StResolved, st_disposition := disposition e\<rparr>) m
               else m))"

definition replay_events :: "obl_event list \<Rightarrow> obl_states" where
  "replay_events es = foldl obl_step [] es"

record obl_report =
  open_obligations :: "(string \<times> obl_state) list"
  clear :: bool

definition open_obligation_ids :: "obl_report \<Rightarrow> string list" where
  "open_obligation_ids r = map fst (open_obligations r)"

definition evaluateExecutionObligations :: "obl_event list \<Rightarrow> obl_report" where
  "evaluateExecutionObligations es =
     (let opn = sort_key fst (filter (\<lambda>(_, s). st_status s = StOpen) (replay_events es))
      in \<lparr>open_obligations = opn, clear = (opn = [])\<rparr>)"

section \<open>What replay keeps\<close>

text \<open>An id occurs once, and an open obligation carries no disposition.\<close>

definition obl_inv :: "obl_states \<Rightarrow> bool" where
  "obl_inv m \<longleftrightarrow> jm_wf m \<and> list_all (\<lambda>(_, s). st_status s = StOpen \<longrightarrow> st_disposition s = None) m"

lemma obl_step_inv: "obl_inv m \<Longrightarrow> obl_inv (obl_step m e)"
  by (auto simp: obl_inv_def obl_step_def opened_state_def Let_def list_all_iff jm_laws
      split: option.splits)

interpretation obl: replay obl_step obl_inv
  by unfold_locales (rule obl_step_inv)

lemma replay_obl_inv: "obl_inv (replay_events es)"
  unfolding replay_events_def by (rule obl.replay_inv) (simp add: obl_inv_def jm_wf_def)

lemma replay_wf: "jm_wf (replay_events es)"
  using replay_obl_inv [of es] by (simp add: obl_inv_def)

lemma replay_snoc: "replay_events (es @ [e]) = obl_step (replay_events es) e"
  by (simp add: replay_events_def)

text \<open>An event only touches the obligation it names.\<close>

lemma obl_step_other: "oid \<noteq> obligation_id e \<Longrightarrow> jm_get (obl_step m e) oid = jm_get m oid"
  by (simp add: obl_step_def Let_def jm_laws split: option.splits)

lemma in_open_ids:
  "oid \<in> set (open_obligation_ids (evaluateExecutionObligations es))
     \<longleftrightarrow> (\<exists>s. jm_get (replay_events es) oid = Some s \<and> st_status s = StOpen)"
  using jm.entries_get [OF replay_wf, of oid _ es]
  by (force simp: open_obligation_ids_def evaluateExecutionObligations_def Let_def)

section \<open>The declarative reading\<close>

text \<open>
  What the thread says about an obligation: the last \<open>opened\<close> event sets its identity, and the
  first later event that terminates that identity resolves it.
\<close>

fun terminates :: "obl_event \<Rightarrow> obl_event \<Rightarrow> bool" where
  "terminates o_ev e \<longleftrightarrow> obl_action e = Resolved \<and> obligation_id e = obligation_id o_ev
     \<and> isTerminalObligationResolution (opened_state o_ev) e"

definition last_opening :: "string \<Rightarrow> obl_event list \<Rightarrow> (obl_event \<times> obl_event list) option" where
  "last_opening oid es =
     foldl (\<lambda>acc e. if obligation_id e = oid \<and> obl_action e = Opened then Some (e, [])
                     else map_option (\<lambda>(o_ev, post). (o_ev, post @ [e])) acc) None es"

definition spec_state :: "string \<Rightarrow> obl_event list \<Rightarrow> obl_state option" where
  "spec_state oid es =
     map_option (\<lambda>(o_ev, post).
        (case find (terminates o_ev) post of
           None \<Rightarrow> opened_state o_ev
         | Some e \<Rightarrow> (opened_state o_ev)\<lparr>st_status := StResolved, st_disposition := disposition e\<rparr>))
       (last_opening oid es)"

lemma last_opening_snoc:
  "last_opening oid (es @ [e]) =
     (if obligation_id e = oid \<and> obl_action e = Opened then Some (e, [])
      else map_option (\<lambda>(o_ev, post). (o_ev, post @ [e])) (last_opening oid es))"
  by (simp add: last_opening_def)

lemma last_opening_id: "last_opening oid es = Some (o_ev, post) \<Longrightarrow> obligation_id o_ev = oid \<and> obl_action o_ev = Opened"
  by (induction es arbitrary: post rule: rev_induct) (auto simp: last_opening_def split: if_splits)

lemma last_opening_split:
  "last_opening oid es = Some (o_ev, post) \<longleftrightarrow>
     (\<exists>pre. es = pre @ o_ev # post \<and> obligation_id o_ev = oid \<and> obl_action o_ev = Opened
            \<and> (\<forall>e \<in> set post. \<not> (obligation_id e = oid \<and> obl_action e = Opened)))"
proof (induction es arbitrary: post rule: rev_induct)
  case Nil
  then show ?case by (simp add: last_opening_def)
next
  case (snoc e es)
  show ?case
  proof (cases post rule: rev_cases)
    case Nil
    then show ?thesis by (auto simp: last_opening_snoc)
  next
    case (snoc post' e')
    then show ?thesis using snoc.IH [of post'] by (auto simp: last_opening_snoc)
  qed
qed

lemma find_snoc: "find P (xs @ [x]) = (case find P xs of Some y \<Rightarrow> Some y | None \<Rightarrow> if P x then Some x else None)"
  by (induction xs) auto

lemma replay_refines: "jm_get (replay_events es) oid = spec_state oid es"
proof (induction es rule: rev_induct)
  case Nil
  then show ?case by (simp add: replay_events_def spec_state_def last_opening_def jm_get_def)
next
  case (snoc e es)
  show ?case
  proof (cases "obligation_id e = oid")
    case False
    then show ?thesis
      using snoc obl_step_other [of oid e "replay_events es"]
      by (cases "last_opening oid es")
        (auto simp: replay_snoc spec_state_def last_opening_snoc find_snoc
          dest: last_opening_id split: option.splits)
  next
    case True
    show ?thesis
    proof (cases "last_opening oid es")
      case None
      then show ?thesis using True snoc
        by (simp add: replay_snoc spec_state_def last_opening_snoc obl_step_def jm_laws)
    next
      case (Some p)
      obtain o_ev post where p: "p = (o_ev, post)" by (cases p)
      have o_id: "obligation_id o_ev = oid" using Some p last_opening_id by blast
      show ?thesis using True snoc Some p o_id
        by (cases "find (terminates o_ev) post"; cases "obl_action e")
          (auto simp: replay_snoc spec_state_def last_opening_snoc find_snoc obl_step_def jm_laws
            opened_state_def Let_def)
    qed
  qed
qed

lemma unterminated:
  "oid \<in> set (open_obligation_ids (evaluateExecutionObligations es))
     \<longleftrightarrow> (\<exists>o_ev post. last_opening oid es = Some (o_ev, post) \<and> find (terminates o_ev) post = None)"
  unfolding in_open_ids replay_refines spec_state_def
  by (cases "last_opening oid es")
    (auto simp: opened_state_def split: prod.splits option.splits)

lemma station_observation_needs:
  assumes "es = pre @ o_ev # post" and "obl_action o_ev = Opened" and "kind o_ev = Some StationObservation"
    and "\<forall>e \<in> set post. obligation_id e = obligation_id o_ev \<longrightarrow> obl_action e \<noteq> Opened"
    and "obligation_id o_ev \<notin> set (open_obligation_ids (evaluateExecutionObligations es))"
  shows "\<exists>e \<in> set post. obligation_id e = obligation_id o_ev \<and> obl_action e = Resolved
     \<and> disposition e = Some Reobserved \<and> schema_version e = 2 \<and> kind e = Some StationObservation
     \<and> station e = station o_ev \<and> cycle e = cycle o_ev \<and> observation_record_id e \<noteq> None"
proof -
  have "last_opening (obligation_id o_ev) es = Some (o_ev, post)"
    unfolding last_opening_split using assms(1-4) by auto
  with assms(5) have "find (terminates o_ev) post \<noteq> None" by (auto simp: unterminated)
  then obtain e where "e \<in> set post" "terminates o_ev e"
    by (auto simp: find_None_iff)
  then show ?thesis using assms(3)
    by (auto simp: isTerminalObligationResolution_def canReobservationClose_def opened_state_def)
qed

section \<open>Properties\<close>

text \<open>
  C4. Replay is exactly the declarative reading: an id is reported open iff its last \<open>opened\<close>
  event is followed by no resolution that is terminal for the identity that event recorded,
  whatever escalations and foreign events the thread holds in between.
\<close>

theorem open_iff_unterminated:
  "oid \<in> set (open_obligation_ids (evaluateExecutionObligations es))
     \<longleftrightarrow> (\<exists>pre o_ev post. es = pre @ o_ev # post \<and> obligation_id o_ev = oid \<and> obl_action o_ev = Opened
           \<and> (\<forall>e \<in> set post. obligation_id e = oid \<longrightarrow> obl_action e \<noteq> Opened
                \<and> \<not> (obl_action e = Resolved \<and> isTerminalObligationResolution (opened_state o_ev) e)))"
  unfolding unterminated last_opening_split find_None_iff by (auto; blast)

text \<open>
  C9. A station observation that was opened and not re-opened is closed only by a \<open>reobserved\<close>
  event of schema 2 for the same station and logical cycle that names an observation record.
  No \<open>fix\<close>, \<open>wontfix\<close> or \<open>not-applicable\<close> closes it.
\<close>

theorem station_observation_closure:
  assumes "es = pre @ o_ev # post" and "obl_action o_ev = Opened" and "kind o_ev = Some StationObservation"
    and "\<forall>e \<in> set post. obligation_id e = obligation_id o_ev \<longrightarrow> obl_action e \<noteq> Opened"
    and "obligation_id o_ev \<notin> set (open_obligation_ids (evaluateExecutionObligations es))"
  shows "\<exists>e \<in> set post. obligation_id e = obligation_id o_ev \<and> obl_action e = Resolved
     \<and> disposition e = Some Reobserved \<and> schema_version e = 2 \<and> kind e = Some StationObservation
     \<and> station e = station o_ev \<and> cycle e = cycle o_ev \<and> observation_record_id e \<noteq> None"
  by (rule station_observation_needs [OF assms])

text \<open>
  The report lists each open obligation once, in ascending id order, every one of them in the
  open status with no disposition, and \<open>clear\<close> holds exactly when none is open.
\<close>

theorem evaluate_report:
  "sorted (open_obligation_ids (evaluateExecutionObligations es))
   \<and> distinct (open_obligation_ids (evaluateExecutionObligations es))
   \<and> list_all (\<lambda>(_, s). st_status s = StOpen \<and> st_disposition s = None)
        (open_obligations (evaluateExecutionObligations es))
   \<and> (clear (evaluateExecutionObligations es) \<longleftrightarrow>
        (\<nexists>oid s. jm_get (replay_events es) oid = Some s \<and> st_status s = StOpen))"
proof (intro conjI)
  let ?r = "evaluateExecutionObligations es"
  show "sorted (open_obligation_ids ?r)"
    by (simp add: open_obligation_ids_def evaluateExecutionObligations_def Let_def)
  let ?F = "filter (\<lambda>(_, s). st_status s = StOpen) (replay_events es)"
  have "distinct (map fst ?F)"
    using replay_wf by (simp add: jm_wf_def distinct_map_filter)
  then have "distinct ?F" "inj_on fst (set ?F)" by (simp_all only: distinct_map)
  then show "distinct (open_obligation_ids ?r)"
    unfolding open_obligation_ids_def evaluateExecutionObligations_def Let_def obl_report.simps
      distinct_map by simp
  show "list_all (\<lambda>(_, s). st_status s = StOpen \<and> st_disposition s = None) (open_obligations ?r)"
    using replay_obl_inv [of es]
    by (auto simp: evaluateExecutionObligations_def Let_def list_all_iff obl_inv_def)
  show "clear ?r \<longleftrightarrow> (\<nexists>oid s. jm_get (replay_events es) oid = Some s \<and> st_status s = StOpen)"
  proof -
    have "clear ?r \<longleftrightarrow> set ?F = {}"
      unfolding evaluateExecutionObligations_def Let_def obl_report.simps
      by (metis set_empty set_sort)
    also have "\<dots> \<longleftrightarrow> (\<forall>oid s. (oid, s) \<in> set (replay_events es) \<longrightarrow> st_status s \<noteq> StOpen)"
      by (auto simp: filter_empty_conv)
    finally show ?thesis using jm.entries_get [OF replay_wf, of _ _ es] by simp
  qed
qed

section \<open>Witnesses\<close>

definition gate_opened :: obl_event where
  "gate_opened = \<lparr>issue_number = 7, obligation_id = ''STATION-OBS-CODEX-C2'', obl_action = Opened,
     schema_version = 2, kind = Some StationObservation, station = Some ''codex'', cycle = Some 2,
     disposition = None, observation_record_id = None, authorization_comment_id = None\<rparr>"

definition gate_reobserved :: obl_event where
  "gate_reobserved = gate_opened
     \<lparr>obl_action := Resolved, disposition := Some Reobserved, observation_record_id := Some 91\<rparr>"

lemma station_id_example:
  "obligation_id gate_opened = buildStationObservationObligationId ''codex'' 2"
  by code_simp

lemma open_iff_unterminated_witness:
  "obligation_id gate_opened \<in> set (open_obligation_ids (evaluateExecutionObligations [gate_opened]))"
  unfolding open_iff_unterminated
  by (rule exI [of _ "[]"], rule exI [of _ gate_opened], rule exI [of _ "[]"]) (simp add: gate_opened_def)

lemma station_observation_closure_witness:
  "\<exists>e \<in> set [gate_reobserved]. station e = station gate_opened \<and> observation_record_id e \<noteq> None"
proof -
  have "obligation_id gate_opened
      \<notin> set (open_obligation_ids (evaluateExecutionObligations [gate_opened, gate_reobserved]))"
    by (simp add: evaluateExecutionObligations_def replay_events_def obl_step_def jm_get_def jm_set_def
        open_obligation_ids_def gate_reobserved_def gate_opened_def opened_state_def
        isTerminalObligationResolution_def canReobservationClose_def Let_def)
  then show ?thesis
    using station_observation_closure [of "[gate_opened, gate_reobserved]" "[]" gate_opened "[gate_reobserved]"]
    by (force simp: gate_reobserved_def gate_opened_def)
qed

end
