(* ===== verification/ObligationRead.thy ===== *)
theory ObligationRead
  imports ObligationReplay Thread
begin

text \<open>
  The trusted read of the obligation ledger (\<open>lib/grc-legacy-compat-4.js\<close>,
  \<open>hasVerifiedStructuredWontfixAuthorization\<close> of \<open>-3.js\<close>, the authorization records of
  \<open>lib/codex-workflow.js\<close> and \<open>hasVerifiedStationReobservation\<close> of
  \<open>lib/execution-obligation-v2.js\<close>). \<open>me\<close> is the login \<open>gh api user\<close> reports.
\<close>

section \<open>Issue comment URLs\<close>

record comment_url =
  cu_owner :: string
  cu_name :: string
  cu_issue :: nat
  cu_comment :: nat

definition not_slash :: "char \<Rightarrow> bool" where
  "not_slash c \<longleftrightarrow> c \<noteq> CHR ''/''"

definition parseIssueCommentUrl :: "string \<Rightarrow> comment_url option" where
  "parseIssueCommentUrl v = do {
     s1 \<leftarrow> lit ''https://github.com/'' v;
     (ow, s2) \<leftarrow> run not_slash nonempty s1;
     s3 \<leftarrow> lit ''/'' s2;
     (nm, s4) \<leftarrow> run not_slash nonempty s3;
     s5 \<leftarrow> lit ''/issues/'' s4;
     (i, s6) \<leftarrow> run is_digit nonempty s5;
     s7 \<leftarrow> lit ''#issuecomment-'' s6;
     (c, s8) \<leftarrow> run is_digit nonempty s7;
     if s8 = [] then Some \<lparr>cu_owner = ow, cu_name = nm, cu_issue = dec_val i, cu_comment = dec_val c\<rparr>
     else None }"

text \<open>\<open>buildExecutionObligationMarker\<close> with its two sources of the authorization comment id.\<close>

definition buildExecutionObligationMarker ::
  "nat \<Rightarrow> string \<Rightarrow> obl_action \<Rightarrow> disposition option \<Rightarrow> nat option \<Rightarrow> string option \<Rightarrow> string" where
  "buildExecutionObligationMarker n oid ev d auth_id user_auth =
     v1_build \<lparr>issue_number = n, obligation_id = oid, obl_action = ev, schema_version = 1,
               kind = None, station = None, cycle = None, disposition = d,
               observation_record_id = None,
               authorization_comment_id =
                 (case auth_id of Some a \<Rightarrow> Some a
                  | None \<Rightarrow> map_option cu_comment (Option.bind user_auth parseIssueCommentUrl))\<rparr>"

section \<open>Authorization records\<close>

record auth_record =
  au_issue :: nat
  au_obligation :: string
  au_source :: nat

definition schema_auth :: string where
  "schema_auth = ''gc.implement.execution-obligation-authorization/v1''"

text \<open>\<open>EXECUTION_OBLIGATION_AUTHORIZATION_RE\<close>.\<close>

definition auth_marker :: "auth_record matcher" where
  "auth_marker s = do {
     s1 \<leftarrow> marker_open ''gc:execution-obligation-authorization'' s;
     (_, s2) \<leftarrow> attr ''schema'' not_dq (\<lambda>v. v = schema_auth) s1;
     (i, s3) \<leftarrow> attr ''issue'' is_digit nonempty s2;
     (oid, s4) \<leftarrow> attr ''id'' id_char obligation_id_ok s3;
     (_, s5) \<leftarrow> attr ''action'' not_dq (\<lambda>v. v = ''authorize_wontfix'') s4;
     (src, s6) \<leftarrow> attr ''source_comment_id'' is_digit nonempty s5;
     s7 \<leftarrow> marker_close s6;
     Some (\<lparr>au_issue = dec_val i, au_obligation = oid, au_source = dec_val src\<rparr>, s7) }"

definition buildExecutionObligationAuthorizationMarker :: "auth_record \<Rightarrow> string" where
  "buildExecutionObligationAuthorizationMarker a =
     ''<!-- gc:execution-obligation-authorization'' @ attr_str ''schema'' schema_auth
     @ attr_str ''issue'' (show_nat (au_issue a)) @ attr_str ''id'' (au_obligation a)
     @ attr_str ''action'' ''authorize_wontfix''
     @ attr_str ''source_comment_id'' (show_nat (au_source a)) @ '' -->''"

definition parseExecutionObligationAuthorization :: "string \<Rightarrow> nat \<Rightarrow> string \<Rightarrow> nat option" where
  "parseExecutionObligationAuthorization body n oid =
     map_option au_source
       (find (\<lambda>a. au_issue a = n \<and> au_obligation a = oid) (find_all auth_marker body))"

definition isExactWontfixAuthorizationCommand :: "string \<Rightarrow> string \<Rightarrow> bool" where
  "isExactWontfixAuthorizationCommand body oid \<longleftrightarrow>
     trim body = ''/ground-control authorize-wontfix '' @ oid"

definition hasVerifiedStructuredWontfixAuthorization ::
  "comment \<Rightarrow> comment list \<Rightarrow> trust \<Rightarrow> nat \<Rightarrow> string \<Rightarrow> bool" where
  "hasVerifiedStructuredWontfixAuthorization authorization comments tr n oid =
     (if \<not> isTrusted tr authorization then False
      else (case parseExecutionObligationAuthorization (c_body authorization) n oid of
              None \<Rightarrow> False
            | Some src \<Rightarrow>
                (case find (\<lambda>c. c_id c = Some (int src)) comments of
                   None \<Rightarrow> False
                 | Some source \<Rightarrow>
                     isTrusted tr source \<and> isExactWontfixAuthorizationCommand (c_body source) oid)))"

section \<open>Attested re-observations\<close>

definition hasVerifiedStationReobservation ::
  "obl_event \<Rightarrow> comment \<Rightarrow> comment list \<Rightarrow> string option \<Rightarrow> bool" where
  "hasVerifiedStationReobservation e marker comments me =
     (case me of
        None \<Rightarrow> False
      | Some login \<Rightarrow>
          if trim login = [] then False
          else if author_login marker \<noteq> Some (lower login) then False
          else (case observation_record_id e of
                  None \<Rightarrow> False
                | Some r \<Rightarrow>
                    if c_id marker = Some (int r) then False
                    else (case find (\<lambda>c. c_id c = Some (int r)) comments of
                            None \<Rightarrow> False
                          | Some rec \<Rightarrow> author_login rec = Some (lower login))))"

definition is_reobservation :: "obl_event \<Rightarrow> bool" where
  "is_reobservation e \<longleftrightarrow> obl_action e = Resolved \<and> disposition e = Some Reobserved"

definition filterAttestedReobservations ::
  "(comment \<times> obl_event list) list \<Rightarrow> comment list \<Rightarrow> string option \<Rightarrow> obl_event list" where
  "filterAttestedReobservations markers comments me =
     (let events = concat (map snd markers)
      in if \<not> list_ex is_reobservation events then events
         else concat (map (\<lambda>(c, es).
                filter (\<lambda>e. \<not> (is_reobservation e
                              \<and> \<not> hasVerifiedStationReobservation e c comments me)) es) markers))"

section \<open>The read\<close>

datatype read_error = ProvenanceUnverifiable | AuthorizationUnverifiable string

definition marker_comments :: "comment list \<Rightarrow> nat \<Rightarrow> (comment \<times> obl_event list) list" where
  "marker_comments comments n =
     filter (\<lambda>(_, es). es \<noteq> [])
       (map (\<lambda>c. (c, parseExecutionObligationMarkers [c_body c] n)) comments)"

definition wontfix_authorized :: "comment list \<Rightarrow> trust \<Rightarrow> nat \<Rightarrow> obl_event \<Rightarrow> bool" where
  "wontfix_authorized comments tr n e =
     (if obl_action e \<noteq> Resolved \<or> disposition e \<noteq> Some Wontfix then True
      else (case find (\<lambda>c. c_id c = map_option int (authorization_comment_id e)) comments of
              None \<Rightarrow> False
            | Some authorization \<Rightarrow>
                hasVerifiedStructuredWontfixAuthorization authorization comments tr n
                  (obligation_id e)))"

definition readTrustedExecutionObligationState ::
  "(string \<Rightarrow> string option) \<Rightarrow> string option \<Rightarrow> comment list \<Rightarrow> nat \<Rightarrow> read_error + obl_report" where
  "readTrustedExecutionObligationState perm me comments n =
     (let markers = marker_comments comments n
      in if markers = [] then Inr (evaluateExecutionObligations [])
         else
           let tr = resolveExecutionObligationTrust perm comments
           in if list_ex (\<lambda>(c, _). \<not> isTrusted tr c) markers then Inl ProvenanceUnverifiable
              else
                let events = filterAttestedReobservations markers comments me
                in (case find (\<lambda>e. \<not> wontfix_authorized comments tr n e) events of
                      Some e \<Rightarrow> Inl (AuthorizationUnverifiable (obligation_id e))
                    | None \<Rightarrow> Inr (evaluateExecutionObligations events)))"

section \<open>Records in a body\<close>

text \<open>A record of one family is a single event of its own family and none of the other's.\<close>

lemma show_nat_no_lt [simp]: "CHR ''<'' \<notin> set (show_nat n)"
  using show_nat_digits [of n] by (auto simp: is_digit_def less_eq_char_def)

lemma obligation_id_no_lt: "obligation_id_ok v \<Longrightarrow> CHR ''<'' \<notin> set v"
  using id_attr [of v]
  by (auto simp: id_char_def is_upper_def is_digit_def less_eq_char_def)

lemma station_no_lt: "station_ok v \<Longrightarrow> CHR ''<'' \<notin> set v"
  using station_attr [of v]
  by (auto simp: station_char_def is_lower_def is_digit_def less_eq_char_def)

lemma attr_str_no_lt: "CHR ''<'' \<notin> set nm \<Longrightarrow> CHR ''<'' \<notin> set v \<Longrightarrow> CHR ''<'' \<notin> set (attr_str nm v)"
  by (simp add: attr_str_def)

lemma action_no_lt [simp]: "CHR ''<'' \<notin> set (action_str a)"
  by (cases a) simp_all

lemma disposition_no_lt [simp]: "CHR ''<'' \<notin> set (disposition_str d)"
  by (cases d) simp_all

lemma opt_attr_str_no_lt [simp]:
  "CHR ''<'' \<notin> set nm \<Longrightarrow> CHR ''<'' \<notin> set (opt_attr_str nm (map_option disposition_str od))"
  "CHR ''<'' \<notin> set nm \<Longrightarrow> CHR ''<'' \<notin> set (opt_attr_str nm (map_option show_nat on))"
  by (cases od; simp add: opt_attr_str_def attr_str_def)
    (cases on; simp add: opt_attr_str_def attr_str_def)

lemma v1_build_tail: "v1_ok e \<Longrightarrow> \<exists>t. v1_build e = CHR ''<'' # t \<and> CHR ''<'' \<notin> set t"
  by (auto simp: v1_build_def v1_ok_def schema_v1_def obligation_id_no_lt attr_str_no_lt)

lemma v2_build_tail: "v2_ok e \<Longrightarrow> \<exists>t. v2_build e = CHR ''<'' # t \<and> CHR ''<'' \<notin> set t"
  by (auto simp: v2_build_def v2_ok_def schema_v2_def obligation_id_no_lt station_no_lt attr_str_no_lt split: option.splits)

lemma find_v2_skips_v1: "v1_ok e \<Longrightarrow> find_all v2_marker (v1_build e @ s) = find_all v2_marker s"
proof -
  assume "v1_ok e"
  then obtain t where t: "v1_build e = CHR ''<'' # t" "CHR ''<'' \<notin> set t" using v1_build_tail by blast
  show ?thesis using v2_ignores_v1 [of e s] v2.find_plain [OF t(2), of s] by (simp add: t)
qed

lemma find_v1_skips_v2: "v2_ok e \<Longrightarrow> find_all v1_marker (v2_build e @ s) = find_all v1_marker s"
proof -
  assume "v2_ok e"
  then obtain t where t: "v2_build e = CHR ''<'' # t" "CHR ''<'' \<notin> set t" using v2_build_tail by blast
  show ?thesis using v1_ignores_v2 [of e s] v1.find_plain [OF t(2), of s] by (simp add: t)
qed

lemmas find_obligations = v1.find_plain v2.find_plain v1.find_none v2.find_none v1.find_build v2.find_build
  find_v2_skips_v1 find_v1_skips_v2

lemma parse_one:
  "parseExecutionObligationMarkers [b] n =
     filter (\<lambda>e. issue_number e = n) (find_all v1_marker b)
     @ filter (\<lambda>e. issue_number e = n) (find_all v2_marker b)"
  by (simp add: parseExecutionObligationMarkers_def parseExecutionObligationV2Markers_def)

section \<open>What the read guarantees\<close>

text \<open>The events the read evaluates: the thread's own, less unattested re-observations.\<close>

definition admissible :: "comment list \<Rightarrow> string option \<Rightarrow> comment \<Rightarrow> obl_event \<Rightarrow> bool" where
  "admissible comments me c e \<longleftrightarrow> is_reobservation e \<longrightarrow> hasVerifiedStationReobservation e c comments me"

definition ledger :: "string option \<Rightarrow> comment list \<Rightarrow> nat \<Rightarrow> obl_event list" where
  "ledger me comments n =
     concat (map (\<lambda>c. filter (admissible comments me c) (parseExecutionObligationMarkers [c_body c] n)) comments)"

lemma concat_filter_nonempty:
  "concat (map (\<lambda>(c, es). f c es) (filter (\<lambda>(_, es). es \<noteq> []) (map (\<lambda>c. (c, g c)) cs)))
     = concat (map (\<lambda>c. f c (g c)) cs)" if "\<And>c. f c [] = []"
  by (induction cs) (auto simp: that)

lemma filterAttested_ledger:
  "filterAttestedReobservations (marker_comments comments n) comments me = ledger me comments n"
proof -
  let ?M = "marker_comments comments n"
  have all: "concat (map (\<lambda>(c, es). filter (\<lambda>e. \<not> (is_reobservation e \<and> \<not> hasVerifiedStationReobservation e c comments me)) es) ?M)
      = ledger me comments n"
    unfolding marker_comments_def ledger_def
    by (subst concat_filter_nonempty) (simp_all add: admissible_def cong: filter_cong)
  show ?thesis
  proof (cases "list_ex is_reobservation (concat (map snd ?M))")
    case True
    with all show ?thesis by (simp add: filterAttestedReobservations_def Let_def)
  next
    case False
    then have "\<forall>p \<in> set ?M. \<forall>e \<in> set (snd p). \<not> is_reobservation e"
      by (auto simp: list_ex_iff)
    then have "concat (map (\<lambda>(c, es). filter (\<lambda>e. \<not> (is_reobservation e \<and> \<not> hasVerifiedStationReobservation e c comments me)) es) ?M)
        = concat (map snd ?M)"
      by (intro arg_cong [where f = concat] map_cong) (auto intro!: filter_True)
    with False all show ?thesis by (simp add: filterAttestedReobservations_def Let_def)
  qed
qed

lemma marker_comments_empty: "marker_comments comments n = [] \<Longrightarrow> ledger me comments n = []"
  using filterAttested_ledger [of comments n me] by (simp add: filterAttestedReobservations_def)

lemma in_marker_comments:
  "(c, es) \<in> set (marker_comments comments n) \<longleftrightarrow>
     c \<in> set comments \<and> es = parseExecutionObligationMarkers [c_body c] n \<and> es \<noteq> []"
  by (auto simp: marker_comments_def)

lemma in_ledger:
  "e \<in> set (ledger me comments n) \<longleftrightarrow>
     (\<exists>c \<in> set comments. e \<in> set (parseExecutionObligationMarkers [c_body c] n) \<and> admissible comments me c e)"
  by (auto simp: ledger_def)

text \<open>The read succeeds exactly when every marker is trusted and every wontfix authorized.\<close>

lemma read_ok_iff:
  "readTrustedExecutionObligationState perm me comments n = Inr r \<longleftrightarrow>
     r = evaluateExecutionObligations (ledger me comments n)
     \<and> (\<forall>c \<in> set comments. parseExecutionObligationMarkers [c_body c] n \<noteq> [] \<longrightarrow> write_author perm c)
     \<and> (\<forall>e \<in> set (ledger me comments n).
          wontfix_authorized comments (resolveExecutionObligationTrust perm comments) n e)"
proof (cases "marker_comments comments n = []")
  case True
  then have "\<forall>c \<in> set comments. parseExecutionObligationMarkers [c_body c] n = []"
    by (auto simp: marker_comments_def filter_empty_conv)
  with True marker_comments_empty [OF True, of me] show ?thesis
    by (auto simp: readTrustedExecutionObligationState_def)
next
  case False
  have tr: "list_ex (\<lambda>(c, _). \<not> isTrusted (resolveExecutionObligationTrust perm comments) c)
        (marker_comments comments n)
      \<longleftrightarrow> \<not> (\<forall>c \<in> set comments. parseExecutionObligationMarkers [c_body c] n \<noteq> [] \<longrightarrow> write_author perm c)"
    by (auto simp: list_ex_iff marker_comments_def isTrusted_write_author)
  show ?thesis
    using False unfolding readTrustedExecutionObligationState_def Let_def filterAttested_ledger tr
    by (auto simp: find_None_iff find_Some_iff split: option.splits)
qed

lemma findSomeD: "find P cs = Some c \<Longrightarrow> c \<in> set cs \<and> P c"
  by (auto simp: find_Some_iff)

lemma find_trusted:
  "find P cs = Some c \<Longrightarrow> isTrusted (resolveExecutionObligationTrust perm cs) c \<longleftrightarrow> write_author perm c"
  by (rule isTrusted_write_author) (auto simp: find_Some_iff)

lemma find_append:
  "find P (xs @ ys) = (case find P xs of Some x \<Rightarrow> Some x | None \<Rightarrow> find P ys)"
  by (induction xs) auto

lemma verified_reobservation:
  "hasVerifiedStationReobservation e c comments me \<Longrightarrow>
     \<exists>login r rec. me = Some login \<and> trim login \<noteq> [] \<and> author_login c = Some (lower login)
        \<and> observation_record_id e = Some r \<and> rec \<in> set comments \<and> c_id rec = Some (int r)
        \<and> c_id c \<noteq> Some (int r) \<and> author_login rec = Some (lower login)"
  by (auto simp: hasVerifiedStationReobservation_def find_Some_iff split: option.splits if_splits) force

lemma verified_reobservation_extend:
  assumes "author_login c' \<noteq> map_option lower me"
  shows "hasVerifiedStationReobservation e c (comments @ [c']) me
           = hasVerifiedStationReobservation e c comments me"
  using assms by (auto simp: hasVerifiedStationReobservation_def find_append split: option.splits)

lemma wontfix_authorized_extend:
  assumes "wontfix_authorized cs (resolveExecutionObligationTrust perm cs) n e"
  shows "wontfix_authorized (cs @ [c]) (resolveExecutionObligationTrust perm (cs @ [c])) n e"
proof (cases "obl_action e \<noteq> Resolved \<or> disposition e \<noteq> Some Wontfix")
  case True
  then show ?thesis by (simp add: wontfix_authorized_def)
next
  case False
  let ?t = "resolveExecutionObligationTrust perm cs"
  let ?t' = "resolveExecutionObligationTrust perm (cs @ [c])"
  have same: "find P cs = Some x \<Longrightarrow> isTrusted ?t' x = isTrusted ?t x" for P x
    by (subst (1 2) isTrusted_write_author) (auto simp: find_Some_iff)
  from False assms obtain a src s where
    a: "find (\<lambda>c. c_id c = map_option int (authorization_comment_id e)) cs = Some a" "isTrusted ?t a"
    and src: "parseExecutionObligationAuthorization (c_body a) n (obligation_id e) = Some src"
    and s: "find (\<lambda>c. c_id c = Some (int src)) cs = Some s" "isTrusted ?t s"
      "isExactWontfixAuthorizationCommand (c_body s) (obligation_id e)"
    by (auto simp: wontfix_authorized_def hasVerifiedStructuredWontfixAuthorization_def
        split: option.splits if_splits)
  with same [OF a(1)] same [OF s(1)] show ?thesis
    by (simp add: wontfix_authorized_def hasVerifiedStructuredWontfixAuthorization_def find_append)
qed

section \<open>Two events any writer can post\<close>

definition reopening :: "nat \<Rightarrow> string \<Rightarrow> obl_event" where
  "reopening n oid = \<lparr>issue_number = n, obligation_id = oid, obl_action = Opened, schema_version = 1,
     kind = None, station = None, cycle = None, disposition = None,
     observation_record_id = None, authorization_comment_id = None\<rparr>"

definition fix_claim :: "nat \<Rightarrow> string \<Rightarrow> obl_event" where
  "fix_claim n oid = (reopening n oid)\<lparr>obl_action := Resolved, disposition := Some Fix\<rparr>"

text \<open>A successful read stays successful when a writer appends plain events.\<close>

lemma read_appended:
  assumes "readTrustedExecutionObligationState perm me cs n = Inr report"
    and "parseExecutionObligationMarkers [c_body p] n = new" and "write_author perm p"
    and plain: "\<forall>e \<in> set new. \<not> is_reobservation e \<and> \<not> (obl_action e = Resolved \<and> disposition e = Some Wontfix)"
  shows "\<exists>es. readTrustedExecutionObligationState perm me (cs @ [p]) n = Inr (evaluateExecutionObligations (es @ new))
    \<and> (author_login p \<noteq> map_option lower me \<longrightarrow> es = ledger me cs n)"
proof (intro exI conjI impI)
  let ?es = "concat (map (\<lambda>c. filter (admissible (cs @ [p]) me c) (parseExecutionObligationMarkers [c_body c] n)) cs)"
  note ok = assms(1) [unfolded read_ok_iff]
  have "filter (admissible (cs @ [p]) me p) new = new"
    using plain by (intro filter_True) (simp add: admissible_def)
  then have l: "ledger me (cs @ [p]) n = ?es @ new" using assms(2) by (simp add: ledger_def)
  have w: "wontfix_authorized (cs @ [p]) (resolveExecutionObligationTrust perm (cs @ [p])) n x"
    if x: "x \<in> set (?es @ new)" for x
  proof (cases "obl_action x = Resolved \<and> disposition x = Some Wontfix")
    case True
    then have "\<not> is_reobservation x" "x \<in> set ?es" using x plain by (auto simp: is_reobservation_def)
    then have "x \<in> set (ledger me cs n)" by (auto simp: in_ledger admissible_def)
    then show ?thesis using ok wontfix_authorized_extend by blast
  qed (auto simp: wontfix_authorized_def)
  show "readTrustedExecutionObligationState perm me (cs @ [p]) n = Inr (evaluateExecutionObligations (?es @ new))"
    unfolding read_ok_iff l using ok assms(2,3) w by auto
  assume "author_login p \<noteq> map_option lower me"
  then have "admissible (cs @ [p]) me = admissible cs me"
    by (intro ext) (simp add: admissible_def verified_reobservation_extend)
  then show "?es = ledger me cs n" by (simp add: ledger_def)
qed

lemma open_state:
  "(oid, st) \<in> set (open_obligations (evaluateExecutionObligations es))
     \<Longrightarrow> jm_get (replay_events es) oid = Some st \<and> st_status st = StOpen"
  using jm.entries_get [OF replay_wf, of oid st es] by (auto simp: evaluateExecutionObligations_def Let_def)

lemma fix_keeps_observation:
  assumes "jm_get (replay_events es) oid = Some st" and "st_status st = StOpen" and "st_kind st = Some StationObservation"
  shows "oid \<in> set (open_obligation_ids (evaluateExecutionObligations (es @ [fix_claim n oid])))"
  using assms unfolding in_open_ids replay_snoc
  by (simp add: obl_step_def fix_claim_def reopening_def isTerminalObligationResolution_def)

lemma reopened_fixed:
  "oid \<notin> set (open_obligation_ids (evaluateExecutionObligations (es @ [reopening n oid, fix_claim n oid])))"
proof -
  have "replay_events (es @ [reopening n oid, fix_claim n oid])
      = obl_step (obl_step (replay_events es) (reopening n oid)) (fix_claim n oid)"
    by (simp add: replay_events_def)
  then show ?thesis
    unfolding in_open_ids
    by (simp add: obl_step_def fix_claim_def reopening_def isTerminalObligationResolution_def opened_state_def
        jm_laws Let_def)
qed

section \<open>Properties\<close>

text \<open>
  C1. A successful read believes nobody it should not: every marker for the issue was written by
  an author with write permission, and every \<open>wontfix\<close> resolution names an authorization record by
  such an author, which names a comment by such an author that is exactly the authorization
  command for that obligation.
\<close>

theorem trusted_read_sound:
  assumes "readTrustedExecutionObligationState perm me comments n = Inr r"
    and "c \<in> set comments" and "e \<in> set (parseExecutionObligationMarkers [c_body c] n)"
  shows "write_author perm c
    \<and> (obl_action e = Resolved \<and> disposition e = Some Wontfix \<longrightarrow>
        (\<exists>a src s. a \<in> set comments \<and> c_id a = map_option int (authorization_comment_id e)
          \<and> write_author perm a
          \<and> parseExecutionObligationAuthorization (c_body a) n (obligation_id e) = Some src
          \<and> s \<in> set comments \<and> c_id s = Some (int src) \<and> write_author perm s
          \<and> trim (c_body s) = ''/ground-control authorize-wontfix '' @ obligation_id e))"
proof (intro conjI impI)
  note ok = assms(1) [unfolded read_ok_iff]
  from assms(3) have "parseExecutionObligationMarkers [c_body c] n \<noteq> []" by auto
  with ok assms(2) show "write_author perm c" by blast
  assume wf: "obl_action e = Resolved \<and> disposition e = Some Wontfix"
  then have "admissible comments me c e" by (simp add: admissible_def is_reobservation_def)
  with assms have "e \<in> set (ledger me comments n)" by (auto simp: in_ledger)
  with ok have "wontfix_authorized comments (resolveExecutionObligationTrust perm comments) n e"
    by blast
  with wf obtain a src s where
    "find (\<lambda>c. c_id c = map_option int (authorization_comment_id e)) comments = Some a"
    "isTrusted (resolveExecutionObligationTrust perm comments) a"
    "parseExecutionObligationAuthorization (c_body a) n (obligation_id e) = Some src"
    "find (\<lambda>c. c_id c = Some (int src)) comments = Some s"
    "isTrusted (resolveExecutionObligationTrust perm comments) s"
    "isExactWontfixAuthorizationCommand (c_body s) (obligation_id e)"
    by (auto simp: wontfix_authorized_def hasVerifiedStructuredWontfixAuthorization_def
        split: option.splits if_splits)
  then show "\<exists>a src s. a \<in> set comments \<and> c_id a = map_option int (authorization_comment_id e)
          \<and> write_author perm a
          \<and> parseExecutionObligationAuthorization (c_body a) n (obligation_id e) = Some src
          \<and> s \<in> set comments \<and> c_id s = Some (int src) \<and> write_author perm s
          \<and> trim (c_body s) = ''/ground-control authorize-wontfix '' @ obligation_id e"
    unfolding isExactWontfixAuthorizationCommand_def
    by (meson trusted_write findSomeD)
qed

text \<open>
  C13. Encode and decode of both marker families: the record of an event, in any text without
  another marker, is read back as exactly that event for its own issue, and as nothing for
  every other issue.
\<close>

theorem obligation_record_roundtrip:
  assumes "v1_ok e \<and> rec = v1_build e \<or> v2_ok e \<and> rec = v2_build e"
    and "CHR ''<'' \<notin> set pre" and "CHR ''<'' \<notin> set post"
  shows "parseExecutionObligationMarkers [pre @ rec @ post] n = (if issue_number e = n then [e] else [])"
  using assms by (auto simp: parse_one find_obligations)

text \<open>
  C10. An observed gate is attested by the server: when a successful read no longer lists a
  station observation that was opened and not re-opened, the thread holds a re-observation for the
  same station and cycle written by the authenticated login, which names a different comment
  written by that login.
\<close>

theorem observation_closed_by_server:
  assumes "readTrustedExecutionObligationState perm me comments n = Inr r"
    and "ledger me comments n = pre @ o_ev # post"
    and "obl_action o_ev = Opened" and "kind o_ev = Some StationObservation"
    and "\<forall>e \<in> set post. obligation_id e = obligation_id o_ev \<longrightarrow> obl_action e \<noteq> Opened"
    and "obligation_id o_ev \<notin> set (open_obligation_ids r)"
  shows "\<exists>c e login rec k. c \<in> set comments \<and> e \<in> set (parseExecutionObligationMarkers [c_body c] n)
     \<and> is_reobservation e \<and> obligation_id e = obligation_id o_ev
     \<and> station e = station o_ev \<and> cycle e = cycle o_ev
     \<and> me = Some login \<and> author_login c = Some (lower login)
     \<and> rec \<in> set comments \<and> c_id rec = Some (int k) \<and> observation_record_id e = Some k
     \<and> c_id c \<noteq> Some (int k) \<and> author_login rec = Some (lower login)"
proof -
  from assms(1) have r: "r = evaluateExecutionObligations (ledger me comments n)"
    by (simp add: read_ok_iff)
  obtain e where e: "e \<in> set post" "obligation_id e = obligation_id o_ev" "is_reobservation e"
    "station e = station o_ev" "cycle e = cycle o_ev"
    using station_observation_needs [OF assms(2-5) assms(6) [unfolded r]]
    by (auto simp: is_reobservation_def)
  from e(1) assms(2) have "e \<in> set (ledger me comments n)" by simp
  then obtain c where c: "c \<in> set comments" "e \<in> set (parseExecutionObligationMarkers [c_body c] n)"
    "admissible comments me c e" unfolding in_ledger by blast
  with e have "hasVerifiedStationReobservation e c comments me" by (simp add: admissible_def)
  from verified_reobservation [OF this] e c show ?thesis by blast
qed

text \<open>
  A pasted re-observation is inert: appending a comment whose author is not the authenticated
  login and which carries only re-observations leaves a successful read as it was, so nobody
  can close a gate or break the read with it.
\<close>

theorem forged_reobservation_inert:
  assumes "readTrustedExecutionObligationState perm me comments n = Inr r"
    and "write_author perm c" and "author_login c \<noteq> map_option lower me"
    and "list_all is_reobservation (parseExecutionObligationMarkers [c_body c] n)"
  shows "readTrustedExecutionObligationState perm me (comments @ [c]) n = Inr r"
proof -
  note ok = assms(1) [unfolded read_ok_iff]
  have adm: "admissible (comments @ [c]) me = admissible comments me"
    by (intro ext) (simp add: admissible_def verified_reobservation_extend [OF assms(3)])
  have none: "\<not> hasVerifiedStationReobservation e c comments me" for e
    using assms(3) verified_reobservation by force
  have "filter (admissible comments me c) (parseExecutionObligationMarkers [c_body c] n) = []"
    using assms(4) none by (auto simp: filter_empty_conv admissible_def list_all_iff)
  then have same: "ledger me (comments @ [c]) n = ledger me comments n"
    by (simp add: ledger_def adm)
  show ?thesis
    unfolding read_ok_iff same using ok assms(2) wontfix_authorized_extend by auto
qed

text \<open>
  C14. The isolation of the two families does not survive a re-opening. In any thread whose trusted read shows a
  station observation open, a comment by a writer whose records for the issue are a version 1 fix of that id leaves
  the observation open; but a comment by any writer whose records are a version 1 opening and a version 1 fix of
  that id closes it, and the read succeeds: the opening replaces the recorded kind, and then a fix is terminal,
  against the comment at \<open>isTerminalObligationResolution\<close>.
\<close>

theorem reopening_clears_observation:
  assumes "readTrustedExecutionObligationState perm me cs n = Inr report"
    and "(oid, st) \<in> set (open_obligations report)" and "st_kind st = Some StationObservation"
    and "write_author perm c1" and "author_login c1 \<noteq> map_option lower me"
    and "parseExecutionObligationMarkers [c_body c1] n = [fix_claim n oid]"
    and "write_author perm c2"
    and "parseExecutionObligationMarkers [c_body c2] n = [reopening n oid, fix_claim n oid]"
  shows "(\<exists>r. readTrustedExecutionObligationState perm me (cs @ [c1]) n = Inr r \<and> oid \<in> set (open_obligation_ids r))
    \<and> (\<exists>r. readTrustedExecutionObligationState perm me (cs @ [c2]) n = Inr r \<and> oid \<notin> set (open_obligation_ids r))"
proof
  have plain: "\<not> is_reobservation e \<and> \<not> (obl_action e = Resolved \<and> disposition e = Some Wontfix)"
    if "e \<in> {reopening n oid, fix_claim n oid}" for e
    using that by (auto simp: reopening_def fix_claim_def is_reobservation_def)
  have "report = evaluateExecutionObligations (ledger me cs n)" using assms(1) by (simp add: read_ok_iff)
  then have st: "jm_get (replay_events (ledger me cs n)) oid = Some st" "st_status st = StOpen"
    using open_state assms(2) by auto
  show "\<exists>r. readTrustedExecutionObligationState perm me (cs @ [c1]) n = Inr r \<and> oid \<in> set (open_obligation_ids r)"
    using read_appended [OF assms(1,6,4)] plain fix_keeps_observation [OF st assms(3)] assms(5) by force
  show "\<exists>r. readTrustedExecutionObligationState perm me (cs @ [c2]) n = Inr r \<and> oid \<notin> set (open_obligation_ids r)"
    using read_appended [OF assms(1,8,7)] plain reopened_fixed by force
qed

section \<open>Witnesses\<close>

lemma gate_ok [simp]: "v2_ok gate_opened" "v2_ok gate_reobserved" "v1_ok (reopening 7 (obligation_id gate_opened))"
  "v1_ok (fix_claim 7 (obligation_id gate_opened))"
  by (simp_all add: v2_ok_def v1_ok_def gate_opened_def gate_reobserved_def obligation_id_ok_def station_ok_def
      reopening_def fix_claim_def is_upper_def is_lower_def is_digit_def id_char_def station_char_def
      less_eq_char_def)

text \<open>The server opens an observation (41), runs the gate (91) and attests it (92).\<close>

definition gate_thread :: "comment list" where
  "gate_thread = [said ''gc-bot'' 41 (v2_build gate_opened), said ''gc-bot'' 91 ''verdict'',
     said ''gc-bot'' 92 (v2_build gate_reobserved)]"

lemma gate_fields [simp]: "issue_number gate_opened = 7" "issue_number gate_reobserved = 7"
  "obl_action gate_opened = Opened" "kind gate_opened = Some StationObservation"
  by (simp_all add: gate_opened_def gate_reobserved_def)

lemma parse_gate [simp]:
  "parseExecutionObligationMarkers [v2_build gate_opened] 7 = [gate_opened]"
  "parseExecutionObligationMarkers [v2_build gate_reobserved] 7 = [gate_reobserved]"
  "parseExecutionObligationMarkers [''verdict''] 7 = []"
  using v2.find_build [of gate_opened "[]"] v2.find_build [of gate_reobserved "[]"]
    find_v1_skips_v2 [of gate_opened "[]"] find_v1_skips_v2 [of gate_reobserved "[]"]
    v1.find_none [of "''verdict''"] v2.find_none [of "''verdict''"]
  by (simp_all add: parse_one)

lemma gate_ledger: "ledger (Some ''gc-bot'') gate_thread 7 = [gate_opened, gate_reobserved]"
  by (simp add: ledger_def gate_thread_def admissible_def is_reobservation_def
      hasVerifiedStationReobservation_def gate_reobserved_def author_login_def trim_def is_ws_def
      less_eq_char_def flip: gate_reobserved_def)
    (simp add: gate_reobserved_def author_login_def)

lemma gate_read:
  "readTrustedExecutionObligationState two_writers (Some ''gc-bot'') gate_thread 7
     = Inr (evaluateExecutionObligations [gate_opened, gate_reobserved])"
  unfolding read_ok_iff gate_ledger
  by (simp add: gate_thread_def wontfix_authorized_def) (simp add: gate_reobserved_def)

lemma gate_closed:
  "open_obligation_ids (evaluateExecutionObligations [gate_opened, gate_reobserved]) = []"
  by (simp add: evaluateExecutionObligations_def replay_events_def obl_step_def jm_get_def jm_set_def
        open_obligation_ids_def gate_reobserved_def gate_opened_def opened_state_def
        isTerminalObligationResolution_def canReobservationClose_def Let_def)

lemma trusted_read_sound_witness:
  "write_author two_writers (said ''gc-bot'' 92 (v2_build gate_reobserved))"
  using trusted_read_sound [OF gate_read, of "said ''gc-bot'' 92 (v2_build gate_reobserved)" gate_reobserved]
  by (simp add: gate_thread_def)

lemma obligation_record_roundtrip_witness:
  "parseExecutionObligationMarkers [''see '' @ v2_build gate_opened @ '' thanks''] 7 = [gate_opened]"
  using obligation_record_roundtrip [of gate_opened "v2_build gate_opened" "''see ''" "'' thanks''" 7] by simp

lemma observation_closed_by_server_witness:
  "\<exists>c \<in> set gate_thread. author_login c = Some (lower ''gc-bot'')"
proof -
  have k: "kind gate_opened = Some StationObservation" by simp
  have "\<forall>e \<in> set [gate_reobserved]. obligation_id e = obligation_id gate_opened \<longrightarrow> obl_action e \<noteq> Opened"
    by (simp add: gate_reobserved_def)
  from observation_closed_by_server [OF gate_read _ _ k this, of "[]"]
  show ?thesis by (auto simp: gate_ledger gate_closed)
qed

lemma forged_reobservation_inert_witness:
  "readTrustedExecutionObligationState two_writers (Some ''gc-bot'')
     (gate_thread @ [said ''alice'' 99 (v2_build gate_reobserved)]) 7
   = Inr (evaluateExecutionObligations [gate_opened, gate_reobserved])"
proof (rule forged_reobservation_inert [OF gate_read])
  show "author_login (said ''alice'' 99 (v2_build gate_reobserved)) \<noteq> map_option lower (Some ''gc-bot'')"
    by (simp add: author_login_def lower_def lower_char_def is_upper_def less_eq_char_def)
  show "list_all is_reobservation
      (parseExecutionObligationMarkers [c_body (said ''alice'' 99 (v2_build gate_reobserved))] 7)"
    by simp (simp add: is_reobservation_def gate_reobserved_def)
qed simp

text \<open>The gate thread cut before its attestation, with other comments after the opening.\<close>

definition waiting_thread :: "comment list" where
  "waiting_thread = [said ''gc-bot'' 41 (v2_build gate_opened), said ''gc-bot'' 91 ''verdict'']"

lemma waiting_read:
  "readTrustedExecutionObligationState two_writers (Some ''gc-bot'') waiting_thread 7
     = Inr (evaluateExecutionObligations [gate_opened])"
proof -
  have l: "ledger (Some ''gc-bot'') waiting_thread 7 = [gate_opened]"
    by (simp add: ledger_def waiting_thread_def admissible_def is_reobservation_def)
  show ?thesis
    unfolding read_ok_iff l by (simp add: waiting_thread_def wontfix_authorized_def)
qed

lemma waiting_open:
  "(obligation_id gate_opened, opened_state gate_opened) \<in> set (open_obligations (evaluateExecutionObligations [gate_opened]))"
  by (simp add: evaluateExecutionObligations_def replay_events_def obl_step_def jm_set_def opened_state_def)

definition fixed_by_alice :: "string \<Rightarrow> comment" where
  "fixed_by_alice s = said ''alice'' 99 (s @ v1_build (fix_claim 7 (obligation_id gate_opened)))"

lemma parse_fixed:
  "parseExecutionObligationMarkers [c_body (fixed_by_alice [])] 7 = [fix_claim 7 (obligation_id gate_opened)]"
  "parseExecutionObligationMarkers [c_body (fixed_by_alice (v1_build (reopening 7 (obligation_id gate_opened))))] 7
     = [reopening 7 (obligation_id gate_opened), fix_claim 7 (obligation_id gate_opened)]"
proof -
  have n: "issue_number (reopening 7 i) = 7" "issue_number (fix_claim 7 i) = 7" for i
    by (simp_all add: reopening_def fix_claim_def)
  note f = find_v2_skips_v1 [OF gate_ok(4), of "[]"] v1.find_build [OF gate_ok(4), of "[]"]
  show "parseExecutionObligationMarkers [c_body (fixed_by_alice [])] 7 = [fix_claim 7 (obligation_id gate_opened)]"
    using f by (simp add: fixed_by_alice_def parse_one n)
  show "parseExecutionObligationMarkers [c_body (fixed_by_alice (v1_build (reopening 7 (obligation_id gate_opened))))] 7
     = [reopening 7 (obligation_id gate_opened), fix_claim 7 (obligation_id gate_opened)]"
    using f by (simp add: fixed_by_alice_def parse_one v1.find_build find_v2_skips_v1 n)
qed

lemma reopening_clears_observation_witness:
  "\<exists>r. readTrustedExecutionObligationState two_writers (Some ''gc-bot'')
     (waiting_thread @ [fixed_by_alice (v1_build (reopening 7 (obligation_id gate_opened)))]) 7 = Inr r
     \<and> obligation_id gate_opened \<notin> set (open_obligation_ids r)"
proof -
  have k: "st_kind (opened_state gate_opened) = Some StationObservation" by (simp add: opened_state_def)
  have w: "write_author two_writers (fixed_by_alice s)" for s by (simp add: fixed_by_alice_def)
  have a: "author_login (fixed_by_alice []) \<noteq> map_option lower (Some ''gc-bot'')"
    by (simp add: fixed_by_alice_def author_login_def lower_def lower_char_def is_upper_def less_eq_char_def)
  show ?thesis
    using reopening_clears_observation [OF waiting_read waiting_open k w a parse_fixed(1) w parse_fixed(2)] by blast
qed

end
