(* ===== verification/FailureDiagnostics.thy ===== *)
theory FailureDiagnostics
  imports Scanning "HOL-Library.Word"
begin

text \<open>
  Bounded failure text (\<open>lib/command-failure-diagnostics.js\<close>): tails of child output, failure
  messages shortened in the middle, and the closed whitelist of structured diagnostics.

  The bounds of this module count UTF-16 code units and its own elision mark is not ASCII, so its
  texts are lists of 16-bit words; \<open>units\<close> embeds ASCII literals.
\<close>

type_synonym ustr = "16 word list"

definition units :: "string \<Rightarrow> ustr" where
  "units s = map of_char s"

definition ellipsis :: "16 word" where
  "ellipsis = 0x2026"

definition command_output_tail_max :: nat where "command_output_tail_max = 1000"
definition failure_message_max :: nat where "failure_message_max = 3000"
definition diagnostics_max_keys :: nat where "diagnostics_max_keys = 12"
definition diagnostics_max_list :: nat where "diagnostics_max_list = 25"
definition diagnostics_max_string :: nat where "diagnostics_max_string = 200"

section \<open>Output tails\<close>

record output_tail =
  ot_text :: ustr
  ot_elided :: nat
  ot_total :: nat

text \<open>White space and line terminators of ECMAScript, what \<open>\s\<close> and \<open>trim\<close> recognise.\<close>

definition ws_unit :: "16 word \<Rightarrow> bool" where
  "ws_unit u \<longleftrightarrow> u = 0x20 \<or> (0x09 \<le> u \<and> u \<le> 0x0D) \<or> u = 0xA0 \<or> u = 0x1680
     \<or> (0x2000 \<le> u \<and> u \<le> 0x200A) \<or> u \<in> {0x2028, 0x2029, 0x202F, 0x205F, 0x3000, 0xFEFF}"

definition utrim :: "ustr \<Rightarrow> ustr" where
  "utrim s = rev (dropWhile ws_unit (rev (dropWhile ws_unit s)))"

definition boundedOutputTail :: "ustr option \<Rightarrow> nat \<Rightarrow> output_tail option" where
  "boundedOutputTail text limit =
     (case text of
        None \<Rightarrow> None
      | Some t \<Rightarrow>
          (let trimmed = utrim t; n = length trimmed
           in if trimmed = [] then None
              else if n \<le> limit then Some \<lparr>ot_text = trimmed, ot_elided = 0, ot_total = n\<rparr>
              else Some \<lparr>ot_text = drop (n - limit) trimmed, ot_elided = n - limit, ot_total = n\<rparr>))"

definition formatOutputTail :: "string \<Rightarrow> output_tail option \<Rightarrow> ustr option" where
  "formatOutputTail label ot =
     (case ot of
        None \<Rightarrow> None
      | Some t \<Rightarrow>
          Some (if ot_elided t = 0 then units (label @ '': '') @ ot_text t
                else units (label @ '' tail (last '' @ show_nat (length (ot_text t)) @ '' of ''
                            @ show_nat (ot_total t) @ '' chars): '') @ ot_text t))"

section \<open>Failure messages\<close>

definition elision_mark :: "nat \<Rightarrow> ustr" where
  "elision_mark n = ellipsis # units (''['' @ show_nat n @ '' chars elided]'') @ [ellipsis]"

text \<open>
  \<open>Math.floor(budget * 0.4)\<close> is \<open>2 * budget div 5\<close>: the product rounds to the exact value
  where that is an integer, and stays below the next integer elsewhere.
\<close>

definition boundFailureMessage :: "ustr \<Rightarrow> nat \<Rightarrow> ustr" where
  "boundFailureMessage raw limit =
     (if length raw \<le> limit then raw
      else
        let budget = limit - length (elision_mark (length raw));
            head = 2 * budget div 5;
            tail = budget - head
        in take head raw @ elision_mark (length raw - budget) @ drop (length raw - tail) raw)"

lemma length_units [simp]: "length (units s) = length s"
  by (simp add: units_def)

lemma length_elision_mark: "length (elision_mark n) = 17 + length (show_nat n)"
  by (simp add: elision_mark_def)

lemma length_show_nat_le: "n < 10 ^ k \<Longrightarrow> 0 < k \<Longrightarrow> length (show_nat n) \<le> k"
  unfolding show_nat_def by (rule radix_str_length) simp_all

lemma head_share_le: "2 * b div 5 \<le> b - 2 * b div (5::nat)"
  by linarith

lemma bound_length:
  assumes "length (elision_mark (length raw)) \<le> limit"
  shows "length (boundFailureMessage raw limit) \<le> limit"
proof (cases "length raw \<le> limit")
  case True
  then show ?thesis by (simp add: boundFailureMessage_def)
next
  case False
  let ?b = "limit - length (elision_mark (length raw))"
  have le: "length (elision_mark (length raw - ?b)) \<le> length (elision_mark (length raw))"
    using length_show_nat_mono [of "length raw - ?b" "length raw"] by (simp add: length_elision_mark)
  show ?thesis
    using False le assms by (simp add: boundFailureMessage_def Let_def)
qed

section \<open>Child state\<close>

text \<open>\<open>String(x)\<close> for the values a process error carries: texts and whole numbers.\<close>

definition js_text :: "js \<Rightarrow> string" where
  "js_text v = (case v of JStr s \<Rightarrow> s | JInt n \<Rightarrow> show_int n | JBool b \<Rightarrow> if b then ''true'' else ''false''
     | JNull \<Rightarrow> ''null'' | JUndef \<Rightarrow> ''undefined'' | JNaN \<Rightarrow> ''NaN''
     | JInf b \<Rightarrow> if b then ''Infinity'' else ''-Infinity'' | _ \<Rightarrow> ''[object Object]'')"

definition describeChildProcessState :: "js \<Rightarrow> string option" where
  "describeChildProcessState e =
     (let parts = (if nullish (fld e ''code'') then [] else [''code='' @ js_text (fld e ''code'')])
                  @ (if truthy (fld e ''signal'') then [''signal='' @ js_text (fld e ''signal'')] else [])
                  @ (if truthy (fld e ''killed'') then [''killed=true''] else [])
      in if parts = [] then None
         else Some (''state:'' @ concat (map (\<lambda>p. CHR '' '' # p) parts)))"

section \<open>Structured diagnostics\<close>

definition boundDiagnosticValue :: "js \<Rightarrow> js" where
  "boundDiagnosticValue v = (case v of
      JStr s \<Rightarrow> JStr (take diagnostics_max_string s)
    | JBool b \<Rightarrow> JBool b
    | JNull \<Rightarrow> JNull
    | JInt n \<Rightarrow> JInt n
    | JFrac p q \<Rightarrow> JFrac p q
    | JNaN \<Rightarrow> JNull
    | JInf _ \<Rightarrow> JNull
    | JArr xs \<Rightarrow> JArr (map (\<lambda>e. case e of JStr s \<Rightarrow> JStr (take diagnostics_max_string s) | x \<Rightarrow> x)
                       (filter is_string (take diagnostics_max_list xs)))
    | _ \<Rightarrow> JUndef)"

definition boundFailureDiagnostics :: "js \<Rightarrow> js option" where
  "boundFailureDiagnostics d = (case d of
      JObj fs \<Rightarrow>
        (let kept = filter (\<lambda>(_, v). v \<noteq> JUndef)
               (map (\<lambda>(k, v). (k, boundDiagnosticValue v)) (take diagnostics_max_keys fs))
         in if kept = [] then None else Some (JObj kept))
    | _ \<Rightarrow> None)"

text \<open>What a diagnostics snapshot can be once bounded.\<close>

definition bounded_str :: "js \<Rightarrow> bool" where
  "bounded_str x = (case x of JStr s \<Rightarrow> length s \<le> diagnostics_max_string | _ \<Rightarrow> False)"

lemma bounded_str_iff: "bounded_str x \<longleftrightarrow> (\<exists>s. x = JStr s \<and> length s \<le> diagnostics_max_string)"
  by (cases x) (simp_all add: bounded_str_def)

fun bounded_value :: "js \<Rightarrow> bool" where
  "bounded_value (JStr s) = (length s \<le> diagnostics_max_string)"
| "bounded_value (JArr xs) = (length xs \<le> diagnostics_max_list \<and> list_all bounded_str xs)"
| "bounded_value (JObj _) = False"
| "bounded_value JUndef = False"
| "bounded_value JNaN = False"
| "bounded_value (JInf _) = False"
| "bounded_value _ = True"

lemma bounded_boundDiagnosticValue:
  "boundDiagnosticValue v \<noteq> JUndef \<Longrightarrow> bounded_value (boundDiagnosticValue v)"
proof (cases v)
  case (JArr xs)
  have "length (filter is_string (take 25 xs)) \<le> 25"
    using length_filter_le [of is_string "take 25 xs"] by simp
  with JArr show ?thesis
    by (auto simp: boundDiagnosticValue_def list_all_iff is_string_iff bounded_str_iff
        diagnostics_max_list_def)
qed (auto simp: boundDiagnosticValue_def)

lemma boundDiagnosticValue_id: "bounded_value v \<Longrightarrow> boundDiagnosticValue v = v"
proof (cases v)
  case (JArr xs)
  assume b: "bounded_value v"
  have all: "\<forall>x \<in> set xs. \<exists>s. x = JStr s \<and> length s \<le> diagnostics_max_string"
    using b JArr by (simp add: list_all_iff bounded_str_iff)
  have "filter is_string xs = xs" using all by (auto simp: is_string_def intro!: filter_True)
  moreover have "map (\<lambda>e. case e of JStr s \<Rightarrow> JStr (take diagnostics_max_string s) | x \<Rightarrow> x) xs = xs"
    using all by (auto intro!: map_idI)
  ultimately show ?thesis using b JArr by (simp add: boundDiagnosticValue_def)
qed (auto simp: boundDiagnosticValue_def)

lemma bounded_diagnostics:
  assumes "boundFailureDiagnostics d = Some r"
  shows "\<exists>fs. r = JObj fs \<and> fs \<noteq> [] \<and> length fs \<le> diagnostics_max_keys
     \<and> list_all (\<lambda>(_, v). bounded_value v) fs"
proof -
  obtain fs where d: "d = JObj fs"
    using assms by (cases d) (auto simp: boundFailureDiagnostics_def)
  let ?m = "map (\<lambda>(k, v). (k, boundDiagnosticValue v)) (take diagnostics_max_keys fs)"
  have r: "r = JObj (filter (\<lambda>(_, v). v \<noteq> JUndef) ?m)" "filter (\<lambda>(_, v). v \<noteq> JUndef) ?m \<noteq> []"
    using assms by (auto simp: boundFailureDiagnostics_def d Let_def split: if_splits)
  have "length (filter (\<lambda>(_, v). v \<noteq> JUndef) ?m) \<le> length ?m" by (rule length_filter_le)
  then show ?thesis
    using r bounded_boundDiagnosticValue by (force simp: list_all_iff)
qed

lemma boundFailureDiagnostics_id:
  assumes "fs \<noteq> []" and "length fs \<le> diagnostics_max_keys" and "list_all (\<lambda>(_, v). bounded_value v) fs"
  shows "boundFailureDiagnostics (JObj fs) = Some (JObj fs)"
proof -
  have m: "map (\<lambda>(k, v). (k, boundDiagnosticValue v)) fs = fs"
    using assms(3) by (auto simp: list_all_iff boundDiagnosticValue_id intro!: map_idI)
  have f: "filter (\<lambda>(_, v). v \<noteq> JUndef) fs = fs"
    using assms(3) by (auto simp: list_all_iff intro!: filter_True)
  show ?thesis using assms by (simp add: boundFailureDiagnostics_def m f Let_def)
qed

section \<open>Working-tree mutation\<close>

record tree_mutation =
  tm_scan_error :: string
  tm_count :: nat
  tm_files :: "string list"

definition formatWorkingTreeMutation :: "tree_mutation \<Rightarrow> string" where
  "formatWorkingTreeMutation m =
     (if tm_scan_error m \<noteq> [] then ''working tree not scanned after failure: '' @ tm_scan_error m
      else if tm_count m = 0 then ''working tree unchanged by the failed run''
      else ''the failed run left '' @ show_nat (tm_count m) @ '' changed path(s) in the working tree: ''
           @ join '', '' (tm_files m)
           @ (if tm_count m > length (tm_files m)
              then '' (+'' @ show_nat (tm_count m - length (tm_files m)) @ '' more)'' else []))"

section \<open>Properties\<close>

text \<open>
  A bounded failure message never exceeds its limit and is a fixed point of the bound, and
  it keeps both ends: it starts with the head of the raw text and ends with its tail, with a
  mark between them that states exactly how many code units it left out.
\<close>

theorem failure_message_bounded:
  assumes "length (elision_mark (length raw)) \<le> limit" and "limit < length raw"
  shows "length (boundFailureMessage raw limit) \<le> limit
    \<and> boundFailureMessage (boundFailureMessage raw limit) limit = boundFailureMessage raw limit
    \<and> (\<exists>h m t. raw = h @ m @ t \<and> boundFailureMessage raw limit = h @ elision_mark (length m) @ t
         \<and> length h \<le> length t)"
proof (intro conjI)
  show le: "length (boundFailureMessage raw limit) \<le> limit" by (rule bound_length [OF assms(1)])
  then show "boundFailureMessage (boundFailureMessage raw limit) limit = boundFailureMessage raw limit"
    unfolding boundFailureMessage_def [of "boundFailureMessage raw limit"] by simp
  let ?b = "limit - length (elision_mark (length raw))"
  let ?h = "2 * ?b div 5" and ?t = "?b - 2 * ?b div 5"
  let ?m = "take (length raw - ?b) (drop ?h raw)"
  have b: "?b < length raw" "?h + ?t = ?b" using assms by auto
  have "raw = take ?h raw @ ?m @ drop (length raw - ?t) raw"
  proof -
    have "length raw - ?t = (length raw - ?b) + ?h" using b by linarith
    then have "drop (length raw - ?t) raw = drop (length raw - ?b) (drop ?h raw)" by simp
    then show ?thesis by (metis append_take_drop_id)
  qed
  moreover have "?h \<le> ?b" by simp
  then have "length raw - ?b \<le> length raw - ?h" by (rule diff_le_mono2)
  then have "length ?m = length raw - ?b" by simp
  then have "boundFailureMessage raw limit
      = take ?h raw @ elision_mark (length ?m) @ drop (length raw - ?t) raw"
    using assms(2) [folded not_le] unfolding boundFailureMessage_def Let_def by (simp only: if_False)
  moreover have "length (take ?h raw) \<le> length (drop (length raw - ?t) raw)"
  proof -
    have "?h \<le> ?t" by (rule head_share_le)
    moreover have "length (drop (length raw - ?t) raw) = ?t" using b by simp
    moreover have "length (take ?h raw) \<le> ?h" by simp
    ultimately show ?thesis by linarith
  qed
  ultimately show "\<exists>h m t. raw = h @ m @ t \<and> boundFailureMessage raw limit = h @ elision_mark (length m) @ t
         \<and> length h \<le> length t"
    by blast
qed

text \<open>
  Structured diagnostics leave the registry only as a non-empty flat object of at most 12
  keys whose values are bounded scalars or lists of at most 25 bounded strings, and bounding
  them again changes nothing.
\<close>

theorem diagnostics_closed:
  assumes "boundFailureDiagnostics d = Some r"
  shows "(\<exists>fs. r = JObj fs \<and> fs \<noteq> [] \<and> length fs \<le> 12 \<and> list_all (\<lambda>(_, v). bounded_value v) fs)
    \<and> boundFailureDiagnostics r = Some r"
proof -
  obtain fs where "r = JObj fs" "fs \<noteq> []" "length fs \<le> diagnostics_max_keys"
    "list_all (\<lambda>(_, v). bounded_value v) fs"
    using bounded_diagnostics [OF assms] by blast
  then show ?thesis
    using boundFailureDiagnostics_id [of fs] by (simp add: diagnostics_max_keys_def)
qed

section \<open>Witnesses\<close>

lemma failure_message_bounded_witness:
  "length (boundFailureMessage (replicate 5000 0x61) failure_message_max) \<le> 3000"
proof -
  have "length (show_nat 5000) \<le> 4" by (rule length_show_nat_le) simp_all
  then show ?thesis
    using failure_message_bounded [of "replicate 5000 0x61" 3000]
    by (simp add: length_elision_mark failure_message_max_def)
qed

lemma diagnostics_closed_witness:
  "boundFailureDiagnostics (JObj [(''engine'', JStr ''codex''), (''cmd'', JObj [])])
     = Some (JObj [(''engine'', JStr ''codex'')])
   \<and> boundFailureDiagnostics (JObj [(''engine'', JStr ''codex'')]) = Some (JObj [(''engine'', JStr ''codex'')])"
proof -
  have "boundFailureDiagnostics (JObj [(''engine'', JStr ''codex''), (''cmd'', JObj [])])
     = Some (JObj [(''engine'', JStr ''codex'')])"
    by (simp add: boundFailureDiagnostics_def boundDiagnosticValue_def diagnostics_max_keys_def
        diagnostics_max_string_def)
  from this diagnostics_closed [OF this] show ?thesis by simp
qed

end
