(* ===== verification/AsyncJobs.thy ===== *)
theory AsyncJobs
  imports FailureDiagnostics "HOL-Library.Multiset"
begin

text \<open>
  The background-job registry (\<open>lib/async-job-registry.js\<close>): a bounded in-memory map of jobs that
  outlive the request that started them, with idempotent starts, single-flight scopes, bounded
  waits and cancellation.

  A job is an object the map and its own promise chain share, so the registry keeps a heap of job
  objects by address (the value of the sequence counter that created them) beside the map from
  job ids to addresses; deleting a map entry leaves the object to its promise chain. The clock is
  an argument of every operation. \<open>sens\<close> stands for \<open>detectSensitiveBodyContent\<close>, \<open>json\<close> for
  \<open>JSON.stringify\<close>. The promise chain of a job is the steps \<open>settle\<close> (its \<open>then\<close>/\<open>catch\<close>) and
  \<open>finish\<close> (its \<open>finally\<close>); a waiter is a number, and what its promise resolves to is recorded in
  \<open>delivered\<close>.
\<close>

section \<open>Jobs and envelopes\<close>

definition async_job_ttl_ms :: int where "async_job_ttl_ms = 30 * 60 * 1000"
definition async_job_capacity :: nat where "async_job_capacity = 128"
definition async_job_id_max :: nat where "async_job_id_max = 80"
definition idempotency_key_max :: nat where "idempotency_key_max = 128"
definition wait_seconds_default :: int where "wait_seconds_default = 1500"
definition wait_seconds_max :: int where "wait_seconds_max = 1800"

datatype job_status = Running | Done | Cancelled | Failed

record job =
  j_id :: string
  j_kind :: string
  j_status :: job_status
  j_started :: nat
  j_finished :: "nat option"
  j_result :: js
  j_error :: ustr
  j_aborted :: bool
  j_cancellable :: bool
  j_key :: "string option"
  j_namespace :: "string option"
  j_fingerprint :: "string option"
  j_scope :: "string option"
  j_progress :: "js option"
  j_diagnostics :: "js option"
  j_waiters :: "nat list"

datatype envelope =
    EnvRunning string string int "js option"
  | EnvDone string string int js
  | EnvCancelled string string int
  | EnvFailed string string int ustr "js option"
  | EnvAlreadyTerminal string string job_status
  | EnvNotCancellable string string
  | EnvCancelling string string
  | EnvRefused string

record registry =
  heap :: "(nat, job) jmap"
  live :: "(string, nat) jmap"
  seq :: nat
  capacity :: nat
  next_waiter :: nat
  delivered :: "(nat \<times> envelope) list"

definition empty_registry :: registry where
  "empty_registry = \<lparr>heap = [], live = [], seq = 0, capacity = async_job_capacity,
     next_waiter = 0, delivered = []\<rparr>"

definition job_at :: "registry \<Rightarrow> nat \<Rightarrow> job option" where
  "job_at r a = jm_get (heap r) a"

section \<open>Sanitising\<close>

definition safeAsyncJobError :: "(ustr \<Rightarrow> bool) \<Rightarrow> ustr \<Rightarrow> ustr" where
  "safeAsyncJobError sens raw =
     (if sens raw then units ''<redacted>'' else boundFailureMessage raw failure_message_max)"

definition safeAsyncJobDiagnostics :: "(ustr \<Rightarrow> bool) \<Rightarrow> (js \<Rightarrow> ustr) \<Rightarrow> js \<Rightarrow> js option" where
  "safeAsyncJobDiagnostics sens json d =
     (case boundFailureDiagnostics d of
        None \<Rightarrow> None
      | Some b \<Rightarrow> if sens (json b) then None else Some b)"

definition finite_or_zero :: "js \<Rightarrow> js" where
  "finite_or_zero v = (case v of JInt n \<Rightarrow> JInt n | JFrac p q \<Rightarrow> JFrac p q | _ \<Rightarrow> JInt 0)"

definition boundAsyncJobProgress :: "js \<Rightarrow> js option" where
  "boundAsyncJobProgress s =
     (if \<not> is_object s then None
      else Some (JObj [
        (''phase'', if fld s ''phase'' \<in> {JStr ''completion'', JStr ''policy''} then fld s ''phase''
                    else JStr ''gate''),
        (''phase_started_ms'', finite_or_zero (fld s ''phase_started_ms'')),
        (''last_activity_ms'', finite_or_zero (fld s ''last_activity_ms'')),
        (''stdout_bytes'', finite_or_zero (fld s ''stdout_bytes'')),
        (''stderr_bytes'', finite_or_zero (fld s ''stderr_bytes''))]))"

definition job_envelope :: "(ustr \<Rightarrow> bool) \<Rightarrow> nat \<Rightarrow> job \<Rightarrow> envelope" where
  "job_envelope sens now j =
     (let elapsed = int (case j_finished j of Some f \<Rightarrow> f | None \<Rightarrow> now) - int (j_started j)
      in case j_status j of
           Running \<Rightarrow> EnvRunning (j_id j) (j_kind j) elapsed (j_progress j)
         | Done \<Rightarrow> EnvDone (j_id j) (j_kind j) elapsed (j_result j)
         | Cancelled \<Rightarrow> EnvCancelled (j_id j) (j_kind j) elapsed
         | Failed \<Rightarrow> EnvFailed (j_id j) (j_kind j) elapsed (safeAsyncJobError sens (j_error j))
                       (j_diagnostics j))"

section \<open>Options\<close>

datatype retry = NoRetry | NotAFunction | RetryWhen "js \<Rightarrow> bool"

record job_options =
  o_key :: js
  o_namespace :: js
  o_fingerprint :: js
  o_scope :: js
  o_single_flight :: js
  o_cancellable :: js
  o_retry :: retry

record valid_options =
  v_key :: "string option"
  v_namespace :: "string option"
  v_fingerprint :: "string option"
  v_scope :: "string option"
  v_single_flight :: bool
  v_cancellable :: bool
  v_retry :: "(js \<Rightarrow> bool) option"

definition alnum :: "char \<Rightarrow> bool" where
  "alnum c \<longleftrightarrow> is_upper c \<or> is_lower c \<or> is_digit c"

definition key_char :: "char \<Rightarrow> bool" where
  "key_char c \<longleftrightarrow> alnum c \<or> c \<in> {CHR ''.'', CHR ''_'', CHR '':'', CHR ''-''}"

text \<open>A string of at most the given length that satisfies a test; what \<open>null\<close> or a missing option gives.\<close>

definition text_opt :: "(string \<Rightarrow> bool) \<Rightarrow> js \<Rightarrow> string option" where
  "text_opt P v = (case v of JStr s \<Rightarrow> if P s then Some s else None | _ \<Rightarrow> None)"

definition idempotency_key_ok :: "string \<Rightarrow> bool" where
  "idempotency_key_ok s \<longleftrightarrow> length s \<le> idempotency_key_max \<and> s \<noteq> [] \<and> alnum (hd s) \<and> list_all key_char s"

definition bounded_name :: "string \<Rightarrow> bool" where
  "bounded_name s \<longleftrightarrow> s \<noteq> [] \<and> length s \<le> 512"

definition sha256_hex :: "string \<Rightarrow> bool" where
  "sha256_hex s \<longleftrightarrow> length s = 64 \<and> list_all is_hex s"

definition flag_opt :: "bool \<Rightarrow> js \<Rightarrow> bool option" where
  "flag_opt d v = (case v of JUndef \<Rightarrow> Some d | JBool b \<Rightarrow> Some b | _ \<Rightarrow> None)"

definition validateAsyncJobOptions :: "job_options \<Rightarrow> string + valid_options" where
  "validateAsyncJobOptions opts =
     (if o_retry opts = NotAFunction then Inl ''job_options_invalid''
      else if \<not> nullish (o_key opts)
              \<and> (text_opt idempotency_key_ok (o_key opts) = None
                 \<or> text_opt bounded_name (o_namespace opts) = None
                 \<or> text_opt sha256_hex (o_fingerprint opts) = None)
      then Inl ''job_idempotency_input_invalid''
      else if nullish (o_key opts) \<and> (\<not> nullish (o_namespace opts) \<or> \<not> nullish (o_fingerprint opts))
      then Inl ''job_idempotency_input_invalid''
      else if \<not> nullish (o_scope opts) \<and> text_opt bounded_name (o_scope opts) = None
      then Inl ''job_execution_scope_invalid''
      else (case (flag_opt False (o_single_flight opts), flag_opt True (o_cancellable opts)) of
              (Some sf, Some ca) \<Rightarrow>
                Inr \<lparr>v_key = text_opt (\<lambda>_. True) (o_key opts),
                     v_namespace = text_opt (\<lambda>_. True) (o_namespace opts),
                     v_fingerprint = text_opt (\<lambda>_. True) (o_fingerprint opts),
                     v_scope = text_opt (\<lambda>_. True) (o_scope opts),
                     v_single_flight = sf, v_cancellable = ca,
                     v_retry = (case o_retry opts of RetryWhen f \<Rightarrow> Some f | _ \<Rightarrow> None)\<rparr>
            | _ \<Rightarrow> Inl ''job_options_invalid''))"

section \<open>Input fingerprints\<close>

text \<open>
  \<open>_normalizedFingerprintValue\<close>; the digest of its JSON text is the fingerprint. Keys are
  compared by code units; they are not integer-like, so objects enumerate them in this order.
\<close>

fun normalizedFingerprintValue :: "js \<Rightarrow> js" where
  "normalizedFingerprintValue (JArr xs) = JArr (map normalizedFingerprintValue xs)"
| "normalizedFingerprintValue (JObj fs) =
     JObj (sort_key fst (map (\<lambda>(k, v). (k, normalizedFingerprintValue v))
                          (filter (\<lambda>(_, v). v \<noteq> JUndef) fs)))"
| "normalizedFingerprintValue v = v"

definition asyncJobInputFingerprint :: "(js \<Rightarrow> ustr) \<Rightarrow> (ustr \<Rightarrow> string) \<Rightarrow> js \<Rightarrow> string" where
  "asyncJobInputFingerprint json sha256 v = sha256 (json (normalizedFingerprintValue v))"

section \<open>Starting\<close>

definition expired :: "nat \<Rightarrow> job \<Rightarrow> bool" where
  "expired now j = (case j_finished j of None \<Rightarrow> False | Some f \<Rightarrow> int now - int f > async_job_ttl_ms)"

definition entry_test :: "registry \<Rightarrow> (job \<Rightarrow> bool) \<Rightarrow> string \<times> nat \<Rightarrow> bool" where
  "entry_test r P e = (case job_at r (snd e) of Some j \<Rightarrow> P j | None \<Rightarrow> False)"

definition reapExpired :: "nat \<Rightarrow> registry \<Rightarrow> registry" where
  "reapExpired now r = r\<lparr>live := filter (\<lambda>e. \<not> entry_test r (expired now) e) (live r)\<rparr>"

definition same_slot :: "valid_options \<Rightarrow> job \<Rightarrow> bool" where
  "same_slot v j \<longleftrightarrow> j_key j = v_key v \<and> j_namespace j = v_namespace v"

definition is_stale :: "valid_options \<Rightarrow> job \<Rightarrow> bool" where
  "is_stale v j \<longleftrightarrow> j_status j = Done
     \<and> (case v_retry v of None \<Rightarrow> False | Some f \<Rightarrow> f (j_result j))"

definition evict :: "string \<Rightarrow> registry \<Rightarrow> registry" where
  "evict i r = r\<lparr>live := jm_del i (live r)\<rparr>"

definition resolveIdempotentAsyncJob ::
  "(ustr \<Rightarrow> bool) \<Rightarrow> nat \<Rightarrow> valid_options \<Rightarrow> registry \<Rightarrow> envelope option \<times> registry" where
  "resolveIdempotentAsyncJob sens now v r =
     (if v_key v = None then (None, r)
      else (case find (entry_test r (same_slot v)) (live r) of
              None \<Rightarrow> (None, r)
            | Some (_, a) \<Rightarrow>
                (case job_at r a of
                   None \<Rightarrow> (None, r)
                 | Some j \<Rightarrow>
                     if j_fingerprint j \<noteq> v_fingerprint v
                     then (Some (EnvRefused ''job_idempotency_conflict''), r)
                     else if is_stale v j then (None, evict (j_id j) r)
                     else (Some (job_envelope sens now j), r))))"

definition contended :: "valid_options \<Rightarrow> registry \<Rightarrow> bool" where
  "contended v r \<longleftrightarrow> v_single_flight v \<and> v_scope v \<noteq> None
     \<and> list_ex (entry_test r (\<lambda>j. j_status j = Running \<and> j_scope j = v_scope v)) (live r)"

definition job_id :: "nat \<Rightarrow> nat \<Rightarrow> string" where
  "job_id now n = ''job-'' @ radix_str 36 now @ ''-'' @ radix_str 36 n"

definition new_job :: "js \<Rightarrow> valid_options \<Rightarrow> nat \<Rightarrow> nat \<Rightarrow> job" where
  "new_job knd v now n =
     \<lparr>j_id = job_id now n,
      j_kind = (case knd of JStr k \<Rightarrow> if k \<noteq> [] \<and> length k \<le> 80 then k else ''background''
                | _ \<Rightarrow> ''background''),
      j_status = Running, j_started = now, j_finished = None, j_result = JNull, j_error = [],
      j_aborted = False, j_cancellable = v_cancellable v, j_key = v_key v,
      j_namespace = v_namespace v, j_fingerprint = v_fingerprint v, j_scope = v_scope v,
      j_progress = None, j_diagnostics = None, j_waiters = []\<rparr>"

definition add_job :: "job \<Rightarrow> registry \<Rightarrow> registry" where
  "add_job j r = r\<lparr>heap := jm_set (Suc (seq r)) j (heap r),
                   live := jm_set (j_id j) (Suc (seq r)) (live r), seq := Suc (seq r)\<rparr>"

definition startAsyncJob ::
  "(ustr \<Rightarrow> bool) \<Rightarrow> nat \<Rightarrow> js \<Rightarrow> job_options \<Rightarrow> registry \<Rightarrow> envelope \<times> registry" where
  "startAsyncJob sens now knd opts r =
     (case validateAsyncJobOptions opts of
        Inl e \<Rightarrow> (EnvRefused e, r)
      | Inr v \<Rightarrow>
          (case resolveIdempotentAsyncJob sens now v (reapExpired now r) of
             (Some env, r1) \<Rightarrow> (env, r1)
           | (None, r1) \<Rightarrow>
               if contended v r1 then (EnvRefused ''job_execution_contended'', r1)
               else if capacity r1 \<le> length (live r1) then (EnvRefused ''job_capacity_exhausted'', r1)
               else let j = new_job knd v now (Suc (seq r1))
                    in (job_envelope sens now j, add_job j r1)))"

section \<open>Polling, waiting, cancelling\<close>

definition lower_alnum :: "char \<Rightarrow> bool" where
  "lower_alnum c \<longleftrightarrow> is_lower c \<or> is_digit c"

text \<open>\<open>ASYNC_JOB_ID_RE\<close> and the length bound, on whatever the caller passed.\<close>

definition handle_of :: "js \<Rightarrow> string option" where
  "handle_of v = (case v of
      JStr s \<Rightarrow>
        if length s \<le> async_job_id_max
           \<and> (do { s1 \<leftarrow> lit ''job-'' s; (_, s2) \<leftarrow> run lower_alnum nonempty s1;
                   s3 \<leftarrow> lit ''-'' s2; (_, s4) \<leftarrow> run lower_alnum nonempty s3; Some s4 }) = Some []
        then Some s else None
    | _ \<Rightarrow> None)"

definition lookup_job :: "js \<Rightarrow> registry \<Rightarrow> (nat \<times> job) option" where
  "lookup_job h r = do {
     i \<leftarrow> handle_of h;
     a \<leftarrow> jm_get (live r) i;
     j \<leftarrow> job_at r a;
     Some (a, j) }"

definition pollAsyncJob :: "(ustr \<Rightarrow> bool) \<Rightarrow> nat \<Rightarrow> js \<Rightarrow> registry \<Rightarrow> envelope \<times> registry" where
  "pollAsyncJob sens now h r =
     (let r1 = reapExpired now r
      in case lookup_job h r1 of
           None \<Rightarrow> (EnvRefused ''job_not_found'', r1)
         | Some (_, j) \<Rightarrow> (job_envelope sens now j, r1))"

definition upd_job :: "nat \<Rightarrow> (job \<Rightarrow> job) \<Rightarrow> registry \<Rightarrow> registry" where
  "upd_job a f r = (case job_at r a of None \<Rightarrow> r | Some j \<Rightarrow> r\<lparr>heap := jm_set a (f j) (heap r)\<rparr>)"

text \<open>The result is the immediate envelope, or the waiter whose promise is still open.\<close>

definition awaitAsyncJob ::
  "(ustr \<Rightarrow> bool) \<Rightarrow> nat \<Rightarrow> js \<Rightarrow> js \<Rightarrow> registry \<Rightarrow> (envelope + nat) \<times> registry" where
  "awaitAsyncJob sens now h wait_ms r =
     (case as_int wait_ms of
        None \<Rightarrow> (Inl (EnvRefused ''job_wait_invalid''), r)
      | Some ms \<Rightarrow>
          if ms \<le> 0 \<or> ms > wait_seconds_max * 1000 then (Inl (EnvRefused ''job_wait_invalid''), r)
          else
            let (env, r1) = pollAsyncJob sens now h r
            in (case lookup_job h r1 of
                  Some (a, j) \<Rightarrow>
                    if j_status j = Running
                    then (Inr (next_waiter r1),
                          (upd_job a (\<lambda>j. j\<lparr>j_waiters := j_waiters j @ [next_waiter r1]\<rparr>) r1)
                            \<lparr>next_waiter := Suc (next_waiter r1)\<rparr>)
                    else (Inl env, r1)
                | None \<Rightarrow> (Inl env, r1)))"

definition cancelAsyncJob :: "nat \<Rightarrow> js \<Rightarrow> registry \<Rightarrow> envelope \<times> registry" where
  "cancelAsyncJob now h r =
     (let r1 = reapExpired now r
      in case lookup_job h r1 of
           None \<Rightarrow> (EnvRefused ''job_not_found'', r1)
         | Some (a, j) \<Rightarrow>
             if j_status j \<noteq> Running then (EnvAlreadyTerminal (j_id j) (j_kind j) (j_status j), r1)
             else if \<not> j_cancellable j then (EnvNotCancellable (j_id j) (j_kind j), r1)
             else (EnvCancelling (j_id j) (j_kind j), upd_job a (\<lambda>j. j\<lparr>j_aborted := True\<rparr>) r1))"

section \<open>The promise chain and the waiters\<close>

definition report_progress :: "nat \<Rightarrow> js \<Rightarrow> registry \<Rightarrow> registry" where
  "report_progress a s r = upd_job a (\<lambda>j. j\<lparr>j_progress := boundAsyncJobProgress s\<rparr>) r"

definition settle_done :: "nat \<Rightarrow> js \<Rightarrow> registry \<Rightarrow> registry" where
  "settle_done a res r = upd_job a (\<lambda>j. j\<lparr>j_result := res, j_status := Done\<rparr>) r"

definition settle_error ::
  "(ustr \<Rightarrow> bool) \<Rightarrow> (js \<Rightarrow> ustr) \<Rightarrow> nat \<Rightarrow> ustr \<Rightarrow> js \<Rightarrow> registry \<Rightarrow> registry" where
  "settle_error sens json a msg diag r =
     upd_job a (\<lambda>j. j\<lparr>j_error := safeAsyncJobError sens msg,
                      j_diagnostics := safeAsyncJobDiagnostics sens json diag,
                      j_status := (if j_aborted j then Cancelled else Failed)\<rparr>) r"

definition deliver :: "(ustr \<Rightarrow> bool) \<Rightarrow> nat \<Rightarrow> nat \<Rightarrow> nat list \<Rightarrow> registry \<Rightarrow> registry" where
  "deliver sens now a ws r =
     (case job_at r a of None \<Rightarrow> r
      | Some j \<Rightarrow> r\<lparr>delivered := delivered r @ map (\<lambda>w. (w, job_envelope sens now j)) ws\<rparr>)"

definition finish_job :: "(ustr \<Rightarrow> bool) \<Rightarrow> nat \<Rightarrow> nat \<Rightarrow> registry \<Rightarrow> registry" where
  "finish_job sens now a r =
     (case job_at r a of
        None \<Rightarrow> r
      | Some j \<Rightarrow> deliver sens now a (j_waiters j)
                    (upd_job a (\<lambda>j. j\<lparr>j_finished := Some now, j_waiters := []\<rparr>) r))"

definition expire_wait :: "(ustr \<Rightarrow> bool) \<Rightarrow> nat \<Rightarrow> nat \<Rightarrow> nat \<Rightarrow> registry \<Rightarrow> registry" where
  "expire_wait sens now a w r =
     deliver sens now a [w] (upd_job a (\<lambda>j. j\<lparr>j_waiters := filter (\<lambda>x. x \<noteq> w) (j_waiters j)\<rparr>) r)"

inductive job_step :: "(ustr \<Rightarrow> bool) \<Rightarrow> (js \<Rightarrow> ustr) \<Rightarrow> registry \<Rightarrow> registry \<Rightarrow> bool"
  for sens json where
  start: "job_step sens json r (snd (startAsyncJob sens now knd opts r))"
| poll: "job_step sens json r (snd (pollAsyncJob sens now h r))"
| await: "job_step sens json r (snd (awaitAsyncJob sens now h wait_ms r))"
| cancel: "job_step sens json r (snd (cancelAsyncJob now h r))"
| progress: "job_at r a = Some j \<Longrightarrow> job_step sens json r (report_progress a s r)"
| settle_ok: "job_at r a = Some j \<Longrightarrow> j_status j = Running \<Longrightarrow> job_step sens json r (settle_done a res r)"
| settle_err: "job_at r a = Some j \<Longrightarrow> j_status j = Running
    \<Longrightarrow> job_step sens json r (settle_error sens json a msg diag r)"
| finish: "job_at r a = Some j \<Longrightarrow> j_status j \<noteq> Running \<Longrightarrow> j_finished j = None
    \<Longrightarrow> job_step sens json r (finish_job sens now a r)"
| expire: "job_at r a = Some j \<Longrightarrow> w \<in> set (j_waiters j)
    \<Longrightarrow> job_step sens json r (expire_wait sens now a w r)"

inductive reachable :: "(ustr \<Rightarrow> bool) \<Rightarrow> (js \<Rightarrow> ustr) \<Rightarrow> nat \<Rightarrow> registry \<Rightarrow> bool"
  for sens json cap where
  init: "reachable sens json cap (empty_registry\<lparr>capacity := cap\<rparr>)"
| step: "reachable sens json cap r \<Longrightarrow> job_step sens json r r' \<Longrightarrow> reachable sens json cap r'"

section \<open>What the operations touch\<close>

lemma job_at_upd [simp]:
  "job_at (upd_job a f r) b = (if b = a then map_option f (job_at r a) else job_at r b)"
  by (auto simp: upd_job_def job_at_def jm.get_put split: option.splits)

lemma upd_job_fields [simp]:
  "live (upd_job a f r) = live r" "seq (upd_job a f r) = seq r" "capacity (upd_job a f r) = capacity r"
  "next_waiter (upd_job a f r) = next_waiter r" "delivered (upd_job a f r) = delivered r"
  by (auto simp: upd_job_def split: option.splits)

lemma wf_upd_job [simp]: "jm_wf (heap r) \<Longrightarrow> jm_wf (heap (upd_job a f r))"
  by (auto simp: upd_job_def jm.wf_put split: option.splits)

lemma job_at_fields [simp]:
  "job_at (r\<lparr>live := l\<rparr>) = job_at r" "job_at (r\<lparr>next_waiter := n\<rparr>) = job_at r"
  "job_at (r\<lparr>delivered := d\<rparr>) = job_at r" "job_at (r\<lparr>seq := k\<rparr>) = job_at r"
  by (auto simp: job_at_def)

lemma deliver_fields [simp]:
  "job_at (deliver sens now a ws r) = job_at r" "live (deliver sens now a ws r) = live r"
  "seq (deliver sens now a ws r) = seq r" "capacity (deliver sens now a ws r) = capacity r"
  "next_waiter (deliver sens now a ws r) = next_waiter r" "heap (deliver sens now a ws r) = heap r"
  by (auto simp: deliver_def split: option.splits)

lemma reap_fields [simp]:
  "job_at (reapExpired now r) = job_at r" "seq (reapExpired now r) = seq r"
  "capacity (reapExpired now r) = capacity r" "heap (reapExpired now r) = heap r"
  "next_waiter (reapExpired now r) = next_waiter r" "delivered (reapExpired now r) = delivered r"
  by (auto simp: reapExpired_def)

lemma evict_fields [simp]:
  "job_at (evict i r) = job_at r" "seq (evict i r) = seq r" "capacity (evict i r) = capacity r"
  "heap (evict i r) = heap r" "next_waiter (evict i r) = next_waiter r"
  "delivered (evict i r) = delivered r"
  by (auto simp: evict_def)

lemma get_live_evict: "jm_get (live (evict i r)) k = (if k = i then None else jm_get (live r) k)"
  by (simp add: evict_def jm.get_del)

lemma jm_get_filter:
  "jm_wf m \<Longrightarrow> jm_get (filter P m) k = Some v \<longleftrightarrow> jm_get m k = Some v \<and> P (k, v)"
proof -
  assume wf: "jm_wf m"
  then have "jm_wf (filter P m)" by (simp add: jm_wf_def distinct_map_filter)
  from jm.entries_get [OF this, of k v] jm.entries_get [OF wf, of k v] show ?thesis by auto
qed

lemma get_live_reap:
  "jm_wf (live r) \<Longrightarrow> jm_get (live (reapExpired now r)) i = Some a
     \<longleftrightarrow> jm_get (live r) i = Some a \<and> \<not> entry_test r (expired now) (i, a)"
  by (simp add: reapExpired_def jm_get_filter)

section \<open>Job ids\<close>

lemma radix36_no_dash: "CHR ''-'' \<notin> set (radix_str 36 n)"
  using radix_str_chars [of 36 n] by (auto simp: is_digit_def is_lower_def less_eq_char_def)

lemma suffix_unique:
  assumes "x \<notin> set u" and "x \<notin> set u'" and "p @ x # u = p' @ x # u'"
  shows "u = u'"
proof -
  have tw: "x \<notin> set v \<Longrightarrow> takeWhile (\<lambda>c. c \<noteq> x) (rev v @ x # w) = rev v" for v w :: "'a list"
    by (subst takeWhile_append2) auto
  have "rev (p @ x # u) = rev (p' @ x # u')" by (simp only: assms(3))
  then have "rev u @ x # rev p = rev u' @ x # rev p'" by simp
  then show ?thesis using tw [OF assms(1), of "rev p"] tw [OF assms(2), of "rev p'"] by simp
qed

lemma job_id_inj: "job_id t a = job_id t' b \<Longrightarrow> a = b"
proof -
  assume "job_id t a = job_id t' b"
  then have "(''job-'' @ radix_str 36 t) @ CHR ''-'' # radix_str 36 a
      = (''job-'' @ radix_str 36 t') @ CHR ''-'' # radix_str 36 b"
    by (simp add: job_id_def)
  then have "radix_str 36 a = radix_str 36 b"
    by (rule suffix_unique [OF radix36_no_dash radix36_no_dash])
  then show ?thesis by (rule radix_str_inj [rotated 2]) simp_all
qed

lemma radix36_lower_alnum: "\<forall>c \<in> set (radix_str 36 n). lower_alnum c"
  using radix_str_chars [of 36 n] by (auto simp: lower_alnum_def)

lemma dash_not_lower_alnum [simp]: "\<not> lower_alnum (CHR ''-'')"
  by (simp add: lower_alnum_def is_lower_def is_digit_def less_eq_char_def)

lemma handle_job_id:
  assumes "length (radix_str 36 t) + length (radix_str 36 a) \<le> 75"
  shows "handle_of (JStr (job_id t a)) = Some (job_id t a)"
proof -
  have "run lower_alnum nonempty (radix_str 36 t @ CHR ''-'' # radix_str 36 a)
      = Some (radix_str 36 t, CHR ''-'' # radix_str 36 a)"
    by (rule run_append) (simp_all add: radix36_lower_alnum nonempty_def)
  moreover have "run lower_alnum nonempty (radix_str 36 a) = Some (radix_str 36 a, [])"
    by (simp add: run_iff radix36_lower_alnum nonempty_def)
  moreover have "length (job_id t a) \<le> 80" using assms by (simp add: job_id_def)
  ultimately show ?thesis by (simp add: handle_of_def job_id_def async_job_id_max_def)
qed

lemma radix36_safe: "n < 2 ^ 53 \<Longrightarrow> length (radix_str 36 n) \<le> 11"
  by (rule radix_str_length) simp_all

section \<open>The registry invariant\<close>

definition heap_ok :: "registry \<Rightarrow> bool" where
  "heap_ok r \<longleftrightarrow> (\<forall>a j. job_at r a = Some j \<longrightarrow>
     a \<le> seq r \<and> j_id j = job_id (j_started j) a \<and> (j_finished j \<noteq> None \<longrightarrow> j_status j \<noteq> Running))"

definition live_ok :: "registry \<Rightarrow> bool" where
  "live_ok r \<longleftrightarrow> jm_wf (live r) \<and> length (live r) \<le> capacity r
     \<and> (\<forall>i a. jm_get (live r) i = Some a \<longrightarrow> (\<exists>j. job_at r a = Some j \<and> j_id j = i))
     \<and> (\<forall>a j. job_at r a = Some j \<longrightarrow> j_status j = Running \<longrightarrow> jm_get (live r) (j_id j) = Some a)"

definition live_job :: "registry \<Rightarrow> nat \<Rightarrow> job \<Rightarrow> bool" where
  "live_job r a j \<longleftrightarrow> job_at r a = Some j \<and> jm_get (live r) (j_id j) = Some a"

definition slots_ok :: "registry \<Rightarrow> bool" where
  "slots_ok r \<longleftrightarrow> (\<forall>a b j k. live_job r a j \<longrightarrow> live_job r b k \<longrightarrow> j_key j \<noteq> None
      \<longrightarrow> j_key k = j_key j \<longrightarrow> j_namespace k = j_namespace j \<longrightarrow> a = b)"

definition reg_inv :: "registry \<Rightarrow> bool" where
  "reg_inv r \<longleftrightarrow> heap_ok r \<and> live_ok r \<and> slots_ok r"

lemma live_address: "reg_inv r \<Longrightarrow> jm_get (live r) i = Some a \<Longrightarrow> \<exists>j. job_at r a = Some j \<and> j_id j = i"
  by (simp add: reg_inv_def live_ok_def)

lemma job_address: "reg_inv r \<Longrightarrow> job_at r a = Some j \<Longrightarrow> a \<le> seq r \<and> j_id j = job_id (j_started j) a"
  by (simp add: reg_inv_def heap_ok_def)

lemma running_live: "reg_inv r \<Longrightarrow> job_at r a = Some j \<Longrightarrow> j_status j = Running \<Longrightarrow> jm_get (live r) (j_id j) = Some a"
  by (simp add: reg_inv_def live_ok_def)

lemma slots_unique:
  "reg_inv r \<Longrightarrow> live_job r a j \<Longrightarrow> live_job r b k \<Longrightarrow> j_key j \<noteq> None \<Longrightarrow> j_key k = j_key j
     \<Longrightarrow> j_namespace k = j_namespace j \<Longrightarrow> a = b"
  unfolding reg_inv_def slots_ok_def by blast

lemma live_wf: "reg_inv r \<Longrightarrow> jm_wf (live r)"
  by (simp add: reg_inv_def live_ok_def)

lemma live_len: "reg_inv r \<Longrightarrow> length (live r) \<le> capacity r"
  by (simp add: reg_inv_def live_ok_def)

text \<open>Each primitive keeps it.\<close>

definition keeps :: "(job \<Rightarrow> job) \<Rightarrow> job \<Rightarrow> bool" where
  "keeps f j \<longleftrightarrow> j_id (f j) = j_id j \<and> j_started (f j) = j_started j \<and> j_key (f j) = j_key j \<and> j_namespace (f j) = j_namespace j
     \<and> (j_status (f j) = Running \<longrightarrow> j_status j = Running \<and> j_finished (f j) = None)"

lemma live_job_upd:
  "live_job (upd_job a f r) b k \<longleftrightarrow>
     (if b = a then (\<exists>j. job_at r a = Some j \<and> k = f j \<and> jm_get (live r) (j_id k) = Some a)
      else live_job r b k)"
  by (auto simp: live_job_def)

lemma inv_upd:
  assumes "reg_inv r" and k: "\<And>j. job_at r a = Some j \<Longrightarrow> keeps f j"
  shows "reg_inv (upd_job a f r)"
proof -
  have h: "heap_ok (upd_job a f r)"
    using assms by (auto simp: reg_inv_def heap_ok_def keeps_def)
  have in1: "\<exists>j. job_at (upd_job a f r) b = Some j \<and> j_id j = i" if "jm_get (live r) i = Some b" for i b
    using live_address [OF assms(1) that] k by (auto simp: keeps_def)
  have in2: "jm_get (live r) (j_id j) = Some b"
    if j: "job_at (upd_job a f r) b = Some j" and run: "j_status j = Running" for b j
  proof (cases "b = a")
    case True
    with j obtain j0 where j0: "job_at r a = Some j0" "j = f j0" by auto
    with k [of j0] run have "j_status j0 = Running" "j_id j = j_id j0" by (simp_all add: keeps_def)
    with running_live [OF assms(1), of a j0] j0 True show ?thesis by simp
  next
    case False
    with j run running_live [OF assms(1), of b j] show ?thesis by simp
  qed
  have l: "live_ok (upd_job a f r)"
    unfolding live_ok_def upd_job_fields
    using live_wf [OF assms(1)] live_len [OF assms(1)] in1 in2 by blast
  have old: "\<exists>j. live_job r b j \<and> j_key k = j_key j \<and> j_namespace k = j_namespace j"
    if "live_job (upd_job a f r) b k" for b k
  proof (cases "b = a")
    case True
    with that obtain j where "job_at r a = Some j" "k = f j" "jm_get (live r) (j_id k) = Some a"
      by (auto simp: live_job_upd)
    with k [of j] True show ?thesis by (auto simp: live_job_def keeps_def)
  next
    case False
    with that show ?thesis by (auto simp: live_job_upd)
  qed
  have "slots_ok (upd_job a f r)"
    unfolding slots_ok_def
  proof (intro allI impI)
    fix b c j l
    assume *: "live_job (upd_job a f r) b j" "live_job (upd_job a f r) c l" "j_key j \<noteq> None"
      "j_key l = j_key j" "j_namespace l = j_namespace j"
    obtain j0 where 0: "live_job r b j0" "j_key j = j_key j0" "j_namespace j = j_namespace j0"
      using old [OF *(1)] by blast
    obtain l0 where 1: "live_job r c l0" "j_key l = j_key l0" "j_namespace l = j_namespace l0"
      using old [OF *(2)] by blast
    have "j_key j0 \<noteq> None" "j_key l0 = j_key j0" "j_namespace l0 = j_namespace j0"
      using 0(2,3) 1(2,3) *(3-5) by simp_all
    then show "b = c" by (rule slots_unique [OF assms(1) 0(1) 1(1)])
  qed
  with h l show ?thesis by (simp add: reg_inv_def)
qed

lemma inv_fewer:
  assumes inv: "reg_inv r" and heap: "job_at r' = job_at r" "seq r' = seq r" "capacity r' = capacity r"
    and wf: "jm_wf (live r')" and len: "length (live r') \<le> length (live r)"
    and sub: "\<And>i a. jm_get (live r') i = Some a \<Longrightarrow> jm_get (live r) i = Some a"
    and run: "\<And>a j. live_job r a j \<Longrightarrow> j_status j = Running \<Longrightarrow> jm_get (live r') (j_id j) = Some a"
  shows "reg_inv r'"
proof -
  have "heap_ok r'" using inv heap by (simp add: reg_inv_def heap_ok_def)
  moreover have "live_ok r'"
    unfolding live_ok_def heap
  proof (intro conjI allI impI wf)
    show "length (live r') \<le> capacity r" using len live_len [OF inv] by linarith
    show "jm_get (live r') i = Some a \<Longrightarrow> \<exists>j. job_at r a = Some j \<and> j_id j = i" for i a
      using live_address [OF inv sub] .
    show "job_at r a = Some j \<Longrightarrow> j_status j = Running \<Longrightarrow> jm_get (live r') (j_id j) = Some a" for a j
      using run [of a j] running_live [OF inv, of a j] by (simp add: live_job_def)
  qed
  moreover have "live_job r' a j \<Longrightarrow> live_job r a j" for a j
    using sub by (auto simp: live_job_def heap)
  then have "slots_ok r'" using inv unfolding reg_inv_def slots_ok_def by blast
  ultimately show ?thesis by (simp add: reg_inv_def)
qed

lemma wf_live_reap: "jm_wf (live r) \<Longrightarrow> jm_wf (live (reapExpired now r))"
  by (simp add: reapExpired_def jm_wf_def distinct_map_filter)

lemma running_not_expired: "heap_ok r \<Longrightarrow> job_at r a = Some j \<Longrightarrow> j_status j = Running \<Longrightarrow> \<not> expired now j"
  by (auto simp: heap_ok_def expired_def split: option.splits)

lemma inv_reap: "reg_inv r \<Longrightarrow> reg_inv (reapExpired now r)"
proof (rule inv_fewer)
  assume inv: "reg_inv r"
  then have wf: "jm_wf (live r)" by (simp add: reg_inv_def live_ok_def)
  then show "jm_wf (live (reapExpired now r))" by (rule wf_live_reap)
  show "length (live (reapExpired now r)) \<le> length (live r)" by (simp add: reapExpired_def)
  show "jm_get (live (reapExpired now r)) i = Some a \<Longrightarrow> jm_get (live r) i = Some a" for i a
    using wf by (simp add: get_live_reap)
  show "live_job r a j \<Longrightarrow> j_status j = Running \<Longrightarrow> jm_get (live (reapExpired now r)) (j_id j) = Some a" for a j
    using wf inv running_not_expired [of r a j now]
    by (simp add: get_live_reap live_job_def entry_test_def reg_inv_def)
qed simp_all

lemma inv_evict:
  assumes "reg_inv r" and "\<And>a j. live_job r a j \<Longrightarrow> j_id j = i \<Longrightarrow> j_status j \<noteq> Running"
  shows "reg_inv (evict i r)"
proof (rule inv_fewer [OF assms(1)])
  show "jm_wf (live (evict i r))"
    using assms by (simp add: evict_def jm.wf_del reg_inv_def live_ok_def)
  show "length (live (evict i r)) \<le> length (live r)" using jm.size_del by (simp add: evict_def)
  show "jm_get (live (evict i r)) k = Some a \<Longrightarrow> jm_get (live r) k = Some a" for k a
    by (simp add: get_live_evict split: if_splits)
  show "live_job r a j \<Longrightarrow> j_status j = Running \<Longrightarrow> jm_get (live (evict i r)) (j_id j) = Some a" for a j
    using assms(2) [of a j] by (auto simp: get_live_evict live_job_def)
qed simp_all

lemma job_at_add: "job_at (add_job j r) b = (if b = Suc (seq r) then Some j else job_at r b)"
  by (simp add: add_job_def job_at_def jm.get_put)

lemma add_job_fields [simp]:
  "seq (add_job j r) = Suc (seq r)" "capacity (add_job j r) = capacity r"
  "next_waiter (add_job j r) = next_waiter r" "delivered (add_job j r) = delivered r"
  by (simp_all add: add_job_def)

lemma live_add_job: "live (add_job j r) = jm_set (j_id j) (Suc (seq r)) (live r)"
  by (simp add: add_job_def)

lemma live_add: "jm_get (live (add_job j r)) i = (if i = j_id j then Some (Suc (seq r)) else jm_get (live r) i)"
  by (simp add: add_job_def jm.get_put)

lemma fresh_id:
  assumes "reg_inv r" shows "jm_get (live r) (job_id t (Suc (seq r))) = None"
proof (rule ccontr)
  assume "jm_get (live r) (job_id t (Suc (seq r))) \<noteq> None"
  then obtain a where "jm_get (live r) (job_id t (Suc (seq r))) = Some a" by blast
  from live_address [OF assms this] obtain j where
    "job_at r a = Some j" "j_id j = job_id t (Suc (seq r))" by blast
  with job_address [OF assms, of a j] have "a \<le> seq r" "job_id (j_started j) a = job_id t (Suc (seq r))"
    by auto
  then show False using job_id_inj by fastforce
qed

lemma fresh_address: "reg_inv r \<Longrightarrow> job_at r (Suc (seq r)) = None"
  using job_address [of r "Suc (seq r)"] by (cases "job_at r (Suc (seq r))") auto

lemma inv_add:
  assumes inv: "reg_inv r" and id: "j_id j = job_id (j_started j) (Suc (seq r))" and fin: "j_finished j = None"
    and cap: "length (live r) < capacity r"
    and slot: "\<And>a k. live_job r a k \<Longrightarrow> j_key j \<noteq> None \<Longrightarrow> \<not> (j_key k = j_key j \<and> j_namespace k = j_namespace j)"
  shows "reg_inv (add_job j r)"
proof -
  note fresh = fresh_id [OF inv, of "j_started j", folded id] and faddr = fresh_address [OF inv]
  have h: "heap_ok (add_job j r)"
    using inv id fin by (auto simp: reg_inv_def heap_ok_def job_at_add le_SucI)
  have len: "length (live (add_job j r)) \<le> capacity (add_job j r)"
    using cap fresh jm.size_put [of "j_id j" "Suc (seq r)" "live r"] by (simp add: live_add_job)
  have wf: "jm_wf (live (add_job j r))"
    using inv by (simp add: add_job_def jm.wf_put reg_inv_def live_ok_def)
  have in1: "\<exists>k. job_at (add_job j r) a = Some k \<and> j_id k = i" if "jm_get (live (add_job j r)) i = Some a" for i a
    using that inv faddr by (fastforce simp: live_add job_at_add reg_inv_def live_ok_def split: if_splits)
  have in2: "jm_get (live (add_job j r)) (j_id k) = Some a"
    if "job_at (add_job j r) a = Some k" "j_status k = Running" for a k
    using that running_live [OF inv, of a k] fresh by (auto simp: live_add job_at_add split: if_splits)
  have old: "live_job (add_job j r) a k \<Longrightarrow> a \<noteq> Suc (seq r) \<Longrightarrow> live_job r a k" for a k
    by (auto simp: live_job_def live_add job_at_add split: if_splits)
  have new: "live_job (add_job j r) (Suc (seq r)) k \<Longrightarrow> k = j" for k
    by (simp add: live_job_def job_at_add)
  have "slots_ok (add_job j r)"
    unfolding slots_ok_def
  proof (intro allI impI)
    fix a b k l
    assume a: "live_job (add_job j r) a k" "live_job (add_job j r) b l" "j_key k \<noteq> None"
      "j_key l = j_key k" "j_namespace l = j_namespace k"
    show "a = b"
    proof (cases "a = Suc (seq r)"; cases "b = Suc (seq r)")
      assume "a = Suc (seq r)" "b \<noteq> Suc (seq r)"
      with a new old slot [of b l] show ?thesis by metis
    next
      assume "a \<noteq> Suc (seq r)" "b = Suc (seq r)"
      with a new old slot [of a k] show ?thesis by metis
    next
      assume "a \<noteq> Suc (seq r)" "b \<noteq> Suc (seq r)"
      with a old have "live_job r a k" "live_job r b l" by blast+
      then show ?thesis using a(3-5) by (rule slots_unique [OF inv])
    qed simp
  qed
  with h wf len in1 in2 show ?thesis by (auto simp: reg_inv_def live_ok_def)
qed

section \<open>Each operation keeps the invariant\<close>

lemma live_entry:
  assumes "reg_inv r" and "(i, a) \<in> set (live r)"
  shows "\<exists>j. live_job r a j \<and> j_id j = i"
proof -
  have "jm_get (live r) i = Some a" using assms jm.entries_get [OF live_wf [OF assms(1)]] by blast
  with live_address [OF assms(1) this] show ?thesis by (auto simp: live_job_def)
qed

lemma live_job_entry: "reg_inv r \<Longrightarrow> live_job r a j \<Longrightarrow> (j_id j, a) \<in> set (live r)"
  using jm.entries_get [OF live_wf] by (auto simp: live_job_def)

lemma find_entry:
  assumes "reg_inv r" and "find (entry_test r P) (live r) = Some (i, a)"
  shows "\<exists>j. live_job r a j \<and> j_id j = i \<and> P j"
proof -
  from assms(2) have e: "(i, a) \<in> set (live r)" "entry_test r P (i, a)"
    by (auto simp: find_Some_iff)
  from live_entry [OF assms(1) e(1)] e(2) show ?thesis by (auto simp: entry_test_def live_job_def)
qed

lemma find_no_entry:
  assumes "reg_inv r" and "find (entry_test r P) (live r) = None" and "live_job r a j"
  shows "\<not> P j"
proof -
  have "\<not> entry_test r P (j_id j, a)"
    using live_job_entry [OF assms(1,3)] assms(2) by (auto simp: find_None_iff)
  with assms(3) show ?thesis by (simp add: entry_test_def live_job_def)
qed

lemma resolve_inv:
  assumes "reg_inv r"
  shows "reg_inv (snd (resolveIdempotentAsyncJob sens now v r))"
proof (cases "find (entry_test r (same_slot v)) (live r)")
  case None
  with assms show ?thesis by (simp add: resolveIdempotentAsyncJob_def)
next
  case (Some e)
  obtain i a where e: "e = (i, a)" by (cases e)
  from find_entry [OF assms Some [unfolded e]] obtain j where j: "live_job r a j" by blast
  have "reg_inv (evict (j_id j) r)" if st: "is_stale v j"
  proof (rule inv_evict [OF assms])
    fix b k assume "live_job r b k" "j_id k = j_id j"
    with j have "k = j" by (simp add: live_job_def)
    with st show "j_status k \<noteq> Running" by (simp add: is_stale_def)
  qed
  with assms Some e j show ?thesis by (simp add: resolveIdempotentAsyncJob_def live_job_def)
qed

lemma resolve_none_slot:
  assumes inv: "reg_inv r" and res: "resolveIdempotentAsyncJob sens now v r = (None, r1)"
    and key: "v_key v \<noteq> None" and k: "live_job r1 b k"
  shows "\<not> same_slot v k"
proof (cases "find (entry_test r (same_slot v)) (live r)")
  case None
  with res key have "r1 = r" by (simp add: resolveIdempotentAsyncJob_def)
  with find_no_entry [OF inv None] k show ?thesis by blast
next
  case (Some e)
  obtain i a where e: "e = (i, a)" by (cases e)
  from find_entry [OF inv Some [unfolded e]] obtain j where j: "live_job r a j" "same_slot v j" by blast
  from res key Some e j have r1: "r1 = evict (j_id j) r"
    by (auto simp: resolveIdempotentAsyncJob_def live_job_def split: if_splits)
  with k have k': "live_job r b k" "j_id k \<noteq> j_id j"
    by (auto simp: live_job_def get_live_evict split: if_splits)
  show ?thesis
  proof
    assume "same_slot v k"
    with j(2) key have "j_key j \<noteq> None" "j_key k = j_key j" "j_namespace k = j_namespace j"
      by (auto simp: same_slot_def)
    from slots_unique [OF inv j(1) k'(1) this] j(1) k' show False by (simp add: live_job_def)
  qed
qed

lemma resolve_fields:
  "resolveIdempotentAsyncJob sens now v r = (x, r1) \<Longrightarrow>
     job_at r1 = job_at r \<and> seq r1 = seq r \<and> capacity r1 = capacity r
     \<and> delivered r1 = delivered r \<and> next_waiter r1 = next_waiter r"
  by (auto simp: resolveIdempotentAsyncJob_def split: option.splits if_splits)

lemma new_job_fields [simp]:
  "j_id (new_job knd v now n) = job_id now n" "j_started (new_job knd v now n) = now"
  "j_finished (new_job knd v now n) = None" "j_key (new_job knd v now n) = v_key v"
  "j_namespace (new_job knd v now n) = v_namespace v" "j_waiters (new_job knd v now n) = []"
  "j_scope (new_job knd v now n) = v_scope v" "j_status (new_job knd v now n) = Running"
  by (simp_all add: new_job_def)

text \<open>A start either leaves every job object alone or adds one.\<close>

lemma start_cases:
  obtains (same) r1 where "snd (startAsyncJob sens now knd opts r) = r1"
      "job_at r1 = job_at r" "seq r1 = seq r" "capacity r1 = capacity r"
      "delivered r1 = delivered r" "next_waiter r1 = next_waiter r" "reg_inv r \<Longrightarrow> reg_inv r1"
  | (added) v r1 where "validateAsyncJobOptions opts = Inr v"
      "resolveIdempotentAsyncJob sens now v (reapExpired now r) = (None, r1)"
      "\<not> contended v r1" "length (live r1) < capacity r1"
      "startAsyncJob sens now knd opts r
         = (job_envelope sens now (new_job knd v now (Suc (seq r1))), add_job (new_job knd v now (Suc (seq r1))) r1)"
proof (cases "validateAsyncJobOptions opts")
  case (Inl e)
  then show ?thesis by (intro same [of r]) (simp_all add: startAsyncJob_def)
next
  case (Inr v)
  obtain x r1 where res: "resolveIdempotentAsyncJob sens now v (reapExpired now r) = (x, r1)" by fastforce
  have inv1: "reg_inv r \<Longrightarrow> reg_inv r1" using resolve_inv [OF inv_reap, of r sens now v now] res by simp
  note f = resolve_fields [OF res]
  show ?thesis
  proof (cases "x = None \<and> \<not> contended v r1 \<and> length (live r1) < capacity r1")
    case True
    with Inr res show ?thesis by (intro added [of v r1]) (simp_all add: startAsyncJob_def Let_def)
  next
    case False
    with Inr res have "snd (startAsyncJob sens now knd opts r) = r1"
      by (cases x) (auto simp: startAsyncJob_def)
    then show ?thesis using f inv1 by (intro same [of r1]) simp_all
  qed
qed

lemma inv_start: "reg_inv r \<Longrightarrow> reg_inv (snd (startAsyncJob sens now knd opts r))"
proof (cases rule: start_cases [of sens now knd opts r])
  case (added v r1)
  assume inv: "reg_inv r"
  have inv1: "reg_inv r1" using resolve_inv [OF inv_reap [OF inv], of sens now v now] added(2) by simp
  have "reg_inv (add_job (new_job knd v now (Suc (seq r1))) r1)"
    using resolve_none_slot [OF inv_reap [OF inv] added(2)] added(4)
    by (intro inv_add [OF inv1]) (auto simp: same_slot_def)
  with added show ?thesis by simp
qed simp

lemma snd_poll [simp]: "snd (pollAsyncJob sens now h r) = reapExpired now r"
  by (simp add: pollAsyncJob_def Let_def split: option.splits)

lemma await_cases:
  obtains (nothing) "snd (awaitAsyncJob sens now h wait_ms r) = r"
  | (polled) "snd (awaitAsyncJob sens now h wait_ms r) = reapExpired now r"
  | (waiting) a j where "lookup_job h (reapExpired now r) = Some (a, j)" "job_at r a = Some j" "j_status j = Running"
      "awaitAsyncJob sens now h wait_ms r = (Inr (next_waiter r),
         (upd_job a (\<lambda>j. j\<lparr>j_waiters := j_waiters j @ [next_waiter r]\<rparr>) (reapExpired now r))
            \<lparr>next_waiter := Suc (next_waiter r)\<rparr>)"
proof (cases "case as_int wait_ms of None \<Rightarrow> False | Some ms \<Rightarrow> \<not> (ms \<le> 0 \<or> ms > wait_seconds_max * 1000)")
  case False
  then have "snd (awaitAsyncJob sens now h wait_ms r) = r"
    by (auto simp: awaitAsyncJob_def simp del: as_int_Some split: option.splits)
  then show ?thesis by (rule nothing)
next
  case ok: True
  show ?thesis
  proof (cases "\<exists>a j. lookup_job h (reapExpired now r) = Some (a, j) \<and> j_status j = Running")
    case False
    with ok show ?thesis
      by (intro polled) (auto simp: awaitAsyncJob_def pollAsyncJob_def Let_def simp del: as_int_Some split: option.splits)
  next
    case True
    then obtain a j where aj: "lookup_job h (reapExpired now r) = Some (a, j)" "j_status j = Running" by blast
    then have "job_at r a = Some j" by (auto simp: lookup_job_def bind_eq_Some_conv)
    with ok aj show ?thesis
      by (intro waiting [of a j]) (auto simp: awaitAsyncJob_def pollAsyncJob_def Let_def simp del: as_int_Some split: option.splits)
  qed
qed

lemma cancel_cases:
  obtains (polled) "snd (cancelAsyncJob now h r) = reapExpired now r"
  | (aborted) a where "snd (cancelAsyncJob now h r) = upd_job a (\<lambda>j. j\<lparr>j_aborted := True\<rparr>) (reapExpired now r)"
proof (cases "\<exists>a j. lookup_job h (reapExpired now r) = Some (a, j) \<and> j_status j = Running \<and> j_cancellable j")
  case True
  then obtain a where "snd (cancelAsyncJob now h r) = upd_job a (\<lambda>j. j\<lparr>j_aborted := True\<rparr>) (reapExpired now r)"
    by (auto simp: cancelAsyncJob_def Let_def)
  then show ?thesis by (rule aborted)
next
  case False
  then have "snd (cancelAsyncJob now h r) = reapExpired now r"
    by (auto simp: cancelAsyncJob_def Let_def split: option.splits)
  then show ?thesis by (rule polled)
qed

lemma reg_inv_fields [simp]:
  "reg_inv (r\<lparr>next_waiter := n\<rparr>) = reg_inv r" "reg_inv (deliver sens now a ws r) = reg_inv r"
  by (simp_all add: reg_inv_def heap_ok_def live_ok_def slots_ok_def live_job_def)

lemma finished_not_running:
  "reg_inv r \<Longrightarrow> job_at r a = Some j \<Longrightarrow> j_status j = Running \<Longrightarrow> j_finished j = None"
  by (cases "j_finished j") (auto simp: reg_inv_def heap_ok_def)

lemma inv_step: "job_step sens json r r' \<Longrightarrow> reg_inv r \<Longrightarrow> reg_inv r'"
proof (induction rule: job_step.induct)
  case (start r now knd opts)
  then show ?case by (rule inv_start)
next
  case (poll r now h)
  then show ?case by (simp add: inv_reap)
next
  case (await r now h wait_ms)
  show ?case
  proof (cases rule: await_cases [of sens now h wait_ms r])
    case (waiting a j)
    have "reg_inv (upd_job a (\<lambda>j. j\<lparr>j_waiters := j_waiters j @ [next_waiter r]\<rparr>) (reapExpired now r))"
      using finished_not_running [OF await] by (intro inv_upd inv_reap await) (auto simp: keeps_def)
    with waiting show ?thesis by simp
  qed (simp_all add: await inv_reap)
next
  case (cancel r now h)
  show ?case
  proof (cases rule: cancel_cases [of now h r])
    case (aborted a)
    show ?thesis unfolding aborted
      using finished_not_running [OF cancel] by (intro inv_upd inv_reap cancel) (auto simp: keeps_def)
  qed (simp add: cancel inv_reap)
next
  case (progress r a j s)
  then show ?case unfolding report_progress_def
    using finished_not_running [OF progress(2)] by (intro inv_upd) (auto simp: keeps_def)
next
  case (settle_ok r a j res)
  then show ?case unfolding settle_done_def by (intro inv_upd) (auto simp: keeps_def)
next
  case (settle_err r a j msg diag)
  then show ?case unfolding settle_error_def by (intro inv_upd) (auto simp: keeps_def)
next
  case (finish r a j now)
  have "reg_inv (upd_job a (\<lambda>j. j\<lparr>j_finished := Some now, j_waiters := []\<rparr>) r)"
    using finish by (intro inv_upd) (auto simp: keeps_def)
  with finish show ?case by (simp add: finish_job_def)
next
  case (expire r a j w now)
  then show ?case unfolding expire_wait_def
    using finished_not_running [OF expire(3)] by (auto intro!: inv_upd simp: keeps_def)
qed

lemma inv_init: "reg_inv (empty_registry\<lparr>capacity := cap\<rparr>)"
  by (simp add: reg_inv_def heap_ok_def live_ok_def slots_ok_def live_job_def empty_registry_def job_at_def
      jm_get_def jm_wf_def)

lemma reachable_inv: "reachable sens json cap r \<Longrightarrow> reg_inv r"
  by (induction rule: reachable.induct) (auto intro: inv_init inv_step)

section \<open>Waiters\<close>

definition pending :: "registry \<Rightarrow> nat \<Rightarrow> nat \<Rightarrow> bool" where
  "pending r a w \<longleftrightarrow> (\<exists>j. job_at r a = Some j \<and> w \<in> set (j_waiters j))"

definition served :: "registry \<Rightarrow> nat set" where
  "served r = fst ` set (delivered r)"

text \<open>A wait is open at one job at most, is answered at most once, and never at a finished job.\<close>

definition waits_ok :: "registry \<Rightarrow> bool" where
  "waits_ok r \<longleftrightarrow> distinct (map fst (delivered r)) \<and> (\<forall>w \<in> served r. w < next_waiter r)
     \<and> (\<forall>a w. pending r a w \<longrightarrow> w < next_waiter r \<and> w \<notin> served r \<and> (\<forall>b. pending r b w \<longrightarrow> b = a))
     \<and> (\<forall>a j. job_at r a = Some j \<longrightarrow> distinct (j_waiters j) \<and> (j_finished j \<noteq> None \<longrightarrow> j_waiters j = []))"

lemma waits_same:
  assumes w: "waits_ok r" and "delivered r' = delivered r" "next_waiter r' = next_waiter r"
    and jobs: "\<And>a k. job_at r' a = Some k \<Longrightarrow>
      (\<exists>j. job_at r a = Some j \<and> j_waiters k = j_waiters j \<and> j_finished k = j_finished j) \<or> j_waiters k = []"
  shows "waits_ok r'"
proof -
  have p: "pending r' a v \<Longrightarrow> pending r a v" for a v
    using jobs by (fastforce simp: pending_def)
  have s: "served r' = served r" by (simp add: served_def assms(2))
  have j: "distinct (j_waiters k) \<and> (j_finished k \<noteq> None \<longrightarrow> j_waiters k = [])"
    if "job_at r' a = Some k" for a k
    using jobs [OF that] w unfolding waits_ok_def by fastforce
  show ?thesis
    unfolding waits_ok_def assms(2,3) s
  proof (intro conjI allI impI ballI)
    show "distinct (map fst (delivered r))" using w by (simp add: waits_ok_def)
    show "v \<in> served r \<Longrightarrow> v < next_waiter r" for v using w by (simp add: waits_ok_def)
    fix a v assume "pending r' a v"
    then have pv: "pending r a v" by (rule p)
    show "v < next_waiter r" using pv w by (auto simp: waits_ok_def)
    show "v \<notin> served r" using pv w by (auto simp: waits_ok_def)
    show "pending r' b v \<Longrightarrow> b = a" for b using p [of b v] pv w by (auto simp: waits_ok_def)
  qed (use j in blast)+
qed

lemma waits_upd:
  assumes "waits_ok r" and "\<And>j. j_waiters (f j) = j_waiters j \<and> j_finished (f j) = j_finished j"
  shows "waits_ok (upd_job a f r)"
  by (rule waits_same [OF assms(1)]) (use assms(2) in \<open>auto split: if_splits\<close>)

lemma waits_reap: "waits_ok r \<Longrightarrow> waits_ok (reapExpired now r)"
  by (rule waits_same [of r]) auto

lemma waits_add_waiter:
  assumes "waits_ok r" and "job_at r a = Some j" and "j_finished j = None"
  shows "waits_ok ((upd_job a (\<lambda>j. j\<lparr>j_waiters := j_waiters j @ [next_waiter r]\<rparr>) r)
                     \<lparr>next_waiter := Suc (next_waiter r)\<rparr>)" (is "waits_ok ?r'")
proof -
  have p: "pending ?r' b v \<longleftrightarrow> pending r b v \<or> b = a \<and> v = next_waiter r" for b v
    using assms(2) by (auto simp: pending_def)
  have s: "served ?r' = served r" by (simp add: served_def)
  have lt: "pending r b v \<Longrightarrow> v < next_waiter r" "v \<in> served r \<Longrightarrow> v < next_waiter r" for b v
    using assms(1) by (auto simp: waits_ok_def)
  have d: "distinct (j_waiters k) \<and> (j_finished k \<noteq> None \<longrightarrow> j_waiters k = [])"
    if "job_at ?r' b = Some k" for b k
  proof (cases "b = a")
    case True
    have "next_waiter r \<notin> set (j_waiters j)" using lt(1) [of a "next_waiter r"] assms(2) by (auto simp: pending_def)
    with True that assms show ?thesis by (auto simp: waits_ok_def)
  next
    case False
    with that assms(1) show ?thesis by (auto simp: waits_ok_def)
  qed
  show ?thesis
    unfolding waits_ok_def s
  proof (intro conjI allI impI ballI)
    show "distinct (map fst (delivered ?r'))" using assms(1) by (simp add: waits_ok_def)
    show "v \<in> served r \<Longrightarrow> v < next_waiter ?r'" for v using lt(2) [of v] by simp
    fix b v assume pb: "pending ?r' b v"
    show "v < next_waiter ?r'" using pb lt(1) [of b v] by (auto simp: p)
    show "v \<notin> served r" using pb lt(2) [of v] assms(1) by (auto simp: p waits_ok_def)
    show "pending ?r' c v \<Longrightarrow> c = b" for c
      using pb lt(1) [of _ v] assms(1) by (auto simp: p waits_ok_def)
  qed (use d in blast)+
qed

text \<open>Answering some of the waiters of one job.\<close>

lemma waits_release:
  assumes w: "waits_ok r" and j: "job_at r a = Some j" and ws: "set ws \<subseteq> set (j_waiters j)" "distinct ws"
    and f: "j_waiters (f j) = filter (\<lambda>x. x \<notin> set ws) (j_waiters j)"
    and fin: "j_finished (f j) = j_finished j \<or> set ws = set (j_waiters j)"
  shows "waits_ok (deliver sens now a ws (upd_job a f r))" (is "waits_ok ?r'")
proof -
  have del: "map fst (delivered ?r') = map fst (delivered r) @ ws"
    using j by (simp add: deliver_def comp_def)
  then have s: "served ?r' = served r \<union> set ws"
    by (metis (no_types) image_set served_def set_append)
  have p: "pending ?r' b v \<longleftrightarrow> pending r b v \<and> \<not> (b = a \<and> v \<in> set ws)" for b v
    using j f by (auto simp: pending_def)
  have pw: "v \<in> set ws \<Longrightarrow> pending r a v" for v using ws j by (auto simp: pending_def)
  have wf: "pending r b v \<Longrightarrow> v < next_waiter r \<and> v \<notin> served r \<and> (\<forall>c. pending r c v \<longrightarrow> c = b)"
    and sv: "v \<in> served r \<Longrightarrow> v < next_waiter r" for b v
    using w by (auto simp: waits_ok_def)
  show ?thesis
    unfolding waits_ok_def del s
  proof (intro conjI allI impI ballI)
    have "distinct (map fst (delivered r))" using w by (simp add: waits_ok_def)
    moreover have "served r \<inter> set ws = {}" using pw wf [of a] by blast
    ultimately show "distinct (map fst (delivered r) @ ws)"
      using ws(2) by (simp add: served_def)
    show "v \<in> served r \<union> set ws \<Longrightarrow> v < next_waiter ?r'" for v
      using pw [of v] wf [of a v] sv [of v] by auto
    fix b v assume pb: "pending ?r' b v"
    show "v < next_waiter ?r'" using pb wf [of b v] by (simp add: p)
    show "v \<notin> served r \<union> set ws" using pb wf [of b v] pw [of v] by (auto simp: p)
    show "pending ?r' c v \<Longrightarrow> c = b" for c using pb wf [of b v] by (simp add: p)
  next
    fix b k assume "job_at ?r' b = Some k"
    then show "distinct (j_waiters k)"
      using w j f by (auto simp: waits_ok_def split: if_splits)
  next
    fix b k assume k: "job_at ?r' b = Some k" "j_finished k \<noteq> None"
    have nf: "job_at r c = Some l \<Longrightarrow> j_finished l \<noteq> None \<Longrightarrow> j_waiters l = []" for c l
      using w by (auto simp: waits_ok_def)
    show "j_waiters k = []"
    proof (cases "b = a")
      case True
      with k j have "k = f j" by simp
      with k(2) fin nf [OF j] show ?thesis by (auto simp: f filter_empty_conv)
    next
      case False
      with k nf [of b k] show ?thesis by simp
    qed
  qed
qed

lemma waits_step: "job_step sens json r r' \<Longrightarrow> reg_inv r \<Longrightarrow> waits_ok r \<Longrightarrow> waits_ok r'"
proof (induction rule: job_step.induct)
  case (start r now knd opts)
  show ?case
  proof (cases rule: start_cases [of sens now knd opts r])
    case (same r1)
    then show ?thesis by (intro waits_same [OF start(2)]) auto
  next
    case (added v r1)
    note f = resolve_fields [OF added(2)]
    show ?thesis unfolding added(5) snd_conv
      using f by (intro waits_same [OF start(2)]) (auto simp: job_at_add split: if_splits)
  qed
next
  case (poll r now h)
  then show ?case by (simp add: waits_reap)
next
  case (await r now h wait_ms)
  show ?case
  proof (cases rule: await_cases [of sens now h wait_ms r])
    case (waiting a j)
    have "waits_ok ((upd_job a (\<lambda>j. j\<lparr>j_waiters := j_waiters j @ [next_waiter (reapExpired now r)]\<rparr>)
        (reapExpired now r))\<lparr>next_waiter := Suc (next_waiter (reapExpired now r))\<rparr>)"
      using waiting finished_not_running [OF await(1), of a j]
      by (intro waits_add_waiter waits_reap await(2)) auto
    with waiting show ?thesis by simp
  qed (simp_all add: await waits_reap)
next
  case (cancel r now h)
  show ?case
  proof (cases rule: cancel_cases [of now h r])
    case (aborted a)
    show ?thesis unfolding aborted by (intro waits_upd waits_reap cancel(2)) simp
  qed (simp add: cancel waits_reap)
next
  case (progress r a j s)
  then show ?case unfolding report_progress_def by (intro waits_upd) simp_all
next
  case (settle_ok r a j res)
  then show ?case unfolding settle_done_def by (intro waits_upd) simp_all
next
  case (settle_err r a j msg diag)
  then show ?case unfolding settle_error_def by (intro waits_upd) simp_all
next
  case (finish r a j now)
  then have "distinct (j_waiters j)" by (auto simp: waits_ok_def)
  with finish show ?case
    by (simp add: finish_job_def) (rule waits_release [of r a j], auto)
next
  case (expire r a j w now)
  then show ?case unfolding expire_wait_def
    by (intro waits_release [of r a j]) auto
qed

lemma waits_init: "waits_ok (empty_registry\<lparr>capacity := cap\<rparr>)"
  by (simp add: waits_ok_def empty_registry_def served_def pending_def job_at_def jm_get_def)

lemma reachable_waits: "reachable sens json cap r \<Longrightarrow> waits_ok r"
  by (induction rule: reachable.induct) (auto intro: waits_init waits_step reachable_inv)

lemma step_capacity: "job_step sens json r r' \<Longrightarrow> capacity r' = capacity r"
proof (induction rule: job_step.induct)
  case (start r now knd opts)
  show ?case
  proof (cases rule: start_cases [of sens now knd opts r])
    case (added v r1)
    then show ?thesis using resolve_fields [OF added(2)] by simp
  qed simp
next
  case (await r now h wait_ms)
  show ?case by (cases rule: await_cases [of sens now h wait_ms r]) simp_all
next
  case (cancel r now h)
  show ?case by (cases rule: cancel_cases [of now h r]) simp_all
qed (simp_all add: report_progress_def settle_done_def settle_error_def finish_job_def expire_wait_def
    split: option.splits)

lemma reachable_capacity: "reachable sens json cap r \<Longrightarrow> capacity r = cap"
  by (induction rule: reachable.induct) (simp_all add: step_capacity)

section \<open>Single-flight scopes\<close>

definition running_in :: "registry \<Rightarrow> string option \<Rightarrow> nat \<Rightarrow> bool" where
  "running_in r s a \<longleftrightarrow> (\<exists>j. job_at r a = Some j \<and> j_status j = Running \<and> j_scope j = s)"

text \<open>
  Single flight: a start that asks for it in a scope creates a job only if no job in that
  scope is running anywhere, evicted or not.
\<close>

theorem single_flight_start:
  assumes "reachable sens json cap r" and "validateAsyncJobOptions opts = Inr v"
    and "v_single_flight v" and "v_scope v \<noteq> None"
    and "seq (snd (startAsyncJob sens now knd opts r)) \<noteq> seq r" and "job_at r a = Some j"
  shows "\<not> (j_status j = Running \<and> j_scope j = v_scope v)"
proof (cases rule: start_cases [of sens now knd opts r])
  case (same r1)
  with assms(5) show ?thesis by simp
next
  case (added v' r1)
  then have v': "v' = v" using assms(2) by simp
  have inv1: "reg_inv r1"
    using resolve_inv [OF inv_reap [OF reachable_inv [OF assms(1)]], of sens now v now] added(2) v' by simp
  show ?thesis
  proof
    assume run: "j_status j = Running \<and> j_scope j = v_scope v"
    have j1: "job_at r1 a = Some j" using resolve_fields [OF added(2)] assms(6) by simp
    then have "live_job r1 a j" using running_live [OF inv1] run by (simp add: live_job_def)
    then have "(j_id j, a) \<in> set (live r1)" by (rule live_job_entry [OF inv1])
    moreover have "entry_test r1 (\<lambda>j. j_status j = Running \<and> j_scope j = v_scope v) (j_id j, a)"
      using run j1 by (simp add: entry_test_def)
    ultimately have "contended v r1"
      using assms(3,4) unfolding contended_def list_ex_iff by blast
    then show False using added(3) v' by simp
  qed
qed

text \<open>
  Executions in which every start that names the scope \<open>s\<close> asks for single flight in it, as the
  review and the mechanical lane do; starts in other scopes and every other step are free.
\<close>

inductive slot_reachable :: "(ustr \<Rightarrow> bool) \<Rightarrow> (js \<Rightarrow> ustr) \<Rightarrow> nat \<Rightarrow> string \<Rightarrow> registry \<Rightarrow> bool"
  for sens json cap s where
  slot_init: "slot_reachable sens json cap s (empty_registry\<lparr>capacity := cap\<rparr>)"
| slot_start: "slot_reachable sens json cap s r
    \<Longrightarrow> (\<And>v. validateAsyncJobOptions opts = Inr v \<Longrightarrow> v_scope v = Some s \<Longrightarrow> v_single_flight v)
    \<Longrightarrow> slot_reachable sens json cap s (snd (startAsyncJob sens now knd opts r))"
| slot_other: "slot_reachable sens json cap s r \<Longrightarrow> job_step sens json r r' \<Longrightarrow> seq r' = seq r
    \<Longrightarrow> slot_reachable sens json cap s r'"

lemma slot_reachable_reachable: "slot_reachable sens json cap s r \<Longrightarrow> reachable sens json cap r"
  by (induction rule: slot_reachable.induct) (auto intro: reachable.intros job_step.start)

lemma running_in_same: "job_at r' = job_at r \<Longrightarrow> running_in r' s b = running_in r s b"
  by (simp add: running_in_def)

lemma running_in_fields [simp]:
  "running_in (reapExpired now r) s b = running_in r s b"
  "running_in (r\<lparr>next_waiter := n\<rparr>) s b = running_in r s b"
  "running_in (deliver sens now a ws r) s b = running_in r s b"
  by (simp_all add: running_in_def)

definition settles :: "(job \<Rightarrow> job) \<Rightarrow> bool" where
  "settles f \<longleftrightarrow> (\<forall>j. j_scope (f j) = j_scope j \<and> (j_status (f j) = Running \<longrightarrow> j_status j = Running))"

lemma running_in_upd: "running_in (upd_job a f r) s b \<Longrightarrow> settles f \<Longrightarrow> running_in r s b"
  by (auto simp: running_in_def settles_def split: if_splits)

text \<open>No step but a start sets a job running or moves it to another scope.\<close>

lemma step_running:
  "job_step sens json r r' \<Longrightarrow> seq r' = seq r \<Longrightarrow> running_in r' s b \<Longrightarrow> running_in r s b"
proof (induction rule: job_step.induct)
  case (start r now knd opts)
  then show ?case
  proof (cases rule: start_cases [of sens now knd opts r])
    case (added v r1)
    then show ?thesis using start resolve_fields [OF added(2)] by simp
  qed (use start running_in_same in blast)
next
  case (await r now h wait_ms)
  then show ?case
    by (cases rule: await_cases [of sens now h wait_ms r])
      (auto dest!: running_in_upd simp: settles_def)
next
  case (cancel r now h)
  then show ?case
    by (cases rule: cancel_cases [of now h r]) (auto dest!: running_in_upd simp: settles_def)
next
  case (progress r a j st)
  then show ?case unfolding report_progress_def by (auto dest!: running_in_upd simp: settles_def)
next
  case (settle_ok r a j res)
  then show ?case unfolding settle_done_def by (auto dest!: running_in_upd simp: settles_def)
next
  case (settle_err r a j msg diag)
  then show ?case unfolding settle_error_def by (auto dest!: running_in_upd simp: settles_def)
next
  case (finish r a j now)
  then show ?case by (auto dest!: running_in_upd simp: settles_def finish_job_def)
next
  case (expire r a j w now)
  then show ?case unfolding expire_wait_def by (auto dest!: running_in_upd simp: settles_def)
qed simp

text \<open>What a single-flight start that created a job leaves running in its scope.\<close>

lemma single_flight_created:
  assumes "reachable sens json cap r" and "validateAsyncJobOptions opts = Inr v"
    and "v_single_flight v" and "v_scope v \<noteq> None"
    and "seq (snd (startAsyncJob sens now knd opts r)) \<noteq> seq r"
    and "running_in (snd (startAsyncJob sens now knd opts r)) (v_scope v) a"
  shows "a = seq (snd (startAsyncJob sens now knd opts r))"
proof (cases rule: start_cases [of sens now knd opts r])
  case (same r1)
  with assms(5) show ?thesis by simp
next
  case (added v' r1)
  have "\<not> running_in r (v_scope v) a"
    using single_flight_start [OF assms(1-5)] by (auto simp: running_in_def)
  moreover have "job_at r1 = job_at r" using resolve_fields [OF added(2)] by simp
  ultimately show ?thesis
    using assms(6) unfolding added(5) by (auto simp: running_in_def job_at_add split: if_splits)
qed

lemma slot_single:
  "slot_reachable sens json cap s r \<Longrightarrow> running_in r (Some s) a \<Longrightarrow> running_in r (Some s) b \<Longrightarrow> a = b"
proof (induction arbitrary: a b rule: slot_reachable.induct)
  case slot_init
  then show ?case by (simp add: running_in_def empty_registry_def job_at_def jm_get_def)
next
  case (slot_start r opts now knd)
  note reach = slot_reachable_reachable [OF slot_start(1)]
  show ?case
  proof (cases rule: start_cases [of sens now knd opts r])
    case (same r1)
    then show ?thesis using slot_start(3,4,5) running_in_same [OF same(2)] by simp
  next
    case (added v r1)
    have at: "job_at r1 = job_at r" and sq: "seq r1 = seq r" using resolve_fields [OF added(2)] by simp_all
    have sq': "seq (snd (startAsyncJob sens now knd opts r)) \<noteq> seq r" using added(5) sq by simp
    show ?thesis
    proof (cases "v_scope v = Some s")
      case True
      then have "v_single_flight v" by (rule slot_start(2) [OF added(1)])
      then show ?thesis
        using single_flight_created [OF reach added(1) _ _ sq', unfolded True] slot_start(4,5) by blast
    next
      case False
      then have "running_in r (Some s) c" if "running_in (snd (startAsyncJob sens now knd opts r)) (Some s) c" for c
        using that at unfolding added(5) by (auto simp: running_in_def job_at_add split: if_splits)
      then show ?thesis using slot_start(3-5) by blast
    qed
  qed
next
  case (slot_other r r')
  then show ?case using step_running by blast
qed

section \<open>Properties\<close>

text \<open>
  C5. Whatever the callers and the jobs do, the registry holds at most its capacity of entries,
  every entry's id is the id of the job it points to, no two entries share an idempotency key and
  namespace, and every waiter has been answered at most once. Single flight: after a start that asks
  for it in a scope and creates a job, the new job is the only one running in that scope; so where
  every start that names a scope asks for single flight, at most one job of the scope is running.
\<close>

theorem registry_invariant:
  assumes "reachable sens json cap r"
  shows "length (live r) \<le> cap \<and> distinct (map fst (live r))
    \<and> (\<forall>(i, a) \<in> set (live r). \<exists>j. job_at r a = Some j \<and> j_id j = i)
    \<and> (\<forall>a b j k. live_job r a j \<longrightarrow> live_job r b k \<longrightarrow> j_key j \<noteq> None \<longrightarrow> j_key k = j_key j
         \<longrightarrow> j_namespace k = j_namespace j \<longrightarrow> a = b)
    \<and> distinct (map fst (delivered r))
    \<and> (\<forall>now knd opts v a. validateAsyncJobOptions opts = Inr v \<longrightarrow> v_single_flight v \<longrightarrow> v_scope v \<noteq> None
         \<longrightarrow> seq (snd (startAsyncJob sens now knd opts r)) \<noteq> seq r
         \<longrightarrow> running_in (snd (startAsyncJob sens now knd opts r)) (v_scope v) a
         \<longrightarrow> a = seq (snd (startAsyncJob sens now knd opts r)))
    \<and> (\<forall>s a b. slot_reachable sens json cap s r \<longrightarrow> running_in r (Some s) a \<longrightarrow> running_in r (Some s) b
         \<longrightarrow> a = b)"
proof (intro conjI)
  note inv = reachable_inv [OF assms]
  show "length (live r) \<le> cap" using live_len [OF inv] reachable_capacity [OF assms] by simp
  show "distinct (map fst (live r))" using live_wf [OF inv] by (simp add: jm_wf_def)
  show "\<forall>(i, a) \<in> set (live r). \<exists>j. job_at r a = Some j \<and> j_id j = i"
    using live_entry [OF inv] by (auto simp: live_job_def)
  show "\<forall>a b j k. live_job r a j \<longrightarrow> live_job r b k \<longrightarrow> j_key j \<noteq> None \<longrightarrow> j_key k = j_key j
         \<longrightarrow> j_namespace k = j_namespace j \<longrightarrow> a = b"
    using slots_unique [OF inv] by blast
  show "distinct (map fst (delivered r))" using reachable_waits [OF assms] by (simp add: waits_ok_def)
qed (use single_flight_created [OF assms] slot_single in blast)+

text \<open>
  Live work is never evicted: a job that has not settled answers to its own id in every
  reachable state and at every time, however many starts, expiries and evictions there were
  (clock and counter below 2^53, where its id stays within the handle bound).
\<close>

theorem running_job_pollable:
  assumes "reachable sens json cap r" and "job_at r a = Some j" and "j_status j = Running"
    and "j_started j < 2 ^ 53" and "seq r < 2 ^ 53"
  shows "fst (pollAsyncJob sens now (JStr (j_id j)) r)
           = EnvRunning (j_id j) (j_kind j) (int now - int (j_started j)) (j_progress j)"
proof -
  note inv = reachable_inv [OF assms(1)]
  have a: "a \<le> seq r" "j_id j = job_id (j_started j) a" using job_address [OF inv assms(2)] by auto
  have "a < 2 ^ 53" using a(1) assms(5) by linarith
  then have "handle_of (JStr (j_id j)) = Some (j_id j)"
    unfolding a(2) using radix36_safe [OF assms(4)] radix36_safe [of a] by (intro handle_job_id) linarith
  moreover have "jm_get (live (reapExpired now r)) (j_id j) = Some a"
    using running_live [OF inv_reap [OF inv]] assms(2,3) by simp
  ultimately have "lookup_job (JStr (j_id j)) (reapExpired now r) = Some (a, j)"
    using assms(2) by (simp add: lookup_job_def)
  then show ?thesis
    using assms(3) finished_not_running [OF inv assms(2,3)]
    by (simp add: pollAsyncJob_def Let_def job_envelope_def)
qed

text \<open>
  Replaying a start is idempotent: while a job holds the key and namespace, a start with the
  same fingerprint returns that job's envelope and creates nothing, and a start with another
  fingerprint is refused as a conflict.
\<close>

theorem idempotent_start:
  assumes "reachable sens json cap r" and "validateAsyncJobOptions opts = Inr v" and "v_key v \<noteq> None"
    and "live_job r a j" and "\<not> expired now j" and "same_slot v j" and "\<not> is_stale v j"
  shows "startAsyncJob sens now knd opts r
    = (if j_fingerprint j = v_fingerprint v then job_envelope sens now j
       else EnvRefused ''job_idempotency_conflict'', reapExpired now r)"
proof -
  let ?r = "reapExpired now r"
  note inv = reachable_inv [OF assms(1)] and inv1 = inv_reap [OF reachable_inv [OF assms(1)]]
  have lj: "live_job ?r a j"
    using assms(4,5) get_live_reap [OF live_wf [OF inv]] by (simp add: live_job_def entry_test_def)
  obtain i b where f: "find (entry_test ?r (same_slot v)) (live ?r) = Some (i, b)"
    using find_no_entry [OF inv1 _ lj, of "same_slot v"] assms(6) by fastforce
  obtain k where k: "live_job ?r b k" "same_slot v k" using find_entry [OF inv1 f] by blast
  have "j_key j \<noteq> None" "j_key k = j_key j" "j_namespace k = j_namespace j"
    using assms(3,6) k(2) by (auto simp: same_slot_def)
  then have "a = b" by (rule slots_unique [OF inv1 lj k(1)])
  then have b: "job_at ?r b = Some j" using lj by (simp add: live_job_def)
  obtain key where "v_key v = Some key" using assms(3) by blast
  then show ?thesis
    using assms(2,7) f b
    by (simp add: startAsyncJob_def resolveIdempotentAsyncJob_def)
qed

text \<open>
  C11. The last step of a job's promise chain answers every waiter that is still open, exactly
  once and with that job's own terminal envelope (its id and kind, the time it took, and its result,
  its cancellation or its sanitised error), and leaves none open.
\<close>

theorem finish_releases_waiters:
  assumes "reachable sens json cap r" and "job_at r a = Some j"
    and "j_status j \<noteq> Running" and "j_finished j = None"
  shows "delivered (finish_job sens now a r) = delivered r @ map (\<lambda>w. (w,
          case j_status j of
            Done \<Rightarrow> EnvDone (j_id j) (j_kind j) (int now - int (j_started j)) (j_result j)
          | Cancelled \<Rightarrow> EnvCancelled (j_id j) (j_kind j) (int now - int (j_started j))
          | _ \<Rightarrow> EnvFailed (j_id j) (j_kind j) (int now - int (j_started j))
                  (safeAsyncJobError sens (j_error j)) (j_diagnostics j))) (j_waiters j)
      \<and> distinct (map fst (delivered (finish_job sens now a r)))
      \<and> (\<forall>w. \<not> pending (finish_job sens now a r) a w)"
proof -
  let ?j = "j\<lparr>j_finished := Some now, j_waiters := []\<rparr>"
  have "job_step sens json r (finish_job sens now a r)" by (rule finish [OF assms(2-4)])
  then have "waits_ok (finish_job sens now a r)"
    by (rule waits_step [OF _ reachable_inv [OF assms(1)] reachable_waits [OF assms(1)]])
  then have "distinct (map fst (delivered (finish_job sens now a r)))" by (simp add: waits_ok_def)
  moreover have "delivered (finish_job sens now a r)
      = delivered r @ map (\<lambda>w. (w, job_envelope sens now ?j)) (j_waiters j)"
    using assms(2) by (simp add: finish_job_def deliver_def)
  moreover have "job_envelope sens now ?j = (case j_status j of
            Done \<Rightarrow> EnvDone (j_id j) (j_kind j) (int now - int (j_started j)) (j_result j)
          | Cancelled \<Rightarrow> EnvCancelled (j_id j) (j_kind j) (int now - int (j_started j))
          | _ \<Rightarrow> EnvFailed (j_id j) (j_kind j) (int now - int (j_started j))
                  (safeAsyncJobError sens (j_error j)) (j_diagnostics j))"
    using assms(3) by (cases "j_status j") (simp_all add: job_envelope_def)
  moreover have "\<not> pending (finish_job sens now a r) a w" for w
    using assms(2) by (simp add: finish_job_def pending_def)
  ultimately show ?thesis by simp
qed

text \<open>
  A fingerprint depends neither on the order of an input object's keys nor on keys whose
  value is \<open>undefined\<close>: two objects with the same defined entries have the same fingerprint.
\<close>

theorem fingerprint_order_independent:
  assumes "distinct (map fst fs)" and "distinct (map fst gs)"
    and "{e \<in> set fs. snd e \<noteq> JUndef} = {e \<in> set gs. snd e \<noteq> JUndef}"
  shows "asyncJobInputFingerprint json sha256 (JObj fs) = asyncJobInputFingerprint json sha256 (JObj gs)"
proof -
  let ?n = "\<lambda>fs. map (\<lambda>(k, v). (k, normalizedFingerprintValue v)) (filter (\<lambda>(_, v). v \<noteq> JUndef) fs)"
  have keys: "map fst (?n xs) = map fst (filter (\<lambda>(_, v). v \<noteq> JUndef) xs)" for xs
    by (simp add: case_prod_beta comp_def)
  have d: "distinct (map fst (?n xs))" if "distinct (map fst xs)" for xs
    unfolding keys using that by (rule distinct_map_filter)
  have eq: "{e \<in> set xs. snd e \<noteq> JUndef} = set (filter (\<lambda>(_, v). v \<noteq> JUndef) xs)" for xs :: "(string \<times> js) list"
    by auto
  have "set (?n fs) = set (?n gs)"
    using assms(3) unfolding eq set_map by (rule arg_cong)
  moreover have "distinct (?n fs)" "distinct (?n gs)" "inj_on fst (set (?n fs))"
    using d [OF assms(1)] d [OF assms(2)] by (simp_all only: distinct_map)
  ultimately have "mset (?n fs) = mset (sort_key fst (?n gs))"
    by (simp only: mset_sort set_eq_iff_mset_eq_distinct)
  then have "sort_key fst (?n fs) = sort_key fst (?n gs)"
    using \<open>inj_on fst (set (?n fs))\<close> by (rule sort_key_inj_key_eq) (rule sorted_sort_key)
  then show ?thesis by (simp only: asyncJobInputFingerprint_def normalizedFingerprintValue.simps)
qed

section \<open>Witnesses\<close>

definition review_options :: job_options where
  "review_options = \<lparr>o_key = JStr ''attempt-1'', o_namespace = JStr ''codex_review'',
     o_fingerprint = JStr (replicate 64 (CHR ''a'')), o_scope = JStr ''checkout'',
     o_single_flight = JBool True, o_cancellable = JUndef, o_retry = NoRetry\<rparr>"

definition review_valid :: valid_options where
  "review_valid = \<lparr>v_key = Some ''attempt-1'', v_namespace = Some ''codex_review'',
     v_fingerprint = Some (replicate 64 (CHR ''a'')), v_scope = Some ''checkout'',
     v_single_flight = True, v_cancellable = True, v_retry = None\<rparr>"

lemma review_valid: "validateAsyncJobOptions review_options = Inr review_valid"
  by (simp add: validateAsyncJobOptions_def review_options_def review_valid_def text_opt_def flag_opt_def
      idempotency_key_ok_def idempotency_key_max_def bounded_name_def sha256_hex_def nullish_def
      key_char_def alnum_def is_lower_def is_digit_def is_upper_def is_hex_def less_eq_char_def
      list_all_iff)

abbreviation no_secret :: "ustr \<Rightarrow> bool" where "no_secret \<equiv> \<lambda>_. False"
abbreviation no_json :: "js \<Rightarrow> ustr" where "no_json \<equiv> \<lambda>_. []"

definition review_job :: job where
  "review_job = new_job (JStr ''review'') review_valid 1000 1"

definition review_registry :: registry where
  "review_registry = add_job review_job (empty_registry\<lparr>capacity := 2\<rparr>)"

lemma review_started:
  "startAsyncJob no_secret 1000 (JStr ''review'') review_options (empty_registry\<lparr>capacity := 2\<rparr>)
     = (job_envelope no_secret 1000 review_job, review_registry)"
  by (simp add: startAsyncJob_def review_valid resolveIdempotentAsyncJob_def review_registry_def
      review_job_def reapExpired_def empty_registry_def contended_def Let_def)

lemma review_reachable: "reachable no_secret no_json 2 review_registry"
  using reachable.step [OF reachable.init job_step.start
      [where now = 1000 and knd = "JStr ''review''" and opts = review_options], of no_secret no_json 2]
  by (simp add: review_started)

lemma review_job_at: "job_at review_registry (Suc 0) = Some review_job"
  unfolding review_registry_def job_at_add by (simp add: empty_registry_def)

lemma review_live: "live_job review_registry (Suc 0) review_job"
  unfolding live_job_def review_job_at unfolding review_registry_def live_add
  by (simp add: empty_registry_def)

lemma review_slot: "slot_reachable no_secret no_json 2 ''checkout'' review_registry"
  using slot_reachable.slot_start [OF slot_reachable.slot_init, where opts = review_options and now = 1000
      and knd = "JStr ''review''" and sens = no_secret and json = no_json and cap = 2 and s = "''checkout''"]
  unfolding review_started by (simp add: review_valid review_valid_def)

lemma registry_invariant_witness:
  "length (live review_registry) \<le> 2 \<and> {a. running_in review_registry (Some ''checkout'') a} = {1}"
proof -
  have "running_in review_registry (Some ''checkout'') 1"
    using review_job_at by (simp add: running_in_def review_job_def review_valid_def)
  then show ?thesis
    using registry_invariant [OF review_reachable] review_slot by auto
qed

lemma running_job_pollable_witness:
  "fst (pollAsyncJob no_secret 5000 (JStr (j_id review_job)) review_registry)
     = EnvRunning (j_id review_job) ''review'' 4000 None"
  using running_job_pollable [OF review_reachable review_job_at, of 5000]
  by (simp add: review_job_def review_registry_def empty_registry_def new_job_def)

lemma idempotent_start_witness:
  "fst (startAsyncJob no_secret 5000 (JStr ''review'') review_options review_registry)
     = EnvRunning (j_id review_job) ''review'' 4000 None"
  using idempotent_start [OF review_reachable review_valid _ review_live, of 5000 "JStr ''review''"]
  by (simp add: review_valid_def review_job_def new_job_def same_slot_def is_stale_def expired_def
      job_envelope_def)

lemma single_flight_start_witness:
  "\<not> (j_status review_job = Running \<and> j_scope review_job = Some ''other'')"
proof -
  let ?o = "review_options\<lparr>o_key := JUndef, o_namespace := JUndef, o_fingerprint := JUndef, o_scope := JStr ''other''\<rparr>"
  let ?v = "review_valid\<lparr>v_key := None, v_namespace := None, v_fingerprint := None, v_scope := Some ''other''\<rparr>"
  have v: "validateAsyncJobOptions ?o = Inr ?v"
    by (simp add: validateAsyncJobOptions_def review_options_def review_valid_def text_opt_def flag_opt_def
        bounded_name_def nullish_def)
  have "seq (snd (startAsyncJob no_secret 5000 JNull ?o review_registry)) \<noteq> seq review_registry"
    by (simp add: startAsyncJob_def v resolveIdempotentAsyncJob_def review_registry_def live_add_job
        reapExpired_def entry_test_def job_at_add empty_registry_def contended_def review_job_def expired_def
        jm_set_def Let_def review_valid_def)
  from single_flight_start [OF review_reachable v _ _ this review_job_at] show ?thesis
    by (simp add: review_valid_def)
qed

lemma finish_releases_waiters_witness:
  "delivered (finish_job no_secret 9000 1 (settle_done 1 (JBool True)
      (snd (awaitAsyncJob no_secret 5000 (JStr (j_id review_job)) (JInt 1000) review_registry))))
    = [(0, EnvDone (j_id review_job) ''review'' 8000 (JBool True))]"
proof -
  let ?w = "snd (awaitAsyncJob no_secret 5000 (JStr (j_id review_job)) (JInt 1000) review_registry)"
  let ?s = "settle_done 1 (JBool True) ?w"
  have h: "handle_of (JStr (j_id review_job)) = Some (j_id review_job)"
    unfolding review_job_def new_job_fields
    using radix36_safe [of 1000] radix36_safe [of 1] by (intro handle_job_id) simp
  have live: "jm_get (live (reapExpired 5000 review_registry)) (j_id review_job) = Some 1"
    using running_live [OF inv_reap [OF reachable_inv [OF review_reachable]], of 5000 "Suc 0" review_job] review_job_at
    by (simp add: review_job_def)
  have l: "lookup_job (JStr (j_id review_job)) (reapExpired 5000 review_registry) = Some (1, review_job)"
    using h live review_job_at by (simp add: lookup_job_def)
  have w: "?w = (upd_job 1 (\<lambda>j. j\<lparr>j_waiters := j_waiters j @ [0]\<rparr>) (reapExpired 5000 review_registry))
        \<lparr>next_waiter := Suc 0\<rparr>"
  proof -
    have "j_status review_job = Running" "next_waiter review_registry = 0"
      by (simp_all add: review_job_def review_registry_def empty_registry_def)
    then show ?thesis using l by (simp add: awaitAsyncJob_def pollAsyncJob_def wait_seconds_max_def)
  qed
  have jw: "job_at ?w 1 = Some (review_job\<lparr>j_waiters := [0]\<rparr>)"
    unfolding w using review_job_at by simp (simp add: review_job_def)
  have rw: "reachable no_secret no_json 2 ?w"
    by (rule reachable.step [OF review_reachable job_step.await])
  have rs: "reachable no_secret no_json 2 ?s"
    by (rule reachable.step [OF rw job_step.settle_ok [OF jw]]) (simp add: review_job_def)
  have js: "job_at ?s 1 = Some (review_job\<lparr>j_waiters := [0], j_result := JBool True, j_status := Done\<rparr>)"
    using jw by (simp add: settle_done_def)
  have d: "delivered ?s = []"
    unfolding settle_done_def upd_job_fields w by (simp add: review_registry_def empty_registry_def)
  have "j_finished (review_job\<lparr>j_waiters := [0], j_result := JBool True, j_status := Done\<rparr>) = None"
    by (simp add: review_job_def)
  from finish_releases_waiters [OF rs js _ this, of 9000] show ?thesis
    unfolding d by (simp add: review_job_def new_job_def)
qed

lemma fingerprint_order_independent_witness:
  "asyncJobInputFingerprint no_json (\<lambda>_. ''h'') (JObj [(''b'', JInt 1), (''a'', JInt 2), (''c'', JUndef)])
     = asyncJobInputFingerprint no_json (\<lambda>_. ''h'') (JObj [(''a'', JInt 2), (''b'', JInt 1)])"
  by (rule fingerprint_order_independent) auto

end
