(* ===== verification/ReviewCap.thy ===== *)
theory ReviewCap
  imports JsonText Thread
begin

text \<open>
  Review cycle caps: the pre-push cap of an issue (\<open>lib/api-requirements.js\<close>), the post-push cap
  of a pull request (\<open>lib/repo-context-2.js\<close>), the per-finding verify cap
  (\<open>lib/codex-verify-cap.js\<close>), the publication attributes the pre-push marker carries
  (\<open>lib/review-publication-markers.js\<close>), and the two gates that decide whether a review may run at
  all (\<open>lib/codex-review-cap.js\<close>). Counts are read back from markers on the thread.

  The checked-out branch, the configuration context, the thread bodies and the pull request's
  closing issues are parameters.
\<close>

section \<open>Decisions\<close>

record cap_ok =
  next_cycle :: int
  ok_cap :: int
  is_override :: bool
  ok_reason :: "string option"
  ok_next_action :: string

record cap_refusal =
  cr_error :: string
  cr_prior :: int
  cr_cap :: int
  cr_next_action :: "string option"

text \<open>\<open>Threw\<close> is the exception a negative prior count raises.\<close>

datatype cap_decision = Threw | Refused cap_refusal | Granted cap_ok

definition nonblank :: "js \<Rightarrow> string option" where
  "nonblank v = (case v of JStr s \<Rightarrow> if trim s = [] then None else Some (trim s) | _ \<Rightarrow> None)"

definition codex_review_prepush_hard_cap :: int where "codex_review_prepush_hard_cap = 1"
definition codex_review_hard_cap :: int where "codex_review_hard_cap = 3"
definition codex_verify_hard_cap :: int where "codex_verify_hard_cap = 2"

definition evaluateCodexReviewPrePushCycleCap :: "int \<Rightarrow> int \<Rightarrow> js \<Rightarrow> js \<Rightarrow> cap_decision" where
  "evaluateCodexReviewPrePushCycleCap prior cap override reason =
     (if prior < 0 then Threw
      else if override = JBool True then
        (case nonblank reason of
           None \<Rightarrow> Refused \<lparr>cr_error = ''codex_review_prepush_override_missing_reason'',
                            cr_prior = prior, cr_cap = cap, cr_next_action = None\<rparr>
         | Some r \<Rightarrow> Granted \<lparr>next_cycle = prior + 1, ok_cap = cap, is_override = True,
                             ok_reason = Some r,
                             ok_next_action = ''fix_findings_then_ask_over_cap_or_proceed''\<rparr>)
      else if prior \<ge> cap then
        Refused \<lparr>cr_error = ''codex_review_prepush_cap_reached'', cr_prior = prior, cr_cap = cap,
                 cr_next_action = Some ''ask_over_cap_or_proceed''\<rparr>
      else Granted \<lparr>next_cycle = prior + 1, ok_cap = cap, is_override = False, ok_reason = None,
                    ok_next_action = (if prior + 1 = cap
                                      then ''fix_findings_then_ask_over_cap_or_proceed''
                                      else ''fix_all_findings_and_restage'')\<rparr>)"

definition evaluateCodexReviewCycleCap :: "int \<Rightarrow> int \<Rightarrow> js \<Rightarrow> js \<Rightarrow> cap_decision" where
  "evaluateCodexReviewCycleCap prior cap override reason =
     (if prior < 0 then Threw
      else if override = JBool True then
        (case nonblank reason of
           None \<Rightarrow> Refused \<lparr>cr_error = ''codex_review_override_missing_reason'',
                            cr_prior = prior, cr_cap = cap, cr_next_action = None\<rparr>
         | Some r \<Rightarrow> Granted \<lparr>next_cycle = prior + 1, ok_cap = cap, is_override = True,
                             ok_reason = Some r,
                             ok_next_action = ''fix_findings_then_ask_over_cap_or_proceed''\<rparr>)
      else if prior \<ge> cap then
        Refused \<lparr>cr_error = ''codex_review_cap_reached'', cr_prior = prior, cr_cap = cap,
                 cr_next_action = Some ''ask_over_cap_or_proceed''\<rparr>
      else Granted \<lparr>next_cycle = prior + 1, ok_cap = cap, is_override = False, ok_reason = None,
                    ok_next_action = (if prior + 1 = cap
                                      then ''fix_findings_then_ask_over_cap_or_proceed''
                                      else ''fix_all_findings_and_push'')\<rparr>)"

definition evaluateCodexVerifyCycleCap :: "int \<Rightarrow> int \<Rightarrow> js \<Rightarrow> js \<Rightarrow> cap_decision" where
  "evaluateCodexVerifyCycleCap prior cap override reason =
     (if prior < 0 then Threw
      else if override = JBool True then
        (case nonblank reason of
           None \<Rightarrow> Refused \<lparr>cr_error = ''codex_verify_override_missing_reason'',
                            cr_prior = prior, cr_cap = cap, cr_next_action = None\<rparr>
         | Some r \<Rightarrow> Granted \<lparr>next_cycle = prior + 1, ok_cap = cap, is_override = True,
                             ok_reason = Some r,
                             ok_next_action = ''fix_finding_then_escalate_if_still_unresolved''\<rparr>)
      else if prior \<ge> cap then
        Refused \<lparr>cr_error = ''codex_verify_cap_reached'', cr_prior = prior, cr_cap = cap,
                 cr_next_action = Some ''escalate_finding_to_user''\<rparr>
      else Granted \<lparr>next_cycle = prior + 1, ok_cap = cap, is_override = False, ok_reason = None,
                    ok_next_action = (if prior + 1 = cap
                                      then ''fix_finding_then_escalate_if_still_unresolved''
                                      else ''fix_finding_and_retry'')\<rparr>)"

text \<open>The contract the three share, and what it bounds.\<close>

locale cycle_cap =
  fixes evaluate :: "int \<Rightarrow> int \<Rightarrow> js \<Rightarrow> js \<Rightarrow> cap_decision"
  assumes grants_next: "evaluate p c ov r = Granted g \<Longrightarrow> next_cycle g = p + 1"
    and under_cap: "evaluate p c ov r = Granted g \<Longrightarrow> \<not> is_override g \<Longrightarrow> p < c"
    and authorized: "evaluate p c ov r = Granted g \<Longrightarrow> is_override g \<Longrightarrow>
        ov = JBool True \<and> nonblank r = ok_reason g \<and> ok_reason g \<noteq> None"
    and admits: "0 \<le> p \<Longrightarrow> p < c \<Longrightarrow> ov \<noteq> JBool True \<Longrightarrow> \<exists>g. evaluate p c ov r = Granted g"
begin

text \<open>A request is an override flag and a reason; a granted review posts one more marker.\<close>

definition review :: "int \<Rightarrow> int \<times> nat \<Rightarrow> js \<times> js \<Rightarrow> int \<times> nat" where
  "review c s q = (case evaluate (fst s) c (fst q) (snd q) of
     Granted g \<Rightarrow> (fst s + 1, if is_override g then snd s + 1 else snd s)
   | _ \<Rightarrow> s)"

definition reviews :: "int \<Rightarrow> (js \<times> js) list \<Rightarrow> int \<times> nat" where
  "reviews c qs = foldl (review c) (0, 0) qs"

lemma reviews_bounded: "0 \<le> c \<Longrightarrow> fst (reviews c qs) \<le> c + int (snd (reviews c qs))"
proof (induction qs rule: rev_induct)
  case Nil
  then show ?case by (simp add: reviews_def)
next
  case (snoc q qs)
  let ?s = "reviews c qs"
  have "fst (review c ?s q) \<le> c + int (snd (review c ?s q))"
  proof (cases "evaluate (fst ?s) c (fst q) (snd q)")
    case (Granted g)
    have "int (snd ?s) \<ge> 0" by simp
    with Granted show ?thesis using snoc under_cap [OF Granted] by (cases "is_override g") (auto simp: review_def)
  qed (use snoc in \<open>simp_all add: review_def\<close>)
  then show ?case by (simp add: reviews_def)
qed

lemma unauthorised_bounded:
  assumes "0 \<le> c" and "\<forall>q \<in> set qs. fst q = JBool True \<longrightarrow> nonblank (snd q) = None"
  shows "snd (reviews c qs) = 0 \<and> fst (reviews c qs) \<le> c"
proof -
  have "snd (reviews c qs) = 0"
    using assms(2)
  proof (induction qs rule: rev_induct)
    case Nil
    then show ?case by (simp add: reviews_def)
  next
    case (snoc q qs)
    have "snd (review c (reviews c qs) q) = snd (reviews c qs)"
      using snoc.prems authorized [of "fst (reviews c qs)" c "fst q" "snd q"]
      by (auto simp: review_def split: cap_decision.splits)
    then show ?case using snoc by (simp add: reviews_def)
  qed
  with reviews_bounded [OF assms(1), of qs] show ?thesis by simp
qed

end

lemma nonblank_some: "nonblank r = Some t \<Longrightarrow> \<exists>s. r = JStr s \<and> t = trim s \<and> trim s \<noteq> []"
  by (auto simp: nonblank_def split: js.splits if_splits)

interpretation prepush: cycle_cap evaluateCodexReviewPrePushCycleCap
  by unfold_locales
    (auto simp: evaluateCodexReviewPrePushCycleCap_def split: if_splits option.splits)

interpretation postpush: cycle_cap evaluateCodexReviewCycleCap
  by unfold_locales
    (auto simp: evaluateCodexReviewCycleCap_def split: if_splits option.splits)

interpretation verify: cycle_cap evaluateCodexVerifyCycleCap
  by unfold_locales
    (auto simp: evaluateCodexVerifyCycleCap_def split: if_splits option.splits)

section \<open>Markers\<close>

record publication_proof =
  publication_id :: string
  original_digest :: string
  revision_digest :: string
  sanitized_digest :: string
  candidate_tree_oid :: string
  findings_count :: nat

definition review_publication_schema :: string where
  "review_publication_schema = ''gc.review-publication/v2''"

text \<open>The attributes are joined by single spaces; each is written with the space before it.\<close>

definition buildReviewPublicationMarkerAttributes :: "publication_proof \<Rightarrow> string" where
  "buildReviewPublicationMarkerAttributes p =
     attr_str ''schema'' review_publication_schema
     @ attr_str ''publication'' (publication_id p) @ attr_str ''original'' (original_digest p)
     @ attr_str ''revision'' (revision_digest p) @ attr_str ''sanitized'' (sanitized_digest p)
     @ attr_str ''tree'' (candidate_tree_oid p) @ attr_str ''findings'' (show_nat (findings_count p))"

record cycle_marker =
  cm_subject :: nat
  cm_branch :: string
  cm_cycle :: nat
  cm_override :: bool
  cm_reason :: "string option"
  cm_cap :: int
  cm_publication :: "publication_proof option"

definition override_attr :: "cycle_marker \<Rightarrow> string" where
  "override_attr m = (if cm_override m then '' override=\"true\"'' else [])"

text \<open>The trimmed reason, where there is one.\<close>

definition reason_text :: "cycle_marker \<Rightarrow> string option" where
  "reason_text m = (if cm_override m
     then (case cm_reason m of Some r \<Rightarrow> if trim r = [] then None else Some (trim r) | None \<Rightarrow> None)
     else None)"

definition reason_attr :: "cycle_marker \<Rightarrow> string" where
  "reason_attr m = (case reason_text m of None \<Rightarrow> [] | Some r \<Rightarrow> '' reason='' @ json_string r)"

definition reason_line :: "cycle_marker \<Rightarrow> string" where
  "reason_line m = (case reason_text m of None \<Rightarrow> [] | Some r \<Rightarrow> nl # ''Override reason: '' @ r)"

definition em_dash :: string where
  "em_dash = [CHR 0xE2, CHR 0x80, CHR 0x94]"

definition prepush_headline :: "cycle_marker \<Rightarrow> string" where
  "prepush_headline m =
     ''_gc_codex_review pre-push cycle '' @ show_nat (cm_cycle m)
     @ (if cm_override m then '' (USER-AUTHORIZED OVERRIDE past cap '' @ show_int (cm_cap m) @ '')''
        else '' of '' @ show_int (cm_cap m))
     @ '' complete for issue #'' @ show_nat (cm_subject m) @ '' on branch '' @ [CHR 0x27]
     @ cm_branch m @ [CHR 0x27] @ ''._''"

definition prepush_marker_line :: "cycle_marker \<Rightarrow> string" where
  "prepush_marker_line m =
     ''<!-- gc:codex-prepush-cycle'' @ attr_str ''issue'' (show_nat (cm_subject m))
     @ attr_str ''branch'' (json_escape (cm_branch m)) @ attr_str ''cycle'' (show_nat (cm_cycle m))
     @ override_attr m @ reason_attr m
     @ (case cm_publication m of None \<Rightarrow> [] | Some p \<Rightarrow> buildReviewPublicationMarkerAttributes p)
     @ '' -->''"

definition buildCodexReviewPrePushCycleMarker :: "cycle_marker \<Rightarrow> string" where
  "buildCodexReviewPrePushCycleMarker m =
     prepush_marker_line m @ [nl, nl] @ prepush_headline m
     @ '' Posted by the MCP server to enforce the pre-push hard-cap-'' @ show_int (cm_cap m)
     @ '' contract (issues #796, #804, #906). Do not edit or delete '' @ em_dash
     @ '' used by the next `gc_codex_review` (uncommitted) invocation to count cycles.''
     @ reason_line m"

definition json_attr :: "string \<Rightarrow> string matcher" where
  "json_attr nm s = do {
     s1 \<leftarrow> ws1 s;
     s2 \<leftarrow> lit (nm @ [CHR ''='', dq]) s1;
     (raw, s3) \<leftarrow> json_raw s2;
     s4 \<leftarrow> lit [dq] s3;
     Some (raw, s4) }"

text \<open>\<open>CODEX_REVIEW_PREPUSH_MARKER_RE\<close>: issue, raw branch attribute, cycle.\<close>

definition prepush_marker :: "(nat \<times> string \<times> nat) matcher" where
  "prepush_marker s = do {
     s1 \<leftarrow> marker_open ''gc:codex-prepush-cycle'' s;
     (i, s2) \<leftarrow> attr ''issue'' is_digit nonempty s1;
     (b, s3) \<leftarrow> json_attr ''branch'' s2;
     (c, s4) \<leftarrow> attr ''cycle'' is_digit nonempty s3;
     s5 \<leftarrow> after_first ''-->'' s4;
     Some ((dec_val i, b, dec_val c), s5) }"

definition parseCodexReviewPrePushCycleMarkerEntries :: "string \<Rightarrow> nat \<Rightarrow> (string \<times> nat) list" where
  "parseCodexReviewPrePushCycleMarkerEntries body n =
     List.map_filter (\<lambda>(i, b, c). if i = n then map_option (\<lambda>br. (br, c)) (json_unescape b) else None)
       (find_all prepush_marker body)"

definition parseCodexReviewPrePushCycleMarkers :: "string list \<Rightarrow> nat \<Rightarrow> nat" where
  "parseCodexReviewPrePushCycleMarkers bodies n =
     foldl (\<lambda>k body. k + length (parseCodexReviewPrePushCycleMarkerEntries body n)) 0 bodies"

text \<open>\<open>CODEX_REVIEW_CYCLE_MARKER_RE\<close> is not global: the first match of a body is the only one.\<close>

definition postpush_marker :: "(nat \<times> nat) matcher" where
  "postpush_marker s = do {
     s1 \<leftarrow> marker_open ''gc:codex-review-cycle'' s;
     (c, s2) \<leftarrow> attr ''cycle'' is_digit nonempty s1;
     (p, s3) \<leftarrow> attr ''pr'' is_digit nonempty s2;
     s4 \<leftarrow> after_first ''-->'' s3;
     Some ((dec_val c, dec_val p), s4) }"

definition parseCodexReviewCycleMarkers :: "string list \<Rightarrow> nat \<Rightarrow> nat" where
  "parseCodexReviewCycleMarkers bodies pr =
     length (filter (\<lambda>body. case find_all postpush_marker body of
                             (_, p) # _ \<Rightarrow> p = pr | [] \<Rightarrow> False) bodies)"

definition buildCodexReviewCycleMarker :: "cycle_marker \<Rightarrow> string" where
  "buildCodexReviewCycleMarker m =
     ''<!-- gc:codex-review-cycle'' @ attr_str ''cycle'' (show_nat (cm_cycle m))
     @ attr_str ''pr'' (show_nat (cm_subject m)) @ override_attr m @ reason_attr m @ '' -->''
     @ [nl, nl] @ ''_gc_codex_review cycle '' @ show_nat (cm_cycle m)
     @ (if cm_override m
        then '' (USER-AUTHORIZED OVERRIDE past cap '' @ show_int codex_review_hard_cap @ '')''
        else '' of '' @ show_int codex_review_hard_cap)
     @ '' complete for PR #'' @ show_nat (cm_subject m)
     @ ''._ Posted by the MCP server to enforce the hard-cap-'' @ show_int codex_review_hard_cap
     @ '' contract (issues #794, #804). Do not edit or delete '' @ em_dash
     @ '' used by the next `gc_codex_review` invocation to count cycles.'' @ reason_line m"

definition verify_marker :: "(nat \<times> nat \<times> nat) matcher" where
  "verify_marker s = do {
     s1 \<leftarrow> marker_open ''gc:codex-verify-cycle'' s;
     (p, s2) \<leftarrow> attr ''pr'' is_digit nonempty s1;
     (k, s3) \<leftarrow> attr ''comment'' is_digit nonempty s2;
     (c, s4) \<leftarrow> attr ''cycle'' is_digit nonempty s3;
     s5 \<leftarrow> after_first ''-->'' s4;
     Some ((dec_val p, dec_val k, dec_val c), s5) }"

definition parseCodexVerifyCycleMarkers :: "string list \<Rightarrow> nat \<Rightarrow> nat \<Rightarrow> nat" where
  "parseCodexVerifyCycleMarkers bodies pr cid =
     length (filter (\<lambda>(p, k, _). p = pr \<and> k = cid) (concat (map (find_all verify_marker) bodies)))"

text \<open>The comment a finding is verified on is \<open>cid\<close>; the marker's branch plays no part.\<close>

definition buildCodexVerifyCycleMarker :: "nat \<Rightarrow> cycle_marker \<Rightarrow> string" where
  "buildCodexVerifyCycleMarker cid m =
     ''<!-- gc:codex-verify-cycle'' @ attr_str ''pr'' (show_nat (cm_subject m))
     @ attr_str ''comment'' (show_nat cid) @ attr_str ''cycle'' (show_nat (cm_cycle m))
     @ override_attr m @ reason_attr m @ '' -->''
     @ [nl, nl] @ ''_gc_codex_verify_finding cycle '' @ show_nat (cm_cycle m)
     @ (if cm_override m
        then '' (USER-AUTHORIZED OVERRIDE past cap '' @ show_int codex_verify_hard_cap @ '')''
        else '' of '' @ show_int codex_verify_hard_cap)
     @ '' complete for PR #'' @ show_nat (cm_subject m) @ '' comment #'' @ show_nat cid
     @ ''._ Posted by the MCP server to enforce the per-finding hard-cap-2 contract (issue #794). Do not edit or delete ''
     @ em_dash @ '' used by the next `gc_codex_verify_finding` invocation to count cycles.''
     @ reason_line m"

section \<open>The gates\<close>

definition deriveIssueNumberFromBranch :: "string \<Rightarrow> nat option" where
  "deriveIssueNumberFromBranch b =
     (let ds = takeWhile is_digit b; r = dropWhile is_digit b
      in if ds \<noteq> [] \<and> (r = [] \<or> hd r = CHR ''-'') \<and> 0 < dec_val ds then Some (dec_val ds) else None)"

text \<open>The context is \<open>None\<close> when reading it throws; the result is the configuration error or the cap.\<close>

definition resolveReviewerPrePushCap :: "js option \<Rightarrow> string \<Rightarrow> int \<Rightarrow> js + int" where
  "resolveReviewerPrePushCap ctx block dflt =
     (case ctx of
        None \<Rightarrow> Inr dflt
      | Some c \<Rightarrow>
          if \<not> truthy c \<or> fld c ''status'' = JStr ''missing_ground_control_yaml'' then Inr dflt
          else if fld c ''status'' = JStr ''invalid_ground_control_yaml'' then Inl (fld c ''errors'')
          else (case as_int (fld (fld (fld c ''workflow'') block) ''pre_push_cap'') of
                  Some n \<Rightarrow> Inr n
                | None \<Rightarrow> Inr dflt))"

record gate_refusal =
  gr_error :: string
  gr_issue :: "nat option"
  gr_prior :: "int option"
  gr_cap :: "int option"
  gr_next_action :: "string option"

record ownership =
  own_subject :: nat
  own_branch :: "string option"
  own_cycle :: int
  own_cap :: int
  own_next_action :: string
  own_override :: bool
  own_reason :: "string option"

definition refusal :: "string \<Rightarrow> nat option \<Rightarrow> string option \<Rightarrow> gate_refusal" where
  "refusal e i a = \<lparr>gr_error = e, gr_issue = i, gr_prior = None, gr_cap = None, gr_next_action = a\<rparr>"

datatype gate_result = GateThrew | GateRefused gate_refusal | GateOwned ownership

definition decided :: "nat \<Rightarrow> string option \<Rightarrow> nat option \<Rightarrow> cap_decision \<Rightarrow> gate_result" where
  "decided subject br i d =
     (case d of
        Threw \<Rightarrow> GateThrew
      | Refused r \<Rightarrow> GateRefused \<lparr>gr_error = cr_error r, gr_issue = i, gr_prior = Some (cr_prior r),
                                   gr_cap = Some (cr_cap r), gr_next_action = cr_next_action r\<rparr>
      | Granted g \<Rightarrow> GateOwned \<lparr>own_subject = subject, own_branch = br, own_cycle = next_cycle g,
                                 own_cap = ok_cap g, own_next_action = ok_next_action g,
                                 own_override = is_override g, own_reason = ok_reason g\<rparr>)"

text \<open>\<open>bodies n\<close> are the comment bodies of issue \<open>n\<close>.\<close>

definition enforcePrePushReviewCap ::
  "string option \<Rightarrow> js option \<Rightarrow> (nat \<Rightarrow> string list) \<Rightarrow> js \<Rightarrow> js \<Rightarrow> js \<Rightarrow> gate_result" where
  "enforcePrePushReviewCap branch ctx bodies issue override reason =
     (case branch of
        None \<Rightarrow> GateRefused (refusal ''prepush_branch_unresolved'' None (Some ''checkout_named_feature_branch''))
      | Some br \<Rightarrow>
          if br = [] then GateRefused (refusal ''prepush_branch_unresolved'' None (Some ''checkout_named_feature_branch''))
          else
            let effective = (case as_int issue of
                   Some i \<Rightarrow> if 0 < i then Some (nat i) else deriveIssueNumberFromBranch br
                 | None \<Rightarrow> deriveIssueNumberFromBranch br)
            in (case effective of
                  None \<Rightarrow> GateRefused (refusal ''prepush_issue_unresolved'' None
                            (Some ''pass_issue_number_or_use_numeric_branch_prefix''))
                | Some n \<Rightarrow>
                    let prior = int (parseCodexReviewPrePushCycleMarkers (bodies n) n)
                    in (case resolveReviewerPrePushCap ctx ''codex_review'' codex_review_prepush_hard_cap of
                          Inl _ \<Rightarrow> GateRefused (refusal ''reviewer_cap_config_invalid'' (Some n)
                                     (Some ''fix_ground_control_yaml_and_retry''))
                        | Inr cap \<Rightarrow>
                            decided n (Some br) (Some n)
                              (evaluateCodexReviewPrePushCycleCap prior cap override reason))))"

text \<open>
  The phase gate reads the closing issues one by one and stops at the first that has a plan;
  \<open>threads n\<close> is the thread of issue \<open>n\<close>, \<open>prs\<close> the bodies on the pull request.
\<close>

fun any_plan :: "(string \<Rightarrow> string option) \<Rightarrow> (nat \<Rightarrow> comment list option) \<Rightarrow> nat list \<Rightarrow> bool" where
  "any_plan perm threads [] = False"
| "any_plan perm threads (n # ns) =
     (if ''plan'' \<in> set (readCompletedPhases perm (threads n) n) then True else any_plan perm threads ns)"

definition enforcePostPushReviewGate ::
  "(string \<Rightarrow> string option) \<Rightarrow> (nat \<Rightarrow> comment list option) \<Rightarrow> nat list \<Rightarrow> string list \<Rightarrow> nat
    \<Rightarrow> js \<Rightarrow> js \<Rightarrow> bool \<Rightarrow> js \<Rightarrow> gate_result" where
  "enforcePostPushReviewGate perm threads closing pr_bodies pr override reason phase_override phase_reason =
     (if closing \<noteq> [] \<and> \<not> phase_override \<and> \<not> any_plan perm threads closing
      then GateRefused (refusal ''phase_prerequisite_missing'' None (Some ''run_gc_post_implementation_plan_first''))
      else if phase_override \<and> nonblank phase_reason = None
      then GateRefused (refusal ''phase_override_missing_reason'' None None)
      else decided pr None None
             (evaluateCodexReviewCycleCap (int (parseCodexReviewCycleMarkers pr_bodies pr))
                codex_review_hard_cap override reason))"

section \<open>Markers are read back\<close>

lemma digit_range: "is_digit c \<Longrightarrow> c \<noteq> CHR ''<'' \<and> c \<noteq> CHR ''>'' \<and> c \<noteq> dq"
  by (auto simp: is_digit_def less_eq_char_def)

lemma show_nat_plain [simp]: "CHR ''<'' \<notin> set (show_nat n)" "CHR ''>'' \<notin> set (show_nat n)"
  using show_nat_digits [of n] digit_range by blast+

lemma show_int_plain [simp]: "CHR ''<'' \<notin> set (show_int i)" "CHR ''>'' \<notin> set (show_int i)"
  by (simp_all add: show_int_def)

lemma hex_digit_no_angle: "d < 16 \<Longrightarrow> hex_digit d \<noteq> CHR ''<'' \<and> hex_digit d \<noteq> CHR ''>''"
  using is_digit_digit_char [of d] is_lower_digit_char [of d]
  by (cases "d < 10") (auto simp: hex_digit_def is_digit_def is_lower_def less_eq_char_def)

lemma hex_digit_angle: "x = hex_digit d \<Longrightarrow> d < 16 \<Longrightarrow> x \<in> {CHR ''<'', CHR ''>''} \<Longrightarrow> False"
  using hex_digit_no_angle [of d] by auto

lemma json_escape_char_set:
  "x \<in> set (json_escape_char c) \<Longrightarrow> x = c \<or> x \<in> set [bs, dq, CHR ''b'', CHR ''f'', CHR ''n'', CHR ''r'',
     CHR ''t'', CHR ''u'', CHR ''0''] \<or> control c \<and> x \<in> {hex_digit (of_char c div 16), hex_digit (of_char c mod 16)}"
  by (cases "control c"; cases "c = dq"; cases "c = bs"; cases "c = CHR 0x08"; cases "c = CHR 0x0C";
      cases "c = nl"; cases "c = cr"; cases "c = CHR 0x09"; simp add: json_escape_char_def; elim disjE; simp)

lemma json_escape_char_plain:
  assumes "x \<in> {CHR ''<'', CHR ''>''}" and "x \<in> set (json_escape_char c)"
  shows "x = c"
proof (rule ccontr)
  assume ne: "x \<noteq> c"
  have "x \<notin> set [bs, dq, CHR ''b'', CHR ''f'', CHR ''n'', CHR ''r'', CHR ''t'', CHR ''u'', CHR ''0'']"
    using assms(1) by auto
  with ne json_escape_char_set [OF assms(2)]
  have x: "control c" "x \<in> {hex_digit (of_char c div 16), hex_digit (of_char c mod 16)}" by argo+
  have lt: "(of_char c :: nat) div 16 < 16" "(of_char c :: nat) mod 16 < 16"
    using x(1) by (simp_all add: control_def)
  from x(2) consider "x = hex_digit (of_char c div 16)" | "x = hex_digit (of_char c mod 16)" by blast
  then show False
    by cases (rule hex_digit_angle [OF _ lt(1) assms(1)], assumption,
        rule hex_digit_angle [OF _ lt(2) assms(1)], assumption)
qed

lemma json_escape_plain: "x \<in> {CHR ''<'', CHR ''>''} \<Longrightarrow> x \<notin> set s \<Longrightarrow> x \<notin> set (json_escape s)"
proof
  assume x: "x \<in> {CHR ''<'', CHR ''>''}" "x \<notin> set s" "x \<in> set (json_escape s)"
  then obtain c where c: "c \<in> set s" "x \<in> set (json_escape_char c)"
    by (auto simp: json_escape_def simp del: insert_iff)
  from json_escape_char_plain [OF x(1) c(2)] c(1) x(2) show False by simp
qed

lemma trim_subset: "set (trim s) \<subseteq> set s"
  unfolding trim_def using set_dropWhileD by (metis set_rev subsetI)

text \<open>A text that can neither open nor close a marker.\<close>

definition plain :: "string \<Rightarrow> bool" where
  "plain s \<longleftrightarrow> CHR ''<'' \<notin> set s \<and> CHR ''>'' \<notin> set s"

definition plain_proof :: "publication_proof \<Rightarrow> bool" where
  "plain_proof p \<longleftrightarrow> list_all plain
     [publication_id p, original_digest p, revision_digest p, sanitized_digest p, candidate_tree_oid p]"

definition plain_marker :: "cycle_marker \<Rightarrow> bool" where
  "plain_marker m \<longleftrightarrow> plain (cm_branch m) \<and> (\<forall>r. cm_reason m = Some r \<longrightarrow> plain r)
     \<and> (\<forall>p. cm_publication m = Some p \<longrightarrow> plain_proof p)"

lemma plain_append [simp]: "plain (s @ t) \<longleftrightarrow> plain s \<and> plain t"
  by (auto simp: plain_def)

lemma plain_attr: "plain nm \<Longrightarrow> plain v \<Longrightarrow> plain (attr_str nm v)"
  by (simp add: plain_def attr_str_def)

lemma plain_show [simp]: "plain (show_nat n)" "plain (show_int i)"
  by (simp_all add: plain_def)

lemma plain_reason_text: "plain_marker m \<Longrightarrow> reason_text m = Some r \<Longrightarrow> plain r"
  using trim_subset
  by (fastforce simp: reason_text_def plain_marker_def plain_def split: if_splits option.splits)

lemma plain_reason_attr: "plain_marker m \<Longrightarrow> plain (reason_attr m)"
  using plain_reason_text [of m]
  by (auto simp: reason_attr_def json_string_def plain_def json_escape_plain split: option.splits)

lemma plain_reason_line: "plain_marker m \<Longrightarrow> plain (reason_line m)"
  using plain_reason_text [of m] by (auto simp: reason_line_def plain_def split: option.splits)

lemma plain_override: "plain (override_attr m)"
  by (simp add: override_attr_def plain_def)

lemma plain_publication: "plain_proof p \<Longrightarrow> plain (buildReviewPublicationMarkerAttributes p)"
  unfolding buildReviewPublicationMarkerAttributes_def review_publication_schema_def plain_append
  by (intro conjI plain_attr) (simp_all add: plain_proof_def plain_def)

lemma json_attr_build:
  "nm \<noteq> [] \<Longrightarrow> \<not> is_ws (hd nm) \<Longrightarrow> json_attr nm (attr_str nm (json_escape b) @ s) = Some (json_escape b, s)"
proof -
  assume nm: "nm \<noteq> []" "\<not> is_ws (hd nm)"
  then obtain n ns where n: "nm = n # ns" "\<not> is_ws n" by (cases nm) auto
  have "ws1 (attr_str nm (json_escape b) @ s) = Some ((nm @ [CHR ''='', dq]) @ json_escape b @ dq # s)"
    using n by (simp add: attr_str_def ws0_nonws)
  then show ?thesis
    unfolding json_attr_def by (simp add: json_raw_escape del: append_assoc)
qed

lemma prepush_match:
  assumes "plain_marker m"
  shows "prepush_marker (prepush_marker_line m @ s) = Some ((cm_subject m, json_escape (cm_branch m), cm_cycle m), s)"
proof -
  let ?p = "case cm_publication m of None \<Rightarrow> [] | Some p \<Rightarrow> buildReviewPublicationMarkerAttributes p"
  have "plain ?p" using assms plain_publication by (auto simp: plain_marker_def plain_def split: option.splits)
  then have "plain (override_attr m @ reason_attr m @ ?p @ '' '')"
    using plain_override plain_reason_attr [OF assms] by (simp add: plain_def)
  then have e: "after_first ''-->'' (override_attr m @ reason_attr m @ ?p @ '' -->'' @ s) = Some s"
    using after_first_close [of "override_attr m @ reason_attr m @ ?p @ '' ''" s] by (simp add: plain_def)
  have o: "marker_open ''gc:codex-prepush-cycle'' (''<!-- gc:codex-prepush-cycle'' @ t) = Some t" for t
    by (simp add: marker_open_def ws0_def is_ws_def less_eq_char_def)
  show ?thesis
    unfolding prepush_marker_def prepush_marker_line_def append_assoc o
    by (simp add: attr_build json_attr_build digit_range is_ws_def less_eq_char_def e
        is_digit_def [of dq] del: append.simps)
qed

interpretation prepush_codec: marker_codec prepush_marker_line prepush_marker
  "\<lambda>m. (cm_subject m, json_escape (cm_branch m), cm_cycle m)" plain_marker
proof unfold_locales
  fix a s and r :: "(nat \<times> string \<times> nat) \<times> string"
  show "plain_marker a \<Longrightarrow> prepush_marker (prepush_marker_line a @ s)
      = Some ((cm_subject a, json_escape (cm_branch a), cm_cycle a), s)" by (rule prepush_match)
  show "\<exists>t. prepush_marker_line a = CHR ''<'' # t" by (simp add: prepush_marker_line_def)
  show "prepush_marker s = Some r \<Longrightarrow> \<exists>t. s = CHR ''<'' # t"
    unfolding prepush_marker_def by (auto simp: bind_eq_Some_conv dest: marker_open_start)
qed

lemma prepush_entries:
  assumes "plain_marker m"
  shows "parseCodexReviewPrePushCycleMarkerEntries (buildCodexReviewPrePushCycleMarker m) n
    = (if cm_subject m = n then [(cm_branch m, cm_cycle m)] else [])"
proof -
  obtain rest where b: "buildCodexReviewPrePushCycleMarker m = prepush_marker_line m @ rest" "CHR ''<'' \<notin> set rest"
  proof
    let ?rest = "[nl, nl] @ prepush_headline m
      @ '' Posted by the MCP server to enforce the pre-push hard-cap-'' @ show_int (cm_cap m)
      @ '' contract (issues #796, #804, #906). Do not edit or delete '' @ em_dash
      @ '' used by the next `gc_codex_review` (uncommitted) invocation to count cycles.'' @ reason_line m"
    show "buildCodexReviewPrePushCycleMarker m = prepush_marker_line m @ ?rest"
      by (simp only: buildCodexReviewPrePushCycleMarker_def)
    have "plain (cm_branch m)" using assms by (simp add: plain_marker_def)
    then show "CHR ''<'' \<notin> set ?rest"
      using plain_reason_line [OF assms] by (simp add: plain_def prepush_headline_def em_dash_def)
  qed
  have "find_all prepush_marker (prepush_marker_line m @ rest)
      = [(cm_subject m, json_escape (cm_branch m), cm_cycle m)]"
    by (simp add: prepush_codec.find_build [OF assms] prepush_codec.find_none [OF b(2)])
  then show ?thesis
    by (simp add: parseCodexReviewPrePushCycleMarkerEntries_def b json_string_roundtrip map_filter_def)
qed

lemma prepush_count_append:
  "parseCodexReviewPrePushCycleMarkers (bodies @ [b]) n
     = parseCodexReviewPrePushCycleMarkers bodies n + length (parseCodexReviewPrePushCycleMarkerEntries b n)"
  by (simp add: parseCodexReviewPrePushCycleMarkers_def)

section \<open>The pre-push loop\<close>

text \<open>
  One request on an issue: when the gate grants it, the review runs and its marker is posted to
  the issue thread. A request is the branch checked out, the override flag and the reason.
\<close>

type_synonym request = "string \<times> js \<times> js"

definition prepush_round :: "js option \<Rightarrow> nat \<Rightarrow> string list \<Rightarrow> request \<Rightarrow> string list" where
  "prepush_round ctx n bodies q =
     (case q of (br, ov, why) \<Rightarrow>
        (case enforcePrePushReviewCap (Some br) ctx (\<lambda>_. bodies) (JInt (int n)) ov why of
           GateOwned o_ \<Rightarrow>
             bodies @ [buildCodexReviewPrePushCycleMarker
               \<lparr>cm_subject = n, cm_branch = br, cm_cycle = nat (own_cycle o_), cm_override = own_override o_,
                cm_reason = own_reason o_, cm_cap = own_cap o_, cm_publication = None\<rparr>]
         | _ \<Rightarrow> bodies))"

lemma prepush_round_unauthorised:
  assumes "resolveReviewerPrePushCap ctx ''codex_review'' codex_review_prepush_hard_cap = Inr cap"
    and "0 < n" and "br \<noteq> []" and "plain br" and "ov \<noteq> JBool True"
  shows "int (parseCodexReviewPrePushCycleMarkers (prepush_round ctx n bodies (br, ov, why)) n)
    = (let k = int (parseCodexReviewPrePushCycleMarkers bodies n) in if k < cap then k + 1 else k)"
proof -
  let ?k = "int (parseCodexReviewPrePushCycleMarkers bodies n)"
  have gate: "enforcePrePushReviewCap (Some br) ctx (\<lambda>_. bodies) (JInt (int n)) ov why
      = decided n (Some br) (Some n) (evaluateCodexReviewPrePushCycleCap ?k cap ov why)"
    using assms by (simp add: enforcePrePushReviewCap_def)
  show ?thesis
  proof (cases "?k < cap")
    case True
    then obtain g where g: "evaluateCodexReviewPrePushCycleCap ?k cap ov why = Granted g"
      using prepush.admits [of ?k cap ov why] assms(5) by auto
    then have "\<not> is_override g" using prepush.authorized [OF g] assms(5) by blast
    moreover have "ok_reason g = None" using g assms(5) True
      by (auto simp: evaluateCodexReviewPrePushCycleCap_def)
    ultimately have "plain_marker \<lparr>cm_subject = n, cm_branch = br, cm_cycle = nat (next_cycle g),
        cm_override = is_override g, cm_reason = ok_reason g, cm_cap = ok_cap g, cm_publication = None\<rparr>"
      using assms(4) by (simp add: plain_marker_def)
    from prepush_entries [OF this, of n] show ?thesis
      using True by (simp add: prepush_round_def gate g decided_def prepush_count_append)
  next
    case False
    then have no: "\<nexists>g. evaluateCodexReviewPrePushCycleCap ?k cap ov why = Granted g"
      using prepush.under_cap [of ?k cap ov why] prepush.authorized [of ?k cap ov why] assms(5) by blast
    show ?thesis using False no
      by (cases "evaluateCodexReviewPrePushCycleCap ?k cap ov why")
        (simp_all add: prepush_round_def gate decided_def)
  qed
qed

section \<open>Properties\<close>

text \<open>
  C8. The pre-push cap counts the reviews of an issue, whatever branch they ran on: starting from
  a thread without markers, any sequence of requests without an override leaves exactly
  as many markers as requests, up to the cap and never beyond it. Renaming the branch resets nothing.
\<close>

theorem prepush_cap_exact:
  assumes "resolveReviewerPrePushCap ctx ''codex_review'' codex_review_prepush_hard_cap = Inr cap"
    and "0 < n" and "0 \<le> cap"
    and "\<forall>(br, ov, why) \<in> set qs. br \<noteq> [] \<and> plain br \<and> ov \<noteq> JBool True"
  shows "int (parseCodexReviewPrePushCycleMarkers (foldl (prepush_round ctx n) [] qs) n) = min cap (int (length qs))"
  using assms(4)
proof (induction qs rule: rev_induct)
  case Nil
  then show ?case using assms(3) by (simp add: parseCodexReviewPrePushCycleMarkers_def)
next
  case (snoc q qs)
  obtain br ov why where q: "q = (br, ov, why)" by (cases q)
  with snoc.prems have ok: "br \<noteq> []" "plain br" "ov \<noteq> JBool True" by auto
  show ?case
    using snoc prepush_round_unauthorised [OF assms(1,2) ok, of "foldl (prepush_round ctx n) [] qs" why]
    by (simp add: q Let_def)
qed

text \<open>
  A pre-push review is owned only on a named branch, for a positive issue number, as the
  cycle after the markers already on that issue's thread, and only below the configured cap unless
  the override carries a non-blank reason.
\<close>

theorem prepush_gate_sound:
  assumes "enforcePrePushReviewCap branch ctx bodies issue ov why = GateOwned own"
  shows "\<exists>br cap. branch = Some br \<and> br \<noteq> [] \<and> own_branch own = Some br \<and> 0 < own_subject own
     \<and> (issue = JInt (int (own_subject own)) \<or> deriveIssueNumberFromBranch br = Some (own_subject own))
     \<and> resolveReviewerPrePushCap ctx ''codex_review'' codex_review_prepush_hard_cap = Inr cap
     \<and> own_cycle own = int (parseCodexReviewPrePushCycleMarkers (bodies (own_subject own)) (own_subject own)) + 1
     \<and> (own_cycle own \<le> cap \<or> ov = JBool True \<and> own_override own \<and> nonblank why = own_reason own \<and> own_reason own \<noteq> None)"
proof -
  from assms obtain br where br: "branch = Some br" "br \<noteq> []"
    by (auto simp: enforcePrePushReviewCap_def split: option.splits if_splits)
  let ?e = "case as_int issue of Some i \<Rightarrow> if 0 < i then Some (nat i) else deriveIssueNumberFromBranch br
      | None \<Rightarrow> deriveIssueNumberFromBranch br"
  from assms br obtain n where n: "?e = Some n"
    by (cases ?e) (simp_all add: enforcePrePushReviewCap_def)
  from assms br n obtain cap where cap:
    "resolveReviewerPrePushCap ctx ''codex_review'' codex_review_prepush_hard_cap = Inr cap"
    by (cases "resolveReviewerPrePushCap ctx ''codex_review'' codex_review_prepush_hard_cap")
      (simp_all add: enforcePrePushReviewCap_def)
  let ?k = "int (parseCodexReviewPrePushCycleMarkers (bodies n) n)"
  from assms br n cap have d: "decided n (Some br) (Some n) (evaluateCodexReviewPrePushCycleCap ?k cap ov why) = GateOwned own"
    by (simp add: enforcePrePushReviewCap_def)
  then obtain g where g: "evaluateCodexReviewPrePushCycleCap ?k cap ov why = Granted g"
    "own_subject own = n" "own_branch own = Some br" "own_cycle own = next_cycle g"
    "own_override own = is_override g" "own_reason own = ok_reason g"
    by (cases "evaluateCodexReviewPrePushCycleCap ?k cap ov why") (auto simp: decided_def)
  have "0 < n \<and> (issue = JInt (int n) \<or> deriveIssueNumberFromBranch br = Some n)"
    using n by (auto simp: deriveIssueNumberFromBranch_def Let_def split: option.splits if_splits)
  moreover have "next_cycle g = ?k + 1" by (rule prepush.grants_next [OF g(1)])
  moreover have "?k + 1 \<le> cap \<or> ov = JBool True \<and> is_override g \<and> nonblank why = ok_reason g \<and> ok_reason g \<noteq> None"
    using prepush.under_cap [OF g(1)] prepush.authorized [OF g(1)] by fastforce
  ultimately show ?thesis using br cap g by simp
qed

lemma any_plan_iff: "any_plan perm threads ns \<longleftrightarrow> (\<exists>n \<in> set ns. ''plan'' \<in> set (readCompletedPhases perm (threads n) n))"
  by (induction ns) auto

text \<open>
  A post-push review is owned only after planning: the pull request closes no issue, or one
  of the issues it closes has a plan marker by an author with write permission, or the phase
  override carries a non-blank reason; and it stays within three cycles unless its own override
  carries one.
\<close>

theorem postpush_gate_sound:
  assumes "enforcePostPushReviewGate perm threads closing bodies pr ov why phase_ov phase_why = GateOwned own"
  shows "(closing = [] \<or> phase_ov \<and> nonblank phase_why \<noteq> None
        \<or> (\<exists>n cs c. n \<in> set closing \<and> threads n = Some cs \<and> c \<in> set cs \<and> write_author perm c
             \<and> ''plan'' \<in> set (parsePhaseMarkers [c_body c] n)))
     \<and> own_cycle own = int (parseCodexReviewCycleMarkers bodies pr) + 1
     \<and> (own_cycle own \<le> 3 \<or> ov = JBool True \<and> nonblank why \<noteq> None)"
proof -
  let ?k = "int (parseCodexReviewCycleMarkers bodies pr)"
  from assms have d: "decided pr None None (evaluateCodexReviewCycleCap ?k codex_review_hard_cap ov why) = GateOwned own"
    and phase: "closing = [] \<or> phase_ov \<or> any_plan perm threads closing"
      "\<not> (phase_ov \<and> nonblank phase_why = None)"
    by (auto simp: enforcePostPushReviewGate_def split: if_splits)
  from d obtain g where g: "evaluateCodexReviewCycleCap ?k codex_review_hard_cap ov why = Granted g"
    "own_cycle own = next_cycle g"
    by (cases "evaluateCodexReviewCycleCap ?k codex_review_hard_cap ov why") (auto simp: decided_def)
  have plan: "any_plan perm threads closing \<Longrightarrow> \<exists>n cs c. n \<in> set closing \<and> threads n = Some cs \<and> c \<in> set cs
      \<and> write_author perm c \<and> ''plan'' \<in> set (parsePhaseMarkers [c_body c] n)"
  proof -
    assume "any_plan perm threads closing"
    then obtain n where n: "n \<in> set closing" "''plan'' \<in> set (readCompletedPhases perm (threads n) n)"
      by (auto simp: any_plan_iff)
    then obtain cs where cs: "threads n = Some cs" by (cases "threads n") (auto simp: readCompletedPhases_def)
    with n show ?thesis by (auto simp: in_completed ta.believed_def filter_empty_conv)
  qed
  have "next_cycle g = ?k + 1" by (rule postpush.grants_next [OF g(1)])
  moreover have "?k + 1 \<le> 3 \<or> ov = JBool True \<and> nonblank why \<noteq> None"
    using postpush.under_cap [OF g(1)] postpush.authorized [OF g(1)]
    by (cases "is_override g") (auto simp: codex_review_hard_cap_def)
  ultimately have "own_cycle own = ?k + 1 \<and> (own_cycle own \<le> 3 \<or> ov = JBool True \<and> nonblank why \<noteq> None)"
    using g(2) by simp
  with phase plan show ?thesis by argo
qed

text \<open>
  Over any run of requests, reviews of a pull request exceed its three cycles, and verify
  calls on a finding exceed their two, by at most the number of overrides with a stated reason.
\<close>

theorem post_push_and_verify_bounded:
  "fst (postpush.reviews codex_review_hard_cap qs) \<le> 3 + int (snd (postpush.reviews codex_review_hard_cap qs))
   \<and> fst (verify.reviews codex_verify_hard_cap qs) \<le> 2 + int (snd (verify.reviews codex_verify_hard_cap qs))"
  using postpush.reviews_bounded [of codex_review_hard_cap qs] verify.reviews_bounded [of codex_verify_hard_cap qs]
  by (simp add: codex_review_hard_cap_def codex_verify_hard_cap_def)

section \<open>Witnesses\<close>

lemma default_cap: "resolveReviewerPrePushCap None ''codex_review'' codex_review_prepush_hard_cap = Inr 1"
  by (simp add: resolveReviewerPrePushCap_def codex_review_prepush_hard_cap_def)

lemma prepush_cap_exact_witness:
  "int (parseCodexReviewPrePushCycleMarkers (foldl (prepush_round None 7) []
      [(''7-first'', JUndef, JNull), (''7-renamed'', JUndef, JNull)]) 7) = 1"
  by (subst prepush_cap_exact [OF default_cap]) (simp_all add: plain_def)

lemma prepush_gate_sound_witness:
  "enforcePrePushReviewCap (Some ''42-fix'') None (\<lambda>_. []) JUndef JUndef JUndef
     = GateOwned \<lparr>own_subject = 42, own_branch = Some ''42-fix'', own_cycle = 1, own_cap = 1,
         own_next_action = ''fix_findings_then_ask_over_cap_or_proceed'', own_override = False, own_reason = None\<rparr>
   \<and> deriveIssueNumberFromBranch ''42-fix'' = Some 42"
proof -
  have e: "enforcePrePushReviewCap (Some ''42-fix'') None (\<lambda>_. []) JUndef JUndef JUndef
     = GateOwned \<lparr>own_subject = 42, own_branch = Some ''42-fix'', own_cycle = 1, own_cap = 1,
         own_next_action = ''fix_findings_then_ask_over_cap_or_proceed'', own_override = False, own_reason = None\<rparr>"
    by code_simp
  from prepush_gate_sound [OF e] e show ?thesis by simp
qed

lemma postpush_gate_sound_witness:
  "\<exists>own. enforcePostPushReviewGate (\<lambda>_. None) (\<lambda>_. None) [] [] 9 JUndef JUndef False JUndef = GateOwned own
     \<and> own_cycle own = 1"
proof -
  obtain own where e: "enforcePostPushReviewGate (\<lambda>_. None) (\<lambda>_. None) [] [] 9 JUndef JUndef False JUndef = GateOwned own"
    by (simp add: enforcePostPushReviewGate_def decided_def evaluateCodexReviewCycleCap_def
        parseCodexReviewCycleMarkers_def codex_review_hard_cap_def)
  from postpush_gate_sound [OF e] e show ?thesis
    by (auto simp: parseCodexReviewCycleMarkers_def)
qed

end
