(* ===== verification/StationRetry.thy ===== *)
theory StationRetry
  imports Scanning
begin

text \<open>
  Gate observations: the bounded retry of a review station that rendered no verdict
  (\<open>lib/review-reattempt.js\<close>), the conclusion of a CI run (\<open>lib/ci-conclusion.js\<close>) and the SonarCloud
  watcher envelope (\<open>lib/sonar-gate.js\<close>), all on one axis of station results.

  The executor is a parameter: \<open>invoke k\<close> is the envelope of attempt \<open>k\<close>, \<open>aborted k\<close> whether the
  caller's signal was aborted when it returned, \<open>took k\<close> how long it ran.
\<close>

section \<open>Classifying one attempt\<close>

datatype station_result = StPass | StFail | StCancelled | StSkipped | StNotEvaluable

record classification =
  evaluable :: bool
  retryable :: bool
  failure_class :: "string option"

text \<open>
  \<open>NON_VERDICT_FAILURE_CLASSES[envelope.error]\<close>: the one entry, and what every object inherits under the name of
  the error. A class is its text; that of an inherited member is what a record prints for it.
\<close>

definition non_verdict_failure_class :: "string \<Rightarrow> string option" where
  "non_verdict_failure_class e =
     (if e = ''review_coverage_incomplete'' then Some ''incomplete_reviewer_coverage''
      else if e \<in> set inherited_names then Some (inherited_text e)
      else None)"

definition retry_limit_min :: int where "retry_limit_min = 0"
definition retry_limit_max :: int where "retry_limit_max = 2"
definition retry_limit_default :: int where "retry_limit_default = 1"

definition classifyStationAttempt :: "js \<Rightarrow> bool \<Rightarrow> classification" where
  "classifyStationAttempt env cancelled =
     (if cancelled then \<lparr>evaluable = False, retryable = False, failure_class = Some ''cancelled''\<rparr>
      else if \<not> is_object env
      then \<lparr>evaluable = False, retryable = False, failure_class = Some ''unreadable_envelope''\<rparr>
      else if fld env ''ok'' = JBool True
      then \<lparr>evaluable = True, retryable = False, failure_class = None\<rparr>
      else (case fld env ''error'' of
              JStr e \<Rightarrow>
                (case non_verdict_failure_class e of
                   Some fc \<Rightarrow> \<lparr>evaluable = False, retryable = True, failure_class = Some fc\<rparr>
                 | None \<Rightarrow> \<lparr>evaluable = False, retryable = False, failure_class = Some e\<rparr>)
            | _ \<Rightarrow> \<lparr>evaluable = False, retryable = False, failure_class = Some ''unreadable_envelope''\<rparr>))"

definition stationResultForAttempt :: "classification \<Rightarrow> js \<Rightarrow> station_result option" where
  "stationResultForAttempt c env =
     (if evaluable c
      then Some (if (case as_int (fld env ''finding_count'') of Some n \<Rightarrow> n | None \<Rightarrow> 0) > 0
                 then StFail else StPass)
      else if failure_class c = Some ''cancelled'' then Some StCancelled
      else if retryable c then Some StNotEvaluable else None)"

section \<open>The retry decision and the loop\<close>

definition clampRetryLimit :: "js \<Rightarrow> int" where
  "clampRetryLimit v =
     (case as_int v of
        None \<Rightarrow> retry_limit_default
      | Some n \<Rightarrow> if n < retry_limit_min then retry_limit_min
                  else if n > retry_limit_max then retry_limit_max else n)"

definition resolveNonVerdictRetryLimit :: "js \<Rightarrow> int" where
  "resolveNonVerdictRetryLimit block =
     (if nullish (fld block ''non_verdict_retry_limit'') then retry_limit_default
      else clampRetryLimit (fld block ''non_verdict_retry_limit''))"

record retry_decision =
  retry_again :: bool
  next_ordinal :: "nat option"
  retry_reason :: "string option"

definition decideNonVerdictRetry :: "nat \<Rightarrow> js \<Rightarrow> classification \<Rightarrow> retry_decision" where
  "decideNonVerdictRetry k limit c =
     (if \<not> retryable c
      then \<lparr>retry_again = False, next_ordinal = None, retry_reason = Some ''not_retryable''\<rparr>
      else if int k > clampRetryLimit limit
      then \<lparr>retry_again = False, next_ordinal = None, retry_reason = Some ''reattempts_exhausted''\<rparr>
      else \<lparr>retry_again = True, next_ordinal = Some (k + 1), retry_reason = None\<rparr>)"

record attempt =
  at_station :: string
  at_ordinal :: nat
  at_result :: station_result
  at_failure_class :: "string option"
  at_duration :: nat

record station_run =
  run_envelope :: js
  run_observed :: bool
  run_attempts :: "attempt list"

lemma clamp_range: "0 \<le> clampRetryLimit v" "clampRetryLimit v \<le> 2"
  by (auto simp: clampRetryLimit_def retry_limit_min_def retry_limit_max_def retry_limit_default_def
      split: option.splits)

function station_loop ::
  "string \<Rightarrow> js \<Rightarrow> (nat \<Rightarrow> js) \<Rightarrow> (nat \<Rightarrow> bool) \<Rightarrow> (nat \<Rightarrow> nat) \<Rightarrow> nat \<Rightarrow> attempt list \<Rightarrow> station_run" where
  "station_loop st limit invoke aborted took k acc =
     (let env = invoke k;
          c = classifyStationAttempt env (aborted k);
          acc' = (case stationResultForAttempt c env of
                    None \<Rightarrow> acc
                  | Some res \<Rightarrow> acc @ [\<lparr>at_station = st, at_ordinal = k, at_result = res,
                                        at_failure_class = failure_class c, at_duration = took k\<rparr>]);
          d = decideNonVerdictRetry k limit c
      in if \<not> retry_again d
         then \<lparr>run_envelope = env, run_observed = evaluable c, run_attempts = acc'\<rparr>
         else station_loop st limit invoke aborted took (k + 1) acc')"
  by pat_completeness auto
termination
proof (relation "measure (\<lambda>(st, limit, invoke, aborted, took, k, acc). 3 - k)", goal_cases)
  case 1
  then show ?case by simp
next
  case (2 st limit invoke aborted took k acc env c acc' d)
  then have "int k \<le> clampRetryLimit limit"
    by (simp add: decideNonVerdictRetry_def split: if_splits)
  with clamp_range(2) [of limit] show ?case by simp
qed

declare station_loop.simps [simp del]

definition effective_limit :: "js \<Rightarrow> js" where
  "effective_limit limit = (if limit = JUndef then JInt retry_limit_default else limit)"

definition runStationWithNonVerdictRetry ::
  "string \<Rightarrow> js \<Rightarrow> (nat \<Rightarrow> js) \<Rightarrow> (nat \<Rightarrow> bool) \<Rightarrow> (nat \<Rightarrow> nat) \<Rightarrow> station_run" where
  "runStationWithNonVerdictRetry st limit invoke aborted took =
     station_loop st (effective_limit limit) invoke aborted took 1 []"

section \<open>What a run is\<close>

text \<open>The attempts that failed to observe, and the one that ended the run.\<close>

definition missed :: "string \<Rightarrow> (nat \<Rightarrow> js) \<Rightarrow> (nat \<Rightarrow> nat) \<Rightarrow> nat \<Rightarrow> attempt" where
  "missed st invoke took k = \<lparr>at_station = st, at_ordinal = k, at_result = StNotEvaluable,
     at_failure_class = (case fld (invoke k) ''error'' of JStr e \<Rightarrow> non_verdict_failure_class e | _ \<Rightarrow> None),
     at_duration = took k\<rparr>"

definition cls :: "(nat \<Rightarrow> js) \<Rightarrow> (nat \<Rightarrow> bool) \<Rightarrow> nat \<Rightarrow> classification" where
  "cls invoke aborted k = classifyStationAttempt (invoke k) (aborted k)"

text \<open>The errors that have a class: the one code of the map and the inherited names.\<close>

definition free_errors :: "string set" where
  "free_errors = insert ''review_coverage_incomplete'' (set inherited_names)"

lemma free_errors_iff: "non_verdict_failure_class e \<noteq> None \<longleftrightarrow> e \<in> free_errors"
  by (simp add: non_verdict_failure_class_def free_errors_def)

lemma retryable_iff:
  "retryable (classifyStationAttempt env b) \<longleftrightarrow>
     \<not> b \<and> is_object env \<and> fld env ''ok'' \<noteq> JBool True
     \<and> fld env ''error'' \<in> JStr ` free_errors"
  unfolding classifyStationAttempt_def image_iff Bex_def
  by (auto simp flip: free_errors_iff split: js.splits option.splits)

lemma inherited_not_cancelled: "inherited_text k \<noteq> ''cancelled''"
  by (simp add: inherited_text_def)

lemma retryable_class:
  "retryable (classifyStationAttempt env b) \<Longrightarrow>
     stationResultForAttempt (classifyStationAttempt env b) env = Some StNotEvaluable
     \<and> failure_class (classifyStationAttempt env b)
         = (case fld env ''error'' of JStr e \<Rightarrow> non_verdict_failure_class e | _ \<Rightarrow> None)
     \<and> \<not> evaluable (classifyStationAttempt env b)"
  using inherited_not_cancelled
  by (auto simp: classifyStationAttempt_def non_verdict_failure_class_def stationResultForAttempt_def
      split: js.splits option.splits if_splits)

definition last_attempt :: "string \<Rightarrow> (nat \<Rightarrow> js) \<Rightarrow> (nat \<Rightarrow> bool) \<Rightarrow> (nat \<Rightarrow> nat) \<Rightarrow> nat \<Rightarrow> attempt list" where
  "last_attempt st invoke aborted took n =
     (case stationResultForAttempt (cls invoke aborted n) (invoke n) of
        None \<Rightarrow> []
      | Some res \<Rightarrow> [\<lparr>at_station = st, at_ordinal = n, at_result = res,
                      at_failure_class = failure_class (cls invoke aborted n), at_duration = took n\<rparr>])"

lemma station_loop_spec:
  "\<exists>n \<ge> k. int n \<le> max (int k) (clampRetryLimit limit + 1)
     \<and> (\<forall>i. k \<le> i \<and> i < n \<longrightarrow> retryable (cls invoke aborted i))
     \<and> (int n \<le> clampRetryLimit limit \<longrightarrow> \<not> retryable (cls invoke aborted n))
     \<and> station_loop st limit invoke aborted took k acc =
         \<lparr>run_envelope = invoke n, run_observed = evaluable (cls invoke aborted n),
          run_attempts = acc @ map (missed st invoke took) [k..<n] @ last_attempt st invoke aborted took n\<rparr>"
proof (induction st limit invoke aborted took k acc rule: station_loop.induct)
  case (1 st limit invoke aborted took k acc)
  let ?c = "cls invoke aborted k"
  let ?d = "decideNonVerdictRetry k limit ?c"
  show ?case
  proof (cases "retry_again ?d")
    case False
    have stop: "int k \<le> clampRetryLimit limit \<longrightarrow> \<not> retryable ?c"
      using False by (auto simp: decideNonVerdictRetry_def split: if_splits)
    show ?thesis
      using False stop
      by (intro exI [of _ k], subst station_loop.simps)
        (auto simp: cls_def Let_def last_attempt_def split: option.splits)
  next
    case True
    then have r: "retryable ?c" and le: "int k \<le> clampRetryLimit limit"
      by (auto simp: decideNonVerdictRetry_def split: if_splits)
    note rc = retryable_class [OF r [unfolded cls_def]]
    have step: "station_loop st limit invoke aborted took k acc
        = station_loop st limit invoke aborted took (k + 1) (acc @ [missed st invoke took k])"
      using True rc by (subst station_loop.simps) (simp add: cls_def Let_def missed_def)
    have IH: "\<exists>n \<ge> k + 1. int n \<le> max (int (k + 1)) (clampRetryLimit limit + 1)
        \<and> (\<forall>i. k + 1 \<le> i \<and> i < n \<longrightarrow> retryable (cls invoke aborted i))
        \<and> (int n \<le> clampRetryLimit limit \<longrightarrow> \<not> retryable (cls invoke aborted n))
        \<and> station_loop st limit invoke aborted took (k + 1) (acc @ [missed st invoke took k]) =
            \<lparr>run_envelope = invoke n, run_observed = evaluable (cls invoke aborted n),
             run_attempts = (acc @ [missed st invoke took k]) @ map (missed st invoke took) [k + 1..<n]
               @ last_attempt st invoke aborted took n\<rparr>"
      using 1 [OF refl refl refl refl] True rc by (simp add: cls_def flip: missed_def)
    then obtain n where n: "k + 1 \<le> n" "int n \<le> max (int (k + 1)) (clampRetryLimit limit + 1)"
      "\<forall>i. k + 1 \<le> i \<and> i < n \<longrightarrow> retryable (cls invoke aborted i)"
      "int n \<le> clampRetryLimit limit \<longrightarrow> \<not> retryable (cls invoke aborted n)"
      "station_loop st limit invoke aborted took (k + 1) (acc @ [missed st invoke took k]) =
            \<lparr>run_envelope = invoke n, run_observed = evaluable (cls invoke aborted n),
             run_attempts = (acc @ [missed st invoke took k]) @ map (missed st invoke took) [k + 1..<n]
               @ last_attempt st invoke aborted took n\<rparr>" by blast
    have "[k..<n] = k # [k + 1..<n]" using n(1) by (simp add: upt_conv_Cons)
    moreover have "\<forall>i. k \<le> i \<and> i < n \<longrightarrow> retryable (cls invoke aborted i)"
    proof (intro allI impI)
      fix i assume "k \<le> i \<and> i < n"
      then show "retryable (cls invoke aborted i)" using n(3) r by (cases "i = k") simp_all
    qed
    moreover have "int n \<le> max (int k) (clampRetryLimit limit + 1)" using n(2) le by simp
    ultimately show ?thesis
      unfolding step n(5) using n(1,4) by (intro exI [of _ n]) simp
  qed
qed

section \<open>CI conclusions\<close>

definition ciStationResult :: "js \<Rightarrow> station_result" where
  "ciStationResult v =
     (let value = (case v of JStr s \<Rightarrow> lower (trim s) | _ \<Rightarrow> [])
      in if value = ''success'' then StPass
         else if value = ''failure'' then StFail
         else if value = ''cancelled'' then StCancelled
         else if value \<in> {''skipped'', ''neutral''} then StSkipped
         else if value \<in> {''timed_out'', ''startup_failure'', ''queued_too_long'', ''stale'', ''action_required''}
         then StNotEvaluable
         else StNotEvaluable)"

section \<open>SonarCloud envelopes\<close>

definition sonarGateEvaluable :: "js \<Rightarrow> bool" where
  "sonarGateEvaluable s =
     (if \<not> truthy (fld s ''ok'') then False
      else if fld s ''skipped'' = JBool True then True
      else fld s ''timed_out'' \<noteq> JBool True)"

definition sonarGatePassed :: "js \<Rightarrow> bool" where
  "sonarGatePassed s =
     (if \<not> sonarGateEvaluable s then False
      else if fld s ''skipped'' = JBool True then True
      else fld s ''quality_gate'' = JStr ''OK''
           \<and> fld (fld s ''issues_summary'') ''open_count'' = JInt 0
           \<and> fld (fld s ''hotspots_summary'') ''open_count'' = JInt 0)"

record sonar_failure =
  sonar_gate :: string
  sonar_error :: js
  sonar_next_action :: string

definition next_action_by_error :: "js \<Rightarrow> string" where
  "next_action_by_error e =
     (if e = JStr ''sonar_watch_token_missing'' then ''provision_sonar_token_on_mcp_host_then_rerun_monitor''
      else if e = JStr ''sonar_watch_authentication_failed'' then ''repair_sonar_credential_then_rerun_monitor''
      else if e = JStr ''sonar_watch_config_invalid'' then ''repair_ground_control_config_then_rerun_monitor''
      else if e = JStr ''sonar_watch_analysis_not_produced'' then ''diagnose_sonar_scan_scope_then_rerun_monitor''
      else ''diagnose_sonar_watch_failure_then_rerun_monitor'')"

definition classifySonarGateFailure :: "js \<Rightarrow> sonar_failure" where
  "classifySonarGateFailure s =
     (if truthy (fld s ''ok'') \<and> fld s ''timed_out'' = JBool True
      then \<lparr>sonar_gate = ''not_evaluable'', sonar_error = JStr ''sonar_watch_analysis_timed_out'',
            sonar_next_action = ''rerun_monitor_after_sonar_analysis_completes''\<rparr>
      else if \<not> truthy (fld s ''ok'')
      then (let e = coalesce (fld s ''error'') (JStr ''sonar_watch_unavailable'')
            in \<lparr>sonar_gate = ''not_evaluable'', sonar_error = e, sonar_next_action = next_action_by_error e\<rparr>)
      else \<lparr>sonar_gate = ''findings_open'', sonar_error = JStr ''sonar_findings_open'',
            sonar_next_action = ''fix_sonar_findings_then_rerun_publish_and_monitor''\<rparr>)"

section \<open>Properties\<close>

text \<open>
  C12. A station run always ends, after at most three attempts and one more than its limit. Every attempt before
  the last was a free retry: not aborted, an object that is not \<open>ok\<close> and whose error is a text the failure classes
  have a class for (\<open>review_coverage_incomplete\<close>, or a name every object inherits), and it is recorded as not
  evaluable with its own class. The run goes on while the attempt is such a free retry and the limit allows
  another, so it stops at a verdict, at a cancellation and at any other refusal, and its envelope and verdict are
  those of the last attempt alone.
\<close>

theorem station_run_bounded:
  "\<exists>n. 1 \<le> n \<and> n \<le> 3 \<and> int n \<le> clampRetryLimit (effective_limit limit) + 1
     \<and> (\<forall>i \<in> {1..<n}. \<not> aborted i \<and> is_object (invoke i) \<and> fld (invoke i) ''ok'' \<noteq> JBool True
          \<and> fld (invoke i) ''error'' \<in> JStr ` free_errors)
     \<and> (int n \<le> clampRetryLimit (effective_limit limit) \<longrightarrow> aborted n \<or> \<not> is_object (invoke n)
          \<or> fld (invoke n) ''ok'' = JBool True
          \<or> fld (invoke n) ''error'' \<notin> JStr ` free_errors)
     \<and> runStationWithNonVerdictRetry st limit invoke aborted took =
         \<lparr>run_envelope = invoke n, run_observed = (\<not> aborted n \<and> fld (invoke n) ''ok'' = JBool True),
          run_attempts = map (missed st invoke took) [1..<n] @ last_attempt st invoke aborted took n\<rparr>"
proof -
  let ?lim = "clampRetryLimit (effective_limit limit)"
  obtain n where n: "1 \<le> n" "int n \<le> max 1 (?lim + 1)"
    "\<forall>i. 1 \<le> i \<and> i < n \<longrightarrow> retryable (cls invoke aborted i)"
    "int n \<le> ?lim \<longrightarrow> \<not> retryable (cls invoke aborted n)"
    "runStationWithNonVerdictRetry st limit invoke aborted took =
       \<lparr>run_envelope = invoke n, run_observed = evaluable (cls invoke aborted n),
        run_attempts = map (missed st invoke took) [1..<n] @ last_attempt st invoke aborted took n\<rparr>"
    using station_loop_spec [of 1 "effective_limit limit" invoke aborted st took "[]"]
    unfolding runStationWithNonVerdictRetry_def by auto
  have ev: "evaluable (cls invoke aborted n) \<longleftrightarrow> \<not> aborted n \<and> fld (invoke n) ''ok'' = JBool True"
    by (cases "invoke n")
      (auto simp: cls_def classifyStationAttempt_def is_object_def fld_def split: js.splits option.splits)
  have "0 \<le> ?lim" "?lim \<le> 2" by (rule clamp_range)+
  moreover have free: "retryable (cls invoke aborted i) \<longleftrightarrow> \<not> aborted i \<and> is_object (invoke i)
      \<and> fld (invoke i) ''ok'' \<noteq> JBool True \<and> fld (invoke i) ''error'' \<in> JStr ` free_errors" for i
    unfolding cls_def by (rule retryable_iff)
  ultimately show ?thesis
    using n(1,2) n(3,4) [unfolded free] n(5) [unfolded ev] by (intro exI [of _ n]) auto
qed

text \<open>
  No outage reads as a rejection: a CI conclusion fails the gate exactly when it says
  failure, and a SonarCloud envelope that does not pass asks for a code fix exactly when the gate
  was evaluated.
\<close>

theorem only_verdicts_fail:
  "(ciStationResult v = StFail \<longleftrightarrow> (\<exists>s. v = JStr s \<and> lower (trim s) = ''failure''))
   \<and> (ciStationResult v = StPass \<longleftrightarrow> (\<exists>s. v = JStr s \<and> lower (trim s) = ''success''))
   \<and> (sonarGatePassed s \<or> (sonar_gate (classifySonarGateFailure s) = ''findings_open'' \<longleftrightarrow> sonarGateEvaluable s))"
proof (intro conjI)
  show "ciStationResult v = StFail \<longleftrightarrow> (\<exists>s. v = JStr s \<and> lower (trim s) = ''failure'')"
    by (cases v) (auto simp: ciStationResult_def Let_def)
  show "ciStationResult v = StPass \<longleftrightarrow> (\<exists>s. v = JStr s \<and> lower (trim s) = ''success'')"
    by (cases v) (auto simp: ciStationResult_def Let_def)
  show "sonarGatePassed s \<or> (sonar_gate (classifySonarGateFailure s) = ''findings_open'' \<longleftrightarrow> sonarGateEvaluable s)"
    by (auto simp: sonarGatePassed_def sonarGateEvaluable_def classifySonarGateFailure_def Let_def)
qed

section \<open>Witnesses\<close>

definition flaky :: "nat \<Rightarrow> js" where
  "flaky k = (if k = 1 then JObj [(''ok'', JBool False), (''error'', JStr ''review_coverage_incomplete'')]
              else JObj [(''ok'', JBool True), (''finding_count'', JInt 2)])"

lemma station_run_bounded_witness:
  "\<exists>n \<le> 3. runStationWithNonVerdictRetry ''codex_review'' JUndef flaky (\<lambda>_. False) (\<lambda>_. 0) =
     \<lparr>run_envelope = flaky n, run_observed = (fld (flaky n) ''ok'' = JBool True),
      run_attempts = map (missed ''codex_review'' flaky (\<lambda>_. 0)) [1..<n]
        @ last_attempt ''codex_review'' flaky (\<lambda>_. False) (\<lambda>_. 0) n\<rparr>"
  using station_run_bounded [of JUndef "\<lambda>_. False" flaky "''codex_review''" "\<lambda>_. 0"] by auto

lemma flaky_second_attempt:
  "run_observed (runStationWithNonVerdictRetry ''codex_review'' JUndef flaky (\<lambda>_. False) (\<lambda>_. 0))
   \<and> map at_result (run_attempts (runStationWithNonVerdictRetry ''codex_review'' JUndef flaky (\<lambda>_. False) (\<lambda>_. 0)))
       = [StNotEvaluable, StFail]"
  by code_simp

text \<open>An error that is the name of an inherited member is retried too.\<close>

definition inherited_error :: "nat \<Rightarrow> js" where
  "inherited_error k = JObj [(''ok'', JBool False), (''error'', JStr ''constructor'')]"

lemma inherited_error_retried:
  "map at_failure_class (run_attempts (runStationWithNonVerdictRetry ''codex_review'' (JInt 1) inherited_error (\<lambda>_. False) (\<lambda>_. 0)))
     = [Some ''function Object() { [native code] }'', Some ''function Object() { [native code] }'']"
  by code_simp

lemma only_verdicts_fail_witness:
  "ciStationResult (JStr '' Failure '') = StFail"
proof -
  have "lower (trim '' Failure '') = ''failure''" by code_simp
  with only_verdicts_fail [of "JStr '' Failure ''" JUndef] show ?thesis by auto
qed

end
