(* ===== verification/Json.thy ===== *)
theory Json
  imports JsonText
begin

text \<open>
  JSON texts: \<open>JSON.parse\<close> and \<open>JSON.stringify\<close> without indentation, as the records on the
  issue thread use them. Numbers are exact: a decimal that is integral reads as \<open>JInt\<close>, any other
  as the reduced fraction \<open>JFrac\<close>; how a fraction is written (the shortest decimal of a double) is
  the parameter \<open>frac\<close> of the printer. Property names are never array indices here, so objects
  keep the order of first insertion.
\<close>

section \<open>Printing\<close>

fun sep_by :: "string list \<Rightarrow> string" where
  "sep_by [] = []"
| "sep_by [w] = w"
| "sep_by (w # ws) = w @ CHR '','' # sep_by ws"

text \<open>\<open>undefined\<close> properties are left out; elsewhere \<open>undefined\<close> and non-finite numbers print as null.\<close>

fun json_text :: "(int \<Rightarrow> nat \<Rightarrow> string) \<Rightarrow> js \<Rightarrow> string" where
  "json_text frac JUndef = ''null''"
| "json_text frac JNull = ''null''"
| "json_text frac (JBool b) = (if b then ''true'' else ''false'')"
| "json_text frac (JInt n) = show_int n"
| "json_text frac (JFrac p q) = frac p q"
| "json_text frac JNaN = ''null''"
| "json_text frac (JInf b) = ''null''"
| "json_text frac (JStr s) = json_string s"
| "json_text frac (JArr vs) = CHR ''['' # sep_by (map (json_text frac) vs) @ '']''"
| "json_text frac (JObj fs) =
     CHR ''{'' # sep_by (map (\<lambda>(k, v). json_string k @ CHR '':'' # json_text frac v)
                        (filter (\<lambda>(k, v). v \<noteq> JUndef) fs)) @ ''}''"

section \<open>Parsing\<close>

text \<open>The whitespace of the JSON grammar.\<close>

definition json_ws :: "char \<Rightarrow> bool" where
  "json_ws c \<longleftrightarrow> c = CHR '' '' \<or> c = CHR 0x09 \<or> c = nl \<or> c = cr"

definition skip :: "string \<Rightarrow> string" where
  "skip s = dropWhile json_ws s"

definition digits1 :: "string \<Rightarrow> (string \<times> string) option" where
  "digits1 s = run is_digit nonempty s"

definition int_part :: "string \<Rightarrow> (string \<times> string) option" where
  "int_part s = (case s of
       [] \<Rightarrow> None
     | c # r \<Rightarrow> if c = CHR ''0'' then Some ([c], r) else digits1 s)"

definition frac_part :: "string \<Rightarrow> (string \<times> string) option" where
  "frac_part s = (case s of c # r \<Rightarrow> if c = CHR ''.'' then digits1 r else Some ([], s) | [] \<Rightarrow> Some ([], s))"

definition exp_part :: "string \<Rightarrow> (int \<times> string) option" where
  "exp_part s = (case s of
       c # r \<Rightarrow>
         if c = CHR ''e'' \<or> c = CHR ''E'' then
           (case r of
              d # t \<Rightarrow>
                if d = CHR ''-'' then map_option (\<lambda>(ds, u). (- int (dec_val ds), u)) (digits1 t)
                else if d = CHR ''+'' then map_option (\<lambda>(ds, u). (int (dec_val ds), u)) (digits1 t)
                else map_option (\<lambda>(ds, u). (int (dec_val ds), u)) (digits1 r)
            | [] \<Rightarrow> None)
         else Some (0, s)
     | [] \<Rightarrow> Some (0, s))"

text \<open>The number \<open>m * 10 ^ e\<close>.\<close>

definition decimal :: "int \<Rightarrow> int \<Rightarrow> js" where
  "decimal m e =
     (if 0 \<le> e then JInt (m * 10 ^ nat e)
      else let q = 10 ^ nat (- e); g = gcd m q
           in if q dvd m then JInt (m div q) else JFrac (m div g) (nat (q div g)))"

definition number :: "string \<Rightarrow> (js \<times> string) option" where
  "number s = (let (neg, s1) = (case s of c # r \<Rightarrow> if c = CHR ''-'' then (True, r) else (False, s) | [] \<Rightarrow> (False, s))
     in do {
       (ip, s2) \<leftarrow> int_part s1;
       (fp, s3) \<leftarrow> frac_part s2;
       (e, s4) \<leftarrow> exp_part s3;
       let m = int (dec_val (ip @ fp));
       Some (decimal (if neg then - m else m) (e - int (length fp)), s4) })"

definition quoted :: "string \<Rightarrow> (string \<times> string) option" where
  "quoted s = do {
     (raw, r) \<leftarrow> json_raw s;
     t \<leftarrow> lit [dq] r;
     v \<leftarrow> json_unescape raw;
     Some (v, t) }"

fun jval :: "nat \<Rightarrow> string \<Rightarrow> (js \<times> string) option"
  and elems :: "nat \<Rightarrow> string \<Rightarrow> (js list \<times> string) option"
  and members :: "nat \<Rightarrow> (string \<times> js) list \<Rightarrow> string \<Rightarrow> ((string \<times> js) list \<times> string) option" where
  "jval 0 s = None"
| "jval (Suc k) s = (case skip s of
       [] \<Rightarrow> None
     | c # r \<Rightarrow>
         if c = dq then map_option (\<lambda>(v, t). (JStr v, t)) (quoted r)
         else if c = CHR ''['' then
           (case lit '']'' (skip r) of
              Some t \<Rightarrow> Some (JArr [], t)
            | None \<Rightarrow> map_option (\<lambda>(vs, t). (JArr vs, t)) (elems k r))
         else if c = CHR ''{'' then
           (case lit ''}'' (skip r) of
              Some t \<Rightarrow> Some (JObj [], t)
            | None \<Rightarrow> map_option (\<lambda>(fs, t). (JObj fs, t)) (members k [] r))
         else if c = CHR ''n'' then map_option (\<lambda>t. (JNull, t)) (lit ''null'' (c # r))
         else if c = CHR ''t'' then map_option (\<lambda>t. (JBool True, t)) (lit ''true'' (c # r))
         else if c = CHR ''f'' then map_option (\<lambda>t. (JBool False, t)) (lit ''false'' (c # r))
         else number (c # r))"
| "elems 0 s = None"
| "elems (Suc k) s = do {
     (v, r) \<leftarrow> jval k s;
     (case skip r of
        [] \<Rightarrow> None
      | c # t \<Rightarrow>
          if c = CHR '','' then map_option (\<lambda>(vs, u). (v # vs, u)) (elems k t)
          else if c = CHR '']'' then Some ([v], t)
          else None) }"
| "members 0 acc s = None"
| "members (Suc k) acc s = do {
     r \<leftarrow> lit [dq] (skip s);
     (key, r1) \<leftarrow> quoted r;
     r2 \<leftarrow> lit '':'' (skip r1);
     (v, r3) \<leftarrow> jval k r2;
     (case skip r3 of
        [] \<Rightarrow> None
      | c # t \<Rightarrow>
          if c = CHR '','' then members k (jm_set key v acc) t
          else if c = CHR ''}'' then Some (jm_set key v acc, t)
          else None) }"

text \<open>The fuel bounds the nesting and the elements, of which a text has no more than characters.\<close>

definition json_parse :: "string \<Rightarrow> js option" where
  "json_parse s = (case jval (2 * length s + 2) s of
     Some (v, r) \<Rightarrow> if skip r = [] then Some v else None
   | None \<Rightarrow> None)"

section \<open>What is printed is read back\<close>

text \<open>Values that have an exact text: no fractions, nothing that JSON drops, distinct names.\<close>

fun printable :: "js \<Rightarrow> bool" where
  "printable JNull = True"
| "printable (JBool b) = True"
| "printable (JInt n) = True"
| "printable (JStr s) = True"
| "printable (JArr vs) = list_all printable vs"
| "printable (JObj fs) = (distinct (map fst fs) \<and> list_all (\<lambda>(k, v). printable v) fs)"
| "printable _ = False"

lemma skip_head: "\<not> json_ws c \<Longrightarrow> skip (c # s) = c # s"
  by (simp add: skip_def)

lemma quoted_escape: "quoted (json_escape s @ dq # r) = Some (s, r)"
  by (simp add: quoted_def json_raw_escape json_string_roundtrip)

lemma digit_not_ws: "is_digit c \<Longrightarrow> \<not> json_ws c \<and> c \<noteq> dq \<and> c \<noteq> CHR ''['' \<and> c \<noteq> CHR ''{''
    \<and> c \<noteq> CHR ''n'' \<and> c \<noteq> CHR ''t'' \<and> c \<noteq> CHR ''f'' \<and> c \<noteq> CHR ''-'' \<and> c \<noteq> CHR '']''"
  by (auto simp: is_digit_def json_ws_def less_eq_char_def)

lemma digit_char_0: "digit_char 0 = CHR ''0''"
  by code_simp

lemma show_nat_head: "0 < n \<Longrightarrow> hd (show_nat n) \<noteq> CHR ''0''"
proof (induction n rule: less_induct)
  case (less n)
  show ?case
  proof (cases "n < 10")
    case True
    have "digit_char n \<noteq> digit_char 0"
      using True less.prems digit_char_inj [of n 0] by auto
    moreover note digit_char_0
    moreover have "show_nat n = [digit_char n]"
      using True unfolding show_nat_def by (subst radix_str.simps) simp
    ultimately show ?thesis by simp
  next
    case False
    then have "show_nat n = show_nat (n div 10) @ [digit_char (n mod 10)]"
      unfolding show_nat_def by (subst radix_str.simps) simp
    moreover have "hd (show_nat (n div 10)) \<noteq> CHR ''0''" using False by (intro less.IH) auto
    ultimately show ?thesis by simp
  qed
qed

text \<open>What may follow a number without becoming part of it.\<close>

fun ends_number :: "string \<Rightarrow> bool" where
  "ends_number [] = True"
| "ends_number (c # r) = (\<not> is_digit c \<and> c \<noteq> CHR ''.'' \<and> c \<noteq> CHR ''e'' \<and> c \<noteq> CHR ''E'')"

lemma digits1_show: "ends_number r \<Longrightarrow> digits1 (show_nat n @ r) = Some (show_nat n, r)"
  unfolding digits1_def run_iff by (cases r) (simp_all add: show_nat_digits)

lemma int_part_show:
  assumes "ends_number r"
  shows "int_part (show_nat n @ r) = Some (show_nat n, r)"
proof (cases "n = 0")
  case True
  have "show_nat 0 = ''0''" unfolding show_nat_def by (subst radix_str.simps) (simp add: digit_char_0)
  then show ?thesis using True by (simp add: int_part_def)
next
  case False
  obtain c cs where c: "show_nat n = c # cs" by (cases "show_nat n") auto
  have "c \<noteq> CHR ''0''" using show_nat_head [of n] False c by simp
  then show ?thesis using digits1_show [OF assms, of n] c by (simp add: int_part_def)
qed

lemma number_show:
  assumes "ends_number r"
  shows "number (show_int n @ r) = Some (JInt n, r)"
proof -
  have f: "frac_part r = Some ([], r)" using assms by (cases r) (simp_all add: frac_part_def)
  have e: "exp_part r = Some (0, r)" using assms by (cases r) (simp_all add: exp_part_def)
  show ?thesis
  proof (cases "n < 0")
    case True
    then show ?thesis
      by (simp add: number_def show_int_def int_part_show [OF assms] f e decimal_def)
  next
    case False
    obtain c cs where c: "show_nat (nat n) = c # cs" by (cases "show_nat (nat n)") auto
    have "is_digit c" using show_nat_digits [of "nat n"] c by simp
    then have "c \<noteq> CHR ''-''" using digit_not_ws by blast
    moreover have "int_part (c # cs @ r) = Some (c # cs, r)"
      using int_part_show [OF assms, of "nat n"] c by simp
    moreover have "dec_val (c # cs) = nat n" using dec_val_show_nat [of "nat n"] c by simp
    ultimately show ?thesis using False
      by (simp add: number_def show_int_def c f e decimal_def)
  qed
qed

text \<open>The first character of a text is neither blank nor a closing bracket.\<close>

lemma text_head:
  "printable v \<Longrightarrow> \<exists>c t. json_text frac v = c # t \<and> \<not> json_ws c \<and> c \<noteq> CHR '']''"
proof (cases v)
  case (JInt n)
  obtain c cs where c: "show_nat (nat n) = c # cs" by (cases "show_nat (nat n)") auto
  have "is_digit c" using show_nat_digits [of "nat n"] c by simp
  with c JInt show ?thesis using digit_not_ws [of c]
    by (auto simp: show_int_def json_ws_def)
qed (auto simp: json_string_def json_ws_def)

lemma number_head:
  "c = CHR ''-'' \<or> is_digit c \<Longrightarrow> \<not> json_ws c \<and> c \<noteq> dq \<and> c \<noteq> CHR ''['' \<and> c \<noteq> CHR ''{''
      \<and> c \<noteq> CHR ''n'' \<and> c \<noteq> CHR ''t'' \<and> c \<noteq> CHR ''f''"
  apply (erule disjE)
   apply (simp add: json_ws_def)
  by (drule digit_not_ws) blast

lemma jval_number:
  assumes "\<not> json_ws c" "c \<noteq> dq" "c \<noteq> CHR ''[''" "c \<noteq> CHR ''{''"
    "c \<noteq> CHR ''n''" "c \<noteq> CHR ''t''" "c \<noteq> CHR ''f''"
  shows "jval (Suc k) (c # t) = number (c # t)"
  unfolding jval.simps skip_head [OF assms(1)] list.case using assms(2-7) by simp

lemma number_jval:
  assumes "ends_number r"
  shows "jval (Suc k) (show_int n @ r) = Some (JInt n, r)"
proof -
  obtain c t where ct: "show_int n @ r = c # t" "c = CHR ''-'' \<or> is_digit c"
  proof (cases "n < 0")
    case True
    then show ?thesis using that by (simp add: show_int_def)
  next
    case False
    obtain c cs where c: "show_nat (nat n) = c # cs" by (cases "show_nat (nat n)") auto
    have "is_digit c" using show_nat_digits [of "nat n"] c by simp
    then show ?thesis using that False c by (simp add: show_int_def)
  qed
  have "jval (Suc k) (c # t) = number (c # t)"
    using number_head [OF ct(2)] by (intro jval_number) blast+
  then show ?thesis using number_show [OF assms, of n] by (simp only: ct(1))
qed

lemma elems_text:
  fixes pr :: "js \<Rightarrow> string"
  assumes "vs \<noteq> []"
    and "\<And>v r k. v \<in> set vs \<Longrightarrow> ends_number r \<Longrightarrow> 2 * length (pr v) < k \<Longrightarrow>
          jval k (pr v @ r) = Some (v, r)"
    and "2 * length (sep_by (map (pr) vs)) + 1 < k"
  shows "elems k (sep_by (map (pr) vs) @ CHR '']'' # r) = Some (vs, r)"
  using assms
proof (induction vs arbitrary: k)
  case Nil
  then show ?case by simp
next
  case (Cons v vs)
  obtain k' where k: "k = Suc k'" using Cons.prems(3) by (cases k) auto
  have "length (pr v) \<le> length (sep_by (map (pr) (v # vs)))"
    by (cases vs) simp_all
  then have v: "jval k' (pr v @ u) = Some (v, u)" if "ends_number u" for u
    using Cons.prems(3) k that by (intro Cons.prems(2)) simp_all
  show ?case
  proof (cases vs)
    case Nil
    have "ends_number (CHR '']'' # r)" by (simp add: is_digit_def less_eq_char_def)
    from v [OF this] show ?thesis using Nil k by (simp add: skip_def json_ws_def)
  next
    case (Cons w ws)
    let ?rest = "sep_by (map (pr) vs) @ CHR '']'' # r"
    have ne: "vs \<noteq> []" using Cons by simp
    have "2 * length (sep_by (map (pr) vs)) + 1 < k'"
      using \<open>2 * _ + 1 < k\<close> Cons k by simp
    then have rest: "elems k' ?rest = Some (vs, r)"
      using Cons.prems(2) by (intro Cons.IH ne) auto
    have "ends_number (CHR '','' # ?rest)" by (simp add: is_digit_def less_eq_char_def)
    from v [OF this] rest show ?thesis using Cons k by (simp add: skip_def json_ws_def)
  qed
qed

lemma members_text:
  fixes pr :: "js \<Rightarrow> string"
  assumes "fs \<noteq> []" and name: "\<And>key w. quoted (nm key @ w) = Some (key, w)"
    and "\<And>key v r k. (key, v) \<in> set fs \<Longrightarrow> ends_number r \<Longrightarrow> 2 * length (pr v) < k \<Longrightarrow>
          jval k (pr v @ r) = Some (v, r)"
    and "distinct (map fst (acc @ fs))"
    and "2 * length (sep_by (map (\<lambda>(k, v). dq # nm k @ CHR '':'' # pr v) fs)) + 1 < k"
  shows "members k acc (sep_by (map (\<lambda>(k, v). dq # nm k @ CHR '':'' # pr v) fs) @ CHR ''}'' # r)
    = Some (acc @ fs, r)"
  using assms
proof (induction fs arbitrary: acc k)
  case Nil
  then show ?case by simp
next
  case (Cons f fs)
  obtain key v where f: "f = (key, v)" by (cases f)
  let ?txt = "\<lambda>fs. sep_by (map (\<lambda>(k, v). dq # nm k @ CHR '':'' # pr v) fs)"
  obtain k' where k: "k = Suc k'" using Cons.prems(5) by (cases k) auto
  have "length (pr v) \<le> length (?txt (f # fs))"
    by (cases fs) (simp_all add: f)
  then have v: "jval k' (pr v @ u) = Some (v, u)" if "ends_number u" for u
    using Cons.prems(5) k that f by (intro Cons.prems(3) [of key]) simp_all
  have "jm_get acc key = None" using Cons.prems(4) f by (auto simp: jm_get_def map_of_eq_None_iff)
  then have set: "jm_set key v acc = acc @ [f]" by (simp add: jm.entries_put_new f)
  have colon: "skip (CHR '':'' # w) = CHR '':'' # w" and quote: "skip (dq # w) = dq # w"
    and brace: "skip (CHR ''}'' # w) = CHR ''}'' # w" and comma: "skip (CHR '','' # w) = CHR '','' # w" for w
    by (simp_all add: skip_def json_ws_def)
  show ?case
  proof (cases fs)
    case Nil
    have "ends_number (CHR ''}'' # r)" by (simp add: is_digit_def less_eq_char_def)
    from v [OF this] show ?thesis using Nil k
      by (simp add: f name colon quote brace set)
  next
    case (Cons g gs)
    have ne: "fs \<noteq> []" using Cons by simp
    have "2 * length (?txt fs) + 1 < k'"
      using Cons.prems(5) Cons k f by simp
    moreover have "distinct (map fst ((acc @ [f]) @ fs))" using Cons.prems(4) by simp
    ultimately have rest: "members k' (acc @ [f]) (?txt fs @ CHR ''}'' # r) = Some ((acc @ [f]) @ fs, r)"
      using Cons.prems(3) by (intro Cons.IH ne name) auto
    have "ends_number (CHR '','' # ?txt fs @ CHR ''}'' # r)" by (simp add: is_digit_def less_eq_char_def)
    from v [OF this] rest show ?thesis using Cons k
      by (simp add: f name colon quote comma set)
  qed
qed

lemma json_read:
  "printable v \<Longrightarrow> ends_number r \<Longrightarrow> 2 * length (json_text frac v) < k \<Longrightarrow>
     jval k (json_text frac v @ r) = Some (v, r)"
proof (induction v arbitrary: r k)
  case (JStr s)
  then show ?case by (cases k) (simp_all add: json_string_def skip_def json_ws_def quoted_escape)
next
  case (JInt n)
  then show ?case using number_jval by (cases k) simp_all
next
  case (JArr vs)
  obtain k' where k: "k = Suc k'" using JArr.prems(3) by (cases k) auto
  show ?case
  proof (cases "vs = []")
    case True
    then show ?thesis using k by (simp add: skip_def json_ws_def)
  next
    case False
    have "elems k' (sep_by (map (json_text frac) vs) @ CHR '']'' # r) = Some (vs, r)"
      using JArr k by (intro elems_text False) (auto simp: list_all_iff)
    moreover obtain c t where "sep_by (map (json_text frac) vs) = c # t" "\<not> json_ws c" "c \<noteq> CHR '']''"
    proof -
      obtain w ws where w: "vs = w # ws" using False by (cases vs) auto
      with JArr.prems(1) obtain c t where "json_text frac w = c # t" "\<not> json_ws c" "c \<noteq> CHR '']''"
        using text_head [of w frac] by auto
      then show ?thesis using that w by (cases ws) auto
    qed
    ultimately show ?thesis using k by (simp add: skip_head) (simp add: skip_def json_ws_def)
  qed
next
  case (JObj fs)
  obtain k' where k: "k = Suc k'" using JObj.prems(3) by (cases k) auto
  have all: "filter (\<lambda>(k, v). v \<noteq> JUndef) fs = fs"
    using JObj.prems(1) by (auto simp: list_all_iff filter_id_conv)
  show ?case
  proof (cases "fs = []")
    case True
    then show ?thesis using k by (simp add: skip_def json_ws_def)
  next
    case False
    let ?txt = "sep_by (map (\<lambda>(k, v). dq # (json_escape k @ [dq]) @ CHR '':'' # json_text frac v) fs)"
    have shown: "?txt = sep_by (map (\<lambda>(k, v). json_string k @ CHR '':'' # json_text frac v) fs)"
      by (simp add: json_string_def)
    have "members k' [] (?txt @ CHR ''}'' # r) = Some ([] @ fs, r)"
    proof (rule members_text [where nm = "\<lambda>k. json_escape k @ [dq]" and pr = "json_text frac"])
      show "quoted ((json_escape key @ [dq]) @ w) = Some (key, w)" for key w by (simp add: quoted_escape)
      show "jval ka (json_text frac v @ ra) = Some (v, ra)"
        if "(key, v) \<in> set fs" "ends_number ra" "2 * length (json_text frac v) < ka" for key v ra ka
        using that JObj.prems(1) by (intro JObj.IH [of "(key, v)"]) (auto simp: list_all_iff)
    qed (use False JObj.prems k all in \<open>auto simp: json_string_def\<close>)
    moreover obtain t where "?txt = dq # t"
      using False by (cases fs; cases "tl fs") auto
    ultimately show ?thesis using k unfolding shown by (simp add: all) (simp add: skip_def json_ws_def)
  qed
qed (case_tac k; simp add: skip_def json_ws_def)+

theorem json_roundtrip: "printable v \<Longrightarrow> json_parse (json_text frac v) = Some v"
  using json_read [of v "[]" frac "2 * length (json_text frac v) + 2"]
  by (simp add: json_parse_def skip_def)

end
