(* ===== verification/CapDisposition.thy ===== *)
theory CapDisposition
  imports Json ReviewCap
begin

text \<open>
  What happens when the pre-push cap is reached (\<open>lib/review-cap-disposition.js\<close>,
  \<open>lib/review-cap-disposition-2.js\<close>, parts of \<open>lib/codex-verify-cap.js\<close> and
  \<open>lib/repo-vocabulary.js\<close>): signals are collected from the diff and the findings, scored into
  a disposition, recorded on the issue thread, and an over-cap cycle is granted from that record.

  Risk scores are in thousandths. The repository, its configuration context, the thread, the
  diff, the surface classification, the judge process, the sensitive-content test and the post
  are parameters.
\<close>

section \<open>Dispositions\<close>

datatype verdict = Proceed | OneMoreCycle | Escalate

fun verdict_str :: "verdict \<Rightarrow> string" where
  "verdict_str Proceed = ''proceed''"
| "verdict_str OneMoreCycle = ''one_more_cycle''"
| "verdict_str Escalate = ''escalate_to_human''"

definition verdict_of :: "string \<Rightarrow> verdict option" where
  "verdict_of s = find (\<lambda>v. verdict_str v = s) [Proceed, OneMoreCycle, Escalate]"

fun disposition_next_action :: "verdict \<Rightarrow> string" where
  "disposition_next_action Proceed = ''proceed_to_phase_c''"
| "disposition_next_action OneMoreCycle = ''reinvoke_cycle_with_auto_override''"
| "disposition_next_action Escalate = ''ask_over_cap_or_proceed''"

definition high_risk_surfaces :: "string list" where
  "high_risk_surfaces = [''migration'', ''controller'', ''mcp_tool'', ''config_parser'', ''public_api'']"

definition int_or :: "int \<Rightarrow> js \<Rightarrow> int" where
  "int_or d v = (case as_int v of Some n \<Rightarrow> n | None \<Rightarrow> d)"

definition obj_or_empty :: "js \<Rightarrow> js" where
  "obj_or_empty v = (if is_object v then v else JObj [])"

definition list_or_empty :: "js \<Rightarrow> js list" where
  "list_or_empty v = (case v of JArr vs \<Rightarrow> vs | _ \<Rightarrow> [])"

section \<open>Signals\<close>

text \<open>The lines of a manifest that hold at least three columns: two counts and the path.\<close>

definition manifest_row :: "string \<Rightarrow> (string \<times> string \<times> string) option" where
  "manifest_row raw =
     (let line = trim raw; parts = split_on (CHR 0x09) line
      in if line = [] \<or> starts_with ''#'' line \<or> line = ''(none)'' \<or> line = ''(no files changed)'' then None
         else (case parts of
            a # d # p # rest \<Rightarrow> Some (a, d, join [CHR 0x09] (p # rest))
          | _ \<Rightarrow> None))"

definition numstat_count :: "string \<Rightarrow> int option" where
  "numstat_count col = (if col = ''-'' then Some 0 else parse_int col)"

definition isNumstatCount :: "string \<Rightarrow> bool" where
  "isNumstatCount col \<longleftrightarrow> col = ''-'' \<or> parse_int col \<noteq> None"

record diff_stat =
  files_changed :: int
  lines_added :: int
  lines_deleted :: int

definition numstat_step :: "diff_stat \<times> string list \<Rightarrow> string \<Rightarrow> diff_stat \<times> string list" where
  "numstat_step acc raw =
     (case acc of (r, seen) \<Rightarrow>
        (case manifest_row raw of
           None \<Rightarrow> (r, seen)
         | Some (a, d, path) \<Rightarrow>
             (case (numstat_count a, numstat_count d) of
                (Some added, Some deleted) \<Rightarrow>
                  (let r' = r\<lparr>lines_added := lines_added r + added, lines_deleted := lines_deleted r + deleted\<rparr>
                   in if path \<noteq> [] \<and> path \<notin> set seen
                      then (r'\<lparr>files_changed := files_changed r' + 1\<rparr>, path # seen)
                      else (r', seen))
              | _ \<Rightarrow> (r, seen))))"

definition parseNumstatManifest :: "string option \<Rightarrow> diff_stat" where
  "parseNumstatManifest manifest =
     (let zero = \<lparr>files_changed = 0, lines_added = 0, lines_deleted = 0\<rparr>
      in case manifest of
           None \<Rightarrow> zero
         | Some m \<Rightarrow> fst (foldl numstat_step (zero, []) (split_on nl m)))"

definition changed_path_step :: "string list \<Rightarrow> string \<Rightarrow> string list" where
  "changed_path_step paths raw =
     (case manifest_row raw of
        None \<Rightarrow> paths
      | Some (a, d, path) \<Rightarrow>
          if isNumstatCount a \<and> isNumstatCount d \<and> path \<noteq> [] then set_add paths path else paths)"

definition parseChangedPathsFromManifest :: "string option \<Rightarrow> string list" where
  "parseChangedPathsFromManifest manifest =
     (case manifest of None \<Rightarrow> [] | Some m \<Rightarrow> foldl changed_path_step [] (split_on nl m))"

text \<open>
  \<open>REVIEW_DISPOSITION_SECURITY_SHAPE_RE\<close>, case insensitive: \<open>pw\<close> says whether the character
  before is a word character, \<open>stop\<close> is the word boundary behind a match.
\<close>

definition stop :: "string \<Rightarrow> bool" where
  "stop r = (case r of [] \<Rightarrow> True | c # _ \<Rightarrow> \<not> word_char c)"

definition word_at :: "bool \<Rightarrow> string \<Rightarrow> string \<Rightarrow> bool" where
  "word_at pw w s \<longleftrightarrow> \<not> pw \<and> (case lit w s of Some r \<Rightarrow> stop r | None \<Rightarrow> False)"

fun security_from :: "bool \<Rightarrow> string \<Rightarrow> bool" where
  "security_from pw [] = False"
| "security_from pw (c # s) =
     (word_at pw ''security'' (c # s) \<or> \<not> pw \<and> lit ''vuln'' (c # s) \<noteq> None
      \<or> lit ''injection'' (c # s) \<noteq> None \<or> lit ''secret'' (c # s) \<noteq> None
      \<or> word_at pw ''auth'' (c # s) \<or> word_at pw ''authn'' (c # s) \<or> word_at pw ''authz'' (c # s)
      \<or> lit ''authoriz'' (c # s) \<noteq> None \<or> lit ''cwe'' (c # s) \<noteq> None
      \<or> lit ''xss'' (c # s) \<noteq> None \<or> lit ''ssrf'' (c # s) \<noteq> None \<or> word_at pw ''csrf'' (c # s)
      \<or> security_from (word_char c) s)"

definition security_shape :: "string \<Rightarrow> bool" where
  "security_shape s = security_from False (lower s)"

record findings_signal =
  one_off_count :: int
  class_count :: int
  has_security_finding :: bool
  known :: bool

definition category_shape :: "js \<Rightarrow> string" where
  "category_shape c = (case c of
      JStr s \<Rightarrow> s
    | _ \<Rightarrow> (case fld c ''shape'' of JStr s \<Rightarrow> s | _ \<Rightarrow> []))"

definition summarizeFindingsForDisposition :: "js \<Rightarrow> findings_signal" where
  "summarizeFindingsForDisposition summary =
     (let fs = obj_or_empty summary;
          cats = (case fld fs ''top_categories'' of
                    JArr cs \<Rightarrow> cs
                  | _ \<Rightarrow> list_or_empty (fld fs ''categories''))
      in \<lparr>one_off_count = int_or 0 (fld fs ''one_off_count''),
          class_count = int_or 0 (fld fs ''class_count''),
          has_security_finding =
            (fld fs ''has_security_finding'' = JBool True \<or> list_ex (\<lambda>c. security_shape (category_shape c)) cats),
          known = is_object summary\<rparr>)"

definition findings_js :: "findings_signal \<Rightarrow> js" where
  "findings_js f = JObj [(''one_off_count'', JInt (one_off_count f)), (''class_count'', JInt (class_count f)),
     (''has_security_finding'', JBool (has_security_finding f)), (''known'', JBool (known f))]"

definition diff_js :: "diff_stat \<Rightarrow> js" where
  "diff_js d = JObj [(''files_changed'', JInt (files_changed d)), (''lines_added'', JInt (lines_added d)),
     (''lines_deleted'', JInt (lines_deleted d))]"

text \<open>\<open>surface_of\<close> is the classification of the changed paths, \<open>None\<close> where it throws.\<close>

definition collectDispositionSignals ::
  "(string list \<Rightarrow> string list option) \<Rightarrow> js \<Rightarrow> js \<Rightarrow> string option \<Rightarrow> string list \<Rightarrow> int \<Rightarrow> js \<Rightarrow> js option" where
  "collectDispositionSignals surface_of reviewer findings manifest paths prior diff_mode =
     map_option (\<lambda>surfaces.
        JObj [(''reviewer'', coalesce reviewer JNull),
              (''prior_auto_overrides'', JInt prior),
              (''diff'', diff_js (parseNumstatManifest manifest)),
              (''surfaces'', JArr (map JStr surfaces)),
              (''diff_mode'', if is_string diff_mode then diff_mode else JStr ''unknown''),
              (''findings'', findings_js (summarizeFindingsForDisposition findings))])
       (if paths = [] then Some [] else map_option (foldl set_add []) (surface_of paths))"

section \<open>Scoring\<close>

definition is_high_risk_surface :: "js \<Rightarrow> bool" where
  "is_high_risk_surface c = (case c of JStr s \<Rightarrow> s \<in> set high_risk_surfaces | _ \<Rightarrow> False)"

definition isHighRiskSnapshot :: "js \<Rightarrow> bool" where
  "isHighRiskSnapshot snapshot =
     (let s = obj_or_empty snapshot; findings = obj_or_empty (fld s ''findings'')
      in fld findings ''has_security_finding'' = JBool True
         \<or> list_ex is_high_risk_surface (list_or_empty (fld s ''surfaces'')))"

record scored =
  sd_disposition :: verdict
  sd_next_action :: string
  sd_rationale :: string
  sd_decided_by :: string
  sd_risk :: int

definition risk_score :: "js \<Rightarrow> int" where
  "risk_score snapshot =
     (let s = obj_or_empty snapshot; diff = obj_or_empty (fld s ''diff'');
          findings = obj_or_empty (fld s ''findings'');
          lines = int_or 0 (fld diff ''lines_added'') + int_or 0 (fld diff ''lines_deleted'')
      in min 1000
           ((if fld findings ''has_security_finding'' = JBool True then 550 else 0)
            + (if list_ex is_high_risk_surface (list_or_empty (fld s ''surfaces'')) then 400 else 0)
            + min 250 lines
            + min 200 (int_or 0 (fld findings ''class_count'') * 100)
            + (if is_string (fld s ''diff_mode'') \<and> fld s ''diff_mode'' \<noteq> JStr ''inline'' then 150 else 0)))"

definition mk_scored :: "int \<Rightarrow> verdict \<Rightarrow> string \<Rightarrow> string \<Rightarrow> scored" where
  "mk_scored risk v decider why = \<lparr>sd_disposition = v, sd_next_action = disposition_next_action v,
     sd_rationale = why, sd_decided_by = decider, sd_risk = risk\<rparr>"

definition scoreDisposition :: "js \<Rightarrow> js \<Rightarrow> scored" where
  "scoreDisposition snapshot config =
     (let s = obj_or_empty snapshot; cfg = obj_or_empty config;
          maxAuto = int_or 1 (fld cfg ''max_auto_overrides'');
          prior = int_or 0 (fld s ''prior_auto_overrides'');
          diff = obj_or_empty (fld s ''diff'');
          files = int_or 0 (fld diff ''files_changed'');
          lines = int_or 0 (fld diff ''lines_added'') + int_or 0 (fld diff ''lines_deleted'');
          findings = obj_or_empty (fld s ''findings'');
          oneOff = int_or 0 (fld findings ''one_off_count'');
          classCount = int_or 0 (fld findings ''class_count'');
          findingsKnown = (fld findings ''known'' \<noteq> JBool False);
          highRisk = (fld findings ''has_security_finding'' = JBool True
                      \<or> list_ex is_high_risk_surface (list_or_empty (fld s ''surfaces'')));
          mk = mk_scored (risk_score snapshot)
      in if prior \<ge> maxAuto then
           (if highRisk then mk Escalate ''ceiling'' ''auto-override ceiling reached and change is high-risk; escalating to a human''
            else mk Proceed ''ceiling'' ''auto-override ceiling reached; residual risk low, proceeding'')
         else if fld s ''reviewer'' = JStr ''codex'' \<and> highRisk then
           mk OneMoreCycle ''fast_path'' ''codex review on a high-risk surface warrants one more cycle''
         else if lines \<le> 25 \<and> files \<le> 2 \<and> \<not> highRisk \<and> findingsKnown \<and> classCount = 0 \<and> oneOff \<le> 1 then
           mk Proceed ''fast_path'' ''small low-risk diff with no class findings; proceeding''
         else if \<not> findingsKnown then
           mk Escalate ''judge_needed'' (''findings shape unknown; cannot auto-proceed '' @ em_dash
             @ '' judge or human decision required'')
         else mk Escalate ''judge_needed'' ''gray-zone change; judge or human decision required'')"

text \<open>The judge's answer as an object, \<open>null\<close> where it is unusable.\<close>

definition parseDispositionJudgeOutput :: "string \<Rightarrow> js" where
  "parseDispositionJudgeOutput stdout =
     (case json_parse stdout of
        None \<Rightarrow> JNull
      | Some outer \<Rightarrow>
          (case (case fld outer ''result'' of JStr inner \<Rightarrow> json_parse inner | _ \<Rightarrow> Some outer) of
             None \<Rightarrow> JNull
           | Some payload \<Rightarrow>
               (case fld payload ''disposition'' of
                  JStr d \<Rightarrow>
                    if verdict_of d = None then JNull
                    else JObj [(''disposition'', JStr d),
                               (''rationale'', if is_string (fld payload ''rationale'')
                                               then fld payload ''rationale'' else JNull)]
                | _ \<Rightarrow> JNull)))"

section \<open>The durable record\<close>

definition auto_disposition_schema :: string where
  "auto_disposition_schema = ''gc.implement.review-auto-disposition/v1''"

text \<open>One \<open>name="value"\<close> of a marker; a later one of the same name wins.\<close>

definition marker_attr :: "(string \<times> string) matcher" where
  "marker_attr s = do {
     (name, s1) \<leftarrow> run word_char nonempty s;
     s2 \<leftarrow> lit [CHR ''='', dq] s1;
     (v, s3) \<leftarrow> json_raw s2;
     s4 \<leftarrow> lit [dq] s3;
     Some ((name, v), s4) }"

definition parseMarkerAttrs :: "string \<Rightarrow> (string, string) jmap" where
  "parseMarkerAttrs txt = foldl (\<lambda>m (k, v). jm_set k v m) [] (find_all marker_attr txt)"

text \<open>\<open>REVIEW_AUTO_DISPOSITION_MARKER_RE\<close>: the text between the tag and the close.\<close>

definition auto_marker :: "string matcher" where
  "auto_marker s = do {
     s1 \<leftarrow> marker_open ''gc:review-auto-disposition'' s;
     s2 \<leftarrow> ws1 s1;
     until ''-->'' s2 }"

text \<open>\<open>REVIEW_AUTO_DISPOSITION_DATA_RE\<close>: from the brace up to the first brace before a close.\<close>

fun to_brace_close :: "string \<Rightarrow> (string \<times> string) option" where
  "to_brace_close [] = None"
| "to_brace_close (c # s) =
     (case (if c = CHR ''}'' then marker_close s else None) of
        Some r \<Rightarrow> Some ([c], r)
      | None \<Rightarrow> map_option (\<lambda>(v, r). (c # v, r)) (to_brace_close s))"

definition auto_data :: "string matcher" where
  "auto_data s = do {
     s1 \<leftarrow> marker_open ''gc:review-auto-disposition-data'' s;
     s2 \<leftarrow> ws1 s1;
     s3 \<leftarrow> lit ''{'' s2;
     (v, r) \<leftarrow> to_brace_close s3;
     Some (CHR ''{'' # v, r) }"

record auto_disposition =
  ad_issue :: int
  ad_reviewer :: "string option"
  ad_disposition :: "string option"
  ad_grant :: "int option"
  ad_data :: js

definition read_auto_marker :: "int \<Rightarrow> string option \<Rightarrow> string \<times> js \<Rightarrow> auto_disposition option" where
  "read_auto_marker n reviewer m =
     (case m of (txt, data) \<Rightarrow>
        (let attrs = jm_get (parseMarkerAttrs txt)
         in case (case attrs ''issue'' of Some i \<Rightarrow> parse_int i | None \<Rightarrow> None) of
              None \<Rightarrow> None
            | Some i \<Rightarrow>
                if i \<noteq> n then None
                else if reviewer \<noteq> None \<and> attrs ''reviewer'' \<noteq> reviewer then None
                else Some \<lparr>ad_issue = i, ad_reviewer = attrs ''reviewer'',
                           ad_disposition = (case attrs ''disposition'' of
                               Some d \<Rightarrow> Some d | None \<Rightarrow> js_str (fld data ''disposition'')),
                           ad_grant = (case attrs ''grant'' of Some g \<Rightarrow> parse_int g | None \<Rightarrow> None),
                           ad_data = data\<rparr>))"

text \<open>The \<open>i\<close>-th marker of a body takes the \<open>i\<close>-th data block, \<open>null\<close> where there is none.\<close>

definition data_blocks :: "string \<Rightarrow> js list" where
  "data_blocks body =
     map (\<lambda>d. case json_parse d of Some v \<Rightarrow> v | None \<Rightarrow> JNull) (find_all auto_data body)"

definition auto_markers_of :: "int \<Rightarrow> string option \<Rightarrow> string \<Rightarrow> auto_disposition list" where
  "auto_markers_of n reviewer body =
     (let ms = find_all auto_marker body
      in List.map_filter (read_auto_marker n reviewer)
           (zip ms (data_blocks body @ replicate (length ms) JNull)))"

definition parseReviewAutoDispositionMarkers ::
  "string list \<Rightarrow> int \<Rightarrow> string option \<Rightarrow> auto_disposition list \<times> nat" where
  "parseReviewAutoDispositionMarkers bodies n reviewer =
     (let ms = concat (map (auto_markers_of n reviewer) bodies)
      in (ms, length (filter (\<lambda>m. ad_disposition m = Some ''one_more_cycle'') ms)))"

record disposition_record =
  dr_issue :: int
  dr_reviewer :: string
  dr_cycle :: int
  dr_cap :: int
  dr_mode :: string
  dr_disposition :: verdict
  dr_rationale :: string
  dr_snapshot :: js
  dr_grant :: "int option"

text \<open>Every number of a record is an integer.\<close>

definition stringify :: "js \<Rightarrow> string" where
  "stringify = json_text (\<lambda>_ _. [])"

definition issued_mode :: "disposition_record \<Rightarrow> string" where
  "issued_mode d = (if dr_mode d = ''authoritative'' then ''authoritative'' else ''shadow'')"

definition record_data :: "disposition_record \<Rightarrow> js" where
  "record_data d = JObj [(''schema'', JStr auto_disposition_schema),
     (''disposition'', JStr (verdict_str (dr_disposition d))), (''reviewer'', JStr (dr_reviewer d)),
     (''cycle'', JInt (dr_cycle d)), (''cap'', JInt (dr_cap d)), (''mode'', JStr (issued_mode d)),
     (''grant'', case dr_grant d of Some g \<Rightarrow> JInt g | None \<Rightarrow> JNull),
     (''signals_snapshot'', coalesce (dr_snapshot d) JNull)]"

definition record_attrs :: "disposition_record \<Rightarrow> string" where
  "record_attrs d = ''issue='' @ dq # show_int (dr_issue d) @ dq # attr_str ''reviewer'' (dr_reviewer d)
     @ attr_str ''schema'' auto_disposition_schema @ attr_str ''disposition'' (verdict_str (dr_disposition d))
     @ attr_str ''mode'' (issued_mode d)
     @ attr_str ''grant'' (if dr_disposition d = OneMoreCycle then ''true'' else ''false'')"

definition record_prose :: "disposition_record \<Rightarrow> string" where
  "record_prose d = [nl, nl] @ ''## gc_review_cap_disposition '' @ em_dash @ '' issue #'' @ show_int (dr_issue d)
     @ '' ('' @ dr_reviewer d @ '', cycle '' @ show_int (dr_cycle d) @ '' of '' @ show_int (dr_cap d) @ '')''
     @ [nl, nl] @ ''**Disposition:** '' @ verdict_str (dr_disposition d) @ ''  '' @ [nl]
     @ ''**Auto-override grant #:** '' @ (case dr_grant d of Some g \<Rightarrow> show_int g | None \<Rightarrow> ''n/a'') @ ''  '' @ [nl]
     @ ''**Rationale:** '' @ dr_rationale d @ [nl, nl]
     @ ''Posted by the MCP server to record the review-cap auto-disposition. Do not edit or delete '' @ em_dash
     @ '' the cycle wrappers read this marker to verify an over-cap auto-grant before running a cycle.'' @ [nl, nl]"

definition buildReviewAutoDispositionRecord :: "disposition_record \<Rightarrow> string" where
  "buildReviewAutoDispositionRecord d =
     ''<!-- gc:review-auto-disposition '' @ record_attrs d @ '' -->'' @ record_prose d
     @ ''<!-- gc:review-auto-disposition-data '' @ stringify (record_data d) @ '' -->''"

section \<open>Granting an over-cap cycle\<close>

definition effectiveReviewerCap :: "js \<Rightarrow> string \<Rightarrow> int option" where
  "effectiveReviewerCap workflow reviewer =
     (if reviewer \<noteq> ''codex'' then None
      else Some (int_or codex_review_prepush_hard_cap (fld (fld workflow ''codex_review'') ''pre_push_cap'')))"

definition evaluateAutoDispositionGrant ::
  "js \<Rightarrow> string option \<Rightarrow> comment list \<Rightarrow> int \<Rightarrow> string \<Rightarrow> int \<Rightarrow> int option \<Rightarrow> string + nat" where
  "evaluateAutoDispositionGrant config login authored n reviewer cyclesRun effectiveCap =
     (if fld config ''enabled'' \<noteq> JBool True then Inl ''review_disposition_disabled''
      else if fld config ''mode'' \<noteq> JStr ''authoritative'' then Inl ''review_disposition_mode_not_authoritative''
      else case login of
        None \<Rightarrow> Inl ''trusted_poster_unresolved''
      | Some me \<Rightarrow>
          if trim me = [] then Inl ''trusted_poster_unresolved''
          else case effectiveCap of
            None \<Rightarrow> Inl ''effective_cap_unresolved''
          | Some cap \<Rightarrow>
              if cap \<le> 0 then Inl ''effective_cap_unresolved''
              else
                (let maxAuto = int_or 1 (fld config ''max_auto_overrides'');
                     trusted = map c_body (filter (\<lambda>c. c_author c = Some me) authored);
                     (markers, grants) = parseReviewAutoDispositionMarkers trusted n (Some reviewer);
                     relevant = filter (\<lambda>m. ad_reviewer m = Some reviewer \<and> ad_issue m = n) markers
                 in if relevant = [] then Inl ''no_auto_disposition_grant''
                    else let latest = last relevant
                    in if ad_disposition latest \<noteq> Some ''one_more_cycle'' then Inl ''latest_disposition_not_one_more_cycle''
                       else if fld (ad_data latest) ''mode'' \<noteq> JStr ''authoritative'' then Inl ''grant_not_authoritative_mode''
                       else if int grants > maxAuto then Inl ''auto_override_ceiling_exceeded''
                       else case as_int (fld (ad_data latest) ''cap'') of
                         None \<Rightarrow> Inl ''grant_missing_cap_boundary''
                       | Some boundary \<Rightarrow>
                           if boundary \<le> 0 then Inl ''grant_missing_cap_boundary''
                           else if boundary \<noteq> cap then Inl ''grant_cap_boundary_mismatch''
                           else if max 0 (cyclesRun - boundary) \<ge> int grants then Inl ''auto_grant_already_consumed''
                           else Inr grants))"

section \<open>The two operations\<close>

text \<open>\<open>RESERVED_MARKER_PREFIX_RE\<close> anywhere in the text, its tag in any case.\<close>

definition reserved_at :: "unit matcher" where
  "reserved_at s = do { r \<leftarrow> lit ''<!--'' s; t \<leftarrow> lit ''gc:'' (lower (ws0 r)); Some ((), t) }"

definition rejectReservedMarkerSequence :: "string \<Rightarrow> bool" where
  "rejectReservedMarkerSequence txt \<longleftrightarrow> find_all reserved_at txt \<noteq> []"

definition github_issue_comment_body_max :: nat where "github_issue_comment_body_max = 65535"

text \<open>
  What surrounds the call: whether the checkout is the launch workspace, the configuration context
  (\<open>None\<close> where reading it throws), the thread (\<open>None\<close> where reading it throws), the diff, the
  judge's standard output and the outcome of the post (its standard output).
\<close>

record disposition_env =
  de_authorized :: bool
  de_context :: "js option"
  de_bodies :: "string list option"
  de_manifest :: "string option"
  de_diff_mode :: js
  de_surfaces :: "string list \<Rightarrow> string list option"
  de_judge :: "js \<Rightarrow> string option"
  de_sensitive :: "string \<Rightarrow> bool"
  de_post :: "string \<Rightarrow> string option"

record disposition_request =
  dq_repo_path :: js
  dq_issue :: js
  dq_reviewer :: js
  dq_cycle :: js
  dq_cap :: js
  dq_findings :: js
  dq_judge_verdict :: js

record disposition_done =
  dd_disposition :: verdict
  dd_next_action :: string
  dd_mode :: string
  dd_cap :: int
  dd_rationale :: string
  dd_decided_by :: string
  dd_risk :: int
  dd_snapshot :: js
  dd_grant :: "int option"
  dd_url :: "string option"

datatype disposition_result =
    DSkipped
  | DThrew
  | DRefused string "verdict option" "string option"
  | DRecorded disposition_done

definition empty_disposition_config :: js where
  "empty_disposition_config = JObj [(''enabled'', JBool False), (''mode'', JStr ''shadow''),
     (''max_auto_overrides'', JInt 1), (''judge'', JObj [(''enabled'', JBool False), (''model'', JNull)])]"

definition disposition_config :: "js option \<Rightarrow> js" where
  "disposition_config ctx =
     (let c = (case ctx of None \<Rightarrow> JNull | Some v \<Rightarrow> fld (fld v ''workflow'') ''review_disposition'')
      in if is_object c then c else empty_disposition_config)"

definition context_workflow :: "js option \<Rightarrow> js" where
  "context_workflow ctx = (case ctx of None \<Rightarrow> JNull | Some v \<Rightarrow> fld v ''workflow'')"

text \<open>The gray zone: the caller's verdict, or the judge's, or the safe default.\<close>

definition resolve_judge :: "js \<Rightarrow> (js \<Rightarrow> string option) \<Rightarrow> js \<Rightarrow> js \<Rightarrow> scored \<Rightarrow> scored" where
  "resolve_judge config judge supplied snapshot s =
     (if sd_decided_by s \<noteq> ''judge_needed'' then s
      else if fld (fld config ''judge'') ''enabled'' = JBool True then
        (let v = (if nullish supplied
                  then (case judge snapshot of None \<Rightarrow> JNull | Some out \<Rightarrow> parseDispositionJudgeOutput out)
                  else supplied)
         in case (case fld v ''disposition'' of JStr d \<Rightarrow> verdict_of d | _ \<Rightarrow> None) of
              Some d \<Rightarrow> \<lparr>sd_disposition = d, sd_next_action = disposition_next_action d,
                sd_rationale = (case fld v ''rationale'' of
                    JStr r \<Rightarrow> if trim r = [] then sd_rationale s else r | _ \<Rightarrow> sd_rationale s),
                sd_decided_by = ''judge'', sd_risk = sd_risk s\<rparr>
            | None \<Rightarrow> \<lparr>sd_disposition = Escalate, sd_next_action = disposition_next_action Escalate,
                sd_rationale = ''judge produced no usable verdict; safe default is escalate'',
                sd_decided_by = ''judge'', sd_risk = sd_risk s\<rparr>)
      else s\<lparr>sd_disposition := Escalate, sd_next_action := disposition_next_action Escalate,
             sd_decided_by := ''judge_needed''\<rparr>)"

text \<open>The ceiling again: no verdict mints a grant beyond it.\<close>

definition clamp_ceiling :: "int \<Rightarrow> int \<Rightarrow> js \<Rightarrow> scored \<Rightarrow> scored \<times> int option" where
  "clamp_ceiling prior maxAuto snapshot s =
     (if sd_disposition s \<noteq> OneMoreCycle then (s, None)
      else if prior \<ge> maxAuto then
        (if isHighRiskSnapshot snapshot
         then mk_scored (sd_risk s) Escalate ''ceiling'' ''auto-override ceiling reached; escalating to a human''
         else mk_scored (sd_risk s) Proceed ''ceiling'' ''auto-override ceiling reached; residual risk low, proceeding'', None)
      else (s, Some (prior + 1)))"

text \<open>Guarding and posting the record; the second component is the body that was posted.\<close>

definition publish_disposition ::
  "disposition_env \<Rightarrow> int \<Rightarrow> int \<Rightarrow> int \<Rightarrow> string \<Rightarrow> js \<Rightarrow> scored \<Rightarrow> int option \<Rightarrow> disposition_result \<times> string option" where
  "publish_disposition env n cyclesRun cap mode snapshot s grant =
     (let next = (if mode = ''authoritative'' then sd_next_action s else disposition_next_action Escalate);
          refused = (\<lambda>e na. (DRefused e (Some (sd_disposition s)) (Some na), None))
      in if rejectReservedMarkerSequence (sd_rationale s) then
           refused ''disposition_record_reserved_marker'' ''remove_reserved_marker_prefix_and_retry''
         else
           (let body = buildReviewAutoDispositionRecord
                  \<lparr>dr_issue = n, dr_reviewer = ''codex'', dr_cycle = cyclesRun, dr_cap = cap,
                   dr_mode = mode, dr_disposition = sd_disposition s,
                   dr_rationale = sd_rationale s, dr_snapshot = snapshot, dr_grant = grant\<rparr>
            in if de_sensitive env body then
                 refused ''disposition_record_body_rejected'' ''scrub_secrets_and_retry''
               else if length body > github_issue_comment_body_max then
                 refused ''disposition_record_body_too_large'' ''reduce_record_size_and_retry''
               else (case de_post env body of
                   None \<Rightarrow> refused ''disposition_record_post_failed'' next
                 | Some out \<Rightarrow>
                     (DRecorded \<lparr>dd_disposition = sd_disposition s, dd_next_action = next,
                        dd_mode = mode, dd_cap = cap, dd_rationale = sd_rationale s,
                        dd_decided_by = sd_decided_by s, dd_risk = sd_risk s,
                        dd_snapshot = snapshot, dd_grant = grant,
                        dd_url = (case json_parse out of None \<Rightarrow> None
                                  | Some r \<Rightarrow> js_str (fld r ''html_url''))\<rparr>,
                      Some body))))"

definition runReviewCapDisposition ::
  "disposition_env \<Rightarrow> disposition_request \<Rightarrow> disposition_result \<times> string option" where
  "runReviewCapDisposition env q =
     (let invalid = (DRefused ''review_cap_disposition_input_invalid'' None None, None)
      in if \<not> (is_string (dq_repo_path q) \<and> dq_repo_path q \<noteq> JStr []) then invalid
         else if \<not> is_pos_int (dq_issue q) then invalid
         else if dq_reviewer q \<noteq> JStr ''codex'' then invalid
         else if \<not> is_pos_int (dq_cycle q) then invalid
         else if \<not> is_pos_int (dq_cap q) then invalid
         else if \<not> de_authorized env then
           (DRefused ''review_cap_disposition_repo_not_authorized'' None
              (Some ''run_from_the_mcp_launch_workspace_and_retry''), None)
         else
           (let config = disposition_config (de_context env); n = int_or 0 (dq_issue q)
            in if fld config ''enabled'' \<noteq> JBool True then (DSkipped, None)
               else
                 (let maxAuto = int_or 1 (fld config ''max_auto_overrides'');
                      mode = (if fld config ''mode'' = JStr ''authoritative'' then ''authoritative'' else ''shadow'');
                      cap = the (effectiveReviewerCap (context_workflow (de_context env)) ''codex'')
                  in case de_bodies env of
                       None \<Rightarrow> (DThrew, None)
                     | Some bodies \<Rightarrow>
                         (let cyclesRun = int (parseCodexReviewPrePushCycleMarkers bodies (nat n))
                          in if cyclesRun < cap then
                               (DRefused ''disposition_before_cap_boundary'' None (Some ''run_remaining_in_cap_cycles_first''), None)
                             else
                               (let prior = max 0 (cyclesRun - cap);
                                    paths = parseChangedPathsFromManifest (de_manifest env)
                                in case collectDispositionSignals (de_surfaces env) (JStr ''codex'') (dq_findings q)
                                          (de_manifest env) paths prior (de_diff_mode env) of
                                     None \<Rightarrow> (DThrew, None)
                                   | Some snapshot \<Rightarrow>
                                       (let judged = resolve_judge config (de_judge env) (dq_judge_verdict q) snapshot
                                                       (scoreDisposition snapshot config)
                                        in case clamp_ceiling prior maxAuto snapshot judged of
                                             (s, grant) \<Rightarrow> publish_disposition env n cyclesRun cap mode snapshot s grant))))))"

text \<open>Verification: what it reads, and the decision; \<open>None\<close> where a read throws.\<close>

datatype grant_result = GInvalid | GUnauthorizedRepo | GDecided "string + nat"

definition verifyAutoDispositionGrant ::
  "bool \<Rightarrow> js option \<Rightarrow> string option \<Rightarrow> comment list \<Rightarrow> js \<Rightarrow> js \<Rightarrow> js \<Rightarrow> grant_result" where
  "verifyAutoDispositionGrant authorized ctx login authored repo_path issue reviewer =
     (if \<not> (is_string repo_path \<and> repo_path \<noteq> JStr []) \<or> \<not> is_pos_int issue \<or> reviewer \<noteq> JStr ''codex'' then GInvalid
      else if \<not> authorized then GUnauthorizedRepo
      else
        (let config = (case ctx of None \<Rightarrow> JNull | Some v \<Rightarrow> fld (fld v ''workflow'') ''review_disposition'')
         in if fld config ''enabled'' \<noteq> JBool True then GDecided (Inl ''review_disposition_disabled'')
            else if fld config ''mode'' \<noteq> JStr ''authoritative'' then GDecided (Inl ''review_disposition_mode_not_authoritative'')
            else
              (let n = int_or 0 issue;
                   cyclesRun = int (parseCodexReviewPrePushCycleMarkers (map c_body authored) (nat n))
               in GDecided (evaluateAutoDispositionGrant config login authored n ''codex'' cyclesRun
                    (effectiveReviewerCap (context_workflow ctx) ''codex'')))))"

section \<open>What a grant rests on\<close>

lemma grant_facts:
  assumes "evaluateAutoDispositionGrant config login authored n rv runs cap = Inr g"
  obtains me k m where "fld config ''enabled'' = JBool True" "fld config ''mode'' = JStr ''authoritative''"
    "login = Some me" "cap = Some k" "0 < k" "int g \<le> int_or 1 (fld config ''max_auto_overrides'')"
    "max 0 (runs - k) < int g"
    "m \<in> set (fst (parseReviewAutoDispositionMarkers
           (map c_body (filter (\<lambda>c. c_author c = Some me) authored)) n (Some rv)))"
    "ad_disposition m = Some ''one_more_cycle''" "fld (ad_data m) ''mode'' = JStr ''authoritative''"
    "fld (ad_data m) ''cap'' = JInt k"
proof -
  have e: "fld config ''enabled'' = JBool True" "fld config ''mode'' = JStr ''authoritative''"
    using assms by (simp_all add: evaluateAutoDispositionGrant_def split: if_splits)
  obtain me where me: "login = Some me" "trim me \<noteq> []"
    using assms by (auto simp: evaluateAutoDispositionGrant_def split: if_splits option.splits)
  obtain k where k: "cap = Some k" "0 < k"
    using assms e me by (auto simp: evaluateAutoDispositionGrant_def split: if_splits option.splits)
  let ?p = "parseReviewAutoDispositionMarkers (map c_body (filter (\<lambda>c. c_author c = Some me) authored)) n (Some rv)"
  let ?r = "filter (\<lambda>m. ad_reviewer m = Some rv \<and> ad_issue m = n) (fst ?p)"
  have b: "?r \<noteq> [] \<and> ad_disposition (last ?r) = Some ''one_more_cycle''
    \<and> fld (ad_data (last ?r)) ''mode'' = JStr ''authoritative''
    \<and> int (snd ?p) \<le> int_or 1 (fld config ''max_auto_overrides'')
    \<and> fld (ad_data (last ?r)) ''cap'' = JInt k \<and> \<not> int (snd ?p) \<le> max 0 (runs - k) \<and> g = snd ?p"
    using assms e me k
    by (simp add: evaluateAutoDispositionGrant_def Let_def split_beta split: if_splits option.splits)
  have "last ?r \<in> set (fst ?p)" using b last_in_set [of ?r] by simp
  then show thesis using that [OF e me(1) k, of "last ?r"] b by (simp add: not_le)
qed

definition cycles_on :: "comment list \<Rightarrow> int \<Rightarrow> int" where
  "cycles_on thread n = int (parseCodexReviewPrePushCycleMarkers (map c_body thread) (nat n))"

text \<open>
  One event on the thread: any other comment, or a request to run an over-cap cycle on an automatic
  grant, which posts the marker of the cycle when the grant holds.
\<close>

definition auto_round ::
  "js \<Rightarrow> string option \<Rightarrow> int option \<Rightarrow> int \<Rightarrow> comment list \<Rightarrow> comment + cycle_marker \<Rightarrow> comment list" where
  "auto_round config login cap n thread ev =
     (case ev of
        Inl c \<Rightarrow> thread @ [c]
      | Inr m \<Rightarrow>
          (case evaluateAutoDispositionGrant config login thread n ''codex'' (cycles_on thread n) cap of
             Inr _ \<Rightarrow> thread @ [\<lparr>c_id = None, c_body = buildCodexReviewPrePushCycleMarker m,
                 c_author = login, c_association = None, c_author_type = None, c_created_at = None\<rparr>]
           | Inl _ \<Rightarrow> thread))"

lemma cycles_on_snoc:
  "cycles_on (thread @ [c]) n = cycles_on thread n + int (length (parseCodexReviewPrePushCycleMarkerEntries (c_body c) (nat n)))"
  by (simp add: cycles_on_def prepush_count_append)

lemma auto_round_bounded:
  assumes "case ev of Inl c \<Rightarrow> parseCodexReviewPrePushCycleMarkerEntries (c_body c) (nat n) = []
      | Inr m \<Rightarrow> plain_marker m"
    and "cycles_on thread n \<le> k + int_or 1 (fld config ''max_auto_overrides'')"
  shows "cycles_on (auto_round config login (Some k) n thread ev) n \<le> k + int_or 1 (fld config ''max_auto_overrides'')"
proof (cases ev)
  case (Inl c)
  then show ?thesis using assms by (simp add: auto_round_def cycles_on_snoc)
next
  case (Inr m)
  show ?thesis
  proof (cases "evaluateAutoDispositionGrant config login thread n ''codex'' (cycles_on thread n) (Some k)")
    case (Inl e)
    then show ?thesis using assms Inr by (simp add: auto_round_def)
  next
    case g: (Inr g)
    from g have "cycles_on thread n < k + int_or 1 (fld config ''max_auto_overrides'')"
      by (elim grant_facts) simp
    moreover have "length (parseCodexReviewPrePushCycleMarkerEntries (buildCodexReviewPrePushCycleMarker m) (nat n)) \<le> 1"
      using prepush_entries [of m "nat n"] assms(1) Inr by simp
    ultimately show ?thesis using Inr g by (simp add: auto_round_def cycles_on_snoc)
  qed
qed

text \<open>
  C15. An over-cap cycle is granted automatically only in an enabled, authoritative configuration,
  from a record by the server's own login whose own mode was authoritative and whose cap is the one
  enforced now, while fewer cycles beyond the cap have run than the configured maximum.
\<close>

theorem authorized_grant_sound:
  assumes "evaluateAutoDispositionGrant config login authored n rv runs cap = Inr g"
  shows "fld config ''enabled'' = JBool True \<and> fld config ''mode'' = JStr ''authoritative''
     \<and> (\<exists>me k c m. login = Some me \<and> cap = Some k \<and> 0 < k
          \<and> runs < k + int_or 1 (fld config ''max_auto_overrides'')
          \<and> c \<in> set authored \<and> c_author c = Some me \<and> m \<in> set (auto_markers_of n (Some rv) (c_body c))
          \<and> ad_disposition m = Some ''one_more_cycle'' \<and> fld (ad_data m) ''mode'' = JStr ''authoritative''
          \<and> fld (ad_data m) ''cap'' = JInt k)"
proof -
  from assms obtain me k m where f: "fld config ''enabled'' = JBool True" "fld config ''mode'' = JStr ''authoritative''"
    "login = Some me" "cap = Some k" "0 < k" "int g \<le> int_or 1 (fld config ''max_auto_overrides'')"
    "max 0 (runs - k) < int g"
    "m \<in> set (fst (parseReviewAutoDispositionMarkers
           (map c_body (filter (\<lambda>c. c_author c = Some me) authored)) n (Some rv)))"
    "ad_disposition m = Some ''one_more_cycle''" "fld (ad_data m) ''mode'' = JStr ''authoritative''"
    "fld (ad_data m) ''cap'' = JInt k" by (rule grant_facts)
  from f(8) obtain c where "c \<in> set authored" "c_author c = Some me" "m \<in> set (auto_markers_of n (Some rv) (c_body c))"
    by (auto simp: parseReviewAutoDispositionMarkers_def Let_def)
  moreover have "runs < k + int_or 1 (fld config ''max_auto_overrides'')" using f(6,7) by simp
  ultimately show ?thesis using f by blast
qed

text \<open>
  C16. Automatic grants never take an issue beyond its cap plus the configured maximum of cycles,
  whatever comments and records anybody posts in between.
\<close>

theorem auto_cycles_bounded:
  assumes "\<forall>ev \<in> set evs. case ev of
        Inl c \<Rightarrow> parseCodexReviewPrePushCycleMarkerEntries (c_body c) (nat n) = []
      | Inr m \<Rightarrow> plain_marker m"
    and "cycles_on thread n \<le> k + int_or 1 (fld config ''max_auto_overrides'')"
  shows "cycles_on (foldl (auto_round config login (Some k) n) thread evs) n
           \<le> k + int_or 1 (fld config ''max_auto_overrides'')"
  using assms(1)
proof (induction evs rule: rev_induct)
  case Nil
  then show ?case using assms(2) by simp
next
  case (snoc ev evs)
  then show ?case by (simp add: auto_round_bounded)
qed

lemma score_proceed:
  "sd_disposition (scoreDisposition snapshot config) = Proceed \<Longrightarrow> \<not> isHighRiskSnapshot snapshot"
  by (auto simp: scoreDisposition_def isHighRiskSnapshot_def mk_scored_def Let_def split: if_splits)

text \<open>
  Without a judge, a change with a security finding or on a high-risk surface never proceeds,
  and a change whose findings are unknown proceeds only past the ceiling.
\<close>

theorem score_never_launders:
  assumes "sd_disposition (scoreDisposition snapshot config) = Proceed"
  shows "\<not> isHighRiskSnapshot snapshot
     \<and> (fld (obj_or_empty (fld (obj_or_empty snapshot) ''findings'')) ''known'' = JBool False \<longrightarrow>
          sd_decided_by (scoreDisposition snapshot config) = ''ceiling'')"
  using assms score_proceed [OF assms]
  by (auto simp: scoreDisposition_def mk_scored_def Let_def split: if_splits)


section \<open>The record is read back\<close>

definition marker_part :: "disposition_record \<Rightarrow> string" where
  "marker_part d = ''<!-- gc:review-auto-disposition '' @ record_attrs d @ '' -->''"

definition data_part :: "disposition_record \<Rightarrow> string" where
  "data_part d = ''<!-- gc:review-auto-disposition-data '' @ stringify (record_data d) @ '' -->''"

text \<open>
  Records whose reviewer and snapshot are the server's own vocabulary, and whose rationale opens no
  marker: no quote, escape or angle bracket where the formats would trip over one.
\<close>

definition tame :: "disposition_record \<Rightarrow> bool" where
  "tame d \<longleftrightarrow> 0 \<le> dr_issue d \<and> list_all (\<lambda>c. c \<notin> {dq, bs, CHR ''<'', CHR ''>''}) (dr_reviewer d)
     \<and> CHR ''<'' \<notin> set (dr_rationale d) \<and> printable (dr_snapshot d)
     \<and> CHR ''<'' \<notin> set (stringify (record_data d)) \<and> CHR ''>'' \<notin> set (stringify (record_data d))"

lemma show_int_chars: "c \<in> set (show_int i) \<Longrightarrow> c = CHR ''-'' \<or> is_digit c"
  by (auto simp: show_int_def show_nat_digits split: if_splits)

lemma show_int_unquoted [simp]: "dq \<notin> set (show_int i)" "bs \<notin> set (show_int i)" "CHR ''<'' \<notin> set (show_int i)" "CHR ''>'' \<notin> set (show_int i)"
  using show_int_chars [of _ i] by (force simp: is_digit_def less_eq_char_def)+

lemma verdict_str_plain [simp]: "dq \<notin> set (verdict_str v)" "bs \<notin> set (verdict_str v)"
  "CHR ''<'' \<notin> set (verdict_str v)" "CHR ''>'' \<notin> set (verdict_str v)"
  by (cases v; simp)+

lemma tame_reviewer:
  "tame d \<Longrightarrow> dq \<notin> set (dr_reviewer d) \<and> bs \<notin> set (dr_reviewer d) \<and> CHR ''<'' \<notin> set (dr_reviewer d)
     \<and> CHR ''>'' \<notin> set (dr_reviewer d)"
  by (auto simp: tame_def list_all_iff)

lemma attrs_close: "tame d \<Longrightarrow> CHR ''>'' \<notin> set (record_attrs d)"
  using tame_reviewer [of d]
  by (simp add: record_attrs_def attr_str_def auto_disposition_schema_def issued_mode_def)

lemma prose_plain: "tame d \<Longrightarrow> CHR ''<'' \<notin> set (record_prose d)"
  using tame_reviewer [of d]
  by (simp add: record_prose_def tame_def em_dash_def split: option.splits)

lemma no_close: "CHR ''>'' \<notin> set t \<Longrightarrow> marker_close (t @ ''} -->'' @ s) = None"
proof (induction t)
  case Nil
  then show ?case by (simp add: marker_close_def ws0_def is_ws_def less_eq_char_def)
next
  case (Cons c t)
  show ?case
  proof (cases "is_ws c")
    case True
    then show ?thesis using Cons by (simp add: marker_close_def ws0_def)
  next
    case False
    have "lit ''-->'' (c # t @ ''} -->'' @ s) = None"
      using Cons.prems by (cases t; cases "tl t") auto
    then show ?thesis using False by (simp add: marker_close_def ws0_nonws)
  qed
qed

lemma to_brace_close_text:
  "CHR ''>'' \<notin> set t \<Longrightarrow> to_brace_close (t @ ''} -->'' @ s) = Some (t @ ''}'', s)"
proof (induction t)
  case Nil
  have "marker_close (CHR '' '' # CHR ''-'' # CHR ''-'' # CHR ''>'' # s) = Some s"
    using marker_close_build [of s] by simp
  then show ?case by simp
next
  case (Cons c t)
  then show ?case using no_close [of t s] by simp
qed

lemma record_data_text: "\<exists>t. stringify (record_data d) = CHR ''{'' # t @ ''}''"
  by (simp add: stringify_def record_data_def)

interpretation auto_marker_codec: marker_codec marker_part auto_marker "\<lambda>d. record_attrs d @ '' ''" tame
proof unfold_locales
  fix d s and r :: "string \<times> string"
  show "\<exists>t. marker_part d = CHR ''<'' # t" by (simp add: marker_part_def)
  show "auto_marker s = Some r \<Longrightarrow> \<exists>t. s = CHR ''<'' # t"
    unfolding auto_marker_def by (auto simp: bind_eq_Some_conv dest: marker_open_start)
  assume d: "tame d"
  have o: "marker_open ''gc:review-auto-disposition'' (''<!-- gc:review-auto-disposition '' @ t) = Some (CHR '' '' # t)" for t
    by (simp add: marker_open_def ws0_def is_ws_def less_eq_char_def)
  have w: "ws0 (record_attrs d @ t) = record_attrs d @ t" for t
    by (simp add: is_ws_def ws0_def record_attrs_def less_eq_char_def)
  show "auto_marker (marker_part d @ s) = Some (record_attrs d @ '' '', s)"
    unfolding auto_marker_def marker_part_def append_assoc o
    using until_close [OF attrs_close [OF d], of s] by (simp add: w del: append.simps until.simps)
qed

interpretation auto_data_codec: marker_codec data_part auto_data "\<lambda>d. stringify (record_data d)" tame
proof unfold_locales
  fix d s and r :: "string \<times> string"
  show "\<exists>t. data_part d = CHR ''<'' # t" by (simp add: data_part_def)
  show "auto_data s = Some r \<Longrightarrow> \<exists>t. s = CHR ''<'' # t"
    unfolding auto_data_def by (auto simp: bind_eq_Some_conv dest: marker_open_start)
  assume d: "tame d"
  obtain t where t: "stringify (record_data d) = CHR ''{'' # t @ ''}''" using record_data_text by blast
  have "CHR ''>'' \<notin> set (stringify (record_data d))" using d by (simp add: tame_def)
  with t have p: "CHR ''>'' \<notin> set t" by simp
  have o: "marker_open ''gc:review-auto-disposition-data'' (''<!-- gc:review-auto-disposition-data '' @ u) = Some (CHR '' '' # u)" for u
    by (simp add: marker_open_def ws0_def is_ws_def less_eq_char_def)
  have w: "ws0 (CHR ''{'' # u) = CHR ''{'' # u" for u
    by (simp add: is_ws_def ws0_def less_eq_char_def)
  have c: "to_brace_close (t @ CHR ''}'' # CHR '' '' # CHR ''-'' # CHR ''-'' # CHR ''>'' # s) = Some (t @ ''}'', s)"
    using to_brace_close_text [OF p, of s] by simp
  show "auto_data (data_part d @ s) = Some (stringify (record_data d), s)"
    unfolding auto_data_def data_part_def append_assoc o
    by (simp add: t w c del: to_brace_close.simps)
qed

lemma build_parts: "buildReviewAutoDispositionRecord d = marker_part d @ record_prose d @ data_part d"
  by (simp add: buildReviewAutoDispositionRecord_def marker_part_def data_part_def)

lemma data_tail: "\<exists>t. data_part d = CHR ''<'' # t \<and> (tame d \<longrightarrow> CHR ''<'' \<notin> set t)"
  by (simp add: data_part_def tame_def)

lemma marker_tail: "\<exists>t. marker_part d = CHR ''<'' # t \<and> (tame d \<longrightarrow> CHR ''<'' \<notin> set t)"
  using tame_reviewer [of d]
  by (simp add: marker_part_def record_attrs_def attr_str_def auto_disposition_schema_def issued_mode_def)

lemma auto_marker_data: "auto_marker (data_part d) = None"
  by (simp add: auto_marker_def data_part_def marker_open_def ws0_def ws1_def is_ws_def less_eq_char_def)

lemma auto_data_marker: "auto_data (marker_part d @ s) = None"
  by (simp add: auto_data_def marker_part_def marker_open_def ws0_def ws1_def is_ws_def less_eq_char_def)

lemma find_auto_marker:
  assumes "tame d"
  shows "find_all auto_marker (buildReviewAutoDispositionRecord d) = [record_attrs d @ '' '']"
proof -
  obtain t where t: "data_part d = CHR ''<'' # t" "CHR ''<'' \<notin> set t" using data_tail assms by blast
  have "find_all auto_marker (data_part d) = []"
    using auto_marker_data [of d] auto_marker_codec.find_none [OF t(2)] by (simp add: t(1))
  then show ?thesis
    by (simp add: build_parts auto_marker_codec.find_build [OF assms]
        auto_marker_codec.find_plain [OF prose_plain [OF assms]])
qed

lemma find_auto_data:
  assumes "tame d"
  shows "find_all auto_data (buildReviewAutoDispositionRecord d) = [stringify (record_data d)]"
proof -
  obtain t where t: "marker_part d = CHR ''<'' # t" "CHR ''<'' \<notin> set t" using marker_tail assms by blast
  have "find_all auto_data (marker_part d @ s) = find_all auto_data s" for s
    using auto_data_marker [of d s] auto_data_codec.find_plain [OF t(2)] by (simp add: t(1))
  then show ?thesis
    using auto_data_codec.find_build [OF assms, of "[]"]
    by (simp add: build_parts auto_data_codec.find_plain [OF prose_plain [OF assms]])
qed

lemma printable_record: "tame d \<Longrightarrow> printable (record_data d)"
  by (cases "dr_snapshot d")
    (auto simp: tame_def record_data_def coalesce_def nullish_def split: option.splits)

lemma data_blocks_build: "tame d \<Longrightarrow> data_blocks (buildReviewAutoDispositionRecord d) = [record_data d]"
  using json_roundtrip [OF printable_record [of d], of "\<lambda>_ _. []"]
  by (simp add: data_blocks_def find_auto_data stringify_def)

lemma json_raw_plain: "dq \<notin> set v \<Longrightarrow> bs \<notin> set v \<Longrightarrow> json_raw (v @ dq # s) = Some (v, dq # s)"
  by (induction v) auto

lemma marker_attr_build:
  assumes "nm \<noteq> []" and "\<forall>c \<in> set nm. word_char c" and "dq \<notin> set v" and "bs \<notin> set v"
  shows "find_all marker_attr (attr_str nm v @ s) = (nm, v) # find_all marker_attr s"
    and "find_all marker_attr (nm @ CHR ''='' # dq # v @ dq # s) = (nm, v) # find_all marker_attr s"
proof -
  have m: "marker_attr (nm @ CHR ''='' # dq # v @ dq # s) = Some ((nm, v), s)"
  proof -
    have "run word_char nonempty (nm @ CHR ''='' # dq # v @ dq # s) = Some (nm, CHR ''='' # dq # v @ dq # s)"
      using assms(1,2) by (intro run_append) (simp_all add: nonempty_def word_char_def is_digit_def is_lower_def is_upper_def less_eq_char_def)
    then show ?thesis by (simp add: marker_attr_def json_raw_plain assms(3,4))
  qed
  obtain c cs where nm: "nm = c # cs" using assms(1) by (cases nm) auto
  show 2: "find_all marker_attr (nm @ CHR ''='' # dq # v @ dq # s) = (nm, v) # find_all marker_attr s"
    using m by (simp add: nm)
  have "marker_attr (CHR '' '' # u) = None" for u
    by (simp add: marker_attr_def run_def nonempty_def word_char_def is_digit_def is_lower_def is_upper_def less_eq_char_def)
  then show "find_all marker_attr (attr_str nm v @ s) = (nm, v) # find_all marker_attr s"
    using 2 by (simp add: attr_str_def)
qed

lemma attrs_read:
  assumes "tame d"
  shows "parseMarkerAttrs (record_attrs d @ '' '') =
    [(''issue'', show_int (dr_issue d)), (''reviewer'', dr_reviewer d), (''schema'', auto_disposition_schema),
     (''disposition'', verdict_str (dr_disposition d)), (''mode'', issued_mode d),
     (''grant'', if dr_disposition d = OneMoreCycle then ''true'' else ''false'')]"
proof -
  have w: "\<forall>c \<in> set nm. word_char c" if "nm \<in> {''issue'', ''reviewer'', ''schema'', ''disposition'', ''mode'', ''grant''}" for nm
    using that by (auto simp: word_char_def is_digit_def is_lower_def is_upper_def less_eq_char_def)
  have end_: "find_all marker_attr '' '' = []"
    by (simp add: marker_attr_def run_def nonempty_def word_char_def is_digit_def is_lower_def is_upper_def less_eq_char_def)
  have m: "dq \<notin> set (issued_mode d)" "bs \<notin> set (issued_mode d)"
    "dq \<notin> set auto_disposition_schema" "bs \<notin> set auto_disposition_schema"
    by (simp_all add: issued_mode_def auto_disposition_schema_def)
  have i: "find_all marker_attr (''issue='' @ dq # show_int (dr_issue d) @ dq # s)
      = (''issue'', show_int (dr_issue d)) # find_all marker_attr s" for s
    using marker_attr_build(2) [of "''issue''" "show_int (dr_issue d)" s] w [of "''issue''"]
    by (simp del: find_all.simps)
  have b: "find_all marker_attr (attr_str nm v @ s) = (nm, v) # find_all marker_attr s"
    if "nm \<in> {''issue'', ''reviewer'', ''schema'', ''disposition'', ''mode'', ''grant''}" "dq \<notin> set v" "bs \<notin> set v" for nm v s
    using that(1) by (intro marker_attr_build(1) w that) auto
  have "find_all marker_attr (record_attrs d @ '' '') =
    [(''issue'', show_int (dr_issue d)), (''reviewer'', dr_reviewer d), (''schema'', auto_disposition_schema),
     (''disposition'', verdict_str (dr_disposition d)), (''mode'', issued_mode d),
     (''grant'', if dr_disposition d = OneMoreCycle then ''true'' else ''false'')]"
    unfolding record_attrs_def append_assoc append_Cons append_Nil i [unfolded append_Cons append_Nil]
    using tame_reviewer [OF assms]
    by (simp add: b m end_ del: append.simps find_all.simps)
  then show ?thesis by (simp add: parseMarkerAttrs_def jm_set_def)
qed

definition minted :: "disposition_record \<Rightarrow> auto_disposition" where
  "minted d = \<lparr>ad_issue = dr_issue d, ad_reviewer = Some (dr_reviewer d),
     ad_disposition = Some (verdict_str (dr_disposition d)), ad_grant = None, ad_data = record_data d\<rparr>"

lemma record_read:
  assumes "tame d"
  shows "auto_markers_of n (Some rv) (buildReviewAutoDispositionRecord d)
    = (if dr_issue d = n \<and> dr_reviewer d = rv then [minted d] else [])"
proof -
  have i: "parse_int (show_int (dr_issue d)) = Some (dr_issue d)"
    using assms by (simp add: tame_def show_int_def)
  have g: "parse_int ''true'' = None" "parse_int ''false'' = None"
    by (simp_all add: parse_int_def ws0_def is_ws_def is_digit_def less_eq_char_def)
  have "read_auto_marker n (Some rv) (record_attrs d @ '' '', record_data d)
      = (if dr_issue d = n \<and> dr_reviewer d = rv then Some (minted d) else None)"
    by (simp add: read_auto_marker_def attrs_read [OF assms] jm_get_def i g minted_def Let_def)
  then show ?thesis
    by (simp add: auto_markers_of_def find_auto_marker [OF assms] data_blocks_build [OF assms] map_filter_def)
qed

text \<open>
  The record of a disposition reads back, for its issue and reviewer, as one marker with the
  disposition it recorded and the data it was built from, the snapshot included; no other issue
  or reviewer sees it.
\<close>

theorem disposition_record_roundtrip:
  assumes "tame d"
  shows "parseReviewAutoDispositionMarkers [buildReviewAutoDispositionRecord d] n (Some rv)
    = (if dr_issue d = n \<and> dr_reviewer d = rv
       then ([minted d], if dr_disposition d = OneMoreCycle then 1 else 0) else ([], 0))"
  by (cases "dr_disposition d") (simp_all add: parseReviewAutoDispositionMarkers_def record_read [OF assms] minted_def)

text \<open>The markers the server's own login posted for an issue.\<close>

definition own_markers :: "string \<Rightarrow> int \<Rightarrow> comment list \<Rightarrow> auto_disposition list" where
  "own_markers me n thread =
     concat (map (auto_markers_of n (Some ''codex'') \<circ> c_body) (filter (\<lambda>c. c_author c = Some me) thread))"

text \<open>A grant as the run records it.\<close>

definition grant_record :: "int \<Rightarrow> int \<Rightarrow> disposition_record \<Rightarrow> bool" where
  "grant_record n k d \<longleftrightarrow> tame d \<and> dr_issue d = n \<and> dr_reviewer d = ''codex'' \<and> dr_cap d = k
     \<and> dr_disposition d = OneMoreCycle \<and> dr_mode d = ''authoritative''"

lemma own_markers_append: "own_markers me n (s @ t) = own_markers me n s @ own_markers me n t"
  by (simp add: own_markers_def)

lemma own_markers_grant:
  "grant_record n k d \<Longrightarrow> c_author c = Some me \<Longrightarrow> c_body c = buildReviewAutoDispositionRecord d \<Longrightarrow>
     own_markers me n (c # t) = minted d # own_markers me n t"
  by (simp add: own_markers_def grant_record_def record_read)

lemma parse_own:
  "parseReviewAutoDispositionMarkers (map c_body (filter (\<lambda>c. c_author c = Some me) thread)) n (Some ''codex'')
     = (own_markers me n thread, length (filter (\<lambda>m. ad_disposition m = Some ''one_more_cycle'') (own_markers me n thread)))"
  by (simp add: parseReviewAutoDispositionMarkers_def own_markers_def Let_def)

lemma own_markers_grants:
  assumes "\<forall>c \<in> set thread. c_author c = Some me \<longrightarrow>
      auto_markers_of n (Some ''codex'') (c_body c) = [] \<or> (\<exists>d. grant_record n k d \<and> c_body c = buildReviewAutoDispositionRecord d)"
    and "m \<in> set (own_markers me n thread)"
  shows "\<exists>d. grant_record n k d \<and> m = minted d"
proof -
  from assms(2) obtain c where c: "c \<in> set thread" "c_author c = Some me" "m \<in> set (auto_markers_of n (Some ''codex'') (c_body c))"
    by (auto simp: own_markers_def)
  with assms(1) obtain d where d: "grant_record n k d" "c_body c = buildReviewAutoDispositionRecord d" by fastforce
  then have "m = minted d" using c(3) by (auto simp: grant_record_def record_read split: if_splits)
  with d show ?thesis by blast
qed

lemma grant_decision:
  assumes cfg: "fld config ''enabled'' = JBool True" "fld config ''mode'' = JStr ''authoritative''"
    and me: "trim me \<noteq> []" and k: "0 < k"
    and own: "\<forall>m \<in> set (own_markers me n thread). \<exists>d. grant_record n k d \<and> m = minted d"
    and ne: "own_markers me n thread \<noteq> []"
  shows "evaluateAutoDispositionGrant config (Some me) thread n ''codex'' runs (Some k) =
    (let g = length (own_markers me n thread)
     in if int g > int_or 1 (fld config ''max_auto_overrides'') then Inl ''auto_override_ceiling_exceeded''
        else if max 0 (runs - k) \<ge> int g then Inl ''auto_grant_already_consumed'' else Inr g)"
proof -
  let ?ms = "own_markers me n thread"
  have each: "ad_disposition m = Some ''one_more_cycle'' \<and> ad_reviewer m = Some ''codex'' \<and> ad_issue m = n
      \<and> fld (ad_data m) ''mode'' = JStr ''authoritative'' \<and> fld (ad_data m) ''cap'' = JInt k" if "m \<in> set ?ms" for m
    using own that by (auto simp: grant_record_def minted_def record_data_def issued_mode_def)
  have "filter (\<lambda>m. ad_reviewer m = Some ''codex'' \<and> ad_issue m = n) ?ms = ?ms"
    using each by (simp add: filter_id_conv)
  moreover have "filter (\<lambda>m. ad_disposition m = Some ''one_more_cycle'') ?ms = ?ms"
    using each by (simp add: filter_id_conv)
  moreover have "last ?ms \<in> set ?ms" using ne by simp
  ultimately show ?thesis
    using each [of "last ?ms"] cfg me k ne
    by (simp add: evaluateAutoDispositionGrant_def parse_own Let_def)
qed

text \<open>
  A grant the run recorded is good for exactly one cycle: where it is the server's only record
  for the issue, it authorizes the next cycle while no more cycles than its cap have run, and is
  consumed by the cycle that follows.
\<close>

theorem minted_grant_single_use:
  assumes "fld config ''enabled'' = JBool True" and "fld config ''mode'' = JStr ''authoritative''"
    and "1 \<le> int_or 1 (fld config ''max_auto_overrides'')" and "trim me \<noteq> []" and "0 < k"
    and "grant_record n k d" and "c_author c = Some me" and "c_body c = buildReviewAutoDispositionRecord d"
    and "own_markers me n pre = []" and "own_markers me n post = []"
  shows "evaluateAutoDispositionGrant config (Some me) (pre @ c # post) n ''codex'' runs (Some k)
    = (if runs \<le> k then Inr 1 else Inl ''auto_grant_already_consumed'')"
proof -
  have m: "own_markers me n (pre @ c # post) = [minted d]"
    by (simp add: own_markers_append own_markers_grant [OF assms(6-8)] assms(9,10))
  have "\<forall>m \<in> set (own_markers me n (pre @ c # post)). \<exists>d. grant_record n k d \<and> m = minted d"
    using assms(6) by (auto simp: m)
  from grant_decision [OF assms(1,2,4,5) this] show ?thesis
    using assms(3) by (auto simp: m)
qed

text \<open>
  Recording the disposition twice destroys the grant: the run derives its count from the
  cycles that ran, so a second call before the first grant is used records a second one, and then
  no cycle is authorized any more under a maximum of one.
\<close>

theorem repeated_mint_revokes:
  assumes "fld config ''enabled'' = JBool True" and "fld config ''mode'' = JStr ''authoritative''"
    and "int_or 1 (fld config ''max_auto_overrides'') = 1" and "trim me \<noteq> []" and "0 < k"
    and "grant_record n k d" and "c_author c = Some me" and "c_body c = buildReviewAutoDispositionRecord d"
    and "grant_record n k d'" and "c_author c' = Some me" and "c_body c' = buildReviewAutoDispositionRecord d'"
    and "own_markers me n pre = []" and "own_markers me n post = []" and "own_markers me n between = []"
  shows "evaluateAutoDispositionGrant config (Some me) (pre @ c # between @ c' # post) n ''codex'' runs (Some k)
    = Inl ''auto_override_ceiling_exceeded''"
proof -
  have m: "own_markers me n (pre @ c # between @ c' # post) = [minted d, minted d']"
    by (simp add: own_markers_append own_markers_grant [OF assms(6-8)] own_markers_grant [OF assms(9-11)] assms(12-14))
  have "\<forall>m \<in> set (own_markers me n (pre @ c # between @ c' # post)). \<exists>d. grant_record n k d \<and> m = minted d"
    using assms(6,9) by (auto simp: m)
  from grant_decision [OF assms(1,2,4,5) this] show ?thesis
    using assms(3) by (simp add: m)
qed

lemma clamp_spec:
  "clamp_ceiling prior mx snapshot s = (s', g) \<Longrightarrow>
     (sd_disposition s' = OneMoreCycle \<longrightarrow> g = Some (prior + 1) \<and> prior < mx)
     \<and> (sd_disposition s' \<noteq> OneMoreCycle \<longrightarrow> g = None)"
  by (auto simp: clamp_ceiling_def mk_scored_def split: if_splits)

text \<open>
  C17. A disposition is recorded only at or beyond the cap boundary of an enabled configuration. A
  recorded \<open>one_more_cycle\<close>, whoever decided it, carries the number of the next over-cap cycle,
  which is within the configured maximum; no other disposition carries a grant. Outside authoritative
  mode the returned action always stops for a human.
\<close>

theorem run_mints_within_ceiling:
  assumes "runReviewCapDisposition env q = (DRecorded d, posted)"
  shows "\<exists>n bodies config. dq_issue q = JInt n \<and> 0 < n \<and> de_bodies env = Some bodies
     \<and> config = disposition_config (de_context env) \<and> fld config ''enabled'' = JBool True
     \<and> effectiveReviewerCap (context_workflow (de_context env)) ''codex'' = Some (dd_cap d)
     \<and> dd_cap d \<le> int (parseCodexReviewPrePushCycleMarkers bodies (nat n))
     \<and> (dd_disposition d = OneMoreCycle \<longrightarrow>
          dd_grant d = Some (int (parseCodexReviewPrePushCycleMarkers bodies (nat n)) - dd_cap d + 1)
          \<and> int (parseCodexReviewPrePushCycleMarkers bodies (nat n)) - dd_cap d + 1
              \<le> int_or 1 (fld config ''max_auto_overrides''))
     \<and> (dd_disposition d \<noteq> OneMoreCycle \<longrightarrow> dd_grant d = None)
     \<and> (fld config ''mode'' \<noteq> JStr ''authoritative'' \<longrightarrow> dd_next_action d = ''ask_over_cap_or_proceed'')"
proof -
  note run = assms [unfolded runReviewCapDisposition_def Let_def]
  have q: "is_pos_int (dq_issue q)" "de_authorized env"
    "fld (disposition_config (de_context env)) ''enabled'' = JBool True"
    using run by (simp_all split: if_splits)
  from q(1) obtain n where n: "dq_issue q = JInt n" "0 < n" by (auto simp: is_pos_int_iff)
  obtain bodies where b: "de_bodies env = Some bodies"
    using run by (auto split: if_splits option.splits)
  let ?k = "the (effectiveReviewerCap (context_workflow (de_context env)) ''codex'')"
  let ?r = "int (parseCodexReviewPrePushCycleMarkers bodies (nat n))"
  have i: "int_or 0 (JInt n) = n" by (simp add: int_or_def)
  define prior where "prior = max 0 (?r - ?k)"
  note run' = run [unfolded b n(1) i option.case, folded prior_def]
  have r: "\<not> ?r < ?k" using run' by (auto split: if_splits)
  then have prior: "prior = ?r - ?k" by (simp add: prior_def)
  obtain snapshot where s: "collectDispositionSignals (de_surfaces env) (JStr ''codex'') (dq_findings q)
      (de_manifest env) (parseChangedPathsFromManifest (de_manifest env)) prior (de_diff_mode env) = Some snapshot"
    using run' by (auto split: if_splits option.splits)
  let ?c = "clamp_ceiling prior (int_or 1 (fld (disposition_config (de_context env)) ''max_auto_overrides''))
      snapshot (resolve_judge (disposition_config (de_context env)) (de_judge env) (dq_judge_verdict q) snapshot
        (scoreDisposition snapshot (disposition_config (de_context env))))"
  obtain sc g where c: "?c = (sc, g)" by (cases ?c)
  have d: "dd_disposition d = sd_disposition sc \<and> dd_grant d = g \<and> dd_cap d = ?k
     \<and> (fld (disposition_config (de_context env)) ''mode'' \<noteq> JStr ''authoritative'' \<longrightarrow>
          dd_next_action d = disposition_next_action Escalate)"
    using run' by (auto simp: s c publish_disposition_def Let_def split: if_splits option.splits)
  have e: "effectiveReviewerCap (context_workflow (de_context env)) ''codex'' = Some ?k"
    by (simp add: effectiveReviewerCap_def)
  show ?thesis using q n b r d e clamp_spec [OF c] by (auto simp: prior)
qed

section \<open>Witnesses\<close>

definition authoritative_config :: js where
  "authoritative_config = JObj [(''enabled'', JBool True), (''mode'', JStr ''authoritative'')]"

definition first_grant :: disposition_record where
  "first_grant = \<lparr>dr_issue = 7, dr_reviewer = ''codex'', dr_cycle = 1, dr_cap = 1, dr_mode = ''authoritative'',
     dr_disposition = OneMoreCycle, dr_rationale = ''risky'', dr_snapshot = JObj [(''surfaces'', JArr [JStr ''migration''])],
     dr_grant = Some 1\<rparr>"

lemma first_grant_record: "grant_record 7 1 first_grant"
  by code_simp

abbreviation grant_comment :: comment where
  "grant_comment \<equiv> said ''gc-bot'' 5 (buildReviewAutoDispositionRecord first_grant)"

lemma config_fields: "fld authoritative_config ''enabled'' = JBool True"
  "fld authoritative_config ''mode'' = JStr ''authoritative''"
  "int_or 1 (fld authoritative_config ''max_auto_overrides'') = 1"
  by (simp_all add: authoritative_config_def int_or_def as_int_def)

lemma bot_login: "trim ''gc-bot'' \<noteq> []"
  by code_simp

lemma no_own: "own_markers me n [] = []"
  by (simp add: own_markers_def)

lemma minted_grant_single_use_witness:
  "evaluateAutoDispositionGrant authoritative_config (Some ''gc-bot'') [grant_comment] 7 ''codex'' 1 (Some 1) = Inr 1"
  using minted_grant_single_use [OF config_fields(1,2) _ bot_login _ first_grant_record, of grant_comment "[]" "[]" 1]
  by (simp add: config_fields no_own)

lemma repeated_mint_revokes_witness:
  "evaluateAutoDispositionGrant authoritative_config (Some ''gc-bot'') [grant_comment, grant_comment] 7 ''codex'' 1 (Some 1)
     = Inl ''auto_override_ceiling_exceeded''"
  using repeated_mint_revokes [OF config_fields bot_login _ first_grant_record _ _ first_grant_record,
      of grant_comment grant_comment "[]" "[]" "[]" 1]
  by (simp add: no_own)

lemma disposition_record_roundtrip_witness:
  "parseReviewAutoDispositionMarkers [buildReviewAutoDispositionRecord first_grant] 7 (Some ''codex'') = ([minted first_grant], 1)"
proof -
  have t: "tame first_grant" using first_grant_record by (simp add: grant_record_def)
  show ?thesis
    by (subst disposition_record_roundtrip [OF t]) (simp add: first_grant_def)
qed

lemma grant_holds:
  "evaluateAutoDispositionGrant authoritative_config (Some ''gc-bot'') [grant_comment] 7 ''codex'' 1 (Some 1) = Inr 1"
proof -
  have ms: "own_markers ''gc-bot'' 7 [grant_comment] = [minted first_grant]"
    using own_markers_grant [OF first_grant_record, of grant_comment "''gc-bot''" "[]"] by (simp add: no_own)
  show ?thesis
    using grant_decision [OF config_fields(1,2) bot_login, of 1 7 "[grant_comment]" 1] first_grant_record
    by (auto simp: ms config_fields)
qed

lemma authorized_grant_sound_witness:
  "\<exists>k. (1::int) < k + int_or 1 (fld authoritative_config ''max_auto_overrides'')"
  using authorized_grant_sound [OF grant_holds] by blast

definition over_cap_marker :: cycle_marker where
  "over_cap_marker = \<lparr>cm_subject = 7, cm_branch = ''7-fix'', cm_cycle = 2, cm_override = True,
     cm_reason = Some ''auto'', cm_cap = 1, cm_publication = None\<rparr>"

lemma auto_cycles_bounded_witness:
  "cycles_on (foldl (auto_round authoritative_config (Some ''gc-bot'') (Some 1) 7) []
     [Inr over_cap_marker, Inr over_cap_marker]) 7 \<le> 2"
proof -
  have "plain_marker over_cap_marker" by (simp add: plain_marker_def over_cap_marker_def plain_def)
  then show ?thesis
    using auto_cycles_bounded [of "[Inr over_cap_marker, Inr over_cap_marker]" 7 "[]" 1 authoritative_config "Some ''gc-bot''"]
    by (simp add: config_fields cycles_on_def parseCodexReviewPrePushCycleMarkers_def)
qed

lemma score_never_launders_witness:
  "\<not> isHighRiskSnapshot (JObj [(''diff'', JObj [(''lines_added'', JInt 3)])])"
proof -
  have "sd_disposition (scoreDisposition (JObj [(''diff'', JObj [(''lines_added'', JInt 3)])]) authoritative_config) = Proceed"
    by code_simp
  from score_never_launders [OF this] show ?thesis by blast
qed

definition boundary_env :: disposition_env where
  "boundary_env = \<lparr>de_authorized = True,
     de_context = Some (JObj [(''workflow'', JObj [(''review_disposition'', authoritative_config)])]),
     de_bodies = Some [buildCodexReviewPrePushCycleMarker over_cap_marker],
     de_manifest = Some (''12'' @ [CHR 0x09] @ ''3'' @ [CHR 0x09] @ ''db/V1.sql''), de_diff_mode = JStr ''inline'',
     de_surfaces = (\<lambda>_. Some [''migration'']), de_judge = (\<lambda>_. None), de_sensitive = (\<lambda>_. False),
     de_post = (\<lambda>_. Some ''{}'')\<rparr>"

definition boundary_request :: disposition_request where
  "boundary_request = \<lparr>dq_repo_path = JStr ''/work'', dq_issue = JInt 7, dq_reviewer = JStr ''codex'',
     dq_cycle = JInt 1, dq_cap = JInt 1, dq_findings = JNull, dq_judge_verdict = JNull\<rparr>"


definition boundary_snapshot :: js where
  "boundary_snapshot = JObj [(''reviewer'', JStr ''codex''), (''prior_auto_overrides'', JInt 0),
     (''diff'', JObj [(''files_changed'', JInt 1), (''lines_added'', JInt 12), (''lines_deleted'', JInt 3)]),
     (''surfaces'', JArr [JStr ''migration'']), (''diff_mode'', JStr ''inline''),
     (''findings'', JObj [(''one_off_count'', JInt 0), (''class_count'', JInt 0),
        (''has_security_finding'', JBool False), (''known'', JBool False)])]"

lemma over_cap_plain: "plain_marker over_cap_marker"
  by (simp add: plain_marker_def over_cap_marker_def plain_def)

lemma one_cycle: "parseCodexReviewPrePushCycleMarkers [buildCodexReviewPrePushCycleMarker over_cap_marker] 7 = 1"
  using prepush_entries [OF over_cap_plain, of 7] by (simp add: parseCodexReviewPrePushCycleMarkers_def over_cap_marker_def)

lemma boundary_signals: "collectDispositionSignals (de_surfaces boundary_env) (JStr ''codex'') JNull (de_manifest boundary_env)
    (parseChangedPathsFromManifest (de_manifest boundary_env)) 0 (JStr ''inline'') = Some boundary_snapshot"
  by code_simp

lemma boundary_score: "scoreDisposition boundary_snapshot authoritative_config = 
   mk_scored 415 OneMoreCycle ''fast_path'' ''codex review on a high-risk surface warrants one more cycle''"
  by code_simp

lemma boundary_rationale: "\<not> rejectReservedMarkerSequence ''codex review on a high-risk surface warrants one more cycle''"
  by code_simp

lemma boundary_length: "length (buildReviewAutoDispositionRecord
      \<lparr>dr_issue = 7, dr_reviewer = ''codex'', dr_cycle = 1, dr_cap = 1, dr_mode = ''authoritative'',
       dr_disposition = OneMoreCycle, dr_rationale = ''codex review on a high-risk surface warrants one more cycle'',
       dr_snapshot = boundary_snapshot, dr_grant = Some 1\<rparr>) \<le> 1500"
  by code_simp

lemma empty_object: "json_parse ''{}'' = Some (JObj [])" by code_simp

lemma run_mints_within_ceiling_witness:
  "\<exists>d. fst (runReviewCapDisposition boundary_env boundary_request) = DRecorded d
     \<and> dd_disposition d = OneMoreCycle \<and> dd_grant d = Some 1"
proof -
  have c: "disposition_config (de_context boundary_env) = authoritative_config"
    "de_authorized boundary_env" "de_judge boundary_env = (\<lambda>_. None)" "\<not> de_sensitive boundary_env b" "de_diff_mode boundary_env = JStr ''inline''"
    "de_post boundary_env b = Some ''{}''" "effectiveReviewerCap (context_workflow (de_context boundary_env)) ''codex'' = Some 1"
    "de_bodies boundary_env = Some [buildCodexReviewPrePushCycleMarker over_cap_marker]" for b
    by (simp_all add: boundary_env_def disposition_config_def context_workflow_def authoritative_config_def is_object_def
       effectiveReviewerCap_def int_or_def as_int_def fld_def codex_review_prepush_hard_cap_def)
  obtain d p where r: "runReviewCapDisposition boundary_env boundary_request = (DRecorded d, p)"
    "dd_disposition d = OneMoreCycle" "dd_grant d = Some 1"
    using boundary_length
    by (simp add: runReviewCapDisposition_def publish_disposition_def boundary_request_def is_string_def is_pos_int_def c config_fields one_cycle boundary_signals boundary_score boundary_rationale empty_object
       Let_def int_or_def [of 0] resolve_judge_def mk_scored_def clamp_ceiling_def github_issue_comment_body_max_def)
  from run_mints_within_ceiling [OF r(1)] r show ?thesis by auto
qed

end
