(* ===== verification/IssueDependency.thy ===== *)
theory IssueDependency
  imports Json
begin

text \<open>
  "Blocked by" relationships between issues (\<open>lib/issue-dependency.js\<close>).

  GitHub is a parameter: given the calls made so far, \<open>gh\<close> answers the next one with a JSON
  value or a failure, so nothing is assumed about its state or about other clients. Every
  operation takes the calls made before it and returns them with its own appended.
\<close>

section \<open>GitHub\<close>

datatype gh_call =
    ReadIssue int
  | ListBlockedBy int
  | ListBlocking int
  | AddBlocker int int
  | RemoveBlocker int int

text \<open>A failure: an answer that is not JSON, or the error message of the \<open>gh\<close> command.\<close>

datatype gh_error = NotJson | GhFailed string

type_synonym github = "gh_call list \<Rightarrow> gh_call \<Rightarrow> gh_error + js"

fun is_write :: "gh_call \<Rightarrow> bool" where
  "is_write (AddBlocker _ _) = True"
| "is_write (RemoveBlocker _ _) = True"
| "is_write _ = False"

section \<open>Refusals\<close>

record refused =
  rf_error :: string
  rf_next_action :: string

definition refuse :: "string \<Rightarrow> string \<Rightarrow> refused" where
  "refuse e na = \<lparr>rf_error = ''issue_dependency_'' @ e, rf_next_action = na\<rparr>"

definition malformed :: refused where
  "malformed = refuse ''malformed_response'' ''retry_and_report_if_it_persists''"

definition rejected :: refused where
  "rejected = refuse ''rejected'' ''read_the_dependencies_again_and_retry_with_a_valid_relationship''"

datatype role = Blocked | Blocking | Dependencies | Relationship

fun notFound :: "role \<Rightarrow> refused" where
  "notFound Blocking = refuse ''blocking_issue_not_found'' ''name_an_existing_issue_in_this_repository_and_retry''"
| "notFound Relationship = rejected"
| "notFound _ = refuse ''blocked_issue_not_found'' ''name_an_existing_issue_in_this_repository_and_retry''"

text \<open>\<open>HTTP_STATUS_RE\<close>, its first occurrence; 0 without one.\<close>

definition http_mark :: "nat matcher" where
  "http_mark s = do {
     r \<leftarrow> lit ''(HTTP '' s;
     t \<leftarrow> digits_n 3 r;
     u \<leftarrow> lit '')'' t;
     Some (dec_val (take 3 r), u) }"

definition http_status :: "string \<Rightarrow> nat" where
  "http_status msg = (case find_all http_mark msg of k # _ \<Rightarrow> k | [] \<Rightarrow> 0)"

definition classifyFailure :: "gh_error \<Rightarrow> role \<Rightarrow> refused" where
  "classifyFailure e role =
     (case e of
        NotJson \<Rightarrow> malformed
      | GhFailed msg \<Rightarrow>
          (let status = http_status msg
           in if status = 404 then notFound role
              else if status = 401 \<or> status = 403 then
                refuse ''forbidden'' ''grant_issues_access_to_the_host_credential_and_retry''
              else if status = 400 \<or> status = 409 \<or> status = 422 then rejected
              else refuse ''transport_unavailable'' ''retry_when_github_is_reachable''))"

section \<open>The caller's input\<close>

datatype dependency_action = ReadDeps | AddDep | RemoveDep

definition action_of :: "js \<Rightarrow> dependency_action option" where
  "action_of v = (if v = JStr ''read'' then Some ReadDeps else if v = JStr ''add'' then Some AddDep
     else if v = JStr ''remove'' then Some RemoveDep else None)"

record dependency_request =
  dp_repo_path :: js
  dp_action :: js
  dp_blocked :: js
  dp_blocking :: js
  dp_repo :: js

definition validateCallerInput :: "dependency_request \<Rightarrow> refused option" where
  "validateCallerInput q =
     (case action_of (dp_action q) of
        None \<Rightarrow> Some (refuse ''action_invalid'' ''supply_a_supported_action_and_retry'')
      | Some a \<Rightarrow>
          if \<not> (case dp_repo_path q of JStr p \<Rightarrow> starts_with ''/'' p | _ \<Rightarrow> False) then
            Some (refuse ''repo_path_invalid'' ''supply_the_absolute_invocation_root_and_retry'')
          else if \<not> is_pos_int (dp_blocked q) then
            Some (refuse ''issue_number_invalid'' ''supply_a_valid_issue_number_and_retry'')
          else if a \<noteq> ReadDeps \<and> \<not> is_pos_int (dp_blocking q) then
            Some (refuse ''blocking_issue_number_invalid'' ''supply_the_blocking_issue_number_and_retry'')
          else if a = ReadDeps \<and> \<not> nullish (dp_blocking q) then
            Some (refuse ''blocking_issue_number_invalid'' ''drop_the_blocking_issue_number_and_retry'')
          else if \<not> nullish (dp_repo q) \<and> \<not> (case dp_repo q of JStr r \<Rightarrow> github_repo_ok r | _ \<Rightarrow> False) then
            Some (refuse ''repo_assertion_invalid'' ''supply_a_valid_owner_repo_assertion_or_omit_it_and_retry'')
          else if a \<noteq> ReadDeps \<and> dp_blocked q = dp_blocking q then
            Some (refuse ''self_dependency'' ''name_two_different_issues_and_retry'')
          else None)"

section \<open>Issue records\<close>

text \<open>\<open>String(v)\<close> as far as a repository URL can come out of it: other values print without a slash.\<close>

fun url_text :: "js \<Rightarrow> string" where
  "url_text (JStr s) = s"
| "url_text (JArr vs) = sep_by (map url_text vs)"
| "url_text _ = []"

text \<open>\<open>REPOSITORY_URL_RE\<close>: the first \<open>/repos/\<close> that two segments and the end follow.\<close>

fun repository_of_url :: "string \<Rightarrow> string option" where
  "repository_of_url [] = None"
| "repository_of_url (c # s) =
     (case lit ''/repos/'' (c # s) of
        Some r \<Rightarrow> (case split_on (CHR ''/'') r of
            [a, b] \<Rightarrow> if a \<noteq> [] \<and> b \<noteq> [] then Some r else repository_of_url s
          | _ \<Rightarrow> repository_of_url s)
      | None \<Rightarrow> repository_of_url s)"

record issue_identity =
  ii_id :: int
  ii_repository :: string
  ii_number :: int
  ii_title :: "string option"
  ii_state :: "string option"
  ii_url :: string
  ii_pull_request :: bool

definition text_of :: "js \<Rightarrow> string option" where
  "text_of v = (case v of JStr s \<Rightarrow> Some s | _ \<Rightarrow> None)"

definition normalizeIssue :: "js \<Rightarrow> issue_identity option" where
  "normalizeIssue r =
     (case repository_of_url (url_text (coalesce (fld r ''repository_url'') (JStr []))) of
        None \<Rightarrow> None
      | Some repository \<Rightarrow>
          if \<not> is_pos_int (fld r ''number'') \<or> \<not> is_pos_int (fld r ''id'') then None
          else (case (as_int (fld r ''number''), as_int (fld r ''id''), text_of (fld r ''html_url'')) of
             (Some n, Some i, Some url) \<Rightarrow>
               if url = [] then None
               else Some \<lparr>ii_id = i, ii_repository = repository, ii_number = n,
                 ii_title = text_of (fld r ''title''), ii_state = text_of (fld r ''state''), ii_url = url,
                 ii_pull_request = \<not> nullish (fld r ''pull_request'')\<rparr>
           | _ \<Rightarrow> None))"

text \<open>One call, recorded.\<close>

definition call :: "github \<Rightarrow> gh_call list \<Rightarrow> gh_call \<Rightarrow> (gh_error + js) \<times> gh_call list" where
  "call gh h c = (gh h c, h @ [c])"

definition resolveIssue ::
  "github \<Rightarrow> gh_call list \<Rightarrow> int \<Rightarrow> string \<Rightarrow> role \<Rightarrow> (refused + issue_identity) \<times> gh_call list" where
  "resolveIssue gh h n slugKey role =
     (case call gh h (ReadIssue n) of
        (Inl e, h') \<Rightarrow> (Inl (classifyFailure e role), h')
      | (Inr r, h') \<Rightarrow>
          (case normalizeIssue r of
             None \<Rightarrow> (Inl malformed, h')
           | Some i \<Rightarrow>
               if ii_number i \<noteq> n \<or> lower (ii_repository i) \<noteq> slugKey then (Inl malformed, h')
               else if ii_pull_request i then (Inl (refuse ''not_an_issue'' ''name_an_issue_and_retry''), h')
               else (Inr i, h')))"

fun normalize_all :: "js list \<Rightarrow> issue_identity list option" where
  "normalize_all [] = Some []"
| "normalize_all (r # rs) = do { i \<leftarrow> normalizeIssue r; is \<leftarrow> normalize_all rs; Some (i # is) }"

definition readDependencies ::
  "github \<Rightarrow> gh_call list \<Rightarrow> gh_call \<Rightarrow> (refused + issue_identity list) \<times> gh_call list" where
  "readDependencies gh h c =
     (case call gh h c of
        (Inl e, h') \<Rightarrow> (Inl (classifyFailure e Dependencies), h')
      | (Inr (JArr rs), h') \<Rightarrow> (case normalize_all rs of None \<Rightarrow> (Inl malformed, h') | Some es \<Rightarrow> (Inr es, h'))
      | (Inr _, h') \<Rightarrow> (Inl malformed, h'))"

definition hasBlocker :: "issue_identity list \<Rightarrow> string \<Rightarrow> int \<Rightarrow> bool" where
  "hasBlocker es slugKey bid = list_ex (\<lambda>e. ii_id e = bid \<and> lower (ii_repository e) = slugKey) es"

record dependency_view =
  dv_repository :: string
  dv_number :: int
  dv_title :: "string option"
  dv_state :: "string option"
  dv_url :: "string option"
  dv_in_authorized_repository :: bool

definition views :: "issue_identity list \<Rightarrow> string \<Rightarrow> dependency_view list" where
  "views es slugKey = map (\<lambda>e.
     if lower (ii_repository e) = slugKey
     then \<lparr>dv_repository = ii_repository e, dv_number = ii_number e, dv_title = ii_title e,
           dv_state = ii_state e, dv_url = Some (ii_url e), dv_in_authorized_repository = True\<rparr>
     else \<lparr>dv_repository = ii_repository e, dv_number = ii_number e, dv_title = None,
           dv_state = None, dv_url = None, dv_in_authorized_repository = False\<rparr>) es"

section \<open>The operations\<close>

datatype dep_outcome = Already_satisfied | Changed | Reconciled

datatype dependency_result =
    DepRefused refused
  | DepRead "dependency_view list" "dependency_view list"
  | DepMutated dep_outcome "dependency_view list"

definition runMutation ::
  "github \<Rightarrow> gh_call list \<Rightarrow> dependency_action \<Rightarrow> int \<Rightarrow> issue_identity \<Rightarrow> string \<Rightarrow> dependency_result \<times> gh_call list" where
  "runMutation gh h a blocked blocking slugKey =
     (let desired = (a = AddDep)
      in case readDependencies gh h (ListBlockedBy blocked) of
           (Inl e, h1) \<Rightarrow> (DepRefused e, h1)
         | (Inr before, h1) \<Rightarrow>
             if hasBlocker before slugKey (ii_id blocking) = desired
             then (DepMutated Already_satisfied (views before slugKey), h1)
             else
               (case call gh h1 (if desired then AddBlocker blocked (ii_id blocking)
                                 else RemoveBlocker blocked (ii_id blocking)) of
                  (write, h2) \<Rightarrow>
                    (case readDependencies gh h2 (ListBlockedBy blocked) of
                       (Inl e, h3) \<Rightarrow> (DepRefused e, h3)
                     | (Inr after, h3) \<Rightarrow>
                         if hasBlocker after slugKey (ii_id blocking) = desired
                         then (DepMutated (if isl write then Reconciled else Changed) (views after slugKey), h3)
                         else (case write of
                             Inl e \<Rightarrow> (DepRefused (classifyFailure e Relationship), h3)
                           | Inr _ \<Rightarrow> (DepRefused rejected, h3)))))"

text \<open>The repository of the checkout: not a git repository, not the launch workspace, or its owner and name.\<close>

datatype resolution = NotGit | NotAuthorized | Authorized string string

definition runIssueDependency ::
  "resolution \<Rightarrow> github \<Rightarrow> dependency_request \<Rightarrow> dependency_result \<times> gh_call list" where
  "runIssueDependency repository gh q =
     (case validateCallerInput q of
        Some e \<Rightarrow> (DepRefused e, [])
      | None \<Rightarrow>
          (case repository of
             NotGit \<Rightarrow> (DepRefused (refuse ''repo_path_invalid'' ''supply_the_absolute_invocation_root_and_retry''), [])
           | NotAuthorized \<Rightarrow>
               (DepRefused (refuse ''repo_not_authorized'' ''run_from_the_mcp_launch_workspace_and_retry''), [])
           | Authorized owner name \<Rightarrow>
               (let slugKey = lower (owner @ CHR ''/'' # name);
                    blocked = the (as_int (dp_blocked q))
                in if \<not> nullish (dp_repo q) \<and> map_option lower (text_of (dp_repo q)) \<noteq> Some slugKey then
                     (DepRefused (refuse ''repo_mismatch'' ''drop_the_repo_assertion_or_match_the_authorized_repository_and_retry''), [])
                   else
                     (case resolveIssue gh [] blocked slugKey Blocked of
                        (Inl e, h) \<Rightarrow> (DepRefused e, h)
                      | (Inr _, h) \<Rightarrow>
                          if action_of (dp_action q) = Some ReadDeps then
                            (case readDependencies gh h (ListBlockedBy blocked) of
                               (Inl e, h1) \<Rightarrow> (DepRefused e, h1)
                             | (Inr ins, h1) \<Rightarrow>
                                 (case readDependencies gh h1 (ListBlocking blocked) of
                                    (Inl e, h2) \<Rightarrow> (DepRefused e, h2)
                                  | (Inr outs, h2) \<Rightarrow> (DepRead (views ins slugKey) (views outs slugKey), h2)))
                          else
                            (case resolveIssue gh h (the (as_int (dp_blocking q))) slugKey Blocking of
                               (Inl e, h1) \<Rightarrow> (DepRefused e, h1)
                             | (Inr i, h1) \<Rightarrow> runMutation gh h1 (the (action_of (dp_action q))) blocked i slugKey)))))"

section \<open>What the operations do\<close>

lemma resolve_calls: "snd (resolveIssue gh h n k r) = h @ [ReadIssue n]"
  by (auto simp: resolveIssue_def call_def split: sum.splits option.splits)

lemma read_calls: "snd (readDependencies gh h c) = h @ [c]"
  by (auto simp: readDependencies_def call_def split: sum.splits option.splits js.splits)

lemma resolve_ok:
  "fst (resolveIssue gh h n k r) = Inr i \<longleftrightarrow>
     (\<exists>v. gh h (ReadIssue n) = Inr v \<and> normalizeIssue v = Some i \<and> ii_number i = n
          \<and> lower (ii_repository i) = k \<and> \<not> ii_pull_request i)"
  by (auto simp: resolveIssue_def call_def split: sum.splits option.splits)

text \<open>The identities a dependency list answers with.\<close>

definition listed :: "gh_error + js \<Rightarrow> issue_identity list option" where
  "listed r = (case r of Inr (JArr rs) \<Rightarrow> normalize_all rs | _ \<Rightarrow> None)"

lemma read_ok: "fst (readDependencies gh h c) = Inr es \<longleftrightarrow> listed (gh h c) = Some es"
  by (auto simp: readDependencies_def call_def listed_def split: sum.splits option.splits js.splits)

lemma resolve_cases:
  obtains e where "resolveIssue gh h n k r = (Inl e, h @ [ReadIssue n])"
  | i v where "resolveIssue gh h n k r = (Inr i, h @ [ReadIssue n])" "gh h (ReadIssue n) = Inr v"
      "normalizeIssue v = Some i" "ii_number i = n" "lower (ii_repository i) = k" "\<not> ii_pull_request i"
  using resolve_calls [of gh h n k r] resolve_ok [of gh h n k r]
  by (cases "resolveIssue gh h n k r"; cases "fst (resolveIssue gh h n k r)") auto

lemma read_cases:
  obtains e where "readDependencies gh h c = (Inl e, h @ [c])"
  | es where "readDependencies gh h c = (Inr es, h @ [c])" "listed (gh h c) = Some es"
  using read_calls [of gh h c] read_ok [of gh h c]
  by (cases "readDependencies gh h c"; cases "fst (readDependencies gh h c)") auto

lemma mutation_cases:
  assumes "runMutation gh h a n i k = (r, h')"
  obtains e where "r = DepRefused e" "h' = h @ [ListBlockedBy n]"
  | es where "listed (gh h (ListBlockedBy n)) = Some es" "hasBlocker es k (ii_id i) = (a = AddDep)"
      "r = DepMutated Already_satisfied (views es k)" "h' = h @ [ListBlockedBy n]"
  | es c where "listed (gh h (ListBlockedBy n)) = Some es" "hasBlocker es k (ii_id i) \<noteq> (a = AddDep)"
      "c = (if a = AddDep then AddBlocker n (ii_id i) else RemoveBlocker n (ii_id i))"
      "h' = h @ [ListBlockedBy n, c, ListBlockedBy n]"
      "(\<exists>e. r = DepRefused e) \<or> (\<exists>after.
          listed (gh (h @ [ListBlockedBy n, c]) (ListBlockedBy n)) = Some after
          \<and> hasBlocker after k (ii_id i) = (a = AddDep)
          \<and> r = DepMutated (if isl (gh (h @ [ListBlockedBy n]) c) then Reconciled else Changed) (views after k))"
proof (rule read_cases [of gh h "ListBlockedBy n"])
  fix e assume "readDependencies gh h (ListBlockedBy n) = (Inl e, h @ [ListBlockedBy n])"
  then show thesis using assms that(1) [of e] by (auto simp: runMutation_def)
next
  fix es assume r: "readDependencies gh h (ListBlockedBy n) = (Inr es, h @ [ListBlockedBy n])"
    and l: "listed (gh h (ListBlockedBy n)) = Some es"
  let ?c = "if a = AddDep then AddBlocker n (ii_id i) else RemoveBlocker n (ii_id i)"
  let ?h2 = "(h @ [ListBlockedBy n]) @ [?c]"
  show thesis
  proof (cases "hasBlocker es k (ii_id i) = (a = AddDep)")
    case True
    then show thesis using assms r l that(2) by (simp add: runMutation_def)
  next
    case False
    show thesis
    proof (rule read_cases [of gh ?h2 "ListBlockedBy n"])
      fix e assume "readDependencies gh ?h2 (ListBlockedBy n) = (Inl e, ?h2 @ [ListBlockedBy n])"
      then have "r = DepRefused e \<and> h' = h @ [ListBlockedBy n, ?c, ListBlockedBy n]"
        using assms r False by (simp add: runMutation_def Let_def call_def split: if_splits)
      then show thesis using that(3) [OF l False refl] by blast
    next
      fix after assume r2: "readDependencies gh ?h2 (ListBlockedBy n) = (Inr after, ?h2 @ [ListBlockedBy n])"
        and l2: "listed (gh ?h2 (ListBlockedBy n)) = Some after"
      have h': "h' = h @ [ListBlockedBy n, ?c, ListBlockedBy n]"
        using assms r r2 False by (simp add: runMutation_def Let_def call_def split: if_splits sum.splits)
      have "(\<exists>e. r = DepRefused e) \<or> hasBlocker after k (ii_id i) = (a = AddDep)
          \<and> r = DepMutated (if isl (gh (h @ [ListBlockedBy n]) ?c) then Reconciled else Changed) (views after k)"
        using assms r r2 False
        by (cases "gh (h @ [ListBlockedBy n]) ?c") (auto simp: runMutation_def Let_def call_def split: if_splits)
      then show thesis using that(3) [OF l False refl h'] l2 by auto
    qed
  qed
qed

lemma valid_input:
  assumes "validateCallerInput q = None"
  obtains a n where "action_of (dp_action q) = Some a" "dp_blocked q = JInt n" "0 < n"
    "a \<noteq> ReadDeps \<longrightarrow> (\<exists>m. dp_blocking q = JInt m \<and> 0 < m \<and> m \<noteq> n)"
proof -
  obtain a where a: "action_of (dp_action q) = Some a"
    using assms by (auto simp: validateCallerInput_def split: option.splits)
  have b: "is_pos_int (dp_blocked q)"
    "a \<noteq> ReadDeps \<Longrightarrow> is_pos_int (dp_blocking q) \<and> dp_blocked q \<noteq> dp_blocking q"
    using assms a by (auto simp: validateCallerInput_def split: if_splits)
  from b(1) obtain n where n: "dp_blocked q = JInt n" "0 < n" by (auto simp: is_pos_int_iff)
  have "a \<noteq> ReadDeps \<longrightarrow> (\<exists>m. dp_blocking q = JInt m \<and> 0 < m \<and> m \<noteq> n)"
    using b(2) n by (auto simp: is_pos_int_iff)
  then show thesis using that a n by blast
qed

text \<open>A run that gets past its refusals: a read of both directions, or a mutation of a resolved pair.\<close>

lemma run_cases:
  assumes "runIssueDependency repository gh q = (r, h)"
  obtains e where "r = DepRefused e" "\<forall>c \<in> set h. \<not> is_write c"
  | owner name n ins outs where "repository = Authorized owner name" "dp_blocked q = JInt n"
      "action_of (dp_action q) = Some ReadDeps"
      "r = DepRead (views ins (lower (owner @ CHR ''/'' # name))) (views outs (lower (owner @ CHR ''/'' # name)))"
      "h = [ReadIssue n, ListBlockedBy n, ListBlocking n]"
      "listed (gh [ReadIssue n] (ListBlockedBy n)) = Some ins"
      "listed (gh [ReadIssue n, ListBlockedBy n] (ListBlocking n)) = Some outs"
  | owner name a n m i v where "repository = Authorized owner name"
      "action_of (dp_action q) = Some a" "a \<noteq> ReadDeps" "dp_blocked q = JInt n" "dp_blocking q = JInt m" "m \<noteq> n"
      "gh [ReadIssue n] (ReadIssue m) = Inr v" "normalizeIssue v = Some i" "ii_number i = m"
      "lower (ii_repository i) = lower (owner @ CHR ''/'' # name)" "\<not> ii_pull_request i"
      "runMutation gh [ReadIssue n, ReadIssue m] a n i (lower (owner @ CHR ''/'' # name)) = (r, h)"
proof (cases "validateCallerInput q")
  case (Some e)
  then show thesis using assms that(1) [of e] by (auto simp: runIssueDependency_def)
next
  case None
  then obtain a n where a: "action_of (dp_action q) = Some a" and n: "dp_blocked q = JInt n" "0 < n"
    and m: "a \<noteq> ReadDeps \<longrightarrow> (\<exists>m. dp_blocking q = JInt m \<and> 0 < m \<and> m \<noteq> n)" by (rule valid_input)
  show thesis
  proof (cases repository)
    case (Authorized owner name)
    let ?k = "lower (owner @ CHR ''/'' # name)"
    show thesis
    proof (cases "\<not> nullish (dp_repo q) \<and> map_option lower (text_of (dp_repo q)) \<noteq> Some ?k")
      case True
      then have "r = DepRefused (refuse ''repo_mismatch'' ''drop_the_repo_assertion_or_match_the_authorized_repository_and_retry'') \<and> h = []"
        using assms None Authorized by (simp add: runIssueDependency_def Let_def)
      then show thesis using that(1) by simp
    next
      case same: False
      show thesis
      proof (rule resolve_cases [of gh "[]" n ?k Blocked])
        fix e assume "resolveIssue gh [] n ?k Blocked = (Inl e, [] @ [ReadIssue n])"
        then show thesis using assms None Authorized same n that(1)
          by (auto simp: runIssueDependency_def Let_def)
      next
        fix b v assume b: "resolveIssue gh [] n ?k Blocked = (Inr b, [] @ [ReadIssue n])"
        show thesis
        proof (cases "a = ReadDeps")
          case True
          show thesis
          proof (rule read_cases [of gh "[ReadIssue n]" "ListBlockedBy n"])
            fix e assume "readDependencies gh [ReadIssue n] (ListBlockedBy n) = (Inl e, [ReadIssue n] @ [ListBlockedBy n])"
            then show thesis using assms None Authorized same n a b True that(1)
              by (auto simp: runIssueDependency_def Let_def)
          next
            fix ins assume i: "readDependencies gh [ReadIssue n] (ListBlockedBy n) = (Inr ins, [ReadIssue n] @ [ListBlockedBy n])"
              "listed (gh [ReadIssue n] (ListBlockedBy n)) = Some ins"
            show thesis
            proof (rule read_cases [of gh "[ReadIssue n, ListBlockedBy n]" "ListBlocking n"])
              fix e assume "readDependencies gh [ReadIssue n, ListBlockedBy n] (ListBlocking n)
                  = (Inl e, [ReadIssue n, ListBlockedBy n] @ [ListBlocking n])"
              then show thesis using assms None Authorized same n a b True i that(1)
                by (auto simp: runIssueDependency_def Let_def)
            next
              fix outs assume "readDependencies gh [ReadIssue n, ListBlockedBy n] (ListBlocking n)
                  = (Inr outs, [ReadIssue n, ListBlockedBy n] @ [ListBlocking n])"
                "listed (gh [ReadIssue n, ListBlockedBy n] (ListBlocking n)) = Some outs"
              then show thesis using assms None Authorized same n a b True i that(2) [of owner name n ins outs]
                by (auto simp: runIssueDependency_def Let_def)
            qed
          qed
        next
          case False
          with m obtain m where m: "dp_blocking q = JInt m" "m \<noteq> n" by blast
          show thesis
          proof (rule resolve_cases [of gh "[ReadIssue n]" m ?k Blocking])
            fix e assume "resolveIssue gh [ReadIssue n] m ?k Blocking = (Inl e, [ReadIssue n] @ [ReadIssue m])"
            then show thesis using assms None Authorized same n m a b False that(1)
              by (auto simp: runIssueDependency_def Let_def)
          next
            fix i v assume "resolveIssue gh [ReadIssue n] m ?k Blocking = (Inr i, [ReadIssue n] @ [ReadIssue m])"
              "gh [ReadIssue n] (ReadIssue m) = Inr v" "normalizeIssue v = Some i" "ii_number i = m"
              "lower (ii_repository i) = ?k" "\<not> ii_pull_request i"
            moreover from this have "runMutation gh [ReadIssue n, ReadIssue m] a n i ?k = (r, h)"
              using assms None Authorized same n m a b False by (auto simp: runIssueDependency_def Let_def)
            ultimately show thesis using Authorized n m a False by (intro that(3) [of owner name a n m v i])
          qed
        qed
      qed
    qed
  next
    case NotGit
    then have "\<exists>e. r = DepRefused e \<and> h = []" using assms None by (auto simp: runIssueDependency_def)
    then show thesis using that(1) by auto
  next
    case NotAuthorized
    then have "\<exists>e. r = DepRefused e \<and> h = []" using assms None by (auto simp: runIssueDependency_def)
    then show thesis using that(1) by auto
  qed
qed

section \<open>Properties\<close>

text \<open>
  C18. Every write is justified and there is at most one: when a call writes, GitHub had identified
  both issues in the authorized repository, the list read just before the write lacked (or, for
  a removal, held) the named blocker, the write names the blocked issue and the id GitHub gave for the
  blocking one, and the list is read again right after it. Reads and refused requests write
  nothing, whatever GitHub answers.
\<close>

theorem single_justified_write:
  assumes "runIssueDependency repository gh q = (r, h)" and "c \<in> set h" and "is_write c"
  shows "\<exists>owner name n m i v es. repository = Authorized owner name \<and> dp_blocked q = JInt n
     \<and> dp_blocking q = JInt m \<and> m \<noteq> n \<and> h = [ReadIssue n, ReadIssue m, ListBlockedBy n, c, ListBlockedBy n]
     \<and> gh [ReadIssue n] (ReadIssue m) = Inr v \<and> normalizeIssue v = Some i \<and> ii_number i = m
     \<and> lower (ii_repository i) = lower (owner @ CHR ''/'' # name) \<and> \<not> ii_pull_request i
     \<and> listed (gh [ReadIssue n, ReadIssue m] (ListBlockedBy n)) = Some es
     \<and> (c = AddBlocker n (ii_id i) \<and> dp_action q = JStr ''add''
          \<and> \<not> hasBlocker es (lower (owner @ CHR ''/'' # name)) (ii_id i)
        \<or> c = RemoveBlocker n (ii_id i) \<and> dp_action q = JStr ''remove''
          \<and> hasBlocker es (lower (owner @ CHR ''/'' # name)) (ii_id i))"
proof -
  from assms(1) show ?thesis
  proof (cases rule: run_cases)
    case (1 e)
    then show ?thesis using assms(2,3) by blast
  next
    case (2 owner name n ins outs)
    then show ?thesis using assms(2,3) by auto
  next
    case (3 owner name a n m i v)
    have act: "a = AddDep \<and> dp_action q = JStr ''add'' \<or> a = RemoveDep \<and> dp_action q = JStr ''remove''"
      using 3(2,3) by (auto simp: action_of_def split: if_splits)
    from 3(12) show ?thesis
    proof (cases rule: mutation_cases)
      case (1 e)
      then show ?thesis using assms(2,3) by auto
    next
      case (2 es)
      then show ?thesis using assms(2,3) by auto
    next
      case m: (3 es c')
      have "c = c'" using assms(2,3) m(4) by auto
      then show ?thesis using 3 m act
        by (intro exI [of _ owner] exI [of _ name] exI [of _ n] exI [of _ m] exI [of _ i] exI [of _ v] exI [of _ es]) auto
    qed
  qed
qed

text \<open>
  C19. A reported outcome is what GitHub last said: a mutation reports success only when the last
  list read, in the repository authorized, holds the blocker exactly when it was to be added.
  Nothing was written where it reports \<open>already_satisfied\<close>, and only a write GitHub accepted is
  reported as \<open>changed\<close>.
\<close>

theorem mutation_outcome_true:
  assumes "runIssueDependency repository gh q = (DepMutated out vs, h)"
  shows "\<exists>owner name n m i v es. repository = Authorized owner name \<and> dp_blocked q = JInt n \<and> dp_blocking q = JInt m
     \<and> gh [ReadIssue n] (ReadIssue m) = Inr v \<and> normalizeIssue v = Some i \<and> ii_number i = m
     \<and> h = butlast h @ [ListBlockedBy n] \<and> listed (gh (butlast h) (ListBlockedBy n)) = Some es
     \<and> vs = views es (lower (owner @ CHR ''/'' # name))
     \<and> hasBlocker es (lower (owner @ CHR ''/'' # name)) (ii_id i) = (dp_action q = JStr ''add'')
     \<and> (out = Already_satisfied \<longleftrightarrow> (\<forall>c \<in> set h. \<not> is_write c))
     \<and> (out = Changed \<longrightarrow> (\<exists>c ok. is_write c \<and> c \<in> set h \<and> gh [ReadIssue n, ReadIssue m, ListBlockedBy n] c = Inr ok))"
proof -
  from assms show ?thesis
  proof (cases rule: run_cases)
    case (3 owner name a n m i v)
    have act: "(dp_action q = JStr ''add'') = (a = AddDep)"
      using 3(2,3) by (auto simp: action_of_def split: if_splits)
    from 3(12) show ?thesis
    proof (cases rule: mutation_cases)
      case (2 es)
      then show ?thesis using 3 act
        by (intro exI [of _ owner] exI [of _ name] exI [of _ n] exI [of _ m] exI [of _ i] exI [of _ v] exI [of _ es]) auto
    next
      case w: (3 es c)
      let ?h = "[ReadIssue n, ReadIssue m, ListBlockedBy n]"
      from w(5) obtain after where after: "listed (gh (?h @ [c]) (ListBlockedBy n)) = Some after"
        "hasBlocker after (lower (owner @ CHR ''/'' # name)) (ii_id i) = (a = AddDep)"
        "out = (if isl (gh ?h c) then Reconciled else Changed)" "vs = views after (lower (owner @ CHR ''/'' # name))"
        by auto
      have "is_write c" using w(3) by simp
      moreover have "out = Changed \<longrightarrow> (\<exists>ok. gh ?h c = Inr ok)"
        using after(3) by (cases "gh ?h c") auto
      moreover have "out \<noteq> Already_satisfied" using after(3) by simp
      ultimately show ?thesis using 3 act after w(4)
        by (intro exI [of _ owner] exI [of _ name] exI [of _ n] exI [of _ m] exI [of _ i] exI [of _ v] exI [of _ after]) auto
    qed simp_all
  qed simp_all
qed

text \<open>The views a result carries.\<close>

fun result_views :: "dependency_result \<Rightarrow> dependency_view list" where
  "result_views (DepRead ins outs) = ins @ outs"
| "result_views (DepMutated _ vs) = vs"
| "result_views (DepRefused _) = []"

lemma views_redacted:
  "v \<in> set (views es k) \<Longrightarrow> dv_title v \<noteq> None \<or> dv_state v \<noteq> None \<or> dv_url v \<noteq> None \<Longrightarrow> lower (dv_repository v) = k"
  by (auto simp: views_def split: if_splits)

text \<open>
  No content of another repository leaves the tool: a returned entry carries a title, a state or
  a URL only when it belongs to the repository authorized, and an entry of another repository is
  still listed, by repository and number.
\<close>

theorem foreign_content_redacted:
  assumes "runIssueDependency repository gh q = (r, h)" and "v \<in> set (result_views r)"
  shows "\<exists>owner name. repository = Authorized owner name
     \<and> (dv_title v \<noteq> None \<or> dv_state v \<noteq> None \<or> dv_url v \<noteq> None \<longrightarrow>
          lower (dv_repository v) = lower (owner @ CHR ''/'' # name))
     \<and> map (\<lambda>e. (ii_repository e, ii_number e)) es
         = map (\<lambda>v. (dv_repository v, dv_number v)) (views es (lower (owner @ CHR ''/'' # name)))"
proof -
  have kept: "map (\<lambda>e. (ii_repository e, ii_number e)) es = map (\<lambda>v. (dv_repository v, dv_number v)) (views es k)" for k
    by (simp add: views_def)
  from assms(1) show ?thesis
  proof (cases rule: run_cases)
    case (1 e)
    then show ?thesis using assms(2) by simp
  next
    case (2 owner name n ins outs)
    then show ?thesis using assms(2) views_redacted kept by auto
  next
    case (3 owner name a n m i w)
    from 3(12) have "\<exists>es. result_views r = views es (lower (owner @ CHR ''/'' # name)) \<or> result_views r = []"
      by (cases rule: mutation_cases) auto
    then show ?thesis using assms(2) views_redacted kept 3(1) by fastforce
  qed
qed

section \<open>Witnesses\<close>

definition issue_json :: "string \<Rightarrow> int \<Rightarrow> int \<Rightarrow> js" where
  "issue_json repo n i = JObj [(''repository_url'', JStr (''https://api.github.com/repos/'' @ repo)), (''number'', JInt n),
     (''id'', JInt i), (''html_url'', JStr ''u''), (''title'', JStr ''t''), (''state'', JStr ''open'')]"

text \<open>A GitHub that applies the one write it gets; issue 9 of another repository also blocks.\<close>

definition simple_gh :: github where
  "simple_gh h c = (case c of
      ReadIssue n \<Rightarrow> Inr (issue_json ''Own/repo'' n (n + 1000))
    | ListBlockedBy n \<Rightarrow> Inr (JArr (issue_json ''other/repo'' 9 77
        # (if AddBlocker n 1004 \<in> set h then [issue_json ''own/repo'' 4 1004] else [])))
    | _ \<Rightarrow> Inr JNull)"

definition add_request :: dependency_request where
  "add_request = \<lparr>dp_repo_path = JStr ''/work'', dp_action = JStr ''add'', dp_blocked = JInt 7, dp_blocking = JInt 4,
     dp_repo = JNull\<rparr>"

lemma add_run: "runIssueDependency (Authorized ''own'' ''repo'') simple_gh add_request
    = (DepMutated Changed (views [\<lparr>ii_id = 77, ii_repository = ''other/repo'', ii_number = 9, ii_title = Some ''t'',
         ii_state = Some ''open'', ii_url = ''u'', ii_pull_request = False\<rparr>,
        \<lparr>ii_id = 1004, ii_repository = ''own/repo'', ii_number = 4, ii_title = Some ''t'',
         ii_state = Some ''open'', ii_url = ''u'', ii_pull_request = False\<rparr>] ''own/repo''),
       [ReadIssue 7, ReadIssue 4, ListBlockedBy 7, AddBlocker 7 1004, ListBlockedBy 7])"
  by code_simp

lemma single_justified_write_witness:
  "\<not> hasBlocker [] ''own/repo'' 1004 \<and> dp_action add_request = JStr ''add''"
  using single_justified_write [OF add_run, of "AddBlocker 7 1004"] by (auto simp: hasBlocker_def)

lemma mutation_outcome_true_witness: "\<exists>es. hasBlocker es ''own/repo'' 1004"
proof -
  have k: "lower ''own/repo'' = ''own/repo''" by code_simp
  have b: "dp_blocked add_request = JInt 7" "dp_blocking add_request = JInt 4" "dp_action add_request = JStr ''add''"
    by (simp_all add: add_request_def)
  have i: "normalizeIssue (issue_json ''Own/repo'' 4 1004) = Some \<lparr>ii_id = 1004, ii_repository = ''Own/repo'',
      ii_number = 4, ii_title = Some ''t'', ii_state = Some ''open'', ii_url = ''u'', ii_pull_request = False\<rparr>"
    by code_simp
  show ?thesis using mutation_outcome_true [OF add_run]
    by (auto simp: b k i simple_gh_def)
qed

lemma foreign_content_redacted_witness:
  "lower (dv_repository (last (result_views (fst (runIssueDependency (Authorized ''own'' ''repo'') simple_gh add_request)))))
     = ''own/repo''"
proof -
  let ?v = "\<lparr>dv_repository = ''own/repo'', dv_number = 4, dv_title = Some ''t'', dv_state = Some ''open'', dv_url = Some ''u'',
     dv_in_authorized_repository = True\<rparr>"
  have k: "lower ''own/repo'' = ''own/repo''" by code_simp
  have l: "last (result_views (fst (runIssueDependency (Authorized ''own'' ''repo'') simple_gh add_request))) = ?v"
    unfolding add_run by code_simp
  have "?v \<in> set (result_views (fst (runIssueDependency (Authorized ''own'' ''repo'') simple_gh add_request)))"
    unfolding add_run by code_simp
  then have "?v \<in> set (result_views (DepMutated Changed (views [\<lparr>ii_id = 77, ii_repository = ''other/repo'', ii_number = 9, ii_title = Some ''t'',
         ii_state = Some ''open'', ii_url = ''u'', ii_pull_request = False\<rparr>,
        \<lparr>ii_id = 1004, ii_repository = ''own/repo'', ii_number = 4, ii_title = Some ''t'',
         ii_state = Some ''open'', ii_url = ''u'', ii_pull_request = False\<rparr>] ''own/repo'')))"
    unfolding add_run by simp
  from foreign_content_redacted [OF add_run this, of "[]"] show ?thesis
    unfolding l by (auto simp: k)
qed

end
