(* ===== verification/RunLane.thy ===== *)
theory RunLane
  imports Thread
begin

text \<open>
  The lane of a run (\<open>lib/run-lane-evidence.js\<close>): which of \<open>/implement\<close> and \<open>/quickfix\<close> the newest
  pickup record of a branch names, read from the issue thread. A caller's lane is a claim that is
  compared with it.
\<close>

datatype lane = Implement | Quickfix

fun lane_str :: "lane \<Rightarrow> string" where
  "lane_str Implement = ''implement''"
| "lane_str Quickfix = ''quickfix''"

section \<open>Pickup records\<close>

text \<open>The hammer and wrench sign with its variation selector, and what follows it.\<close>

definition pickup_head :: string where
  "pickup_head = [CHR 0xF0, CHR 0x9F, CHR 0x9B, CHR 0xA0, CHR 0xEF, CHR 0xB8, CHR 0x8F] @ '' Picked up by /''"

definition driver_char :: "char \<Rightarrow> bool" where
  "driver_char c \<longleftrightarrow> is_digit c \<or> is_lower c \<or> is_upper c \<or> c \<in> {CHR ''.'', CHR ''_'', CHR ''-''}"

definition branch_char :: "char \<Rightarrow> bool" where
  "branch_char c \<longleftrightarrow> is_digit c \<or> is_lower c \<or> c = CHR ''-''"

definition lane_word :: "lane matcher" where
  "lane_word s = (case lit ''implement'' s of
      Some r \<Rightarrow> Some (Implement, r)
    | None \<Rightarrow> map_option (\<lambda>r. (Quickfix, r)) (lit ''quickfix'' s))"

definition timestamp :: "string \<Rightarrow> string option" where
  "timestamp s = do {
     s \<leftarrow> digits_n 4 s; s \<leftarrow> lit ''-'' s; s \<leftarrow> digits_n 2 s; s \<leftarrow> lit ''-'' s; s \<leftarrow> digits_n 2 s;
     s \<leftarrow> lit ''T'' s; s \<leftarrow> digits_n 2 s; s \<leftarrow> lit '':'' s; s \<leftarrow> digits_n 2 s; s \<leftarrow> lit '':'' s; s \<leftarrow> digits_n 2 s;
     s \<leftarrow> lit ''.'' s; s \<leftarrow> digits_n 3 s; lit ''Z'' s }"

definition parseRunPickupRecord :: "string \<Rightarrow> (lane \<times> string) option" where
  "parseRunPickupRecord body = do {
     s1 \<leftarrow> lit pickup_head (trim body);
     (l, s2) \<leftarrow> lane_word s1;
     s3 \<leftarrow> lit '' - driver '' s2;
     (d, s4) \<leftarrow> run driver_char (\<lambda>v. 1 \<le> length v \<and> length v \<le> 40) s3;
     s5 \<leftarrow> lit '', branch `'' s4;
     (b, s6) \<leftarrow> run branch_char (\<lambda>v. 1 \<le> length v \<and> length v \<le> 50) s5;
     s7 \<leftarrow> lit ''`, '' s6;
     s8 \<leftarrow> timestamp s7;
     (if s8 = ''.'' then Some (l, b) else None) }"

section \<open>The newest record\<close>

text \<open>The comments of a branch's records that pass the author test, with their order.\<close>

definition order_of :: "nat \<times> comment \<Rightarrow> int" where
  "order_of ic = (case c_id (snd ic) of Some k \<Rightarrow> k | None \<Rightarrow> int (fst ic))"

definition newest_step :: "(comment \<Rightarrow> bool) \<Rightarrow> string \<Rightarrow> (int \<times> lane) option \<Rightarrow> nat \<times> comment \<Rightarrow> (int \<times> lane) option" where
  "newest_step author branch newest ic =
     (case parseRunPickupRecord (c_body (snd ic)) of
        None \<Rightarrow> newest
      | Some (l, b) \<Rightarrow>
          if b \<noteq> branch \<or> \<not> author (snd ic) then newest
          else (case newest of
             None \<Rightarrow> Some (order_of ic, l)
           | Some (k, _) \<Rightarrow> if order_of ic > k then Some (order_of ic, l) else newest))"

definition newest_lane :: "(comment \<Rightarrow> bool) \<Rightarrow> comment list \<Rightarrow> string \<Rightarrow> lane option" where
  "newest_lane author cs branch = map_option snd (foldl (newest_step author branch) None (enumerate 0 cs))"

definition authoredBy :: "string option \<Rightarrow> comment \<Rightarrow> bool" where
  "authoredBy login c \<longleftrightarrow> (case login of
      None \<Rightarrow> False
    | Some l \<Rightarrow> l \<noteq> [] \<and> author_login c = Some (lower l))"

definition currentPickupLane :: "comment list \<Rightarrow> string option \<Rightarrow> string \<Rightarrow> lane option" where
  "currentPickupLane cs login branch = newest_lane (authoredBy login) cs branch"

definition currentTrustedPickupLane :: "comment list \<Rightarrow> trust \<Rightarrow> string \<Rightarrow> lane option" where
  "currentTrustedPickupLane cs t branch = newest_lane (isTrusted t) cs branch"

definition implementPickupRecordedBy :: "comment list \<Rightarrow> string option \<Rightarrow> string \<Rightarrow> bool" where
  "implementPickupRecordedBy cs login branch =
     list_ex (\<lambda>c. parseRunPickupRecord (c_body c) = Some (Implement, branch) \<and> authoredBy login c) cs"

record lane_reading =
  lr_lane :: lane
  lr_found :: bool

text \<open>\<open>None\<close> stands for a thread or a trust resolution that cannot be read.\<close>

definition readTrustedRunLane ::
  "(string \<Rightarrow> string option) \<Rightarrow> comment list option \<Rightarrow> string \<Rightarrow> string + lane_reading" where
  "readTrustedRunLane perm thread branch =
     (case thread of
        None \<Rightarrow> Inl ''run_lane_unverifiable''
      | Some cs \<Rightarrow>
          (let t = resolveExecutionObligationTrust perm cs
           in if list_ex (\<lambda>c. (case parseRunPickupRecord (c_body c) of
                                 Some (_, b) \<Rightarrow> b = branch | None \<Rightarrow> False) \<and> \<not> isResolved t c) cs
              then Inl ''run_lane_unverifiable''
              else let p = currentTrustedPickupLane cs t branch
                   in Inr \<lparr>lr_lane = (case p of Some l \<Rightarrow> l | None \<Rightarrow> Implement), lr_found = (p \<noteq> None)\<rparr>))"

text \<open>The refusal of a claimed lane that is not the recorded one.\<close>

definition laneClaimRefusal :: "lane_reading \<Rightarrow> string option \<Rightarrow> string option" where
  "laneClaimRefusal derived claimed =
     (case claimed of
        None \<Rightarrow> None
      | Some l \<Rightarrow> if l = lane_str (lr_lane derived) then None else Some ''lane_mismatch'')"

definition resolveTrustedRunLane ::
  "bool \<Rightarrow> (string \<Rightarrow> string option) \<Rightarrow> comment list option \<Rightarrow> string \<Rightarrow> string + lane_reading" where
  "resolveTrustedRunLane authorized perm thread branch =
     (if \<not> authorized then Inl ''run_lane_repo_not_authorized'' else readTrustedRunLane perm thread branch)"

text \<open>A record of the branch by an author the test accepts.\<close>

definition records :: "(comment \<Rightarrow> bool) \<Rightarrow> string \<Rightarrow> nat \<times> comment \<Rightarrow> lane \<Rightarrow> bool" where
  "records author branch ic l \<longleftrightarrow>
     parseRunPickupRecord (c_body (snd ic)) = Some (l, branch) \<and> author (snd ic)"

lemma newest_step_record:
  "records author branch ic l \<Longrightarrow> newest_step author branch newest ic =
     (case newest of None \<Rightarrow> Some (order_of ic, l)
      | Some (k, _) \<Rightarrow> if order_of ic > k then Some (order_of ic, l) else newest)"
  by (simp add: newest_step_def records_def)

lemma newest_step_other:
  "\<nexists>l. records author branch ic l \<Longrightarrow> newest_step author branch newest ic = newest"
  by (auto simp: newest_step_def records_def split: option.splits)

lemma newest_max:
  "case foldl (newest_step author branch) None ics of
     None \<Rightarrow> (\<forall>ic \<in> set ics. \<forall>l. \<not> records author branch ic l)
   | Some (k, l) \<Rightarrow> (\<exists>ic \<in> set ics. records author branch ic l \<and> order_of ic = k)
        \<and> (\<forall>ic \<in> set ics. \<forall>l'. records author branch ic l' \<longrightarrow> order_of ic \<le> k)"
proof (induction ics rule: rev_induct)
  case Nil
  then show ?case by simp
next
  case (snoc ic ics)
  have unique: "records author branch ic l \<Longrightarrow> records author branch ic l' \<Longrightarrow> l = l'" for l l'
    by (simp add: records_def)
  let ?n = "foldl (newest_step author branch) None ics"
  show ?case
  proof (cases "\<exists>l. records author branch ic l")
    case False
    then have "newest_step author branch ?n ic = ?n" by (rule newest_step_other)
    then show ?thesis using snoc.IH False by (cases ?n) auto
  next
    case True
    then obtain l where l: "records author branch ic l" by blast
    show ?thesis
    proof (cases ?n)
      case None
      then show ?thesis using snoc.IH l unique by (auto simp: newest_step_record [OF l])
    next
      case (Some p)
      obtain k l0 where p: "p = (k, l0)" by (cases p)
      show ?thesis
      proof (cases "order_of ic > k")
        case True
        have "\<forall>jc \<in> set ics. \<forall>l'. records author branch jc l' \<longrightarrow> order_of jc \<le> order_of ic"
          using snoc.IH Some True by (fastforce simp: p)
        then show ?thesis using Some True l by (simp add: newest_step_record [OF l] p)
      next
        case False
        then show ?thesis using snoc.IH Some by (simp add: newest_step_record [OF l] p)
      qed
    qed
  qed
qed

lemma enumerate_body: "ic \<in> set (enumerate k cs) \<Longrightarrow> snd ic \<in> set cs"
  by (cases ic) (auto simp: in_set_enumerate_eq)

text \<open>
  Evidence, never its absence, moves a branch out of the \<open>/implement\<close> lane: \<open>/quickfix\<close> is derived
  only from an exact pickup record for this branch by an author with write permission, which no
  permitted record of the branch outranks, on a thread where the permission of every pickup author of
  the branch was looked up.
\<close>

theorem quickfix_needs_record:
  assumes "readTrustedRunLane perm thread branch = Inr r" and "lr_lane r = Quickfix"
  shows "\<exists>cs i c. thread = Some cs \<and> (i, c) \<in> set (enumerate 0 cs) \<and> write_author perm c
     \<and> parseRunPickupRecord (c_body c) = Some (Quickfix, branch)
     \<and> list_all (\<lambda>(j, d). parseRunPickupRecord (c_body d) \<notin> {Some (Implement, branch), Some (Quickfix, branch)}
          \<or> \<not> write_author perm d \<or> order_of (j, d) \<le> order_of (i, c)) (enumerate 0 cs)
     \<and> list_all (\<lambda>d. parseRunPickupRecord (c_body d) \<notin> {Some (Implement, branch), Some (Quickfix, branch)}
          \<or> author_login d \<noteq> None) cs"
proof -
  from assms obtain cs where cs: "thread = Some cs"
    by (auto simp: readTrustedRunLane_def split: option.splits)
  let ?t = "resolveExecutionObligationTrust perm cs"
  have trust: "isTrusted ?t d = write_author perm d" if "d \<in> set cs" for d
    using that by (rule isTrusted_write_author)
  let ?n = "foldl (newest_step (isTrusted ?t) branch) None (enumerate 0 cs)"
  have q: "map_option snd ?n = Some Quickfix"
    and resolved: "\<not> list_ex (\<lambda>c. (case parseRunPickupRecord (c_body c) of Some (_, b) \<Rightarrow> b = branch | None \<Rightarrow> False)
        \<and> \<not> isResolved ?t c) cs"
    using assms by (auto simp: cs readTrustedRunLane_def Let_def currentTrustedPickupLane_def newest_lane_def
        split: if_splits option.splits)
  then obtain k where k: "?n = Some (k, Quickfix)" by auto
  from newest_max [where author = "isTrusted ?t" and branch = branch and ics = "enumerate 0 cs"] k
  obtain i c where ic: "(i, c) \<in> set (enumerate 0 cs)" "records (isTrusted ?t) branch (i, c) Quickfix" "order_of (i, c) = k"
    and top: "\<And>ic l'. ic \<in> set (enumerate 0 cs) \<Longrightarrow> records (isTrusted ?t) branch ic l' \<Longrightarrow> order_of ic \<le> k"
    by fastforce
  have c: "c \<in> set cs" using enumerate_body [OF ic(1)] by simp
  have "list_all (\<lambda>(j, d). parseRunPickupRecord (c_body d) \<notin> {Some (Implement, branch), Some (Quickfix, branch)}
          \<or> \<not> write_author perm d \<or> order_of (j, d) \<le> order_of (i, c)) (enumerate 0 cs)"
    unfolding list_all_iff
  proof (clarify)
    fix j d
    assume d: "(j, d) \<in> set (enumerate 0 cs)" "\<not> order_of (j, d) \<le> order_of (i, c)" "write_author perm d"
      and p: "parseRunPickupRecord (c_body d) \<in> {Some (Implement, branch), Some (Quickfix, branch)}"
    have "isTrusted ?t d" using trust enumerate_body [OF d(1)] d(3) by simp
    then have "\<exists>l. records (isTrusted ?t) branch (j, d) l" using p by (auto simp: records_def)
    then show False using top [OF d(1)] d(2) ic(3) by auto
  qed
  moreover have "list_all (\<lambda>d. parseRunPickupRecord (c_body d) \<notin> {Some (Implement, branch), Some (Quickfix, branch)}
          \<or> author_login d \<noteq> None) cs"
    using resolved by (auto simp: list_all_iff list_ex_iff isResolved_def split: option.splits)
  moreover have "write_author perm c" using ic(2) trust [OF c] by (simp add: records_def)
  moreover have "parseRunPickupRecord (c_body c) = Some (Quickfix, branch)" using ic(2) by (simp add: records_def)
  ultimately show ?thesis using cs ic(1) by blast
qed

section \<open>Witness\<close>

definition pickup_body :: string where
  "pickup_body = pickup_head @ ''quickfix - driver claude, branch `7-fix`, 2026-01-02T03:04:05.678Z.''"

lemma pickup_parsed: "parseRunPickupRecord pickup_body = Some (Quickfix, ''7-fix'')"
  by code_simp

lemma quickfix_needs_record_witness:
  "\<exists>i c. (i, c) \<in> set (enumerate 0 [said ''alice'' 3 pickup_body])
     \<and> parseRunPickupRecord (c_body c) = Some (Quickfix, ''7-fix'')"
proof -
  have "readTrustedRunLane two_writers (Some [said ''alice'' 3 pickup_body]) ''7-fix'' = Inr \<lparr>lr_lane = Quickfix, lr_found = True\<rparr>"
    by code_simp
  from quickfix_needs_record [OF this] show ?thesis by auto
qed

end
