(* ===== verification/CloseIssue.thy ===== *)
theory CloseIssue
  imports Json Thread
begin

text \<open>
  Closing an issue after its pull request merged (\<open>lib/close-issue.js\<close>), and the evidence that
  permits it: the final-report marker (\<open>lib/final-report-marker.js\<close>), the provenance of a finalizer
  run (\<open>lib/automation-provenance.js\<close>) and the merge-state override.

  The linked pull requests, the issue's state, the two reads of the thread, the Actions runs and
  the outcome of the closing call are parameters; the calls that change GitHub are recorded.
\<close>

section \<open>Markers\<close>

definition any_text :: "string \<Rightarrow> bool" where
  "any_text v = True"

text \<open>\<open>ATTRIBUTE_RE\<close>.\<close>

definition attribute :: "(string \<times> string) matcher" where
  "attribute s = do {
     (k, s1) \<leftarrow> run is_lower nonempty s;
     s2 \<leftarrow> lit [CHR ''='', dq] s1;
     (v, s3) \<leftarrow> run not_dq any_text s2;
     s4 \<leftarrow> lit [dq] s3;
     Some ((k, v), s4) }"

definition attributes :: "string \<Rightarrow> (string, string) jmap" where
  "attributes txt = foldl (\<lambda>m (k, v). jm_set k v m) [] (find_all attribute txt)"

definition positiveInt :: "string option \<Rightarrow> nat option" where
  "positiveInt raw = (case parse_int (case raw of Some r \<Rightarrow> r | None \<Rightarrow> []) of
      Some n \<Rightarrow> if 0 < n then Some (nat n) else None
    | None \<Rightarrow> None)"

text \<open>\<open>([^\n>]*?)\s*-->\<close>: the text up to the first close.\<close>

fun upto_close :: "string \<Rightarrow> (string \<times> string) option" where
  "upto_close s = (case marker_close s of
       Some r \<Rightarrow> Some ([], r)
     | None \<Rightarrow> (case s of
           [] \<Rightarrow> None
         | c # t \<Rightarrow> if c = nl \<or> c = CHR ''>'' then None
                    else map_option (\<lambda>(v, r). (c # v, r)) (upto_close t)))"

declare upto_close.simps [simp del]

definition attr_marker :: "string \<Rightarrow> string matcher" where
  "attr_marker tag s = do {
     s1 \<leftarrow> marker_open tag s;
     s2 \<leftarrow> ws1 s1;
     upto_close s2 }"

definition parseFinalReportMarkers :: "string \<Rightarrow> (nat option \<times> nat option) list" where
  "parseFinalReportMarkers body =
     map (\<lambda>txt. let a = attributes txt in (positiveInt (jm_get a ''issue''), positiveInt (jm_get a ''pr'')))
       (find_all (attr_marker ''gc:final-report'') body)"

definition parseFinalizerRunMarkers :: "string \<Rightarrow> (nat option \<times> nat option) list" where
  "parseFinalizerRunMarkers body =
     map (\<lambda>txt. let a = attributes txt in (positiveInt (jm_get a ''pr''), positiveInt (jm_get a ''id'')))
       (find_all (attr_marker ''gc:finalizer-run'') body)"

definition buildFinalizerRunMarker :: "nat \<Rightarrow> int \<Rightarrow> string list" where
  "buildFinalizerRunMarker pr run_id =
     (if run_id \<le> 0 then []
      else [''<!-- gc:finalizer-run'' @ attr_str ''pr'' (show_nat pr) @ attr_str ''id'' (show_int run_id) @ '' -->''])"

definition buildFinalReportMarker :: "nat \<Rightarrow> nat \<Rightarrow> string" where
  "buildFinalReportMarker issue pr =
     ''<!-- gc:final-report'' @ attr_str ''issue'' (show_nat issue) @ attr_str ''pr'' (show_nat pr) @ '' -->''"

section \<open>Provenance of a finalizer run\<close>

definition phase_e_workflow_path :: string where
  "phase_e_workflow_path = ''.github/workflows/ground-control-phase-e.yml''"

definition title_bound_events :: "string list" where
  "title_bound_events = [''pull_request'', ''workflow_dispatch'']"

text \<open>
  \<open>(^|\D)#?n(\D|$)\<close>: the number between non-digits; \<open>#\<close> is itself a non-digit, so the optional sign
  changes nothing. \<open>pd\<close> says whether the character before is a digit.
\<close>

fun title_binds :: "bool \<Rightarrow> string \<Rightarrow> string \<Rightarrow> bool" where
  "title_binds pd n [] = False"
| "title_binds pd n (c # s) =
     (\<not> pd \<and> (case lit n (c # s) of Some r \<Rightarrow> (case r of [] \<Rightarrow> True | d # _ \<Rightarrow> \<not> is_digit d) | None \<Rightarrow> False)
      \<or> title_binds (is_digit c) n s)"

definition runNameBindsPr :: "js \<Rightarrow> nat \<Rightarrow> bool" where
  "runNameBindsPr title pr = (case title of JStr s \<Rightarrow> title_binds False (show_nat pr) s | _ \<Rightarrow> False)"

definition lower_text :: "js \<Rightarrow> string" where
  "lower_text v = (case v of JStr s \<Rightarrow> lower s | _ \<Rightarrow> [])"

text \<open>\<open>runs k\<close> is the Actions record of run \<open>k\<close>, \<open>None\<close> where the lookup fails.\<close>

definition verifyFinalizerRunProvenance ::
  "string \<Rightarrow> (nat \<Rightarrow> js option) \<Rightarrow> nat \<Rightarrow> nat option \<Rightarrow> bool" where
  "verifyFinalizerRunProvenance slug runs pr runId =
     (case runId of
        None \<Rightarrow> False
      | Some k \<Rightarrow>
          if k = 0 then False
          else (case runs k of
             None \<Rightarrow> False
           | Some r \<Rightarrow>
               if fld r ''path'' \<noteq> JStr phase_e_workflow_path then False
               else if lower_text (fld (fld r ''repository'') ''full_name'') \<noteq> lower slug then False
               else if list_ex (\<lambda>p. fld p ''number'' = JInt (int pr))
                         (case fld r ''pull_requests'' of JArr ps \<Rightarrow> ps | _ \<Rightarrow> []) then True
               else if \<not> (case fld r ''event'' of JStr e \<Rightarrow> e \<in> set title_bound_events | _ \<Rightarrow> False) then False
               else runNameBindsPr (coalesce (fld r ''display_title'') (fld r ''name'')) pr))"

section \<open>The trusted final report\<close>

definition reports :: "nat \<Rightarrow> nat \<Rightarrow> comment \<Rightarrow> bool" where
  "reports issue pr c \<longleftrightarrow> (Some issue, Some pr) \<in> set (parseFinalReportMarkers (c_body c))"

record report_marker =
  rm_comment :: "int option"
  rm_via_automation :: bool

definition run_of :: "nat \<Rightarrow> comment \<Rightarrow> nat option" where
  "run_of pr c = (case find (\<lambda>m. fst m = Some pr) (parseFinalizerRunMarkers (c_body c)) of
      Some m \<Rightarrow> snd m | None \<Rightarrow> None)"

definition findTrustedFinalReportMarker ::
  "(string \<Rightarrow> string option) \<Rightarrow> string \<Rightarrow> (nat \<Rightarrow> js option) \<Rightarrow> comment list option \<Rightarrow> nat \<Rightarrow> nat \<Rightarrow> report_marker option" where
  "findTrustedFinalReportMarker perm slug runs thread issue pr =
     (case thread of
        None \<Rightarrow> None
      | Some comments \<Rightarrow>
          (let matching = filter (reports issue pr) comments
           in if matching = [] then None
              else
                (let trust = resolveExecutionObligationTrust perm comments
                 in case find (isTrusted trust) matching of
                      Some c \<Rightarrow> Some \<lparr>rm_comment = c_id c, rm_via_automation = False\<rparr>
                    | None \<Rightarrow>
                        map_option (\<lambda>c. \<lparr>rm_comment = c_id c, rm_via_automation = True\<rparr>)
                          (find (\<lambda>c. verifyFinalizerRunProvenance slug runs pr (run_of pr c))
                            (filter isRepositoryAutomationAuthor matching)))))"

section \<open>The override\<close>

text \<open>
  \<open>MERGE_STATE_OVERRIDE_RE\<close> on lower-case text: the first match, after a blank or at the start; the
  digits end at a word boundary.
\<close>

definition override_at :: "string \<Rightarrow> nat option" where
  "override_at s = do {
     s1 \<leftarrow> lit ''gc-authorize-merge-state-override'' s;
     s2 \<leftarrow> ws1 s1;
     s3 \<leftarrow> lit ''pr='' s2;
     (ds, r) \<leftarrow> run is_digit nonempty s3;
     (case r of [] \<Rightarrow> Some (dec_val ds) | c # _ \<Rightarrow> if word_char c then None else Some (dec_val ds)) }"

fun override_from :: "bool \<Rightarrow> string \<Rightarrow> nat option" where
  "override_from blank [] = None"
| "override_from blank (c # s) =
     (case (if blank then override_at (c # s) else None) of
        Some n \<Rightarrow> Some n
      | None \<Rightarrow> override_from (is_ws c) s)"

definition override_pr :: "string \<Rightarrow> nat option" where
  "override_pr body = override_from True (lower body)"

text \<open>The reason of the authorizing comment, \<open>None\<close> where nothing authorizes.\<close>

definition readTrustedMergeStateOverride ::
  "(string \<Rightarrow> string option) \<Rightarrow> comment list \<Rightarrow> nat \<Rightarrow> string option" where
  "readTrustedMergeStateOverride perm comments pr =
     (let candidates = filter (\<lambda>c. override_pr (c_body c) = Some pr) comments
      in if candidates = [] then None
         else map_option (\<lambda>c. take 300 (trim (c_body c)))
                (find (isTrusted (resolveExecutionObligationTrust perm comments)) candidates))"

section \<open>Closing\<close>

record pull_request =
  pl_number :: nat
  pl_state :: "string option"
  pl_merged_at :: "string option"
  pl_url :: "string option"

definition merged :: "pull_request \<Rightarrow> bool" where
  "merged p \<longleftrightarrow> pl_state p = Some ''MERGED'' \<and> (case pl_merged_at p of Some t \<Rightarrow> t \<noteq> [] | None \<Rightarrow> False)"

text \<open>\<open>linked\<close> is the list the issue's timeline gives, \<open>None\<close> where the lookup fails.\<close>

definition resolvePrForClose :: "pull_request list option \<Rightarrow> nat option \<Rightarrow> string + pull_request" where
  "resolvePrForClose linked prNumber =
     (case linked of
        None \<Rightarrow> Inl ''close_pr_lookup_failed''
      | Some prs \<Rightarrow>
          (case prNumber of
             None \<Rightarrow>
               (case find merged prs of
                  Some p \<Rightarrow> Inr p
                | None \<Rightarrow> (case prs of [] \<Rightarrow> Inl ''close_no_linked_pr'' | p # _ \<Rightarrow> Inr p))
           | Some n \<Rightarrow>
               (case find (\<lambda>p. pl_number p = n) prs of
                  None \<Rightarrow> Inl ''close_pr_not_linked_to_issue''
                | Some p \<Rightarrow> Inr p)))"

datatype close_call = CloseCall nat | DropLabel nat

datatype close_result =
    CloseThrew
  | CloseRefused string
  | Closed bool pull_request

record close_env =
  ce_authorized :: bool
  ce_slug :: string
  ce_linked :: "nat \<Rightarrow> pull_request list option"
  ce_issue :: "js option"
  ce_report_thread :: "comment list option"
  ce_override_thread :: "comment list option"
  ce_perm :: "string \<Rightarrow> string option"
  ce_runs :: "nat \<Rightarrow> js option"
  ce_patch_ok :: bool

text \<open>\<open>None\<close> where the second read of the thread fails.\<close>

definition close_authorized :: "close_env \<Rightarrow> nat \<Rightarrow> nat \<Rightarrow> bool option" where
  "close_authorized env issue pr =
     (if findTrustedFinalReportMarker (ce_perm env) (ce_slug env) (ce_runs env) (ce_report_thread env) issue pr \<noteq> None
      then Some True
      else map_option (\<lambda>cs. readTrustedMergeStateOverride (ce_perm env) cs pr \<noteq> None) (ce_override_thread env))"

text \<open>The answer of the lookup is the parsed JSON; reading \<open>state\<close> of \<open>null\<close> throws inside the same \<open>try\<close>.\<close>

definition closeIssueIdempotently :: "close_env \<Rightarrow> nat \<Rightarrow> pull_request \<Rightarrow> close_result \<times> close_call list" where
  "closeIssueIdempotently env issue p =
     (case ce_issue env of
        None \<Rightarrow> (CloseRefused ''close_issue_lookup_failed'', [])
      | Some i \<Rightarrow>
          if nullish i then (CloseRefused ''close_issue_lookup_failed'', [])
          else if fld i ''state'' = JStr ''closed'' then (Closed True p, [DropLabel issue])
          else (case close_authorized env issue (pl_number p) of
             None \<Rightarrow> (CloseRefused ''close_final_report_lookup_failed'', [])
           | Some False \<Rightarrow> (CloseRefused ''close_requirement_state_unverified'', [])
           | Some True \<Rightarrow>
               if ce_patch_ok env then (Closed False p, [CloseCall issue, DropLabel issue])
               else (CloseRefused ''close_issue_patch_failed'', [CloseCall issue])))"

definition runCloseIssueAfterMerge :: "close_env \<Rightarrow> js \<Rightarrow> js \<Rightarrow> close_result \<times> close_call list" where
  "runCloseIssueAfterMerge env issueNumber prNumber =
     (if \<not> is_pos_int issueNumber then (CloseThrew, [])
      else if \<not> nullish prNumber \<and> \<not> is_pos_int prNumber then (CloseThrew, [])
      else if \<not> ce_authorized env then (CloseRefused ''close_repo_not_authorized'', [])
      else
        (let issue = nat (the (as_int issueNumber))
         in case resolvePrForClose (ce_linked env issue)
                   (if nullish prNumber then None else Some (nat (the (as_int prNumber)))) of
              Inl e \<Rightarrow> (CloseRefused e, [])
            | Inr p \<Rightarrow>
                if \<not> merged p then (CloseRefused ''close_pr_not_merged'', [])
                else closeIssueIdempotently env issue p))"

section \<open>What a close rests on\<close>

text \<open>An Actions run of this repository's finalizer that GitHub binds to the pull request.\<close>

definition finalizer_run :: "string \<Rightarrow> nat \<Rightarrow> js \<Rightarrow> bool" where
  "finalizer_run slug pr r \<longleftrightarrow>
     fld r ''path'' = JStr phase_e_workflow_path
     \<and> lower_text (fld (fld r ''repository'') ''full_name'') = lower slug
     \<and> (list_ex (\<lambda>p. fld p ''number'' = JInt (int pr)) (case fld r ''pull_requests'' of JArr ps \<Rightarrow> ps | _ \<Rightarrow> [])
        \<or> runNameBindsPr (coalesce (fld r ''display_title'') (fld r ''name'')) pr)"

lemma provenance_sound:
  "verifyFinalizerRunProvenance slug runs pr runId \<Longrightarrow> \<exists>k r. runId = Some k \<and> runs k = Some r \<and> finalizer_run slug pr r"
  by (auto simp: verifyFinalizerRunProvenance_def finalizer_run_def split: option.splits if_splits)

lemma find_in: "find P xs = Some x \<Longrightarrow> x \<in> set xs \<and> P x"
  by (induction xs) (auto split: if_splits)

lemma report_sound:
  assumes "findTrustedFinalReportMarker perm slug runs thread issue pr = Some m"
  shows "\<exists>cs c. thread = Some cs \<and> c \<in> set cs \<and> reports issue pr c
     \<and> (if rm_via_automation m
        then isRepositoryAutomationAuthor c
          \<and> (\<exists>k r. run_of pr c = Some k \<and> runs k = Some r \<and> finalizer_run slug pr r)
        else write_author perm c)"
proof -
  from assms obtain cs where cs: "thread = Some cs"
    by (auto simp: findTrustedFinalReportMarker_def split: option.splits)
  let ?f = "find (isTrusted (resolveExecutionObligationTrust perm cs)) (filter (reports issue pr) cs)"
  show ?thesis
  proof (cases ?f)
    case (Some c)
    then have "m = \<lparr>rm_comment = c_id c, rm_via_automation = False\<rparr>"
      using assms by (auto simp: findTrustedFinalReportMarker_def cs Let_def split: if_splits)
    then show ?thesis using find_in [OF Some] trusted_write cs by auto
  next
    case None
    then obtain c where "find (\<lambda>c. verifyFinalizerRunProvenance slug runs pr (run_of pr c))
        (filter isRepositoryAutomationAuthor (filter (reports issue pr) cs)) = Some c"
      "m = \<lparr>rm_comment = c_id c, rm_via_automation = True\<rparr>"
      using assms by (auto simp: findTrustedFinalReportMarker_def cs Let_def simp del: filter_filter split: if_splits)
    then show ?thesis using find_in provenance_sound cs by fastforce
  qed
qed

lemma override_sound:
  assumes "readTrustedMergeStateOverride perm cs pr = Some why"
  shows "\<exists>c \<in> set cs. override_pr (c_body c) = Some pr \<and> write_author perm c"
proof -
  from assms obtain c where
    "find (isTrusted (resolveExecutionObligationTrust perm cs)) (filter (\<lambda>c. override_pr (c_body c) = Some pr) cs) = Some c"
    by (auto simp: readTrustedMergeStateOverride_def Let_def split: if_splits)
  from find_in [OF this] trusted_write show ?thesis by auto
qed

lemma resolve_linked:
  "resolvePrForClose linked prNumber = Inr p \<Longrightarrow> \<exists>prs. linked = Some prs \<and> p \<in> set prs
     \<and> (case prNumber of Some n \<Rightarrow> pl_number p = n | None \<Rightarrow> True)"
  by (auto simp: resolvePrForClose_def dest: find_in split: option.splits list.splits)

text \<open>
  C20. An issue is closed only on validated evidence: the call that closes it is made only through a
  merged pull request the issue's own timeline links to, and only when a final report for
  exactly this issue and pull request was posted by an author with write permission, or by the Actions
  identity with a run of this repository's finalizer bound to the pull request, or when an
  author with write permission named the pull request in an override.
\<close>

theorem close_needs_evidence:
  assumes "runCloseIssueAfterMerge env issueNumber prNumber = (r, calls)" and "CloseCall n \<in> set calls"
  shows "issueNumber = JInt (int n) \<and> (\<exists>prs p. ce_linked env n = Some prs \<and> p \<in> set prs \<and> merged p
     \<and> (prNumber = JInt (int (pl_number p)) \<or> nullish prNumber)
     \<and> ((\<exists>cs c. ce_report_thread env = Some cs \<and> c \<in> set cs \<and> reports n (pl_number p) c \<and> write_author (ce_perm env) c)
        \<or> (\<exists>cs c k run. ce_report_thread env = Some cs \<and> c \<in> set cs \<and> reports n (pl_number p) c
              \<and> isRepositoryAutomationAuthor c \<and> run_of (pl_number p) c = Some k
              \<and> ce_runs env k = Some run \<and> finalizer_run (ce_slug env) (pl_number p) run)
        \<or> (\<exists>cs c. ce_override_thread env = Some cs \<and> c \<in> set cs \<and> override_pr (c_body c) = Some (pl_number p)
              \<and> write_author (ce_perm env) c)))"
proof -
  note run = assms(1) [unfolded runCloseIssueAfterMerge_def Let_def]
  have i: "is_pos_int issueNumber" "nullish prNumber \<or> is_pos_int prNumber"
    using run assms(2) by (auto split: if_splits)
  from i(1) obtain k where k: "issueNumber = JInt k" "0 < k" by (auto simp: is_pos_int_iff)
  let ?pn = "if nullish prNumber then None else Some (nat (the (as_int prNumber)))"
  obtain p where p: "resolvePrForClose (ce_linked env (nat k)) ?pn = Inr p" "merged p"
    "closeIssueIdempotently env (nat k) p = (r, calls)"
    using run assms(2) by (auto simp: k split: if_splits sum.splits)
  have n: "n = nat k" "close_authorized env (nat k) (pl_number p) = Some True"
    using p(3) assms(2) by (auto simp: closeIssueIdempotently_def split: option.splits if_splits bool.splits)
  obtain prs where prs: "ce_linked env (nat k) = Some prs" "p \<in> set prs"
    "case ?pn of Some n \<Rightarrow> pl_number p = n | None \<Rightarrow> True"
    using resolve_linked [OF p(1)] by blast
  have num: "prNumber = JInt (int (pl_number p)) \<or> nullish prNumber"
    using i(2) prs(3) by (auto simp: is_pos_int_iff split: if_splits)
  let ?E = "(\<exists>cs c. ce_report_thread env = Some cs \<and> c \<in> set cs \<and> reports n (pl_number p) c \<and> write_author (ce_perm env) c)
        \<or> (\<exists>cs c k run. ce_report_thread env = Some cs \<and> c \<in> set cs \<and> reports n (pl_number p) c
              \<and> isRepositoryAutomationAuthor c \<and> run_of (pl_number p) c = Some k
              \<and> ce_runs env k = Some run \<and> finalizer_run (ce_slug env) (pl_number p) run)
        \<or> (\<exists>cs c. ce_override_thread env = Some cs \<and> c \<in> set cs \<and> override_pr (c_body c) = Some (pl_number p)
              \<and> write_author (ce_perm env) c)"
  have ?E
  proof (cases "findTrustedFinalReportMarker (ce_perm env) (ce_slug env) (ce_runs env) (ce_report_thread env) (nat k) (pl_number p)")
    case (Some m)
    from report_sound [OF Some] show ?thesis unfolding n(1) by (cases "rm_via_automation m") auto
  next
    case None
    then obtain cs why where o: "ce_override_thread env = Some cs"
      "readTrustedMergeStateOverride (ce_perm env) cs (pl_number p) = Some why"
      using n(2) by (auto simp: close_authorized_def)
    from override_sound [OF o(2)] o(1) show ?thesis by blast
  qed
  moreover have "issueNumber = JInt (int n)" "ce_linked env n = Some prs" using k n(1) prs(1) by simp_all
  ultimately show ?thesis using prs(2) p(2) num by blast
qed

lemma idempotent_calls:
  assumes "closeIssueIdempotently env n p = (r, calls)"
  shows "(r = Closed True p \<and> calls = [DropLabel n]
          \<and> (\<exists>i. ce_issue env = Some i \<and> \<not> nullish i \<and> fld i ''state'' = JStr ''closed''))
     \<or> (r = Closed False p \<and> calls = [CloseCall n, DropLabel n] \<and> ce_patch_ok env
          \<and> (\<exists>i. ce_issue env = Some i \<and> \<not> nullish i \<and> fld i ''state'' \<noteq> JStr ''closed''))
     \<or> (r = CloseRefused ''close_issue_patch_failed'' \<and> calls = [CloseCall n] \<and> \<not> ce_patch_ok env
          \<and> (\<exists>i. ce_issue env = Some i \<and> \<not> nullish i \<and> fld i ''state'' \<noteq> JStr ''closed''))
     \<or> (\<exists>e. r = CloseRefused e \<and> calls = [])"
  using assms unfolding closeIssueIdempotently_def
  by (auto split: option.splits if_splits bool.splits)

text \<open>
  C21. Closing is idempotent and the label follows it: an issue that is closed already is not closed
  again, the pickup label is dropped only where the issue was closed before or the closing
  call just succeeded, success is reported in exactly these cases, and every call is about the issue that was named.
\<close>

theorem close_effects:
  assumes "runCloseIssueAfterMerge env issueNumber prNumber = (r, calls)"
  shows "(\<exists>p n i. issueNumber = JInt (int n) \<and> r = Closed True p \<and> calls = [DropLabel n]
          \<and> ce_issue env = Some i \<and> \<not> nullish i \<and> fld i ''state'' = JStr ''closed'')
     \<or> (\<exists>p n i. issueNumber = JInt (int n) \<and> r = Closed False p \<and> calls = [CloseCall n, DropLabel n] \<and> ce_patch_ok env
          \<and> ce_issue env = Some i \<and> \<not> nullish i \<and> fld i ''state'' \<noteq> JStr ''closed'')
     \<or> (\<exists>n i. issueNumber = JInt (int n) \<and> r = CloseRefused ''close_issue_patch_failed'' \<and> calls = [CloseCall n]
          \<and> \<not> ce_patch_ok env
          \<and> ce_issue env = Some i \<and> \<not> nullish i \<and> fld i ''state'' \<noteq> JStr ''closed'')
     \<or> (\<exists>e. r = CloseRefused e \<and> calls = []) \<or> r = CloseThrew \<and> calls = []"
proof (cases "\<exists>k p. is_pos_int issueNumber \<and> as_int issueNumber = Some k \<and> closeIssueIdempotently env (nat k) p = (r, calls)")
  case True
  then obtain k p where k: "issueNumber = JInt k" "0 < k" and c: "closeIssueIdempotently env (nat k) p = (r, calls)"
    by (auto simp: is_pos_int_iff)
  have "issueNumber = JInt (int (nat k))" using k by simp
  then show ?thesis using idempotent_calls [OF c] by blast
next
  case False
  have "(\<exists>e. r = CloseRefused e) \<and> calls = [] \<or> r = CloseThrew \<and> calls = []"
    using assms False
    by (auto simp: runCloseIssueAfterMerge_def Let_def is_pos_int_iff split: if_splits sum.splits)
  then show ?thesis by blast
qed

section \<open>Witnesses\<close>

definition merged_pr :: pull_request where
  "merged_pr = \<lparr>pl_number = 31, pl_state = Some ''MERGED'', pl_merged_at = Some ''2026-01-01'', pl_url = None\<rparr>"

definition close_sample :: close_env where
  "close_sample = \<lparr>ce_authorized = True, ce_slug = ''own/repo'', ce_linked = (\<lambda>_. Some [merged_pr]),
     ce_issue = Some (JObj [(''state'', JStr ''open'')]),
     ce_report_thread = Some [said ''alice'' 3 (buildFinalReportMarker 7 31)], ce_override_thread = None,
     ce_perm = two_writers, ce_runs = (\<lambda>_. None), ce_patch_ok = True\<rparr>"

lemma sample_report: "parseFinalReportMarkers (buildFinalReportMarker 7 31) = [(Some 7, Some 31)]"
  by code_simp

lemma sample_trust: "isTrusted (resolveExecutionObligationTrust two_writers [said ''alice'' 3 b]) (said ''alice'' 3 b)"
  using isTrusted_write_author [of "said ''alice'' 3 b" "[said ''alice'' 3 b]" two_writers] by simp

lemma close_sample_run:
  "runCloseIssueAfterMerge close_sample (JInt 7) JNull = (Closed False merged_pr, [CloseCall 7, DropLabel 7])"
  by (simp add: runCloseIssueAfterMerge_def is_pos_int_def nullish_def close_sample_def resolvePrForClose_def merged_def
      merged_pr_def closeIssueIdempotently_def close_authorized_def findTrustedFinalReportMarker_def reports_def
      sample_report sample_trust)

lemma close_needs_evidence_witness:
  "\<exists>prs. ce_linked close_sample 7 = Some prs"
  using close_needs_evidence [OF close_sample_run, of 7] by auto

lemma close_effects_witness: "ce_patch_ok close_sample"
  using close_effects [OF close_sample_run] by simp

end
