(* ===== verification/IssueScope.thy ===== *)
theory IssueScope
  imports FailureDiagnostics
begin

text \<open>
  The \<open>## Requirements\<close> section of an issue body (\<open>lib/issue-requirements-scope.js\<close>): the reader
  that every gate runs, and the transformer that adds and removes requirement identifiers.

  Issue bodies are arbitrary text with line endings of either kind, so they are lists of UTF-16
  code units here. Errors are their codes; message prose is left out.
\<close>

section \<open>Requirement identifiers\<close>

definition u_digit :: "16 word \<Rightarrow> bool" where
  "u_digit u \<longleftrightarrow> 0x30 \<le> u \<and> u \<le> 0x39"

definition u_upper :: "16 word \<Rightarrow> bool" where
  "u_upper u \<longleftrightarrow> 0x41 \<le> u \<and> u \<le> 0x5A"

definition u_lower :: "16 word \<Rightarrow> bool" where
  "u_lower u \<longleftrightarrow> 0x61 \<le> u \<and> u \<le> 0x7A"

definition u_caps :: "16 word \<Rightarrow> bool" where
  "u_caps u \<longleftrightarrow> u_upper u \<or> u_digit u"

definition u_alnum :: "16 word \<Rightarrow> bool" where
  "u_alnum u \<longleftrightarrow> u_caps u \<or> u_lower u"

abbreviation u_nl :: "16 word" where "u_nl \<equiv> 0x0A"
abbreviation u_cr :: "16 word" where "u_cr \<equiv> 0x0D"
abbreviation u_sp :: "16 word" where "u_sp \<equiv> 0x20"

text \<open>\<open>EXACT_REQUIREMENT_UID_RE\<close>.\<close>

definition exact_requirement_uid :: "ustr \<Rightarrow> bool" where
  "exact_requirement_uid t =
     (case t of
        [] \<Rightarrow> False
      | c # r \<Rightarrow> u_alnum c \<and> length r \<le> 49
                  \<and> list_all (\<lambda>u. u_alnum u \<or> u = 0x2E \<or> u = 0x5F \<or> u = 0x2D) r)"

text \<open>
  \<open>PR_REQUIREMENT_RE\<close> matching the whole token: hyphenated groups of capitals and digits, the
  first opened by a letter, the last closed by a digit, every group between them nonempty.
\<close>

definition pr_requirement_token :: "ustr \<Rightarrow> bool" where
  "pr_requirement_token t =
     (case split_on 0x2D t of
        first # rest \<Rightarrow>
          rest \<noteq> [] \<and> (case first of c # _ \<Rightarrow> u_upper c | [] \<Rightarrow> False)
          \<and> list_all (\<lambda>g. g \<noteq> []) rest \<and> u_digit (last (last rest))
          \<and> list_all (list_all u_caps) (first # rest)
      | [] \<Rightarrow> False)"

definition isRequirementUidToken :: "ustr \<Rightarrow> bool" where
  "isRequirementUidToken t \<longleftrightarrow> exact_requirement_uid t \<and> pr_requirement_token t"

definition stripUidTokenWrappers :: "ustr \<Rightarrow> ustr" where
  "stripUidTokenWrappers t =
     rev (dropWhile (\<lambda>u. u \<in> set (units ''`)].:'')) (rev (dropWhile (\<lambda>u. u \<in> set (units ''`[('')) t)))"

section \<open>Lines\<close>

record line =
  ln_text :: ustr
  ln_term :: ustr

text \<open>The loop over the text, with the line read so far.\<close>

fun split_lines_from :: "ustr \<Rightarrow> ustr \<Rightarrow> line list" where
  "split_lines_from acc [] = (if acc = [] then [] else [\<lparr>ln_text = acc, ln_term = []\<rparr>])"
| "split_lines_from acc (c # cs) =
     (if c \<noteq> u_nl then split_lines_from (acc @ [c]) cs
      else (if acc \<noteq> [] \<and> last acc = u_cr
            then \<lparr>ln_text = butlast acc, ln_term = [u_cr, u_nl]\<rparr>
            else \<lparr>ln_text = acc, ln_term = [u_nl]\<rparr>) # split_lines_from [] cs)"

definition splitLinesWithTerminators :: "ustr \<Rightarrow> line list" where
  "splitLinesWithTerminators text = split_lines_from [] text"

definition line_units :: "line \<Rightarrow> ustr" where
  "line_units l = ln_text l @ ln_term l"

definition joinLines :: "line list \<Rightarrow> ustr" where
  "joinLines ls = concat (map line_units ls)"

text \<open>\<open>.\<close> matches anything but these.\<close>

definition u_line_end :: "16 word \<Rightarrow> bool" where
  "u_line_end u \<longleftrightarrow> u = u_nl \<or> u = u_cr \<or> u = 0x2028 \<or> u = 0x2029"

text \<open>\<open>REQUIREMENTS_HEADING_RE\<close>: the level and the title.\<close>

definition heading_of :: "ustr \<Rightarrow> (nat \<times> ustr) option" where
  "heading_of t =
     (let n = length (takeWhile (\<lambda>u. u = 0x23) t)
      in case dropWhile (\<lambda>u. u = 0x23) t of
           c # r \<Rightarrow> if 1 \<le> n \<and> n \<le> 6 \<and> ws_unit c \<and> r \<noteq> [] \<and> list_all (\<lambda>u. \<not> u_line_end u) r
                     then Some (n, r) else None
         | [] \<Rightarrow> None)"

text \<open>\<open>REQUIREMENTS_BULLET_RE\<close>: what follows the bullet.\<close>

definition bullet_of :: "ustr \<Rightarrow> ustr option" where
  "bullet_of t =
     (case dropWhile ws_unit t of
        b # c # r \<Rightarrow>
          (let rest = dropWhile ws_unit r
           in if (b = 0x2D \<or> b = 0x2A \<or> b = 0x2B) \<and> ws_unit c
                 \<and> rest \<noteq> [] \<and> list_all (\<lambda>u. \<not> u_line_end u) rest
              then Some rest else None)
      | _ \<Rightarrow> None)"

definition u_lower_case :: "16 word \<Rightarrow> 16 word" where
  "u_lower_case u = (if u_upper u then u + 0x20 else u)"

text \<open>
  \<open>title.trim().toLowerCase() === "requirements"\<close>. No unit outside ASCII has one of these letters as
  its whole lower case.
\<close>

definition is_requirements_title :: "ustr \<Rightarrow> bool" where
  "is_requirements_title t \<longleftrightarrow> map u_lower_case (utrim t) = units ''requirements''"

record scope_section =
  sec_level :: nat
  sec_start :: nat
  sec_end :: nat

text \<open>The loop over the lines: the offset and the section opened so far.\<close>

fun locate_from :: "nat \<Rightarrow> (nat \<times> nat) option \<Rightarrow> line list \<Rightarrow> scope_section option" where
  "locate_from off opened [] =
     (case opened of None \<Rightarrow> None
      | Some (lvl, start) \<Rightarrow> Some \<lparr>sec_level = lvl, sec_start = start, sec_end = off\<rparr>)"
| "locate_from off opened (l # ls) =
     (let off' = off + length (line_units l)
      in case heading_of (ln_text l) of
           None \<Rightarrow> locate_from off' opened ls
         | Some (n, title) \<Rightarrow>
             (case opened of
                None \<Rightarrow> locate_from off'
                          (if 2 \<le> n \<and> n \<le> 4 \<and> is_requirements_title title then Some (n, off') else None) ls
              | Some (lvl, start) \<Rightarrow>
                  if n \<le> lvl then Some \<lparr>sec_level = lvl, sec_start = start, sec_end = off\<rparr>
                  else locate_from off' opened ls))"

definition locateRequirementsSection :: "ustr \<Rightarrow> scope_section option" where
  "locateRequirementsSection body = locate_from 0 None (splitLinesWithTerminators body)"

text \<open>\<open>text.slice(a, b)\<close>.\<close>

definition uslice :: "nat \<Rightarrow> nat \<Rightarrow> ustr \<Rightarrow> ustr" where
  "uslice a b t = take (b - a) (drop a t)"

section \<open>Reading the scope\<close>

definition u_sep :: "16 word \<Rightarrow> bool" where
  "u_sep u \<longleftrightarrow> ws_unit u \<or> u = 0x2C \<or> u = 0x3B"

text \<open>\<open>t.split(/[\s,;]+/)\<close>.\<close>

function split_tokens :: "ustr \<Rightarrow> ustr list" where
  "split_tokens t =
     takeWhile (\<lambda>u. \<not> u_sep u) t
       # (case dropWhile (\<lambda>u. \<not> u_sep u) t of
            [] \<Rightarrow> [] | _ # r \<Rightarrow> split_tokens (dropWhile u_sep r))"
  by pat_completeness auto
termination
proof (relation "measure length", simp, simp)
  fix t x21 :: "16 word" and x22 s
  assume "dropWhile (\<lambda>u. \<not> u_sep u) s = x21 # x22"
  then have "length (x21 # x22) \<le> length s" by (metis length_dropWhile_le)
  then show "length (dropWhile u_sep x22) < length s"
    using length_dropWhile_le [of u_sep x22] by simp
qed

declare split_tokens.simps [simp del]

definition requirementUidsFromBullet :: "ustr \<Rightarrow> ustr list" where
  "requirementUidsFromBullet t =
     (case bullet_of t of
        None \<Rightarrow> []
      | Some r \<Rightarrow> takeWhile isRequirementUidToken (map stripUidTokenWrappers (split_tokens r)))"

definition requirementsSectionLines :: "ustr \<Rightarrow> ustr list" where
  "requirementsSectionLines body =
     (case locateRequirementsSection body of
        None \<Rightarrow> []
      | Some s \<Rightarrow> map ln_text (splitLinesWithTerminators (uslice (sec_start s) (sec_end s) body)))"

text \<open>The result list holds exactly what the code's \<open>seen\<close> set holds.\<close>

definition add_unseen :: "ustr list \<Rightarrow> ustr \<Rightarrow> ustr list" where
  "add_unseen res u = (if u \<in> set res then res else res @ [u])"

definition extractInScopeRequirementUids :: "ustr \<Rightarrow> ustr list" where
  "extractInScopeRequirementUids body =
     foldl add_unseen [] (concat (map requirementUidsFromBullet (requirementsSectionLines body)))"

section \<open>Writing the scope\<close>

function collapse_ws :: "ustr \<Rightarrow> ustr" where
  "collapse_ws [] = []"
| "collapse_ws (c # cs) =
     (if ws_unit c then u_sp # collapse_ws (dropWhile ws_unit cs) else c # collapse_ws cs)"
  by pat_completeness auto
termination
  by (relation "measure length") (auto simp: less_Suc_eq_le length_dropWhile_le)

definition em_dash :: "16 word" where
  "em_dash = 0x2014"

text \<open>The title of an identifier is absent where \<open>titleByUid\<close> has no string for it.\<close>

definition renderRequirementBullet :: "ustr \<Rightarrow> ustr option \<Rightarrow> ustr" where
  "renderRequirementBullet uid title =
     (let text = (case title of None \<Rightarrow> [] | Some t \<Rightarrow> utrim (collapse_ws t))
      in if text \<noteq> [] then units ''- '' @ uid @ [u_sp, em_dash, u_sp] @ text else units ''- '' @ uid)"

fun count_crlf :: "ustr \<Rightarrow> nat" where
  "count_crlf (a # b # r) =
     (if a = u_cr \<and> b = u_nl then Suc (count_crlf r) else count_crlf (b # r))"
| "count_crlf _ = 0"

definition dominantEol :: "ustr \<Rightarrow> ustr" where
  "dominantEol body =
     (let crlf = count_crlf body; lf = length (filter (\<lambda>u. u = u_nl) body) - crlf
      in if crlf > lf then [u_cr, u_nl] else [u_nl])"

definition sectionAppendSeparator :: "ustr \<Rightarrow> ustr \<Rightarrow> ustr" where
  "sectionAppendSeparator body eol =
     (if body = [] then []
      else if \<not> ends_with eol body then eol @ eol
      else if \<not> ends_with (eol @ eol) body then eol
      else [])"

definition sameOrderedUids :: "ustr list \<Rightarrow> ustr list \<Rightarrow> bool" where
  "sameOrderedUids a b \<longleftrightarrow> length a = length b \<and> list_all2 (=) a b"

definition scope_line :: "line \<Rightarrow> bool" where
  "scope_line l \<longleftrightarrow> requirementUidsFromBullet (ln_text l) \<noteq> []"

definition blank_line :: "line \<Rightarrow> bool" where
  "blank_line l \<longleftrightarrow> utrim (ln_text l) = []"

text \<open>
  The lines that stay, and how many of them precede the first scope-bearing one
  (\<open>replaceAt\<close>, \<open>None\<close> for \<open>-1\<close>).
\<close>

definition rebuild_step :: "line list \<times> nat option \<Rightarrow> line \<Rightarrow> line list \<times> nat option" where
  "rebuild_step st l =
     (if scope_line l then (fst st, if snd st = None then Some (length (fst st)) else snd st)
      else (fst st @ [l], snd st))"

definition rebuildSectionContent :: "ustr \<Rightarrow> ustr list \<Rightarrow> ustr \<Rightarrow> ustr" where
  "rebuildSectionContent content bullets eol =
     (let (kept, replaceAt) = foldl rebuild_step ([], None) (splitLinesWithTerminators content);
          block = map (\<lambda>t. \<lparr>ln_text = t, ln_term = eol\<rparr>) bullets;
          empty = \<lparr>ln_text = [], ln_term = eol\<rparr>
      in if block = [] then joinLines kept
         else case replaceAt of
           Some i \<Rightarrow> joinLines (take i kept @ block @ drop i kept)
         | None \<Rightarrow>
             (let start = length (takeWhile blank_line kept);
                  stop = max start (length kept - length (takeWhile blank_line (rev kept)));
                  separator = (if stop > start then [empty] else []);
                  trailing = (if stop = length kept then [empty] else [])
              in joinLines (take stop kept @ separator @ block @ trailing @ drop stop kept)))"

definition renderBodyWithScope :: "ustr \<Rightarrow> ustr list \<Rightarrow> (ustr \<Rightarrow> ustr option) \<Rightarrow> ustr" where
  "renderBodyWithScope body uids titleByUid =
     (let eol = dominantEol body;
          bullets = map (\<lambda>u. renderRequirementBullet u (titleByUid u)) uids
      in case locateRequirementsSection body of
           None \<Rightarrow> body @ sectionAppendSeparator body eol @ units ''## Requirements'' @ eol @ eol
                     @ concat (map (\<lambda>b. b @ eol) bullets)
         | Some s \<Rightarrow>
             (let content = rebuildSectionContent (uslice (sec_start s) (sec_end s) body) bullets eol;
                  separator = (if body ! (sec_start s - 1) = u_nl then [] else eol @ eol)
              in take (sec_start s) body @ separator @ content @ drop (sec_end s) body))"

section \<open>The operation\<close>

text \<open>The arguments arrive unchecked; an identifier that passes is ASCII.\<close>

definition validateRequirementScopeInput :: "js \<Rightarrow> js \<Rightarrow> string option" where
  "validateRequirementScopeInput operation uids =
     (if operation \<noteq> JStr ''add'' \<and> operation \<noteq> JStr ''remove'' then Some ''issue_requirements_operation_invalid''
      else case uids of
        JArr us \<Rightarrow>
          if us = [] \<or> \<not> list_all (\<lambda>u. case u of JStr s \<Rightarrow> exact_requirement_uid (units s) | _ \<Rightarrow> False) us
          then Some ''issue_requirements_uids_invalid''
          else if \<not> distinct us then Some ''issue_requirements_uids_duplicated''
          else None
      | _ \<Rightarrow> Some ''issue_requirements_uids_invalid'')"

definition uid_units :: "js \<Rightarrow> ustr list" where
  "uid_units uids = (case uids of JArr us \<Rightarrow> map (\<lambda>u. units ((case u of JStr s \<Rightarrow> s | _ \<Rightarrow> []))) us | _ \<Rightarrow> [])"

record intended_scope =
  is_current :: "ustr list"
  is_intended :: "ustr list"
  is_changed :: bool

definition resolveIntendedScope :: "ustr \<Rightarrow> js \<Rightarrow> js \<Rightarrow> string + intended_scope" where
  "resolveIntendedScope body operation uids =
     (case validateRequirementScopeInput operation uids of
        Some e \<Rightarrow> Inl e
      | None \<Rightarrow>
          (let current = extractInScopeRequirementUids body;
               named = uid_units uids;
               intended = (if operation = JStr ''add'' then current @ filter (\<lambda>u. u \<notin> set current) named
                           else filter (\<lambda>u. u \<notin> set named) current)
           in Inr \<lparr>is_current = current, is_intended = intended,
                    is_changed = (\<not> sameOrderedUids current intended)\<rparr>))"

record scope_update =
  su_changed :: bool
  su_body :: ustr
  su_uids :: "ustr list"

definition applyRequirementScopeOperation ::
    "ustr \<Rightarrow> js \<Rightarrow> js \<Rightarrow> (ustr \<Rightarrow> ustr option) \<Rightarrow> string + scope_update" where
  "applyRequirementScopeOperation body operation uids titleByUid =
     (case resolveIntendedScope body operation uids of
        Inl e \<Rightarrow> Inl e
      | Inr s \<Rightarrow>
          if \<not> is_changed s then Inr \<lparr>su_changed = False, su_body = body, su_uids = is_current s\<rparr>
          else (let candidate = renderBodyWithScope body (is_intended s) titleByUid
                in if sameOrderedUids (extractInScopeRequirementUids candidate) (is_intended s)
                   then Inr \<lparr>su_changed = True, su_body = candidate, su_uids = is_intended s\<rparr>
                   else Inl ''issue_requirements_round_trip_failed''))"

section \<open>Lines split and join\<close>

definition eol_ok :: "ustr \<Rightarrow> bool" where
  "eol_ok e \<longleftrightarrow> e = [u_nl] \<or> e = [u_cr, u_nl]"

text \<open>A text that a terminator can follow without changing where the line ends.\<close>

definition text_ok :: "ustr \<Rightarrow> ustr \<Rightarrow> bool" where
  "text_ok t e \<longleftrightarrow> u_nl \<notin> set t \<and> (e = [u_nl] \<longrightarrow> t = [] \<or> last t \<noteq> u_cr)"

definition terminated :: "line \<Rightarrow> bool" where
  "terminated l \<longleftrightarrow> eol_ok (ln_term l) \<and> text_ok (ln_text l) (ln_term l)"

fun lines_ok :: "line list \<Rightarrow> bool" where
  "lines_ok [] = True"
| "lines_ok (l # ls) \<longleftrightarrow>
     (terminated l \<or> ln_term l = [] \<and> ls = [] \<and> ln_text l \<noteq> [] \<and> u_nl \<notin> set (ln_text l)) \<and> lines_ok ls"

lemma joinLines_simps [simp]:
  "joinLines [] = []" "joinLines (l # ls) = line_units l @ joinLines ls"
  "joinLines (xs @ ys) = joinLines xs @ joinLines ys"
  by (simp_all add: joinLines_def)

lemma butlast_snoc_eq: "t \<noteq> [] \<Longrightarrow> last t = u \<Longrightarrow> butlast t @ u # r = t @ r"
  by (cases t rule: rev_cases) auto

lemma join_split_from: "joinLines (split_lines_from acc t) = acc @ t"
  by (induction acc t rule: split_lines_from.induct) (auto simp: line_units_def butlast_snoc_eq)

lemma split_ok_from: "u_nl \<notin> set acc \<Longrightarrow> lines_ok (split_lines_from acc t)"
proof (induction acc t rule: split_lines_from.induct)
  case (2 acc c cs)
  then show ?case
    by (auto simp: terminated_def eol_ok_def text_ok_def dest: in_set_butlastD)
qed (simp add: terminated_def)

lemma join_split [simp]: "joinLines (splitLinesWithTerminators t) = t"
  by (simp add: splitLinesWithTerminators_def join_split_from)

lemma split_ok [simp]: "lines_ok (splitLinesWithTerminators t)"
  by (simp add: splitLinesWithTerminators_def split_ok_from)

lemma split_run: "u_nl \<notin> set x \<Longrightarrow> split_lines_from acc (x @ t) = split_lines_from (acc @ x) t"
  by (induction x arbitrary: acc) auto

lemma split_eol:
  assumes "text_ok x e" and "eol_ok e"
  shows "splitLinesWithTerminators (x @ e @ t) = \<lparr>ln_text = x, ln_term = e\<rparr> # splitLinesWithTerminators t"
  using assms unfolding splitLinesWithTerminators_def
  by (auto simp: eol_ok_def text_ok_def split_run)

lemma split_terminated:
  "list_all terminated ls \<Longrightarrow>
     splitLinesWithTerminators (joinLines ls @ t) = ls @ splitLinesWithTerminators t"
proof (induction ls)
  case (Cons l ls)
  then have "text_ok (ln_text l) (ln_term l)" "eol_ok (ln_term l)" by (simp_all add: terminated_def)
  from split_eol [OF this] Cons show ?case by (simp add: line_units_def)
qed simp

lemma lines_ok_append:
  "lines_ok (xs @ ys) \<longleftrightarrow> lines_ok xs \<and> lines_ok ys \<and> (ys \<noteq> [] \<longrightarrow> list_all terminated xs)"
  by (induction xs) auto

lemma lines_ok_cases:
  "lines_ok ls \<Longrightarrow> list_all terminated ls \<or>
     (\<exists>xs l. ls = xs @ [l] \<and> list_all terminated xs \<and> ln_term l = [] \<and> ln_text l \<noteq> [] \<and> u_nl \<notin> set (ln_text l))"
proof (induction ls)
  case (Cons l ls)
  show ?case
  proof (cases "terminated l")
    case True
    from Cons.prems have "lines_ok ls" by simp
    from Cons.IH [OF this] show ?thesis
    proof (elim disjE exE conjE)
      fix xs m assume "ls = xs @ [m]" "list_all terminated xs" "ln_term m = []" "ln_text m \<noteq> []" "u_nl \<notin> set (ln_text m)"
      with True show ?thesis by (intro disjI2 exI [of _ "l # xs"] exI [of _ m]) simp
    qed (simp add: True)
  next
    case False
    with Cons.prems show ?thesis by auto
  qed
qed simp

lemma terminated_ok: "list_all terminated ls \<Longrightarrow> lines_ok ls"
  by (induction ls) auto

lemma split_lines: "lines_ok ls \<Longrightarrow> splitLinesWithTerminators (joinLines ls) = ls"
proof -
  assume "lines_ok ls"
  from lines_ok_cases [OF this] show ?thesis
  proof (elim disjE exE conjE)
    assume "list_all terminated ls"
    from split_terminated [OF this, of "[]"] show ?thesis
      by (simp add: splitLinesWithTerminators_def)
  next
    fix xs l assume l: "ls = xs @ [l]" "list_all terminated xs" "ln_term l = []" "ln_text l \<noteq> []" "u_nl \<notin> set (ln_text l)"
    then have "splitLinesWithTerminators (line_units l) = [l]"
      using split_run [of "ln_text l" "[]" "[]"] by (simp add: splitLinesWithTerminators_def line_units_def)
    with split_terminated [of xs "line_units l"] l show ?thesis by simp
  qed
qed

lemma lines_ok_filter: "lines_ok ls \<Longrightarrow> lines_ok (filter P ls)"
  by (induction ls) auto

text \<open>What a line terminator does behind a list of lines: it ends the last line, or adds an empty one.\<close>

definition close_lines :: "ustr \<Rightarrow> line list \<Rightarrow> line list" where
  "close_lines e ls =
     (if ls \<noteq> [] \<and> \<not> terminated (last ls) then butlast ls @ [\<lparr>ln_text = ln_text (last ls), ln_term = e\<rparr>]
      else ls @ [\<lparr>ln_text = [], ln_term = e\<rparr>])"

lemma split_close_lines:
  assumes "lines_ok ls" and "eol_ok e" and "joinLines ls = [] \<or> last (joinLines ls) \<noteq> u_cr"
  shows "splitLinesWithTerminators (joinLines ls @ e @ t) = close_lines e ls @ splitLinesWithTerminators t"
  using lines_ok_cases [OF assms(1)]
proof (elim disjE exE conjE)
  assume a: "list_all terminated ls"
  then have "ls \<noteq> [] \<Longrightarrow> terminated (last ls)" by (simp add: list_all_iff)
  moreover have "splitLinesWithTerminators (e @ t) = \<lparr>ln_text = [], ln_term = e\<rparr> # splitLinesWithTerminators t"
    using split_eol [of "[]" e t] assms(2) by (simp add: text_ok_def)
  ultimately show ?thesis using split_terminated [OF a, of "e @ t"] by (auto simp: close_lines_def)
next
  fix xs l assume l: "ls = xs @ [l]" "list_all terminated xs" "ln_term l = []" "ln_text l \<noteq> []" "u_nl \<notin> set (ln_text l)"
  then have "text_ok (ln_text l) e" using assms(3) by (simp add: text_ok_def line_units_def)
  from split_eol [OF this assms(2), of t] split_terminated [OF l(2), of "ln_text l @ e @ t"] l
  show ?thesis by (simp add: close_lines_def terminated_def eol_ok_def line_units_def)
qed

lemma close_lines_terminated:
  assumes "lines_ok ls" and "eol_ok e" and "joinLines ls = [] \<or> last (joinLines ls) \<noteq> u_cr"
  shows "list_all terminated (close_lines e ls)"
  using lines_ok_cases [OF assms(1)]
proof (elim disjE exE conjE)
  assume a: "list_all terminated ls"
  then have "ls \<noteq> [] \<Longrightarrow> terminated (last ls)" by (simp add: list_all_iff)
  with a assms(2) show ?thesis by (auto simp: close_lines_def terminated_def text_ok_def)
next
  fix xs l assume l: "ls = xs @ [l]" "list_all terminated xs" "ln_term l = []" "ln_text l \<noteq> []" "u_nl \<notin> set (ln_text l)"
  with assms show ?thesis by (auto simp: close_lines_def terminated_def text_ok_def line_units_def eol_ok_def)
qed

lemma close_lines_texts:
  "map ln_text (close_lines e ls) = map ln_text ls \<or> map ln_text (close_lines e ls) = map ln_text ls @ [[]]"
  by (cases ls rule: rev_cases) (auto simp: close_lines_def)

section \<open>The section, line by line\<close>

definition opens :: "line \<Rightarrow> bool" where
  "opens l \<longleftrightarrow> (case heading_of (ln_text l) of
      None \<Rightarrow> False | Some (n, t) \<Rightarrow> 2 \<le> n \<and> n \<le> 4 \<and> is_requirements_title t)"

definition level_of :: "line \<Rightarrow> nat" where
  "level_of l = (case heading_of (ln_text l) of None \<Rightarrow> 0 | Some (n, t) \<Rightarrow> n)"

definition closes :: "nat \<Rightarrow> line \<Rightarrow> bool" where
  "closes lvl l \<longleftrightarrow> (case heading_of (ln_text l) of None \<Rightarrow> False | Some (n, t) \<Rightarrow> n \<le> lvl)"

definition section_lines :: "line list \<Rightarrow> line list" where
  "section_lines ls = (case dropWhile (\<lambda>l. \<not> opens l) ls of
      [] \<Rightarrow> [] | h # r \<Rightarrow> takeWhile (\<lambda>l. \<not> closes (level_of h) l) r)"

lemma locate_opened:
  "locate_from off (Some (lvl, start)) ls =
     Some \<lparr>sec_level = lvl, sec_start = start,
           sec_end = off + length (joinLines (takeWhile (\<lambda>l. \<not> closes lvl l) ls))\<rparr>"
  by (induction ls arbitrary: off) (auto simp: closes_def split: option.splits)

lemma locate_cases:
  "locate_from off None ls =
     (case dropWhile (\<lambda>l. \<not> opens l) ls of
        [] \<Rightarrow> None
      | h # r \<Rightarrow>
          (let start = off + length (joinLines (takeWhile (\<lambda>l. \<not> opens l) ls)) + length (line_units h)
           in Some \<lparr>sec_level = level_of h, sec_start = start,
                    sec_end = start + length (joinLines (takeWhile (\<lambda>l. \<not> closes (level_of h) l) r))\<rparr>))"
proof (induction ls arbitrary: off)
  case (Cons l ls)
  show ?case
  proof (cases "opens l")
    case True
    then show ?thesis by (auto simp: opens_def level_of_def locate_opened split: option.splits)
  next
    case False
    then have "locate_from off None (l # ls) = locate_from (off + length (line_units l)) None ls"
      by (cases "heading_of (ln_text l)") (simp_all add: opens_def Let_def split: prod.splits, blast)
    with False show ?thesis
      by (cases "dropWhile (\<lambda>l. \<not> opens l) ls")
        (simp_all add: Cons.IH add.assoc Let_def del: dropWhile_eq_Nil_conv locate_from.simps)
  qed
qed simp

lemma locate_none:
  "locateRequirementsSection body = None \<longleftrightarrow> (\<forall>l \<in> set (splitLinesWithTerminators body). \<not> opens l)"
proof -
  have "locateRequirementsSection body = None
          \<longleftrightarrow> dropWhile (\<lambda>l. \<not> opens l) (splitLinesWithTerminators body) = []"
    unfolding locateRequirementsSection_def locate_cases by (cases "dropWhile (\<lambda>l. \<not> opens l) (splitLinesWithTerminators body)")
      (simp_all add: Let_def del: dropWhile_eq_Nil_conv)
  then show ?thesis by (simp add: dropWhile_eq_Nil_conv)
qed

text \<open>A located section cuts the body into four parts.\<close>

lemma locate_some:
  assumes "locateRequirementsSection body = Some s"
  obtains pre h sec post where
    "splitLinesWithTerminators body = pre @ h # sec @ post"
    "\<forall>l \<in> set pre. \<not> opens l" "opens h" "\<forall>l \<in> set sec. \<not> closes (level_of h) l"
    "post = [] \<or> closes (level_of h) (hd post)"
    "sec_start s = length (joinLines (pre @ [h]))" "sec_end s = length (joinLines (pre @ h # sec))"
    "take (sec_start s) body = joinLines (pre @ [h])" "drop (sec_end s) body = joinLines post"
    "uslice (sec_start s) (sec_end s) body = joinLines sec"
proof -
  let ?ls = "splitLinesWithTerminators body"
  from assms obtain h r where dw: "dropWhile (\<lambda>l. \<not> opens l) ?ls = h # r"
    unfolding locateRequirementsSection_def locate_cases by (auto split: list.splits)
  define pre where "pre = takeWhile (\<lambda>l. \<not> opens l) ?ls"
  define sec where "sec = takeWhile (\<lambda>l. \<not> closes (level_of h) l) r"
  define post where "post = dropWhile (\<lambda>l. \<not> closes (level_of h) l) r"
  have ls: "?ls = pre @ h # sec @ post"
    using dw unfolding pre_def sec_def post_def by (metis takeWhile_dropWhile_id)
  have s: "sec_start s = length (joinLines (pre @ [h]))" "sec_end s = length (joinLines (pre @ h # sec))"
    using assms dw unfolding locateRequirementsSection_def locate_cases pre_def sec_def
    by (auto simp: Let_def)
  have body: "body = joinLines (pre @ [h]) @ joinLines sec @ joinLines post"
    using join_split [of body] unfolding ls by simp
  have oh: "opens h" using dw by (metis (mono_tags) dropWhile_eq_Cons_conv)
  show thesis
  proof (rule that [OF ls _ oh _ _ s])
    show "\<forall>l \<in> set pre. \<not> opens l" "\<forall>l \<in> set sec. \<not> closes (level_of h) l"
      unfolding pre_def sec_def using set_takeWhileD by fastforce+
    show "post = [] \<or> closes (level_of h) (hd post)"
      unfolding post_def by (metis hd_dropWhile)
    show "take (sec_start s) body = joinLines (pre @ [h])" "drop (sec_end s) body = joinLines post"
      "uslice (sec_start s) (sec_end s) body = joinLines sec"
      unfolding s uslice_def by (subst body, simp)+
  qed
qed

lemma section_lines_cut:
  assumes "\<forall>l \<in> set pre. \<not> opens l" and "opens h" and "\<forall>l \<in> set sec. \<not> closes (level_of h) l"
    and "post = [] \<or> closes (level_of h) (hd post)"
  shows "section_lines (pre @ h # sec @ post) = sec"
proof -
  have "dropWhile (\<lambda>l. \<not> opens l) (pre @ h # sec @ post) = h # sec @ post"
    using assms by (simp add: dropWhile_append3 dropWhile_append2)
  moreover have "takeWhile (\<lambda>l. \<not> closes (level_of h) l) (sec @ post) = sec"
    using assms by (cases post) (simp_all add: takeWhile_append2)
  ultimately show ?thesis by (simp add: section_lines_def)
qed

definition uids_of_lines :: "line list \<Rightarrow> ustr list" where
  "uids_of_lines ls = concat (map (\<lambda>l. requirementUidsFromBullet (ln_text l)) ls)"

lemma extract_lines:
  "extractInScopeRequirementUids body =
     foldl add_unseen [] (uids_of_lines (section_lines (splitLinesWithTerminators body)))"
proof (cases "locateRequirementsSection body")
  case None
  then have "dropWhile (\<lambda>l. \<not> opens l) (splitLinesWithTerminators body) = []"
    by (simp add: locate_none dropWhile_eq_Nil_conv)
  with None show ?thesis
    unfolding section_lines_def
    by (simp add: extractInScopeRequirementUids_def requirementsSectionLines_def uids_of_lines_def del: dropWhile_eq_Nil_conv)
next
  case (Some s)
  then obtain pre h sec post where c: "splitLinesWithTerminators body = pre @ h # sec @ post"
    "\<forall>l \<in> set pre. \<not> opens l" "opens h" "\<forall>l \<in> set sec. \<not> closes (level_of h) l"
    "post = [] \<or> closes (level_of h) (hd post)" "uslice (sec_start s) (sec_end s) body = joinLines sec"
    by (rule locate_some) blast
  have "lines_ok (pre @ h # sec @ post)" using split_ok [of body] c by simp
  then have "lines_ok (pre @ h # sec)" by (metis append.assoc append_Cons lines_ok_append)
  then have "lines_ok sec" by (metis append.left_neutral append_Cons lines_ok_append append.assoc)
  then have "requirementsSectionLines body = map ln_text sec"
    using Some c(6) by (simp add: requirementsSectionLines_def split_lines)
  then show ?thesis
    unfolding extractInScopeRequirementUids_def c(1) section_lines_cut [OF c(2-5)] uids_of_lines_def
    by (simp add: comp_def)
qed

lemma add_unseen_distinct: "distinct us \<Longrightarrow> distinct (foldl add_unseen us xs)"
  by (induction xs arbitrary: us) (simp_all add: add_unseen_def)

lemma add_unseen_set: "set (foldl add_unseen us xs) = set us \<union> set xs"
  by (induction xs arbitrary: us) (auto simp: add_unseen_def)

lemma add_unseen_all: "distinct (us @ xs) \<Longrightarrow> foldl add_unseen us xs = us @ xs"
  by (induction xs arbitrary: us) (auto simp: add_unseen_def)

lemma extract_distinct: "distinct (extractInScopeRequirementUids body)"
  by (simp add: extractInScopeRequirementUids_def add_unseen_distinct)

lemma bullet_uids_tokens: "u \<in> set (requirementUidsFromBullet t) \<Longrightarrow> isRequirementUidToken u"
  by (auto simp: requirementUidsFromBullet_def dest: set_takeWhileD split: option.splits)

lemma extract_tokens: "u \<in> set (extractInScopeRequirementUids body) \<Longrightarrow> isRequirementUidToken u"
  by (auto simp: extractInScopeRequirementUids_def add_unseen_set dest: bullet_uids_tokens)

section \<open>Rendered bullets\<close>

lemma split_on_set: "x \<in> set t \<Longrightarrow> x = sep \<or> (\<exists>g \<in> set (split_on sep t). x \<in> set g)"
  by (induction t) (auto split: list.splits if_splits)

lemma split_on_hd: "hd (split_on sep t) \<noteq> [] \<Longrightarrow> t \<noteq> [] \<and> hd t = hd (hd (split_on sep t))"
  by (cases t) (auto split: list.splits if_splits)

lemma split_on_empty: "split_on sep t = [[]] \<Longrightarrow> t = []"
  by (cases t) (auto split: list.splits if_splits)

lemma split_on_last: "last (split_on sep t) \<noteq> [] \<Longrightarrow> t \<noteq> [] \<and> last t = last (last (split_on sep t))"
proof (induction t)
  case (Cons c t)
  obtain w ws where w: "split_on sep t = w # ws" by (cases "split_on sep t") auto
  with Cons show ?case by (cases "t = []"; cases ws) (auto split: if_splits dest: split_on_empty)
qed simp

lemma uid_token_units:
  assumes "isRequirementUidToken u"
  shows "u \<noteq> []" "u_upper (hd u)" "u_digit (last u)" "\<forall>x \<in> set u. u_caps x \<or> x = 0x2D"
proof -
  obtain g gs where g: "split_on 0x2D u = g # gs" by (cases "split_on 0x2D u") auto
  with assms have a: "gs \<noteq> []" "g \<noteq> []" "u_upper (hd g)" "\<forall>x \<in> set gs. x \<noteq> []" "u_digit (last (last gs))"
      "\<forall>x \<in> set (g # gs). \<forall>y \<in> set x. u_caps y"
    by (auto simp: isRequirementUidToken_def pr_requirement_token_def list_all_iff split: list.splits)
  show "u \<noteq> []" "u_upper (hd u)" using split_on_hd [of "0x2D" u] g a by simp_all
  show "u_digit (last u)" using split_on_last [of "0x2D" u] g a by simp
  show "\<forall>x \<in> set u. u_caps x \<or> x = 0x2D" using split_on_set [of _ u "0x2D"] g a(6) by auto
qed

lemma uid_unit_plain:
  assumes "u_caps x \<or> x = 0x2D"
  shows "\<not> ws_unit x" "\<not> u_sep x" "\<not> u_line_end x" "x \<noteq> u_nl" "x \<noteq> u_cr"
  using assms by (auto simp: u_caps_def u_upper_def u_digit_def ws_unit_def u_sep_def u_line_end_def word_le_nat_alt)

lemma uid_unit_unwrapped:
  "u_caps x \<Longrightarrow> x \<notin> set (units ''`[('') \<and> x \<notin> set (units ''`)].:'')"
  by (auto simp: u_caps_def u_upper_def u_digit_def units_def)

lemma strip_token: "isRequirementUidToken u \<Longrightarrow> stripUidTokenWrappers u = u"
proof -
  assume u: "isRequirementUidToken u"
  note f = uid_token_units [OF u]
  have "u_caps (hd u)" "u_caps (last u)" using f by (simp_all add: u_caps_def)
  then have "dropWhile (\<lambda>x. x \<in> set (units ''`[('')) u = u"
    "dropWhile (\<lambda>x. x \<in> set (units ''`)].:'')) (rev u) = rev u"
    using uid_unit_unwrapped f(1) by (simp_all add: dropWhile_eq_self_iff hd_rev)
  then show ?thesis unfolding stripUidTokenWrappers_def by simp
qed

lemma ws_units: "ws_unit u_sp" "u_sep u_sp" "\<not> ws_unit em_dash" "\<not> u_sep em_dash" "\<not> u_line_end em_dash" "\<not> u_line_end u_sp"
  by (simp_all add: ws_unit_def u_sep_def em_dash_def u_line_end_def)

lemma line_end_ws: "u_line_end x \<Longrightarrow> ws_unit x"
  by (auto simp: u_line_end_def ws_unit_def)

lemma not_token_dash: "\<not> isRequirementUidToken (stripUidTokenWrappers [em_dash])"
  by code_simp

lemma collapse_plain: "x \<in> set (collapse_ws t) \<Longrightarrow> x = u_sp \<or> \<not> ws_unit x"
  by (induction t rule: collapse_ws.induct) (auto split: if_splits)

lemma utrim_sub: "set (utrim t) \<subseteq> set t"
proof
  fix x assume "x \<in> set (utrim t)"
  then have "x \<in> set (dropWhile ws_unit (rev (dropWhile ws_unit t)))" unfolding utrim_def set_rev .
  then have "x \<in> set (rev (dropWhile ws_unit t))" by (rule set_dropWhileD)
  then have "x \<in> set (dropWhile ws_unit t)" unfolding set_rev .
  then show "x \<in> set t" by (rule set_dropWhileD)
qed

lemma utrim_last: "utrim t \<noteq> [] \<Longrightarrow> \<not> ws_unit (last (utrim t))"
  unfolding utrim_def last_rev rev_is_Nil_conv by (rule hd_dropWhile)

lemma utrim_hd: "utrim t \<noteq> [] \<Longrightarrow> \<not> ws_unit (hd (utrim t))"
proof -
  assume n: "utrim t \<noteq> []"
  let ?d = "dropWhile ws_unit t"
  have "?d \<noteq> []" using n by (metis utrim_def dropWhile.simps(1) rev.simps(1))
  then have "\<not> ws_unit (hd ?d)" by (rule hd_dropWhile)
  moreover obtain k where "?d = utrim t @ k" unfolding utrim_def
    by (metis rev_append rev_rev_ident takeWhile_dropWhile_id)
  ultimately show ?thesis using n by (metis hd_append2)
qed

text \<open>The text of a rendered bullet: the identifier, then nothing, or a blank and the dash.\<close>

lemma bullet_shape:
  obtains "renderRequirementBullet u t = units ''- '' @ u"
  | x where "renderRequirementBullet u t = units ''- '' @ u @ u_sp # em_dash # u_sp # x"
      "x \<noteq> []" "\<forall>y \<in> set x. y = u_sp \<or> \<not> ws_unit y" "\<not> ws_unit (last x)"
proof (cases "case t of None \<Rightarrow> [] | Some s \<Rightarrow> utrim (collapse_ws s)")
  case Nil
  then show ?thesis using that(1) by (simp add: renderRequirementBullet_def)
next
  case (Cons a b)
  then obtain s where s: "t = Some s" "utrim (collapse_ws s) = a # b" by (auto split: option.splits)
  show ?thesis
  proof (rule that(2))
    show "renderRequirementBullet u t = units ''- '' @ u @ u_sp # em_dash # u_sp # (a # b)"
      using s by (simp add: renderRequirementBullet_def)
    show "\<forall>y \<in> set (a # b). y = u_sp \<or> \<not> ws_unit y"
      using utrim_sub [of "collapse_ws s"] collapse_plain s(2) by (metis subsetD)
    show "\<not> ws_unit (last (a # b))" using utrim_last [of "collapse_ws s"] s(2) by simp
  qed simp
qed

lemma split_tokens_head:
  assumes "\<forall>x \<in> set u. \<not> u_sep x" and "u_sep c"
  shows "split_tokens (u @ c # r) = u # split_tokens (dropWhile u_sep r)"
  using assms by (subst split_tokens.simps) (simp add: takeWhile_append2 dropWhile_append2)

lemma split_tokens_one: "\<forall>x \<in> set u. \<not> u_sep x \<Longrightarrow> split_tokens u = [u]"
  by (subst split_tokens.simps) (simp add: takeWhile_eq_all_conv [THEN iffD2] dropWhile_eq_Nil_conv [THEN iffD2])

lemma bullet_of_text:
  assumes "\<forall>x \<in> set w. ws_unit x" and "r \<noteq> []" and "\<not> ws_unit (hd r)" and "\<forall>x \<in> set r. \<not> u_line_end x"
  shows "bullet_of (w @ units ''- '' @ r) = Some r"
proof -
  have "dropWhile ws_unit (w @ units ''- '' @ r) = 0x2D # u_sp # r"
    using assms(1) by (simp add: units_def ws_unit_def)
  moreover have "dropWhile ws_unit r = r" using assms by (simp add: dropWhile_eq_self_iff)
  ultimately show ?thesis using assms by (simp add: bullet_of_def ws_units list_all_iff del: dropWhile_eq_Nil_conv)
qed

lemma bullet_reads_back:
  assumes u: "isRequirementUidToken u" and w: "\<forall>x \<in> set w. ws_unit x"
  shows "requirementUidsFromBullet (w @ renderRequirementBullet u t) = [u]"
proof -
  note f = uid_token_units [OF u]
  have plain: "\<forall>x \<in> set u. \<not> ws_unit x \<and> \<not> u_sep x \<and> \<not> u_line_end x"
    using f(4) uid_unit_plain by blast
  then have hd: "\<not> ws_unit (hd u)" using f(1) by simp
  show ?thesis
  proof (rule bullet_shape [of u t])
    assume r: "renderRequirementBullet u t = units ''- '' @ u"
    show ?thesis unfolding r requirementUidsFromBullet_def
      using bullet_of_text [OF w, of u] f(1) hd plain split_tokens_one [of u] u by (simp add: strip_token)
  next
    fix x assume r: "renderRequirementBullet u t = units ''- '' @ u @ u_sp # em_dash # u_sp # x"
      and x: "x \<noteq> []" "\<forall>y \<in> set x. y = u_sp \<or> \<not> ws_unit y"
    let ?r = "u @ u_sp # em_dash # u_sp # x"
    have "\<forall>y \<in> set ?r. \<not> u_line_end y" using plain x(2) line_end_ws ws_units by auto
    then have b: "bullet_of (w @ units ''- '' @ ?r) = Some ?r"
      using f(1) hd by (intro bullet_of_text [OF w]) simp_all
    have "split_tokens (dropWhile u_sep (em_dash # u_sp # x)) = [em_dash] # split_tokens (dropWhile u_sep x)"
      using split_tokens_head [of "[em_dash]" u_sp x] by (simp add: ws_units)
    then have "split_tokens ?r = u # [em_dash] # split_tokens (dropWhile u_sep x)"
      using split_tokens_head [of u u_sp "em_dash # u_sp # x"] plain by (simp add: ws_units)
    then show ?thesis unfolding r requirementUidsFromBullet_def b
      using u not_token_dash by (simp add: strip_token)
  qed
qed

lemma bullet_not_heading:
  "\<forall>x \<in> set w. ws_unit x \<Longrightarrow> heading_of (w @ renderRequirementBullet u t) = None"
proof -
  assume w: "\<forall>x \<in> set w. ws_unit x"
  have "\<exists>r. renderRequirementBullet u t = 0x2D # r"
    by (rule bullet_shape [of u t]) (auto simp: units_def)
  then obtain r where "renderRequirementBullet u t = 0x2D # r" ..
  moreover have "\<not> ws_unit 0x23" by (simp add: ws_unit_def)
  ultimately show ?thesis using w by (cases w) (auto simp: heading_of_def Let_def)
qed

lemma bullet_text_ok:
  assumes "isRequirementUidToken u" and "\<forall>x \<in> set w. ws_unit x" and "u_nl \<notin> set w"
  shows "text_ok (w @ renderRequirementBullet u t) e"
proof -
  note f = uid_token_units [OF assms(1)]
  have nl: "u_nl \<notin> set u" "last u \<noteq> u_cr" using f uid_unit_plain by (metis last_in_set)+
  have ws: "ws_unit u_nl" "ws_unit u_cr" by (simp_all add: ws_unit_def)
  show ?thesis
    by (rule bullet_shape [of u t]) (use f(1) nl ws assms(3) in \<open>auto simp: text_ok_def units_def em_dash_def\<close>)
qed

section \<open>The rewritten section\<close>

lemma closes_text: "ln_text l = ln_text m \<Longrightarrow> closes n l = closes n m"
  by (simp add: closes_def)

lemma opens_text: "ln_text l = ln_text m \<Longrightarrow> opens l = opens m"
  by (simp add: opens_def)

lemma level_text: "ln_text l = ln_text m \<Longrightarrow> level_of l = level_of m"
  by (simp add: level_of_def)

lemma empty_line [simp]:
  "\<not> opens \<lparr>ln_text = [], ln_term = e\<rparr>" "\<not> closes n \<lparr>ln_text = [], ln_term = e\<rparr>"
  "requirementUidsFromBullet [] = []" "heading_of [] = None"
  by (simp_all add: opens_def closes_def heading_of_def requirementUidsFromBullet_def bullet_of_def)

lemma empty_terminated [simp]: "eol_ok e \<Longrightarrow> terminated \<lparr>ln_text = [], ln_term = e\<rparr>"
  by (simp add: terminated_def text_ok_def)

lemma close_lines_all:
  assumes "\<forall>l \<in> set ls. P l" and "\<And>l m. ln_text l = ln_text m \<Longrightarrow> P l = P m"
    and "\<And>e. P \<lparr>ln_text = [], ln_term = e\<rparr>"
  shows "\<forall>l \<in> set (close_lines e ls). P l"
proof (cases "ls \<noteq> [] \<and> \<not> terminated (last ls)")
  case True
  then have "P (last ls)" using assms(1) by simp
  then have "P \<lparr>ln_text = ln_text (last ls), ln_term = e\<rparr>"
    using assms(2) [of "last ls" "\<lparr>ln_text = ln_text (last ls), ln_term = e\<rparr>"] by simp
  moreover have "\<forall>l \<in> set (butlast ls). P l" using assms(1) in_set_butlastD by fast
  ultimately show ?thesis using True by (simp add: close_lines_def)
next
  case False
  then have "close_lines e ls = ls @ [\<lparr>ln_text = [], ln_term = e\<rparr>]"
    unfolding close_lines_def by (rule if_not_P)
  with assms(1,3) show ?thesis by simp
qed

lemma close_lines_keep:
  "\<forall>l \<in> set ls. \<not> opens l \<Longrightarrow> \<forall>l \<in> set (close_lines e ls). \<not> opens l"
  "\<forall>l \<in> set ls. \<not> closes n l \<Longrightarrow> \<forall>l \<in> set (close_lines e ls). \<not> closes n l"
  "\<forall>l \<in> set ls. \<not> scope_line l \<Longrightarrow> \<forall>l \<in> set (close_lines e ls). \<not> scope_line l"
  by (erule close_lines_all; simp add: opens_def closes_def scope_line_def heading_of_def)+

lemma uids_of_lines_simps [simp]:
  "uids_of_lines [] = []" "uids_of_lines (l # ls) = requirementUidsFromBullet (ln_text l) @ uids_of_lines ls"
  "uids_of_lines (xs @ ys) = uids_of_lines xs @ uids_of_lines ys"
  by (simp_all add: uids_of_lines_def)

lemma no_scope_lines: "\<forall>l \<in> set ls. \<not> scope_line l \<Longrightarrow> uids_of_lines ls = []"
  by (induction ls) (auto simp: scope_line_def)

definition scope_block :: "ustr list \<Rightarrow> (ustr \<Rightarrow> ustr option) \<Rightarrow> ustr \<Rightarrow> line list" where
  "scope_block us titles e = map (\<lambda>u. \<lparr>ln_text = renderRequirementBullet u (titles u), ln_term = e\<rparr>) us"

lemma scope_block_facts:
  assumes "\<forall>u \<in> set us. isRequirementUidToken u" and "eol_ok e"
  shows "list_all terminated (scope_block us titles e)" "uids_of_lines (scope_block us titles e) = us"
    "\<forall>l \<in> set (scope_block us titles e). \<not> closes n l"
  using assms bullet_text_ok [of _ "[]"] bullet_reads_back [of _ "[]"] bullet_not_heading [of "[]"]
  by (induction us) (auto simp: scope_block_def terminated_def closes_def)

lemma eol_ok_dominant [simp]: "eol_ok (dominantEol body)"
  by (simp add: dominantEol_def eol_ok_def Let_def)

lemma rebuild_fold:
  "foldl rebuild_step (k, r) ls =
     (k @ filter (\<lambda>l. \<not> scope_line l) ls,
      if r \<noteq> None then r
      else if \<exists>l \<in> set ls. scope_line l then Some (length k + length (takeWhile (\<lambda>l. \<not> scope_line l) ls))
      else None)"
  by (induction ls arbitrary: k r) (auto simp: rebuild_step_def)

lemma last_join_terminated: "list_all terminated ls \<Longrightarrow> ls \<noteq> [] \<Longrightarrow> joinLines ls \<noteq> [] \<and> last (joinLines ls) = u_nl"
  by (cases ls rule: rev_cases) (auto simp: terminated_def eol_ok_def line_units_def)

definition no_cr_end :: "ustr \<Rightarrow> bool" where
  "no_cr_end t \<longleftrightarrow> t = [] \<or> last t \<noteq> u_cr"

lemma no_cr_prefix: "lines_ok (a @ b) \<Longrightarrow> no_cr_end (joinLines (a @ b)) \<Longrightarrow> no_cr_end (joinLines a)"
  using last_join_terminated [of a] unfolding lines_ok_append no_cr_end_def
  by (cases "b = []"; cases "a = []") auto

lemma terminated_if_nl:
  assumes "lines_ok ls" and "joinLines ls = [] \<or> last (joinLines ls) = u_nl"
  shows "list_all terminated ls"
  using lines_ok_cases [OF assms(1)]
proof (elim disjE exE conjE)
  fix xs l assume "ls = xs @ [l]" "ln_term l = []" "ln_text l \<noteq> []" "u_nl \<notin> set (ln_text l)"
  with assms(2) last_in_set [of "ln_text l"] show ?thesis by (auto simp: line_units_def)
qed

lemma all_blank:
  assumes "length (takeWhile P xs) = max (length (takeWhile P xs)) (length xs - length (takeWhile P (rev xs)))"
  shows "\<forall>x \<in> set xs. P x"
proof (rule ccontr)
  assume "\<not> ?thesis"
  then have "dropWhile P xs \<noteq> []" by (auto simp: dropWhile_eq_Nil_conv)
  then obtain y ys where y: "dropWhile P xs = y # ys" by (cases "dropWhile P xs") auto
  then have ny: "\<not> P y" by (metis dropWhile_eq_Cons_conv)
  have xs: "xs = takeWhile P xs @ y # ys" using y by (metis takeWhile_dropWhile_id)
  have "length (takeWhile P (rev xs)) \<le> length ys"
  proof -
    have "takeWhile P (rev ys @ y # r) = takeWhile P (rev ys)" for r
      using ny by (induction "rev ys") (auto simp: takeWhile_tail)
    then have "takeWhile P (rev xs) = takeWhile P (rev ys)" by (subst xs) simp
    then show ?thesis by (metis length_rev length_takeWhile_le)
  qed
  moreover have "length xs = length (takeWhile P xs) + Suc (length ys)"
    by (metis xs length_Cons length_append)
  ultimately show False using assms by linarith
qed

lemma blank_ws: "blank_line l \<Longrightarrow> \<forall>x \<in> set (ln_text l). ws_unit x"
proof -
  assume b: "blank_line l"
  let ?d = "dropWhile ws_unit (ln_text l)"
  have "dropWhile ws_unit (rev ?d) = []" using b unfolding blank_line_def utrim_def rev_is_Nil_conv .
  then have "\<forall>x \<in> set (rev ?d). ws_unit x" by (rule dropWhile_eq_Nil_conv [THEN iffD1])
  then have all: "\<forall>x \<in> set ?d. ws_unit x" unfolding set_rev .
  have "?d = []"
  proof (rule ccontr)
    assume "?d \<noteq> []"
    with hd_dropWhile [OF this] all hd_in_set show False by blast
  qed
  then show ?thesis by (simp add: dropWhile_eq_Nil_conv)
qed

text \<open>What the rebuilt content of a section reads as, with whatever follows the section.\<close>

lemma rebuilt_empty:
  assumes "lines_ok sec" and "lines_ok post" and "post \<noteq> [] \<longrightarrow> list_all terminated sec"
    and "\<forall>l \<in> set sec. \<not> closes n l"
  shows "\<exists>sec'. splitLinesWithTerminators (rebuildSectionContent (joinLines sec) [] e @ joinLines post) = sec' @ post
           \<and> uids_of_lines sec' = [] \<and> (\<forall>l \<in> set sec'. \<not> closes n l)"
proof -
  let ?k = "filter (\<lambda>l. \<not> scope_line l) sec"
  have "rebuildSectionContent (joinLines sec) [] e = joinLines ?k"
    by (simp add: rebuildSectionContent_def split_lines [OF assms(1)] rebuild_fold)
  moreover have "lines_ok (?k @ post)"
    using assms by (auto simp: lines_ok_append lines_ok_filter list_all_iff)
  moreover have "uids_of_lines ?k = []" by (intro no_scope_lines) simp
  ultimately show ?thesis using assms(4) split_lines [of "?k @ post"] by (intro exI [of _ ?k]) auto
qed

lemma rebuilt_replaced:
  assumes "lines_ok sec" and "lines_ok post" and "post \<noteq> [] \<longrightarrow> list_all terminated sec"
    and "\<forall>l \<in> set sec. \<not> closes n l"
    and "\<forall>u \<in> set us. isRequirementUidToken u" and "eol_ok e" and "us \<noteq> []"
    and "\<exists>l \<in> set sec. scope_line l"
  shows "\<exists>sec'. splitLinesWithTerminators (rebuildSectionContent (joinLines sec)
              (map (\<lambda>u. renderRequirementBullet u (t u)) us) e @ joinLines post) = sec' @ post
           \<and> uids_of_lines sec' = us \<and> (\<forall>l \<in> set sec'. \<not> closes n l)"
proof -
  note bf = scope_block_facts [OF assms(5,6)]
  obtain a s b where c: "sec = a @ s # b" "\<forall>l \<in> set a. \<not> scope_line l" "scope_line s"
    using split_list_first_prop [OF assms(8)] by blast
  let ?f = "filter (\<lambda>l. \<not> scope_line l)"
  let ?new = "a @ scope_block us t e @ ?f b"
  have tw: "takeWhile (\<lambda>l. \<not> scope_line l) sec = a" and fs: "?f sec = a @ ?f b"
    using c by (simp_all add: takeWhile_append2)
  have "rebuildSectionContent (joinLines sec) (map (\<lambda>u. renderRequirementBullet u (t u)) us) e = joinLines ?new"
    using assms(7,8) by (simp add: rebuildSectionContent_def split_lines [OF assms(1)] rebuild_fold tw fs
        scope_block_def comp_def)
  moreover have "lines_ok (?new @ post)"
    using assms(1-3) bf(1) unfolding c(1)
    by (auto simp: lines_ok_append terminated_ok lines_ok_filter list_all_iff)
  moreover have "uids_of_lines ?new = us" using bf(2) c(2) by (simp add: no_scope_lines)
  moreover have "\<forall>l \<in> set ?new. \<not> closes n l" using assms(4) bf(3) c(1) by auto
  ultimately show ?thesis using split_lines [of "?new @ post"] by (intro exI [of _ ?new]) auto
qed

lemma rebuilt_inserted:
  assumes "lines_ok sec" and "lines_ok post" and "post \<noteq> [] \<longrightarrow> list_all terminated sec"
    and "\<forall>l \<in> set sec. \<not> closes n l"
    and "\<forall>u \<in> set us. isRequirementUidToken u" and "eol_ok e" and "us \<noteq> []"
    and "\<forall>l \<in> set sec. \<not> scope_line l" and "no_cr_end (joinLines sec)"
  shows "\<exists>sec'. splitLinesWithTerminators (rebuildSectionContent (joinLines sec)
              (map (\<lambda>u. renderRequirementBullet u (t u)) us) e @ joinLines post) = sec' @ post
           \<and> uids_of_lines sec' = us \<and> (\<forall>l \<in> set sec'. \<not> closes n l)"
proof -
  note bf = scope_block_facts [OF assms(5,6), where titles = t]
  let ?E = "\<lparr>ln_text = [], ln_term = e\<rparr>"
  define start where "start = length (takeWhile blank_line sec)"
  define stop where "stop = max start (length sec - length (takeWhile blank_line (rev sec)))"
  define a where "a = take stop sec"
  define b where "b = drop stop sec"
  define tr where "tr = (if stop = length sec then [?E] else [])"
  have ab: "sec = a @ b" by (simp add: a_def b_def)
  have content: "rebuildSectionContent (joinLines sec) (map (\<lambda>u. renderRequirementBullet u (t u)) us) e
      = joinLines (a @ (if stop > start then [?E] else []) @ scope_block us t e @ tr @ b)"
    using assms(7,8) by (simp add: rebuildSectionContent_def split_lines [OF assms(1)] rebuild_fold
        scope_block_def comp_def a_def b_def tr_def stop_def start_def Let_def)
  have trE: "list_all terminated tr" "uids_of_lines tr = []" "\<forall>l \<in> set tr. \<not> closes n l"
    using assms(6) by (simp_all add: tr_def)
  have la: "lines_ok a" and lb: "lines_ok (b @ post)"
    using assms(1-3) ab by (auto simp: lines_ok_append list_all_iff)
  have ua: "uids_of_lines a = []" "uids_of_lines b = []"
    using assms(8) ab by (auto intro!: no_scope_lines)
  have rest: "lines_ok (scope_block us t e @ tr @ b @ post)"
    using bf(1) trE(1) lb by (simp add: lines_ok_append terminated_ok)
  show ?thesis
  proof (cases "stop > start")
    case True
    have ncr: "joinLines a = [] \<or> last (joinLines a) \<noteq> u_cr"
      using no_cr_prefix [of a b] assms(1,9) ab by (simp add: no_cr_end_def)
    let ?new = "close_lines e a @ scope_block us t e @ tr @ b"
    have "splitLinesWithTerminators (joinLines a @ e @ joinLines (scope_block us t e @ tr @ b @ post)) = ?new @ post"
      using split_close_lines [OF la assms(6) ncr] split_lines [OF rest] by simp
    then have "splitLinesWithTerminators (rebuildSectionContent (joinLines sec)
              (map (\<lambda>u. renderRequirementBullet u (t u)) us) e @ joinLines post) = ?new @ post"
      unfolding content using True by (simp add: line_units_def)
    moreover have "uids_of_lines (close_lines e a) = []"
      using assms(8) ab by (intro no_scope_lines close_lines_keep(3)) simp
    moreover have "\<forall>l \<in> set (close_lines e a). \<not> closes n l"
      using assms(4) ab by (intro close_lines_keep(2)) simp
    ultimately show ?thesis using bf(2,3) trE ua(2) assms(4) ab
      by (intro exI [of _ ?new]) auto
  next
    case False
    then have "stop = start" unfolding stop_def by simp
    then have blank: "\<forall>l \<in> set sec. blank_line l" unfolding stop_def start_def by (intro all_blank) simp
    then have "start = length sec" by (simp add: start_def takeWhile_eq_all_conv [THEN iffD2])
    then have b: "b = []" "a = sec" "tr = [?E]" using \<open>stop = start\<close> by (simp_all add: a_def b_def tr_def)
    show ?thesis
    proof (cases "list_all terminated sec")
      case True
      let ?new = "sec @ scope_block us t e @ [?E]"
      have "splitLinesWithTerminators (joinLines (?new @ post)) = ?new @ post"
        using True rest b by (intro split_lines) (simp add: lines_ok_append terminated_ok)
      then show ?thesis unfolding content using False b bf(2,3) trE ua assms(4)
        by (intro exI [of _ ?new]) auto
    next
      case nt: False
      then obtain xs l where l: "sec = xs @ [l]" "list_all terminated xs" "ln_term l = []" "u_nl \<notin> set (ln_text l)"
        using lines_ok_cases [OF assms(1)] by blast
      have post: "post = []" using nt assms(3) by auto
      obtain u us' where us: "us = u # us'" using assms(7) by (cases us) auto
      have tok: "isRequirementUidToken u" using assms(5) us by simp
      have ws: "\<forall>x \<in> set (ln_text l). ws_unit x" using blank l(1) by (intro blank_ws) simp
      let ?m = "\<lparr>ln_text = ln_text l @ renderRequirementBullet u (t u), ln_term = e\<rparr>"
      let ?new = "xs @ ?m # scope_block us' t e @ [?E]"
      have "terminated ?m" using bullet_text_ok [OF tok ws l(4)] assms(6) by (simp add: terminated_def)
      moreover have "list_all terminated (scope_block us' t e)"
        using bf(1) us by (simp add: scope_block_def)
      ultimately have "splitLinesWithTerminators (joinLines ?new) = ?new"
        using l(2) assms(6) by (intro split_lines terminated_ok) simp
      moreover have "joinLines ?new = joinLines (a @ scope_block us t e @ tr @ b)"
        by (simp add: b l us scope_block_def line_units_def)
      moreover have "uids_of_lines ?new = us"
        using bf(2) us ua(1) l(1) b bullet_reads_back [OF tok ws] bullet_reads_back [OF tok, of "[]"] by (simp add: scope_block_def)
      moreover have "\<forall>l \<in> set ?new. \<not> closes n l"
        using assms(4) bf(3) us l(1) bullet_not_heading [OF ws] by (auto simp: scope_block_def closes_def)
      ultimately show ?thesis unfolding content post using False by (intro exI [of _ ?new]) simp
    qed
  qed
qed

lemma extract_cut:
  assumes "splitLinesWithTerminators body = pre @ h # sec @ post"
    and "\<forall>l \<in> set pre. \<not> opens l" "opens h" "\<forall>l \<in> set sec. \<not> closes (level_of h) l"
    and "post = [] \<or> closes (level_of h) (hd post)" "uids_of_lines sec = us" "distinct us"
  shows "extractInScopeRequirementUids body = us"
  unfolding extract_lines assms(1) section_lines_cut [OF assms(2-5)] assms(6)
  using add_unseen_all [of "[]" us] assms(7) by simp

lemma render_located:
  assumes loc: "locateRequirementsSection body = Some s" and ncr: "no_cr_end body"
    and us: "\<forall>u \<in> set us. isRequirementUidToken u" "distinct us"
    and ch: "extractInScopeRequirementUids body \<noteq> us"
  shows "extractInScopeRequirementUids (renderBodyWithScope body us t) = us"
proof -
  obtain pre h sec post where c: "splitLinesWithTerminators body = pre @ h # sec @ post"
    "\<forall>l \<in> set pre. \<not> opens l" "opens h" "\<forall>l \<in> set sec. \<not> closes (level_of h) l"
    "post = [] \<or> closes (level_of h) (hd post)"
    "sec_start s = length (joinLines (pre @ [h]))" "take (sec_start s) body = joinLines (pre @ [h])"
    "drop (sec_end s) body = joinLines post" "uslice (sec_start s) (sec_end s) body = joinLines sec"
    by (rule locate_some [OF loc]) blast
  define e where "e = dominantEol body"
  have e: "eol_ok e" by (simp add: e_def)
  define content where "content = rebuildSectionContent (joinLines sec) (map (\<lambda>u. renderRequirementBullet u (t u)) us) e"
  have ls: "lines_ok (pre @ [h] @ sec @ post)" using split_ok [of body] c(1) by simp
  then have l: "lines_ok (pre @ [h])" "lines_ok sec" "lines_ok post" "post \<noteq> [] \<longrightarrow> list_all terminated sec"
      "sec \<noteq> [] \<or> post \<noteq> [] \<longrightarrow> list_all terminated (pre @ [h])"
    using lines_ok_append [of "pre @ [h]" "sec @ post"] lines_ok_append [of sec post] by auto
  have body: "body = joinLines ((pre @ [h]) @ sec @ post)" using join_split [of body] c(1) by simp
  have ncs: "no_cr_end (joinLines sec)"
    using no_cr_prefix [of "pre @ h # sec" post] no_cr_prefix [of sec post] ls ncr body
    by (cases "sec = []") (auto simp: no_cr_end_def)
  have nch: "joinLines (pre @ [h]) = [] \<or> last (joinLines (pre @ [h])) \<noteq> u_cr"
    using no_cr_prefix [of "pre @ [h]" "sec @ post"] ls ncr body by (simp add: no_cr_end_def)
  obtain sec' where sec': "splitLinesWithTerminators (content @ joinLines post) = sec' @ post"
    "uids_of_lines sec' = us" "\<forall>l \<in> set sec'. \<not> closes (level_of h) l"
  proof (cases "us = []")
    case True
    then show ?thesis using that rebuilt_empty [OF l(2-4) c(4), of e] unfolding content_def by auto
  next
    case False
    note a = l(2-4) c(4) us(1) e False
    show ?thesis
    proof (cases "\<exists>l \<in> set sec. scope_line l")
      case True
      show ?thesis using that rebuilt_replaced [OF a True, of t] unfolding content_def by blast
    next
      case False
      then show ?thesis using that rebuilt_inserted [OF a _ ncs, of t] unfolding content_def by blast
    qed
  qed
  have r: "renderBodyWithScope body us t =
      joinLines (pre @ [h]) @ (if body ! (sec_start s - 1) = u_nl then [] else e @ e) @ content @ joinLines post"
    unfolding renderBodyWithScope_def Let_def loc option.case c(7-9) e_def content_def by simp
  have lastu: "body ! (sec_start s - 1) = last (joinLines (pre @ [h]))"
  proof -
    have "ln_text h \<noteq> []" using c(3) by (auto simp: opens_def heading_of_def)
    then have ne: "joinLines (pre @ [h]) \<noteq> []" by (simp add: line_units_def)
    then show ?thesis unfolding c(6) body joinLines_simps(3) [of "pre @ [h]" "sec @ post"]
      by (subst nth_append) (simp add: last_conv_nth del: joinLines_simps)
  qed
  show ?thesis
  proof (cases "list_all terminated (pre @ [h])")
    case True
    then have "body ! (sec_start s - 1) = u_nl" unfolding lastu using last_join_terminated [OF True] by simp
    then have "splitLinesWithTerminators (renderBodyWithScope body us t) = pre @ h # sec' @ post"
      unfolding r using split_terminated [OF True, of "content @ joinLines post"] sec'(1) by simp
    from extract_cut [OF this c(2,3) sec'(3) c(5) sec'(2) us(2)] show ?thesis .
  next
    case False
    then have z: "sec = []" "post = []" using l(5) by auto
    have nt: "\<not> terminated h" using False lines_ok_append [of pre "[h]"] l(1) by auto
    have "body ! (sec_start s - 1) \<noteq> u_nl" unfolding lastu
      using terminated_if_nl [OF l(1)] False by blast
    then have "splitLinesWithTerminators (renderBodyWithScope body us t)
        = close_lines e (pre @ [h]) @ splitLinesWithTerminators ([] @ e @ content @ joinLines post)"
      unfolding r using split_close_lines [OF l(1) e nch, of "e @ content @ joinLines post"] by simp
    also have "\<dots> = close_lines e (pre @ [h]) @ \<lparr>ln_text = [], ln_term = e\<rparr> # sec' @ post"
      using split_eol [of "[]" e "content @ joinLines post"] e sec'(1) by (simp add: text_ok_def)
    also have "\<dots> = pre @ \<lparr>ln_text = ln_text h, ln_term = e\<rparr> # (\<lparr>ln_text = [], ln_term = e\<rparr> # sec') @ post"
      using nt by (simp add: close_lines_def)
    finally have sp: "splitLinesWithTerminators (renderBodyWithScope body us t) = \<dots>" .
    have h': "opens \<lparr>ln_text = ln_text h, ln_term = e\<rparr>" "level_of \<lparr>ln_text = ln_text h, ln_term = e\<rparr> = level_of h"
      using c(3) opens_text [of h "\<lparr>ln_text = ln_text h, ln_term = e\<rparr>"] by (simp_all add: level_of_def)
    show ?thesis
      by (rule extract_cut [OF sp c(2) h'(1)]) (use sec' us z h' in auto)
  qed
qed

lemma heading_line: "opens \<lparr>ln_text = units ''## Requirements'', ln_term = e\<rparr>"
proof -
  have "case heading_of (units ''## Requirements'') of
      None \<Rightarrow> False | Some (n, t) \<Rightarrow> 2 \<le> n \<and> n \<le> 4 \<and> is_requirements_title t" by code_simp
  then show ?thesis by (simp add: opens_def)
qed

lemma render_appended:
  assumes loc: "locateRequirementsSection body = None" and ncr: "no_cr_end body"
    and us: "\<forall>u \<in> set us. isRequirementUidToken u" "distinct us"
  shows "extractInScopeRequirementUids (renderBodyWithScope body us t) = us"
proof -
  define e where "e = dominantEol body"
  have e: "eol_ok e" by (simp add: e_def)
  let ?L = "splitLinesWithTerminators body"
  let ?E = "\<lparr>ln_text = [], ln_term = e\<rparr>"
  let ?H = "\<lparr>ln_text = units ''## Requirements'', ln_term = e\<rparr>"
  let ?B = "scope_block us t e"
  note bf = scope_block_facts [OF us(1) e, where titles = t]
  have ncr': "joinLines ?L = [] \<or> last (joinLines ?L) \<noteq> u_cr" using ncr by (simp add: no_cr_end_def)
  have tH: "terminated ?H" using e by (auto simp: terminated_def text_ok_def units_def)
  have r: "renderBodyWithScope body us t = joinLines ?L @ sectionAppendSeparator body e @ joinLines (?H # ?E # ?B)"
  proof -
    have "joinLines ?B = concat (map (\<lambda>b. b @ e) (map (\<lambda>u. renderRequirementBullet u (t u)) us))"
      by (induction us) (simp_all add: scope_block_def line_units_def)
    then show ?thesis unfolding renderBodyWithScope_def Let_def loc option.case
      by (simp add: line_units_def e_def)
  qed
  have none: "\<forall>l \<in> set ?L. \<not> opens l" using loc by (simp add: locate_none)
  have none': "\<forall>l \<in> set (close_lines e ?L). \<not> opens l"
    by (rule close_lines_keep(1) [OF none])
  have sB: "splitLinesWithTerminators (joinLines (?H # ?E # ?B)) = ?H # ?E # ?B"
    using tH e bf(1) by (intro split_lines terminated_ok) simp
  have "\<exists>pre. splitLinesWithTerminators (renderBodyWithScope body us t) = pre @ ?H # ?E # ?B \<and> (\<forall>l \<in> set pre. \<not> opens l)"
  proof -
    consider "sectionAppendSeparator body e = []" "body = [] \<or> ends_with e body"
      | "sectionAppendSeparator body e = e" | "sectionAppendSeparator body e = e @ e"
      unfolding sectionAppendSeparator_def
      by (cases "body = []"; cases "ends_with e body"; cases "ends_with (e @ e) body") simp_all
    then show ?thesis
    proof cases
      case 1
      have "list_all terminated ?L"
      proof (rule terminated_if_nl [OF split_ok])
        have "ends_with e body \<Longrightarrow> hd (rev body) = u_nl"
          using e by (cases "rev body") (auto simp: ends_with_def starts_with_def eol_ok_def)
        then show "joinLines ?L = [] \<or> last (joinLines ?L) = u_nl"
          using 1(2) by (auto simp: hd_rev)
      qed
      from split_terminated [OF this] show ?thesis unfolding r 1 using sB none by auto
    next
      case 2
      from split_close_lines [OF split_ok e ncr'] show ?thesis unfolding r 2 using sB none' by auto
    next
      case 3
      have "splitLinesWithTerminators ([] @ e @ joinLines (?H # ?E # ?B)) = ?E # ?H # ?E # ?B"
        using split_eol [of "[]" e] e sB by (simp add: text_ok_def del: joinLines_simps)
      then have "splitLinesWithTerminators (joinLines ?L @ e @ [] @ e @ joinLines (?H # ?E # ?B))
          = (close_lines e ?L @ [?E]) @ ?H # ?E # ?B"
        using split_close_lines [OF split_ok e ncr'] by simp
      then show ?thesis unfolding r 3 using none' by (intro exI [of _ "close_lines e ?L @ [?E]"]) simp
    qed
  qed
  then obtain pre where p: "splitLinesWithTerminators (renderBodyWithScope body us t) = pre @ ?H # (?E # ?B) @ []"
    "\<forall>l \<in> set pre. \<not> opens l" by auto
  show ?thesis
    by (rule extract_cut [OF p heading_line]) (use bf us in auto)
qed

section \<open>The operation on the whole body\<close>

lemma sameOrderedUids_eq [simp]: "sameOrderedUids a b \<longleftrightarrow> a = b"
  by (auto simp: sameOrderedUids_def list.rel_eq)

definition intended_uids :: "ustr \<Rightarrow> js \<Rightarrow> js \<Rightarrow> ustr list" where
  "intended_uids body operation uids =
     (let cur = extractInScopeRequirementUids body; named = uid_units uids
      in if operation = JStr ''add'' then cur @ filter (\<lambda>u. u \<notin> set cur) named
         else filter (\<lambda>u. u \<notin> set named) cur)"

lemma scope_resolve_ok:
  "resolveIntendedScope body operation uids = Inr s \<longleftrightarrow>
     validateRequirementScopeInput operation uids = None
     \<and> s = \<lparr>is_current = extractInScopeRequirementUids body, is_intended = intended_uids body operation uids,
            is_changed = (extractInScopeRequirementUids body \<noteq> intended_uids body operation uids)\<rparr>"
  by (auto simp: resolveIntendedScope_def intended_uids_def Let_def split: option.splits)

lemma units_inj: "units s = units t \<Longrightarrow> s = t"
proof (induction s arbitrary: t)
  case (Cons c s)
  then obtain d r where t: "t = d # r" "of_char c = (of_char d :: 16 word)" "units s = units r"
    by (cases t) (auto simp: units_def)
  have u: "unat (of_char x :: 16 word) = of_char x" for x :: char
  proof -
    have "(of_char x :: nat) < 65536" by (rule less_trans [OF nat_of_char_less_256]) simp
    moreover have "(of_char x :: 16 word) = of_nat (of_char x)" by (rule of_nat_of_char [symmetric])
    ultimately show ?thesis by (simp add: unat_of_nat)
  qed
  have "unat (of_char c :: 16 word) = unat (of_char d :: 16 word)" using t(2) by (rule arg_cong)
  then have "(of_char c :: nat) = of_char d" unfolding u .
  then have "c = d" by (rule of_char_eqI)
  with t Cons.IH show ?case by simp
qed (simp add: units_def)

lemma uid_units_distinct:
  assumes "validateRequirementScopeInput operation uids = None"
  shows "distinct (uid_units uids)"
proof -
  from assms obtain us where us: "uids = JArr us" "distinct us" "\<forall>u \<in> set us. is_string u"
    by (cases uids) (auto simp: validateRequirementScopeInput_def list_all_iff is_string_def split: if_splits js.splits)
  have "inj_on (\<lambda>u. units (case u of JStr s \<Rightarrow> s | _ \<Rightarrow> [])) (set us)"
  proof (rule inj_onI)
    fix x y assume "x \<in> set us" "y \<in> set us"
      and eq: "units (case x of JStr s \<Rightarrow> s | _ \<Rightarrow> []) = units (case y of JStr s \<Rightarrow> s | _ \<Rightarrow> [])"
    then obtain a b where "x = JStr a" "y = JStr b" using us(3) is_string_iff by metis
    with eq show "x = y" by (simp add: units_inj)
  qed
  with us show ?thesis by (simp add: uid_units_def distinct_map)
qed

lemma intended_distinct:
  "validateRequirementScopeInput operation uids = None \<Longrightarrow> distinct (intended_uids body operation uids)"
  using uid_units_distinct extract_distinct by (auto simp: intended_uids_def Let_def)

lemma intended_tokens:
  "\<forall>u \<in> set (uid_units uids). isRequirementUidToken u \<Longrightarrow>
     \<forall>u \<in> set (intended_uids body operation uids). isRequirementUidToken u"
  by (auto simp: intended_uids_def Let_def dest: extract_tokens)

lemma intended_again:
  assumes "extractInScopeRequirementUids b = intended_uids body operation uids"
  shows "intended_uids b operation uids = extractInScopeRequirementUids b"
  using assms by (auto simp: intended_uids_def Let_def filter_id_conv filter_empty_conv)

lemma apply_ok:
  "applyRequirementScopeOperation body operation uids titles = Inr r \<Longrightarrow>
     validateRequirementScopeInput operation uids = None
     \<and> su_uids r = intended_uids body operation uids \<and> extractInScopeRequirementUids (su_body r) = su_uids r
     \<and> (su_body r = body \<or> su_body r = renderBodyWithScope body (su_uids r) titles)
     \<and> (su_changed r \<longleftrightarrow> extractInScopeRequirementUids body \<noteq> su_uids r) \<and> (\<not> su_changed r \<longrightarrow> su_body r = body)"
  unfolding applyRequirementScopeOperation_def
  by (cases "resolveIntendedScope body operation uids") (auto simp: scope_resolve_ok Let_def split: if_splits)

lemma scope_write_total:
  assumes "validateRequirementScopeInput operation uids = None"
    and "list_all isRequirementUidToken (uid_units uids)" and "no_cr_end body"
  shows "\<exists>r. applyRequirementScopeOperation body operation uids titles = Inr r"
proof -
  let ?i = "intended_uids body operation uids"
  have t: "\<forall>u \<in> set ?i. isRequirementUidToken u" and d: "distinct ?i"
    using assms(1,2) by (auto simp: intended_tokens intended_distinct list_all_iff)
  have "extractInScopeRequirementUids body \<noteq> ?i \<Longrightarrow>
      extractInScopeRequirementUids (renderBodyWithScope body ?i titles) = ?i"
    using render_located [OF _ assms(3) t d] render_appended [OF _ assms(3) t d]
    by (cases "locateRequirementsSection body") auto
  then show ?thesis
    using scope_resolve_ok [THEN iffD2, OF conjI [OF assms(1) refl], of body]
    by (cases "extractInScopeRequirementUids body = ?i") (simp_all add: applyRequirementScopeOperation_def Let_def)
qed

lemma scope_refusal:
  assumes "validateRequirementScopeInput operation uids = None"
    and "applyRequirementScopeOperation body operation uids titles = Inl e"
  shows "e = ''issue_requirements_round_trip_failed''"
  using assms(2) scope_resolve_ok [THEN iffD2, OF conjI [OF assms(1) refl], of body]
  by (simp add: applyRequirementScopeOperation_def Let_def split: if_splits)

text \<open>
  C22. A scope operation on recognised identifiers, once its arguments are valid, succeeds on every body that does
  not end in a bare carriage return: the rewritten section reads back, through the reader the gates run, as the old
  scope with the named identifiers added or removed. On a body that ends in a bare carriage return it either does
  the same or is refused because the result would not read back; nothing else can go wrong.
\<close>

theorem scope_write_succeeds:
  assumes "validateRequirementScopeInput operation uids = None"
    and "list_all isRequirementUidToken (uid_units uids)"
  shows "(\<exists>r. applyRequirementScopeOperation body operation uids titles = Inr r
           \<and> su_uids r = (if operation = JStr ''add''
                then extractInScopeRequirementUids body
                       @ filter (\<lambda>u. u \<notin> set (extractInScopeRequirementUids body)) (uid_units uids)
                else filter (\<lambda>u. u \<notin> set (uid_units uids)) (extractInScopeRequirementUids body))
           \<and> extractInScopeRequirementUids (su_body r) = su_uids r)
    \<or> (body \<noteq> [] \<and> last body = u_cr
       \<and> applyRequirementScopeOperation body operation uids titles = Inl ''issue_requirements_round_trip_failed'')"
proof (cases "applyRequirementScopeOperation body operation uids titles")
  case (Inr r)
  then show ?thesis using apply_ok [OF Inr] unfolding intended_uids_def Let_def by blast
next
  case (Inl e)
  then have "\<not> no_cr_end body" using scope_write_total [OF assms, of body titles] by auto
  then show ?thesis using scope_refusal [OF assms(1) Inl] Inl by (simp add: no_cr_end_def)
qed

text \<open>
  C23. Every scope operation that reports success leaves the text around the section as it was, on \<open>add\<close> keeps
  every identifier and on \<open>remove\<close> drops the named ones only, and repeating it changes nothing.
\<close>

theorem scope_update_exact:
  assumes "applyRequirementScopeOperation body operation uids titles = Inr r"
  shows "extractInScopeRequirementUids (su_body r) = su_uids r
    \<and> set (su_uids r) = (if operation = JStr ''add''
         then set (extractInScopeRequirementUids body) \<union> set (uid_units uids)
         else set (extractInScopeRequirementUids body) - set (uid_units uids))
    \<and> distinct (su_uids r)
    \<and> (\<exists>mid. su_body r = (case locateRequirementsSection body of
           None \<Rightarrow> body @ mid
         | Some s \<Rightarrow> take (sec_start s) body @ mid @ drop (sec_end s) body))
    \<and> applyRequirementScopeOperation (su_body r) operation uids titles'
        = Inr \<lparr>su_changed = False, su_body = su_body r, su_uids = su_uids r\<rparr>"
proof -
  note a = apply_ok [OF assms]
  have "set (su_uids r) = (if operation = JStr ''add''
         then set (extractInScopeRequirementUids body) \<union> set (uid_units uids)
         else set (extractInScopeRequirementUids body) - set (uid_units uids))"
    using a by (auto simp: intended_uids_def Let_def)
  moreover have "\<exists>mid. su_body r = (case locateRequirementsSection body of
           None \<Rightarrow> body @ mid
         | Some s \<Rightarrow> take (sec_start s) body @ mid @ drop (sec_end s) body)"
  proof (cases "su_body r = body")
    case True
    show ?thesis
    proof (cases "locateRequirementsSection body")
      case (Some s)
      then have "sec_start s \<le> sec_end s" by (rule locate_some) simp
      then have "body = take (sec_start s) body @ take (sec_end s - sec_start s) (drop (sec_start s) body) @ drop (sec_end s) body"
        by (metis append_take_drop_id drop_drop le_add_diff_inverse2)
      with True Some show ?thesis by auto
    qed (simp add: True)
  next
    case False
    then have b: "su_body r = renderBodyWithScope body (su_uids r) titles" using a by blast
    show ?thesis unfolding b renderBodyWithScope_def
      by (cases "locateRequirementsSection body") (auto simp: Let_def)
  qed
  moreover have "applyRequirementScopeOperation (su_body r) operation uids titles'
        = Inr \<lparr>su_changed = False, su_body = su_body r, su_uids = su_uids r\<rparr>"
  proof -
    have "resolveIntendedScope (su_body r) operation uids
        = Inr \<lparr>is_current = su_uids r, is_intended = su_uids r, is_changed = False\<rparr>"
      unfolding scope_resolve_ok using a intended_again [of "su_body r" body operation uids] by simp
    then show ?thesis by (simp add: applyRequirementScopeOperation_def)
  qed
  ultimately show ?thesis using a intended_distinct by auto
qed

section \<open>Witnesses\<close>

definition scope_example :: ustr where
  "scope_example = units ''# Task'' @ [u_nl] @ units ''## Requirements'' @ [u_nl] @ units ''- GC-A001'' @ [u_nl]"

lemma scope_example_args:
  "validateRequirementScopeInput (JStr ''add'') (JArr [JStr ''GC-B002'']) = None"
  "list_all isRequirementUidToken (uid_units (JArr [JStr ''GC-B002'']))" "no_cr_end scope_example"
  by code_simp+

lemma scope_example_read: "extractInScopeRequirementUids scope_example = [units ''GC-A001'']"
  by code_simp

lemma scope_write_succeeds_witness:
  "\<exists>r. applyRequirementScopeOperation scope_example (JStr ''add'') (JArr [JStr ''GC-B002'']) (\<lambda>u. None) = Inr r
     \<and> su_uids r = [units ''GC-A001'', units ''GC-B002''] \<and> extractInScopeRequirementUids (su_body r) = su_uids r"
proof -
  have "uid_units (JArr [JStr ''GC-B002'']) = [units ''GC-B002'']" by (simp add: uid_units_def)
  moreover have "units ''GC-B002'' \<noteq> units ''GC-A001''" by (auto dest: units_inj)
  ultimately show ?thesis
    using scope_write_succeeds [OF scope_example_args(1,2), of scope_example "\<lambda>u. None"] scope_example_args(3)
    by (auto simp: scope_example_read no_cr_end_def)
qed

text \<open>The refusal happens: after a heading that ends in a bare carriage return no bullet can be read.\<close>

lemma cr_end_refused:
  "applyRequirementScopeOperation (units ''## Requirements'' @ [u_cr]) (JStr ''add'') (JArr [JStr ''GC-B002'']) (\<lambda>u. None)
     = Inl ''issue_requirements_round_trip_failed''"
  by code_simp

lemma scope_update_exact_witness:
  "\<exists>r. applyRequirementScopeOperation scope_example (JStr ''add'') (JArr [JStr ''GC-B002'']) (\<lambda>u. None) = Inr r
     \<and> set (su_uids r) = {units ''GC-A001'', units ''GC-B002''}
     \<and> applyRequirementScopeOperation (su_body r) (JStr ''add'') (JArr [JStr ''GC-B002'']) (\<lambda>u. None)
         = Inr \<lparr>su_changed = False, su_body = su_body r, su_uids = su_uids r\<rparr>"
proof -
  have u: "uid_units (JArr [JStr ''GC-B002'']) = [units ''GC-B002'']" by (simp add: uid_units_def)
  obtain r where r: "applyRequirementScopeOperation scope_example (JStr ''add'') (JArr [JStr ''GC-B002'']) (\<lambda>u. None) = Inr r"
    using scope_write_total [OF scope_example_args] by blast
  from r scope_update_exact [OF r, of "\<lambda>u. None"] show ?thesis
    by (intro exI [of _ r]) (auto simp: u scope_example_read)
qed

end
