(* ===== verification/RequirementFiles.thy ===== *)
theory RequirementFiles
  imports IssueScope
begin

text \<open>
  Requirement files (\<open>lib/requirement-files.js\<close>): the frontmatter parser, the sections and
  traceability links of a requirement, the reader at a Git revision, and the strict identity
  check that guards the scope writer.

  The file system and \<open>git show\<close> are parameters. Paths are joined with single slashes, as
  \<open>path.join\<close> does for a normalized repository path and names without \<open>.\<close> or \<open>..\<close> segments.
\<close>

section \<open>Frontmatter\<close>

text \<open>\<open>text.split(/\r?\n/)\<close>: one carriage return in front of each line feed belongs to the separator.\<close>

fun drop_line_cr :: "ustr list \<Rightarrow> ustr list" where
  "drop_line_cr [] = []"
| "drop_line_cr [l] = [l]"
| "drop_line_cr (l # m # ls) =
     (if l \<noteq> [] \<and> last l = u_cr then butlast l else l) # drop_line_cr (m # ls)"

definition split_crlf :: "ustr \<Rightarrow> ustr list" where
  "split_crlf t = drop_line_cr (split_on u_nl t)"

text \<open>The two replacements that unquote a value.\<close>

fun unquote1 :: "ustr \<Rightarrow> ustr" where
  "unquote1 (a # b # r) = (if a = 0x5C \<and> b = 0x22 then 0x22 # unquote1 r else a # unquote1 (b # r))"
| "unquote1 r = r"

fun unquote2 :: "ustr \<Rightarrow> ustr" where
  "unquote2 (a # b # r) = (if a = 0x5C \<and> b = 0x5C then 0x5C # unquote2 r else a # unquote2 (b # r))"
| "unquote2 r = r"

definition unquote_value :: "ustr \<Rightarrow> ustr" where
  "unquote_value v =
     (if v \<noteq> [] \<and> hd v = 0x22 \<and> last v = 0x22 \<and> 2 \<le> length v
      then unquote2 (unquote1 (butlast (tl v))) else v)"

record parsed_file =
  pf_frontmatter :: "(ustr, ustr) jmap"
  pf_body :: "ustr list"

text \<open>
  \<open>frontmatter[key] = value\<close> on a plain object: a text assigned to \<open>__proto__\<close> goes to the setter every object
  inherits, which ignores what is not an object.
\<close>

definition proto_key :: ustr where "proto_key = units ''__proto__''"

definition set_field :: "ustr \<Rightarrow> ustr \<Rightarrow> (ustr, ustr) jmap \<Rightarrow> (ustr, ustr) jmap" where
  "set_field k v fm = (if k = proto_key then fm else jm_set k v fm)"

fun parse_lines :: "(ustr, ustr) jmap \<Rightarrow> ustr list \<Rightarrow> parsed_file option" where
  "parse_lines fm [] = None"
| "parse_lines fm (l # ls) =
     (if utrim l = units ''---'' then Some \<lparr>pf_frontmatter = fm, pf_body = ls\<rparr>
      else (let key = takeWhile (\<lambda>u. u \<noteq> 0x3A) l
            in if 0x3A \<in> set l \<and> key \<noteq> []
               then parse_lines (set_field (utrim key) (unquote_value (utrim (drop (Suc (length key)) l))) fm) ls
               else parse_lines fm ls))"

definition parse_requirement :: "ustr \<Rightarrow> parsed_file option" where
  "parse_requirement text =
     (case split_crlf text of
        first # ls \<Rightarrow> if utrim first = units ''---'' then parse_lines [] ls else None
      | [] \<Rightarrow> None)"

section \<open>Sections and links\<close>

text \<open>The lines after the first one that reads \<open>## heading\<close>, up to the next \<open>## \<close>.\<close>

definition heading_lines :: "string \<Rightarrow> ustr list \<Rightarrow> ustr list option" where
  "heading_lines heading body =
     (case dropWhile (\<lambda>l. utrim l \<noteq> units (''## '' @ heading)) body of
        [] \<Rightarrow> None
      | _ # r \<Rightarrow> Some (takeWhile (\<lambda>l. \<not> starts_with (units ''## '') l) r))"

definition section_text :: "ustr list \<Rightarrow> string \<Rightarrow> ustr option" where
  "section_text body heading =
     (case heading_lines heading body of
        None \<Rightarrow> None
      | Some ls \<Rightarrow> (let t = utrim (join [u_nl] ls) in if t = [] then None else Some t))"

record trace_link =
  tk_link_type :: ustr
  tk_artifact_type :: ustr
  tk_identifier :: ustr
  tk_title :: "ustr option"

text \<open>\<open>(\S+)\s+\<close> and \<open>\s+\<close>.\<close>

definition u_word :: "ustr \<Rightarrow> (ustr \<times> ustr) option" where
  "u_word t = (let w = takeWhile (\<lambda>u. \<not> ws_unit u) t; r = dropWhile (\<lambda>u. \<not> ws_unit u) t
               in if w = [] \<or> r = [] then None else Some (w, dropWhile ws_unit r))"

definition u_ws1 :: "ustr \<Rightarrow> ustr option" where
  "u_ws1 t = (case t of c # r \<Rightarrow> if ws_unit c then Some (dropWhile ws_unit r) else None | [] \<Rightarrow> None)"

definition u_char :: "16 word \<Rightarrow> ustr \<Rightarrow> ustr option" where
  "u_char u t = (case t of c # r \<Rightarrow> if c = u then Some r else None | [] \<Rightarrow> None)"

text \<open>\<open>TRACE_LINE_RE\<close> on a trimmed line: what follows the identifier is nothing or a parenthesised title.\<close>

definition trace_title :: "ustr \<Rightarrow> ustr option option" where
  "trace_title t =
     (if t = [] then Some None
      else do {
        a \<leftarrow> u_ws1 t;
        b \<leftarrow> u_char 0x28 a;
        (if 2 \<le> length b \<and> last b = 0x29 \<and> list_all (\<lambda>u. \<not> u_line_end u) (butlast b)
         then Some (Some (butlast b)) else None) })"

definition trace_line :: "ustr \<Rightarrow> trace_link option" where
  "trace_line t = do {
     a \<leftarrow> u_char 0x2D t;
     b \<leftarrow> u_ws1 a;
     (lt, c) \<leftarrow> u_word b;
     d \<leftarrow> u_char 0x2192 c;
     e \<leftarrow> u_ws1 d;
     (ty, f) \<leftarrow> u_word e;
     g \<leftarrow> u_char 0x60 f;
     (let ident = takeWhile (\<lambda>u. u \<noteq> 0x60) g
      in if ident = [] then None else do {
           h \<leftarrow> u_char 0x60 (drop (length ident) g);
           title \<leftarrow> trace_title h;
           Some \<lparr>tk_link_type = lt, tk_artifact_type = ty, tk_identifier = ident, tk_title = title\<rparr> }) }"

definition traceability :: "ustr list \<Rightarrow> trace_link list" where
  "traceability body =
     (case heading_lines ''Traceability'' body of
        None \<Rightarrow> []
      | Some ls \<Rightarrow> List.map_filter (\<lambda>l. trace_line (utrim l)) ls)"

section \<open>Requirements\<close>

text \<open>\<open>Number(v)\<close> of a nonblank text, exactly (the code rounds to a double).\<close>

definition u_dec :: "ustr \<Rightarrow> nat" where
  "u_dec ds = foldl (\<lambda>a u. a * 10 + unat (u - 0x30)) 0 ds"

definition u_digits :: "ustr \<Rightarrow> ustr \<times> ustr" where
  "u_digits t = (takeWhile u_digit t, dropWhile u_digit t)"

definition u_signed :: "ustr \<Rightarrow> bool \<times> ustr" where
  "u_signed t = (case t of
      c # r \<Rightarrow> if c = 0x2D then (True, r) else if c = 0x2B then (False, r) else (False, t)
    | [] \<Rightarrow> (False, t))"

definition scaled :: "bool \<Rightarrow> nat \<Rightarrow> int \<Rightarrow> js" where
  "scaled neg m e =
     (let s = (if neg then - int m else int m)
      in if 0 \<le> e then JInt (s * 10 ^ nat e)
         else if 10 ^ nat (- e) dvd m then JInt (s div 10 ^ nat (- e))
         else JFrac s (10 ^ nat (- e)))"

definition u_exponent :: "ustr \<Rightarrow> int option" where
  "u_exponent t = (case t of
      [] \<Rightarrow> Some 0
    | c # r \<Rightarrow>
        if c = 0x65 \<or> c = 0x45
        then (let (neg, x) = u_signed r; (ds, y) = u_digits x
              in if ds = [] \<or> y \<noteq> [] then None else Some (if neg then - int (u_dec ds) else int (u_dec ds)))
        else None)"

text \<open>The digits of \<open>0x\<close>, \<open>0o\<close> and \<open>0b\<close> numerals.\<close>

definition u_digit_value :: "16 word \<Rightarrow> nat option" where
  "u_digit_value u =
     (if u_digit u then Some (unat (u - 0x30))
      else if 0x61 \<le> u \<and> u \<le> 0x66 then Some (unat (u - 0x57))
      else if 0x41 \<le> u \<and> u \<le> 0x46 then Some (unat (u - 0x37)) else None)"

definition u_radix :: "nat \<Rightarrow> ustr \<Rightarrow> js" where
  "u_radix b ds =
     (if ds \<noteq> [] \<and> list_all (\<lambda>u. case u_digit_value u of Some d \<Rightarrow> d < b | None \<Rightarrow> False) ds
      then JInt (int (foldl (\<lambda>a u. a * b + the (u_digit_value u)) 0 ds)) else JNaN)"

definition u_decimal :: "ustr \<Rightarrow> js" where
  "u_decimal t =
     (let (neg, u) = u_signed t;
          (whole, r) = u_digits u;
          (frac, rest) = (case r of c # q \<Rightarrow> if c = 0x2E then u_digits q else ([], r) | [] \<Rightarrow> ([], r))
      in if u = units ''Infinity'' then JInf neg
         else if whole = [] \<and> frac = [] then JNaN
         else case u_exponent rest of
                None \<Rightarrow> JNaN
              | Some e \<Rightarrow> scaled neg (u_dec (whole @ frac)) (e - int (length frac)))"

definition js_number :: "ustr \<Rightarrow> js" where
  "js_number v =
     (let t = utrim v
      in if t = [] then JInt 0
         else case t of
           a # b # ds \<Rightarrow>
             if a = 0x30 \<and> (b = 0x78 \<or> b = 0x58) then u_radix 16 ds
             else if a = 0x30 \<and> (b = 0x6F \<or> b = 0x4F) then u_radix 8 ds
             else if a = 0x30 \<and> (b = 0x62 \<or> b = 0x42) then u_radix 2 ds
             else u_decimal t
         | _ \<Rightarrow> u_decimal t)"

record requirement =
  rq_id :: ustr
  rq_title :: ustr
  rq_statement :: ustr
  rq_rationale :: ustr
  rq_type :: "ustr option"
  rq_priority :: "ustr option"
  rq_status :: "ustr option"
  rq_wave :: js
  rq_created_at :: "ustr option"
  rq_updated_at :: "ustr option"
  rq_links :: "trace_link list"

text \<open>\<open>fm.key || null\<close> and \<open>fm.key || d\<close>: an empty value counts as absent.\<close>

definition fm_field :: "(ustr, ustr) jmap \<Rightarrow> string \<Rightarrow> ustr option" where
  "fm_field fm k = (case jm_get fm (units k) of Some v \<Rightarrow> if v = [] then None else Some v | None \<Rightarrow> None)"

definition or_else :: "ustr \<Rightarrow> ustr option \<Rightarrow> ustr" where
  "or_else d v = (case v of Some x \<Rightarrow> x | None \<Rightarrow> d)"

definition toRequirement :: "ustr \<Rightarrow> parsed_file \<Rightarrow> requirement" where
  "toRequirement uid p =
     (let fm = pf_frontmatter p
      in \<lparr>rq_id = or_else uid (fm_field fm ''id''),
          rq_title = or_else [] (fm_field fm ''title''),
          rq_statement = or_else [] (section_text (pf_body p) ''Statement''),
          rq_rationale = or_else [] (section_text (pf_body p) ''Rationale''),
          rq_type = fm_field fm ''type'',
          rq_priority = fm_field fm ''priority'',
          rq_status = fm_field fm ''status'',
          rq_wave = (case fm_field fm ''wave'' of None \<Rightarrow> JNull
                     | Some w \<Rightarrow> if js_number w = JNaN then JNull else js_number w),
          rq_created_at = fm_field fm ''created_at'',
          rq_updated_at = fm_field fm ''updated_at'',
          rq_links = traceability (pf_body p)\<rparr>)"

section \<open>Readers\<close>

record file_handle =
  fh_is_file :: "bool option"
  fh_canonical :: "ustr option"
  fh_text :: "ustr option"

text \<open>
  What the host answers: \<open>None\<close> where a call throws. \<open>fh_canonical\<close> is the file the open descriptor
  really holds, \<open>ho_show\<close> the output of \<open>git show revision:path\<close>.
\<close>

record host =
  ho_open :: "ustr \<Rightarrow> file_handle option"
  ho_realpath :: "ustr \<Rightarrow> ustr option"
  ho_read :: "ustr \<Rightarrow> ustr option"
  ho_dir :: "ustr \<Rightarrow> (ustr \<times> bool) list option"
  ho_show :: "ustr \<Rightarrow> ustr \<Rightarrow> ustr option"

definition path_join :: "ustr list \<Rightarrow> ustr" where
  "path_join ps = join [0x2F] ps"

definition specDir :: "ustr \<Rightarrow> ustr" where
  "specDir repo = path_join [repo, units ''docs/requirements'']"

definition requirementPath :: "ustr \<Rightarrow> ustr \<Rightarrow> ustr" where
  "requirementPath repo uid = path_join [specDir repo, uid, units ''requirement.md'']"

definition readRequirementByUid :: "host \<Rightarrow> ustr \<Rightarrow> ustr \<Rightarrow> requirement option" where
  "readRequirementByUid h repo uid =
     (case ho_read h (requirementPath repo uid) of
        None \<Rightarrow> None
      | Some text \<Rightarrow> map_option (toRequirement uid) (parse_requirement text))"

definition readTraceabilityLinks :: "host \<Rightarrow> ustr \<Rightarrow> ustr \<Rightarrow> trace_link list" where
  "readTraceabilityLinks h repo uid =
     (case readRequirementByUid h repo uid of None \<Rightarrow> [] | Some r \<Rightarrow> rq_links r)"

datatype identity =
    Absent
  | Unverifiable
  | Malformed
  | Identified "ustr option" requirement

definition identify :: "ustr \<Rightarrow> ustr \<Rightarrow> identity" where
  "identify uid text =
     (case parse_requirement text of
        None \<Rightarrow> Malformed
      | Some p \<Rightarrow> Identified (jm_get (pf_frontmatter p) (units ''id'')) (toRequirement uid p))"

text \<open>\<open>FULL_GIT_OID_RE\<close>.\<close>

definition full_git_oid :: "ustr \<Rightarrow> bool" where
  "full_git_oid t \<longleftrightarrow> (length t = 40 \<or> length t = 64) \<and> list_all (\<lambda>u. u_digit u \<or> (0x61 \<le> u \<and> u \<le> 0x66)) t"

definition requirementGitPath :: "ustr \<Rightarrow> ustr" where
  "requirementGitPath uid = units ''docs/requirements/'' @ uid @ units ''/requirement.md''"

definition readRequirementAtRevision :: "host \<Rightarrow> ustr \<Rightarrow> ustr \<Rightarrow> identity" where
  "readRequirementAtRevision h uid revision =
     (if \<not> exact_requirement_uid uid then Absent
      else if \<not> full_git_oid revision then Absent
      else (case ho_show h revision (requirementGitPath uid) of None \<Rightarrow> Absent | Some text \<Rightarrow> identify uid text))"

definition readRequirementIdentity :: "host \<Rightarrow> ustr \<Rightarrow> ustr \<Rightarrow> identity" where
  "readRequirementIdentity h repo uid =
     (if \<not> exact_requirement_uid uid then Absent
      else case ho_open h (requirementPath repo uid) of
        None \<Rightarrow> Absent
      | Some fh \<Rightarrow>
          (if fh_is_file fh \<noteq> Some True then Absent
           else case fh_canonical fh of
             None \<Rightarrow> Unverifiable
           | Some canonical \<Rightarrow>
               (case ho_realpath h repo of
                  None \<Rightarrow> Absent
                | Some root \<Rightarrow>
                    if canonical \<noteq> path_join [root, units ''docs/requirements'', uid, units ''requirement.md''] then Absent
                    else (case fh_text fh of None \<Rightarrow> Absent | Some text \<Rightarrow> identify uid text))))"

definition readAllRequirements :: "host \<Rightarrow> ustr \<Rightarrow> requirement list" where
  "readAllRequirements h repo =
     (case ho_dir h (specDir repo) of
        None \<Rightarrow> []
      | Some es \<Rightarrow> List.map_filter (\<lambda>(nm, dir). if dir then readRequirementByUid h repo nm else None) es)"

definition findTraceabilityByArtifact :: "host \<Rightarrow> ustr \<Rightarrow> ustr \<Rightarrow> ustr \<Rightarrow> (trace_link \<times> ustr \<times> ustr) list" where
  "findTraceabilityByArtifact h repo ty ident =
     concat (map (\<lambda>r. map (\<lambda>l. (l, rq_id r, rq_id r))
                        (filter (\<lambda>l. tk_artifact_type l = ty \<and> tk_identifier l = ident) (rq_links r)))
               (readAllRequirements h repo))"

section \<open>Frontmatter reads back\<close>

text \<open>
  The quoting the exporter applies, as the parser's comment states it: a backslash in front of every
  quote and backslash.
\<close>

fun quote_units :: "ustr \<Rightarrow> ustr" where
  "quote_units [] = []"
| "quote_units (u # r) = (if u = 0x22 \<or> u = 0x5C then [0x5C, u] else [u]) @ quote_units r"

definition quote_value :: "ustr \<Rightarrow> ustr" where
  "quote_value v = 0x22 # quote_units v @ [0x22]"

text \<open>What is left after the first replacement: backslashes doubled, quotes bare.\<close>

fun double_bs :: "ustr \<Rightarrow> ustr" where
  "double_bs [] = []"
| "double_bs (u # r) = (if u = 0x5C then [0x5C, 0x5C] else [u]) @ double_bs r"

lemma unquote1_plain: "a \<noteq> 0x5C \<Longrightarrow> unquote1 (a # r) = a # unquote1 r"
  by (cases r) auto

lemma unquote2_plain: "a \<noteq> 0x5C \<Longrightarrow> unquote2 (a # r) = a # unquote2 r"
  by (cases r) auto

lemma unquote1_quote: "unquote1 (quote_units v) = double_bs v"
proof (induction v)
  case (Cons u v)
  have bs: "unquote1 (0x5C # quote_units v) = 0x5C # unquote1 (quote_units v)"
  proof (cases v)
    case (Cons w r)
    then show ?thesis by (cases "w = 0x22 \<or> w = 0x5C") auto
  qed simp
  show ?case
    by (cases "u = 0x22"; cases "u = 0x5C") (simp_all add: Cons.IH bs unquote1_plain)
qed simp

lemma unquote2_double: "unquote2 (double_bs v) = v"
  by (induction v) (auto simp: unquote2_plain)

lemma unquote_quote: "unquote_value (quote_value v) = v"
  by (simp add: unquote_value_def quote_value_def unquote1_quote unquote2_double)

definition frontmatter_line :: "ustr \<Rightarrow> ustr \<Rightarrow> ustr" where
  "frontmatter_line k v = k @ [0x3A, u_sp] @ quote_value v"

definition plain_key :: "ustr \<Rightarrow> bool" where
  "plain_key k \<longleftrightarrow> k \<noteq> [] \<and> list_all (\<lambda>u. u_alnum u \<or> u = 0x5F) k"

definition render_requirement :: "(ustr \<times> ustr) list \<Rightarrow> ustr list \<Rightarrow> ustr" where
  "render_requirement fm body =
     join [u_nl] (units ''---'' # map (\<lambda>(k, v). frontmatter_line k v) fm @ units ''---'' # body)"

lemma split_on_plain: "sep \<notin> set w \<Longrightarrow> split_on sep w = [w]"
  by (induction w) auto

lemma split_on_sep: "sep \<notin> set w \<Longrightarrow> split_on sep (w @ sep # r) = w # split_on sep r"
  by (induction w) auto

lemma split_join: "\<forall>w \<in> set (w # ws). sep \<notin> set w \<Longrightarrow> split_on sep (join [sep] (w # ws)) = w # ws"
proof (induction ws arbitrary: w)
  case Nil
  then show ?case by (simp add: join_def split_on_plain)
next
  case (Cons v ws)
  have "join [sep] (w # v # ws) = w @ sep # join [sep] (v # ws)" by (simp add: join_def)
  with Cons.prems Cons.IH [of v] show ?case by (simp add: split_on_sep)
qed

lemma drop_line_cr_id: "\<forall>l \<in> set ls. l = [] \<or> last l \<noteq> u_cr \<Longrightarrow> drop_line_cr ls = ls"
  by (induction ls rule: drop_line_cr.induct) auto

definition plain_line :: "ustr \<Rightarrow> bool" where
  "plain_line l \<longleftrightarrow> u_nl \<notin> set l \<and> (l = [] \<or> last l \<noteq> u_cr)"

lemma split_crlf_join: "\<forall>l \<in> set (l # ls). plain_line l \<Longrightarrow> split_crlf (join [u_nl] (l # ls)) = l # ls"
  unfolding split_crlf_def
  using drop_line_cr_id [of "l # ls"] split_join [of l ls u_nl] unfolding plain_line_def by (metis list.set_intros(1))

lemma utrim_id: "t \<noteq> [] \<Longrightarrow> \<not> ws_unit (hd t) \<Longrightarrow> \<not> ws_unit (last t) \<Longrightarrow> utrim t = t"
proof -
  assume t: "t \<noteq> []" "\<not> ws_unit (hd t)" "\<not> ws_unit (last t)"
  have "dropWhile ws_unit t = t" using t by (simp add: dropWhile_eq_self_iff)
  moreover have "dropWhile ws_unit (rev t) = rev t" using t by (simp add: dropWhile_eq_self_iff hd_rev)
  ultimately show ?thesis unfolding utrim_def by simp
qed

lemma utrim_space: "utrim (u_sp # t) = utrim t"
  by (simp add: utrim_def ws_unit_def)

lemma key_units:
  assumes "plain_key k"
  shows "k \<noteq> []" "\<forall>u \<in> set k. \<not> ws_unit u" "\<forall>u \<in> set k. u \<noteq> 0x3A \<and> u \<noteq> 0x2D \<and> u \<noteq> u_nl"
proof -
  have u: "u_alnum u \<or> u = 0x5F \<Longrightarrow> \<not> ws_unit u \<and> u \<noteq> 0x3A \<and> u \<noteq> 0x2D \<and> u \<noteq> u_nl" for u
    by (auto simp: u_alnum_def u_caps_def u_upper_def u_lower_def u_digit_def ws_unit_def word_le_nat_alt)
  show "k \<noteq> []" "\<forall>u \<in> set k. \<not> ws_unit u" "\<forall>u \<in> set k. u \<noteq> 0x3A \<and> u \<noteq> 0x2D \<and> u \<noteq> u_nl"
    using assms u by (auto simp: plain_key_def list_all_iff)
qed

lemma quote_value_trim: "utrim (quote_value v) = quote_value v"
  by (rule utrim_id) (simp_all add: quote_value_def ws_unit_def)

lemma quote_units_nl: "u_nl \<in> set (quote_units v) \<longleftrightarrow> u_nl \<in> set v"
  by (induction v) auto

lemma frontmatter_line_plain: "plain_key k \<Longrightarrow> u_nl \<notin> set v \<Longrightarrow> plain_line (frontmatter_line k v)"
  using key_units(3) by (auto simp: plain_line_def frontmatter_line_def quote_value_def quote_units_nl)

lemma dashes: "utrim (units ''---'') = units ''---''" "plain_line (units ''---'')"
  by (simp_all add: utrim_def plain_line_def units_def ws_unit_def)

lemma parse_frontmatter_line:
  assumes "plain_key k"
  shows "parse_lines fm (frontmatter_line k v # ls) = parse_lines (set_field k v fm) ls"
proof -
  note k = key_units [OF assms]
  let ?l = "frontmatter_line k v"
  have l: "?l \<noteq> []" "hd ?l = hd k" using k(1) by (simp_all add: frontmatter_line_def)
  have "last ?l = 0x22" by (simp add: frontmatter_line_def quote_value_def)
  then have "utrim ?l = ?l" using l k(1,2) by (intro utrim_id) (auto simp: ws_unit_def)
  then have "utrim ?l \<noteq> units ''---''" using l k(1,3) by (auto simp: units_def)
  moreover have "takeWhile (\<lambda>u. u \<noteq> 0x3A) ?l = k"
    using k(3) by (auto simp: frontmatter_line_def takeWhile_append2)
  moreover have "utrim k = k" using k by (intro utrim_id) auto
  moreover have "drop (Suc (length k)) ?l = u_sp # quote_value v" "0x3A \<in> set ?l"
    by (simp_all add: frontmatter_line_def)
  ultimately show ?thesis
    using k(1) by (simp add: utrim_space quote_value_trim unquote_quote)
qed

lemma parse_frontmatter:
  assumes "distinct (map fst fm @ map fst kvs)" and "\<forall>k \<in> fst ` set kvs. plain_key k"
  shows "parse_lines fm (map (\<lambda>(k, v). frontmatter_line k v) kvs @ units ''---'' # body)
           = Some \<lparr>pf_frontmatter = fm @ filter (\<lambda>(k, v). k \<noteq> proto_key) kvs, pf_body = body\<rparr>"
  using assms
proof (induction kvs arbitrary: fm)
  case Nil
  then show ?case by (simp add: dashes)
next
  case (Cons e kvs)
  obtain k v where e: "e = (k, v)" by (cases e)
  have "set_field k v fm = (if k = proto_key then fm else fm @ [(k, v)])"
    using Cons.prems(1) e by (auto simp: set_field_def jm_set_def map_of_eq_None_iff intro!: jm_update_new)
  with Cons.prems Cons.IH [of "set_field k v fm"] show ?case
    by (simp add: e parse_frontmatter_line del: parse_lines.simps)
qed

text \<open>
  C24. A requirement file with quoted values parses back to exactly its frontmatter and its body lines,
  whatever quotes and backslashes the values hold; only an entry named \<open>__proto__\<close> is lost, since the parser
  assigns it to the prototype of a plain object.
\<close>

theorem requirement_file_roundtrip:
  assumes "distinct (map fst fm)" and "list_all (\<lambda>(k, v). plain_key k \<and> u_nl \<notin> set v) fm"
    and "list_all plain_line body"
  shows "parse_requirement (render_requirement fm body) 
    = Some \<lparr>pf_frontmatter = filter (\<lambda>(k, v). k \<noteq> units ''__proto__'') fm, pf_body = body\<rparr>"
proof -
  have "split_crlf (render_requirement fm body)
      = units ''---'' # map (\<lambda>(k, v). frontmatter_line k v) fm @ units ''---'' # body"
    unfolding render_requirement_def
    using assms(2,3) dashes(2) frontmatter_line_plain by (intro split_crlf_join) (auto simp: list_all_iff)
  moreover have "\<forall>k \<in> fst ` set fm. plain_key k" using assms(2) by (auto simp: list_all_iff)
  ultimately show ?thesis
    using parse_frontmatter [of "[]" fm body] assms(1)
    by (simp add: parse_requirement_def dashes proto_key_def [symmetric] del: parse_lines.simps)
qed

lemma requirement_file_roundtrip_witness:
  "parse_requirement (render_requirement
       [(units ''id'', units ''GC-A001''), (units ''__proto__'', units ''x''), (units ''title'', [0x22, 0x5C, 0x61])]
       [units ''## Statement''])
     = Some \<lparr>pf_frontmatter = [(units ''id'', units ''GC-A001''), (units ''title'', [0x22, 0x5C, 0x61])],
             pf_body = [units ''## Statement'']\<rparr>"
  by (subst requirement_file_roundtrip)
    (simp_all add: units_def plain_key_def plain_line_def u_alnum_def u_caps_def u_upper_def u_lower_def u_digit_def)

text \<open>
  C25. The strict identity reader answers with file content only for the regular file that the open
  descriptor really holds at the identifier's own path under the canonical repository root.
\<close>

theorem identity_contained:
  assumes "readRequirementIdentity h repo uid \<notin> {Absent, Unverifiable}"
  shows "exact_requirement_uid uid
    \<and> (\<exists>fh root text. ho_open h (requirementPath repo uid) = Some fh \<and> fh_is_file fh = Some True
         \<and> ho_realpath h repo = Some root
         \<and> fh_canonical fh = Some (root @ units ''/docs/requirements/'' @ uid @ units ''/requirement.md'')
         \<and> fh_text fh = Some text \<and> readRequirementIdentity h repo uid = identify uid text)"
  using assms unfolding readRequirementIdentity_def
  by (auto simp: path_join_def join_def units_def split: if_splits option.splits)

definition sample_file :: ustr where
  "sample_file = render_requirement [(units ''id'', units ''GC-A001''), (units ''title'', units ''T'')] []"

definition sample_host :: host where
  "sample_host =
     (let p = units ''/r/docs/requirements/GC-A001/requirement.md'';
          fh = \<lparr>fh_is_file = Some True, fh_canonical = Some p, fh_text = Some sample_file\<rparr>
      in \<lparr>ho_open = (\<lambda>q. if q = p then Some fh else None), ho_realpath = Some, ho_read = (\<lambda>q. None),
          ho_dir = (\<lambda>q. None), ho_show = (\<lambda>r q. None)\<rparr>)"

lemma identity_contained_witness:
  "\<exists>fh. ho_open sample_host (requirementPath (units ''/r'') (units ''GC-A001'')) = Some fh
     \<and> fh_canonical fh = Some (units ''/r/docs/requirements/GC-A001/requirement.md'')"
proof -
  have "readRequirementIdentity sample_host (units ''/r'') (units ''GC-A001'')
      = identify (units ''GC-A001'') sample_file"
    by code_simp
  moreover have "parse_requirement sample_file = Some \<lparr>pf_frontmatter = [(units ''id'', units ''GC-A001''), (units ''title'', units ''T'')], pf_body = []\<rparr>"
    by code_simp
  moreover have realpath: "ho_realpath sample_host q = Some q" for q by (simp add: sample_host_def Let_def)
  ultimately have "readRequirementIdentity sample_host (units ''/r'') (units ''GC-A001'') \<notin> {Absent, Unverifiable}"
    by (simp add: identify_def)
  from identity_contained [OF this] show ?thesis
    by (auto simp: units_def realpath)
qed

end
