(* ===== verification/ScopeWriter.thy ===== *)
theory ScopeWriter
  imports RequirementFiles IssueDependency Thread
begin

text \<open>
  The writer of an issue's requirement scope (\<open>lib/issue-requirements-writer.js\<close>): input checks, the
  resolution of every remaining identifier, the authorization a removal needs, the unsafe-body
  checks, the one write with its read-back, and the lease around the whole sequence.

  A response of the GitHub API is seen through what the code looks at. The calls an operation makes
  are returned with its answer, in order. White space (\<open>\s\<close>) in the texts of this theory that are bytes is the
  ASCII one.
\<close>

section \<open>Input\<close>

record scope_request =
  sr_repo_path :: js
  sr_issue :: js
  sr_operation :: js
  sr_uids :: js
  sr_repo :: js

definition validateScopeCall :: "scope_request \<Rightarrow> string option" where
  "validateScopeCall q =
     (case validateRequirementScopeInput (sr_operation q) (sr_uids q) of
        Some e \<Rightarrow> Some e
      | None \<Rightarrow>
          if \<not> (case sr_repo_path q of JStr p \<Rightarrow> starts_with ''/'' p | _ \<Rightarrow> False) then
            Some ''issue_requirements_repo_path_invalid''
          else if \<not> is_pos_int (sr_issue q) then Some ''issue_requirements_issue_number_invalid''
          else if \<not> nullish (sr_repo q) \<and> \<not> (case sr_repo q of JStr r \<Rightarrow> github_repo_ok r | _ \<Rightarrow> False) then
            Some ''issue_requirements_repo_assertion_invalid''
          else None)"

section \<open>Resolving the remaining identifiers\<close>

fun resolveScopeTitles :: "(ustr \<Rightarrow> identity) \<Rightarrow> ustr list \<Rightarrow> (ustr \<Rightarrow> ustr option) \<Rightarrow> string + (ustr \<Rightarrow> ustr option)" where
  "resolveScopeTitles ident [] titles = Inr titles"
| "resolveScopeTitles ident (u # us) titles =
     (case ident u of
        Unverifiable \<Rightarrow> Inl ''issue_requirements_identity_unverifiable''
      | Identified fid r \<Rightarrow>
          if fid \<noteq> Some u then Inl ''issue_requirements_uid_unresolved''
          else resolveScopeTitles ident us (titles(u \<mapsto> rq_title r))
      | _ \<Rightarrow> Inl ''issue_requirements_uid_unresolved'')"

section \<open>Authorizing a removal\<close>

text \<open>\<open>t.split(/\s+/)\<close> of a trimmed text.\<close>

function split_ws :: "string \<Rightarrow> string list" where
  "split_ws t =
     takeWhile (\<lambda>c. \<not> is_ws c) t
       # (case dropWhile (\<lambda>c. \<not> is_ws c) t of [] \<Rightarrow> [] | _ # r \<Rightarrow> split_ws (ws0 r))"
  by pat_completeness auto
termination
proof (relation "measure length", simp, simp)
  fix s :: string and x21 x22
  assume "dropWhile (\<lambda>c. \<not> is_ws c) s = x21 # x22"
  then have "length (x21 # x22) \<le> length s" by (metis length_dropWhile_le)
  then show "length (ws0 x22) < length s" using ws0_length [of x22] by simp
qed

declare split_ws.simps [simp del]

definition isExactScopeRemovalAuthorization :: "string \<Rightarrow> nat \<Rightarrow> ustr list \<Rightarrow> bool" where
  "isExactScopeRemovalAuthorization body issue uids =
     (let parts = split_ws (trim body); named = drop 3 parts
      in length parts = 3 + length uids
         \<and> parts ! 0 = ''/ground-control'' \<and> parts ! 1 = ''authorize-scope-removal''
         \<and> parts ! 2 = show_nat issue
         \<and> distinct named \<and> list_all (\<lambda>n. units n \<in> set uids) named)"

text \<open>\<open>None\<close> for the comments where the read fails; \<open>trust_ok\<close> is false where the permission lookup throws.\<close>

definition requireTrustedRemovalAuthorization ::
    "comment list option \<Rightarrow> (string \<Rightarrow> string option) \<Rightarrow> bool \<Rightarrow> nat \<Rightarrow> ustr list \<Rightarrow> string option" where
  "requireTrustedRemovalAuthorization comments perm trust_ok issue uids =
     (case comments of
        None \<Rightarrow> Some ''issue_requirements_removal_authorization_unverifiable''
      | Some cs \<Rightarrow>
          (let candidates = filter (\<lambda>c. isExactScopeRemovalAuthorization (c_body c) issue uids) cs
           in if candidates = [] then Some ''issue_requirements_removal_unauthorized''
              else if \<not> trust_ok then Some ''issue_requirements_removal_authorization_unverifiable''
              else if list_ex (isTrusted (resolveExecutionObligationTrust perm candidates)) candidates then None
              else Some ''issue_requirements_removal_unauthorized''))"

section \<open>Unsafe bodies\<close>

text \<open>\<open>RESERVED_MARKER_PREFIX_RE\<close> at the front of a text.\<close>

definition reserved_marker_here :: "ustr \<Rightarrow> bool" where
  "reserved_marker_here t \<longleftrightarrow>
     starts_with (units ''<!--'') t
     \<and> starts_with (units ''gc:'') (map u_lower_case (dropWhile ws_unit (drop 4 t)))"

fun reserved_marker :: "ustr \<Rightarrow> bool" where
  "reserved_marker [] = False"
| "reserved_marker (u # r) = (reserved_marker_here (u # r) \<or> reserved_marker r)"

text \<open>\<open>Buffer.byteLength(t, "utf8")\<close>: a surrogate pair takes four bytes, a lone surrogate three.\<close>

fun utf8_length :: "ustr \<Rightarrow> nat" where
  "utf8_length [] = 0"
| "utf8_length (u # r) =
     (if u < 0x80 then 1 + utf8_length r
      else if u < 0x800 then 2 + utf8_length r
      else if 0xD800 \<le> u \<and> u \<le> 0xDBFF then
        (case r of
           v # q \<Rightarrow> if 0xDC00 \<le> v \<and> v \<le> 0xDFFF then 4 + utf8_length q else 3 + utf8_length r
         | [] \<Rightarrow> 3)
      else 3 + utf8_length r)"

definition github_issue_comment_body_max :: nat where
  "github_issue_comment_body_max = 65535"

definition rejectUnsafeBody :: "(ustr \<Rightarrow> bool) \<Rightarrow> ustr \<Rightarrow> string option" where
  "rejectUnsafeBody sensitive body =
     (if reserved_marker body then Some ''issue_requirements_reserved_marker''
      else if sensitive body then Some ''issue_requirements_body_rejected''
      else if utf8_length body > github_issue_comment_body_max then Some ''issue_requirements_body_too_large''
      else None)"

section \<open>The issue\<close>

datatype payload_body = BodyText ustr | BodyNull | BodyOther

text \<open>A parsed response: whether it is an object, carries a \<open>pull_request\<close>, its number and body.\<close>

record issue_payload =
  ip_object :: bool
  ip_pull_request :: bool
  ip_number :: "nat option"
  ip_body :: payload_body

definition describesRequestedIssue :: "issue_payload \<Rightarrow> nat \<Rightarrow> bool" where
  "describesRequestedIssue p issue \<longleftrightarrow>
     ip_object p \<and> \<not> ip_pull_request p \<and> ip_number p = Some issue \<and> ip_body p \<noteq> BodyOther"

definition payload_text :: "issue_payload \<Rightarrow> ustr" where
  "payload_text p = (case ip_body p of BodyText t \<Rightarrow> t | _ \<Rightarrow> [])"

definition readTargetIssue :: "issue_payload option \<Rightarrow> nat \<Rightarrow> string + ustr" where
  "readTargetIssue payload issue =
     (case payload of
        None \<Rightarrow> Inl ''issue_requirements_issue_unreadable''
      | Some p \<Rightarrow>
          if ip_pull_request p then Inl ''issue_requirements_target_not_an_issue''
          else if \<not> describesRequestedIssue p issue then Inl ''issue_requirements_issue_mismatch''
          else Inr (payload_text p))"

datatype scope_call = GetIssue | PatchBody ustr | InvalidateCache | TakeLease | ReleaseLease

text \<open>The write, the cache entry it invalidates on every path, and the check of what GitHub stored.\<close>

definition writeAndVerify ::
    "(ustr \<Rightarrow> issue_payload option) \<Rightarrow> nat \<Rightarrow> ustr \<Rightarrow> ustr list \<Rightarrow> string option \<times> scope_call list" where
  "writeAndVerify patch issue body intended =
     ((case patch body of
         None \<Rightarrow> Some ''issue_requirements_write_failed''
       | Some p \<Rightarrow>
           if \<not> describesRequestedIssue p issue \<or> (case ip_body p of BodyText _ \<Rightarrow> False | _ \<Rightarrow> True)
           then Some ''issue_requirements_write_unverified''
           else if extractInScopeRequirementUids (payload_text p) \<noteq> intended
           then Some ''issue_requirements_write_unverified''
           else None),
      [PatchBody body, InvalidateCache])"

section \<open>The critical section\<close>

record scope_env =
  sv_read :: "issue_payload option"
  sv_patch :: "ustr \<Rightarrow> issue_payload option"
  sv_comments :: "comment list option"
  sv_perm :: "string \<Rightarrow> string option"
  sv_trust_ok :: bool
  sv_identity :: "ustr \<Rightarrow> identity"
  sv_sensitive :: "ustr \<Rightarrow> bool"

datatype scope_answer = ScopeRefused string | ScopeOk bool "ustr list"

text \<open>Everything up to the write: an answer already, or the update to write.\<close>

definition prepareScopeUpdate :: "scope_env \<Rightarrow> nat \<Rightarrow> js \<Rightarrow> js \<Rightarrow> scope_answer + scope_update" where
  "prepareScopeUpdate env issue operation uids =
     (case readTargetIssue (sv_read env) issue of
        Inl e \<Rightarrow> Inl (ScopeRefused e)
      | Inr body \<Rightarrow>
          (case resolveIntendedScope body operation uids of
             Inl e \<Rightarrow> Inl (ScopeRefused e)
           | Inr scope \<Rightarrow>
               (case (if operation = JStr ''remove''
                      then requireTrustedRemovalAuthorization (sv_comments env) (sv_perm env) (sv_trust_ok env)
                             issue (uid_units uids)
                      else None) of
                  Some e \<Rightarrow> Inl (ScopeRefused e)
                | None \<Rightarrow>
                    (case resolveScopeTitles (sv_identity env) (is_intended scope) Map.empty of
                       Inl e \<Rightarrow> Inl (ScopeRefused e)
                     | Inr titles \<Rightarrow>
                         if \<not> is_changed scope then Inl (ScopeOk False (is_current scope))
                         else (case applyRequirementScopeOperation body operation uids titles of
                             Inl e \<Rightarrow> Inl (ScopeRefused e)
                           | Inr up \<Rightarrow>
                               (case rejectUnsafeBody (sv_sensitive env) (su_body up) of
                                  Some e \<Rightarrow> Inl (ScopeRefused e)
                                | None \<Rightarrow> Inr up))))))"

definition performScopeUpdate :: "scope_env \<Rightarrow> nat \<Rightarrow> js \<Rightarrow> js \<Rightarrow> scope_answer \<times> scope_call list" where
  "performScopeUpdate env issue operation uids =
     (case prepareScopeUpdate env issue operation uids of
        Inl (ScopeOk c us) \<Rightarrow> (ScopeOk c us, [GetIssue, InvalidateCache])
      | Inl a \<Rightarrow> (a, [GetIssue])
      | Inr up \<Rightarrow>
          (let (failed, calls) = writeAndVerify (sv_patch env) issue (su_body up) (su_uids up)
           in (case failed of Some e \<Rightarrow> ScopeRefused e | None \<Rightarrow> ScopeOk True (su_uids up), GetIssue # calls)))"

datatype lease = LeaseTaken | LeaseContended | LeaseUnavailable

definition runUnderIssueScopeLease ::
    "lease \<Rightarrow> scope_answer \<times> scope_call list \<Rightarrow> scope_answer \<times> scope_call list" where
  "runUnderIssueScopeLease l critical =
     (case l of
        LeaseContended \<Rightarrow> (ScopeRefused ''issue_requirements_scope_lock_contended'', [])
      | LeaseUnavailable \<Rightarrow> (ScopeRefused ''issue_requirements_scope_lock_unavailable'', [])
      | LeaseTaken \<Rightarrow> (fst critical, TakeLease # snd critical @ [ReleaseLease]))"

text \<open>The workspace authorization answers an error or the authorized \<open>owner/name\<close>.\<close>

record scope_host =
  sh_git_repo :: bool
  sh_authorization :: "string + string"
  sh_lease :: lease

definition runUpdateIssueRequirements ::
    "scope_host \<Rightarrow> scope_env \<Rightarrow> scope_request \<Rightarrow> scope_answer \<times> scope_call list" where
  "runUpdateIssueRequirements hst env q =
     (case validateScopeCall q of
        Some e \<Rightarrow> (ScopeRefused e, [])
      | None \<Rightarrow>
          if \<not> sh_git_repo hst then (ScopeRefused ''issue_requirements_repo_path_invalid'', [])
          else (case sh_authorization hst of
             Inl e \<Rightarrow> (ScopeRefused e, [])
           | Inr slug \<Rightarrow>
               if (case sr_repo q of JStr r \<Rightarrow> lower r \<noteq> lower slug | _ \<Rightarrow> False)
               then (ScopeRefused ''issue_requirements_repo_mismatch'', [])
               else runUnderIssueScopeLease (sh_lease hst)
                      (performScopeUpdate env (nat (the (as_int (sr_issue q)))) (sr_operation q) (sr_uids q))))"

section \<open>What a write rests on\<close>

lemma exact_removal_named:
  assumes "isExactScopeRemovalAuthorization b issue us" and "distinct us"
  shows "\<exists>named. split_ws (trim b) = [''/ground-control'', ''authorize-scope-removal'', show_nat issue] @ named
           \<and> units ` set named = set us"
proof -
  let ?p = "split_ws (trim b)"
  have a: "length ?p = 3 + length us" "?p ! 0 = ''/ground-control''" "?p ! 1 = ''authorize-scope-removal''"
    "?p ! 2 = show_nat issue" "distinct (drop 3 ?p)" "\<forall>n \<in> set (drop 3 ?p). units n \<in> set us"
    using assms(1) by (auto simp: isExactScopeRemovalAuthorization_def Let_def list_all_iff)
  obtain x y z named where p: "?p = x # y # z # named"
    using a(1) by (cases ?p; cases "tl ?p"; cases "tl (tl ?p)") auto
  then have n: "length named = length us" "distinct named" "units ` set named \<subseteq> set us"
    using a by auto
  have "inj units" using units_inj by (auto simp: inj_def)
  then have "card (units ` set named) = card (set us)"
    using n(1,2) assms(2) by (metis card_image distinct_card inj_on_subset subset_UNIV)
  with n(3) have "units ` set named = set us" by (simp add: card_subset_eq)
  with p a show ?thesis by (intro exI [of _ named]) simp
qed

lemma removal_authorized:
  assumes "requireTrustedRemovalAuthorization comments perm ok issue us = None" and "distinct us"
  shows "\<exists>cs c named. comments = Some cs \<and> c \<in> set cs \<and> write_author perm c
           \<and> split_ws (trim (c_body c)) = [''/ground-control'', ''authorize-scope-removal'', show_nat issue] @ named
           \<and> units ` set named = set us"
proof -
  obtain cs where cs: "comments = Some cs"
    using assms(1) by (cases comments) (auto simp: requireTrustedRemovalAuthorization_def)
  let ?cand = "filter (\<lambda>c. isExactScopeRemovalAuthorization (c_body c) issue us) cs"
  have "list_ex (isTrusted (resolveExecutionObligationTrust perm ?cand)) ?cand"
    using assms(1) cs by (auto simp: requireTrustedRemovalAuthorization_def Let_def split: if_splits)
  then obtain c where c: "c \<in> set ?cand" "isTrusted (resolveExecutionObligationTrust perm ?cand) c"
    by (auto simp: list_ex_iff)
  then have "write_author perm c" by (blast intro: trusted_write)
  moreover have "c \<in> set cs" "isExactScopeRemovalAuthorization (c_body c) issue us" using c(1) by auto
  ultimately show ?thesis using cs exact_removal_named [OF _ assms(2)] by blast
qed

lemma titles_identified:
  "resolveScopeTitles ident us t0 = Inr t \<Longrightarrow> u \<in> set us \<Longrightarrow> \<exists>r. ident u = Identified (Some u) r"
  by (induction us arbitrary: t0) (auto split: identity.splits if_splits)

lemma prepare_write:
  assumes "prepareScopeUpdate env issue operation uids = Inr up"
  obtains body titles where "readTargetIssue (sv_read env) issue = Inr body"
    "applyRequirementScopeOperation body operation uids titles = Inr up" "su_changed up"
    "operation = JStr ''remove'' \<Longrightarrow> requireTrustedRemovalAuthorization (sv_comments env) (sv_perm env)
       (sv_trust_ok env) issue (uid_units uids) = None"
    "resolveScopeTitles (sv_identity env) (su_uids up) Map.empty = Inr titles"
    "rejectUnsafeBody (sv_sensitive env) (su_body up) = None"
proof -
  obtain body where b: "readTargetIssue (sv_read env) issue = Inr body"
    using assms by (cases "readTargetIssue (sv_read env) issue") (auto simp: prepareScopeUpdate_def)
  obtain scope where s: "resolveIntendedScope body operation uids = Inr scope"
    using assms b by (cases "resolveIntendedScope body operation uids") (auto simp: prepareScopeUpdate_def)
  have auth: "(if operation = JStr ''remove''
       then requireTrustedRemovalAuthorization (sv_comments env) (sv_perm env) (sv_trust_ok env) issue (uid_units uids)
       else None) = None"
    using assms b s by (auto simp: prepareScopeUpdate_def split: option.splits)
  obtain titles where t: "resolveScopeTitles (sv_identity env) (is_intended scope) Map.empty = Inr titles"
    using assms b s auth by (auto simp: prepareScopeUpdate_def split: sum.splits)
  have "applyRequirementScopeOperation body operation uids titles = Inr up \<and> is_changed scope
      \<and> rejectUnsafeBody (sv_sensitive env) (su_body up) = None"
    using assms b s auth t by (auto simp: prepareScopeUpdate_def split: sum.splits option.splits if_splits)
  moreover from this have "su_uids up = is_intended scope" "su_changed up"
    using s by (auto simp: applyRequirementScopeOperation_def Let_def split: if_splits)
  ultimately show thesis using that b auth t by (simp split: if_splits)
qed

lemma perform_patch:
  assumes "PatchBody b \<in> set (snd (performScopeUpdate env issue operation uids))"
  obtains up where "prepareScopeUpdate env issue operation uids = Inr up" "b = su_body up"
    "snd (performScopeUpdate env issue operation uids) = [GetIssue, PatchBody b, InvalidateCache]"
proof (cases "prepareScopeUpdate env issue operation uids")
  case (Inl a)
  with assms show ?thesis by (cases a) (auto simp: performScopeUpdate_def)
next
  case (Inr up)
  with assms that show ?thesis by (auto simp: performScopeUpdate_def writeAndVerify_def)
qed

lemma run_patch:
  assumes "PatchBody b \<in> set (snd (runUpdateIssueRequirements hst env q))"
  shows "PatchBody b \<in> set (snd (performScopeUpdate env (nat (the (as_int (sr_issue q)))) (sr_operation q) (sr_uids q)))
     \<and> validateScopeCall q = None
     \<and> snd (runUpdateIssueRequirements hst env q)
         = TakeLease # snd (performScopeUpdate env (nat (the (as_int (sr_issue q)))) (sr_operation q) (sr_uids q)) @ [ReleaseLease]"
  using assms unfolding runUpdateIssueRequirements_def runUnderIssueScopeLease_def
  by (auto split: option.splits if_splits sum.splits lease.splits)

lemma validate_scope_call:
  "validateScopeCall q = None \<Longrightarrow> validateRequirementScopeInput (sr_operation q) (sr_uids q) = None"
  by (auto simp: validateScopeCall_def split: option.splits)

text \<open>
  C26. A write that takes an identifier out of an issue's scope is a removal that names it, and a repository
  writer has commented on that issue the authorization for exactly the set of identifiers named.
\<close>

theorem narrowing_needs_authorization:
  assumes "PatchBody b \<in> set (snd (runUpdateIssueRequirements hst env q))"
    and "readTargetIssue (sv_read env) (nat (the (as_int (sr_issue q)))) = Inr before"
    and "u \<in> set (extractInScopeRequirementUids before) - set (extractInScopeRequirementUids b)"
  shows "sr_operation q = JStr ''remove'' \<and> u \<in> set (uid_units (sr_uids q))
    \<and> (\<exists>cs c named. sv_comments env = Some cs \<and> c \<in> set cs \<and> write_author (sv_perm env) c
         \<and> split_ws (trim (c_body c)) = [''/ground-control'', ''authorize-scope-removal'',
                                          show_nat (nat (the (as_int (sr_issue q))))] @ named
         \<and> units ` set named = set (uid_units (sr_uids q)))"
proof -
  note r = run_patch [OF assms(1)]
  note v = validate_scope_call [OF conjunct1 [OF conjunct2 [OF r]]]
  obtain up where up: "prepareScopeUpdate env (nat (the (as_int (sr_issue q)))) (sr_operation q) (sr_uids q) = Inr up"
    "b = su_body up" using r perform_patch by blast
  obtain titles where p: "applyRequirementScopeOperation before (sr_operation q) (sr_uids q) titles = Inr up"
    "sr_operation q = JStr ''remove'' \<Longrightarrow> requireTrustedRemovalAuthorization (sv_comments env) (sv_perm env)
       (sv_trust_ok env) (nat (the (as_int (sr_issue q)))) (uid_units (sr_uids q)) = None"
    using prepare_write [OF up(1)] assms(2) by (metis sum.inject(2))
  note a = apply_ok [OF p(1)]
  have "u \<notin> set (intended_uids before (sr_operation q) (sr_uids q))" "u \<in> set (extractInScopeRequirementUids before)"
    using a assms(3) up(2) by auto
  then have op: "sr_operation q \<noteq> JStr ''add''" "u \<in> set (uid_units (sr_uids q))"
    by (auto simp: intended_uids_def Let_def split: if_splits)
  then have rm: "sr_operation q = JStr ''remove''"
    using v by (auto simp: validateRequirementScopeInput_def split: if_splits)
  from removal_authorized [OF p(2) [OF rm] uid_units_distinct [OF v]] rm op(2) show ?thesis by blast
qed

text \<open>
  C27. A run writes at most once and only inside the lease, the cache entry goes with the write, and what it
  publishes is free of reserved markers and sensitive content, within the size cap, and names only requirements
  whose file carries the same identifier.
\<close>

theorem scope_write_clean:
  assumes "PatchBody b \<in> set (snd (runUpdateIssueRequirements hst env q))"
  shows "snd (runUpdateIssueRequirements hst env q) = [TakeLease, GetIssue, PatchBody b, InvalidateCache, ReleaseLease]
    \<and> \<not> reserved_marker b \<and> \<not> sv_sensitive env b \<and> utf8_length b \<le> 65535
    \<and> list_all (\<lambda>u. \<exists>r. sv_identity env u = Identified (Some u) r) (extractInScopeRequirementUids b)"
proof -
  note r = run_patch [OF assms]
  obtain up where up: "prepareScopeUpdate env (nat (the (as_int (sr_issue q)))) (sr_operation q) (sr_uids q) = Inr up"
    "b = su_body up"
    "snd (performScopeUpdate env (nat (the (as_int (sr_issue q)))) (sr_operation q) (sr_uids q))
       = [GetIssue, PatchBody b, InvalidateCache]"
    using r perform_patch by blast
  show ?thesis
  proof (rule prepare_write [OF up(1)])
    fix body titles
    assume a: "applyRequirementScopeOperation body (sr_operation q) (sr_uids q) titles = Inr up"
      and t: "resolveScopeTitles (sv_identity env) (su_uids up) Map.empty = Inr titles"
      and u: "rejectUnsafeBody (sv_sensitive env) (su_body up) = None"
    have "extractInScopeRequirementUids b = su_uids up" using apply_ok [OF a] up(2) by simp
    moreover have "\<not> reserved_marker b \<and> \<not> sv_sensitive env b \<and> utf8_length b \<le> 65535"
      using u up(2) by (auto simp: rejectUnsafeBody_def github_issue_comment_body_max_def split: if_splits)
    ultimately show ?thesis using r up(3) titles_identified [OF t] by (auto simp: list_all_iff)
  qed
qed

section \<open>Concurrent writers\<close>

text \<open>
  Several processes update the same issue from one worktree, in whose Git directory the lease lies. The stored body, the holder of the lease and the point each
  process has reached are the state; the steps of a process are those of
  \<open>runUnderIssueScopeLease\<close> around \<open>performScopeUpdate\<close>, with the read and the write of GitHub as separate
  steps. A write may be stored and answered, stored with the answer lost, or lost.
\<close>

datatype writer_pc = Waiting | Holding | Prepared scope_update | Finishing scope_answer | Finished scope_answer

record scope_world =
  w_body :: ustr
  w_lease :: "nat option"
  w_pc :: "nat \<Rightarrow> writer_pc"

record writer_call =
  wc_operation :: js
  wc_uids :: js

definition lease_of :: "scope_world \<Rightarrow> lease" where
  "lease_of w = (if w_lease w = None then LeaseTaken else LeaseContended)"

definition served :: "scope_env \<Rightarrow> nat \<Rightarrow> ustr \<Rightarrow> scope_env" where
  "served env issue body =
     env\<lparr>sv_read := Some \<lparr>ip_object = True, ip_pull_request = False, ip_number = Some issue, ip_body = BodyText body\<rparr>\<rparr>"

definition move :: "nat \<Rightarrow> writer_pc \<Rightarrow> scope_world \<Rightarrow> scope_world" where
  "move p c w = w\<lparr>w_pc := (w_pc w)(p := c)\<rparr>"

inductive writer_step :: "(nat \<Rightarrow> scope_env) \<Rightarrow> nat \<Rightarrow> (nat \<Rightarrow> writer_call) \<Rightarrow> scope_world \<Rightarrow> scope_world \<Rightarrow> bool"
  for env issue req where
  take_lease: "w_pc w p = Waiting \<Longrightarrow> lease_of w = LeaseTaken
    \<Longrightarrow> writer_step env issue req w (move p Holding w\<lparr>w_lease := Some p\<rparr>)"
| no_lease: "w_pc w p = Waiting \<Longrightarrow> lease_of w \<noteq> LeaseTaken
    \<Longrightarrow> writer_step env issue req w (move p (Finished (ScopeRefused ''issue_requirements_scope_lock_contended'')) w)"
| answered: "w_pc w p = Holding
    \<Longrightarrow> prepareScopeUpdate (served (env p) issue (w_body w)) issue (wc_operation (req p)) (wc_uids (req p)) = Inl a
    \<Longrightarrow> writer_step env issue req w (move p (Finishing a) w)"
| prepared: "w_pc w p = Holding
    \<Longrightarrow> prepareScopeUpdate (served (env p) issue (w_body w)) issue (wc_operation (req p)) (wc_uids (req p)) = Inr up
    \<Longrightarrow> writer_step env issue req w (move p (Prepared up) w)"
| stored: "w_pc w p = Prepared up
    \<Longrightarrow> writer_step env issue req w (move p (Finishing (ScopeOk True (su_uids up))) w\<lparr>w_body := su_body up\<rparr>)"
| answer_lost: "w_pc w p = Prepared up
    \<Longrightarrow> writer_step env issue req w (move p (Finishing (ScopeRefused e)) w\<lparr>w_body := su_body up\<rparr>)"
| write_lost: "w_pc w p = Prepared up
    \<Longrightarrow> writer_step env issue req w (move p (Finishing (ScopeRefused e)) w)"
| release: "w_pc w p = Finishing a
    \<Longrightarrow> writer_step env issue req w (move p (Finished a) w\<lparr>w_lease := None\<rparr>)"

inductive_cases writer_stepE: "writer_step env issue req w w'"

inductive writers_reach :: "(nat \<Rightarrow> scope_env) \<Rightarrow> nat \<Rightarrow> (nat \<Rightarrow> writer_call) \<Rightarrow> ustr \<Rightarrow> scope_world \<Rightarrow> bool"
  for env issue req body where
  start: "writers_reach env issue req body \<lparr>w_body = body, w_lease = None, w_pc = (\<lambda>p. Waiting)\<rparr>"
| step: "writers_reach env issue req body w \<Longrightarrow> writer_step env issue req w w'
    \<Longrightarrow> writers_reach env issue req body w'"

text \<open>Who is past the lease holds it, and what a process is about to write was computed from the stored body.\<close>

fun in_section :: "writer_pc \<Rightarrow> bool" where
  "in_section Waiting = False"
| "in_section (Finished a) = False"
| "in_section c = True"

definition lease_inv :: "(nat \<Rightarrow> writer_call) \<Rightarrow> scope_world \<Rightarrow> bool" where
  "lease_inv req w \<longleftrightarrow>
     (\<forall>p. in_section (w_pc w p) \<longrightarrow> w_lease w = Some p)
     \<and> (\<forall>p up. w_pc w p = Prepared up \<longrightarrow>
          (\<exists>titles. applyRequirementScopeOperation (w_body w) (wc_operation (req p)) (wc_uids (req p)) titles = Inr up))"

definition keeps :: "(nat \<Rightarrow> writer_call) \<Rightarrow> ustr \<Rightarrow> bool" where
  "keeps req u \<longleftrightarrow> (\<forall>p. wc_operation (req p) = JStr ''remove'' \<longrightarrow> u \<notin> set (uid_units (wc_uids (req p))))"

lemma apply_keeps:
  assumes "applyRequirementScopeOperation body operation uids titles = Inr up"
    and "operation = JStr ''remove'' \<Longrightarrow> u \<notin> set (uid_units uids)"
    and "u \<in> set (extractInScopeRequirementUids body) \<or> operation = JStr ''add'' \<and> u \<in> set (uid_units uids)"
  shows "u \<in> set (extractInScopeRequirementUids (su_body up))"
proof -
  note a = apply_ok [OF assms(1)]
  have "operation = JStr ''add'' \<or> operation = JStr ''remove''"
    using a by (auto simp: validateRequirementScopeInput_def split: if_splits)
  with a assms(2,3) show ?thesis by (auto simp: intended_uids_def Let_def)
qed

lemma served_read [simp]: "readTargetIssue (sv_read (served env issue body)) issue = Inr body"
  by (simp add: served_def readTargetIssue_def describesRequestedIssue_def payload_text_def)

lemma prepare_served:
  assumes "prepareScopeUpdate (served env issue body) issue operation uids = Inr up"
  shows "\<exists>titles. applyRequirementScopeOperation body operation uids titles = Inr up"
  by (rule prepare_write [OF assms]) auto

lemma prepare_unchanged:
  assumes "prepareScopeUpdate (served env issue body) issue operation uids = Inl (ScopeOk c us)"
    and "operation = JStr ''add''" and "u \<in> set (uid_units uids)"
  shows "u \<in> set (extractInScopeRequirementUids body)"
proof -
  obtain scope where s: "resolveIntendedScope body operation uids = Inr scope"
    using assms by (cases "resolveIntendedScope body operation uids") (auto simp: prepareScopeUpdate_def)
  have auth: "(if operation = JStr ''remove''
       then requireTrustedRemovalAuthorization (sv_comments (served env issue body)) (sv_perm (served env issue body))
              (sv_trust_ok (served env issue body)) issue (uid_units uids)
       else None) = None"
    using assms(2) by simp
  obtain titles where t: "resolveScopeTitles (sv_identity (served env issue body)) (is_intended scope) Map.empty = Inr titles"
    using assms(1) s auth
    by (cases "resolveScopeTitles (sv_identity (served env issue body)) (is_intended scope) Map.empty")
      (simp_all add: prepareScopeUpdate_def)
  have "\<not> is_changed scope"
    using assms(1) s auth t by (auto simp: prepareScopeUpdate_def split: option.splits sum.splits if_splits)
  then have "extractInScopeRequirementUids body = intended_uids body operation uids"
    using scope_resolve_ok [THEN iffD1, OF s] by simp
  moreover have "u \<in> set (intended_uids body operation uids)" using assms(2,3) by (auto simp: intended_uids_def Let_def)
  ultimately show ?thesis by simp
qed

lemma move_simps [simp]:
  "w_pc (move p c w) = (w_pc w)(p := c)" "w_body (move p c w) = w_body w" "w_lease (move p c w) = w_lease w"
  by (simp_all add: move_def)

lemma lease_excludes:
  "lease_inv req w \<Longrightarrow> in_section (w_pc w p) \<Longrightarrow> in_section (w_pc w q) \<Longrightarrow> q = p"
  unfolding lease_inv_def by (metis option.inject)

lemma lease_inv_enter:
  "lease_inv req w \<Longrightarrow> lease_of w = LeaseTaken \<Longrightarrow> lease_inv req (move p Holding w\<lparr>w_lease := Some p\<rparr>)"
  unfolding lease_inv_def lease_of_def by (auto split: if_splits)

lemma lease_inv_move:
  assumes "lease_inv req w" and "in_section (w_pc w p)"
    and "in_section c \<Longrightarrow> l = Some p"
    and "\<And>up. c = Prepared up \<Longrightarrow>
      \<exists>titles. applyRequirementScopeOperation b (wc_operation (req p)) (wc_uids (req p)) titles = Inr up"
  shows "lease_inv req (move p c w\<lparr>w_lease := l, w_body := b\<rparr>)"
  using assms(3,4) lease_excludes [OF assms(1,2)] unfolding lease_inv_def
  by (auto split: if_splits)

lemma lease_inv_step:
  assumes "writer_step env issue req w w'" and i: "lease_inv req w"
  shows "lease_inv req w'"
  using assms(1)
proof (cases rule: writer_step.cases)
  case (take_lease p)
  then show ?thesis using lease_inv_enter [OF i] by simp
next
  case (no_lease p)
  then show ?thesis using i by (auto simp: lease_inv_def)
next
  case (answered p a)
  then show ?thesis
    using lease_inv_move [OF i, of p "Finishing a" "w_lease w" "w_body w"] i by (auto simp: lease_inv_def)
next
  case (prepared p up)
  then show ?thesis
    using lease_inv_move [OF i, of p "Prepared up" "w_lease w" "w_body w"] prepare_served [OF prepared(3)] i
    by (auto simp: lease_inv_def)
next
  case (stored p up)
  then show ?thesis
    using lease_inv_move [OF i, of p "Finishing (ScopeOk True (su_uids up))" "w_lease w" "su_body up"] i
    by (auto simp: lease_inv_def)
next
  case (answer_lost p up e)
  then show ?thesis
    using lease_inv_move [OF i, of p "Finishing (ScopeRefused e)" "w_lease w" "su_body up"] i by (auto simp: lease_inv_def)
next
  case (write_lost p up e)
  then show ?thesis
    using lease_inv_move [OF i, of p "Finishing (ScopeRefused e)" "w_lease w" "w_body w"] i by (auto simp: lease_inv_def)
next
  case (release p a)
  then show ?thesis using lease_inv_move [OF i, of p "Finished a" None "w_body w"] by (simp add: lease_inv_def)
qed

fun succeeded :: "writer_pc \<Rightarrow> bool" where
  "succeeded (Finishing (ScopeOk c us)) = True"
| "succeeded (Finished (ScopeOk c us)) = True"
| "succeeded c = False"

definition adds :: "writer_call \<Rightarrow> ustr \<Rightarrow> bool" where
  "adds c u \<longleftrightarrow> wc_operation c = JStr ''add'' \<and> u \<in> set (uid_units (wc_uids c))"

definition confirmed :: "(nat \<Rightarrow> writer_call) \<Rightarrow> ustr \<Rightarrow> scope_world \<Rightarrow> bool" where
  "confirmed req u w \<longleftrightarrow> (\<exists>p. succeeded (w_pc w p) \<and> adds (req p) u)"

lemma confirmed_move:
  "confirmed req u (move p c w\<lparr>w_lease := l, w_body := b\<rparr>) \<Longrightarrow> confirmed req u w \<or> succeeded c \<and> adds (req p) u"
  unfolding confirmed_def by (auto split: if_splits)

lemma kept_step:
  assumes st: "writer_step env issue req w w'" and i: "lease_inv req w" and k: "keeps req u"
    and old: "u \<in> set (extractInScopeRequirementUids body) \<or> confirmed req u w
      \<Longrightarrow> u \<in> set (extractInScopeRequirementUids (w_body w))"
    and new: "u \<in> set (extractInScopeRequirementUids body) \<or> confirmed req u w'"
  shows "u \<in> set (extractInScopeRequirementUids (w_body w'))"
proof -
  have kp: "wc_operation (req p) = JStr ''remove'' \<Longrightarrow> u \<notin> set (uid_units (wc_uids (req p)))" for p
    using k by (simp add: keeps_def)
  have wr: "w_pc w p = Prepared up \<Longrightarrow> u \<in> set (extractInScopeRequirementUids (w_body w))
      \<or> adds (req p) u
      \<Longrightarrow> u \<in> set (extractInScopeRequirementUids (su_body up))" for p up
  proof -
    assume "w_pc w p = Prepared up"
    then obtain titles where t: "applyRequirementScopeOperation (w_body w) (wc_operation (req p)) (wc_uids (req p)) titles = Inr up"
      using i unfolding lease_inv_def by blast
    assume "u \<in> set (extractInScopeRequirementUids (w_body w)) \<or> adds (req p) u"
    with apply_keeps [OF t kp] show ?thesis unfolding adds_def by blast
  qed
  show ?thesis using st
  proof (cases rule: writer_step.cases)
    case (take_lease p)
    have "w' = move p Holding w\<lparr>w_lease := Some p, w_body := w_body w\<rparr>" using take_lease by simp
    with new old confirmed_move [where req = req and u = u and p = p and c = Holding and b = "w_body w" and l = "Some p" and w = w] show ?thesis by auto
  next
    case (no_lease p)
    have "w' = move p (Finished (ScopeRefused ''issue_requirements_scope_lock_contended'')) w\<lparr>w_lease := w_lease w, w_body := w_body w\<rparr>"
      using no_lease by simp
    with new old confirmed_move [where req = req and u = u and p = p and b = "w_body w" and l = "w_lease w" and w = w] show ?thesis by fastforce
  next
    case (answered p a)
    have w': "w' = move p (Finishing a) w\<lparr>w_lease := w_lease w, w_body := w_body w\<rparr>" using answered by simp
    have "succeeded (Finishing a) \<Longrightarrow> adds (req p) u \<Longrightarrow> u \<in> set (extractInScopeRequirementUids (w_body w))"
      using prepare_unchanged answered(3) unfolding adds_def by (cases a) auto
    then show ?thesis using new old confirmed_move [where req = req and u = u and p = p and c = "Finishing a" and b = "w_body w" and l = "w_lease w" and w = w] w' by auto
  next
    case (prepared p up)
    have "w' = move p (Prepared up) w\<lparr>w_lease := w_lease w, w_body := w_body w\<rparr>" using prepared by simp
    with new old confirmed_move [where req = req and u = u and p = p and c = "Prepared up" and b = "w_body w" and l = "w_lease w" and w = w] show ?thesis by auto
  next
    case (stored p up)
    have w': "w' = move p (Finishing (ScopeOk True (su_uids up))) w\<lparr>w_lease := w_lease w, w_body := su_body up\<rparr>"
      using stored by simp
    show ?thesis
      using new old wr [OF stored(2)] confirmed_move [where req = req and u = u and p = p and b = "su_body up" and l = "w_lease w" and w = w] unfolding w' by auto
  next
    case (answer_lost p up e)
    have w': "w' = move p (Finishing (ScopeRefused e)) w\<lparr>w_lease := w_lease w, w_body := su_body up\<rparr>"
      using answer_lost by simp
    show ?thesis
      using new old wr [OF answer_lost(2)] confirmed_move [where req = req and u = u and p = p and b = "su_body up" and l = "w_lease w" and w = w] unfolding w' by auto
  next
    case (write_lost p up e)
    have "w' = move p (Finishing (ScopeRefused e)) w\<lparr>w_lease := w_lease w, w_body := w_body w\<rparr>" using write_lost by simp
    with new old confirmed_move [where req = req and u = u and p = p and b = "w_body w" and l = "w_lease w" and w = w] show ?thesis by fastforce
  next
    case (release p a)
    have w': "w' = move p (Finished a) w\<lparr>w_lease := None, w_body := w_body w\<rparr>" using release by simp
    have "confirmed req u w' \<Longrightarrow> confirmed req u w"
    proof (drule confirmed_move [where req = req and u = u and p = p and c = "Finished a" and b = "w_body w" and l = None and w = w, folded w'], elim disjE conjE)
      assume "succeeded (Finished a)" "adds (req p) u"
      then show ?thesis using release(2) unfolding confirmed_def by (cases a) (auto intro!: exI [of _ p])
    qed
    with new old show ?thesis unfolding w' by auto
  qed
qed

text \<open>
  C28. Under the lease no addition is lost: with any number of writers interleaving their reads and writes, an
  identifier that was in the scope at the start, or that a writer reported as added, is in the stored scope,
  unless some writer was asked to remove it.
\<close>

theorem concurrent_additions_kept:
  assumes "writers_reach env issue req body w" and "keeps req u"
    and "u \<in> set (extractInScopeRequirementUids body) \<or> confirmed req u w"
  shows "u \<in> set (extractInScopeRequirementUids (w_body w))"
proof -
  have "lease_inv req w \<and> (u \<in> set (extractInScopeRequirementUids body) \<or> confirmed req u w
      \<longrightarrow> u \<in> set (extractInScopeRequirementUids (w_body w)))"
    using assms(1)
  proof (induction rule: writers_reach.induct)
    case start
    then show ?case by (simp add: lease_inv_def confirmed_def)
  next
    case (step w w')
    then show ?case using lease_inv_step [OF step.hyps(2)] kept_step [OF step.hyps(2) _ assms(2)] by blast
  qed
  with assms(3) show ?thesis by blast
qed

section \<open>Witnesses\<close>

definition sample_payload :: issue_payload where
  "sample_payload = \<lparr>ip_object = True, ip_pull_request = False, ip_number = Some 7, ip_body = BodyText scope_example\<rparr>"

definition removal_comment :: comment where
  "removal_comment = \<lparr>c_id = Some 1, c_body = ''/ground-control authorize-scope-removal 7 GC-A001'',
     c_author = Some ''alice'', c_association = None, c_author_type = Some ''User'', c_created_at = None\<rparr>"

definition sample_scope_env :: scope_env where
  "sample_scope_env = \<lparr>sv_read = Some sample_payload, sv_patch = (\<lambda>b. None), sv_comments = Some [removal_comment],
     sv_perm = (\<lambda>l. Some ''write''), sv_trust_ok = True,
     sv_identity = (\<lambda>u. Identified (Some u) (toRequirement u \<lparr>pf_frontmatter = [], pf_body = []\<rparr>)),
     sv_sensitive = (\<lambda>b. False)\<rparr>"

definition removed_body :: ustr where
  "removed_body = units ''# Task'' @ [u_nl] @ units ''## Requirements'' @ [u_nl]"

definition added_body :: ustr where
  "added_body = scope_example @ units ''- GC-B002'' @ [u_nl]"

lemma sample_titles:
  "resolveScopeTitles (sv_identity sample_scope_env) [units ''GC-A001'', units ''GC-B002''] Map.empty
     = Inr (Map.empty(units ''GC-A001'' \<mapsto> [], units ''GC-B002'' \<mapsto> []))"
  by (simp add: sample_scope_env_def toRequirement_def fm_field_def jm_get_def or_else_def)

lemma sample_removed:
  "applyRequirementScopeOperation scope_example (JStr ''remove'') (JArr [JStr ''GC-A001'']) Map.empty
     = Inr \<lparr>su_changed = True, su_body = removed_body, su_uids = []\<rparr>"
  by code_simp

lemma sample_added:
  "applyRequirementScopeOperation scope_example (JStr ''add'') (JArr [JStr ''GC-B002''])
      (Map.empty(units ''GC-A001'' \<mapsto> [], units ''GC-B002'' \<mapsto> []))
     = Inr \<lparr>su_changed = True, su_body = added_body, su_uids = [units ''GC-A001'', units ''GC-B002'']\<rparr>"
  by code_simp

lemma sample_authorized:
  "requireTrustedRemovalAuthorization (sv_comments sample_scope_env) (sv_perm sample_scope_env)
     (sv_trust_ok sample_scope_env) 7 [units ''GC-A001''] = None"
  by code_simp

lemma sample_marker_free: "\<not> reserved_marker removed_body" "\<not> reserved_marker added_body"
  by code_simp+

lemma sample_sizes: "utf8_length removed_body = 23" "utf8_length added_body = 43"
  by code_simp+

lemma sample_read: "readTargetIssue (sv_read sample_scope_env) 7 = Inr scope_example"
  by (simp add: readTargetIssue_def sample_scope_env_def sample_payload_def describesRequestedIssue_def payload_text_def)

lemma sample_resolved:
  "resolveIntendedScope scope_example (JStr ''remove'') (JArr [JStr ''GC-A001''])
     = Inr \<lparr>is_current = [units ''GC-A001''], is_intended = [], is_changed = True\<rparr>"
  "resolveIntendedScope scope_example (JStr ''add'') (JArr [JStr ''GC-B002''])
     = Inr \<lparr>is_current = [units ''GC-A001''], is_intended = [units ''GC-A001'', units ''GC-B002''], is_changed = True\<rparr>"
  by code_simp+

lemma sample_safe: "rejectUnsafeBody (sv_sensitive sample_scope_env) removed_body = None"
  "rejectUnsafeBody (sv_sensitive sample_scope_env) added_body = None"
  by (simp_all add: rejectUnsafeBody_def sample_marker_free sample_sizes github_issue_comment_body_max_def sample_scope_env_def)

lemma sample_prepared_removal:
  "prepareScopeUpdate sample_scope_env 7 (JStr ''remove'') (JArr [JStr ''GC-A001''])
     = Inr \<lparr>su_changed = True, su_body = removed_body, su_uids = []\<rparr>"
proof -
  have "uid_units (JArr [JStr ''GC-A001'']) = [units ''GC-A001'']" by (simp add: uid_units_def)
  then show ?thesis
    unfolding prepareScopeUpdate_def sample_read sum.case sample_resolved
    by (simp add: sample_authorized sample_removed sample_safe)
qed

lemma sample_prepared_addition:
  "prepareScopeUpdate (served sample_scope_env 7 scope_example) 7 (JStr ''add'') (JArr [JStr ''GC-B002''])
     = Inr \<lparr>su_changed = True, su_body = added_body, su_uids = [units ''GC-A001'', units ''GC-B002'']\<rparr>"
proof -
  have "sv_identity (served sample_scope_env 7 scope_example) = sv_identity sample_scope_env"
    "sv_sensitive (served sample_scope_env 7 scope_example) = sv_sensitive sample_scope_env"
    by (simp_all add: served_def)
  then show ?thesis
    unfolding prepareScopeUpdate_def served_read sum.case sample_resolved
    using sample_titles sample_added sample_safe by simp
qed

definition sample_removal :: scope_request where
  "sample_removal = \<lparr>sr_repo_path = JStr ''/r'', sr_issue = JInt 7, sr_operation = JStr ''remove'',
     sr_uids = JArr [JStr ''GC-A001''], sr_repo = JNull\<rparr>"

definition sample_scope_host :: scope_host where
  "sample_scope_host = \<lparr>sh_git_repo = True, sh_authorization = Inr ''o/r'', sh_lease = LeaseTaken\<rparr>"

lemma sample_run_writes:
  "PatchBody removed_body \<in> set (snd (runUpdateIssueRequirements sample_scope_host sample_scope_env sample_removal))"
proof -
  have "validateScopeCall sample_removal = None" by code_simp
  then show ?thesis
    by (simp add: runUpdateIssueRequirements_def sample_scope_host_def sample_removal_def runUnderIssueScopeLease_def
        performScopeUpdate_def sample_prepared_removal writeAndVerify_def)
qed

lemma removed_read: "extractInScopeRequirementUids removed_body = []"
  using apply_ok [OF sample_removed] by simp

lemma added_read: "extractInScopeRequirementUids added_body = [units ''GC-A001'', units ''GC-B002'']"
  using apply_ok [OF sample_added] by simp

lemma narrowing_needs_authorization_witness:
  "\<exists>c. write_author (\<lambda>l. Some ''write'') c \<and> (\<exists>named. split_ws (trim (c_body c))
       = [''/ground-control'', ''authorize-scope-removal'', show_nat 7] @ named \<and> units ` set named = {units ''GC-A001''})"
proof -
  have r: "readTargetIssue (sv_read sample_scope_env) (nat (the (as_int (sr_issue sample_removal)))) = Inr scope_example"
    by (simp add: sample_removal_def sample_read)
  have u: "units ''GC-A001'' \<in> set (extractInScopeRequirementUids scope_example) - set (extractInScopeRequirementUids removed_body)"
    by (simp add: scope_example_read removed_read)
  from narrowing_needs_authorization [OF sample_run_writes r u] show ?thesis
    by (auto simp: sample_removal_def sample_scope_env_def uid_units_def)
qed

lemma scope_write_clean_witness:
  "snd (runUpdateIssueRequirements sample_scope_host sample_scope_env sample_removal)
     = [TakeLease, GetIssue, PatchBody removed_body, InvalidateCache, ReleaseLease]"
  using scope_write_clean [OF sample_run_writes] by blast

definition sample_writers :: "nat \<Rightarrow> writer_call" where
  "sample_writers = (\<lambda>p. \<lparr>wc_operation = JStr ''add'', wc_uids = JArr [JStr ''GC-B002'']\<rparr>)"

lemma sample_writers_done:
  "\<exists>w. writers_reach (\<lambda>p. sample_scope_env) 7 sample_writers scope_example w
     \<and> confirmed sample_writers (units ''GC-B002'') w \<and> w_body w = added_body"
proof -
  let ?R = "writers_reach (\<lambda>p. sample_scope_env) 7 sample_writers scope_example"
  let ?up = "\<lparr>su_changed = True, su_body = added_body, su_uids = [units ''GC-A001'', units ''GC-B002'']\<rparr>"
  let ?w0 = "\<lparr>w_body = scope_example, w_lease = None, w_pc = (\<lambda>p. Waiting)\<rparr>"
  let ?w1 = "move 0 Holding ?w0\<lparr>w_lease := Some 0\<rparr>"
  let ?w2 = "move 0 (Prepared ?up) ?w1"
  let ?w3 = "move 0 (Finishing (ScopeOk True (su_uids ?up))) ?w2\<lparr>w_body := su_body ?up\<rparr>"
  have "?R ?w1"
    by (rule writers_reach.step [OF writers_reach.start], rule writer_step.take_lease) (simp_all add: lease_of_def)
  moreover have "prepareScopeUpdate (served sample_scope_env 7 (w_body ?w1)) 7
      (wc_operation (sample_writers 0)) (wc_uids (sample_writers 0)) = Inr ?up"
    using sample_prepared_addition by (simp add: sample_writers_def)
  ultimately have "?R ?w2"
    by (intro writers_reach.step [OF _ writer_step.prepared]) simp_all
  then have "?R ?w3"
    by (intro writers_reach.step [OF _ writer_step.stored]) simp_all
  moreover have "confirmed sample_writers (units ''GC-B002'') ?w3"
    unfolding confirmed_def by (intro exI [of _ 0]) (simp add: adds_def sample_writers_def uid_units_def)
  ultimately show ?thesis by (intro exI [of _ ?w3]) simp
qed

lemma concurrent_additions_kept_witness:
  "\<exists>w. writers_reach (\<lambda>p. sample_scope_env) 7 sample_writers scope_example w
     \<and> units ''GC-B002'' \<in> set (extractInScopeRequirementUids (w_body w))"
proof -
  obtain w where w: "writers_reach (\<lambda>p. sample_scope_env) 7 sample_writers scope_example w"
    "confirmed sample_writers (units ''GC-B002'') w" using sample_writers_done by blast
  have "keeps sample_writers (units ''GC-B002'')" by (simp add: keeps_def sample_writers_def)
  from concurrent_additions_kept [OF w(1) this] w show ?thesis by blast
qed

end
