(* ===== verification/PublishJournal.thy ===== *)
theory PublishJournal
  imports Json
begin

text \<open>
  The recovery journal of the mechanical publish (\<open>lib/implement-recovery-journal.js\<close>) and the decision an
  interrupted publish is resumed with (\<open>lib/implement-publish-recovery.js\<close>).

  The journal's path holds one entry of the Git metadata directory; an operation answers and leaves an
  entry. Git and the write itself are parameters.
\<close>

section \<open>Phases and classifications\<close>

datatype publish_phase =
    Initializing | FeatureCommitted | FeaturePushed | BaseFetched | MergeStaged
  | GatesPassed | MergeCommitted | MergePushed | Attested | Reconciling

definition publish_phases :: "publish_phase list" where
  "publish_phases = [Initializing, FeatureCommitted, FeaturePushed, BaseFetched, MergeStaged,
     GatesPassed, MergeCommitted, MergePushed, Attested, Reconciling]"

fun phase_name :: "publish_phase \<Rightarrow> string" where
  "phase_name Initializing = ''initializing''"
| "phase_name FeatureCommitted = ''feature_committed''"
| "phase_name FeaturePushed = ''feature_pushed''"
| "phase_name BaseFetched = ''base_fetched''"
| "phase_name MergeStaged = ''merge_staged''"
| "phase_name GatesPassed = ''gates_passed''"
| "phase_name MergeCommitted = ''merge_committed''"
| "phase_name MergePushed = ''merge_pushed''"
| "phase_name Attested = ''attested''"
| "phase_name Reconciling = ''reconciling''"

fun phase_rank :: "publish_phase \<Rightarrow> nat" where
  "phase_rank Initializing = 0"
| "phase_rank FeatureCommitted = 1"
| "phase_rank FeaturePushed = 2"
| "phase_rank BaseFetched = 3"
| "phase_rank MergeStaged = 4"
| "phase_rank GatesPassed = 5"
| "phase_rank MergeCommitted = 6"
| "phase_rank MergePushed = 7"
| "phase_rank Attested = 8"
| "phase_rank Reconciling = 9"

text \<open>The phases are recorded in lifecycle order.\<close>

instantiation publish_phase :: linorder
begin

definition less_eq_publish_phase :: "publish_phase \<Rightarrow> publish_phase \<Rightarrow> bool" where
  "less_eq_publish_phase p q \<longleftrightarrow> phase_rank p \<le> phase_rank q"

definition less_publish_phase :: "publish_phase \<Rightarrow> publish_phase \<Rightarrow> bool" where
  "less_publish_phase p q \<longleftrightarrow> phase_rank p < phase_rank q"

instance
proof
  fix p q :: publish_phase
  have rank: "phase_rank p = phase_rank q \<Longrightarrow> p = q" by (cases p; cases q) simp_all
  show "p \<le> q \<Longrightarrow> q \<le> p \<Longrightarrow> p = q"
    unfolding less_eq_publish_phase_def by (intro rank) simp
qed (auto simp: less_eq_publish_phase_def less_publish_phase_def)

end

lemma phases_sorted: "sorted_wrt (<) publish_phases" "p \<in> set publish_phases"
  by (simp_all add: publish_phases_def less_publish_phase_def) (cases p; simp)

lemma phase_name_inj: "phase_name p = phase_name q \<longleftrightarrow> p = q"
  by (cases p; cases q) simp_all

definition journal_classifications :: "string list" where
  "journal_classifications = [''in_progress'', ''completed'', ''timed_out'', ''cancelled'', ''agent_required'', ''failed'']"

definition journal_schema :: string where
  "journal_schema = ''gc.implement.publish-journal/v1''"

section \<open>The closed shape\<close>

definition isOidOrNull :: "js \<Rightarrow> bool" where
  "isOidOrNull v = (case v of JNull \<Rightarrow> True | JStr s \<Rightarrow> git_object_id s | _ \<Rightarrow> False)"

definition oid_or_null_fields :: "string list" where
  "oid_or_null_fields = [''pre_publish_head'', ''published_pre_sync_head'', ''fetched_base_sha'', ''expected_merge_head'']"

definition required_string_fields :: "string list" where
  "required_string_fields = [''branch'', ''base_branch'']"

definition journal_keys :: "string list" where
  "journal_keys = [''schema'', ''record_id'', ''issue_number'', ''phase'', ''classification'',
     ''created_at'', ''updated_at''] @ required_string_fields @ oid_or_null_fields"

definition bounded_text :: "js \<Rightarrow> bool" where
  "bounded_text v = (case v of JStr s \<Rightarrow> s \<noteq> [] \<and> unit_length s \<le> 200 | _ \<Rightarrow> False)"

definition journalFieldShapeError :: "js \<Rightarrow> bool" where
  "journalFieldShapeError r \<longleftrightarrow>
     \<not> (case fld r ''record_id'' of JNull \<Rightarrow> True | JStr s \<Rightarrow> hex_run 32 s | _ \<Rightarrow> False)
     \<or> \<not> is_pos_int (fld r ''issue_number'')
     \<or> \<not> list_all (\<lambda>k. bounded_text (fld r k)) required_string_fields
     \<or> \<not> list_all (\<lambda>k. isOidOrNull (fld r k)) oid_or_null_fields
     \<or> \<not> (case fld r ''phase'' of JStr p \<Rightarrow> p \<in> set (map phase_name publish_phases) | _ \<Rightarrow> False)
     \<or> \<not> (case fld r ''classification'' of JStr c \<Rightarrow> c \<in> set journal_classifications | _ \<Rightarrow> False)
     \<or> \<not> is_string (fld r ''created_at'') \<or> \<not> is_string (fld r ''updated_at'')"

definition validateImplementPublishJournalRecord :: "js \<Rightarrow> string option" where
  "validateImplementPublishJournalRecord r =
     (if \<not> is_mapping r then Some ''journal_shape_invalid''
      else if fld r ''schema'' \<noteq> JStr journal_schema then Some ''journal_schema_unknown''
      else if \<not> list_all (\<lambda>k. k \<in> set journal_keys) (obj_keys r) then Some ''journal_unknown_field''
      else if journalFieldShapeError r then Some ''journal_shape_invalid''
      else None)"

section \<open>Reading, writing and removing\<close>

text \<open>What the journal's path names. A regular file's text is \<open>None\<close> where it cannot be read.\<close>

datatype entry = Missing | Unstattable | SymLink | NotRegular | Regular "string option"

datatype journal_read = JournalError string | JournalAbsent | JournalRecord js

definition readImplementPublishJournal :: "entry \<Rightarrow> journal_read" where
  "readImplementPublishJournal e =
     (case e of
        Missing \<Rightarrow> JournalAbsent
      | Unstattable \<Rightarrow> JournalError ''journal_unreadable''
      | SymLink \<Rightarrow> JournalError ''journal_not_regular_file''
      | NotRegular \<Rightarrow> JournalError ''journal_not_regular_file''
      | Regular None \<Rightarrow> JournalError ''journal_unparseable''
      | Regular (Some text) \<Rightarrow>
          (case json_parse text of
             None \<Rightarrow> JournalError ''journal_unparseable''
           | Some v \<Rightarrow> (case validateImplementPublishJournalRecord v of
                 Some err \<Rightarrow> JournalError err | None \<Rightarrow> JournalRecord v)))"

text \<open>\<open>JSON.stringify(record, null, 2)\<close> of an object of plain values, and the final newline.\<close>

fun sep_lines :: "string list \<Rightarrow> string" where
  "sep_lines [] = []"
| "sep_lines [w] = w"
| "sep_lines (w # ws) = w @ CHR '','' # sep_lines ws"

definition journal_member :: "(int \<Rightarrow> nat \<Rightarrow> string) \<Rightarrow> string \<times> js \<Rightarrow> string" where
  "journal_member frac m = (case m of (k, v) \<Rightarrow> nl # ''  '' @ json_string k @ '': '' @ json_text frac v)"

definition journal_text :: "(int \<Rightarrow> nat \<Rightarrow> string) \<Rightarrow> (string \<times> js) list \<Rightarrow> string" where
  "journal_text frac fs = CHR ''{'' # sep_lines (map (journal_member frac) fs) @ [nl, CHR ''}'', nl]"

text \<open>\<open>fields.k ?? prior?.k\<close>.\<close>

definition merged_field :: "js \<Rightarrow> js \<Rightarrow> string \<Rightarrow> js" where
  "merged_field fields prior k = coalesce (fld fields k) (fld prior k)"

definition journal_record :: "js \<Rightarrow> js \<Rightarrow> string \<Rightarrow> (string \<times> js) list" where
  "journal_record fields prior now =
     [(''schema'', JStr journal_schema),
      (''record_id'', coalesce (merged_field fields prior ''record_id'') JNull),
      (''issue_number'', merged_field fields prior ''issue_number''),
      (''branch'', merged_field fields prior ''branch''),
      (''base_branch'', merged_field fields prior ''base_branch''),
      (''pre_publish_head'', coalesce (merged_field fields prior ''pre_publish_head'') JNull),
      (''published_pre_sync_head'', coalesce (merged_field fields prior ''published_pre_sync_head'') JNull),
      (''fetched_base_sha'', coalesce (merged_field fields prior ''fetched_base_sha'') JNull),
      (''expected_merge_head'', coalesce (merged_field fields prior ''expected_merge_head'') JNull),
      (''phase'', fld fields ''phase''),
      (''classification'', coalesce (merged_field fields prior ''classification'') (JStr ''in_progress'')),
      (''created_at'', coalesce (fld prior ''created_at'') (JStr now)),
      (''updated_at'', JStr now)]"

text \<open>\<open>assertNotSymlink\<close>: the error it throws.\<close>

definition assertNotSymlink :: "entry \<Rightarrow> string option" where
  "assertNotSymlink e = (case e of
      SymLink \<Rightarrow> Some ''journal_not_regular_file'' | Unstattable \<Rightarrow> Some ''lstat_failed'' | _ \<Rightarrow> None)"

text \<open>\<open>disk_ok\<close>: the temporary file is created, written and renamed.\<close>

definition writeImplementPublishJournal ::
    "(int \<Rightarrow> nat \<Rightarrow> string) \<Rightarrow> bool \<Rightarrow> string \<Rightarrow> js \<Rightarrow> entry \<Rightarrow> (string + js) \<times> entry" where
  "writeImplementPublishJournal frac disk_ok now fields e =
     (let prior = (case readImplementPublishJournal e of JournalRecord r \<Rightarrow> r | _ \<Rightarrow> JUndef);
          record = journal_record fields prior now
      in case validateImplementPublishJournalRecord (JObj record) of
           Some err \<Rightarrow> (Inl err, e)
         | None \<Rightarrow>
             (case assertNotSymlink e of
                Some err \<Rightarrow> (Inl err, e)
              | None \<Rightarrow>
                  if disk_ok then (Inr (JObj record), Regular (Some (journal_text frac record)))
                  else (Inl ''write_failed'', e)))"

definition removeImplementPublishJournal :: "bool \<Rightarrow> entry \<Rightarrow> string option \<times> entry" where
  "removeImplementPublishJournal unlink_ok e =
     (case assertNotSymlink e of
        Some err \<Rightarrow> (Some err, e)
      | None \<Rightarrow>
          (case e of
             Missing \<Rightarrow> (None, Missing)
           | _ \<Rightarrow> if unlink_ok then (None, Missing) else (Some ''unlink_failed'', e)))"

section \<open>Recovering an interrupted publish\<close>

record retry_input =
  ri_record_id :: js
  ri_pre_sync_sha :: js
  ri_fetched_base_sha :: js

datatype recovery =
    Proceed
  | Refused string
  | InterruptedMerge "retry_input option"
  | RecoveryThrew string

text \<open>\<open>merge_head\<close> and \<open>head\<close> are the object ids Git reports, \<open>None\<close> where the read fails.\<close>

definition reconcileInterruptedPublish ::
    "entry \<Rightarrow> string option \<Rightarrow> string option \<Rightarrow> bool \<Rightarrow> nat \<Rightarrow> string \<Rightarrow> recovery \<times> entry" where
  "reconcileInterruptedPublish e merge_head head unlink_ok issue branch =
     (case readImplementPublishJournal e of
        JournalError err \<Rightarrow> (Refused ''implement_publish_recovery_journal_corrupt'', e)
      | JournalAbsent \<Rightarrow> (Proceed, e)
      | JournalRecord r \<Rightarrow>
          if fld r ''issue_number'' \<noteq> JInt (int issue) \<or> fld r ''branch'' \<noteq> JStr branch then
            (Refused ''implement_publish_recovery_journal_foreign'', e)
          else (case merge_head of
             Some m \<Rightarrow>
               (if \<not> nullish (fld r ''record_id'') \<and> \<not> nullish (fld r ''published_pre_sync_head'')
                   \<and> fld r ''fetched_base_sha'' = JStr m \<and> fld r ''expected_merge_head'' = JStr m
                   \<and> (case head of Some h \<Rightarrow> JStr h | None \<Rightarrow> JNull) = fld r ''published_pre_sync_head''
                then (InterruptedMerge (Some \<lparr>ri_record_id = fld r ''record_id'',
                        ri_pre_sync_sha = fld r ''published_pre_sync_head'',
                        ri_fetched_base_sha = fld r ''fetched_base_sha''\<rparr>), e)
                else (InterruptedMerge None, e))
           | None \<Rightarrow>
               (case removeImplementPublishJournal unlink_ok e of
                  (None, e') \<Rightarrow> (Proceed, e')
                | (Some err, e') \<Rightarrow> (RecoveryThrew err, e'))))"

text \<open>The compare-and-swap in front of every mutating step. The second and third read may throw.\<close>

datatype merge_check = Unchanged | Diverged string | CheckThrew

definition assertImplementMergeAttemptUnchanged ::
    "string option \<Rightarrow> string option \<Rightarrow> string option \<Rightarrow> string \<Rightarrow> string \<Rightarrow> merge_check" where
  "assertImplementMergeAttemptUnchanged merge_head head unmerged preSyncSha fetchedBaseSha =
     (if merge_head \<noteq> Some fetchedBaseSha then Diverged ''implement_base_sync_merge_head_mismatch''
      else case head of
        None \<Rightarrow> CheckThrew
      | Some h \<Rightarrow>
          if h \<noteq> preSyncSha then Diverged ''implement_base_sync_pre_merge_head_mismatch''
          else (case unmerged of
             None \<Rightarrow> CheckThrew
           | Some out \<Rightarrow> if trim out \<noteq> [] then Diverged ''implement_base_sync_conflicts_unresolved'' else Unchanged))"

section \<open>A journal that was written is read back\<close>

lemma skip_ws: "json_ws c \<Longrightarrow> skip (c # s) = skip s"
  by (simp add: skip_def)

lemma ws_lines: "json_ws nl" "json_ws CHR '' ''"
  by (simp_all add: json_ws_def)

lemma jval_space: "jval (Suc k) (CHR '' '' # s) = jval (Suc k) s"
  by (simp add: skip_ws ws_lines)

lemma members_journal:
  assumes "fs \<noteq> []" and "\<forall>(k, v) \<in> set fs. printable v" and "distinct (map fst (acc @ fs))"
    and "2 * length (sep_lines (map (journal_member frac) fs)) < k"
  shows "members k acc (sep_lines (map (journal_member frac) fs) @ nl # CHR ''}'' # r) = Some (acc @ fs, r)"
  using assms
proof (induction fs arbitrary: acc k)
  case Nil
  then show ?case by simp
next
  case (Cons f fs)
  obtain key v where f: "f = (key, v)" by (cases f)
  let ?txt = "\<lambda>fs. sep_lines (map (journal_member frac) fs)"
  have "length (journal_member frac f) \<le> length (?txt (f # fs))" by (cases fs) simp_all
  moreover have "length (json_text frac v) + 4 \<le> length (journal_member frac f)"
    by (simp add: f journal_member_def json_string_def)
  ultimately have "2 * length (json_text frac v) + 4 < k" using Cons.prems(4) by linarith
  then obtain k' where k: "k = Suc (Suc k')" "2 * length (json_text frac v) < Suc k'"
    by (cases k; cases "k - 1") auto
  have p: "printable v" using Cons.prems(2) f by simp
  have val: "ends_number u \<Longrightarrow> jval (Suc k') (CHR '' '' # json_text frac v @ u) = Some (v, u)" for u
    unfolding jval_space using json_read [OF p _ k(2)] .
  have "jm_get acc key = None" using Cons.prems(3) f by (auto simp: jm_get_def map_of_eq_None_iff)
  then have set: "jm_set key v acc = acc @ [(key, v)]" by (simp add: jm.entries_put_new)
  have skips: "skip (CHR '':'' # w) = CHR '':'' # w" "skip (nl # CHR '' '' # CHR '' '' # dq # w) = dq # w"
      "skip (nl # CHR ''}'' # w) = CHR ''}'' # w" "skip (CHR '','' # w) = CHR '','' # w" for w
    by (simp_all add: skip_def json_ws_def)
  have head: "members k acc (journal_member frac f @ u) =
      (case skip u of [] \<Rightarrow> None
       | c # t \<Rightarrow> if c = CHR '','' then members (Suc k') (jm_set key v acc) t
                  else if c = CHR ''}'' then Some (jm_set key v acc, t) else None)" if "ends_number u" for u
    unfolding k f using val [OF that] by (simp add: journal_member_def json_string_def skips quoted_escape f
        del: jval.simps split del: if_split)
  show ?case
  proof (cases fs)
    case Nil
    have "ends_number (nl # CHR ''}'' # r)" by (simp add: is_digit_def less_eq_char_def)
    from head [OF this] Nil show ?thesis by (simp add: skips set f)
  next
    case (Cons g gs)
    have ne: "fs \<noteq> []" using Cons by simp
    have "length (?txt (f # fs)) = length (journal_member frac f) + 1 + length (?txt fs)" by (simp add: Cons)
    then have "2 * length (?txt fs) < Suc k'" using Cons.prems(4) k(1) by linarith
    moreover have "distinct (map fst ((acc @ [f]) @ fs))" "\<forall>(k, v) \<in> set fs. printable v"
      using Cons.prems(2,3) by simp_all
    ultimately have rest: "members (Suc k') (acc @ [f]) (?txt fs @ nl # CHR ''}'' # r) = Some ((acc @ [f]) @ fs, r)"
      by (intro Cons.IH ne)
    have "ends_number (CHR '','' # ?txt fs @ nl # CHR ''}'' # r)" by (simp add: is_digit_def less_eq_char_def)
    from head [OF this] rest Cons show ?thesis by (simp add: skips set f)
  qed
qed

lemma journal_text_reads:
  assumes "fs \<noteq> []" and "\<forall>(k, v) \<in> set fs. printable v" and "distinct (map fst fs)"
  shows "json_parse (journal_text frac fs) = Some (JObj fs)"
proof -
  let ?t = "sep_lines (map (journal_member frac) fs)"
  obtain w where w: "?t = nl # CHR '' '' # CHR '' '' # dq # w"
    using assms(1) by (cases fs; cases "tl fs") (auto simp: journal_member_def json_string_def split: prod.splits)
  have "members (2 * length (journal_text frac fs) + 1) [] (?t @ nl # CHR ''}'' # [nl]) = Some ([] @ fs, [nl])"
    using assms by (intro members_journal) (auto simp: journal_text_def)
  moreover have "skip (?t @ u) = dq # w @ u" for u unfolding w by (simp add: skip_def json_ws_def)
  moreover have "skip (CHR ''{'' # u) = CHR ''{'' # u" for u by (simp add: skip_def json_ws_def)
  ultimately have "jval (2 * length (journal_text frac fs) + 2) (journal_text frac fs) = Some (JObj fs, [nl])"
    by (simp add: journal_text_def del: length_append)
  then show ?thesis by (simp add: json_parse_def skip_def json_ws_def)
qed

lemma journal_valid_printable:
  assumes "validateImplementPublishJournalRecord r = None" and "k \<in> set journal_keys"
  shows "printable (fld r k)"
proof -
  have shape: "\<not> journalFieldShapeError r" and "fld r ''schema'' = JStr journal_schema"
    using assms by (simp_all add: validateImplementPublishJournalRecord_def split: if_splits)
  then have schema: "printable (fld r ''schema'')" by simp
  have "isOidOrNull v \<Longrightarrow> printable v" "bounded_text v \<Longrightarrow> printable v" "is_pos_int v \<Longrightarrow> printable v"
    "is_string v \<Longrightarrow> printable v" for v
    by (cases v; simp add: isOidOrNull_def bounded_text_def is_pos_int_def is_string_def)+
  then have "l \<in> set oid_or_null_fields \<Longrightarrow> printable (fld r l)" "l \<in> set required_string_fields \<Longrightarrow> printable (fld r l)"
    "printable (fld r ''issue_number'')" "printable (fld r ''created_at'')" "printable (fld r ''updated_at'')" for l
    using shape unfolding journalFieldShapeError_def list_all_iff by blast+
  moreover have "(case v of JNull \<Rightarrow> True | JStr s \<Rightarrow> P s | _ \<Rightarrow> False) \<Longrightarrow> printable v"
    "(case v of JStr s \<Rightarrow> P s | _ \<Rightarrow> False) \<Longrightarrow> printable v" for v P
    by (cases v; simp)+
  then have "printable (fld r ''record_id'')" "printable (fld r ''phase'')" "printable (fld r ''classification'')"
    using shape unfolding journalFieldShapeError_def by blast+
  ultimately show ?thesis using assms(2) schema unfolding journal_keys_def set_append Un_iff by auto
qed

lemma journal_record_names:
  "distinct (map fst (journal_record given prior now))" "fst ` set (journal_record given prior now) \<subseteq> set journal_keys"
  by (simp_all add: journal_record_def journal_keys_def required_string_fields_def oid_or_null_fields_def)

lemma journal_record_valid:
  assumes "validateImplementPublishJournalRecord (JObj (journal_record given prior now)) = None"
  shows "\<forall>(k, v) \<in> set (journal_record given prior now). printable v"
proof clarify
  fix k v assume m: "(k, v) \<in> set (journal_record given prior now)"
  then have "map_of (journal_record given prior now) k = Some v" by (rule map_of_is_SomeI [OF journal_record_names(1)])
  moreover have "k \<in> set journal_keys" using m journal_record_names(2) by force
  ultimately show "printable v" using journal_valid_printable [OF assms, of k] by simp
qed

lemma journal_valid_fields:
  assumes "validateImplementPublishJournalRecord q = None"
  shows "\<not> nullish (fld q ''created_at'')" "\<not> nullish (fld q ''classification'')"
    "fld q ''record_id'' = JNull \<or> \<not> nullish (fld q ''record_id'')"
    "k \<in> set oid_or_null_fields \<Longrightarrow> fld q k = JNull \<or> \<not> nullish (fld q k)"
proof -
  have shape: "\<not> journalFieldShapeError q"
    using assms by (simp add: validateImplementPublishJournalRecord_def split: if_splits)
  then show "\<not> nullish (fld q ''created_at'')" "\<not> nullish (fld q ''classification'')"
    "fld q ''record_id'' = JNull \<or> \<not> nullish (fld q ''record_id'')"
    unfolding journalFieldShapeError_def is_string_def nullish_def by (auto split: js.splits)
  show "k \<in> set oid_or_null_fields \<Longrightarrow> fld q k = JNull \<or> \<not> nullish (fld q k)"
    using shape unfolding journalFieldShapeError_def list_all_iff isOidOrNull_def nullish_def by (auto split: js.splits)
qed

lemma write_journal_cases:
  assumes "writeImplementPublishJournal frac disk_ok now given e = (Inr r, e')"
  shows "let prior = (case readImplementPublishJournal e of JournalRecord p \<Rightarrow> p | _ \<Rightarrow> JUndef);
             record = journal_record given prior now
         in r = JObj record \<and> e' = Regular (Some (journal_text frac record))
            \<and> validateImplementPublishJournalRecord (JObj record) = None"
  using assms unfolding writeImplementPublishJournal_def Let_def by (auto split: option.splits if_splits)

text \<open>
  C29. A journal that is written has the closed shape and is read back exactly; over a readable prior record,
  every identity the caller does not give anew is the recorded one.
\<close>

theorem journal_write_reads_back:
  assumes "writeImplementPublishJournal frac disk_ok now given e = (Inr r, e')"
  shows "readImplementPublishJournal e' = JournalRecord r
    \<and> validateImplementPublishJournalRecord r = None
    \<and> (case readImplementPublishJournal e of
         JournalRecord p \<Rightarrow>
           fld r ''created_at'' = fld p ''created_at''
           \<and> list_all (\<lambda>k. fld r k = (if nullish (fld given k) then fld p k else fld given k))
               ([''record_id'', ''issue_number'', ''classification''] @ required_string_fields @ oid_or_null_fields)
       | _ \<Rightarrow> fld r ''created_at'' = JStr now)"
proof -
  obtain prior where p: "prior = (case readImplementPublishJournal e of JournalRecord p \<Rightarrow> p | _ \<Rightarrow> JUndef)" by blast
  have w: "r = JObj (journal_record given prior now)" "e' = Regular (Some (journal_text frac (journal_record given prior now)))"
    "validateImplementPublishJournalRecord r = None"
    using write_journal_cases [OF assms] p by (auto simp: Let_def)
  have "json_parse (journal_text frac (journal_record given prior now)) = Some r"
    using journal_text_reads [OF _ journal_record_valid journal_record_names(1)] w
    by (simp add: journal_record_def)
  then have "readImplementPublishJournal e' = JournalRecord r"
    using w(2,3) by (simp add: readImplementPublishJournal_def)
  moreover have "case readImplementPublishJournal e of
         JournalRecord p \<Rightarrow>
           fld r ''created_at'' = fld p ''created_at''
           \<and> list_all (\<lambda>k. fld r k = (if nullish (fld given k) then fld p k else fld given k))
               ([''record_id'', ''issue_number'', ''classification''] @ required_string_fields @ oid_or_null_fields)
       | _ \<Rightarrow> fld r ''created_at'' = JStr now"
  proof (cases "readImplementPublishJournal e")
    case (JournalRecord q)
    then have v: "validateImplementPublishJournalRecord q = None"
      by (auto simp: readImplementPublishJournal_def split: entry.splits option.splits)
    note f = journal_valid_fields [OF v]
    have d: "coalesce (merged_field given q k) JNull = (if nullish (fld given k) then fld q k else fld given k)"
      if "fld q k = JNull \<or> \<not> nullish (fld q k)" for k
      using that by (auto simp: merged_field_def coalesce_def nullish_def split: js.splits)
    have c: "coalesce (merged_field given q ''classification'') z
        = (if nullish (fld given ''classification'') then fld q ''classification'' else fld given ''classification'')" for z
      using f(2) by (auto simp: merged_field_def coalesce_def)
    have m: "merged_field given q k = (if nullish (fld given k) then fld q k else fld given k)" for k
      by (simp add: merged_field_def coalesce_def)
    have prior: "prior = q" using p JournalRecord by simp
    have created: "coalesce (fld q ''created_at'') z = fld q ''created_at''" for z
      using f(1) by (simp add: coalesce_def)
    have oids: "fld q k = JNull \<or> \<not> nullish (fld q k)"
      if "k = ''pre_publish_head'' \<or> k = ''published_pre_sync_head'' \<or> k = ''fetched_base_sha'' \<or> k = ''expected_merge_head''" for k
      using that f(4) unfolding oid_or_null_fields_def by auto
    show ?thesis
      unfolding JournalRecord journal_read.case w(1) prior required_string_fields_def oid_or_null_fields_def
        journal_record_def d [OF f(3)] d [OF oids [OF disjI1 [OF refl]]] d [OF oids [OF disjI2 [OF disjI1 [OF refl]]]]
        d [OF oids [OF disjI2 [OF disjI2 [OF disjI1 [OF refl]]]]] d [OF oids [OF disjI2 [OF disjI2 [OF disjI2 [OF refl]]]]]
        c created
      unfolding m by (simp split del: if_split)
  qed (simp_all add: p w(1) journal_record_def fld_def coalesce_def nullish_def)
  ultimately show ?thesis using w(3) by blast
qed

definition own_journal :: "entry \<Rightarrow> nat \<Rightarrow> string \<Rightarrow> js \<Rightarrow> bool" where
  "own_journal e issue branch r \<longleftrightarrow>
     readImplementPublishJournal e = JournalRecord r
     \<and> fld r ''issue_number'' = JInt (int issue) \<and> fld r ''branch'' = JStr branch"

lemma remove_journal:
  "removeImplementPublishJournal ok e = (res, e') \<Longrightarrow> e' = e \<or> res = None \<and> e' = Missing"
  by (auto simp: removeImplementPublishJournal_def split: option.splits entry.splits if_splits)

lemma nullish_oid: "\<not> nullish v \<Longrightarrow> isOidOrNull v \<Longrightarrow> \<exists>s. v = JStr s \<and> git_object_id s"
  by (cases v) (auto simp: nullish_def isOidOrNull_def)

text \<open>
  C30. Recovery acts on its own record only: the journal goes away just when it describes this issue and branch
  and no merge is staged, everything else is preserved and refused, and a retry handle is handed out just for the
  staged merge and the feature head that the journal recorded.
\<close>

theorem recovery_preserves:
  assumes "reconcileInterruptedPublish e merge_head head unlink_ok issue branch = (ans, e')"
  shows "(e' = e \<or> e' = Missing \<and> merge_head = None \<and> (\<exists>r. own_journal e issue branch r))
    \<and> (ans = Proceed \<longrightarrow> e' = Missing \<and> (e = Missing \<or> merge_head = None \<and> (\<exists>r. own_journal e issue branch r)))
    \<and> (\<forall>h. ans = InterruptedMerge (Some h) \<longrightarrow>
         (\<exists>r m s. own_journal e issue branch r \<and> merge_head = Some m \<and> head = Some s
            \<and> fld r ''fetched_base_sha'' = JStr m \<and> fld r ''expected_merge_head'' = JStr m
            \<and> h = \<lparr>ri_record_id = fld r ''record_id'', ri_pre_sync_sha = JStr s, ri_fetched_base_sha = JStr m\<rparr>))"
proof (cases "readImplementPublishJournal e")
  case (JournalError err)
  then show ?thesis using assms by (auto simp: reconcileInterruptedPublish_def)
next
  case JournalAbsent
  then have "e = Missing" by (auto simp: readImplementPublishJournal_def split: entry.splits option.splits)
  with JournalAbsent show ?thesis using assms by (auto simp: reconcileInterruptedPublish_def)
next
  case (JournalRecord r)
  note run = assms [unfolded reconcileInterruptedPublish_def JournalRecord journal_read.case]
  show ?thesis
  proof (cases "fld r ''issue_number'' \<noteq> JInt (int issue) \<or> fld r ''branch'' \<noteq> JStr branch")
    case True
    then show ?thesis using run by auto
  next
    case False
    then have own: "own_journal e issue branch r" using JournalRecord by (simp add: own_journal_def)
    show ?thesis
    proof (cases merge_head)
      case None
      obtain res e1 where rm: "removeImplementPublishJournal unlink_ok e = (res, e1)" by (cases "removeImplementPublishJournal unlink_ok e")
      have "res = None \<Longrightarrow> e1 = Missing" using rm JournalRecord
        by (auto simp: removeImplementPublishJournal_def split: option.splits entry.splits if_splits)
      with run False None rm remove_journal [OF rm] own show ?thesis by (cases res) auto
    next
      case (Some m)
      show ?thesis
      proof (cases head)
        case None
        then have "ans = InterruptedMerge None \<and> e' = e"
          using run False Some by (auto simp: nullish_def split: if_splits)
        then show ?thesis by simp
      next
        case (Some s)
        then show ?thesis using run False \<open>merge_head = Some m\<close> own by (auto split: if_splits)
      qed
    qed
  qed
qed

text \<open>
  Writing over a journal that cannot be read back replaces it: the text that was preserved for inspection is gone.
\<close>

theorem unreadable_journal_replaced:
  assumes "readImplementPublishJournal (Regular t) = JournalError err"
    and "validateImplementPublishJournalRecord (JObj (journal_record given JUndef now)) = None"
  shows "writeImplementPublishJournal frac True now given (Regular t)
           = (Inr (JObj (journal_record given JUndef now)), Regular (Some (journal_text frac (journal_record given JUndef now))))"
  using assms by (simp add: writeImplementPublishJournal_def assertNotSymlink_def Let_def)

section \<open>Witnesses\<close>

definition sample_fields :: js where
  "sample_fields = JObj [(''issue_number'', JInt 7), (''branch'', JStr ''7-x''), (''base_branch'', JStr ''dev''),
     (''phase'', JStr ''initializing'')]"

lemma sample_record:
  "journal_record sample_fields JUndef ''t'' =
     [(''schema'', JStr journal_schema), (''record_id'', JNull), (''issue_number'', JInt 7), (''branch'', JStr ''7-x''),
      (''base_branch'', JStr ''dev''), (''pre_publish_head'', JNull), (''published_pre_sync_head'', JNull),
      (''fetched_base_sha'', JNull), (''expected_merge_head'', JNull), (''phase'', JStr ''initializing''),
      (''classification'', JStr ''in_progress''), (''created_at'', JStr ''t''), (''updated_at'', JStr ''t'')]"
  by (simp add: journal_record_def sample_fields_def merged_field_def coalesce_def nullish_def fld_def)

lemma sample_record_ok: "validateImplementPublishJournalRecord (JObj (journal_record sample_fields JUndef ''t'')) = None"
proof -
  have "unit_length ''7-x'' = 3" "unit_length ''dev'' = 3" by code_simp+
  then show ?thesis unfolding sample_record
    by (simp add: validateImplementPublishJournalRecord_def journalFieldShapeError_def journal_keys_def
        required_string_fields_def oid_or_null_fields_def bounded_text_def isOidOrNull_def is_pos_int_def is_string_def
        is_mapping_def obj_keys_def journal_classifications_def publish_phases_def)
qed

definition sample_journal :: entry where
  "sample_journal = Regular (Some (journal_text (\<lambda>p q. []) (journal_record sample_fields JUndef ''t'')))"

lemma sample_journal_written:
  "writeImplementPublishJournal (\<lambda>p q. []) True ''t'' sample_fields Missing
     = (Inr (JObj (journal_record sample_fields JUndef ''t'')), sample_journal)"
  using sample_record_ok
  by (simp add: writeImplementPublishJournal_def readImplementPublishJournal_def assertNotSymlink_def sample_journal_def Let_def)

lemma journal_write_reads_back_witness:
  "readImplementPublishJournal sample_journal = JournalRecord (JObj (journal_record sample_fields JUndef ''t''))"
  using journal_write_reads_back [OF sample_journal_written] by blast

lemma sample_journal_read:
  "readImplementPublishJournal sample_journal = JournalRecord (JObj (journal_record sample_fields JUndef ''t''))"
  using journal_text_reads [OF _ journal_record_valid [OF sample_record_ok] journal_record_names(1)] sample_record_ok
  by (simp add: readImplementPublishJournal_def sample_journal_def sample_record)

lemma recovery_preserves_witness:
  "reconcileInterruptedPublish sample_journal None None True 7 ''7-x'' = (Proceed, Missing)
   \<and> own_journal sample_journal 7 ''7-x'' (JObj (journal_record sample_fields JUndef ''t''))"
proof -
  have own: "own_journal sample_journal 7 ''7-x'' (JObj (journal_record sample_fields JUndef ''t''))"
    unfolding own_journal_def sample_journal_read sample_record by simp
  have rm: "removeImplementPublishJournal True sample_journal = (None, Missing)"
    by (simp add: removeImplementPublishJournal_def assertNotSymlink_def sample_journal_def)
  have run: "reconcileInterruptedPublish sample_journal None None True 7 ''7-x'' = (Proceed, Missing)"
    unfolding reconcileInterruptedPublish_def sample_journal_read sample_record by (simp add: rm)
  from recovery_preserves [OF run] have "\<exists>r. own_journal sample_journal 7 ''7-x'' r"
    by (simp add: sample_journal_def)
  with run own show ?thesis by blast
qed

lemma unreadable_journal_replaced_witness:
  "snd (writeImplementPublishJournal (\<lambda>p q. []) True ''t'' sample_fields (Regular (Some ''{'')))
     = Regular (Some (journal_text (\<lambda>p q. []) (journal_record sample_fields JUndef ''t'')))"
proof -
  have "json_parse ''{'' = None" by code_simp
  then have "readImplementPublishJournal (Regular (Some ''{'')) = JournalError ''journal_unparseable''"
    by (simp add: readImplementPublishJournal_def)
  from unreadable_journal_replaced [OF this sample_record_ok] show ?thesis by simp
qed

end
