(* ===== verification/CallTree.thy ===== *)
theory CallTree
  imports Prelude
begin

text \<open>
  Operations that wait for services. An \<open>async\<close> function of the code is a tree: it returns, throws, or
  asks a service and continues with the answer. Many such calls run at once, in one server and in
  others, and between any two requests of one call anything may happen to the services; a pool of calls
  interleaves their requests one at a time.

  \<open>keeps\<close> is the proof obligation of one call: whatever the others have done to the service before each of
  its requests, the request keeps the service's invariant, and the result satisfies its postcondition. The
  locale \<open>shared_service\<close> holds the rules for composing it and shows what a pool of such calls keeps.
\<close>

section \<open>Calls\<close>

datatype ('q, 'a, 'r) calls = Return 'r | Throw | Ask 'q "'a \<Rightarrow> ('q, 'a, 'r) calls"

text \<open>\<open>await\<close> of a call, then what follows it; \<open>try ... catch\<close>.\<close>

primrec await :: "('q, 'a, 'r) calls \<Rightarrow> ('r \<Rightarrow> ('q, 'a, 's) calls) \<Rightarrow> ('q, 'a, 's) calls" where
  "await (Return r) f = f r"
| "await Throw f = Throw"
| "await (Ask q k) f = Ask q (\<lambda>a. await (k a) f)"

primrec catching :: "('q, 'a, 'r) calls \<Rightarrow> ('q, 'a, 'r) calls \<Rightarrow> ('q, 'a, 'r) calls" where
  "catching (Return r) h = Return r"
| "catching Throw h = h"
| "catching (Ask q k) h = Ask q (\<lambda>a. catching (k a) h)"

text \<open>Running a call alone against a service that answers from its state.\<close>

primrec run_calls :: "('q \<Rightarrow> 's \<Rightarrow> 'a \<times> 's) \<Rightarrow> ('q, 'a, 'r) calls \<Rightarrow> 's \<Rightarrow> 'r option \<times> 's" where
  "run_calls serve (Return r) s = (Some r, s)"
| "run_calls serve Throw s = (None, s)"
| "run_calls serve (Ask q k) s = run_calls serve (k (fst (serve q s))) (snd (serve q s))"

lemma await_assoc: "await (await p f) g = await p (\<lambda>x. await (f x) g)"
  by (induction p) simp_all

lemma run_await: "run_calls serve (await p f) s = (case run_calls serve p s of
    (Some r, t) \<Rightarrow> run_calls serve (f r) t | (None, t) \<Rightarrow> (None, t))"
  by (induction p arbitrary: s) simp_all

lemma run_catching: "run_calls serve (catching p h) s = (case run_calls serve p s of
    (Some r, t) \<Rightarrow> (Some r, t) | (None, t) \<Rightarrow> run_calls serve h t)"
  by (induction p arbitrary: s) simp_all

section \<open>What a call keeps\<close>

text \<open>
  \<open>serve w q a w'\<close>: in state \<open>w\<close> the service may answer the request \<open>q\<close> with \<open>a\<close>, leaving \<open>w'\<close>.
  \<open>good\<close> is the invariant of the service, \<open>later w w'\<close> what everybody's steps do to it. A postcondition
  gets \<open>None\<close> for a call that throws.
\<close>

primrec keeps ::
  "('w \<Rightarrow> 'q \<Rightarrow> 'a \<Rightarrow> 'w \<Rightarrow> bool) \<Rightarrow> ('w \<Rightarrow> bool) \<Rightarrow> ('w \<Rightarrow> 'w \<Rightarrow> bool) \<Rightarrow> ('r option \<Rightarrow> 'w \<Rightarrow> bool)
     \<Rightarrow> ('q, 'a, 'r) calls \<Rightarrow> 'w \<Rightarrow> bool" where
  "keeps serve good later Q (Return r) w \<longleftrightarrow> (\<forall>v. later w v \<longrightarrow> good v \<longrightarrow> Q (Some r) v)"
| "keeps serve good later Q Throw w \<longleftrightarrow> (\<forall>v. later w v \<longrightarrow> good v \<longrightarrow> Q None v)"
| "keeps serve good later Q (Ask q k) w \<longleftrightarrow>
     (\<forall>v a u. later w v \<longrightarrow> good v \<longrightarrow> serve v q a u \<longrightarrow> good u \<and> later v u \<and> keeps serve good later Q (k a) u)"

section \<open>Pools\<close>

text \<open>
  The calls in progress, by number, each with the input it was started with. A step starts a call, answers
  one request of one call, or changes the service from outside.
\<close>

inductive pool_step ::
  "('w \<Rightarrow> 'q \<Rightarrow> 'a \<Rightarrow> 'w \<Rightarrow> bool) \<Rightarrow> ('w \<Rightarrow> 'w \<Rightarrow> bool) \<Rightarrow> ('i \<Rightarrow> ('q, 'a, 'r) calls)
     \<Rightarrow> 'w \<times> (nat \<Rightarrow> ('i \<times> ('q, 'a, 'r) calls) option) \<Rightarrow> 'w \<times> (nat \<Rightarrow> ('i \<times> ('q, 'a, 'r) calls) option) \<Rightarrow> bool"
  for serve outside start where
  start_call: "ps n = None \<Longrightarrow> pool_step serve outside start (w, ps) (w, ps(n \<mapsto> (i, start i)))"
| answer_call: "ps n = Some (i, Ask q k) \<Longrightarrow> serve w q a v \<Longrightarrow>
    pool_step serve outside start (w, ps) (v, ps(n \<mapsto> (i, k a)))"
| outside_step: "outside w v \<Longrightarrow> pool_step serve outside start (w, ps) (v, ps)"

definition idle :: "nat \<Rightarrow> ('i \<times> ('q, 'a, 'r) calls) option" where
  "idle = (\<lambda>n. None)"

definition pool_reaches ::
  "('w \<Rightarrow> 'q \<Rightarrow> 'a \<Rightarrow> 'w \<Rightarrow> bool) \<Rightarrow> ('w \<Rightarrow> 'w \<Rightarrow> bool) \<Rightarrow> ('i \<Rightarrow> ('q, 'a, 'r) calls)
     \<Rightarrow> 'w \<times> (nat \<Rightarrow> ('i \<times> ('q, 'a, 'r) calls) option) \<Rightarrow> 'w \<times> (nat \<Rightarrow> ('i \<times> ('q, 'a, 'r) calls) option) \<Rightarrow> bool" where
  "pool_reaches serve outside start = (pool_step serve outside start)\<^sup>*\<^sup>*"

text \<open>A call that runs alone is one way for the pool to go.\<close>

lemma pool_runs:
  assumes "\<And>q w. serve w q (fst (f q w)) (snd (f q w))"
  shows "run_calls f p w = (Some r, v) \<Longrightarrow> ps n = Some (i, p) \<Longrightarrow>
    pool_reaches serve outside start (w, ps) (v, ps(n \<mapsto> (i, Return r)))"
  unfolding pool_reaches_def
proof (induction p arbitrary: w ps)
  case (Ask q k)
  let ?u = "snd (f q w)" and ?a = "fst (f q w)"
  have "pool_step serve outside start (w, ps) (?u, ps(n \<mapsto> (i, k ?a)))" using Ask.prems(2) assms by (rule answer_call)
  moreover have "(pool_step serve outside start)\<^sup>*\<^sup>* (?u, ps(n \<mapsto> (i, k ?a))) (v, (ps(n \<mapsto> (i, k ?a)))(n \<mapsto> (i, Return r)))"
    using Ask.prems(1) by (intro Ask.IH) simp_all
  ultimately show ?case unfolding fun_upd_upd by (rule converse_rtranclp_into_rtranclp)
qed (simp_all add: fun_upd_idem)

lemma pool_started:
  assumes "\<And>q w. serve w q (fst (f q w)) (snd (f q w))" and "run_calls f (start i) w = (Some r, v)" and "ps n = None"
  shows "pool_reaches serve outside start (w, ps) (v, ps(n \<mapsto> (i, Return r)))"
proof -
  have "pool_reaches serve outside start (w, ps(n \<mapsto> (i, start i))) (v, (ps(n \<mapsto> (i, start i)))(n \<mapsto> (i, Return r)))"
    using assms(1,2) by (rule pool_runs) simp
  moreover have "pool_step serve outside start (w, ps) (w, ps(n \<mapsto> (i, start i)))" using assms(3) by (rule start_call)
  ultimately show ?thesis unfolding pool_reaches_def by (simp add: converse_rtranclp_into_rtranclp)
qed

section \<open>The rules\<close>

locale shared_service =
  fixes serve :: "'w \<Rightarrow> 'q \<Rightarrow> 'a \<Rightarrow> 'w \<Rightarrow> bool"
    and good :: "'w \<Rightarrow> bool"
    and later :: "'w \<Rightarrow> 'w \<Rightarrow> bool"
    and outside :: "'w \<Rightarrow> 'w \<Rightarrow> bool"
  assumes later_refl: "later w w"
    and later_trans: "later u v \<Longrightarrow> later v w \<Longrightarrow> later u w"
    and outside_keeps: "good w \<Longrightarrow> outside w v \<Longrightarrow> good v \<and> later w v"
begin

lemma keeps_later: "keeps serve good later Q p w \<Longrightarrow> later w v \<Longrightarrow> keeps serve good later Q p v"
  by (cases p) (auto intro: later_trans)

lemma keeps_weaken:
  "keeps serve good later P p w \<Longrightarrow> (\<And>r v. later w v \<Longrightarrow> good v \<Longrightarrow> P r v \<Longrightarrow> Q r v) \<Longrightarrow> keeps serve good later Q p w"
proof (induction p arbitrary: w)
  case (Ask q k)
  show ?case
  unfolding keeps.simps
  proof (intro allI impI)
    fix v a u assume v: "later w v" "good v" "serve v q a u"
    then have u: "good u" "later v u" "keeps serve good later P (k a) u" using Ask.prems(1) by auto
    have "later w u" using v(1) u(2) by (rule later_trans)
    then have "keeps serve good later Q (k a) u"
      using Ask.prems(2) u by (intro Ask.IH) (auto intro: later_trans)
    with u show "good u \<and> later v u \<and> keeps serve good later Q (k a) u" by blast
  qed
qed simp_all

lemma keeps_return: "(\<And>v. later w v \<Longrightarrow> good v \<Longrightarrow> Q (Some r) v) \<Longrightarrow> keeps serve good later Q (Return r) w"
  by simp

lemma keeps_throw: "(\<And>v. later w v \<Longrightarrow> good v \<Longrightarrow> Q None v) \<Longrightarrow> keeps serve good later Q Throw w"
  by simp

lemma keeps_ask:
  "(\<And>v a u. later w v \<Longrightarrow> good v \<Longrightarrow> serve v q a u \<Longrightarrow> good u \<and> later v u \<and> keeps serve good later Q (k a) u)
     \<Longrightarrow> keeps serve good later Q (Ask q k) w"
  by simp

text \<open>A request that does not change the service.\<close>

lemma keeps_query:
  assumes "\<And>v a u. serve v q a u \<Longrightarrow> u = v"
    and "\<And>v a. later w v \<Longrightarrow> good v \<Longrightarrow> serve v q a v \<Longrightarrow> keeps serve good later Q (k a) v"
  shows "keeps serve good later Q (Ask q k) w"
  using assms later_refl by (intro keeps_ask) blast

lemma keeps_await:
  assumes "keeps serve good later P p w" and "good w"
    and "\<And>x v. later w v \<Longrightarrow> good v \<Longrightarrow> P (Some x) v \<Longrightarrow> keeps serve good later Q (f x) v"
    and "\<And>v. later w v \<Longrightarrow> good v \<Longrightarrow> P None v \<Longrightarrow> Q None v"
  shows "keeps serve good later Q (await p f) w"
  using assms
proof (induction p arbitrary: w)
  case (Return r)
  then show ?case using later_refl by simp
next
  case Throw
  then show ?case by simp
next
  case (Ask q k)
  show ?case unfolding await.simps
  proof (rule keeps_ask)
    fix v a u assume v: "later w v" "good v" "serve v q a u"
    then have u: "good u" "later v u" "keeps serve good later P (k a) u" using Ask.prems(1) by auto
    have "later w u" using v(1) u(2) by (rule later_trans)
    then have "keeps serve good later Q (await (k a) f) u"
      using Ask.prems(3,4) u by (intro Ask.IH) (auto intro: later_trans)
    with u show "good u \<and> later v u \<and> keeps serve good later Q (await (k a) f) u" by blast
  qed
qed

lemma keeps_catching:
  assumes "keeps serve good later P p w" and "good w"
    and "\<And>x v. later w v \<Longrightarrow> good v \<Longrightarrow> P (Some x) v \<Longrightarrow> Q (Some x) v"
    and "\<And>v. later w v \<Longrightarrow> good v \<Longrightarrow> P None v \<Longrightarrow> keeps serve good later Q h v"
  shows "keeps serve good later Q (catching p h) w"
  using assms
proof (induction p arbitrary: w)
  case Throw
  then show ?case using later_refl by simp
next
  case (Ask q k)
  show ?case unfolding catching.simps
  proof (rule keeps_ask)
    fix v a u assume v: "later w v" "good v" "serve v q a u"
    then have u: "good u" "later v u" "keeps serve good later P (k a) u" using Ask.prems(1) by auto
    have "later w u" using v(1) u(2) by (rule later_trans)
    then have "keeps serve good later Q (catching (k a) h) u"
      using Ask.prems(3,4) u by (intro Ask.IH) (auto intro: later_trans)
    with u show "good u \<and> later v u \<and> keeps serve good later Q (catching (k a) h) u" by blast
  qed
qed simp

text \<open>Every call of a pool keeps what it promises, and so the pool keeps the invariant.\<close>

lemma pool_step_keeps:
  assumes "pool_step serve outside start s t"
    and "\<And>i w. good w \<Longrightarrow> keeps serve good later (Q i) (start i) w"
    and "good (fst s)" and "\<And>n i p. snd s n = Some (i, p) \<Longrightarrow> keeps serve good later (Q i) p (fst s)"
  shows "good (fst t) \<and> later (fst s) (fst t)
    \<and> (\<forall>n i p. snd t n = Some (i, p) \<longrightarrow> keeps serve good later (Q i) p (fst t))"
  using assms(1)
proof (cases rule: pool_step.cases)
  case (start_call ps n w i)
  then show ?thesis using assms(2-4) later_refl by auto
next
  case (answer_call ps n i q k w a v)
  then have "keeps serve good later (Q i) (Ask q k) w" using assms(4) [of n i "Ask q k"] by simp
  then have v: "good v" "later w v" "keeps serve good later (Q i) (k a) v"
    using answer_call assms(3) later_refl by auto
  then show ?thesis using answer_call assms(4) by (auto intro: keeps_later)
next
  case (outside_step w v ps)
  then have "good v \<and> later w v" using assms(3) by (intro outside_keeps) simp_all
  then show ?thesis using outside_step assms(4) by (auto intro: keeps_later)
qed

lemma pool_keeps:
  assumes "pool_reaches serve outside start s t"
    and "\<And>i w. good w \<Longrightarrow> keeps serve good later (Q i) (start i) w"
    and "good (fst s)" and "\<And>n i p. snd s n = Some (i, p) \<Longrightarrow> keeps serve good later (Q i) p (fst s)"
  shows "good (fst t) \<and> later (fst s) (fst t)
    \<and> (\<forall>n i p. snd t n = Some (i, p) \<longrightarrow> keeps serve good later (Q i) p (fst t))"
  using assms(1) unfolding pool_reaches_def
proof (induction rule: rtranclp_induct)
  case base
  then show ?case using assms(3,4) later_refl by blast
next
  case (step t u)
  have "good (fst u) \<and> later (fst t) (fst u)
      \<and> (\<forall>n i p. snd u n = Some (i, p) \<longrightarrow> keeps serve good later (Q i) p (fst u))"
    using step.hyps(2) assms(2) step.IH by (intro pool_step_keeps) blast+
  then show ?case using step.IH later_trans by blast
qed

lemma pool_result:
  assumes "pool_reaches serve outside start (w, idle) (v, ps)"
    and "\<And>i w. good w \<Longrightarrow> keeps serve good later (Q i) (start i) w"
    and "good w" and "ps n = Some (i, Return r)"
  shows "Q i (Some r) v"
proof -
  have "good v \<and> (\<forall>n i p. ps n = Some (i, p) \<longrightarrow> keeps serve good later (Q i) p v)"
    using pool_keeps [OF assms(1,2)] assms(3) by (simp add: idle_def)
  then show ?thesis using assms(4) later_refl by fastforce
qed

end

section \<open>Traces\<close>

text \<open>The requests a call made and their answers, up to its return or its exception (\<open>None\<close>).\<close>

primrec trace :: "('q, 'a, 'r) calls \<Rightarrow> ('q \<times> 'a) list \<Rightarrow> 'r option \<Rightarrow> bool" where
  "trace (Return r) t x \<longleftrightarrow> t = [] \<and> x = Some r"
| "trace Throw t x \<longleftrightarrow> t = [] \<and> x = None"
| "trace (Ask q k) t x \<longleftrightarrow> (\<exists>a u. t = (q, a) # u \<and> trace (k a) u x)"

lemma trace_await:
  "trace (await p f) t y \<longleftrightarrow> (trace p t None \<and> y = None)
     \<or> (\<exists>t1 t2 x. t = t1 @ t2 \<and> trace p t1 (Some x) \<and> trace (f x) t2 y)"
proof (induction p arbitrary: t)
  case (Ask q k)
  show ?case
  proof
    assume "trace (await (Ask q k) f) t y"
    then obtain a u where u: "t = (q, a) # u" "trace (await (k a) f) u y" by auto
    from u(2) Ask [OF rangeI, of a u] have "(trace (k a) u None \<and> y = None) \<or> (\<exists>t1 t2 x. u = t1 @ t2 \<and> trace (k a) t1 (Some x) \<and> trace (f x) t2 y)"
      by blast
    then show "(trace (Ask q k) t None \<and> y = None) \<or> (\<exists>t1 t2 x. t = t1 @ t2 \<and> trace (Ask q k) t1 (Some x) \<and> trace (f x) t2 y)"
    proof (elim disjE exE conjE)
      fix t1 t2 x assume "u = t1 @ t2" "trace (k a) t1 (Some x)" "trace (f x) t2 y"
      then have "t = ((q, a) # t1) @ t2 \<and> trace (Ask q k) ((q, a) # t1) (Some x) \<and> trace (f x) t2 y" using u(1) by simp
      then show ?thesis by blast
    qed (use u(1) in simp)
  next
    assume "(trace (Ask q k) t None \<and> y = None) \<or> (\<exists>t1 t2 x. t = t1 @ t2 \<and> trace (Ask q k) t1 (Some x) \<and> trace (f x) t2 y)"
    then show "trace (await (Ask q k) f) t y"
    proof (elim disjE exE conjE)
      fix t1 t2 x assume t: "t = t1 @ t2" "trace (Ask q k) t1 (Some x)" "trace (f x) t2 y"
      then obtain a u where "t1 = (q, a) # u" "trace (k a) u (Some x)" by auto
      then show ?thesis using t Ask [OF rangeI, of a "u @ t2"] by auto
    next
      assume t: "trace (Ask q k) t None" "y = None"
      then obtain a u where "t = (q, a) # u" "trace (k a) u None" by auto
      then show ?thesis using t Ask [OF rangeI, of a u] by auto
    qed
  qed
qed auto

lemma trace_awaitE:
  assumes "trace (await p f) t y" and "\<And>u. \<not> trace p u None"
  obtains t1 t2 x where "t = t1 @ t2" "trace p t1 (Some x)" "trace (f x) t2 y"
  using assms unfolding trace_await by blast

lemma trace_awaitI: "trace p t1 (Some x) \<Longrightarrow> trace (f x) t2 y \<Longrightarrow> trace (await p f) (t1 @ t2) y"
  unfolding trace_await by blast

lemma trace_catching:
  "trace (catching p h) t y \<Longrightarrow>
     (y \<noteq> None \<and> trace p t y) \<or> (\<exists>t1 t2. t = t1 @ t2 \<and> trace p t1 None \<and> trace h t2 y)"
proof (induction p arbitrary: t)
  case (Ask q k)
  then obtain a u where u: "t = (q, a) # u" "trace (catching (k a) h) u y" by auto
  from Ask.IH [OF rangeI u(2)] show ?case
  proof (elim disjE exE conjE)
    fix t1 t2 assume "u = t1 @ t2" "trace (k a) t1 None" "trace h t2 y"
    then have "t = ((q, a) # t1) @ t2 \<and> trace (Ask q k) ((q, a) # t1) None \<and> trace h t2 y" using u(1) by simp
    then show ?thesis by blast
  qed (use u(1) in simp)
qed auto

text \<open>A run alone is a trace.\<close>

lemma run_traced: "\<exists>t. trace p t (fst (run_calls serve p w))"
proof (induction p arbitrary: w)
  case (Ask q k)
  from Ask [OF rangeI, of "fst (serve q w)" "snd (serve q w)"] show ?case by auto
qed auto

end
