(* ===== verification/ReleaseConfig.thy ===== *)
theory ReleaseConfig
  imports Json
begin

text \<open>
  Release families (\<open>lib/release-identity-config.js\<close>): the template grammar, the normalizer of the
  \<open>release_families\<close> configuration, and the rendering of a version and its paths at a sequence number.

  A configuration error is the code of the check that found it; the prose and the field name are
  left out. SHA-256 is a parameter.
\<close>

section \<open>Names\<close>

definition lower_or_digit :: "char \<Rightarrow> bool" where
  "lower_or_digit c \<longleftrightarrow> is_lower c \<or> is_digit c"

definition release_family_name :: "string \<Rightarrow> bool" where
  "release_family_name s = (case s of
      [] \<Rightarrow> False
    | c # r \<Rightarrow> lower_or_digit c \<and> length r \<le> 39 \<and> list_all (\<lambda>d. lower_or_digit d \<or> d = CHR ''-'') r)"

definition path_key :: "string \<Rightarrow> bool" where
  "path_key s = (case s of
      [] \<Rightarrow> False
    | c # r \<Rightarrow> is_lower c \<and> length r \<le> 39 \<and> list_all (\<lambda>d. lower_or_digit d \<or> d = CHR ''_'') r)"

definition alnum :: "char \<Rightarrow> bool" where
  "alnum c \<longleftrightarrow> is_digit c \<or> is_lower c \<or> is_upper c"

definition version_char :: "char \<Rightarrow> bool" where
  "version_char c \<longleftrightarrow> alnum c \<or> c = CHR ''.'' \<or> c = CHR ''_'' \<or> c = CHR ''+'' \<or> c = CHR ''-''"

definition path_char :: "char \<Rightarrow> bool" where
  "path_char c \<longleftrightarrow> alnum c \<or> c = CHR ''.'' \<or> c = CHR ''_'' \<or> c = CHR ''/'' \<or> c = CHR ''-''"

text \<open>\<open>s.includes(p)\<close>.\<close>

fun contains_text :: "string \<Rightarrow> string \<Rightarrow> bool" where
  "contains_text p [] = (p = [])"
| "contains_text p (c # s) = (starts_with p (c # s) \<or> contains_text p s)"

definition isSafeGitRefName :: "js \<Rightarrow> bool" where
  "isSafeGitRefName v = (case v of
      JStr s \<Rightarrow>
        s \<noteq> [] \<and> list_all path_char s \<and> \<not> starts_with ''-'' s
        \<and> \<not> starts_with ''/'' s \<and> \<not> ends_with ''/'' s \<and> \<not> starts_with ''.'' s \<and> \<not> ends_with ''.'' s
        \<and> \<not> ends_with ''.lock'' s \<and> \<not> contains_text ''..'' s \<and> \<not> contains_text ''//'' s
        \<and> list_all (\<lambda>p. p \<noteq> [] \<and> \<not> starts_with ''.'' p \<and> \<not> ends_with ''.'' p \<and> \<not> ends_with ''.lock'' p)
            (split_on (CHR ''/'') s)
    | _ \<Rightarrow> False)"

definition release_sequence_max :: int where "release_sequence_max = 1000000000"
definition release_version_max :: int where "release_version_max = 64"
definition release_rendered_path_max :: int where "release_rendered_path_max = 480"
definition max_families :: int where "max_families = 32"
definition max_paths :: int where "max_paths = 16"
definition max_version_template :: int where "max_version_template = 64"
definition max_path_template :: int where "max_path_template = 240"

section \<open>Templates\<close>

datatype part = Literal string | SequenceOffset int | VersionPart

definition not_brace :: "char \<Rightarrow> bool" where
  "not_brace c \<longleftrightarrow> c \<noteq> CHR ''{'' \<and> c \<noteq> CHR ''}''"

text \<open>The next match of \<open>TOKEN_RE\<close>: what precedes it, its body, what follows it.\<close>

fun next_token :: "string \<Rightarrow> (string \<times> string \<times> string) option" where
  "next_token [] = None"
| "next_token (c # cs) =
     (if c = CHR ''{'' \<and> (case dropWhile not_brace cs of d # _ \<Rightarrow> d = CHR ''}'' | [] \<Rightarrow> False)
      then Some ([], takeWhile not_brace cs, tl (dropWhile not_brace cs))
      else map_option (\<lambda>(pre, body, rest). (c # pre, body, rest)) (next_token cs))"

definition offset_of :: "string \<Rightarrow> int option" where
  "offset_of body =
     (if body = ''sequence'' then Some 0
      else case lit ''sequence'' body of
        Some (sg # d # ds) \<Rightarrow>
          if (sg = CHR ''+'' \<or> sg = CHR ''-'') \<and> is_digit d \<and> d \<noteq> CHR ''0''
             \<and> length ds \<le> 3 \<and> list_all is_digit ds
          then Some (if sg = CHR ''-'' then - int (dec_val (d # ds)) else int (dec_val (d # ds)))
          else None
      | _ \<Rightarrow> None)"

definition token_of :: "bool \<Rightarrow> string \<Rightarrow> part option" where
  "token_of allowVersion body = (case offset_of body of
      Some k \<Rightarrow> Some (SequenceOffset k)
    | None \<Rightarrow> if allowVersion \<and> body = ''version'' then Some VersionPart else None)"

lemma next_token_length: "next_token s = Some (pre, body, rest) \<Longrightarrow> length rest < length s"
proof (induction s arbitrary: pre)
  case (Cons c cs)
  have "length (tl (dropWhile not_brace cs)) \<le> length cs"
    by (metis diff_le_self le_trans length_dropWhile_le length_tl)
  with Cons show ?case by (auto split: if_splits)
qed simp

text \<open>The loop over the matches; \<open>None\<close> where a token is unsupported.\<close>

function split_template :: "bool \<Rightarrow> string \<Rightarrow> part list option" where
  "split_template allowVersion t =
     (case next_token t of
        None \<Rightarrow> Some [Literal t]
      | Some (pre, body, rest) \<Rightarrow>
          (case token_of allowVersion body of
             None \<Rightarrow> None
           | Some tok \<Rightarrow> map_option (\<lambda>ps. Literal pre # tok # ps) (split_template allowVersion rest)))"
  by pat_completeness auto
termination
  by (relation "measure (\<lambda>(b, t). length t)") (auto dest: next_token_length)

declare split_template.simps [simp del]

definition literal_ok :: "(char \<Rightarrow> bool) \<Rightarrow> part \<Rightarrow> bool" where
  "literal_ok P p = (case p of Literal s \<Rightarrow> list_all P s | _ \<Rightarrow> True)"

definition is_literal :: "part \<Rightarrow> bool" where
  "is_literal p = (case p of Literal _ \<Rightarrow> True | _ \<Rightarrow> False)"

definition parseTemplate :: "bool \<Rightarrow> string \<Rightarrow> string + part list" where
  "parseTemplate allowVersion t =
     (case split_template allowVersion t of
        None \<Rightarrow> Inl ''unsupported_token''
      | Some ps \<Rightarrow> if list_all (literal_ok not_brace) ps then Inr ps else Inl ''unbalanced_braces'')"

definition render_part :: "int \<Rightarrow> string \<Rightarrow> part \<Rightarrow> string" where
  "render_part sequence version p = (case p of
      Literal s \<Rightarrow> s | VersionPart \<Rightarrow> version | SequenceOffset k \<Rightarrow> show_int (sequence + k))"

definition renderParts :: "part list \<Rightarrow> int \<Rightarrow> string \<Rightarrow> string" where
  "renderParts ps sequence version = concat (map (render_part sequence version) ps)"

definition offsets :: "part list \<Rightarrow> int list" where
  "offsets ps = concat (map (\<lambda>p. case p of SequenceOffset k \<Rightarrow> [k] | _ \<Rightarrow> []) ps)"

definition smallestOffset :: "part list \<Rightarrow> int" where
  "smallestOffset ps = fold min (offsets ps) 0"

definition largestOffset :: "part list \<Rightarrow> int" where
  "largestOffset ps = fold max (offsets ps) 0"

definition rendersBelowOne :: "part list \<Rightarrow> js \<Rightarrow> bool" where
  "rendersBelowOne ps floor = (case floor of JInt n \<Rightarrow> n + smallestOffset ps < 1 | _ \<Rightarrow> False)"

section \<open>Paths\<close>

definition isSafeRepoRelativePath :: "string \<Rightarrow> bool" where
  "isSafeRepoRelativePath p \<longleftrightarrow>
     list_all path_char p \<and> \<not> starts_with ''/'' p \<and> \<not> ends_with ''/'' p
     \<and> list_all (\<lambda>s. s \<noteq> [] \<and> s \<noteq> ''.'' \<and> s \<noteq> ''..'' \<and> lower s \<noteq> ''.git'') (split_on (CHR ''/'') p)"

definition isSafeRenderedReleasePath :: "js \<Rightarrow> bool" where
  "isSafeRenderedReleasePath v = (case v of
      JStr p \<Rightarrow> int (unit_length p) \<le> release_rendered_path_max \<and> isSafeRepoRelativePath p | _ \<Rightarrow> False)"

definition pathsOverlap :: "string \<Rightarrow> string \<Rightarrow> bool" where
  "pathsOverlap a b \<longleftrightarrow> a = b \<or> starts_with (b @ ''/'') a \<or> starts_with (a @ ''/'') b"

fun releasePathsConflict :: "string list \<Rightarrow> bool" where
  "releasePathsConflict [] = False"
| "releasePathsConflict (a # ps) = (list_ex (pathsOverlap a) ps \<or> releasePathsConflict ps)"

definition releasePathSetsOverlap :: "string list \<Rightarrow> string list \<Rightarrow> bool" where
  "releasePathSetsOverlap left right = list_ex (\<lambda>a. list_ex (pathsOverlap a) right) left"

section \<open>Families\<close>

definition validateVersionTemplate :: "js \<Rightarrow> js \<Rightarrow> string list" where
  "validateVersionTemplate raw floor =
     (case raw of
        JStr t \<Rightarrow>
          if t = [] \<or> int (unit_length t) > max_version_template then [''version_template_length'']
          else (case parseTemplate False t of
             Inl e \<Rightarrow> [e]
           | Inr ps \<Rightarrow>
               if length (filter (\<lambda>p. \<not> is_literal p) ps) \<noteq> 1 then [''version_template_tokens'']
               else if \<not> list_all (literal_ok version_char) ps then [''version_template_literals'']
               else if rendersBelowOne ps floor then [''version_template_below_one''] else [])
      | _ \<Rightarrow> [''version_template_length''])"

definition validatePathTemplate :: "js \<Rightarrow> js \<Rightarrow> string list" where
  "validatePathTemplate raw floor =
     (case raw of
        JStr t \<Rightarrow>
          if t = [] \<or> int (unit_length t) > max_path_template then [''path_template_length'']
          else (case parseTemplate True t of
             Inl e \<Rightarrow> [e]
           | Inr ps \<Rightarrow>
               if list_all is_literal ps then [''path_template_token'']
               else if \<not> isSafeRepoRelativePath (renderParts ps 1 ''1'') then [''path_template_unsafe'']
               else if rendersBelowOne ps floor then [''path_template_below_one''] else [])
      | _ \<Rightarrow> [''path_template_length''])"

definition validatePaths :: "js \<Rightarrow> js \<Rightarrow> string list" where
  "validatePaths raw floor =
     (case raw of
        JObj fs \<Rightarrow>
          (if fs = [] \<or> int (length fs) > max_paths then [''paths_count''] else [])
          @ concat (map (\<lambda>(k, v). if path_key k then validatePathTemplate v floor else [''path_key'']) fs)
      | _ \<Rightarrow> [''paths_mapping''])"

record family =
  fam_base_branch :: string
  fam_sequence_floor :: int
  fam_version_template :: string
  fam_paths :: "(string \<times> string) list"

definition family_js :: "family \<Rightarrow> js" where
  "family_js f = JObj [(''base_branch'', JStr (fam_base_branch f)), (''sequence_floor'', JInt (fam_sequence_floor f)),
     (''version_template'', JStr (fam_version_template f)),
     (''paths'', JObj (map (\<lambda>(k, t). (k, JStr t)) (fam_paths f)))]"

text \<open>The parts of a template that has been accepted.\<close>

definition template_parts :: "bool \<Rightarrow> string \<Rightarrow> part list" where
  "template_parts allowVersion t = (case parseTemplate allowVersion t of Inr ps \<Rightarrow> ps | Inl _ \<Rightarrow> [])"

definition releaseSequenceRenderable :: "family \<Rightarrow> js \<Rightarrow> bool" where
  "releaseSequenceRenderable f sequence = (case sequence of
      JInt n \<Rightarrow> 1 \<le> n \<and> list_all (\<lambda>t. let ps = template_parts True t
                in 1 \<le> n + smallestOffset ps \<and> n + largestOffset ps \<le> release_sequence_max)
              (fam_version_template f # map snd (fam_paths f))
    | _ \<Rightarrow> False)"

record release_identity =
  rid_sequence :: int
  rid_version :: string
  rid_paths :: "(string \<times> string) list"

definition renderReleaseIdentity :: "family \<Rightarrow> int \<Rightarrow> release_identity" where
  "renderReleaseIdentity f sequence =
     (let version = renderParts (template_parts False (fam_version_template f)) sequence []
      in \<lparr>rid_sequence = sequence, rid_version = version,
          rid_paths = map (\<lambda>(k, t). (k, renderParts (template_parts True t) sequence version)) (fam_paths f)\<rparr>)"

definition family_keys :: "string list" where
  "family_keys = [''base_branch'', ''sequence_floor'', ''version_template'', ''paths'']"

definition text_of :: "js \<Rightarrow> string" where
  "text_of v = (case v of JStr s \<Rightarrow> s | _ \<Rightarrow> [])"

definition normalizeFamily :: "js \<Rightarrow> js \<Rightarrow> string list + family" where
  "normalizeFamily raw defaultBaseBranch =
     (if \<not> is_mapping raw then Inl [''family_mapping'']
      else
        (let baseBranch = coalesce (fld raw ''base_branch'') defaultBaseBranch;
             floor = fld raw ''sequence_floor'';
             errors = map (\<lambda>k. ''family_unknown_key'') (filter (\<lambda>k. k \<notin> set family_keys) (obj_keys raw))
               @ (if isSafeGitRefName baseBranch then [] else [''base_branch''])
               @ (case floor of JInt n \<Rightarrow> if n < 1 \<or> n > release_sequence_max then [''sequence_floor''] else []
                    | _ \<Rightarrow> [''sequence_floor''])
               @ validateVersionTemplate (fld raw ''version_template'') floor
               @ validatePaths (fld raw ''paths'') floor
         in if errors \<noteq> [] then Inl errors
            else
              (let f = \<lparr>fam_base_branch = text_of baseBranch, fam_sequence_floor = the (as_int floor),
                        fam_version_template = text_of (fld raw ''version_template''),
                        fam_paths = (case fld raw ''paths'' of JObj fs \<Rightarrow> map (\<lambda>(k, v). (k, text_of v)) fs | _ \<Rightarrow> [])\<rparr>
               in if \<not> releaseSequenceRenderable f floor then Inl [''family_unrenderable'']
                  else
                    (let atFloor = renderReleaseIdentity f (fam_sequence_floor f)
                     in if int (unit_length (rid_version atFloor)) > release_version_max then Inl [''version_length'']
                        else if \<not> list_all (\<lambda>(k, p). isSafeRenderedReleasePath (JStr p)) (rid_paths atFloor)
                        then Inl [''rendered_path'']
                        else if releasePathsConflict (map snd (rid_paths atFloor)) then Inl [''paths_conflict'']
                        else Inr f))))"

fun normalize_entries :: "js \<Rightarrow> (string \<times> js) list \<Rightarrow> string list \<times> (string \<times> family) list" where
  "normalize_entries d [] = ([], [])"
| "normalize_entries d ((name, raw) # rest) =
     (let (errors, entries) = normalize_entries d rest
      in if \<not> release_family_name name then (''family_name'' # errors, entries)
         else (case normalizeFamily raw d of
             Inl es \<Rightarrow> (es @ errors, entries)
           | Inr f \<Rightarrow> (errors, (name, f) # entries)))"

definition normalizeReleaseFamiliesConfig :: "js \<Rightarrow> js \<Rightarrow> string list + (string \<times> family) list" where
  "normalizeReleaseFamiliesConfig raw defaultBaseBranch =
     (if nullish raw then Inr []
      else case raw of
        JObj fs \<Rightarrow>
          if int (length fs) > max_families then Inl [''families_count'']
          else (case normalize_entries defaultBaseBranch fs of
                  ([], entries) \<Rightarrow> Inr entries | (errors, _) \<Rightarrow> Inl errors)
      | _ \<Rightarrow> Inl [''families_mapping''])"

text \<open>Path keys are ASCII, where code-unit order is the order of characters.\<close>

definition releaseFamilyDigest :: "(string \<Rightarrow> string) \<Rightarrow> family \<Rightarrow> string" where
  "releaseFamilyDigest sha256 f =
     sha256 (json_text (\<lambda>p q. []) (family_js (f\<lparr>fam_paths := sort_key fst (fam_paths f)\<rparr>)))"

section \<open>Distinct identities\<close>

lemma show_int_nat: "1 \<le> i \<Longrightarrow> show_int i = show_nat (nat i)"
  by (simp add: show_int_def)

lemma length_show_int_mono: "1 \<le> i \<Longrightarrow> i \<le> j \<Longrightarrow> length (show_int i) \<le> length (show_int j)"
  by (simp add: show_int_nat length_show_nat_mono)

lemma show_int_pos_inj: "1 \<le> i \<Longrightarrow> 1 \<le> j \<Longrightarrow> show_int i = show_int j \<longleftrightarrow> i = j"
  by (simp add: show_int_nat eq_nat_nat_iff)

lemma concat_lengths:
  "list_all2 (\<lambda>a b. length a \<le> length b) xs ys \<Longrightarrow> length (concat xs) \<le> length (concat ys)"
  by (induction rule: list_all2_induct) auto

lemma concat_monotone_inj:
  assumes "list_all2 (\<lambda>a b. length a \<le> length b) xs ys" and "concat xs = concat ys"
  shows "xs = ys"
  using assms
proof (induction rule: list_all2_induct)
  case (Cons x xs y ys)
  have "length (concat xs) \<le> length (concat ys)" using Cons.hyps(2) by (rule concat_lengths)
  moreover have "length x + length (concat xs) = length y + length (concat ys)"
    using Cons.prems by (metis concat.simps(2) length_append)
  ultimately have "length x = length y" using Cons.hyps(1) by simp
  with Cons show ?case by simp
qed simp

text \<open>Every sequence term of a part list is positive at the sequence.\<close>

definition terms_positive :: "part list \<Rightarrow> int \<Rightarrow> bool" where
  "terms_positive ps n \<longleftrightarrow> (\<forall>k. SequenceOffset k \<in> set ps \<longrightarrow> 1 \<le> n + k)"

lemma fold_min_le: "fold min ks a \<le> a \<and> (\<forall>k \<in> set ks. fold min ks a \<le> (k::int))"
proof (induction ks arbitrary: a)
  case (Cons k ks)
  have "fold min ks (min k a) \<le> min k a" "\<forall>x \<in> set ks. fold min ks (min k a) \<le> x" using Cons [of "min k a"] by auto
  then show ?case by auto
qed simp

lemma offsets_in: "SequenceOffset k \<in> set ps \<Longrightarrow> k \<in> set (offsets ps)"
  by (force simp: offsets_def)

lemma smallest_positive: "1 \<le> n + smallestOffset ps \<Longrightarrow> terms_positive ps n"
proof -
  assume a: "1 \<le> n + smallestOffset ps"
  have "SequenceOffset k \<in> set ps \<Longrightarrow> smallestOffset ps \<le> k" for k
    using fold_min_le [of "offsets ps" 0] offsets_in unfolding smallestOffset_def by blast
  with a show ?thesis unfolding terms_positive_def by force
qed

lemma render_part_length:
  assumes "terms_positive ps m" and "m \<le> n" and "length v \<le> length w" and "q \<in> set ps"
  shows "length (render_part m v q) \<le> length (render_part n w q)"
proof (cases q)
  case (SequenceOffset k)
  with assms have "1 \<le> m + k" by (simp add: terms_positive_def)
  with SequenceOffset assms(2) show ?thesis by (simp add: render_part_def length_show_int_mono)
qed (use assms in \<open>simp_all add: render_part_def\<close>)

lemma render_parts_rel:
  assumes "terms_positive ps m" and "m \<le> n" and "length v \<le> length w"
  shows "list_all2 (\<lambda>a b. length a \<le> length b) (map (render_part m v) ps) (map (render_part n w) ps)"
  unfolding list.rel_map by (intro list.rel_refl_strong render_part_length [OF assms])

lemma render_inj:
  assumes "terms_positive ps m" and "m \<le> n" and "length v \<le> length w"
    and "renderParts ps m v = renderParts ps n w" and "p \<in> set ps"
  shows "render_part m v p = render_part n w p"
proof -
  have "map (render_part m v) ps = map (render_part n w) ps"
    using render_parts_rel [OF assms(1-3)] assms(4) unfolding renderParts_def by (rule concat_monotone_inj)
  with assms(5) show ?thesis by simp
qed

lemma render_length:
  "terms_positive ps m \<Longrightarrow> m \<le> n \<Longrightarrow> length v \<le> length w \<Longrightarrow>
    length (renderParts ps m v) \<le> length (renderParts ps n w)"
  unfolding renderParts_def by (intro concat_lengths render_parts_rel)

lemma parts_shape:
  "split_template b t = Some ps \<Longrightarrow> VersionPart \<in> set ps \<Longrightarrow> b"
proof (induction b t arbitrary: ps rule: split_template.induct)
  case (1 b t)
  show ?case
  proof (cases "next_token t")
    case None
    with 1 show ?thesis by (subst (asm) (2) split_template.simps) auto
  next
    case (Some x)
    obtain pre body rest where x: "x = (pre, body, rest)" by (cases x)
    obtain tok qs where t: "token_of b body = Some tok" "split_template b rest = Some qs" "ps = Literal pre # tok # qs"
      using 1(2) Some x by (subst (asm) split_template.simps) (auto split: option.splits)
    show ?thesis
    proof (cases "tok = VersionPart")
      case True
      with t(1) show ?thesis by (auto simp: token_of_def split: option.splits if_splits)
    next
      case False
      with t(3) 1(3) have "VersionPart \<in> set qs" by simp
      with 1(1) [OF Some _ refl t(1) t(2)] x show ?thesis by blast
    qed
  qed
qed

section \<open>Accepted families\<close>

lemma concat_nil: "concat (map f xs) = [] \<longleftrightarrow> (\<forall>x \<in> set xs. f x = [])"
  by (induction xs) auto

lemma validatePaths_ok:
  assumes "validatePaths raw floor = []"
  obtains fs where "raw = JObj fs" "\<forall>(k, v) \<in> set fs. path_key k \<and> validatePathTemplate v floor = []"
proof (cases raw)
  case (JObj fs)
  with assms have "\<forall>(k, v) \<in> set fs. path_key k \<and> validatePathTemplate v floor = []"
    by (auto simp: validatePaths_def concat_nil split: if_splits)
  with JObj show ?thesis by (rule that)
qed (use assms in \<open>simp_all add: validatePaths_def\<close>)

lemma template_text: "validatePathTemplate v floor = [] \<Longrightarrow> v = JStr (text_of v)"
  by (cases v) (simp_all add: validatePathTemplate_def text_of_def)

lemma version_text: "validateVersionTemplate v floor = [] \<Longrightarrow> v = JStr (text_of v)"
  by (cases v) (simp_all add: validateVersionTemplate_def text_of_def)

lemma family_accepted:
  assumes "normalizeFamily raw d = Inr f"
  shows "validateVersionTemplate (JStr (fam_version_template f)) (JInt (fam_sequence_floor f)) = []"
    and "\<forall>(k, t) \<in> set (fam_paths f). path_key k \<and> validatePathTemplate (JStr t) (JInt (fam_sequence_floor f)) = []"
    and "releaseSequenceRenderable f (JInt (fam_sequence_floor f))"
    and "list_all (\<lambda>(k, p). isSafeRenderedReleasePath (JStr p)) (rid_paths (renderReleaseIdentity f (fam_sequence_floor f)))"
proof -
  let ?floor = "fld raw ''sequence_floor''"
  have v: "validateVersionTemplate (fld raw ''version_template'') ?floor = []"
    and p: "validatePaths (fld raw ''paths'') ?floor = []"
    and i: "(case ?floor of JInt n \<Rightarrow> if n < 1 \<or> n > release_sequence_max then [''sequence_floor''] else []
                    | _ \<Rightarrow> [''sequence_floor'']) = []"
    and f: "f = \<lparr>fam_base_branch = text_of (coalesce (fld raw ''base_branch'') d), fam_sequence_floor = the (as_int ?floor),
                        fam_version_template = text_of (fld raw ''version_template''),
                        fam_paths = (case fld raw ''paths'' of JObj fs \<Rightarrow> map (\<lambda>(k, v). (k, text_of v)) fs | _ \<Rightarrow> [])\<rparr>"
    and r: "releaseSequenceRenderable f ?floor"
    and l: "list_all (\<lambda>(k, p). isSafeRenderedReleasePath (JStr p)) (rid_paths (renderReleaseIdentity f (the (as_int ?floor))))"
    using assms unfolding normalizeFamily_def Let_def by (simp_all split: if_splits)
  obtain n where n: "?floor = JInt n" using i by (cases ?floor) (simp_all split: if_splits)
  then have fl: "fam_sequence_floor f = n" using f by simp
  show "validateVersionTemplate (JStr (fam_version_template f)) (JInt (fam_sequence_floor f)) = []"
    using v version_text [OF v] n f by simp
  obtain fs where fs: "fld raw ''paths'' = JObj fs" "\<forall>(k, v) \<in> set fs. path_key k \<and> validatePathTemplate v ?floor = []"
    using p by (rule validatePaths_ok)
  have "path_key k \<and> validatePathTemplate (JStr (text_of v)) (JInt n) = []" if "(k, v) \<in> set fs" for k v
    using fs(2) that template_text [of v "JInt n"] n by fastforce
  then show "\<forall>(k, t) \<in> set (fam_paths f). path_key k \<and> validatePathTemplate (JStr t) (JInt (fam_sequence_floor f)) = []"
    using f fs(1) fl by auto
  show "releaseSequenceRenderable f (JInt (fam_sequence_floor f))" using r n fl by simp
  show "list_all (\<lambda>(k, p). isSafeRenderedReleasePath (JStr p)) (rid_paths (renderReleaseIdentity f (fam_sequence_floor f)))"
    using l n fl by simp
qed

text \<open>The parts of an accepted version template: a sequence term among plain characters.\<close>

lemma version_parts:
  assumes "validateVersionTemplate (JStr t) floor = []"
  obtains k where "SequenceOffset k \<in> set (template_parts False t)"
    "list_all (literal_ok version_char) (template_parts False t)" "VersionPart \<notin> set (template_parts False t)"
proof -
  obtain ps where p: "parseTemplate False t = Inr ps" "length (filter (\<lambda>p. \<not> is_literal p) ps) = 1"
    "list_all (literal_ok version_char) ps"
    using assms by (auto simp: validateVersionTemplate_def split: if_splits sum.splits)
  then have parts: "template_parts False t = ps" by (simp add: template_parts_def)
  have nv: "VersionPart \<notin> set ps"
    using p(1) parts_shape [of False t ps] by (auto simp: parseTemplate_def split: option.splits if_splits)
  have "filter (\<lambda>p. \<not> is_literal p) ps \<noteq> []" using p(2) by auto
  then obtain q where "q \<in> set ps" "\<not> is_literal q" by (auto simp: filter_empty_conv)
  with nv obtain k where "SequenceOffset k \<in> set ps" by (cases q) (auto simp: is_literal_def)
  with that nv p(3) parts show ?thesis by blast
qed

lemma path_parts:
  assumes "validatePathTemplate (JStr t) floor = []"
  obtains q where "q \<in> set (template_parts True t)" "\<not> is_literal q"
    "isSafeRepoRelativePath (renderParts (template_parts True t) 1 ''1'')"
proof -
  obtain ps where p: "parseTemplate True t = Inr ps" "\<not> list_all is_literal ps" "isSafeRepoRelativePath (renderParts ps 1 ''1'')"
    using assms by (auto simp: validatePathTemplate_def split: if_splits sum.splits)
  then have "template_parts True t = ps" by (simp add: template_parts_def)
  with p that show ?thesis by (auto simp: list_all_iff)
qed

section \<open>Renderings of one template\<close>

lemma split_on_append:
  "split_on c (a @ b) = butlast (split_on c a) @ [last (split_on c a) @ hd (split_on c b)] @ tl (split_on c b)"
proof (induction a)
  case Nil
  then show ?case by (cases "split_on c b") simp_all
next
  case (Cons x a)
  then show ?case by (cases "split_on c a") (auto simp: neq_Nil_conv)
qed

definition has_digit :: "string \<Rightarrow> bool" where
  "has_digit s \<longleftrightarrow> list_ex is_digit s"

text \<open>Two segments from the same place of one template.\<close>

definition like :: "string \<Rightarrow> string \<Rightarrow> bool" where
  "like s t \<longleftrightarrow> s = t \<or> has_digit s \<and> has_digit t"

lemma like_append: "like a b \<Longrightarrow> like c d \<Longrightarrow> like (a @ c) (b @ d)"
  by (auto simp: like_def has_digit_def)

lemma split_like:
  assumes "list_all2 like (split_on x a) (split_on x a')" and "list_all2 like (split_on x b) (split_on x b')"
  shows "list_all2 like (split_on x (a @ b)) (split_on x (a' @ b'))"
proof -
  obtain u us where u: "split_on x a = us @ [u]" by (metis rev_exhaust split_on_nonempty)
  obtain u' us' where u': "split_on x a' = us' @ [u']" by (metis rev_exhaust split_on_nonempty)
  obtain v vs where v: "split_on x b = v # vs" by (metis neq_Nil_conv split_on_nonempty)
  obtain v' vs' where v': "split_on x b' = v' # vs'" by (metis neq_Nil_conv split_on_nonempty)
  have "length us = length us'" using assms(1) u u' by (auto dest: list_all2_lengthD)
  then have "list_all2 like us us'" "like u u'" using assms(1) u u' by (simp_all add: list_all2_append)
  moreover have "like v v'" "list_all2 like vs vs'" using assms(2) v v' by simp_all
  ultimately show ?thesis
    by (simp add: split_on_append u u' v v' list_all2_appendI like_append)
qed

lemma split_one: "x \<notin> set s \<Longrightarrow> split_on x s = [s]"
  by (induction s) auto


lemma show_int_text:
  assumes "1 \<le> i"
  shows "has_digit (show_int i)" and "list_all is_digit (show_int i)" and "CHR ''/'' \<notin> set (show_int i)"
proof -
  have d: "\<forall>c \<in> set (show_int i). is_digit c" using show_nat_digits [of "nat i"] assms by (simp add: show_int_nat)
  then show "list_all is_digit (show_int i)" by (simp add: list_all_iff)
  have "show_int i \<noteq> []" using assms by (simp add: show_int_nat)
  with d show "has_digit (show_int i)" by (cases "show_int i") (simp_all add: has_digit_def)
  have "\<not> is_digit (CHR ''/'')" by (simp add: is_digit_def less_eq_char_def)
  with d show "CHR ''/'' \<notin> set (show_int i)" by blast
qed

lemma digit_path_char: "is_digit c \<Longrightarrow> path_char c"
  by (simp add: path_char_def alnum_def)

text \<open>A version that can stand in a path.\<close>

definition segment_text :: "string \<Rightarrow> bool" where
  "segment_text v \<longleftrightarrow> has_digit v \<and> CHR ''/'' \<notin> set v"

lemma render_like:
  assumes "terms_positive ps m" and "terms_positive ps n" and "segment_text v" and "segment_text w"
  shows "list_all2 like (split_on (CHR ''/'') (renderParts ps m v)) (split_on (CHR ''/'') (renderParts ps n w))"
  using assms(1,2) unfolding renderParts_def
proof (induction ps)
  case Nil
  then show ?case by (simp add: like_def)
next
  case (Cons q ps)
  have "terms_positive ps m" "terms_positive ps n" using Cons.prems by (simp_all add: terms_positive_def)
  then have ih: "list_all2 like (split_on (CHR ''/'') (concat (map (render_part m v) ps)))
      (split_on (CHR ''/'') (concat (map (render_part n w) ps)))" by (rule Cons.IH)
  have "list_all2 like (split_on (CHR ''/'') (render_part m v q)) (split_on (CHR ''/'') (render_part n w q))"
  proof (cases q)
    case (Literal s)
    then show ?thesis by (simp add: render_part_def list.rel_refl like_def)
  next
    case (SequenceOffset k)
    then have "1 \<le> m + k" "1 \<le> n + k" using Cons.prems by (simp_all add: terms_positive_def)
    then show ?thesis using SequenceOffset by (simp add: render_part_def split_one show_int_text like_def)
  next
    case VersionPart
    then show ?thesis using assms(3,4) by (simp add: render_part_def split_one segment_text_def like_def)
  qed
  from split_like [OF this ih] show ?case by simp
qed

lemma render_chars:
  assumes "list_all path_char (renderParts ps m v)" and "terms_positive ps n"
    and "VersionPart \<in> set ps \<Longrightarrow> list_all path_char v \<Longrightarrow> list_all path_char w"
  shows "list_all path_char (renderParts ps n w)"
proof -
  have "list_all path_char (render_part n w q)" if q: "q \<in> set ps" for q
  proof (cases q)
    case (Literal s)
    then show ?thesis using assms(1) q by (force simp: renderParts_def render_part_def list_all_iff)
  next
    case (SequenceOffset k)
    then have "1 \<le> n + k" using assms(2) q by (simp add: terms_positive_def)
    then show ?thesis using SequenceOffset show_int_text(2) digit_path_char
      by (auto simp: render_part_def list_all_iff)
  next
    case VersionPart
    have "list_all path_char v" using assms(1) q VersionPart by (force simp: renderParts_def render_part_def list_all_iff)
    then show ?thesis using assms(3) q VersionPart by (simp add: render_part_def)
  qed
  then show ?thesis by (auto simp: renderParts_def list_all_iff)
qed

definition segment_ok :: "string \<Rightarrow> bool" where
  "segment_ok s \<longleftrightarrow> s \<noteq> [] \<and> s \<noteq> ''.'' \<and> s \<noteq> ''..'' \<and> lower s \<noteq> ''.git''"

lemma digit_lower: "is_digit c \<Longrightarrow> lower_char c = c"
  by (auto simp: lower_char_def is_digit_def is_upper_def less_eq_char_def)

lemma has_digit_ok: "has_digit s \<Longrightarrow> segment_ok s"
proof -
  assume "has_digit s"
  then obtain c where c: "c \<in> set s" "is_digit c" by (auto simp: has_digit_def list_ex_iff)
  then have "c \<in> set (lower s)" using digit_lower [OF c(2)] by (force simp: lower_def)
  moreover have "\<not> is_digit (CHR ''.'')" "\<forall>d \<in> set ''.git''. \<not> is_digit d" by (simp_all add: is_digit_def less_eq_char_def)
  ultimately show ?thesis using c unfolding segment_ok_def by auto
qed

lemma like_segments: "list_all2 like xs ys \<Longrightarrow> list_all segment_ok xs \<Longrightarrow> list_all segment_ok ys"
  by (induction rule: list_all2_induct) (auto simp: like_def has_digit_ok)

lemma safe_path_iff:
  "isSafeRepoRelativePath p \<longleftrightarrow> list_all path_char p \<and> list_all segment_ok (split_on (CHR ''/'') p)"
proof -
  have "starts_with ''/'' p \<Longrightarrow> \<not> list_all segment_ok (split_on (CHR ''/'') p)"
    by (cases p) (auto simp: starts_with_def segment_ok_def)
  moreover have "ends_with ''/'' p \<Longrightarrow> \<not> list_all segment_ok (split_on (CHR ''/'') p)"
    by (cases p rule: rev_cases) (auto simp: ends_with_def starts_with_def split_on_append segment_ok_def)
  ultimately show ?thesis unfolding isSafeRepoRelativePath_def segment_ok_def by blast
qed


lemma split_template_version: "split_template False t = Some ps \<Longrightarrow> split_template True t = Some ps"
proof (induction False t arbitrary: ps rule: split_template.induct)
  case (1 t)
  show ?case
  proof (cases "next_token t")
    case None
    with 1(2) show ?thesis by (simp add: split_template.simps [of False t] split_template.simps [of True t])
  next
    case (Some x)
    obtain pre body rest where x: "x = (pre, body, rest)" by (cases x)
    obtain tok qs where t: "token_of False body = Some tok" "split_template False rest = Some qs" "ps = Literal pre # tok # qs"
      using 1(2) Some x by (subst (asm) split_template.simps) (auto split: option.splits)
    have "token_of True body = Some tok" using t(1) by (auto simp: token_of_def split: option.splits)
    moreover have "split_template True rest = Some qs" using 1(1) [OF Some _ refl t(1) t(2)] x by simp
    ultimately show ?thesis using Some x t(3) by (simp add: split_template.simps [of True t])
  qed
qed

lemma version_template_parts:
  assumes "validateVersionTemplate (JStr t) floor = []"
  shows "template_parts True t = template_parts False t"
proof -
  obtain ps where "parseTemplate False t = Inr ps"
    using assms by (auto simp: validateVersionTemplate_def split: if_splits sum.splits)
  moreover then have "parseTemplate True t = Inr ps"
    using split_template_version [of t] by (auto simp: parseTemplate_def split: option.splits if_splits)
  ultimately show ?thesis by (simp add: template_parts_def)
qed

lemma renderable_terms:
  assumes "normalizeFamily raw d = Inr f" and "releaseSequenceRenderable f (JInt n)"
  shows "terms_positive (template_parts False (fam_version_template f)) n"
    and "(k, t) \<in> set (fam_paths f) \<Longrightarrow> terms_positive (template_parts True t) n"
proof -
  have "\<forall>t \<in> set (fam_version_template f # map snd (fam_paths f)). 1 \<le> n + smallestOffset (template_parts True t)"
    using assms(2) unfolding releaseSequenceRenderable_def Let_def list_all_iff by simp
  then have all: "\<forall>t \<in> set (fam_version_template f # map snd (fam_paths f)). terms_positive (template_parts True t) n"
    using smallest_positive by blast
  then show "terms_positive (template_parts False (fam_version_template f)) n"
    using version_template_parts [OF family_accepted(1) [OF assms(1)]] by simp
  show "(k, t) \<in> set (fam_paths f) \<Longrightarrow> terms_positive (template_parts True t) n" using all by force
qed

lemma version_segment:
  assumes "normalizeFamily raw d = Inr f" and "releaseSequenceRenderable f (JInt n)"
  shows "segment_text (rid_version (renderReleaseIdentity f n))"
proof -
  let ?ps = "template_parts False (fam_version_template f)"
  obtain k where k: "SequenceOffset k \<in> set ?ps" "list_all (literal_ok version_char) ?ps" "VersionPart \<notin> set ?ps"
    using version_parts [OF family_accepted(1) [OF assms(1)]] .
  have t: "terms_positive ?ps n" using assms by (rule renderable_terms)
  have "has_digit (show_int (n + k))" using k(1) t show_int_text by (simp add: terms_positive_def)
  then have "has_digit (renderParts ?ps n [])"
    using k(1) by (force simp: has_digit_def renderParts_def render_part_def list_ex_iff)
  moreover have "CHR ''/'' \<notin> set (render_part n [] q)" if q: "q \<in> set ?ps" for q
  proof (cases q)
    case (Literal s)
    have "\<not> version_char (CHR ''/'')" by (simp add: version_char_def alnum_def is_digit_def is_lower_def is_upper_def less_eq_char_def)
    then show ?thesis using k(2) q Literal by (fastforce simp: list_all_iff literal_ok_def render_part_def)
  next
    case (SequenceOffset j)
    then show ?thesis using t q by (simp add: render_part_def terms_positive_def show_int_text)
  next
    case VersionPart
    then show ?thesis using k(3) q by simp
  qed
  ultimately show ?thesis by (auto simp: segment_text_def renderReleaseIdentity_def Let_def renderParts_def)
qed

lemma version_chars:
  assumes "normalizeFamily raw d = Inr f" and "releaseSequenceRenderable f (JInt n)"
    and "list_all path_char (rid_version (renderReleaseIdentity f (fam_sequence_floor f)))"
  shows "list_all path_char (rid_version (renderReleaseIdentity f n))"
proof -
  let ?ps = "template_parts False (fam_version_template f)"
  have "list_all path_char (renderParts ?ps (fam_sequence_floor f) [])"
    using assms(3) by (simp add: renderReleaseIdentity_def Let_def)
  then have "list_all path_char (renderParts ?ps n [])"
    using renderable_terms(1) [OF assms(1,2)] by (rule render_chars)
  then show ?thesis by (simp add: renderReleaseIdentity_def Let_def)
qed

lemma identity_paths:
  "rid_paths (renderReleaseIdentity f n) =
     map (\<lambda>(k, t). (k, renderParts (template_parts True t) n (rid_version (renderReleaseIdentity f n)))) (fam_paths f)"
  by (simp add: renderReleaseIdentity_def Let_def)

section \<open>Properties\<close>

text \<open>
  C40. Every path of an accepted family stays a safe repository-relative path at every sequence number the
  family can render, not only at its floor where the configuration was checked: no absolute path, no
  empty, dot or \<open>.git\<close> segment, no character outside the path alphabet.
\<close>

theorem release_paths_safe:
  assumes "normalizeFamily raw d = Inr f" and "releaseSequenceRenderable f (JInt n)"
    and "(k, p) \<in> set (rid_paths (renderReleaseIdentity f n))"
  shows "isSafeRepoRelativePath p"
proof -
  let ?m = "fam_sequence_floor f"
  let ?v = "\<lambda>i. rid_version (renderReleaseIdentity f i)"
  note acc = family_accepted [OF assms(1)]
  obtain t where t: "(k, t) \<in> set (fam_paths f)" "p = renderParts (template_parts True t) n (?v n)"
    using assms(3) unfolding identity_paths by auto
  let ?p = "renderParts (template_parts True t) ?m (?v ?m)"
  have "isSafeRepoRelativePath ?p"
    using acc(4) t(1) unfolding identity_paths by (force simp: list_all_iff isSafeRenderedReleasePath_def)
  then have safe: "list_all path_char ?p" "list_all segment_ok (split_on (CHR ''/'') ?p)" by (simp_all add: safe_path_iff)
  have pos: "terms_positive (template_parts True t) ?m" "terms_positive (template_parts True t) n"
    using renderable_terms(2) [OF assms(1) _ t(1)] acc(3) assms(2) by blast+
  have "list_all path_char p" unfolding t(2)
    using safe(1) pos(2) by (rule render_chars) (rule version_chars [OF assms(1,2)])
  moreover have "list_all segment_ok (split_on (CHR ''/'') p)" unfolding t(2)
    using render_like [OF pos version_segment [OF assms(1) acc(3)] version_segment [OF assms(1,2)]] safe(2)
    by (rule like_segments)
  ultimately show ?thesis by (simp add: safe_path_iff)
qed


lemma versions_differ:
  assumes "normalizeFamily raw d = Inr f" and "releaseSequenceRenderable f (JInt m)" and "m < n"
  shows "rid_version (renderReleaseIdentity f m) \<noteq> rid_version (renderReleaseIdentity f n)"
proof
  let ?ps = "template_parts False (fam_version_template f)"
  assume "rid_version (renderReleaseIdentity f m) = rid_version (renderReleaseIdentity f n)"
  then have eq: "renderParts ?ps m [] = renderParts ?ps n []" by (simp add: renderReleaseIdentity_def Let_def)
  obtain k where k: "SequenceOffset k \<in> set ?ps"
    using version_parts [OF family_accepted(1) [OF assms(1)]] .
  have pos: "terms_positive ?ps m" using assms(1,2) by (rule renderable_terms)
  have "render_part m [] (SequenceOffset k) = render_part n [] (SequenceOffset k)"
    using pos assms(3) eq k by (intro render_inj [of ?ps]) simp_all
  moreover have "1 \<le> m + k" using pos k by (simp add: terms_positive_def)
  ultimately show False using assms(3) by (simp add: render_part_def show_int_pos_inj)
qed

lemma paths_differ:
  assumes "normalizeFamily raw d = Inr f" and "releaseSequenceRenderable f (JInt m)" and "m < n"
    and "(k, t) \<in> set (fam_paths f)"
  shows "renderParts (template_parts True t) m (rid_version (renderReleaseIdentity f m))
    \<noteq> renderParts (template_parts True t) n (rid_version (renderReleaseIdentity f n))"
proof
  let ?v = "\<lambda>i. rid_version (renderReleaseIdentity f i)"
  let ?ps = "template_parts True t"
  assume eq: "renderParts ?ps m (?v m) = renderParts ?ps n (?v n)"
  have "validatePathTemplate (JStr t) (JInt (fam_sequence_floor f)) = []"
    using family_accepted(2) [OF assms(1)] assms(4) by blast
  then obtain q where q: "q \<in> set ?ps" "\<not> is_literal q" by (rule path_parts)
  have pos: "terms_positive ?ps m" using renderable_terms(2) [OF assms(1,2,4)] .
  have "length (?v m) \<le> length (?v n)"
    using render_length [OF renderable_terms(1) [OF assms(1,2)], of n "[]" "[]"] assms(3)
    by (simp add: renderReleaseIdentity_def Let_def)
  then have same: "render_part m (?v m) q = render_part n (?v n) q"
    using pos assms(3) eq q(1) by (intro render_inj [of ?ps]) simp_all
  show False
  proof (cases q)
    case (SequenceOffset j)
    then have "1 \<le> m + j" using pos q(1) by (simp add: terms_positive_def)
    then show False using same SequenceOffset assms(3) by (simp add: render_part_def show_int_pos_inj)
  next
    case VersionPart
    then show False using same versions_differ [OF assms(1-3)] by (simp add: render_part_def)
  qed (use q(2) in \<open>simp add: is_literal_def\<close>)
qed

text \<open>
  Two different sequence numbers of one family never share an identity: their versions differ, and so
  do their paths, key by key.
\<close>

theorem identities_distinct:
  assumes "normalizeFamily raw d = Inr f" and "releaseSequenceRenderable f (JInt m)"
    and "releaseSequenceRenderable f (JInt n)" and "m \<noteq> n"
  shows "rid_version (renderReleaseIdentity f m) \<noteq> rid_version (renderReleaseIdentity f n)
    \<and> list_all2 (\<lambda>(k, p) (l, q). k = l \<and> p \<noteq> q)
        (rid_paths (renderReleaseIdentity f m)) (rid_paths (renderReleaseIdentity f n))"
proof -
  have v: "rid_version (renderReleaseIdentity f m) \<noteq> rid_version (renderReleaseIdentity f n)"
    using versions_differ [OF assms(1)] assms(2-4) by (metis linorder_neqE)
  have "renderParts (template_parts True t) m (rid_version (renderReleaseIdentity f m))
      \<noteq> renderParts (template_parts True t) n (rid_version (renderReleaseIdentity f n))"
    if "(k, t) \<in> set (fam_paths f)" for k t
    using paths_differ [OF assms(1) _ _ that] assms(2-4) by (metis linorder_neqE)
  then show ?thesis using v unfolding identity_paths list.rel_map
    by (auto intro!: list.rel_refl_strong)
qed

section \<open>Witnesses\<close>

definition capture_family :: js where
  "capture_family = JObj [(''sequence_floor'', JInt 3), (''version_template'', JStr ''v1.{sequence}''),
     (''paths'', JObj [(''capture'', JStr ''docs/{version}/run-{sequence-2}.md'')])]"

definition capture_family_value :: family where
  "capture_family_value = \<lparr>fam_base_branch = ''dev'', fam_sequence_floor = 3, fam_version_template = ''v1.{sequence}'',
     fam_paths = [(''capture'', ''docs/{version}/run-{sequence-2}.md'')]\<rparr>"

lemma capture_family_ok: "normalizeFamily capture_family (JStr ''dev'') = Inr capture_family_value"
  by code_simp

lemma capture_renderable:
  "releaseSequenceRenderable capture_family_value (JInt 9)" "releaseSequenceRenderable capture_family_value (JInt 10)"
  by code_simp+

lemma release_paths_safe_witness:
  "isSafeRepoRelativePath ''docs/v1.10/run-8.md''"
  by (rule release_paths_safe [OF capture_family_ok capture_renderable(2), of "''capture''"]) code_simp

lemma identities_distinct_witness:
  "rid_version (renderReleaseIdentity capture_family_value 9) \<noteq> rid_version (renderReleaseIdentity capture_family_value 10)"
  using identities_distinct [OF capture_family_ok capture_renderable] by simp

end
