(* ===== verification/ReleaseLedger.thy ===== *)
theory ReleaseLedger
  imports ReleaseConfig
begin

text \<open>
  The release-identity reservation log (\<open>lib/release-identity-ledger.js\<close>): event messages and their strict
  parser, the classification of a family's references, and the fold that validates a complete log.

  A fold reads commit objects by id. Objects never change, so what the reads of one fold answer is a
  partial function from ids, \<open>None\<close> where the read throws; \<open>commitCache\<close> only repeats such an answer.
  SHA-256 is a parameter (\<open>sha256\<close>), and so is how JavaScript prints a number that is not a plain
  integer (\<open>frac\<close>).
\<close>

section \<open>Values as texts\<close>

text \<open>\<open>String(v)\<close>: plain integers are printed digit by digit below \<open>10 ^ 21\<close>.\<close>

fun js_string :: "(int \<Rightarrow> nat \<Rightarrow> string) \<Rightarrow> js \<Rightarrow> string" where
  "js_string frac JUndef = ''undefined''"
| "js_string frac JNull = ''null''"
| "js_string frac (JBool b) = (if b then ''true'' else ''false'')"
| "js_string frac (JInt n) = (if \<bar>n\<bar> < 10 ^ 21 then show_int n else frac n 1)"
| "js_string frac (JFrac p q) = frac p q"
| "js_string frac JNaN = ''NaN''"
| "js_string frac (JInf b) = (if b then ''-Infinity'' else ''Infinity'')"
| "js_string frac (JStr s) = s"
| "js_string frac (JArr vs) = join '','' (map (\<lambda>v. if nullish v then [] else js_string frac v) vs)"
| "js_string frac (JObj fs) = ''[object Object]''"

text \<open>\<open>RE.test(v)\<close> converts its argument; a number, a nested list and so on never is a run of 40 or 64 hex digits.\<close>

definition object_id :: "(int \<Rightarrow> nat \<Rightarrow> string) \<Rightarrow> js \<Rightarrow> bool" where
  "object_id frac v \<longleftrightarrow> git_object_id (js_string frac v)"

definition hash_text :: "(int \<Rightarrow> nat \<Rightarrow> string) \<Rightarrow> js \<Rightarrow> bool" where
  "hash_text frac v \<longleftrightarrow> hex_run 64 (js_string frac v)"

section \<open>References and messages\<close>

definition event_schema :: string where "event_schema = ''gc.release-identity-event/v1''"

definition abandon_reasons :: "string list" where
  "abandon_reasons = [''capture_not_needed'', ''generation_failed'', ''superseded'', ''run_abandoned'']"

definition ledger_slots_max :: int where "ledger_slots_max = 10000"
definition event_message_max :: int where "event_message_max = 16384"
definition max_safe_integer :: int where "max_safe_integer = 9007199254740991"

definition releaseLedgerNamespace :: "string \<Rightarrow> string" where
  "releaseLedgerNamespace family = ''gc/release-identities/'' @ family @ ''/''"

definition releaseLedgerRef :: "string \<Rightarrow> string \<Rightarrow> nat \<Rightarrow> string" where
  "releaseLedgerRef family kind slot = ''refs/'' @ releaseLedgerNamespace family @ kind @ ''/'' @ show_nat slot"

definition buildReleaseEventMessage :: "(int \<Rightarrow> nat \<Rightarrow> string) \<Rightarrow> js \<Rightarrow> string" where
  "buildReleaseEventMessage frac e =
     ''gc release identity: '' @ js_string frac (fld e ''family'') @ '' slot '' @ js_string frac (fld e ''slot'')
     @ '' #'' @ js_string frac (fld e ''sequence'') @ '' '' @ js_string frac (fld e ''event'')
     @ [nl, nl] @ json_text frac e @ [nl]"

definition isReleaseIssueBranch :: "(int \<Rightarrow> nat \<Rightarrow> string) \<Rightarrow> js \<Rightarrow> js \<Rightarrow> bool" where
  "isReleaseIssueBranch frac branch issueNumber = (case branch of
      JStr b \<Rightarrow> (let p = js_string frac issueNumber @ ''-''
                 in starts_with p b \<and> length b > length p \<and> isSafeGitRefName branch)
    | _ \<Rightarrow> False)"

section \<open>Event shapes\<close>

definition common_keys :: "string list" where
  "common_keys = [''schema'', ''repository'', ''family'', ''slot'', ''sequence'', ''event'', ''issue_number'', ''idempotency_hash'']"

definition claim_keys :: "string list" where
  "claim_keys = common_keys @ [''branch'', ''previous_claim'', ''version'', ''paths'', ''base_branch'', ''base_revision'',
     ''family_definition'', ''family_digest'']"

definition published_keys :: "string list" where
  "published_keys = common_keys @ [''published_revision'', ''artifacts'']"

definition abandoned_keys :: "string list" where
  "abandoned_keys = common_keys @ [''reason'']"

definition hasExactKeys :: "js \<Rightarrow> string list \<Rightarrow> bool" where
  "hasExactKeys e ks \<longleftrightarrow> length (obj_keys e) = length ks \<and> list_all (\<lambda>k. k \<in> set (obj_keys e)) ks"

definition obj_values :: "js \<Rightarrow> js list" where
  "obj_values v = (case v of JObj fs \<Rightarrow> map snd fs | _ \<Rightarrow> [])"

definition sameJson :: "(int \<Rightarrow> nat \<Rightarrow> string) \<Rightarrow> js \<Rightarrow> js \<Rightarrow> bool" where
  "sameJson frac a b \<longleftrightarrow> json_text frac a = json_text frac b"

definition paths_js :: "(string \<times> string) list \<Rightarrow> js" where
  "paths_js ps = JObj (map (\<lambda>(k, p). (k, JStr p)) ps)"

text \<open>
  The stored definition is rendered through its normalized form: \<open>sameJson\<close> has made them equal.
\<close>

definition claimRendersFromDefinition :: "(int \<Rightarrow> nat \<Rightarrow> string) \<Rightarrow> (string \<Rightarrow> string) \<Rightarrow> js \<Rightarrow> bool" where
  "claimRendersFromDefinition frac sha256 e =
     (let definition = fld e ''family_definition'';
          name = js_string frac (fld e ''family'')
      in is_mapping definition
         \<and> (case normalizeReleaseFamiliesConfig (JObj [(name, definition)]) (fld definition ''base_branch'') of
              Inr [(_, f)] \<Rightarrow>
                sameJson frac (family_js f) definition
                \<and> fld e ''base_branch'' = JStr (fam_base_branch f)
                \<and> fld e ''family_digest'' = JStr (releaseFamilyDigest sha256 f)
                \<and> releaseSequenceRenderable f (fld e ''sequence'')
                \<and> (case fld e ''sequence'' of
                     JInt n \<Rightarrow>
                       (let rendered = renderReleaseIdentity f n
                        in fld e ''version'' = JStr (rid_version rendered)
                           \<and> sameJson frac (paths_js (rid_paths rendered)) (fld e ''paths''))
                   | _ \<Rightarrow> False)
            | _ \<Rightarrow> False))"

definition valid_claim :: "(int \<Rightarrow> nat \<Rightarrow> string) \<Rightarrow> (string \<Rightarrow> string) \<Rightarrow> js \<Rightarrow> bool" where
  "valid_claim frac sha256 e \<longleftrightarrow>
     isReleaseIssueBranch frac (fld e ''branch'') (fld e ''issue_number'')
     \<and> (fld e ''previous_claim'' = JNull \<or> object_id frac (fld e ''previous_claim''))
     \<and> object_id frac (fld e ''base_revision'') \<and> hash_text frac (fld e ''family_digest'')
     \<and> (case fld e ''version'' of JStr v \<Rightarrow> int (unit_length v) \<le> release_version_max | _ \<Rightarrow> False)
     \<and> is_mapping (fld e ''paths'') \<and> list_all isSafeRenderedReleasePath (obj_values (fld e ''paths''))
     \<and> claimRendersFromDefinition frac sha256 e"

definition valid_published :: "(int \<Rightarrow> nat \<Rightarrow> string) \<Rightarrow> js \<Rightarrow> bool" where
  "valid_published frac e \<longleftrightarrow>
     object_id frac (fld e ''published_revision'') \<and> is_mapping (fld e ''artifacts'')
     \<and> list_all (object_id frac) (obj_values (fld e ''artifacts''))"

definition valid_abandoned :: "js \<Rightarrow> bool" where
  "valid_abandoned e \<longleftrightarrow> fld e ''reason'' \<in> JStr ` set abandon_reasons"

definition inRange :: "js \<Rightarrow> int \<Rightarrow> int \<Rightarrow> bool" where
  "inRange v lo hi = (case v of JInt n \<Rightarrow> lo \<le> n \<and> n \<le> hi | _ \<Rightarrow> False)"

text \<open>The family test converts too, but the subject comparison below admits texts only.\<close>

definition hasValidCommonFields :: "(int \<Rightarrow> nat \<Rightarrow> string) \<Rightarrow> js \<Rightarrow> bool" where
  "hasValidCommonFields frac e \<longleftrightarrow>
     fld e ''schema'' = JStr event_schema \<and> is_string (fld e ''repository'')
     \<and> release_family_name (js_string frac (fld e ''family''))
     \<and> inRange (fld e ''slot'') 1 ledger_slots_max
     \<and> inRange (fld e ''sequence'') 1 release_sequence_max
     \<and> inRange (fld e ''issue_number'') 1 max_safe_integer
     \<and> hash_text frac (fld e ''idempotency_hash'')"

section \<open>Parsing a message\<close>

text \<open>A read that throws, one that is refused with its detail, and one that succeeds.\<close>

datatype 'a reading = Threw | Refused string | Got 'a

fun got :: "'a reading \<Rightarrow> ('a \<Rightarrow> 'b reading) \<Rightarrow> 'b reading" where
  "got Threw f = Threw"
| "got (Refused d) f = Refused d"
| "got (Got x) f = f x"

definition family_char :: "char \<Rightarrow> bool" where
  "family_char c \<longleftrightarrow> lower_or_digit c \<or> c = CHR ''-''"

text \<open>\<open>SUBJECT_RE\<close>.\<close>

definition parse_subject :: "string \<Rightarrow> (string \<times> nat \<times> nat \<times> string) option" where
  "parse_subject s = do {
     s1 \<leftarrow> lit ''gc release identity: '' s;
     (family, s2) \<leftarrow> run family_char nonempty s1;
     s3 \<leftarrow> lit '' slot '' s2;
     (slot, s4) \<leftarrow> run is_digit nonempty s3;
     s5 \<leftarrow> lit '' #'' s4;
     (sequence, s6) \<leftarrow> run is_digit nonempty s5;
     kind \<leftarrow> lit '' '' s6;
     (if kind \<in> {''reserved'', ''published'', ''abandoned''}
      then Some (family, dec_val slot, dec_val sequence, kind) else None) }"

text \<open>
  \<open>EVENT_SHAPES[event.event]\<close> also finds what every object inherits. None of those has the \<open>keys\<close> of a
  shape: \<open>hasExactKeys\<close> throws, except that \<open>constructor\<close> is \<open>Object\<close>, whose \<open>keys\<close> function has length 1.
\<close>

definition shape_throws :: "string \<Rightarrow> js \<Rightarrow> bool" where
  "shape_throws kind e \<longleftrightarrow> kind \<in> set inherited_names \<and> (kind = ''constructor'' \<longrightarrow> length (obj_keys e) = 1)"

definition shape_accepts :: "(int \<Rightarrow> nat \<Rightarrow> string) \<Rightarrow> (string \<Rightarrow> string) \<Rightarrow> string \<Rightarrow> js \<Rightarrow> bool" where
  "shape_accepts frac sha256 kind e =
     (if kind = ''reserved'' then hasExactKeys e claim_keys \<and> hasValidCommonFields frac e \<and> valid_claim frac sha256 e
      else if kind = ''published'' then hasExactKeys e published_keys \<and> hasValidCommonFields frac e \<and> valid_published frac e
      else if kind = ''abandoned'' then hasExactKeys e abandoned_keys \<and> hasValidCommonFields frac e \<and> valid_abandoned e
      else False)"

definition parseReleaseEventMessage ::
  "(int \<Rightarrow> nat \<Rightarrow> string) \<Rightarrow> (string \<Rightarrow> string) \<Rightarrow> string \<Rightarrow> js reading" where
  "parseReleaseEventMessage frac sha256 m =
     (if int (unit_length m) > event_message_max then Refused ''message''
      else case until [nl, nl] m of
        None \<Rightarrow> Refused ''subject''
      | Some (head, body) \<Rightarrow>
          (case parse_subject head of
             None \<Rightarrow> Refused ''subject''
           | Some (family, slot, sequence, kind) \<Rightarrow>
               (case json_parse body of
                  None \<Rightarrow> Refused ''body''
                | Some e \<Rightarrow>
                    if \<not> is_mapping e then Refused ''body''
                    else if shape_throws (js_string frac (fld e ''event'')) e then Threw
                    else if \<not> shape_accepts frac sha256 (js_string frac (fld e ''event'')) e then Refused ''shape''
                    else if fld e ''family'' = JStr family \<and> fld e ''slot'' = JInt (int slot)
                            \<and> fld e ''sequence'' = JInt (int sequence) \<and> fld e ''event'' = JStr kind
                    then Got e else Refused ''subject'')))"

definition buildValidatedReleaseEventMessage ::
  "(int \<Rightarrow> nat \<Rightarrow> string) \<Rightarrow> (string \<Rightarrow> string) \<Rightarrow> js \<Rightarrow> string option" where
  "buildValidatedReleaseEventMessage frac sha256 e =
     (let message = buildReleaseEventMessage frac e
      in case parseReleaseEventMessage frac sha256 message of
           Got parsed \<Rightarrow> if sameJson frac parsed e then Some message else None
         | _ \<Rightarrow> None)"

section \<open>The references of a family\<close>

text \<open>\<open>SLOT_SEGMENT_RE\<close>.\<close>

definition slot_segment :: "string \<Rightarrow> bool" where
  "slot_segment s = (case s of
      [] \<Rightarrow> False | c # r \<Rightarrow> is_digit c \<and> c \<noteq> CHR ''0'' \<and> length r \<le> 4 \<and> list_all is_digit r)"

datatype ref_kind = Claims | Outcomes

fun kind_text :: "ref_kind \<Rightarrow> string" where
  "kind_text Claims = ''claims''"
| "kind_text Outcomes = ''outcomes''"

type_synonym listing = "(js \<times> js) list"

definition parseLedgerRef :: "(int \<Rightarrow> nat \<Rightarrow> string) \<Rightarrow> string \<Rightarrow> js \<times> js \<Rightarrow> (ref_kind \<times> nat) option" where
  "parseLedgerRef frac namespace entry = (case entry of
      (JStr ref, sha) \<Rightarrow>
        if \<not> starts_with namespace ref \<or> nullish sha \<or> \<not> object_id frac sha then None
        else (case split_on (CHR ''/'') (drop (length namespace) ref) of
               [kind, segment] \<Rightarrow>
                 if \<not> slot_segment segment then None
                 else if kind = ''claims'' then Some (Claims, dec_val segment)
                 else if kind = ''outcomes'' then Some (Outcomes, dec_val segment)
                 else None
             | _ \<Rightarrow> None)
    | _ \<Rightarrow> None)"

definition shapeProblem :: "(nat, js) jmap \<Rightarrow> (nat, js) jmap \<Rightarrow> string option" where
  "shapeProblem claims outcomes =
     (if int (length claims) > ledger_slots_max then Some ''log_size''
      else if \<not> list_all (\<lambda>slot. jm_get claims slot \<noteq> None) [1..<Suc (length claims)] then Some ''claims_not_contiguous''
      else if list_ex (\<lambda>(slot, _). jm_get claims slot = None) outcomes then Some ''outcome_without_claim''
      else None)"

definition add_ref ::
  "(int \<Rightarrow> nat \<Rightarrow> string) \<Rightarrow> string \<Rightarrow> (js \<times> js) \<Rightarrow> (nat, js) jmap \<times> (nat, js) jmap \<Rightarrow> ((nat, js) jmap \<times> (nat, js) jmap) option" where
  "add_ref frac namespace entry maps = (case parseLedgerRef frac namespace entry of
      None \<Rightarrow> None
    | Some (Claims, slot) \<Rightarrow> Some (jm_set slot (snd entry) (fst maps), snd maps)
    | Some (Outcomes, slot) \<Rightarrow> Some (fst maps, jm_set slot (snd entry) (snd maps)))"

fun collect_refs ::
  "(int \<Rightarrow> nat \<Rightarrow> string) \<Rightarrow> string \<Rightarrow> listing \<Rightarrow> (nat, js) jmap \<times> (nat, js) jmap \<Rightarrow> ((nat, js) jmap \<times> (nat, js) jmap) option" where
  "collect_refs frac namespace [] maps = Some maps"
| "collect_refs frac namespace (entry # refs) maps = (case add_ref frac namespace entry maps of
      None \<Rightarrow> None | Some maps' \<Rightarrow> collect_refs frac namespace refs maps')"

definition classifyRefs ::
  "(int \<Rightarrow> nat \<Rightarrow> string) \<Rightarrow> listing \<Rightarrow> string \<Rightarrow> string + (nat, js) jmap \<times> (nat, js) jmap" where
  "classifyRefs frac refs family =
     (case collect_refs frac (''refs/'' @ releaseLedgerNamespace family) refs ([], []) of
        None \<Rightarrow> Inl ''unexpected_reference''
      | Some (claims, outcomes) \<Rightarrow>
          (case shapeProblem claims outcomes of Some d \<Rightarrow> Inl d | None \<Rightarrow> Inr (claims, outcomes)))"

section \<open>The fold\<close>

record git_commit =
  cm_sha :: string
  cm_message :: string
  cm_tree :: string
  cm_parents :: "string list"

type_synonym objects = "string \<Rightarrow> git_commit option"

text \<open>\<open>readCommit\<close> requires an object id and throws otherwise.\<close>

definition read_commit :: "objects \<Rightarrow> js \<Rightarrow> git_commit reading" where
  "read_commit obs sha = (case sha of
      JStr s \<Rightarrow> (case obs s of None \<Rightarrow> Threw | Some c \<Rightarrow> Got c)
    | _ \<Rightarrow> Threw)"

record event_read =
  er_commit :: git_commit
  er_event :: js

record reservation =
  rs_slot :: nat
  rs_sequence :: int
  rs_claim :: event_read
  rs_outcome :: "event_read option"

definition readEvent ::
  "(int \<Rightarrow> nat \<Rightarrow> string) \<Rightarrow> (string \<Rightarrow> string) \<Rightarrow> string \<Rightarrow> objects \<Rightarrow> js \<Rightarrow> string \<Rightarrow> nat \<Rightarrow> string list
     \<Rightarrow> event_read reading" where
  "readEvent frac sha256 repository obs sha family slot kinds =
     got (read_commit obs sha) (\<lambda>c.
       (case parseReleaseEventMessage frac sha256 (cm_message c) of
          Threw \<Rightarrow> Threw
        | Refused d \<Rightarrow> Refused d
        | Got e \<Rightarrow>
            if fld e ''event'' \<in> JStr ` set kinds \<and> fld e ''family'' = JStr family \<and> fld e ''slot'' = JInt (int slot)
               \<and> (case fld e ''repository'' of JStr r \<Rightarrow> lower r = lower repository | _ \<Rightarrow> False)
               \<and> length (cm_parents c) = 1
            then Got \<lparr>er_commit = c, er_event = e\<rparr> else Refused ''event''))"

text \<open>
  \<open>===\<close> of two values read from different texts: two objects are never the same object. The keys below
  are compared as sorted lists; which order they are sorted by does not matter to equality.
\<close>

definition strict_eq :: "js \<Rightarrow> js \<Rightarrow> bool" where
  "strict_eq v w \<longleftrightarrow> v = w \<and> \<not> is_object v"

definition outcomeFollowsClaim :: "event_read \<Rightarrow> event_read \<Rightarrow> bool" where
  "outcomeFollowsClaim oc cl \<longleftrightarrow>
     cm_parents (er_commit oc) = [cm_sha (er_commit cl)] \<and> cm_tree (er_commit oc) = cm_tree (er_commit cl)
     \<and> strict_eq (fld (er_event oc) ''sequence'') (fld (er_event cl) ''sequence'')
     \<and> strict_eq (fld (er_event oc) ''issue_number'') (fld (er_event cl) ''issue_number'')
     \<and> strict_eq (fld (er_event oc) ''idempotency_hash'') (fld (er_event cl) ''idempotency_hash'')
     \<and> (fld (er_event oc) ''event'' = JStr ''published'' \<longrightarrow>
          sort (obj_keys (fld (er_event oc) ''artifacts'')) = sort (obj_keys (fld (er_event cl) ''paths'')))"

definition claim_sequence :: "event_read \<Rightarrow> int" where
  "claim_sequence cl = (case fld (er_event cl) ''sequence'' of JInt n \<Rightarrow> n | _ \<Rightarrow> 0)"

definition previous_sha :: "reservation option \<Rightarrow> js" where
  "previous_sha previous = (case previous of None \<Rightarrow> JNull | Some r \<Rightarrow> JStr (cm_sha (er_commit (rs_claim r))))"

definition previous_sequence :: "reservation option \<Rightarrow> int" where
  "previous_sequence previous = (case previous of None \<Rightarrow> 0 | Some r \<Rightarrow> rs_sequence r)"

definition claim_identity :: "(int \<Rightarrow> nat \<Rightarrow> string) \<Rightarrow> event_read \<Rightarrow> string" where
  "claim_identity frac cl = js_string frac (fld (er_event cl) ''issue_number'') @ '':''
     @ js_string frac (fld (er_event cl) ''idempotency_hash'')"

text \<open>A claim that continues the log: built on its base commit, naming its predecessor, with a later sequence.\<close>

definition claim_linked :: "event_read \<Rightarrow> git_commit \<Rightarrow> reservation option \<Rightarrow> bool" where
  "claim_linked cl base previous \<longleftrightarrow>
     fld (er_event cl) ''base_revision'' = JStr (hd (cm_parents (er_commit cl)))
     \<and> cm_tree (er_commit cl) = cm_tree base
     \<and> fld (er_event cl) ''previous_claim'' = previous_sha previous
     \<and> claim_sequence cl > previous_sequence previous"

definition readSlot ::
  "(int \<Rightarrow> nat \<Rightarrow> string) \<Rightarrow> (string \<Rightarrow> string) \<Rightarrow> string \<Rightarrow> objects \<Rightarrow> string \<Rightarrow> nat
     \<Rightarrow> (nat, js) jmap \<times> (nat, js) jmap \<Rightarrow> reservation option \<Rightarrow> reservation reading" where
  "readSlot frac sha256 repository obs family slot classified previous =
     (case readEvent frac sha256 repository obs (the (jm_get (fst classified) slot)) family slot [''reserved''] of
        Threw \<Rightarrow> Threw
      | Refused d \<Rightarrow> Refused ''claim_not_successor''
      | Got cl \<Rightarrow>
          got (read_commit obs (fld (er_event cl) ''base_revision'')) (\<lambda>base.
            if \<not> claim_linked cl base previous then Refused ''claim_not_successor''
            else let r = \<lparr>rs_slot = slot, rs_sequence = claim_sequence cl, rs_claim = cl, rs_outcome = None\<rparr>
                 in (case jm_get (snd classified) slot of
                       None \<Rightarrow> Got r
                     | Some sha \<Rightarrow>
                         (case readEvent frac sha256 repository obs sha family slot [''published'', ''abandoned''] of
                            Threw \<Rightarrow> Threw
                          | Refused d \<Rightarrow> Refused ''outcome_not_following''
                          | Got oc \<Rightarrow> if outcomeFollowsClaim oc cl then Got (r\<lparr>rs_outcome := Some oc\<rparr>)
                                     else Refused ''outcome_not_following''))))"

definition last_of :: "'a list \<Rightarrow> 'a option" where
  "last_of xs = (if xs = [] then None else Some (last xs))"

fun fold_slots ::
  "(nat \<Rightarrow> reservation option \<Rightarrow> reservation reading) \<Rightarrow> (int \<Rightarrow> nat \<Rightarrow> string) \<Rightarrow> nat list \<Rightarrow> string list
     \<Rightarrow> reservation list \<Rightarrow> reservation list reading" where
  "fold_slots read frac [] identities rs = Got rs"
| "fold_slots read frac (slot # slots) identities rs =
     got (read slot (last_of rs)) (\<lambda>r.
       let identity = claim_identity frac (rs_claim r)
       in if identity \<in> set identities then Refused ''identity_repeated''
          else fold_slots read frac slots (identity # identities) (rs @ [r]))"

definition foldReleaseLedger ::
  "(int \<Rightarrow> nat \<Rightarrow> string) \<Rightarrow> (string \<Rightarrow> string) \<Rightarrow> string \<Rightarrow> listing \<Rightarrow> objects \<Rightarrow> string \<Rightarrow> reservation list reading" where
  "foldReleaseLedger frac sha256 repository refs obs family =
     (case classifyRefs frac refs family of
        Inl d \<Rightarrow> Refused d
      | Inr classified \<Rightarrow>
          fold_slots (\<lambda>slot previous. readSlot frac sha256 repository obs family slot classified previous)
            frac [1..<Suc (length (fst classified))] [] [])"

definition next_slot :: "reservation list \<Rightarrow> nat" where
  "next_slot rs = Suc (length rs)"

definition highest :: "reservation list \<Rightarrow> int" where
  "highest rs = previous_sequence (last_of rs)"

section \<open>Messages\<close>

lemma until_blank_line: "nl \<notin> set t \<Longrightarrow> until [nl, nl] (t @ nl # nl # b) = Some (t, b)"
  by (induction t) auto

lemma json_line: "printable v \<Longrightarrow> json_parse (json_text frac v @ [nl]) = Some v"
proof -
  assume v: "printable v"
  have "ends_number [nl]" by (simp add: is_digit_def less_eq_char_def)
  from json_read [OF v this, of frac "2 * length (json_text frac v @ [nl]) + 2"] show ?thesis
    by (simp add: json_parse_def skip_def json_ws_def)
qed

lemma family_name_chars: "release_family_name s \<Longrightarrow> list_all family_char s"
  by (auto simp: release_family_name_def family_char_def list_all_iff split: list.splits)

lemma no_newline:
  "is_digit c \<Longrightarrow> c \<noteq> nl" "family_char c \<Longrightarrow> c \<noteq> nl"
  by (auto simp: family_char_def lower_or_digit_def is_digit_def is_lower_def less_eq_char_def)

lemma show_int_newline:
  assumes "0 \<le> i"
  shows "nl \<notin> set (show_int i)"
proof
  assume "nl \<in> set (show_int i)"
  then have "nl \<in> set (show_nat (nat i))" using assms by (simp add: show_int_def)
  then have "is_digit nl" using show_nat_digits by blast
  then show False using no_newline(1) by blast
qed

text \<open>An event whose subject terms are plain.\<close>

definition plain_event :: "js \<Rightarrow> bool" where
  "plain_event e \<longleftrightarrow> printable e \<and> (\<exists>family slot sequence kind.
     fld e ''family'' = JStr family \<and> release_family_name family
     \<and> fld e ''slot'' = JInt slot \<and> 0 \<le> slot \<and> slot < 10 ^ 21
     \<and> fld e ''sequence'' = JInt sequence \<and> 0 \<le> sequence \<and> sequence < 10 ^ 21
     \<and> fld e ''event'' = JStr kind \<and> kind \<in> {''reserved'', ''published'', ''abandoned''})"

lemma family_run:
  assumes "release_family_name f"
  shows "f \<noteq> [] \<and> (\<forall>c \<in> set f. family_char c)"
  using family_name_chars [OF assms] assms by (auto simp: release_family_name_def list_all_iff)

lemma subject_parses:
  assumes "release_family_name f" and "0 \<le> slot" and "0 \<le> sequence" and "kind \<in> {''reserved'', ''published'', ''abandoned''}"
  shows "parse_subject (''gc release identity: '' @ f @ '' slot '' @ show_int slot @ '' #'' @ show_int sequence @ '' '' @ kind)
    = Some (f, nat slot, nat sequence, kind)"
proof -
  have digits: "run is_digit nonempty (show_int n @ CHR '' '' # s) = Some (show_nat (nat n), CHR '' '' # s)" if "0 \<le> n" for n s
  proof -
    have "\<not> is_digit (CHR '' '')" by (simp add: is_digit_def less_eq_char_def)
    then show ?thesis
      using run_append [OF show_nat_digits [of "nat n"], of "CHR '' ''" nonempty s] that
      by (simp add: show_int_def nonempty_def)
  qed
  have fam: "run family_char nonempty (f @ CHR '' '' # s) = Some (f, CHR '' '' # s)" for s
    using family_run [OF assms(1)]
    by (intro run_append) (auto simp: nonempty_def family_char_def lower_or_digit_def is_digit_def is_lower_def less_eq_char_def)
  show ?thesis
    unfolding parse_subject_def
    using digits assms fam lit_append [of "''gc release identity: ''"] lit_append [of "'' slot ''"] lit_append [of "'' #''"] lit_append [of "'' ''"]
    by (simp add: dec_val_show_nat)
qed


lemma plain_parses:
  assumes "plain_event e"
  shows "parseReleaseEventMessage frac sha256 (buildReleaseEventMessage frac e) =
    (if int (unit_length (buildReleaseEventMessage frac e)) > event_message_max then Refused ''message''
     else if \<not> shape_accepts frac sha256 (text_of (fld e ''event'')) e then Refused ''shape'' else Got e)"
proof -
  obtain family slot sequence kind where e: "fld e ''family'' = JStr family" "release_family_name family"
    "fld e ''slot'' = JInt slot" "0 \<le> slot" "slot < 10 ^ 21"
    "fld e ''sequence'' = JInt sequence" "0 \<le> sequence" "sequence < 10 ^ 21"
    "fld e ''event'' = JStr kind" "kind \<in> {''reserved'', ''published'', ''abandoned''}"
    using assms by (auto simp: plain_event_def)
  define head where "head = ''gc release identity: '' @ family @ '' slot '' @ show_int slot @ '' #'' @ show_int sequence @ '' '' @ kind"
  have m: "buildReleaseEventMessage frac e = head @ nl # nl # json_text frac e @ [nl]"
    using e by (simp add: buildReleaseEventMessage_def head_def)
  have "nl \<notin> set family" using family_name_chars [OF e(2)] no_newline(2) by (auto simp: list_all_iff)
  then have "nl \<notin> set head" using show_int_newline e(4,7,10) by (auto simp: head_def)
  then have u: "until [nl, nl] (head @ nl # nl # json_text frac e @ [nl]) = Some (head, json_text frac e @ [nl])"
    by (rule until_blank_line)
  have s: "parse_subject head = Some (family, nat slot, nat sequence, kind)"
    unfolding head_def by (rule subject_parses [OF e(2,4,7,10)])
  have j: "json_parse (json_text frac e @ [nl]) = Some e" using assms by (intro json_line) (simp add: plain_event_def)
  have mp: "is_mapping e" using e(1) by (cases e) (simp_all add: fld_def is_mapping_def)
  have nt: "\<not> shape_throws kind e" using e(10) by (auto simp: shape_throws_def inherited_names_def)
  show ?thesis
    using e s j mp nt unfolding parseReleaseEventMessage_def m u by (simp add: text_of_def)
qed

lemma plain_builds:
  assumes "plain_event e"
  shows "buildValidatedReleaseEventMessage frac sha256 e =
    (if int (unit_length (buildReleaseEventMessage frac e)) \<le> event_message_max
        \<and> shape_accepts frac sha256 (text_of (fld e ''event'')) e
     then Some (buildReleaseEventMessage frac e) else None)"
  using plain_parses [OF assms, of frac sha256]
  by (simp add: buildValidatedReleaseEventMessage_def Let_def sameJson_def)

lemma built_parses:
  assumes "plain_event e" and "buildValidatedReleaseEventMessage frac sha256 e = Some m"
  shows "parseReleaseEventMessage frac sha256 m = Got e"
  using assms(2) plain_parses [OF assms(1), of frac sha256] by (auto simp: plain_builds [OF assms(1)] split: if_splits)

text \<open>
  C39. An event of the server's own making is written exactly when it has one of the three shapes and its message
  fits, and the message reads back as exactly the event: nothing written to the log is later rejected by
  the parser or read as another event.
\<close>

theorem event_message_roundtrip:
  assumes "plain_event e"
  shows "buildValidatedReleaseEventMessage frac sha256 e =
      (if int (unit_length (buildReleaseEventMessage frac e)) \<le> event_message_max
          \<and> shape_accepts frac sha256 (text_of (fld e ''event'')) e
       then Some (buildReleaseEventMessage frac e) else None)
    \<and> (\<forall>m. buildValidatedReleaseEventMessage frac sha256 e = Some m \<longrightarrow> parseReleaseEventMessage frac sha256 m = Got e)"
  using built_parses [OF assms] by (simp add: plain_builds [OF assms])

definition sample_abandoned :: js where
  "sample_abandoned = JObj [(''schema'', JStr event_schema), (''repository'', JStr ''o/r''), (''family'', JStr ''app''),
     (''slot'', JInt 1), (''sequence'', JInt 1), (''event'', JStr ''abandoned''), (''issue_number'', JInt 7),
     (''idempotency_hash'', JStr (replicate 64 (CHR ''a''))), (''reason'', JStr ''superseded'')]"

lemma event_message_roundtrip_witness:
  "parseReleaseEventMessage (\<lambda>p q. []) (\<lambda>s. []) (buildReleaseEventMessage (\<lambda>p q. []) sample_abandoned) = Got sample_abandoned"
proof -
  have flds: "fld sample_abandoned ''family'' = JStr ''app''" "fld sample_abandoned ''slot'' = JInt 1"
    "fld sample_abandoned ''sequence'' = JInt 1" "fld sample_abandoned ''event'' = JStr ''abandoned''"
    "printable sample_abandoned" "release_family_name ''app''" by code_simp+
  then have "plain_event sample_abandoned" by (simp add: plain_event_def)
  moreover have "shape_accepts (\<lambda>p q. []) (\<lambda>s. []) ''abandoned'' sample_abandoned" by code_simp
  moreover have "int (unit_length (buildReleaseEventMessage (\<lambda>p q. []) sample_abandoned)) \<le> event_message_max" by code_simp
  ultimately show ?thesis
    using event_message_roundtrip [of sample_abandoned "\<lambda>p q. []" "\<lambda>s. []"] flds by (simp add: text_of_def)
qed

end
