(* ===== verification/ReleaseIdentity.thy ===== *)
theory ReleaseIdentity
  imports ReleaseLedger RunLane CallTree
begin

text \<open>
  The release-identity tool (\<open>lib/release-identity.js\<close>) with its GitHub calls
  (\<open>lib/release-identity-github.js\<close>) and its issue-thread records (\<open>lib/release-identity-records.js\<close>): reserve,
  publish, abandon and status, as call trees over the requests they make. A request that fails throws,
  and a throw that nothing catches ends in one fixed refusal.

  A refusal is its code with the reservation it shows, if any. The YAML parser with the normalizers of the
  other sections, SHA-256, the sensitive-content test and the containment check of the checkout's file
  system are parameters.
\<close>

section \<open>Requests and answers\<close>

record tree_entry =
  te_path :: string
  te_type :: string
  te_mode :: string
  te_sha :: string

datatype request =
    ListRefs string
  | ReadCommit string
  | ReadObjects
  | ReadTree string
  | ReadBlob string
  | ReadIssue int
  | CreateCommit string string string
  | CreateRef string string
  | ReadUser
  | ListComments int
  | PostComment int string
  | ActiveBranch
  | PathsOutside "(string \<times> string) list"

text \<open>\<open>Comments\<close> pairs every comment with its \<open>html_url\<close>.\<close>

datatype answer =
    Failed
  | Listing listing
  | Commit git_commit
  | Objects objects
  | Tree "tree_entry list"
  | Blob "string option"
  | IssueIs js
  | Created string
  | Done
  | User "string option"
  | Comments "(comment \<times> js) list"
  | Posted js
  | Branch "string option"
  | Outside "string option"

type_synonym 'r op = "(request, answer, 'r) calls"

text \<open>The parameters of a run, and its context (\<open>ctx\<close>).\<close>

record release_host =
  h_frac :: "int \<Rightarrow> nat \<Rightarrow> string"
  h_sha256 :: "string \<Rightarrow> string"
  h_yaml :: "string \<Rightarrow> (string option \<times> (string \<times> family) list) option"
  h_sensitive :: "string \<Rightarrow> bool"

record release_ctx =
  x_action :: string
  x_repository :: string
  x_family :: string
  x_issue :: "int option"
  x_hash :: string
  x_reason :: string
  x_local :: "(string \<times> family) list option"

section \<open>GitHub reads\<close>

definition listRefs :: "string \<Rightarrow> listing op" where
  "listRefs namespace = Ask (ListRefs namespace) (\<lambda>a. case a of Listing rs \<Rightarrow> Return rs | _ \<Rightarrow> Throw)"

definition readCommit :: "string \<Rightarrow> git_commit op" where
  "readCommit sha =
     (if git_object_id sha then Ask (ReadCommit sha) (\<lambda>a. case a of Commit c \<Rightarrow> Return c | _ \<Rightarrow> Throw) else Throw)"

definition find_ref :: "listing \<Rightarrow> string \<Rightarrow> js option" where
  "find_ref rs ref = map_option snd (find (\<lambda>e. fst e = JStr ref) rs)"

definition readRef :: "string \<Rightarrow> string option op" where
  "readRef ref = await (listRefs (case lit ''refs/'' ref of Some r \<Rightarrow> r | None \<Rightarrow> ref)) (\<lambda>rs.
     case find_ref rs ref of
       None \<Rightarrow> Return None
     | Some (JStr sha) \<Rightarrow> if git_object_id sha then Return (Some sha) else Throw
     | Some _ \<Rightarrow> Throw)"

definition branchHead :: "string \<Rightarrow> (string \<times> string) option op" where
  "branchHead branch = await (listRefs (''heads/'' @ branch)) (\<lambda>rs.
     case find_ref rs (''refs/heads/'' @ branch) of
       None \<Rightarrow> Return None
     | Some (JStr sha) \<Rightarrow> await (readCommit sha) (\<lambda>c. Return (Some (cm_sha c, cm_tree c)))
     | Some _ \<Rightarrow> Throw)"

datatype path_entry = Absent | RegularFile string | OtherEntry | Blocked

definition readTree :: "string \<Rightarrow> tree_entry list op" where
  "readTree sha =
     (if git_object_id sha then Ask (ReadTree sha) (\<lambda>a. case a of Tree es \<Rightarrow> Return es | _ \<Rightarrow> Throw) else Throw)"

fun lookup_segments :: "string \<Rightarrow> string list \<Rightarrow> path_entry op" where
  "lookup_segments tree [] = Return Absent"
| "lookup_segments tree (seg # segs) = await (readTree tree) (\<lambda>es.
     case find (\<lambda>e. te_path e = seg) es of
       None \<Rightarrow> Return Absent
     | Some e \<Rightarrow>
         if segs = [] then
           if te_type e = ''blob'' \<and> te_mode e \<in> {''100644'', ''100755''}
           then (if git_object_id (te_sha e) then Return (RegularFile (te_sha e)) else Throw)
           else Return OtherEntry
         else if te_type e \<noteq> ''tree'' then Return Blocked
         else lookup_segments (te_sha e) segs)"

definition lookupPath :: "string \<Rightarrow> string \<Rightarrow> path_entry op" where
  "lookupPath root path = lookup_segments root (split_on (CHR ''/'') path)"

definition readBlobText :: "string \<Rightarrow> string option op" where
  "readBlobText sha =
     (if git_object_id sha then Ask (ReadBlob sha) (\<lambda>a. case a of Blob t \<Rightarrow> Return t | _ \<Rightarrow> Throw) else Throw)"

definition createCommit :: "string \<Rightarrow> string \<Rightarrow> string \<Rightarrow> string op" where
  "createCommit message tree parent =
     Ask (CreateCommit message tree parent) (\<lambda>a. case a of
       Created sha \<Rightarrow> if git_object_id sha then Return sha else Throw | _ \<Rightarrow> Throw)"

definition authenticatedLogin :: "string option op" where
  "authenticatedLogin = Ask ReadUser (\<lambda>a. case a of
     User u \<Rightarrow> Return (case u of Some l \<Rightarrow> if l = [] then None else Some l | None \<Rightarrow> None) | _ \<Rightarrow> Throw)"

definition listIssueComments :: "int \<Rightarrow> (comment \<times> js) list op" where
  "listIssueComments n = Ask (ListComments n) (\<lambda>a. case a of Comments cs \<Rightarrow> Return cs | _ \<Rightarrow> Throw)"

definition postIssueComment :: "int \<Rightarrow> string \<Rightarrow> js op" where
  "postIssueComment n body = Ask (PostComment n body) (\<lambda>a. case a of
     Posted url \<Rightarrow> Return (if is_string url then url else JNull) | _ \<Rightarrow> Throw)"

text \<open>
  Create a reference; a failure is decided by reading exactly that reference back.
\<close>

datatype ref_outcome = RefCreated | RefTaken | RefUndecided

definition createLedgerRef :: "string \<Rightarrow> string \<Rightarrow> ref_outcome op" where
  "createLedgerRef ref sha = Ask (CreateRef ref sha) (\<lambda>a. case a of
     Done \<Rightarrow> Return RefCreated
   | _ \<Rightarrow> catching (await (readRef ref) (\<lambda>current. Return (case current of
                None \<Rightarrow> RefUndecided | Some s \<Rightarrow> if s = sha then RefCreated else RefTaken)))
              (Return RefUndecided))"

text \<open>The fold: the listing, then the objects it names.\<close>

definition foldLedger :: "release_host \<Rightarrow> release_ctx \<Rightarrow> reservation list reading op" where
  "foldLedger h x = await (listRefs (releaseLedgerNamespace (x_family x))) (\<lambda>refs.
     Ask ReadObjects (\<lambda>a. case a of
       Objects obs \<Rightarrow>
         (case foldReleaseLedger (h_frac h) (h_sha256 h) (x_repository x) refs obs (x_family x) of
            Threw \<Rightarrow> Throw | r \<Rightarrow> Return r)
     | _ \<Rightarrow> Throw))"

section \<open>Results\<close>

datatype release_result =
    Refusal string "js option"
  | Accepted js bool "(string \<times> js) list"
  | StatusOf int nat bool "js list"

definition outcome_event :: "reservation \<Rightarrow> js option" where
  "outcome_event r = map_option er_event (rs_outcome r)"

definition outcome_kind :: "reservation \<Rightarrow> string" where
  "outcome_kind r = (case outcome_event r of
      Some e \<Rightarrow> (case fld e ''event'' of JStr k \<Rightarrow> k | _ \<Rightarrow> ''reserved'') | None \<Rightarrow> ''reserved'')"

definition toView :: "string \<Rightarrow> string \<Rightarrow> reservation \<Rightarrow> js" where
  "toView repository family r =
     (let claim = er_event (rs_claim r)
      in JObj ([(''reservation_id'', JStr (family @ ''#'' @ show_int (rs_sequence r))), (''repository'', JStr repository),
          (''family'', JStr family), (''slot'', JInt (int (rs_slot r))), (''sequence'', JInt (rs_sequence r)),
          (''version'', fld claim ''version''), (''paths'', fld claim ''paths''), (''base_branch'', fld claim ''base_branch''),
          (''base_revision'', fld claim ''base_revision''), (''family_digest'', fld claim ''family_digest''),
          (''issue_number'', fld claim ''issue_number''), (''idempotency_hash'', fld claim ''idempotency_hash''),
          (''branch'', fld claim ''branch''), (''state'', JStr (outcome_kind r)),
          (''claim_ref'', JStr (releaseLedgerRef family ''claims'' (rs_slot r))),
          (''claim_commit'', JStr (cm_sha (er_commit (rs_claim r))))]
         @ (case rs_outcome r of
              None \<Rightarrow> []
            | Some oc \<Rightarrow>
                [(''outcome_ref'', JStr (releaseLedgerRef family ''outcomes'' (rs_slot r))),
                 (''outcome_commit'', JStr (cm_sha (er_commit oc)))]
                @ (if outcome_kind r = ''published''
                   then [(''published_revision'', fld (er_event oc) ''published_revision''),
                         (''artifacts'', fld (er_event oc) ''artifacts'')] else [])
                @ (if outcome_kind r = ''abandoned'' then [(''reason'', fld (er_event oc) ''reason'')] else []))))"

section \<open>Records on the issue thread\<close>

definition releaseIdentityRecordMarker :: "js \<Rightarrow> string \<Rightarrow> string \<Rightarrow> string" where
  "releaseIdentityRecordMarker view event commit =
     ''<!-- gc:release-identity family=\"'' @ text_of (fld view ''family'')
     @ ''\" slot=\"'' @ js_string (\<lambda>_ _. []) (fld view ''slot'') @ ''\" sequence=\"'' @ js_string (\<lambda>_ _. []) (fld view ''sequence'')
     @ ''\" event=\"'' @ event @ ''\" commit=\"'' @ commit @ ''\" -->''"

definition code_span :: "string \<Rightarrow> string" where
  "code_span s = CHR 0x60 # s @ [CHR 0x60]"

definition row :: "string \<Rightarrow> string \<Rightarrow> string" where
  "row label value = ''| '' @ label @ '' | '' @ value @ '' |''"

text \<open>The em dash and the arrow of the headings, as UTF-8.\<close>

definition em_dash :: string where "em_dash = [CHR 0xE2, CHR 0x80, CHR 0x94]"
definition arrow :: string where "arrow = [CHR 0xE2, CHR 0x86, CHR 0x92]"

definition renderRecord :: "js \<Rightarrow> string \<Rightarrow> string \<Rightarrow> string" where
  "renderRecord view event commit =
     (let str = \<lambda>k. js_string (\<lambda>_ _. []) (fld view k);
          entries = \<lambda>k. (case fld view k of JObj fs \<Rightarrow> fs | _ \<Rightarrow> [])
      in join [nl]
        ([releaseIdentityRecordMarker view event commit, [],
          ''## Release identity '' @ em_dash @ '' '' @ code_span (str ''family'') @ '' #'' @ str ''sequence'' @ '' '' @ em_dash @ '' '' @ event,
          [], ''| Field | Value |'', ''|---|---|'',
          row ''Repository'' (code_span (str ''repository'')), row ''Version'' (code_span (str ''version'')),
          row ''Base'' (code_span (str ''base_branch'') @ '' @ '' @ code_span (str ''base_revision'')),
          row ''Idempotency hash'' (code_span (str ''idempotency_hash''))]
         @ map (\<lambda>(k, p). row (''Path '' @ code_span k) (code_span (js_string (\<lambda>_ _. []) p))) (entries ''paths'')
         @ [row ''Event'' (code_span (if event = ''reserved'' then str ''claim_ref'' else str ''outcome_ref'')
              @ '' '' @ arrow @ '' '' @ code_span commit)]
         @ (if event = ''published''
            then row ''Published at'' (code_span (str ''base_branch'') @ '' @ '' @ code_span (str ''published_revision''))
                 # map (\<lambda>(k, b). row (''Artifact '' @ code_span k) (''blob '' @ code_span (js_string (\<lambda>_ _. []) b))) (entries ''artifacts'')
            else [])
         @ (if event = ''abandoned'' then [row ''Reason'' (code_span (str ''reason''))] else [])
         @ [[], ''Recorded by the MCP server from the repository reservation log. The identity is never reissued.''])
       @ [nl])"

definition eventsOf :: "js \<Rightarrow> (string \<times> string) list" where
  "eventsOf view = (''reserved'', text_of (fld view ''claim_commit''))
     # (case fld view ''outcome_commit'' of
          JStr c \<Rightarrow> if c = [] then [] else [(text_of (fld view ''state''), c)] | _ \<Rightarrow> [])"

definition comment_body_max :: int where "comment_body_max = 65535"

text \<open>The records still pending, or the addresses of all of them.\<close>

fun post_records ::
  "js \<Rightarrow> int \<Rightarrow> (comment \<times> js) list \<Rightarrow> (string \<times> string) list \<Rightarrow> (string \<times> js) list \<Rightarrow> string list
     \<Rightarrow> (string list + (string \<times> js) list) op" where
  "post_records view issue own [] urls pending = Return (if pending = [] then Inr urls else Inl pending)"
| "post_records view issue own ((event, commit) # events) urls pending =
     (case find (\<lambda>(c, _). starts_with (releaseIdentityRecordMarker view event commit) (c_body c)) own of
        Some (_, url) \<Rightarrow> post_records view issue own events (urls @ [(event, coalesce url JNull)]) pending
      | None \<Rightarrow>
          await (catching (await (postIssueComment issue (renderRecord view event commit)) (\<lambda>u. Return (Some u))) (Return None))
            (\<lambda>posted. case posted of
               Some url \<Rightarrow> post_records view issue own events (urls @ [(event, url)]) pending
             | None \<Rightarrow> post_records view issue own events urls (pending @ [event])))"

definition ensureReleaseIdentityRecords :: "release_host \<Rightarrow> js \<Rightarrow> (string list + (string \<times> js) list) op" where
  "ensureReleaseIdentityRecords h view =
     (let wanted = eventsOf view;
          bodies = map (\<lambda>(e, c). renderRecord view e c) wanted;
          issue = (case fld view ''issue_number'' of JInt n \<Rightarrow> n | _ \<Rightarrow> 0)
      in if list_ex (\<lambda>b. h_sensitive h b \<or> int (length b) > comment_body_max) bodies
         then Return (Inl (map fst wanted))
         else await (catching
                (await authenticatedLogin (\<lambda>login. case login of
                   None \<Rightarrow> Return None
                 | Some l \<Rightarrow> await (listIssueComments issue) (\<lambda>cs. Return (Some (l, cs)))))
                (Return None))
              (\<lambda>read. case read of
                 None \<Rightarrow> Return (Inl (map fst wanted))
               | Some (l, cs) \<Rightarrow>
                   post_records view issue (filter (\<lambda>(c, _). (case c_author c of Some a \<Rightarrow> lower a = lower l | None \<Rightarrow> False)) cs)
                     wanted [] []))"

definition respondWithRecords :: "release_host \<Rightarrow> release_ctx \<Rightarrow> reservation \<Rightarrow> bool \<Rightarrow> release_result op" where
  "respondWithRecords h x r reused =
     (let view = toView (x_repository x) (x_family x) r
      in await (ensureReleaseIdentityRecords h view) (\<lambda>records. Return (case records of
           Inl pending \<Rightarrow> Refusal ''release_identity_issue_record_failed'' (Some view)
         | Inr urls \<Rightarrow> Accepted view reused urls)))"

definition isTrustedImplementRunBranch :: "int \<Rightarrow> string \<Rightarrow> bool op" where
  "isTrustedImplementRunBranch issue branch = await authenticatedLogin (\<lambda>login. case login of
      None \<Rightarrow> Return False
    | Some l \<Rightarrow> await (listIssueComments issue) (\<lambda>cs. Return (implementPickupRecordedBy (map fst cs) (Some l) branch)))"

section \<open>Reserving\<close>

definition issue_js :: "release_ctx \<Rightarrow> js" where
  "issue_js x = (case x_issue x of Some n \<Rightarrow> JInt n | None \<Rightarrow> JNull)"

definition owned_claim :: "release_ctx \<Rightarrow> reservation \<Rightarrow> bool" where
  "owned_claim x r \<longleftrightarrow> fld (er_event (rs_claim r)) ''issue_number'' = issue_js x
     \<and> fld (er_event (rs_claim r)) ''idempotency_hash'' = JStr (x_hash x)"

definition ownedBy :: "reservation list \<Rightarrow> release_ctx \<Rightarrow> reservation option" where
  "ownedBy rs x = find (owned_claim x) rs"

definition issue_number :: "release_ctx \<Rightarrow> int" where
  "issue_number x = (case x_issue x of Some n \<Rightarrow> n | None \<Rightarrow> 0)"

definition js_text :: "string option \<Rightarrow> js" where
  "js_text b = (case b of Some s \<Rightarrow> JStr s | None \<Rightarrow> JNull)"

definition requireRunBranch :: "release_host \<Rightarrow> release_ctx \<Rightarrow> js option \<Rightarrow> (release_result + string) op" where
  "requireRunBranch h x expected = Ask ActiveBranch (\<lambda>a. case a of
     Branch active \<Rightarrow>
       (let branchMatches = (case expected of
              None \<Rightarrow> isReleaseIssueBranch (h_frac h) (js_text active) (issue_js x)
            | Some e \<Rightarrow> js_text active = e)
        in case active of
             Some b \<Rightarrow>
               if branchMatches
               then await (isTrustedImplementRunBranch (issue_number x) b) (\<lambda>trusted.
                      Return (if trusted then Inr b else Inl (Refusal ''release_identity_run_not_authorized'' None)))
               else Return (Inl (Refusal ''release_identity_run_not_authorized'' None))
           | None \<Rightarrow> Return (Inl (Refusal ''release_identity_run_not_authorized'' None)))
   | _ \<Rightarrow> Throw)"

definition checkIssue :: "release_ctx \<Rightarrow> bool \<Rightarrow> release_result option op" where
  "checkIssue x requireOpen = Ask (ReadIssue (issue_number x)) (\<lambda>a. case a of
     IssueIs issue \<Rightarrow> Return
       (if fld issue ''number'' \<noteq> issue_js x \<or> \<not> nullish (fld issue ''pull_request'')
        then Some (Refusal ''release_identity_issue_not_an_issue'' None)
        else if requireOpen \<and> fld issue ''state'' \<noteq> JStr ''open''
        then Some (Refusal ''release_identity_issue_not_open'' None) else None)
   | _ \<Rightarrow> Throw)"

text \<open>
  \<open>families[name]\<close>: a property of its own, or one every object inherits (of the names the family
  grammar admits, only \<open>constructor\<close>).
\<close>

datatype looked_up = Own family | Inherited | Missing

definition lookup_family :: "(string \<times> family) list \<Rightarrow> string \<Rightarrow> looked_up" where
  "lookup_family fams name = (case map_of fams name of
      Some f \<Rightarrow> Own f | None \<Rightarrow> if name = ''constructor'' then Inherited else Missing)"

text \<open>The base branch of a found family, \<open>undefined\<close> for an inherited property.\<close>

definition base_of :: "looked_up \<Rightarrow> string option" where
  "base_of l = (case l of Own f \<Rightarrow> Some (fam_base_branch f) | _ \<Rightarrow> None)"

definition shown_base :: "string option \<Rightarrow> string" where
  "shown_base b = (case b of Some s \<Rightarrow> s | None \<Rightarrow> ''undefined'')"

record release_base =
  rb_sha :: string
  rb_tree :: string
  rb_family :: looked_up

definition readBaseFamily :: "release_host \<Rightarrow> release_ctx \<Rightarrow> string option \<Rightarrow> (release_result + release_base) op" where
  "readBaseFamily h x baseBranch = await (branchHead (shown_base baseBranch)) (\<lambda>head. case head of
     None \<Rightarrow> Return (Inl (Refusal ''release_identity_base_branch_missing'' None))
   | Some (sha, tree) \<Rightarrow>
       await (lookupPath tree ''.ground-control.yaml'') (\<lambda>entry.
       await (case entry of RegularFile blob \<Rightarrow> readBlobText blob | _ \<Rightarrow> Return None) (\<lambda>content.
         let parsed = (case content of None \<Rightarrow> None | Some t \<Rightarrow> h_yaml h t);
             declared = (case parsed of None \<Rightarrow> None | Some (repo, _) \<Rightarrow> repo)
         in Return
           (if (case declared of None \<Rightarrow> False | Some d \<Rightarrow> lower d \<noteq> lower (x_repository x))
            then Inl (Refusal ''release_identity_base_repo_mismatch'' None)
            else let found = (case parsed of None \<Rightarrow> Missing | Some (_, fams) \<Rightarrow> lookup_family fams (x_family x))
                 in if found = Missing \<or> base_of found \<noteq> baseBranch
                    then Inl (Refusal ''release_identity_family_not_on_base'' None)
                    else Inr \<lparr>rb_sha = sha, rb_tree = tree, rb_family = found\<rparr>))))"

definition claim_version :: "reservation \<Rightarrow> js" where
  "claim_version r = fld (er_event (rs_claim r)) ''version''"

definition claim_paths :: "reservation \<Rightarrow> string list" where
  "claim_paths r = map text_of (obj_values (fld (er_event (rs_claim r)) ''paths''))"

definition collides :: "release_identity \<Rightarrow> reservation \<Rightarrow> bool" where
  "collides identity r \<longleftrightarrow> claim_version r = JStr (rid_version identity)
     \<or> releasePathSetsOverlap (claim_paths r) (map snd (rid_paths identity))"

fun paths_taken :: "string \<Rightarrow> string list \<Rightarrow> bool op" where
  "paths_taken tree [] = Return False"
| "paths_taken tree (p # ps) = await (lookupPath tree p) (\<lambda>e. if e \<noteq> Absent then Return True else paths_taken tree ps)"

definition identityCollision :: "reservation list \<Rightarrow> release_identity \<Rightarrow> string \<Rightarrow> string option op" where
  "identityCollision rs identity tree =
     (if releasePathsConflict (map snd (rid_paths identity)) then Return (Some ''paths_conflict'')
      else if list_ex (collides identity) rs then Return (Some ''already_owned'')
      else await (paths_taken tree (map snd (rid_paths identity))) (\<lambda>taken.
        Return (if taken then Some ''path_exists'' else None)))"

definition claim_event :: "release_host \<Rightarrow> release_ctx \<Rightarrow> release_base \<Rightarrow> family \<Rightarrow> reservation list \<Rightarrow> string \<Rightarrow> int \<Rightarrow> js" where
  "claim_event h x base f rs branch sequence =
     (let identity = renderReleaseIdentity f sequence
      in JObj [(''schema'', JStr event_schema), (''repository'', JStr (x_repository x)), (''family'', JStr (x_family x)),
          (''slot'', JInt (int (next_slot rs))), (''sequence'', JInt sequence), (''event'', JStr ''reserved''),
          (''issue_number'', issue_js x), (''idempotency_hash'', JStr (x_hash x)), (''branch'', JStr branch),
          (''previous_claim'', previous_sha (last_of rs)), (''version'', JStr (rid_version identity)),
          (''paths'', paths_js (rid_paths identity)), (''base_branch'', JStr (fam_base_branch f)),
          (''base_revision'', JStr (rb_sha base)), (''family_definition'', family_js f),
          (''family_digest'', JStr (releaseFamilyDigest (h_sha256 h) f))])"

text \<open>An inherited family has no templates: rendering it throws.\<close>

definition claimNext ::
  "release_host \<Rightarrow> release_ctx \<Rightarrow> release_base \<Rightarrow> reservation list \<Rightarrow> string \<Rightarrow> (release_result + ref_outcome) op" where
  "claimNext h x base rs branch = (case rb_family base of
     Own f \<Rightarrow>
       (let sequence = max (fam_sequence_floor f) (highest rs + 1);
            identity = renderReleaseIdentity f sequence
        in if \<not> releaseSequenceRenderable f (JInt sequence) \<or> int (next_slot rs) > ledger_slots_max
           then Return (Inl (Refusal ''release_identity_sequence_exhausted'' None))
           else Ask (PathsOutside (rid_paths identity)) (\<lambda>a. case a of
             Outside (Some key) \<Rightarrow> Return (Inl (Refusal ''release_identity_path_escapes_checkout'' None))
           | Outside None \<Rightarrow>
               await (identityCollision rs identity (rb_tree base)) (\<lambda>collision. case collision of
                 Some why \<Rightarrow> Return (Inl (Refusal ''release_identity_identity_collision'' None))
               | None \<Rightarrow>
                   (case buildValidatedReleaseEventMessage (h_frac h) (h_sha256 h) (claim_event h x base f rs branch sequence) of
                      None \<Rightarrow> Return (Inl (Refusal ''release_identity_identity_unrepresentable'' None))
                    | Some message \<Rightarrow>
                        await (createCommit message (rb_tree base) (rb_sha base)) (\<lambda>sha.
                        await (createLedgerRef (releaseLedgerRef (x_family x) ''claims'' (next_slot rs)) sha) (\<lambda>made.
                          Return (Inr made)))))
           | _ \<Rightarrow> Throw))
   | _ \<Rightarrow> Throw)"

definition claim_attempts_max :: nat where "claim_attempts_max = 8"

fun claimAvailableIdentity ::
  "release_host \<Rightarrow> release_ctx \<Rightarrow> release_base \<Rightarrow> nat \<Rightarrow> reservation list \<Rightarrow> string \<Rightarrow> release_result op" where
  "claimAvailableIdentity h x base 0 rs branch = Return (Refusal ''release_identity_allocation_contended'' None)"
| "claimAvailableIdentity h x base (Suc attempts) rs branch = await (claimNext h x base rs branch) (\<lambda>claimed. case claimed of
     Inl refused \<Rightarrow> Return refused
   | Inr RefUndecided \<Rightarrow> Return (Refusal ''release_identity_write_undecided'' None)
   | Inr made \<Rightarrow> await (foldLedger h x) (\<lambda>refold. case refold of
       Got rs' \<Rightarrow>
         (case ownedBy rs' x of
            Some owned \<Rightarrow> respondWithRecords h x owned (made \<noteq> RefCreated)
          | None \<Rightarrow> claimAvailableIdentity h x base attempts rs' branch)
     | _ \<Rightarrow> Return (Refusal ''release_identity_log_malformed'' None)))"

definition reserve :: "release_host \<Rightarrow> release_ctx \<Rightarrow> release_result op" where
  "reserve h x = await (foldLedger h x) (\<lambda>fld0. case fld0 of
     Got rs \<Rightarrow>
       (case ownedBy rs x of
          Some existing \<Rightarrow> respondWithRecords h x existing True
        | None \<Rightarrow> await (checkIssue x True) (\<lambda>notIssue. case notIssue of
            Some refused \<Rightarrow> Return refused
          | None \<Rightarrow>
              (case x_local x of
                 None \<Rightarrow> Return (Refusal ''release_identity_config_invalid'' None)
               | Some fams \<Rightarrow>
                   (let local = lookup_family fams (x_family x)
                    in if local = Missing then Return (Refusal ''release_identity_family_not_configured'' None)
                       else await (requireRunBranch h x None) (\<lambda>ran. case ran of
                         Inl refused \<Rightarrow> Return refused
                       | Inr branch \<Rightarrow> await (readBaseFamily h x (base_of local)) (\<lambda>base. case base of
                           Inl refused \<Rightarrow> Return refused
                         | Inr b \<Rightarrow> claimAvailableIdentity h x b claim_attempts_max rs branch))))))
   | _ \<Rightarrow> Return (Refusal ''release_identity_log_malformed'' None))"

section \<open>Publishing and abandoning\<close>

definition outcome_event_js :: "release_ctx \<Rightarrow> reservation \<Rightarrow> string \<Rightarrow> (string \<times> js) list \<Rightarrow> js" where
  "outcome_event_js x r kind extra =
     JObj ([(''schema'', JStr event_schema), (''repository'', JStr (x_repository x)), (''family'', JStr (x_family x)),
        (''slot'', JInt (int (rs_slot r))), (''sequence'', JInt (rs_sequence r)), (''event'', JStr kind),
        (''issue_number'', fld (er_event (rs_claim r)) ''issue_number''),
        (''idempotency_hash'', fld (er_event (rs_claim r)) ''idempotency_hash'')] @ extra)"

text \<open>\<open>None\<close>: the event cannot be represented.\<close>

definition appendOutcome ::
  "release_host \<Rightarrow> release_ctx \<Rightarrow> reservation \<Rightarrow> string \<times> (string \<times> js) list \<Rightarrow> ref_outcome option op" where
  "appendOutcome h x r outcome = (case outcome of (kind, extra) \<Rightarrow>
     (case buildValidatedReleaseEventMessage (h_frac h) (h_sha256 h) (outcome_event_js x r kind extra) of
        None \<Rightarrow> Return None
      | Some message \<Rightarrow>
          await (createCommit message (cm_tree (er_commit (rs_claim r))) (cm_sha (er_commit (rs_claim r)))) (\<lambda>sha.
          await (createLedgerRef (releaseLedgerRef (x_family x) ''outcomes'' (rs_slot r)) sha) (\<lambda>made. Return (Some made)))))"

definition terminalRefusal :: "release_ctx \<Rightarrow> reservation \<Rightarrow> release_result" where
  "terminalRefusal x r = Refusal (if outcome_kind r = ''published'' then ''release_identity_already_published''
       else ''release_identity_reservation_abandoned'') (Some (toView (x_repository x) (x_family x) r))"

definition transition ::
  "release_host \<Rightarrow> release_ctx \<Rightarrow> (js \<Rightarrow> bool) \<Rightarrow> (reservation \<Rightarrow> (release_result + string \<times> (string \<times> js) list) op)
     \<Rightarrow> release_result op" where
  "transition h x isIdentical decide = await (foldLedger h x) (\<lambda>first. case first of
     Got rs \<Rightarrow>
       (case ownedBy rs x of
          None \<Rightarrow> Return (Refusal ''release_identity_reservation_not_found'' None)
        | Some r \<Rightarrow>
            (case rs_outcome r of
               Some oc \<Rightarrow> if isIdentical (er_event oc) then respondWithRecords h x r True else Return (terminalRefusal x r)
             | None \<Rightarrow> await (checkIssue x False) (\<lambda>notIssue. case notIssue of
                 Some refused \<Rightarrow> Return refused
               | None \<Rightarrow> await (decide r) (\<lambda>decided. case decided of
                   Inl refused \<Rightarrow> Return refused
                 | Inr outcome \<Rightarrow> await (appendOutcome h x r outcome) (\<lambda>made. case made of
                     None \<Rightarrow> Return (Refusal ''release_identity_identity_unrepresentable'' None)
                   | Some RefUndecided \<Rightarrow> Return (Refusal ''release_identity_write_undecided'' None)
                   | Some created \<Rightarrow> await (foldLedger h x) (\<lambda>settled. case settled of
                       Got rs' \<Rightarrow>
                         (case ownedBy rs' x of
                            None \<Rightarrow> Return (Refusal ''release_identity_write_undecided'' None)
                          | Some winner \<Rightarrow>
                              (case rs_outcome winner of
                                 None \<Rightarrow> Return (Refusal ''release_identity_write_undecided'' None)
                               | Some oc \<Rightarrow>
                                   if isIdentical (er_event oc) then respondWithRecords h x winner (created = RefTaken)
                                   else Return (terminalRefusal x winner)))
                     | _ \<Rightarrow> Return (Refusal ''release_identity_log_malformed'' None)))))))
   | _ \<Rightarrow> Return (Refusal ''release_identity_log_malformed'' None))"

fun verifyArtifactsAt :: "string \<Rightarrow> (string \<times> js) list \<Rightarrow> (string \<times> js) list \<Rightarrow> string list \<Rightarrow> ((string \<times> js) list \<times> string list) op" where
  "verifyArtifactsAt tree [] artifacts missing = Return (artifacts, missing)"
| "verifyArtifactsAt tree ((key, path) # paths) artifacts missing = await (lookupPath tree (text_of path)) (\<lambda>e. case e of
     RegularFile sha \<Rightarrow> verifyArtifactsAt tree paths (artifacts @ [(key, JStr sha)]) missing
   | _ \<Rightarrow> verifyArtifactsAt tree paths artifacts (missing @ [key]))"

definition head_observations_max :: nat where "head_observations_max = 3"

fun observe_head ::
  "release_ctx \<Rightarrow> reservation \<Rightarrow> nat \<Rightarrow> (string \<times> string) option \<Rightarrow> (release_result + string \<times> (string \<times> js) list) op" where
  "observe_head x r 0 head = Return (Inl (Refusal ''release_identity_base_unstable'' None))"
| "observe_head x r (Suc observations) head = (case head of
     None \<Rightarrow> Return (Inl (Refusal ''release_identity_base_branch_missing'' None))
   | Some (sha, tree) \<Rightarrow>
       (let claim = er_event (rs_claim r);
            paths = (case fld claim ''paths'' of JObj fs \<Rightarrow> fs | _ \<Rightarrow> [])
        in await (verifyArtifactsAt tree paths [] []) (\<lambda>(artifacts, missing).
             if missing \<noteq> []
             then Return (Inl (Refusal ''release_identity_artifacts_missing_on_base'' (Some (toView (x_repository x) (x_family x) r))))
             else await (branchHead (text_of (fld claim ''base_branch''))) (\<lambda>again.
               if map_option fst again = Some sha
               then Return (Inr (''published'', [(''published_revision'', JStr sha), (''artifacts'', JObj artifacts)]))
               else observe_head x r observations again))))"

definition decide_publish :: "release_ctx \<Rightarrow> reservation \<Rightarrow> (release_result + string \<times> (string \<times> js) list) op" where
  "decide_publish x r = await (branchHead (text_of (fld (er_event (rs_claim r)) ''base_branch''))) (\<lambda>head.
     observe_head x r head_observations_max head)"

definition publish :: "release_host \<Rightarrow> release_ctx \<Rightarrow> release_result op" where
  "publish h x = transition h x (\<lambda>e. fld e ''event'' = JStr ''published'') (decide_publish x)"

definition decide_abandon ::
  "release_host \<Rightarrow> release_ctx \<Rightarrow> reservation \<Rightarrow> (release_result + string \<times> (string \<times> js) list) op" where
  "decide_abandon h x r = await (requireRunBranch h x (Some (fld (er_event (rs_claim r)) ''branch''))) (\<lambda>ran.
     Return (case ran of Inl refused \<Rightarrow> Inl refused | Inr _ \<Rightarrow> Inr (''abandoned'', [(''reason'', JStr (x_reason x))])))"

definition abandon :: "release_host \<Rightarrow> release_ctx \<Rightarrow> release_result op" where
  "abandon h x = transition h x
     (\<lambda>e. fld e ''event'' = JStr ''abandoned'' \<and> fld e ''reason'' = JStr (x_reason x)) (decide_abandon h x)"

section \<open>Status and the tool call\<close>

definition status_reservations_max :: nat where "status_reservations_max = 200"

definition status :: "release_host \<Rightarrow> release_ctx \<Rightarrow> release_result op" where
  "status h x = await (foldLedger h x) (\<lambda>first. case first of
     Got rs \<Rightarrow>
       (let matching = filter (\<lambda>r. x_issue x = None \<or> fld (er_event (rs_claim r)) ''issue_number'' = issue_js x) rs
        in Return (StatusOf (highest rs) (length matching) (length matching \<le> status_reservations_max)
             (map (toView (x_repository x) (x_family x)) (drop (length matching - status_reservations_max) matching))))
   | _ \<Rightarrow> Return (Refusal ''release_identity_log_malformed'' None))"

definition idempotency_key :: "js \<Rightarrow> bool" where
  "idempotency_key v = (case v of
      JStr (c # s) \<Rightarrow> int (length s) < 128 \<and> alnum c
        \<and> list_all (\<lambda>d. alnum d \<or> d \<in> {CHR ''.'', CHR ''_'', CHR '':'', CHR ''-''}) s
    | _ \<Rightarrow> False)"

definition input_fields :: "string list" where
  "input_fields = [''action'', ''repoPath'', ''issueNumber'', ''family'', ''idempotencyKey'', ''reason'']"

definition release_actions :: "string list" where
  "release_actions = [''reserve'', ''publish'', ''abandon'', ''status'']"

definition validateInput :: "js \<Rightarrow> string option" where
  "validateInput i =
     (if \<not> (case i of JObj fs \<Rightarrow> list_all (\<lambda>(k, v). k \<in> set input_fields) fs | JArr vs \<Rightarrow> vs = [] | _ \<Rightarrow> False)
      then Some ''release_identity_input_unexpected_field''
      else if fld i ''action'' \<notin> JStr ` set release_actions then Some ''release_identity_action_invalid''
      else if \<not> (case fld i ''repoPath'' of JStr p \<Rightarrow> starts_with ''/'' p | _ \<Rightarrow> False) then Some ''release_identity_repo_path_invalid''
      else if \<not> (case fld i ''family'' of JStr f \<Rightarrow> release_family_name f | _ \<Rightarrow> False) then Some ''release_identity_family_invalid''
      else if \<not> (fld i ''action'' = JStr ''status'' \<and> nullish (fld i ''issueNumber'') \<or> is_pos_int (fld i ''issueNumber''))
      then Some ''release_identity_issue_number_invalid''
      else if \<not> (if fld i ''action'' = JStr ''status'' then nullish (fld i ''idempotencyKey'') else idempotency_key (fld i ''idempotencyKey''))
      then Some ''release_identity_idempotency_key_invalid''
      else if \<not> (if fld i ''action'' = JStr ''abandon'' then fld i ''reason'' \<in> JStr ` set abandon_reasons else nullish (fld i ''reason''))
      then Some ''release_identity_reason_invalid''
      else None)"

definition release_context :: "release_host \<Rightarrow> js \<Rightarrow> string \<Rightarrow> (string \<times> family) list option \<Rightarrow> release_ctx" where
  "release_context h i repository families =
     \<lparr>x_action = text_of (fld i ''action''), x_repository = repository, x_family = text_of (fld i ''family''),
      x_issue = as_int (fld i ''issueNumber''),
      x_hash = (case fld i ''idempotencyKey'' of JStr k \<Rightarrow> h_sha256 h k | _ \<Rightarrow> []),
      x_reason = text_of (fld i ''reason''),
      x_local = (if fld i ''action'' = JStr ''reserve'' then families else None)\<rparr>"

definition release_operation :: "release_host \<Rightarrow> release_ctx \<Rightarrow> release_result op" where
  "release_operation h x =
     (if x_action x = ''reserve'' then reserve h x
      else if x_action x = ''publish'' then publish h x
      else if x_action x = ''abandon'' then abandon h x
      else status h x)"

text \<open>
  \<open>repository\<close> is what the launch-workspace authorization of the checkout answers (\<open>owner/name\<close>), \<open>families\<close> the
  release families of its configuration.
\<close>

definition runReleaseIdentity ::
  "release_host \<Rightarrow> js \<Rightarrow> string option \<Rightarrow> (string \<times> family) list option \<Rightarrow> release_result op" where
  "runReleaseIdentity h i repository families =
     (case validateInput i of
        Some e \<Rightarrow> Return (Refusal e None)
      | None \<Rightarrow>
          (case repository of
             None \<Rightarrow> Return (Refusal ''release_identity_repo_not_authorized'' None)
           | Some repo \<Rightarrow>
               if \<not> github_repo_ok repo then Return (Refusal ''release_identity_repo_not_authorized'' None)
               else catching (release_operation h (release_context h i repo families))
                      (Return (Refusal ''release_identity_github_unavailable'' None))))"

end
