(* ===== verification/ReleaseHistory.thy ===== *)
theory ReleaseHistory
  imports ReleaseIdentity
begin

text \<open>
  What any number of concurrent \<open>gc_release_identity\<close> calls, in one server or in several, do to a repository's
  reservation log. The repository is a set of objects and the references created in it; GitHub may answer
  a listing from an earlier state, may fail any request, and may lose the answer to a write it has made.
  What it is relied on for is that objects never change and that creating a reference that exists fails.

  \<open>history\<close> is the abstract log: what one family's part of the references means. Every reachable repository has
  one (so the fold never finds a malformed log), it only grows, and no two of its reservations share
  anything.
\<close>

section \<open>The repository\<close>

record remote =
  rm_refs :: "(string \<times> string) list"
  rm_objects :: objects

definition ledger_root :: string where "ledger_root = ''gc/release-identities/''"

definition listed :: "string \<Rightarrow> (string \<times> string) list \<Rightarrow> (js \<times> js) set" where
  "listed namespace refs = (\<lambda>(r, s). (JStr r, JStr s)) ` {e \<in> set refs. starts_with (''refs/'' @ namespace) (fst e)}"

text \<open>Requests that have nothing to do with the log: any answer.\<close>

fun elsewhere :: "request \<Rightarrow> bool" where
  "elsewhere (ListRefs namespace) = (\<not> starts_with ledger_root namespace)"
| "elsewhere (ReadCommit _) = False"
| "elsewhere ReadObjects = False"
| "elsewhere (CreateCommit _ _ _) = False"
| "elsewhere (CreateRef _ _) = False"
| "elsewhere _ = True"

definition add_object :: "git_commit \<Rightarrow> remote \<Rightarrow> remote" where
  "add_object c w = w\<lparr>rm_objects := (rm_objects w)(cm_sha c \<mapsto> c)\<rparr>"

definition add_reference :: "string \<Rightarrow> string \<Rightarrow> remote \<Rightarrow> remote" where
  "add_reference ref sha w = w\<lparr>rm_refs := rm_refs w @ [(ref, sha)]\<rparr>"

definition new_object :: "remote \<Rightarrow> git_commit \<Rightarrow> bool" where
  "new_object w c \<longleftrightarrow> git_object_id (cm_sha c) \<and> (rm_objects w (cm_sha c) = None \<or> rm_objects w (cm_sha c) = Some c)"

inductive serve :: "remote \<Rightarrow> request \<Rightarrow> answer \<Rightarrow> remote \<Rightarrow> bool" where
  request_fails: "serve w q Failed w"
| answer_elsewhere: "elsewhere q \<Longrightarrow> serve w q a w"
| answer_listing: "starts_with ledger_root namespace \<Longrightarrow> distinct refs \<Longrightarrow> set refs = listed namespace (take n (rm_refs w)) \<Longrightarrow>
    serve w (ListRefs namespace) (Listing refs) w"
| answer_commit: "rm_objects w sha = Some c \<Longrightarrow> serve w (ReadCommit sha) (Commit c) w"
| answer_objects: "obs \<subseteq>\<^sub>m rm_objects w \<Longrightarrow> serve w ReadObjects (Objects obs) w"
| make_commit: "new_object w c \<Longrightarrow> cm_message c = m \<Longrightarrow> cm_tree c = tree \<Longrightarrow> cm_parents c = [parent] \<Longrightarrow>
    a \<in> {Created (cm_sha c), Failed} \<Longrightarrow> serve w (CreateCommit m tree parent) a (add_object c w)"
| make_ref: "map_of (rm_refs w) ref = None \<Longrightarrow> a \<in> {Done, Failed} \<Longrightarrow>
    serve w (CreateRef ref sha) a (add_reference ref sha w)"

inductive_cases serve_listE: "serve w (ListRefs namespace) a v"
inductive_cases serve_commitE: "serve w (ReadCommit sha) a v"
inductive_cases serve_objectsE: "serve w ReadObjects a v"
inductive_cases serve_make_commitE: "serve w (CreateCommit m tree parent) a v"
inductive_cases serve_make_refE: "serve w (CreateRef ref sha) a v"

text \<open>From outside, commits are pushed.\<close>

inductive pushes :: "remote \<Rightarrow> remote \<Rightarrow> bool" where
  "new_object w c \<Longrightarrow> pushes w (add_object c w)"

definition later :: "remote \<Rightarrow> remote \<Rightarrow> bool" where
  "later w v \<longleftrightarrow> rm_objects w \<subseteq>\<^sub>m rm_objects v \<and> (\<exists>refs. rm_refs v = rm_refs w @ refs)"

section \<open>The abstract log\<close>

definition read_event :: "release_host \<Rightarrow> string \<Rightarrow> string \<Rightarrow> objects \<Rightarrow> nat \<Rightarrow> string list \<Rightarrow> event_read \<Rightarrow> bool" where
  "read_event h repo family obs slot kinds er \<longleftrightarrow>
     git_object_id (cm_sha (er_commit er))
     \<and> readEvent (h_frac h) (h_sha256 h) repo obs (JStr (cm_sha (er_commit er))) family slot kinds = Got er"

text \<open>A reservation that may follow \<open>rs\<close>.\<close>

definition may_follow :: "release_host \<Rightarrow> string \<Rightarrow> string \<Rightarrow> objects \<Rightarrow> reservation list \<Rightarrow> reservation \<Rightarrow> bool" where
  "may_follow h repo family obs rs r \<longleftrightarrow>
     rs_slot r = next_slot rs \<and> int (next_slot rs) \<le> ledger_slots_max \<and> rs_outcome r = None
     \<and> rs_sequence r = claim_sequence (rs_claim r)
     \<and> read_event h repo family obs (next_slot rs) [''reserved''] (rs_claim r)
     \<and> printable (er_event (rs_claim r)) \<and> is_string (fld (er_event (rs_claim r)) ''idempotency_hash'')
     \<and> (\<exists>base. read_commit obs (fld (er_event (rs_claim r)) ''base_revision'') = Got base
              \<and> claim_linked (rs_claim r) base (last_of rs))
     \<and> (\<forall>q \<in> set rs. claim_identity (h_frac h) (rs_claim q) \<noteq> claim_identity (h_frac h) (rs_claim r)
          \<and> claim_version q \<noteq> claim_version r \<and> \<not> releasePathSetsOverlap (claim_paths q) (claim_paths r))"

definition settles :: "release_host \<Rightarrow> string \<Rightarrow> string \<Rightarrow> objects \<Rightarrow> reservation \<Rightarrow> event_read \<Rightarrow> bool" where
  "settles h repo family obs r oc \<longleftrightarrow>
     rs_outcome r = None \<and> read_event h repo family obs (rs_slot r) [''published'', ''abandoned''] oc
     \<and> outcomeFollowsClaim oc (rs_claim r)"

definition ledger_space :: "string \<Rightarrow> string" where
  "ledger_space family = ''refs/'' @ releaseLedgerNamespace family"

inductive history ::
  "release_host \<Rightarrow> string \<Rightarrow> string \<Rightarrow> objects \<Rightarrow> (string \<times> string) list \<Rightarrow> reservation list \<Rightarrow> bool"
  for h repo family obs where
  history_empty: "history h repo family obs [] []"
| history_other: "history h repo family obs refs rs \<Longrightarrow>
    \<not> starts_with (ledger_space family) ref \<Longrightarrow>
    history h repo family obs (refs @ [(ref, sha)]) rs"
| history_claim: "history h repo family obs refs rs \<Longrightarrow> may_follow h repo family obs rs r \<Longrightarrow>
    history h repo family obs
      (refs @ [(releaseLedgerRef family ''claims'' (next_slot rs), cm_sha (er_commit (rs_claim r)))]) (rs @ [r])"
| history_outcome: "history h repo family obs refs rs \<Longrightarrow> i < length rs \<Longrightarrow> settles h repo family obs (rs ! i) oc \<Longrightarrow>
    history h repo family obs
      (refs @ [(releaseLedgerRef family ''outcomes'' (Suc i), cm_sha (er_commit oc))])
      (rs[i := (rs ! i)\<lparr>rs_outcome := Some oc\<rparr>])"

text \<open>Objects answer to their own ids, and every family has a history.\<close>

definition good :: "release_host \<Rightarrow> string \<Rightarrow> remote \<Rightarrow> bool" where
  "good h repo w \<longleftrightarrow> (\<forall>sha c. rm_objects w sha = Some c \<longrightarrow> cm_sha c = sha)
     \<and> (\<forall>family. release_family_name family \<longrightarrow> (\<exists>rs. history h repo family (rm_objects w) (rm_refs w) rs))"

text \<open>What a call may have read: the log at some earlier moment.\<close>

definition snapshot :: "release_host \<Rightarrow> string \<Rightarrow> string \<Rightarrow> remote \<Rightarrow> reservation list \<Rightarrow> bool" where
  "snapshot h repo family w rs \<longleftrightarrow> (\<exists>n \<le> length (rm_refs w). history h repo family (rm_objects w) (take n (rm_refs w)) rs)"

text \<open>A later state of the log: the same claims, and the outcomes they had.\<close>

definition grown :: "reservation list \<Rightarrow> reservation list \<Rightarrow> bool" where
  "grown rs rs' \<longleftrightarrow> length rs \<le> length rs'
     \<and> (\<forall>i < length rs. rs_claim (rs' ! i) = rs_claim (rs ! i) \<and> rs_slot (rs' ! i) = rs_slot (rs ! i)
          \<and> rs_sequence (rs' ! i) = rs_sequence (rs ! i)
          \<and> (rs_outcome (rs ! i) \<noteq> None \<longrightarrow> rs_outcome (rs' ! i) = rs_outcome (rs ! i)))"

section \<open>Histories grow\<close>

lemma read_commit_mono: "obs \<subseteq>\<^sub>m obs' \<Longrightarrow> read_commit obs sha = Got c \<Longrightarrow> read_commit obs' sha = Got c"
  by (auto simp: read_commit_def map_le_def dom_def split: js.splits option.splits)

lemma read_commit_part: "obs \<subseteq>\<^sub>m obs' \<Longrightarrow> read_commit obs' sha = Got c \<Longrightarrow> read_commit obs sha \<in> {Threw, Got c}"
  by (auto simp: read_commit_def map_le_def dom_def split: js.splits option.splits)

lemma readEvent_mono:
  "obs \<subseteq>\<^sub>m obs' \<Longrightarrow> readEvent frac sha256 repo obs sha family slot kinds = Got er \<Longrightarrow>
     readEvent frac sha256 repo obs' sha family slot kinds = Got er"
  unfolding readEvent_def by (cases "read_commit obs sha") (simp_all add: read_commit_mono)

lemma readEvent_part:
  "obs \<subseteq>\<^sub>m obs' \<Longrightarrow> readEvent frac sha256 repo obs' sha family slot kinds = Got er \<Longrightarrow>
     readEvent frac sha256 repo obs sha family slot kinds \<in> {Threw, Got er}"
  unfolding readEvent_def using read_commit_part [of obs obs' sha]
  by (cases "read_commit obs' sha") auto

lemma may_follow_mono: "obs \<subseteq>\<^sub>m obs' \<Longrightarrow> may_follow h repo family obs rs r \<Longrightarrow> may_follow h repo family obs' rs r"
  unfolding may_follow_def read_event_def using readEvent_mono read_commit_mono by blast

lemma settles_mono: "obs \<subseteq>\<^sub>m obs' \<Longrightarrow> settles h repo family obs r oc \<Longrightarrow> settles h repo family obs' r oc"
  unfolding settles_def read_event_def using readEvent_mono by blast

lemma history_mono: "history h repo family obs refs rs \<Longrightarrow> obs \<subseteq>\<^sub>m obs' \<Longrightarrow> history h repo family obs' refs rs"
  by (induction rule: history.induct) (auto intro: history.intros may_follow_mono settles_mono)

lemma later_refl: "later w w"
  by (simp add: later_def)

lemma later_trans: "later u v \<Longrightarrow> later v w \<Longrightarrow> later u w"
  unfolding later_def using map_le_trans by fastforce

lemma later_add_object: "new_object w c \<Longrightarrow> later w (add_object c w)"
  by (auto simp: later_def add_object_def new_object_def map_le_def)

lemma later_add_reference: "later w (add_reference ref sha w)"
  by (simp add: later_def add_reference_def)

lemma good_add_object:
  assumes "good h repo w" and "new_object w c"
  shows "good h repo (add_object c w)"
proof -
  have "rm_objects w \<subseteq>\<^sub>m rm_objects (add_object c w)" using later_add_object [OF assms(2)] by (simp add: later_def)
  moreover have "rm_refs (add_object c w) = rm_refs w" by (simp add: add_object_def)
  moreover have "\<forall>sha d. rm_objects (add_object c w) sha = Some d \<longrightarrow> cm_sha d = sha"
    using assms(1) by (simp add: good_def add_object_def)
  ultimately show ?thesis using assms(1) unfolding good_def by (metis history_mono)
qed

lemma pushes_keeps: "good h repo w \<Longrightarrow> pushes w v \<Longrightarrow> good h repo v \<and> later w v"
  by (auto elim!: pushes.cases intro: good_add_object later_add_object)

lemma grown_refl [simp]: "grown rs rs"
  by (simp add: grown_def)

lemma grown_append: "grown rs (rs @ qs)"
  by (simp add: grown_def nth_append)

lemma grown_outcome: "i < length rs \<Longrightarrow> rs_outcome (rs ! i) = None \<Longrightarrow> grown rs (rs[i := (rs ! i)\<lparr>rs_outcome := oc\<rparr>])"
  by (auto simp: grown_def nth_list_update)

lemma grown_nth:
  assumes "grown rs rs'" and "i < length rs"
  shows "i < length rs'" "rs_claim (rs' ! i) = rs_claim (rs ! i)" "rs_slot (rs' ! i) = rs_slot (rs ! i)"
    "rs_sequence (rs' ! i) = rs_sequence (rs ! i)" "rs_outcome (rs ! i) \<noteq> None \<Longrightarrow> rs_outcome (rs' ! i) = rs_outcome (rs ! i)"
  using assms by (auto simp: grown_def)

lemma grown_trans:
  assumes "grown rs qs" and "grown qs ps"
  shows "grown rs ps"
  unfolding grown_def
proof (intro conjI allI impI)
  show "length rs \<le> length ps" using assms by (simp add: grown_def)
  fix i assume i: "i < length rs"
  note a = grown_nth [OF assms(1) i] and b = grown_nth [OF assms(2) grown_nth(1) [OF assms(1) i]]
  show "rs_claim (ps ! i) = rs_claim (rs ! i)" "rs_slot (ps ! i) = rs_slot (rs ! i)"
    "rs_sequence (ps ! i) = rs_sequence (rs ! i)" using a b by simp_all
  show "rs_outcome (rs ! i) \<noteq> None \<Longrightarrow> rs_outcome (ps ! i) = rs_outcome (rs ! i)" using a b by simp
qed

lemma history_take:
  "history h repo family obs refs rs \<Longrightarrow> \<exists>qs. history h repo family obs (take n refs) qs \<and> grown qs rs"
proof (induction arbitrary: n rule: history.induct)
  case history_empty
  then show ?case using history.history_empty by fastforce
next
  case (history_other refs rs ref sha)
  show ?case
  proof (cases "n \<le> length refs")
    case True
    then show ?thesis using history_other.IH [of n] by simp
  next
    case False
    then show ?thesis using history.history_other [OF history_other.hyps] by fastforce
  qed
next
  case (history_claim refs rs r)
  show ?case
  proof (cases "n \<le> length refs")
    case True
    then obtain qs where "history h repo family obs (take n refs) qs" "grown qs rs" using history_claim.IH by blast
    moreover have "grown rs (rs @ [r])" by (rule grown_append)
    ultimately show ?thesis using True grown_trans [of qs rs "rs @ [r]"] by auto
  next
    case False
    then show ?thesis using history.history_claim [OF history_claim.hyps] by fastforce
  qed
next
  case (history_outcome refs rs i oc)
  show ?case
  proof (cases "n \<le> length refs")
    case True
    then obtain qs where "history h repo family obs (take n refs) qs" "grown qs rs" using history_outcome.IH by blast
    moreover have "rs_outcome (rs ! i) = None" using history_outcome.hyps by (simp add: settles_def)
    then have "grown rs (rs[i := (rs ! i)\<lparr>rs_outcome := Some oc\<rparr>])" using history_outcome.hyps(2) by (intro grown_outcome)
    moreover have "take n (refs @ [(releaseLedgerRef family ''outcomes'' (Suc i), cm_sha (er_commit oc))]) = take n refs"
      using True by simp
    ultimately show ?thesis using grown_trans by metis
  next
    case False
    then show ?thesis using history.history_outcome [OF history_outcome.hyps] by fastforce
  qed
qed

lemma starts_with_append [simp]: "starts_with p (p @ s)"
  by (simp add: starts_with_def)

lemma ledger_ref_names [simp]:
  "starts_with (ledger_space family) (releaseLedgerRef family kind slot)"
  by (simp add: releaseLedgerRef_def ledger_space_def starts_with_def)

lemma ledger_ref_inj [simp]:
  "releaseLedgerRef family ''claims'' a = releaseLedgerRef family ''claims'' b \<longleftrightarrow> a = b"
  "releaseLedgerRef family ''outcomes'' a = releaseLedgerRef family ''outcomes'' b \<longleftrightarrow> a = b"
  "releaseLedgerRef family ''claims'' a \<noteq> releaseLedgerRef family ''outcomes'' b"
  "releaseLedgerRef family ''outcomes'' b \<noteq> releaseLedgerRef family ''claims'' a"
  by (simp_all add: releaseLedgerRef_def)

lemma may_follow_unique:
  assumes "may_follow h repo family obs rs r" and "may_follow h repo family obs rs q"
    and "cm_sha (er_commit (rs_claim r)) = cm_sha (er_commit (rs_claim q))"
  shows "r = q"
proof -
  have "rs_claim r = rs_claim q" using assms unfolding may_follow_def read_event_def by (metis reading.inject(2))
  then show ?thesis using assms(1,2) by (intro reservation.equality) (simp_all add: may_follow_def)
qed

lemma settles_unique:
  "settles h repo family obs r oc \<Longrightarrow> settles h repo family obs r od \<Longrightarrow>
     cm_sha (er_commit oc) = cm_sha (er_commit od) \<Longrightarrow> oc = od"
  unfolding settles_def read_event_def by (metis reading.inject(2))

lemma history_unique:
  "history h repo family obs refs rs \<Longrightarrow> history h repo family obs refs qs \<Longrightarrow> rs = qs"
proof (induction arbitrary: qs rule: history.induct)
  case history_empty
  then show ?case by (cases rule: history.cases) simp_all
next
  case (history_other refs rs ref sha)
  from history_other.prems show ?case
  proof (cases rule: history.cases)
    case (history_other refs' ref' sha')
    then show ?thesis using \<open>\<And>qs. history h repo family obs refs qs \<Longrightarrow> rs = qs\<close> by simp
  next
    case (history_claim refs' rs' r')
    then show ?thesis using history_other.hyps(2) by simp
  next
    case (history_outcome refs' rs' i oc)
    then show ?thesis using history_other.hyps(2) by simp
  qed simp
next
  case (history_claim refs rs r)
  note hyps = history_claim.hyps and IH = history_claim.IH
  from history_claim.prems show ?case
  proof (cases rule: history.cases)
    case (history_other refs' ref' sha')
    then show ?thesis using ledger_ref_names by fastforce
  next
    case (history_claim refs' rs' r')
    then have "history h repo family obs refs rs'" "cm_sha (er_commit (rs_claim r)) = cm_sha (er_commit (rs_claim r'))"
      by simp_all
    moreover then have "rs = rs'" using IH by blast
    ultimately show ?thesis using history_claim(2,4) hyps(2) may_follow_unique by blast
  next
    case (history_outcome refs' rs' i oc)
    then show ?thesis by simp
  qed simp
next
  case (history_outcome refs rs i oc)
  note hyps = history_outcome.hyps and IH = history_outcome.IH
  from history_outcome.prems show ?case
  proof (cases rule: history.cases)
    case (history_other refs' ref' sha')
    then show ?thesis using ledger_ref_names by fastforce
  next
    case (history_claim refs' rs' r')
    then show ?thesis by simp
  next
    case (history_outcome refs' rs' j od)
    then have "history h repo family obs refs rs'" "i = j" "cm_sha (er_commit oc) = cm_sha (er_commit od)"
      by simp_all
    moreover then have "rs = rs'" using IH by blast
    ultimately show ?thesis using history_outcome(2,5) hyps(3) settles_unique by blast
  qed simp
qed

lemma snapshot_later:
  assumes "snapshot h repo family w rs" and "later w v"
  shows "snapshot h repo family v rs"
proof -
  obtain n where n: "n \<le> length (rm_refs w)" "history h repo family (rm_objects w) (take n (rm_refs w)) rs"
    using assms(1) by (auto simp: snapshot_def)
  obtain refs where "rm_objects w \<subseteq>\<^sub>m rm_objects v" "rm_refs v = rm_refs w @ refs" using assms(2) by (auto simp: later_def)
  then have "history h repo family (rm_objects v) (take n (rm_refs v)) rs" "n \<le> length (rm_refs v)"
    using n by (simp_all add: history_mono)
  then show ?thesis by (auto simp: snapshot_def)
qed

lemma snapshot_grown:
  assumes "snapshot h repo family w rs" and "history h repo family (rm_objects w) (rm_refs w) qs"
  shows "grown rs qs"
proof -
  obtain n where "history h repo family (rm_objects w) (take n (rm_refs w)) rs" using assms(1) by (auto simp: snapshot_def)
  then show ?thesis using history_take [OF assms(2), of n] history_unique by blast
qed

section \<open>What a history says\<close>

text \<open>The slot \<open>i + 1\<close> of a log, as the fold reads it.\<close>

definition sound_slot :: "release_host \<Rightarrow> string \<Rightarrow> string \<Rightarrow> objects \<Rightarrow> reservation list \<Rightarrow> nat \<Rightarrow> bool" where
  "sound_slot h repo family obs rs i \<longleftrightarrow>
     rs_slot (rs ! i) = Suc i \<and> rs_sequence (rs ! i) = claim_sequence (rs_claim (rs ! i))
     \<and> printable (er_event (rs_claim (rs ! i))) \<and> is_string (fld (er_event (rs_claim (rs ! i))) ''idempotency_hash'')
     \<and> read_event h repo family obs (Suc i) [''reserved''] (rs_claim (rs ! i))
     \<and> (\<exists>base. read_commit obs (fld (er_event (rs_claim (rs ! i))) ''base_revision'') = Got base
              \<and> claim_linked (rs_claim (rs ! i)) base (last_of (take i rs)))
     \<and> (\<forall>oc. rs_outcome (rs ! i) = Some oc \<longrightarrow>
          read_event h repo family obs (Suc i) [''published'', ''abandoned''] oc \<and> outcomeFollowsClaim oc (rs_claim (rs ! i)))"

text \<open>Two reservations that share nothing.\<close>

definition apart :: "release_host \<Rightarrow> reservation \<Rightarrow> reservation \<Rightarrow> bool" where
  "apart h q r \<longleftrightarrow> claim_identity (h_frac h) (rs_claim q) \<noteq> claim_identity (h_frac h) (rs_claim r)
     \<and> claim_version q \<noteq> claim_version r \<and> \<not> releasePathSetsOverlap (claim_paths q) (claim_paths r)"

lemma apart_same: "rs_claim q' = rs_claim q \<Longrightarrow> rs_claim r' = rs_claim r \<Longrightarrow> apart h q' r' = apart h q r"
  by (simp add: apart_def claim_version_def claim_paths_def)

definition sound_log :: "release_host \<Rightarrow> string \<Rightarrow> string \<Rightarrow> objects \<Rightarrow> reservation list \<Rightarrow> bool" where
  "sound_log h repo family obs rs \<longleftrightarrow> int (length rs) \<le> ledger_slots_max
     \<and> (\<forall>i < length rs. sound_slot h repo family obs rs i) \<and> (\<forall>i < length rs. \<forall>j < i. apart h (rs ! j) (rs ! i))"

lemma last_of_take: "i \<le> length rs \<Longrightarrow> last_of (take i rs) = (if i = 0 then None else Some (rs ! (i - 1)))"
  by (cases i) (auto simp: last_of_def take_Suc_conv_app_nth)

lemma last_of_all: "last_of (take (length rs) rs) = last_of rs"
  by simp

lemma linked_same:
  assumes "grown rs qs" and "i \<le> length rs"
  shows "claim_linked cl base (last_of (take i qs)) = claim_linked cl base (last_of (take i rs))"
proof (cases "i = 0")
  case False
  then have "i - 1 < length rs" using assms(2) by simp
  note g = grown_nth [OF assms(1) this]
  have "i \<le> length qs" using g(1) by simp
  then show ?thesis using False assms(2) g(2,4)
    by (simp add: last_of_take claim_linked_def previous_sha_def previous_sequence_def)
qed (simp add: last_of_def)

lemma sound_slot_append: "sound_slot h repo family obs rs i \<Longrightarrow> i < length rs \<Longrightarrow> sound_slot h repo family obs (rs @ qs) i"
  by (simp add: sound_slot_def nth_append)

lemma history_sound: "history h repo family obs refs rs \<Longrightarrow> sound_log h repo family obs rs"
proof (induction rule: history.induct)
  case history_empty
  then show ?case by (simp add: sound_log_def ledger_slots_max_def)
next
  case (history_claim refs rs r)
  note m = history_claim.hyps(2) [unfolded may_follow_def]
  have new: "sound_slot h repo family obs (rs @ [r]) (length rs)"
    using m by (simp add: sound_slot_def next_slot_def)
  show ?case unfolding sound_log_def
  proof (intro conjI allI impI)
    show "int (length (rs @ [r])) \<le> ledger_slots_max" using m by (simp add: next_slot_def)
  next
    fix i assume i: "i < length (rs @ [r])"
    show "sound_slot h repo family obs (rs @ [r]) i"
      using history_claim.IH new i by (cases "i < length rs") (auto simp: sound_log_def sound_slot_append less_Suc_eq)
  next
    fix i j assume "i < length (rs @ [r])" "j < i"
    then show "apart h ((rs @ [r]) ! j) ((rs @ [r]) ! i)"
      using history_claim.IH m by (cases "i < length rs") (auto simp: sound_log_def nth_append apart_def less_Suc_eq)
  qed
next
  case (history_outcome refs rs i oc)
  let ?r = "(rs ! i)\<lparr>rs_outcome := Some oc\<rparr>"
  let ?qs = "rs[i := ?r]"
  note st = history_outcome.hyps(3) [unfolded settles_def]
  have g: "grown rs ?qs" using history_outcome.hyps(2) st by (simp add: grown_outcome)
  show ?case unfolding sound_log_def
  proof (intro conjI allI impI)
    show "int (length ?qs) \<le> ledger_slots_max" using history_outcome.IH by (simp add: sound_log_def)
  next
    fix j assume "j < length ?qs"
    then have j: "j < length rs" by simp
    then have old: "sound_slot h repo family obs rs j" using history_outcome.IH by (simp add: sound_log_def)
    show "sound_slot h repo family obs ?qs j"
    proof (cases "j = i")
      case True
      then show ?thesis using old st j linked_same [OF g, of j] by (simp add: sound_slot_def)
    next
      case False
      then show ?thesis using old j linked_same [OF g, of j] by (simp add: sound_slot_def)
    qed
  next
    fix j k assume "j < length ?qs" "k < j"
    then have jk: "j < length rs" "k < length rs" "k < j" by simp_all
    then have "apart h (rs ! k) (rs ! j)" using history_outcome.IH by (simp add: sound_log_def)
    then show "apart h (?qs ! k) (?qs ! j)"
      using apart_same [of "?qs ! k" "rs ! k" "?qs ! j" "rs ! j" h] grown_nth(2) [OF g] jk by simp
  qed
qed

text \<open>The references of a family are exactly those of its log.\<close>

definition slot_entries :: "string \<Rightarrow> nat \<Rightarrow> reservation \<Rightarrow> (string \<times> string) set" where
  "slot_entries family i r =
     insert (releaseLedgerRef family ''claims'' (Suc i), cm_sha (er_commit (rs_claim r)))
       (case rs_outcome r of None \<Rightarrow> {} | Some oc \<Rightarrow> {(releaseLedgerRef family ''outcomes'' (Suc i), cm_sha (er_commit oc))})"

definition entries :: "string \<Rightarrow> reservation list \<Rightarrow> (string \<times> string) set" where
  "entries family rs = (\<Union>i \<in> {..<length rs}. slot_entries family i (rs ! i))"

lemma entries_append:
  assumes "rs_outcome r = None"
  shows "entries family (rs @ [r]) =
     insert (releaseLedgerRef family ''claims'' (next_slot rs), cm_sha (er_commit (rs_claim r))) (entries family rs)"
proof -
  have "(\<Union>i \<in> {..<length rs}. slot_entries family i ((rs @ [r]) ! i)) = entries family rs"
    unfolding entries_def by (intro SUP_cong) (simp_all add: nth_append)
  then show ?thesis using assms by (simp add: entries_def lessThan_Suc slot_entries_def next_slot_def)
qed

lemma entries_outcome:
  assumes "i < length rs" and "rs_outcome (rs ! i) = None"
  shows "entries family (rs[i := (rs ! i)\<lparr>rs_outcome := Some oc\<rparr>]) =
     insert (releaseLedgerRef family ''outcomes'' (Suc i), cm_sha (er_commit oc)) (entries family rs)"
proof -
  let ?I = "{..<length rs} - {i}"
  have I: "{..<length rs} = insert i ?I" using assms(1) by auto
  have "(\<Union>j \<in> ?I. slot_entries family j (rs[i := (rs ! i)\<lparr>rs_outcome := Some oc\<rparr>] ! j)) = (\<Union>j \<in> ?I. slot_entries family j (rs ! j))"
    by (intro SUP_cong) simp_all
  moreover have "slot_entries family i ((rs ! i)\<lparr>rs_outcome := Some oc\<rparr>)
      = insert (releaseLedgerRef family ''outcomes'' (Suc i), cm_sha (er_commit oc)) (slot_entries family i (rs ! i))"
    using assms(2) by (auto simp: slot_entries_def)
  ultimately show ?thesis using assms(1) unfolding entries_def length_list_update
    by (subst (1 2) I) (simp del: insert_Diff_single)
qed

lemma history_refs:
  "history h repo family obs refs rs \<Longrightarrow> {e \<in> set refs. starts_with (ledger_space family) (fst e)} = entries family rs"
proof (induction rule: history.induct)
  case history_empty
  then show ?case by (simp add: entries_def)
next
  case (history_other refs rs ref sha)
  have "{e \<in> set (refs @ [(ref, sha)]). starts_with (ledger_space family) (fst e)}
      = {e \<in> set refs. starts_with (ledger_space family) (fst e)}" using history_other.hyps(2) by auto
  with history_other.IH show ?case by simp
next
  case (history_claim refs rs r)
  have "rs_outcome r = None" using history_claim.hyps(2) by (simp add: may_follow_def)
  moreover have "{e \<in> set (refs @ [x]). starts_with (ledger_space family) (fst e)}
      = insert x {e \<in> set refs. starts_with (ledger_space family) (fst e)}"
    if "starts_with (ledger_space family) (fst x)" for x using that by auto
  ultimately show ?case by (simp add: entries_append history_claim.IH)
next
  case (history_outcome refs rs i oc)
  have "rs_outcome (rs ! i) = None" using history_outcome.hyps(3) by (simp add: settles_def)
  moreover have "{e \<in> set (refs @ [x]). starts_with (ledger_space family) (fst e)}
      = insert x {e \<in> set refs. starts_with (ledger_space family) (fst e)}"
    if "starts_with (ledger_space family) (fst x)" for x using that by auto
  ultimately show ?case using history_outcome.hyps(2) by (simp add: entries_outcome history_outcome.IH)
qed

section \<open>The fold reads a history\<close>

lemma slot_segment_show: "1 \<le> n \<Longrightarrow> int n \<le> ledger_slots_max \<Longrightarrow> slot_segment (show_nat n)"
proof -
  assume n: "1 \<le> n" "int n \<le> ledger_slots_max"
  then have "n < 10 ^ 5" by (simp add: ledger_slots_max_def)
  then have "length (show_nat n) \<le> 5" using radix_str_length [of 10 n 5] by (simp add: show_nat_def)
  moreover obtain c cs where c: "show_nat n = c # cs" by (cases "show_nat n") auto
  moreover have "\<forall>d \<in> set (show_nat n). is_digit d" by (rule show_nat_digits)
  moreover have "c \<noteq> CHR ''0''" using show_nat_head [of n] n(1) c by simp
  ultimately show ?thesis by (simp add: slot_segment_def list_all_iff)
qed

lemma show_nat_no_slash: "CHR ''/'' \<notin> set (show_nat n)"
proof -
  have "\<not> is_digit (CHR ''/'')" by (simp add: is_digit_def less_eq_char_def)
  then show ?thesis using show_nat_digits by blast
qed

lemma parse_ledger_ref:
  assumes "1 \<le> n" and "int n \<le> ledger_slots_max" and "git_object_id sha"
  shows "parseLedgerRef frac (ledger_space family) (JStr (releaseLedgerRef family ''claims'' n), JStr sha) = Some (Claims, n)"
    and "parseLedgerRef frac (ledger_space family) (JStr (releaseLedgerRef family ''outcomes'' n), JStr sha) = Some (Outcomes, n)"
proof -
  have d: "drop (length (ledger_space family)) (releaseLedgerRef family kind n) = kind @ CHR ''/'' # show_nat n" for kind
    by (simp add: ledger_space_def releaseLedgerRef_def)
  have s: "split_on (CHR ''/'') (''claims'' @ CHR ''/'' # show_nat n) = [''claims'', show_nat n]"
    "split_on (CHR ''/'') (''outcomes'' @ CHR ''/'' # show_nat n) = [''outcomes'', show_nat n]"
    by (simp_all add: split_one show_nat_no_slash)
  have g: "slot_segment (show_nat n)" using assms(1,2) by (rule slot_segment_show)
  have o: "object_id frac (JStr sha)" using assms(3) by (simp add: object_id_def)
  show "parseLedgerRef frac (ledger_space family) (JStr (releaseLedgerRef family ''claims'' n), JStr sha) = Some (Claims, n)"
    unfolding parseLedgerRef_def prod.case js.case d s using g o by (simp add: nullish_def)
  show "parseLedgerRef frac (ledger_space family) (JStr (releaseLedgerRef family ''outcomes'' n), JStr sha) = Some (Outcomes, n)"
    unfolding parseLedgerRef_def prod.case js.case d s using g o by (simp add: nullish_def)
qed

lemma collect_refs_read:
  assumes "\<forall>e \<in> set refs. parseLedgerRef frac space e = Some (kind e, slot e)"
    and "distinct (map (\<lambda>e. (kind e, slot e)) refs)"
    and "\<forall>e \<in> set refs. jm_get (if kind e = Claims then claims else outcomes) (slot e) = None"
  shows "collect_refs frac space refs (claims, outcomes) = Some
    (claims @ map (\<lambda>e. (slot e, snd e)) (filter (\<lambda>e. kind e = Claims) refs),
     outcomes @ map (\<lambda>e. (slot e, snd e)) (filter (\<lambda>e. kind e = Outcomes) refs))"
  using assms
proof (induction refs arbitrary: claims outcomes)
  case (Cons e refs)
  have get: "jm_get (m @ [(s, v)]) t = (case jm_get m t of None \<Rightarrow> if t = s then Some v else None | Some w \<Rightarrow> Some w)" for m s v t
    by (auto simp: jm_get_def map_add_def split: option.splits)
  have p: "parseLedgerRef frac space e = Some (kind e, slot e)" using Cons.prems(1) by simp
  have new: "jm_get (if kind e = Claims then claims else outcomes) (slot e) = None" using Cons.prems(3) by simp
  have rest: "\<forall>f \<in> set refs. kind f \<noteq> kind e \<or> slot f \<noteq> slot e" using Cons.prems(2) by (auto simp: image_iff)
  show ?case
  proof (cases "kind e")
    case Claims
    then have "add_ref frac space e (claims, outcomes) = Some (claims @ [(slot e, snd e)], outcomes)"
      using p new by (simp add: add_ref_def jm.entries_put_new)
    moreover have "\<forall>f \<in> set refs. jm_get (if kind f = Claims then claims @ [(slot e, snd e)] else outcomes) (slot f) = None"
    proof
      fix f assume f: "f \<in> set refs"
      then have "jm_get (if kind f = Claims then claims else outcomes) (slot f) = None" using Cons.prems(3) by simp
      then show "jm_get (if kind f = Claims then claims @ [(slot e, snd e)] else outcomes) (slot f) = None"
        using rest f Claims by (cases "kind f") (auto simp: get)
    qed
    ultimately show ?thesis using Cons.IH [of "claims @ [(slot e, snd e)]" outcomes] Cons.prems(1,2) Claims by simp
  next
    case Outcomes
    then have "add_ref frac space e (claims, outcomes) = Some (claims, outcomes @ [(slot e, snd e)])"
      using p new by (simp add: add_ref_def jm.entries_put_new)
    moreover have "\<forall>f \<in> set refs. jm_get (if kind f = Claims then claims else outcomes @ [(slot e, snd e)]) (slot f) = None"
    proof
      fix f assume f: "f \<in> set refs"
      then have "jm_get (if kind f = Claims then claims else outcomes) (slot f) = None" using Cons.prems(3) by simp
      then show "jm_get (if kind f = Claims then claims else outcomes @ [(slot e, snd e)]) (slot f) = None"
        using rest f Outcomes by (cases "kind f") (auto simp: get)
    qed
    ultimately show ?thesis using Cons.IH [of claims "outcomes @ [(slot e, snd e)]"] Cons.prems(1,2) Outcomes by simp
  qed
qed simp

definition outcome_sha :: "reservation \<Rightarrow> js option" where
  "outcome_sha r = map_option (\<lambda>oc. JStr (cm_sha (er_commit oc))) (rs_outcome r)"

lemma sound_ids:
  assumes "sound_log h repo family obs rs" and "i < length rs"
  shows "git_object_id (cm_sha (er_commit (rs_claim (rs ! i))))"
    and "rs_outcome (rs ! i) = Some oc \<Longrightarrow> git_object_id (cm_sha (er_commit oc))"
    and "int (Suc i) \<le> ledger_slots_max"
  using assms by (auto simp: sound_log_def sound_slot_def read_event_def)

lemma classify_history:
  assumes "sound_log h repo family obs rs" and "distinct refs"
    and "set refs = (\<lambda>(r, s). (JStr r, JStr s)) ` entries family rs"
  obtains claims outcomes where "classifyRefs frac refs family = Inr (claims, outcomes)"
    and "length claims = length rs"
    and "\<And>i. i < length rs \<Longrightarrow> jm_get claims (Suc i) = Some (JStr (cm_sha (er_commit (rs_claim (rs ! i)))))"
    and "\<And>i. i < length rs \<Longrightarrow> jm_get outcomes (Suc i) = outcome_sha (rs ! i)"
proof -
  let ?parse = "parseLedgerRef frac (ledger_space family)"
  let ?kind = "\<lambda>e. fst (the (?parse e))" and ?slot = "\<lambda>e. snd (the (?parse e))"
  let ?claim = "\<lambda>i. (JStr (releaseLedgerRef family ''claims'' (Suc i)), JStr (cm_sha (er_commit (rs_claim (rs ! i)))))"
  let ?outcome = "\<lambda>i oc. (JStr (releaseLedgerRef family ''outcomes'' (Suc i)), JStr (cm_sha (er_commit oc)))"
  have claim: "?parse (?claim i) = Some (Claims, Suc i)" if "i < length rs" for i
    using sound_ids [OF assms(1) that] by (intro parse_ledger_ref) simp_all
  have outcome: "?parse (?outcome i oc) = Some (Outcomes, Suc i)" if "i < length rs" "rs_outcome (rs ! i) = Some oc" for i oc
    using sound_ids [OF assms(1) that(1)] that(2) by (intro parse_ledger_ref) simp_all
  have mem: "e \<in> set refs \<longleftrightarrow> (\<exists>i < length rs. e = ?claim i \<or> (\<exists>oc. rs_outcome (rs ! i) = Some oc \<and> e = ?outcome i oc))" for e
    unfolding assms(3) entries_def slot_entries_def by (force split: option.splits)
  have shape: "\<exists>i < length rs. ?parse e = Some (Claims, Suc i) \<and> e = ?claim i
      \<or> (\<exists>oc. rs_outcome (rs ! i) = Some oc \<and> ?parse e = Some (Outcomes, Suc i) \<and> e = ?outcome i oc)"
    if "e \<in> set refs" for e
    using that unfolding mem
  proof (elim exE conjE disjE)
    fix i assume "i < length rs" "e = ?claim i"
    then show ?thesis using claim [of i] by blast
  next
    fix i oc assume "i < length rs" "rs_outcome (rs ! i) = Some oc" "e = ?outcome i oc"
    then show ?thesis using outcome [of i oc] by blast
  qed
  have parsed: "\<forall>e \<in> set refs. ?parse e = Some (?kind e, ?slot e)"
  proof
    fix e assume "e \<in> set refs"
    from shape [OF this] show "?parse e = Some (?kind e, ?slot e)" by (elim exE conjE disjE) simp_all
  qed
  have inj: "inj_on (\<lambda>e. (?kind e, ?slot e)) (set refs)"
  proof (rule inj_onI)
    fix e f assume "e \<in> set refs" "f \<in> set refs" and eq: "(?kind e, ?slot e) = (?kind f, ?slot f)"
    then obtain i j where i: "?parse e = Some (Claims, Suc i) \<and> e = ?claim i
        \<or> (\<exists>oc. rs_outcome (rs ! i) = Some oc \<and> ?parse e = Some (Outcomes, Suc i) \<and> e = ?outcome i oc)"
      and j: "?parse f = Some (Claims, Suc j) \<and> f = ?claim j
        \<or> (\<exists>oc. rs_outcome (rs ! j) = Some oc \<and> ?parse f = Some (Outcomes, Suc j) \<and> f = ?outcome j oc)"
      using shape by blast
    then have "i = j" using eq by auto
    with i j eq show "e = f" by auto
  qed
  let ?claims = "map (\<lambda>e. (?slot e, snd e)) (filter (\<lambda>e. ?kind e = Claims) refs)"
  let ?outcomes = "map (\<lambda>e. (?slot e, snd e)) (filter (\<lambda>e. ?kind e = Outcomes) refs)"
  have dist: "distinct (map (\<lambda>e. (?kind e, ?slot e)) refs)" using inj assms(2) by (simp add: distinct_map)
  have "collect_refs frac (ledger_space family) refs ([], []) = Some ([] @ ?claims, [] @ ?outcomes)"
    using parsed dist by (intro collect_refs_read) (simp_all add: jm_get_def)
  then have coll: "collect_refs frac (ledger_space family) refs ([], []) = Some (?claims, ?outcomes)" by simp
  have dk: "distinct (map fst (map (\<lambda>e. (?slot e, snd e)) (filter (\<lambda>e. ?kind e = k) refs)))" for k
  proof -
    have "inj_on ?slot (set (filter (\<lambda>e. ?kind e = k) refs))"
    proof (rule inj_onI)
      fix e f assume ef: "e \<in> set (filter (\<lambda>e. ?kind e = k) refs)" "f \<in> set (filter (\<lambda>e. ?kind e = k) refs)" "?slot e = ?slot f"
      then have "(?kind e, ?slot e) = (?kind f, ?slot f)" "e \<in> set refs" "f \<in> set refs" by simp_all
      with inj show "e = f" by (rule inj_onD)
    qed
    moreover have "map fst (map (\<lambda>e. (?slot e, snd e)) xs) = map ?slot xs" for xs by simp
    ultimately show ?thesis using assms(2) by (simp only: distinct_map distinct_filter simp_thms)
  qed
  have inc: "(Suc i, v) \<in> set ?claims \<longleftrightarrow> v = snd (?claim i)" if "i < length rs" for i v
  proof
    assume "(Suc i, v) \<in> set ?claims"
    then obtain e where e: "e \<in> set refs" "?kind e = Claims" "?slot e = Suc i" "v = snd e" by auto
    with shape [OF e(1)] show "v = snd (?claim i)" by auto
  next
    assume v: "v = snd (?claim i)"
    have "?claim i \<in> set refs" unfolding mem using that by blast
    then show "(Suc i, v) \<in> set ?claims" using claim [OF that] v by (force simp: image_iff)
  qed
  have ino: "(Suc i, v) \<in> set ?outcomes \<longleftrightarrow> outcome_sha (rs ! i) = Some v" if "i < length rs" for i v
  proof
    assume "(Suc i, v) \<in> set ?outcomes"
    then obtain e where e: "e \<in> set refs" "?kind e = Outcomes" "?slot e = Suc i" "v = snd e" by auto
    with shape [OF e(1)] show "outcome_sha (rs ! i) = Some v" by (auto simp: outcome_sha_def)
  next
    assume "outcome_sha (rs ! i) = Some v"
    then obtain oc where oc: "rs_outcome (rs ! i) = Some oc" "v = snd (?outcome i oc)" by (auto simp: outcome_sha_def)
    then have "?outcome i oc \<in> set refs" unfolding mem using that by blast
    then show "(Suc i, v) \<in> set ?outcomes" using outcome [OF that oc(1)] oc(2) by (force simp: image_iff)
  qed
  have slots: "fst ` set ?claims = Suc ` {..<length rs}"
  proof (intro equalityI subsetI)
    fix n assume "n \<in> fst ` set ?claims"
    then obtain e where e: "e \<in> set refs" "?kind e = Claims" "n = ?slot e" by auto
    with shape [OF e(1)] show "n \<in> Suc ` {..<length rs}" by auto
  next
    fix n assume "n \<in> Suc ` {..<length rs}"
    then obtain i where i: "i < length rs" "n = Suc i" by auto
    then have "(Suc i, snd (?claim i)) \<in> set ?claims" using inc by blast
    then show "n \<in> fst ` set ?claims" unfolding i(2) by (rule rev_image_eqI) simp
  qed
  have oslots: "fst ` set ?outcomes \<subseteq> Suc ` {..<length rs}"
  proof
    fix n assume "n \<in> fst ` set ?outcomes"
    then obtain e where e: "e \<in> set refs" "?kind e = Outcomes" "n = ?slot e" by auto
    with shape [OF e(1)] show "n \<in> Suc ` {..<length rs}" by auto
  qed
  define claims where "claims = ?claims"
  define outcomes where "outcomes = ?outcomes"
  have len: "length claims = length rs"
  proof -
    have "distinct (map fst claims)" using dk [of Claims] unfolding claims_def .
    from distinct_card [OF this] have "length claims = card (fst ` set claims)" by simp
    also have "\<dots> = length rs" unfolding claims_def slots by (simp add: card_image)
    finally show ?thesis .
  qed
  have gc: "jm_get claims (Suc i) = Some (snd (?claim i))" if "i < length rs" for i
    using inc [OF that] dk [of Claims] by (simp add: jm_get_def claims_def map_of_eq_Some_iff del: map_map)
  have go: "jm_get outcomes (Suc i) = outcome_sha (rs ! i)" if "i < length rs" for i
  proof (cases "outcome_sha (rs ! i)")
    case None
    then have "(Suc i, v) \<notin> set outcomes" for v using ino [OF that, of v] by (simp add: outcomes_def)
    then show ?thesis using None by (auto simp: jm_get_def map_of_eq_None_iff)
  next
    case (Some v)
    then have "(Suc i, v) \<in> set outcomes" using ino [OF that, of v] by (simp add: outcomes_def)
    moreover have "distinct (map fst outcomes)" using dk [of Outcomes] by (simp add: outcomes_def)
    ultimately show ?thesis using Some by (simp add: jm_get_def)
  qed
  have "shapeProblem claims outcomes = None"
  proof -
    have "\<not> ledger_slots_max < int (length claims)" using assms(1) len by (simp add: sound_log_def)
    moreover have "list_all (\<lambda>slot. jm_get claims slot \<noteq> None) [1..<Suc (length claims)]"
      unfolding list_all_iff
    proof
      fix n assume "n \<in> set [1..<Suc (length claims)]"
      then have "1 \<le> n" "n \<le> length rs" using len by (simp_all only: set_upt atLeastLessThan_iff less_Suc_eq_le)
      then obtain i where "n = Suc i" "i < length rs" by (cases n) auto
      then show "jm_get claims n \<noteq> None" using gc by simp
    qed
    moreover have "\<not> list_ex (\<lambda>(slot, _). jm_get claims slot = None) outcomes"
    proof
      assume "list_ex (\<lambda>(slot, _). jm_get claims slot = None) outcomes"
      then obtain n v where n: "(n, v) \<in> set outcomes" "jm_get claims n = None" by (auto simp: list_ex_iff)
      then have "fst (n, v) \<in> fst ` set outcomes" by (intro imageI)
      then have "n \<in> fst ` set ?outcomes" unfolding outcomes_def fst_conv .
      then obtain i where "n = Suc i" "i < length rs" using oslots by auto
      then show False using gc n(2) by simp
    qed
    ultimately show ?thesis by (simp add: shapeProblem_def)
  qed
  then have "classifyRefs frac refs family = Inr (claims, outcomes)"
    using coll by (simp add: classifyRefs_def ledger_space_def claims_def outcomes_def)
  with len gc go show ?thesis by (intro that) simp_all
qed

text \<open>A read that finds \<open>x\<close>, unless it may throw and does.\<close>

definition finds :: "bool \<Rightarrow> 'a reading \<Rightarrow> 'a \<Rightarrow> bool" where
  "finds may_throw r x \<longleftrightarrow> r = Got x \<or> may_throw \<and> r = Threw"

lemma finds_got: "finds b r x \<Longrightarrow> (r = Got x \<Longrightarrow> finds b (f x) y) \<Longrightarrow> finds b (got r f) y"
  by (auto simp: finds_def)

lemma finds_read_commit: "obs \<subseteq>\<^sub>m all \<Longrightarrow> read_commit all sha = Got c \<Longrightarrow> finds (obs \<noteq> all) (read_commit obs sha) c"
  using read_commit_part [of obs all sha c] by (cases "obs = all") (auto simp: finds_def)

lemma finds_read_event:
  "obs \<subseteq>\<^sub>m all \<Longrightarrow> read_event h repo family all slot kinds er \<Longrightarrow>
     finds (obs \<noteq> all) (readEvent (h_frac h) (h_sha256 h) repo obs (JStr (cm_sha (er_commit er))) family slot kinds) er"
  unfolding read_event_def using readEvent_part [of obs all "h_frac h" "h_sha256 h" repo _ family slot kinds er]
  by (cases "obs = all") (auto simp: finds_def)

lemma finds_slot:
  assumes "obs \<subseteq>\<^sub>m all" and "sound_slot h repo family all rs i"
    and "jm_get claims (Suc i) = Some (JStr (cm_sha (er_commit (rs_claim (rs ! i)))))"
    and "jm_get outcomes (Suc i) = outcome_sha (rs ! i)"
  shows "finds (obs \<noteq> all)
    (readSlot (h_frac h) (h_sha256 h) repo obs family (Suc i) (claims, outcomes) (last_of (take i rs))) (rs ! i)"
proof -
  let ?cl = "rs_claim (rs ! i)"
  let ?r = "\<lparr>rs_slot = Suc i, rs_sequence = claim_sequence ?cl, rs_claim = ?cl, rs_outcome = None\<rparr>"
  note s = assms(2) [unfolded sound_slot_def]
  obtain base where base: "read_commit all (fld (er_event ?cl) ''base_revision'') = Got base"
    "claim_linked ?cl base (last_of (take i rs))" using s by blast
  have cl: "finds (obs \<noteq> all) (readEvent (h_frac h) (h_sha256 h) repo obs (JStr (cm_sha (er_commit ?cl))) family (Suc i) [''reserved'']) ?cl"
    using s assms(1) by (intro finds_read_event) simp_all
  have b: "finds (obs \<noteq> all) (read_commit obs (fld (er_event ?cl) ''base_revision'')) base"
    using assms(1) base(1) by (rule finds_read_commit)
  have oc: "finds (obs \<noteq> all) (readEvent (h_frac h) (h_sha256 h) repo obs (JStr (cm_sha (er_commit oc))) family (Suc i) [''published'', ''abandoned'']) oc"
    "outcomeFollowsClaim oc ?cl" if "rs_outcome (rs ! i) = Some oc" for oc
    using s that assms(1) by (auto intro: finds_read_event)
  have eq: "rs ! i = ?r\<lparr>rs_outcome := rs_outcome (rs ! i)\<rparr>" using s by simp
  have rest: "finds (obs \<noteq> all) (case outcome_sha (rs ! i) of
       None \<Rightarrow> Got ?r
     | Some sha \<Rightarrow>
         (case readEvent (h_frac h) (h_sha256 h) repo obs sha family (Suc i) [''published'', ''abandoned''] of
            Threw \<Rightarrow> Threw
          | Refused d \<Rightarrow> Refused ''outcome_not_following''
          | Got oc \<Rightarrow> if outcomeFollowsClaim oc ?cl then Got (?r\<lparr>rs_outcome := Some oc\<rparr>)
                     else Refused ''outcome_not_following'')) (rs ! i)"
  proof (cases "rs_outcome (rs ! i)")
    case None
    then show ?thesis using eq by (simp add: outcome_sha_def finds_def)
  next
    case (Some oc)
    then have "rs ! i = ?r\<lparr>rs_outcome := Some oc\<rparr>" using eq by simp
    then show ?thesis using oc [OF Some] Some by (auto simp: outcome_sha_def finds_def)
  qed
  show ?thesis
    using cl b base(2) rest unfolding readSlot_def fst_conv snd_conv assms(3,4) option.sel
    by (auto simp: finds_def Let_def)
qed

lemma finds_slots:
  assumes "\<And>i. i < length rs \<Longrightarrow> finds b (read (Suc i) (last_of (take i rs))) (rs ! i)"
    and "\<And>i j. i < length rs \<Longrightarrow> j < i \<Longrightarrow> claim_identity frac (rs_claim (rs ! j)) \<noteq> claim_identity frac (rs_claim (rs ! i))"
  shows "k \<le> length rs \<Longrightarrow> finds b (fold_slots read frac [Suc k..<Suc (length rs)]
    (rev (map (\<lambda>r. claim_identity frac (rs_claim r)) (take k rs))) (take k rs)) rs"
proof (induction "length rs - k" arbitrary: k)
  case 0
  then show ?case by (simp add: finds_def)
next
  case (Suc n)
  then have k: "k < length rs" by simp
  have up: "[Suc k..<Suc (length rs)] = Suc k # [Suc (Suc k)..<Suc (length rs)]" using k by (simp add: upt_rec)
  have step: "take (Suc k) rs = take k rs @ [rs ! k]" using k by (simp add: take_Suc_conv_app_nth)
  have new: "claim_identity frac (rs_claim (rs ! k)) \<notin> set (rev (map (\<lambda>r. claim_identity frac (rs_claim r)) (take k rs)))"
  proof
    assume "claim_identity frac (rs_claim (rs ! k)) \<in> set (rev (map (\<lambda>r. claim_identity frac (rs_claim r)) (take k rs)))"
    then obtain r where "r \<in> set (take k rs)" "claim_identity frac (rs_claim r) = claim_identity frac (rs_claim (rs ! k))" by auto
    then obtain j where "j < k" "claim_identity frac (rs_claim (rs ! j)) = claim_identity frac (rs_claim (rs ! k))"
      by (auto simp: in_set_conv_nth)
    with assms(2) [OF k] show False by blast
  qed
  have "finds b (fold_slots read frac [Suc (Suc k)..<Suc (length rs)]
      (rev (map (\<lambda>r. claim_identity frac (rs_claim r)) (take (Suc k) rs))) (take (Suc k) rs)) rs"
    using Suc.hyps(2) k by (intro Suc.hyps(1)) simp_all
  then show ?case unfolding up fold_slots.simps
    using assms(1) [OF k] new step by (auto intro!: finds_got simp: Let_def)
qed

lemma fold_history:
  assumes "history h repo family all refs rs" and "obs \<subseteq>\<^sub>m all" and "distinct listing"
    and "set listing = listed (releaseLedgerNamespace family) refs"
  shows "finds (obs \<noteq> all) (foldReleaseLedger (h_frac h) (h_sha256 h) repo listing obs family) rs"
proof -
  note sound = history_sound [OF assms(1)]
  have set: "set listing = (\<lambda>(r, s). (JStr r, JStr s)) ` entries family rs"
    using assms(4) history_refs [OF assms(1)] by (simp add: listed_def ledger_space_def)
  obtain claims outcomes where c: "classifyRefs (h_frac h) listing family = Inr (claims, outcomes)" "length claims = length rs"
    "\<And>i. i < length rs \<Longrightarrow> jm_get claims (Suc i) = Some (JStr (cm_sha (er_commit (rs_claim (rs ! i)))))"
    "\<And>i. i < length rs \<Longrightarrow> jm_get outcomes (Suc i) = outcome_sha (rs ! i)"
    using classify_history [OF sound assms(3) set, of "h_frac h"] by blast
  have "finds (obs \<noteq> all) (fold_slots (\<lambda>slot previous. readSlot (h_frac h) (h_sha256 h) repo obs family slot (claims, outcomes) previous)
      (h_frac h) [Suc 0..<Suc (length rs)] (rev (map (\<lambda>r. claim_identity (h_frac h) (rs_claim r)) (take 0 rs))) (take 0 rs)) rs"
  proof (rule finds_slots)
    fix i assume i: "i < length rs"
    then show "finds (obs \<noteq> all) (readSlot (h_frac h) (h_sha256 h) repo obs family (Suc i) (claims, outcomes) (last_of (take i rs))) (rs ! i)"
      using sound assms(2) c(3,4) by (intro finds_slot) (simp_all add: sound_log_def)
  next
    fix i j assume "i < length rs" "j < i"
    then show "claim_identity (h_frac h) (rs_claim (rs ! j)) \<noteq> claim_identity (h_frac h) (rs_claim (rs ! i))"
      using sound by (simp add: sound_log_def apart_def)
  qed simp
  then show ?thesis by (simp add: foldReleaseLedger_def c(1,2) del: upt_Suc)
qed

section \<open>What a call writes\<close>

lemma read_written:
  assumes "obs (cm_sha c) = Some c" and "plain_event e"
    and "buildValidatedReleaseEventMessage frac sha256 e = Some (cm_message c)"
    and "fld e ''event'' = JStr kind" and "kind \<in> set kinds" and "fld e ''family'' = JStr family"
    and "fld e ''slot'' = JInt (int slot)" and "fld e ''repository'' = JStr repo" and "length (cm_parents c) = 1"
  shows "readEvent frac sha256 repo obs (JStr (cm_sha c)) family slot kinds = Got \<lparr>er_commit = c, er_event = e\<rparr>"
  using assms(1,4-9) built_parses [OF assms(2,3)] by (simp add: readEvent_def read_commit_def)

lemma fam_js_printable: "distinct (map fst (fam_paths f)) \<Longrightarrow> printable (family_js f)"
  by (simp add: family_js_def list_all_iff comp_def case_prod_beta)

lemma paths_js_printable: "distinct (map fst ps) \<Longrightarrow> printable (paths_js ps)"
  by (simp add: paths_js_def list_all_iff comp_def case_prod_beta)

lemma paths_js_texts: "map text_of (obj_values (paths_js ps)) = map snd ps"
  by (simp add: paths_js_def obj_values_def text_of_def comp_def case_prod_beta)

lemma rendered_keys: "map fst (rid_paths (renderReleaseIdentity f n)) = map fst (fam_paths f)"
  unfolding identity_paths by (simp add: comp_def case_prod_beta)

lemma claim_event_flds:
  "fld (claim_event h x base f rs branch n) ''family'' = JStr (x_family x)"
  "fld (claim_event h x base f rs branch n) ''repository'' = JStr (x_repository x)"
  "fld (claim_event h x base f rs branch n) ''slot'' = JInt (int (next_slot rs))"
  "fld (claim_event h x base f rs branch n) ''sequence'' = JInt n"
  "fld (claim_event h x base f rs branch n) ''event'' = JStr ''reserved''"
  "fld (claim_event h x base f rs branch n) ''issue_number'' = issue_js x"
  "fld (claim_event h x base f rs branch n) ''idempotency_hash'' = JStr (x_hash x)"
  "fld (claim_event h x base f rs branch n) ''previous_claim'' = previous_sha (last_of rs)"
  "fld (claim_event h x base f rs branch n) ''version'' = JStr (rid_version (renderReleaseIdentity f n))"
  "fld (claim_event h x base f rs branch n) ''paths'' = paths_js (rid_paths (renderReleaseIdentity f n))"
  "fld (claim_event h x base f rs branch n) ''base_revision'' = JStr (rb_sha base)"
  by (simp_all add: claim_event_def Let_def)

lemma claim_event_printable:
  "distinct (map fst (fam_paths f)) \<Longrightarrow> printable (claim_event h x base f rs branch n)"
  by (simp add: claim_event_def Let_def fam_js_printable paths_js_printable rendered_keys issue_js_def previous_sha_def
      split: option.splits)

lemma renderable_bound: "releaseSequenceRenderable f (JInt n) \<Longrightarrow> 1 \<le> n \<and> n \<le> release_sequence_max"
proof -
  assume r: "releaseSequenceRenderable f (JInt n)"
  have up: "a \<le> fold max ks (a::int)" for ks a
  proof (induction ks arbitrary: a)
    case (Cons k ks)
    have "a \<le> max k a" by simp
    also have "\<dots> \<le> fold max ks (max k a)" by (rule Cons)
    finally show ?case by simp
  qed simp
  have "0 \<le> largestOffset (template_parts True (fam_version_template f))"
    unfolding largestOffset_def by (rule up)
  with r show ?thesis by (simp add: releaseSequenceRenderable_def Let_def)
qed

text \<open>The issue and the hash of two claims with one identity.\<close>

lemma identity_parts:
  assumes "show_int i @ CHR '':'' # s = show_int j @ CHR '':'' # t" and "0 \<le> i" and "0 \<le> j"
  shows "i = j \<and> s = t"
proof -
  have d: "list_all is_digit (show_nat n)" for n using show_nat_digits by (simp add: list_all_iff)
  have nc: "\<not> is_digit (CHR '':'')" by (simp add: is_digit_def less_eq_char_def)
  have tk: "takeWhile is_digit (show_nat n @ CHR '':'' # u) = show_nat n"
    "dropWhile is_digit (show_nat n @ CHR '':'' # u) = CHR '':'' # u" for n u
    using d [of n] nc by (simp_all add: list_all_iff takeWhile_append2 dropWhile_append2)
  have "show_nat (nat i) @ CHR '':'' # s = show_nat (nat j) @ CHR '':'' # t" using assms by (simp add: show_int_def)
  then have "show_nat (nat i) = show_nat (nat j)" "s = t" using tk by (metis, metis list.inject)
  then show ?thesis using assms(2,3) by (simp add: eq_nat_nat_iff)
qed

lemma issue_bounds:
  "shape_accepts frac sha256 kind e \<Longrightarrow> \<exists>n. fld e ''issue_number'' = JInt n \<and> 1 \<le> n \<and> n < 10 ^ 21"
  by (auto simp: shape_accepts_def hasValidCommonFields_def inRange_def max_safe_integer_def split: if_splits js.splits)

lemma read_event_shape:
  assumes "read_event h repo family obs slot kinds er"
  shows "shape_accepts (h_frac h) (h_sha256 h) (js_string (h_frac h) (fld (er_event er) ''event'')) (er_event er)"
    and "fld (er_event er) ''event'' \<in> JStr ` set kinds"
    and "obs (cm_sha (er_commit er)) = Some (er_commit er)"
proof -
  have r: "readEvent (h_frac h) (h_sha256 h) repo obs (JStr (cm_sha (er_commit er))) family slot kinds = Got er"
    using assms by (simp add: read_event_def)
  then obtain c where c: "obs (cm_sha (er_commit er)) = Some c"
    "parseReleaseEventMessage (h_frac h) (h_sha256 h) (cm_message c) = Got (er_event er)" "er_commit er = c"
    "fld (er_event er) ''event'' \<in> JStr ` set kinds"
    by (auto simp: readEvent_def read_commit_def split: option.splits reading.splits if_splits)
  then show "shape_accepts (h_frac h) (h_sha256 h) (js_string (h_frac h) (fld (er_event er) ''event'')) (er_event er)"
    by (auto simp: parseReleaseEventMessage_def split: if_splits option.splits)
  show "fld (er_event er) ''event'' \<in> JStr ` set kinds" by (rule c)
  show "obs (cm_sha (er_commit er)) = Some (er_commit er)" using c by simp
qed

lemma claim_identity_int:
  assumes "fld (er_event cl) ''issue_number'' = JInt n" and "1 \<le> n" and "n < 10 ^ 21"
    and "fld (er_event cl) ''idempotency_hash'' = JStr s"
  shows "claim_identity frac cl = show_int n @ CHR '':'' # s"
  using assms by (simp add: claim_identity_def)

lemma claim_may_follow:
  assumes "sound_log h repo family obs rs" and "obs (cm_sha c) = Some c" and "git_object_id (cm_sha c)"
    and "e = claim_event h x base f rs branch n" and "distinct (map fst (fam_paths f))"
    and "buildValidatedReleaseEventMessage (h_frac h) (h_sha256 h) e = Some (cm_message c)"
    and "cm_tree c = rb_tree base" and "cm_parents c = [rb_sha base]"
    and "obs (rb_sha base) = Some b" and "cm_tree b = rb_tree base"
    and "x_family x = family" and "release_family_name family" and "x_repository x = repo"
    and "releaseSequenceRenderable f (JInt n)" and "highest rs < n" and "int (next_slot rs) \<le> ledger_slots_max"
    and "ownedBy rs x = None" and "\<not> list_ex (collides (renderReleaseIdentity f n)) rs"
  shows "may_follow h repo family obs rs \<lparr>rs_slot = next_slot rs, rs_sequence = n,
    rs_claim = \<lparr>er_commit = c, er_event = e\<rparr>, rs_outcome = None\<rparr>"
proof -
  let ?er = "\<lparr>er_commit = c, er_event = e\<rparr>"
  note flds = claim_event_flds [of h x base f rs branch n, folded assms(4)]
  have pe: "printable e" using claim_event_printable assms(4,5) by blast
  have "int (next_slot rs) < 10 ^ 21" using assms(16) by (simp add: ledger_slots_max_def)
  moreover have "0 \<le> n" "n < 10 ^ 21" using renderable_bound [OF assms(14)] by (simp_all add: release_sequence_max_def)
  ultimately have plain: "plain_event e" using pe flds assms(11,12) by (simp add: plain_event_def)
  have rd: "read_event h repo family obs (next_slot rs) [''reserved''] ?er"
  proof -
    have "readEvent (h_frac h) (h_sha256 h) repo obs (JStr (cm_sha c)) family (next_slot rs) [''reserved''] = Got ?er"
      by (rule read_written [where kind = "''reserved''"]) (use assms(2,6,8,11,13) plain flds in simp_all)
    then show ?thesis using assms(3) by (simp add: read_event_def)
  qed
  obtain k where k: "issue_js x = JInt k" "1 \<le> k" "k < 10 ^ 21"
    using issue_bounds [OF read_event_shape(1) [OF rd]] flds(6) by auto
  have id: "claim_identity (h_frac h) ?er = show_int k @ CHR '':'' # x_hash x"
    using k flds(6,7) by (intro claim_identity_int) simp_all
  have other: "claim_identity (h_frac h) (rs_claim q) \<noteq> claim_identity (h_frac h) ?er
      \<and> claim_version q \<noteq> JStr (rid_version (renderReleaseIdentity f n))
      \<and> \<not> releasePathSetsOverlap (claim_paths q) (map snd (rid_paths (renderReleaseIdentity f n)))"
    if q: "q \<in> set rs" for q
  proof -
    obtain i where i: "i < length rs" "q = rs ! i" using q by (auto simp: in_set_conv_nth)
    then have s: "sound_slot h repo family obs rs i" using assms(1) by (simp add: sound_log_def)
    then obtain j t where jt: "fld (er_event (rs_claim q)) ''issue_number'' = JInt j" "1 \<le> j" "j < 10 ^ 21"
      "fld (er_event (rs_claim q)) ''idempotency_hash'' = JStr t"
      using issue_bounds [OF read_event_shape(1)] i unfolding sound_slot_def is_string_iff by blast
    have "\<not> owned_claim x q" using assms(17) q by (auto simp: ownedBy_def find_None_iff)
    then have "\<not> (j = k \<and> t = x_hash x)" using jt k by (simp add: owned_claim_def)
    then have "show_int j @ CHR '':'' # t \<noteq> show_int k @ CHR '':'' # x_hash x"
      using identity_parts [of j t k "x_hash x"] jt k by auto
    moreover have "\<not> collides (renderReleaseIdentity f n) q" using assms(18) q by (auto simp: list_ex_iff)
    ultimately show ?thesis using claim_identity_int [OF jt] id by (simp add: collides_def)
  qed
  have base: "read_commit obs (fld e ''base_revision'') = Got b" using assms(9) flds(11) by (simp add: read_commit_def)
  have link: "claim_linked ?er b (last_of rs)"
    using assms(7,8,10,15) flds by (simp add: claim_linked_def claim_sequence_def highest_def)
  show ?thesis
    unfolding may_follow_def
    using assms(16) rd pe base link other flds
    by (simp add: claim_sequence_def is_string_def claim_version_def claim_paths_def paths_js_texts)
qed


lemma outcome_event_flds:
  "fld (outcome_event_js x r kind extra) ''family'' = JStr (x_family x)"
  "fld (outcome_event_js x r kind extra) ''repository'' = JStr (x_repository x)"
  "fld (outcome_event_js x r kind extra) ''slot'' = JInt (int (rs_slot r))"
  "fld (outcome_event_js x r kind extra) ''sequence'' = JInt (rs_sequence r)"
  "fld (outcome_event_js x r kind extra) ''event'' = JStr kind"
  "fld (outcome_event_js x r kind extra) ''issue_number'' = fld (er_event (rs_claim r)) ''issue_number''"
  "fld (outcome_event_js x r kind extra) ''idempotency_hash'' = fld (er_event (rs_claim r)) ''idempotency_hash''"
  by (simp_all add: outcome_event_js_def)

lemma outcome_event_artifacts:
  "fld (outcome_event_js x r kind [(''published_revision'', v), (''artifacts'', w)]) ''artifacts'' = w"
  by (simp add: outcome_event_js_def)

text \<open>The outcomes the two transitions decide on: all the reserved artifacts, or a reason.\<close>

definition decided_outcome :: "reservation \<Rightarrow> string \<times> (string \<times> js) list \<Rightarrow> bool" where
  "decided_outcome r outcome \<longleftrightarrow>
     (\<exists>sha artifacts. outcome = (''published'', [(''published_revision'', JStr sha), (''artifacts'', JObj artifacts)])
        \<and> map fst artifacts = obj_keys (fld (er_event (rs_claim r)) ''paths'') \<and> list_all (is_string \<circ> snd) artifacts)
     \<or> (\<exists>reason. outcome = (''abandoned'', [(''reason'', JStr reason)]))"

lemma printable_fld_keys: "printable e \<Longrightarrow> distinct (obj_keys (fld e k))"
proof -
  assume "printable e"
  then have "printable (fld e k) \<or> fld e k = JUndef"
    by (cases e) (auto simp: fld_def list_all_iff split: option.splits dest!: map_of_SomeD)
  then show ?thesis by (cases "fld e k") (auto simp: obj_keys_def)
qed

lemma outcome_settles:
  assumes "sound_log h repo family obs rs" and "i < length rs" and "rs_outcome (rs ! i) = None"
    and "obs (cm_sha c) = Some c" and "git_object_id (cm_sha c)"
    and "decided_outcome (rs ! i) (kind, extra)" and "e = outcome_event_js x (rs ! i) kind extra"
    and "buildValidatedReleaseEventMessage (h_frac h) (h_sha256 h) e = Some (cm_message c)"
    and "cm_tree c = cm_tree (er_commit (rs_claim (rs ! i)))" and "cm_parents c = [cm_sha (er_commit (rs_claim (rs ! i)))]"
    and "x_family x = family" and "release_family_name family" and "x_repository x = repo"
  shows "settles h repo family obs (rs ! i) \<lparr>er_commit = c, er_event = e\<rparr>"
proof -
  let ?r = "rs ! i" and ?er = "\<lparr>er_commit = c, er_event = e\<rparr>"
  note flds = outcome_event_flds [of x ?r kind extra, folded assms(7)]
  have s: "sound_slot h repo family obs rs i" using assms(1,2) by (simp add: sound_log_def)
  then have rd: "read_event h repo family obs (Suc i) [''reserved''] (rs_claim ?r)" and slot: "rs_slot ?r = Suc i"
    and seq: "rs_sequence ?r = claim_sequence (rs_claim ?r)" and pr: "printable (er_event (rs_claim ?r))"
    and hash: "is_string (fld (er_event (rs_claim ?r)) ''idempotency_hash'')" by (simp_all add: sound_slot_def)
  have shape: "hasValidCommonFields (h_frac h) (er_event (rs_claim ?r))"
    using read_event_shape(1) [OF rd] by (auto simp: shape_accepts_def split: if_splits)
  then obtain k n where k: "fld (er_event (rs_claim ?r)) ''issue_number'' = JInt k"
    and n: "fld (er_event (rs_claim ?r)) ''sequence'' = JInt n" "1 \<le> n" "n \<le> release_sequence_max"
    by (auto simp: hasValidCommonFields_def inRange_def split: js.splits)
  have rn: "rs_sequence ?r = n" using seq n(1) by (simp add: claim_sequence_def)
  obtain t where t: "fld (er_event (rs_claim ?r)) ''idempotency_hash'' = JStr t" using hash by (auto simp: is_string_iff)
  have keys: "distinct (obj_keys (fld (er_event (rs_claim ?r)) ''paths''))" using pr by (rule printable_fld_keys)
  have "printable (JObj artifacts)"
    if "map fst artifacts = obj_keys (fld (er_event (rs_claim ?r)) ''paths'')" "list_all (is_string \<circ> snd) artifacts" for artifacts
    using that keys by (auto simp: list_all_iff is_string_iff)
  then have pe: "printable e" using assms(6) k t
    unfolding assms(7) outcome_event_js_def decided_outcome_def by auto
  have kind: "kind \<in> {''published'', ''abandoned''}" using assms(6) by (auto simp: decided_outcome_def)
  have "int (Suc i) < 10 ^ 21" using assms(1,2) by (simp add: sound_log_def ledger_slots_max_def)
  then have plain: "plain_event e"
    using pe flds slot rn n(2,3) kind assms(11,12) by (auto simp: plain_event_def release_sequence_max_def)
  have "readEvent (h_frac h) (h_sha256 h) repo obs (JStr (cm_sha c)) family (rs_slot ?r) [''published'', ''abandoned''] = Got ?er"
    by (rule read_written [where kind = kind]) (use assms(4,8,10,11,13) plain flds kind in auto)
  then have "read_event h repo family obs (rs_slot ?r) [''published'', ''abandoned''] ?er"
    using assms(5) by (simp add: read_event_def)
  moreover have "outcomeFollowsClaim ?er (rs_claim ?r)"
  proof -
    have "sort (obj_keys (fld e ''artifacts'')) = sort (obj_keys (fld (er_event (rs_claim ?r)) ''paths''))"
      if "kind = ''published''"
      using assms(6) that outcome_event_artifacts unfolding decided_outcome_def assms(7) by (auto simp: obj_keys_def)
    then show ?thesis using flds assms(9,10) k n(1) rn t
      by (simp add: outcomeFollowsClaim_def strict_eq_def is_object_def)
  qed
  ultimately show ?thesis using assms(3) by (simp add: settles_def)
qed

end
