(* ===== verification/ReleaseCalls.thy ===== *)
theory ReleaseCalls
  imports ReleaseHistory
begin

text \<open>
  Every \<open>gc_release_identity\<close> call keeps the repository's histories (\<open>ReleaseHistory\<close>), whatever the other calls do
  between its requests; so does any pool of them. The rules of \<open>CallTree\<close> are used at this service.
\<close>

section \<open>The service\<close>

interpretation log: shared_service serve "good h repo" later pushes for h repo
  by unfold_locales (auto intro: later_refl later_trans dest: pushes_keeps)

section \<open>Calls that create no reference\<close>

primrec ref_free :: "(request, answer, 'r) calls \<Rightarrow> bool" where
  "ref_free (Return r) = True"
| "ref_free Throw = True"
| "ref_free (Ask q k) = ((\<forall>ref sha. q \<noteq> CreateRef ref sha) \<and> (\<forall>a. ref_free (k a)))"

text \<open>A property of every result, whatever the answers.\<close>

primrec results :: "('r \<Rightarrow> bool) \<Rightarrow> ('q, 'a, 'r) calls \<Rightarrow> bool" where
  "results P (Return r) = P r"
| "results P Throw = True"
| "results P (Ask q k) = (\<forall>a. results P (k a))"

lemma ref_free_await: "ref_free p \<Longrightarrow> (\<And>x. ref_free (f x)) \<Longrightarrow> ref_free (await p f)"
  by (induction p) simp_all

lemma ref_free_catching: "ref_free p \<Longrightarrow> ref_free h \<Longrightarrow> ref_free (catching p h)"
  by (induction p) simp_all

lemma results_await: "results Q p \<Longrightarrow> (\<And>x. Q x \<Longrightarrow> results P (f x)) \<Longrightarrow> results P (await p f)"
  by (induction p) simp_all

lemma results_any: "results (\<lambda>_. True) p"
  by (induction p) simp_all

lemma results_weaken: "results P p \<Longrightarrow> (\<And>x. P x \<Longrightarrow> Q x) \<Longrightarrow> results Q p"
  by (induction p) simp_all

lemma serve_neutral:
  assumes "serve w q a v" and "good h repo w" and "\<And>ref sha. q \<noteq> CreateRef ref sha"
  shows "good h repo v \<and> later w v"
  using assms
  by (cases rule: serve.cases) (auto intro: later_refl later_add_object good_add_object)

lemma ref_free_keeps:
  "ref_free p \<Longrightarrow> results P p \<Longrightarrow> keeps serve (good h repo) later (\<lambda>r v. \<forall>x. r = Some x \<longrightarrow> P x) p w"
proof (induction p arbitrary: w)
  case (Ask q k w)
  show ?case unfolding keeps.simps
  proof (intro allI impI)
    fix v a u assume v: "later w v" "good h repo v" "serve v q a u"
    have "good h repo u \<and> later v u" using serve_neutral [OF v(3,2)] Ask.prems(1) by auto
    moreover have "keeps serve (good h repo) later (\<lambda>r v. \<forall>x. r = Some x \<longrightarrow> P x) (k a) u"
      using Ask.prems by (intro Ask.IH) simp_all
    ultimately show "good h repo u \<and> later v u \<and> keeps serve (good h repo) later (\<lambda>r v. \<forall>x. r = Some x \<longrightarrow> P x) (k a) u"
      by blast
  qed
qed simp_all

named_theorems ref_free_intros \<open>calls that create no reference\<close>

lemmas [ref_free_intros] = ref_free_await ref_free_catching

lemma ref_free_basic [ref_free_intros]:
  "ref_free (Return r)" "ref_free Throw" "ref_free (listRefs namespace)" "ref_free (readCommit sha)" "ref_free (readTree sha)"
  "ref_free (readBlobText sha)" "ref_free (createCommit message tree parent)" "ref_free authenticatedLogin"
  "ref_free (listIssueComments n)" "ref_free (postIssueComment n body)"
  by (auto simp: listRefs_def readCommit_def readTree_def readBlobText_def createCommit_def authenticatedLogin_def
      listIssueComments_def postIssueComment_def split: answer.split option.split)

lemma ref_free_readRef [ref_free_intros]: "ref_free (readRef ref)"
  unfolding readRef_def by (intro ref_free_intros) (auto split: option.split js.split)

lemma ref_free_branchHead [ref_free_intros]: "ref_free (branchHead branch)"
  unfolding branchHead_def
  by (intro ref_free_intros) (auto split: option.split js.split intro!: ref_free_intros)

lemma ref_free_segments: "ref_free (lookup_segments tree segs)"
proof (induction segs arbitrary: tree)
  case (Cons s segs)
  show ?case unfolding lookup_segments.simps
    by (intro ref_free_intros) (auto split: option.split intro: Cons)
qed simp

lemma ref_free_lookupPath [ref_free_intros]: "ref_free (lookupPath root path)"
  unfolding lookupPath_def by (rule ref_free_segments)

lemma ref_free_paths_taken [ref_free_intros]: "ref_free (paths_taken tree ps)"
  by (induction ps) (auto intro!: ref_free_intros)

lemma ref_free_post_records [ref_free_intros]: "ref_free (post_records view issue own events urls pending)"
proof (induction events arbitrary: urls pending)
  case (Cons e events)
  obtain event commit where e: "e = (event, commit)" by (cases e)
  show ?case unfolding e post_records.simps
    by (auto split: option.split intro!: ref_free_intros Cons)
qed simp

lemma ref_free_records [ref_free_intros]: "ref_free (ensureReleaseIdentityRecords h view)"
  unfolding ensureReleaseIdentityRecords_def Let_def
  by (auto split: option.split intro!: ref_free_intros)

lemma ref_free_respond [ref_free_intros]: "ref_free (respondWithRecords h x r reused)"
  unfolding respondWithRecords_def Let_def by (intro ref_free_intros)

lemma ref_free_trusted [ref_free_intros]: "ref_free (isTrustedImplementRunBranch issue branch)"
  unfolding isTrustedImplementRunBranch_def by (intro ref_free_intros) (auto split: option.split intro!: ref_free_intros)

lemma ref_free_run [ref_free_intros]: "ref_free (requireRunBranch h x expected)"
  unfolding requireRunBranch_def Let_def by (auto split: answer.split option.split intro!: ref_free_intros)

lemma ref_free_issue [ref_free_intros]: "ref_free (checkIssue x open)"
  unfolding checkIssue_def by (auto split: answer.split)

lemma ref_free_collision [ref_free_intros]: "ref_free (identityCollision rs identity tree)"
  unfolding identityCollision_def by (auto intro!: ref_free_intros)

lemma ref_free_artifacts [ref_free_intros]: "ref_free (verifyArtifactsAt tree paths artifacts missing)"
  by (induction tree paths artifacts missing rule: verifyArtifactsAt.induct)
    (auto split: path_entry.split intro!: ref_free_intros)

lemma ref_free_observe [ref_free_intros]: "ref_free (observe_head x r n head)"
proof (induction n arbitrary: head)
  case (Suc n)
  show ?case unfolding observe_head.simps Let_def
    by (auto split: option.split intro!: ref_free_intros Suc)
qed simp

lemma ref_free_decide [ref_free_intros]: "ref_free (decide_publish x r)" "ref_free (decide_abandon h x r)"
  unfolding decide_publish_def decide_abandon_def by (intro ref_free_intros)+

section \<open>Results that do not depend on the repository\<close>

lemma collision_results:
  "results (\<lambda>c. c = None \<longrightarrow> \<not> list_ex (collides identity) rs) (identityCollision rs identity tree)"
  unfolding identityCollision_def by (auto intro!: results_await [OF results_any])

lemma is_string_JStr [simp]: "is_string (JStr s)"
  by (simp add: is_string_def)

lemma artifacts_results:
  "results (\<lambda>(found, missing'). missing' = [] \<longrightarrow> missing = [] \<and> map fst found = map fst artifacts @ map fst paths
       \<and> (list_all (is_string \<circ> snd) artifacts \<longrightarrow> list_all (is_string \<circ> snd) found))
     (verifyArtifactsAt tree paths artifacts missing)"
proof (induction paths arbitrary: artifacts missing)
  case (Cons kp paths)
  obtain key path where kp: "kp = (key, path)" by (cases kp)
  show ?case unfolding kp verifyArtifactsAt.simps
  proof (rule results_await [OF results_any])
    fix e
    have regular: "results (\<lambda>(found, missing'). missing' = [] \<longrightarrow> missing = []
         \<and> map fst found = map fst artifacts @ map fst ((key, path) # paths)
         \<and> (list_all (is_string \<circ> snd) artifacts \<longrightarrow> list_all (is_string \<circ> snd) found))
        (verifyArtifactsAt tree paths (artifacts @ [(key, JStr sha)]) missing)" for sha
      using Cons [of missing "artifacts @ [(key, JStr sha)]"] by (rule results_weaken) (auto simp: list_all_iff)
    have other: "results (\<lambda>(found, missing'). missing' = [] \<longrightarrow> missing = []
         \<and> map fst found = map fst artifacts @ map fst ((key, path) # paths)
         \<and> (list_all (is_string \<circ> snd) artifacts \<longrightarrow> list_all (is_string \<circ> snd) found))
        (verifyArtifactsAt tree paths artifacts (missing @ [key]))"
      using Cons [of "missing @ [key]" artifacts] by (rule results_weaken) (auto simp: list_all_iff)
    show "results (\<lambda>(found, missing'). missing' = [] \<longrightarrow> missing = []
         \<and> map fst found = map fst artifacts @ map fst ((key, path) # paths)
         \<and> (list_all (is_string \<circ> snd) artifacts \<longrightarrow> list_all (is_string \<circ> snd) found))
      (case e of RegularFile sha \<Rightarrow> verifyArtifactsAt tree paths (artifacts @ [(key, JStr sha)]) missing
        | _ \<Rightarrow> verifyArtifactsAt tree paths artifacts (missing @ [key]))"
      using regular other by (cases e) simp_all
  qed
qed simp

lemma observe_results:
  "results (\<lambda>d. \<forall>o1. d = Inr o1 \<longrightarrow> decided_outcome r o1) (observe_head x r n head)"
proof (induction n arbitrary: head)
  case (Suc n)
  show ?case
  proof (cases head)
    case None
    then show ?thesis by simp
  next
    case (Some st)
    obtain sha tree where st: "st = (sha, tree)" by (cases st)
    let ?paths = "case fld (er_event (rs_claim r)) ''paths'' of JObj fs \<Rightarrow> fs | _ \<Rightarrow> []"
    have keys: "map fst ?paths = obj_keys (fld (er_event (rs_claim r)) ''paths'')"
      by (auto simp: obj_keys_def split: js.split)
    show ?thesis
      unfolding Some st observe_head.simps option.case prod.case Let_def
    proof (rule results_await [OF artifacts_results], clarify)
      fix found missing
      assume found: "missing = [] \<longrightarrow> [] = [] \<and> map fst found = map fst [] @ map fst ?paths
          \<and> (list_all (is_string \<circ> snd) [] \<longrightarrow> list_all (is_string \<circ> snd) found)"
      show "results (\<lambda>d. \<forall>o1. d = Inr o1 \<longrightarrow> decided_outcome r o1)
        (if missing \<noteq> []
         then Return (Inl (Refusal ''release_identity_artifacts_missing_on_base'' (Some (toView (x_repository x) (x_family x) r))))
         else await (branchHead (text_of (fld (er_event (rs_claim r)) ''base_branch''))) (\<lambda>again.
           if map_option fst again = Some sha
           then Return (Inr (''published'', [(''published_revision'', JStr sha), (''artifacts'', JObj found)]))
           else observe_head x r n again))"
      proof (cases "missing = []")
        case True
        with found keys have "decided_outcome r (''published'', [(''published_revision'', JStr sha), (''artifacts'', JObj found)])"
          by (simp add: decided_outcome_def)
        then show ?thesis using True Suc by (auto intro!: results_await [OF results_any])
      qed simp
    qed
  qed
qed simp

lemma decide_publish_results: "results (\<lambda>d. \<forall>o1. d = Inr o1 \<longrightarrow> decided_outcome r o1) (decide_publish x r)"
  unfolding decide_publish_def by (rule results_await [OF results_any]) (rule observe_results)

lemma decide_abandon_results: "results (\<lambda>d. \<forall>o1. d = Inr o1 \<longrightarrow> decided_outcome r o1) (decide_abandon h x r)"
  unfolding decide_abandon_def
  by (auto intro!: results_await [OF results_any] simp: decided_outcome_def split: sum.split)

lemma respond_results:
  "results (\<lambda>res. \<forall>view re urls. res = Accepted view re urls \<longrightarrow> view = toView (x_repository x) (x_family x) r)
     (respondWithRecords h x r reused)"
  unfolding respondWithRecords_def Let_def by (auto intro!: results_await [OF results_any] split: sum.split)

section \<open>Requests to the repository\<close>

lemma serve_list_ledger:
  assumes "serve w (ListRefs namespace) a v" and "starts_with ledger_root namespace"
  shows "v = w \<and> (a = Failed \<or> (\<exists>refs n. a = Listing refs \<and> distinct refs \<and> set refs = listed namespace (take n (rm_refs w))))"
  using assms by (cases rule: serve.cases) auto

lemma starts_ledger_root: "starts_with ledger_root (releaseLedgerNamespace family)"
  by (simp add: ledger_root_def releaseLedgerNamespace_def starts_with_def)

text \<open>A listing of a family is a listing of an earlier moment.\<close>

definition listing_ok :: "string \<Rightarrow> listing \<Rightarrow> remote \<Rightarrow> bool" where
  "listing_ok family refs w \<longleftrightarrow> distinct refs
     \<and> (\<exists>n \<le> length (rm_refs w). set refs = listed (releaseLedgerNamespace family) (take n (rm_refs w)))"

lemma listing_ok_later: "listing_ok family refs w \<Longrightarrow> later w v \<Longrightarrow> listing_ok family refs v"
proof -
  assume "listing_ok family refs w" "later w v"
  then obtain n more where "n \<le> length (rm_refs w)" "distinct refs" "rm_refs v = rm_refs w @ more"
    "set refs = listed (releaseLedgerNamespace family) (take n (rm_refs w))" by (auto simp: listing_ok_def later_def)
  then show ?thesis unfolding listing_ok_def by (intro conjI exI [of _ n]) simp_all
qed

lemma keeps_listRefs:
  "keeps serve (good h repo) later (\<lambda>r v. \<forall>refs. r = Some refs \<longrightarrow> listing_ok family refs v) (listRefs (releaseLedgerNamespace family)) w"
  unfolding listRefs_def
proof (rule log.keeps_ask)
  fix v a u assume v: "later w v" "good h repo v" "serve v (ListRefs (releaseLedgerNamespace family)) a u"
  from serve_list_ledger [OF v(3) starts_ledger_root] have u: "u = v" and
    a: "a = Failed \<or> (\<exists>refs n. a = Listing refs \<and> distinct refs \<and> set refs = listed (releaseLedgerNamespace family) (take n (rm_refs v)))"
    by auto
  have "listing_ok family refs v" if L: "a = Listing refs" for refs
  proof -
    obtain n where n: "distinct refs" "set refs = listed (releaseLedgerNamespace family) (take n (rm_refs v))"
      using a L by auto
    then have "set refs = listed (releaseLedgerNamespace family) (take (min n (length (rm_refs v))) (rm_refs v))"
      by (simp add: min_def)
    then show ?thesis using n(1) unfolding listing_ok_def by (metis min.cobounded2)
  qed
  then have "keeps serve (good h repo) later (\<lambda>r v. \<forall>refs. r = Some refs \<longrightarrow> listing_ok family refs v)
      (case a of Listing rs \<Rightarrow> Return rs | _ \<Rightarrow> Throw) v"
    using a by (cases a) (auto intro: listing_ok_later)
  then show "good h repo u \<and> later v u \<and> keeps serve (good h repo) later (\<lambda>r v. \<forall>refs. r = Some refs \<longrightarrow> listing_ok family refs v)
      (case a of Listing rs \<Rightarrow> Return rs | _ \<Rightarrow> Throw) u"
    using u v(2) later_refl by simp
qed

lemma history_listing:
  assumes "good h repo w" and "listing_ok family refs w" and "release_family_name family" and "obs \<subseteq>\<^sub>m rm_objects w"
  shows "\<exists>rs. finds (obs \<noteq> rm_objects w) (foldReleaseLedger (h_frac h) (h_sha256 h) repo refs obs family) rs \<and> snapshot h repo family w rs"
proof -
  obtain n where n: "n \<le> length (rm_refs w)" "distinct refs" "set refs = listed (releaseLedgerNamespace family) (take n (rm_refs w))"
    using assms(2) by (auto simp: listing_ok_def)
  obtain qs where "history h repo family (rm_objects w) (rm_refs w) qs" using assms(1,3) by (auto simp: good_def)
  from history_take [OF this, of n] obtain rs where rs: "history h repo family (rm_objects w) (take n (rm_refs w)) rs" by blast
  from fold_history [OF this assms(4) n(2,3)] show ?thesis using rs n(1) by (auto simp: snapshot_def)
qed

lemma keeps_fold:
  assumes "good h repo w" and "x_repository x = repo" and "release_family_name (x_family x)"
  shows "keeps serve (good h repo) later
    (\<lambda>r v. \<forall>y. r = Some y \<longrightarrow> (\<exists>rs. y = Got rs \<and> snapshot h repo (x_family x) v rs)) (foldLedger h x) w"
  unfolding foldLedger_def
proof (rule log.keeps_await [OF keeps_listRefs assms(1)])
  fix refs v assume v: "later w v" "good h repo v" "\<forall>r. Some refs = Some r \<longrightarrow> listing_ok (x_family x) r v"
  show "keeps serve (good h repo) later (\<lambda>r v. \<forall>y. r = Some y \<longrightarrow> (\<exists>rs. y = Got rs \<and> snapshot h repo (x_family x) v rs))
    (Ask ReadObjects (\<lambda>a. case a of
       Objects obs \<Rightarrow>
         (case foldReleaseLedger (h_frac h) (h_sha256 h) (x_repository x) refs obs (x_family x) of
            Threw \<Rightarrow> Throw | r \<Rightarrow> Return r)
     | _ \<Rightarrow> Throw)) v"
  proof (rule log.keeps_query)
    fix u a t assume "serve u ReadObjects a t"
    then show "t = u" by (cases rule: serve.cases) auto
  next
    fix u a assume u: "later v u" "good h repo u" "serve u ReadObjects a u"
    have lo: "listing_ok (x_family x) refs u" using v(3) u(1) listing_ok_later by blast
    have "a = Failed \<or> (\<exists>obs. a = Objects obs \<and> obs \<subseteq>\<^sub>m rm_objects u)" using u(3) by (cases rule: serve.cases) auto
    then show "keeps serve (good h repo) later (\<lambda>r v. \<forall>y. r = Some y \<longrightarrow> (\<exists>rs. y = Got rs \<and> snapshot h repo (x_family x) v rs))
      (case a of Objects obs \<Rightarrow>
         (case foldReleaseLedger (h_frac h) (h_sha256 h) (x_repository x) refs obs (x_family x) of
            Threw \<Rightarrow> Throw | r \<Rightarrow> Return r)
       | _ \<Rightarrow> Throw) u"
    proof (elim disjE exE conjE)
      fix obs assume obs: "a = Objects obs" "obs \<subseteq>\<^sub>m rm_objects u"
      obtain rs where rs: "finds (obs \<noteq> rm_objects u) (foldReleaseLedger (h_frac h) (h_sha256 h) repo refs obs (x_family x)) rs"
        "snapshot h repo (x_family x) u rs" using history_listing [OF u(2) lo assms(3) obs(2)] by blast
      then show ?thesis using obs(1) assms(2) by (auto simp: finds_def intro: snapshot_later)
    qed simp
  qed
qed simp

definition object_at :: "remote \<Rightarrow> string \<Rightarrow> string \<Rightarrow> bool" where
  "object_at w sha tree \<longleftrightarrow> (\<exists>c. rm_objects w sha = Some c \<and> cm_tree c = tree)"

lemma object_at_later: "object_at w sha tree \<Longrightarrow> later w v \<Longrightarrow> object_at v sha tree"
  unfolding object_at_def later_def map_le_def by (metis domI)

definition written :: "string \<Rightarrow> string \<Rightarrow> string \<Rightarrow> remote \<Rightarrow> string \<Rightarrow> bool" where
  "written m tree parent w sha \<longleftrightarrow> git_object_id sha \<and> (\<exists>c. rm_objects w sha = Some c \<and> cm_sha c = sha
     \<and> cm_message c = m \<and> cm_tree c = tree \<and> cm_parents c = [parent])"

lemma written_later: "written m tree parent w sha \<Longrightarrow> later w v \<Longrightarrow> written m tree parent v sha"
  unfolding written_def later_def map_le_def by (metis domI)

lemma keeps_readCommit:
  "keeps serve (good h repo) later (\<lambda>r v. \<forall>c. r = Some c \<longrightarrow> object_at v (cm_sha c) (cm_tree c)) (readCommit sha) w"
proof (cases "git_object_id sha")
  case True
  have "keeps serve (good h repo) later (\<lambda>r v. \<forall>c. r = Some c \<longrightarrow> object_at v (cm_sha c) (cm_tree c))
      (Ask (ReadCommit sha) (\<lambda>a. case a of Commit c \<Rightarrow> Return c | _ \<Rightarrow> Throw)) w"
  proof (rule log.keeps_query)
    fix v a u assume "serve v (ReadCommit sha) a u"
    then show "u = v" by (cases rule: serve.cases) auto
  next
    fix v a assume v: "later w v" "good h repo v" "serve v (ReadCommit sha) a v"
    have "a = Failed \<or> (\<exists>c. a = Commit c \<and> rm_objects v sha = Some c)" using v(3) by (cases rule: serve.cases) auto
    moreover have "object_at v (cm_sha c) (cm_tree c)" if "rm_objects v sha = Some c" for c
      using that v(2) by (auto simp: good_def object_at_def)
    ultimately show "keeps serve (good h repo) later (\<lambda>r v. \<forall>c. r = Some c \<longrightarrow> object_at v (cm_sha c) (cm_tree c))
        (case a of Commit c \<Rightarrow> Return c | _ \<Rightarrow> Throw) v"
      by (auto intro: object_at_later)
  qed
  then show ?thesis using True by (simp add: readCommit_def)
qed (simp add: readCommit_def)

lemma keeps_branchHead:
  assumes "good h repo w"
  shows "keeps serve (good h repo) later
    (\<lambda>r v. \<forall>sha tree. r = Some (Some (sha, tree)) \<longrightarrow> object_at v sha tree) (branchHead branch) w"
  unfolding branchHead_def
proof (rule log.keeps_await [OF ref_free_keeps [OF ref_free_basic(3) results_any] assms])
  fix refs v assume v: "later w v" "good h repo v"
  have get: "keeps serve (good h repo) later (\<lambda>r v. \<forall>sha tree. r = Some (Some (sha, tree)) \<longrightarrow> object_at v sha tree)
      (await (readCommit s) (\<lambda>c. Return (Some (cm_sha c, cm_tree c)))) v" for s
  proof (rule log.keeps_await [OF keeps_readCommit v(2)])
    fix c u assume "\<forall>d. Some c = Some d \<longrightarrow> object_at u (cm_sha d) (cm_tree d)"
    then show "keeps serve (good h repo) later (\<lambda>r v. \<forall>sha tree. r = Some (Some (sha, tree)) \<longrightarrow> object_at v sha tree)
        (Return (Some (cm_sha c, cm_tree c))) u" by (auto intro: object_at_later)
  qed simp
  show "keeps serve (good h repo) later (\<lambda>r v. \<forall>sha tree. r = Some (Some (sha, tree)) \<longrightarrow> object_at v sha tree)
    (case find_ref refs (''refs/heads/'' @ branch) of
       None \<Rightarrow> Return None
     | Some (JStr sha) \<Rightarrow> await (readCommit sha) (\<lambda>c. Return (Some (cm_sha c, cm_tree c)))
     | Some _ \<Rightarrow> Throw) v"
    using get by (auto split: option.split js.split)
qed simp

lemma keeps_createCommit:
  "keeps serve (good h repo) later (\<lambda>r v. \<forall>sha. r = Some sha \<longrightarrow> written m tree parent v sha) (createCommit m tree parent) w"
  unfolding createCommit_def
proof (rule log.keeps_ask)
  fix v a u assume v: "later w v" "good h repo v" "serve v (CreateCommit m tree parent) a u"
  have u: "good h repo u \<and> later v u" using serve_neutral [OF v(3,2)] by simp
  have "a = Failed \<or> (\<exists>sha. a = Created sha \<and> written m tree parent u sha)"
    using v(3)
  proof (cases rule: serve.cases)
    case (make_commit c)
    then have "written m tree parent u (cm_sha c)" by (simp add: written_def add_object_def new_object_def)
    with make_commit show ?thesis by auto
  qed auto
  then show "good h repo u \<and> later v u \<and> keeps serve (good h repo) later (\<lambda>r v. \<forall>sha. r = Some sha \<longrightarrow> written m tree parent v sha)
      (case a of Created sha \<Rightarrow> if git_object_id sha then Return sha else Throw | _ \<Rightarrow> Throw) u"
    using u by (auto intro: written_later)
qed

text \<open>A base the claim can be built on, and families whose paths are an object.\<close>

definition base_ok :: "remote \<Rightarrow> release_base \<Rightarrow> bool" where
  "base_ok w b \<longleftrightarrow> object_at w (rb_sha b) (rb_tree b) \<and> (\<forall>f. rb_family b = Own f \<longrightarrow> distinct (map fst (fam_paths f)))"

lemma base_ok_later: "base_ok w b \<Longrightarrow> later w v \<Longrightarrow> base_ok v b"
  unfolding base_ok_def using object_at_later by blast

definition host_ok :: "release_host \<Rightarrow> bool" where
  "host_ok h \<longleftrightarrow> (\<forall>t repo fams f. h_yaml h t = Some (repo, fams) \<longrightarrow> f \<in> snd ` set fams \<longrightarrow> distinct (map fst (fam_paths f)))"

lemma keeps_readBaseFamily:
  assumes "good h repo w" and "host_ok h"
  shows "keeps serve (good h repo) later (\<lambda>r v. \<forall>b. r = Some (Inr b) \<longrightarrow> base_ok v b) (readBaseFamily h x baseBranch) w"
  unfolding readBaseFamily_def
proof (rule log.keeps_await [OF keeps_branchHead [OF assms(1)] assms(1)])
  fix head v
  assume v: "later w v" "good h repo v" and at: "\<forall>sha tree. Some head = Some (Some (sha, tree)) \<longrightarrow> object_at v sha tree"
  let ?Q = "\<lambda>r v. \<forall>b. r = Some (Inr b) \<longrightarrow> base_ok v b"
  let ?rest = "\<lambda>sha tree. await (lookupPath tree ''.ground-control.yaml'') (\<lambda>entry.
       await (case entry of RegularFile blob \<Rightarrow> readBlobText blob | _ \<Rightarrow> Return None) (\<lambda>content.
         let parsed = (case content of None \<Rightarrow> None | Some t \<Rightarrow> h_yaml h t);
             declared = (case parsed of None \<Rightarrow> None | Some (repo, _) \<Rightarrow> repo)
         in Return
           (if (case declared of None \<Rightarrow> False | Some d \<Rightarrow> lower d \<noteq> lower (x_repository x))
            then Inl (Refusal ''release_identity_base_repo_mismatch'' None)
            else let found = (case parsed of None \<Rightarrow> Missing | Some (_, fams) \<Rightarrow> lookup_family fams (x_family x))
                 in if found = Missing \<or> base_of found \<noteq> baseBranch
                    then Inl (Refusal ''release_identity_family_not_on_base'' None)
                    else Inr \<lparr>rb_sha = sha, rb_tree = tree, rb_family = found\<rparr>)))"
  have free: "ref_free (?rest sha tree)" for sha tree
    unfolding Let_def by (auto intro!: ref_free_intros split: path_entry.split)
  have own: "distinct (map fst (fam_paths f))"
    if "h_yaml h t = Some (d, fams)" "lookup_family fams name = Own f" for t d fams name f
  proof -
    have "map_of fams name = Some f" using that(2) by (auto simp: lookup_family_def split: option.splits if_splits)
    then have "f \<in> snd ` set fams" by (metis image_eqI map_of_SomeD snd_conv)
    then show ?thesis using assms(2) that(1) unfolding host_ok_def by blast
  qed
  have res: "results (\<lambda>r. \<forall>b. r = Inr b \<longrightarrow> rb_sha b = sha \<and> rb_tree b = tree \<and> (\<forall>f. rb_family b = Own f \<longrightarrow> distinct (map fst (fam_paths f))))
      (?rest sha tree)" for sha tree
    unfolding Let_def
    by (intro results_await [OF results_any]) (auto split: option.splits prod.splits dest: own)
  show "keeps serve (good h repo) later ?Q
    (case head of None \<Rightarrow> Return (Inl (Refusal ''release_identity_base_branch_missing'' None)) | Some (sha, tree) \<Rightarrow> ?rest sha tree) v"
  proof (cases head)
    case (Some st)
    obtain sha tree where st: "st = (sha, tree)" by (cases st)
    have "object_at v sha tree" using at Some st by simp
    then have "keeps serve (good h repo) later ?Q (?rest sha tree) v"
      by (intro log.keeps_weaken [OF ref_free_keeps [OF free res]]) (auto simp: base_ok_def intro: object_at_later)
    then show ?thesis using Some st by simp
  qed simp
qed simp

section \<open>Creating references\<close>

lemma keeps_createLedgerRef:
  assumes "\<And>v. later w v \<Longrightarrow> good h repo v \<Longrightarrow> map_of (rm_refs v) ref = None \<Longrightarrow> good h repo (add_reference ref sha v)"
  shows "keeps serve (good h repo) later (\<lambda>r v. True) (createLedgerRef ref sha) w"
  unfolding createLedgerRef_def
proof (rule log.keeps_ask)
  fix v a u assume v: "later w v" "good h repo v" "serve v (CreateRef ref sha) a u"
  have u: "good h repo u \<and> later v u"
    using v(3)
  proof (cases rule: serve.cases)
    case make_ref
    then show ?thesis using assms [OF v(1,2)] later_add_reference by simp
  qed (use v(2) later_refl in simp_all)
  let ?readback = "catching (await (readRef ref) (\<lambda>current. Return (case current of
                None \<Rightarrow> RefUndecided | Some s \<Rightarrow> if s = sha then RefCreated else RefTaken))) (Return RefUndecided)"
  have "ref_free ?readback" by (intro ref_free_intros)
  then have "keeps serve (good h repo) later (\<lambda>r v. True) ?readback u"
    by (intro log.keeps_weaken [OF ref_free_keeps [OF _ results_any]]) simp_all
  then show "good h repo u \<and> later v u \<and> keeps serve (good h repo) later (\<lambda>r v. True)
      (case a of Done \<Rightarrow> Return RefCreated | _ \<Rightarrow> ?readback) u"
    using u by (auto split: answer.split)
qed

text \<open>Family names have no slash, so that the namespaces of two families are apart.\<close>

lemma namespaces_apart:
  assumes "release_family_name f" and "release_family_name g" and "f \<noteq> g"
  shows "\<not> starts_with (ledger_space f) (releaseLedgerRef g kind n)"
proof
  assume s: "starts_with (ledger_space f) (releaseLedgerRef g kind n)"
  have ns: "CHR ''/'' \<notin> set x" if "release_family_name x" for x
    using family_name_chars [OF that] by (auto simp: list_all_iff family_char_def lower_or_digit_def is_digit_def is_lower_def less_eq_char_def)
  have tk: "takeWhile (\<lambda>c. c \<noteq> CHR ''/'') (x @ CHR ''/'' # t) = x" if "release_family_name x" for x t
    using ns [OF that] by (subst takeWhile_append2) auto
  obtain t where "releaseLedgerRef g kind n = ledger_space f @ t"
    using s by (metis append_take_drop_id starts_with_def)
  then have "g @ CHR ''/'' # kind @ CHR ''/'' # show_nat n = f @ CHR ''/'' # t"
    by (simp add: releaseLedgerRef_def ledger_space_def releaseLedgerNamespace_def)
  then have "g = f" using tk [OF assms(1)] tk [OF assms(2)] by metis
  then show False using assms(3) by simp
qed

lemma good_add_reference:
  assumes "good h repo w" and "release_family_name family"
    and "history h repo family (rm_objects w) (rm_refs w @ [(releaseLedgerRef family kind n, sha)]) qs"
  shows "good h repo (add_reference (releaseLedgerRef family kind n) sha w)"
  unfolding good_def
proof (intro conjI allI impI)
  fix s c assume "rm_objects (add_reference (releaseLedgerRef family kind n) sha w) s = Some c"
  then show "cm_sha c = s" using assms(1) by (simp add: good_def add_reference_def)
next
  fix f assume f: "release_family_name f"
  show "\<exists>rs. history h repo f (rm_objects (add_reference (releaseLedgerRef family kind n) sha w))
      (rm_refs (add_reference (releaseLedgerRef family kind n) sha w)) rs"
  proof (cases "f = family")
    case True
    then show ?thesis using assms(3) by (auto simp: add_reference_def)
  next
    case False
    obtain rs where "history h repo f (rm_objects w) (rm_refs w) rs" using assms(1) f by (auto simp: good_def)
    from history_other [OF this namespaces_apart [OF f assms(2) False]] show ?thesis by (auto simp: add_reference_def)
  qed
qed

lemma entry_listed:
  assumes "history h repo family obs refs qs" and "(ref, sha) \<in> entries family qs"
  shows "map_of refs ref \<noteq> None"
proof -
  have "(ref, sha) \<in> set refs" using history_refs [OF assms(1)] assms(2) by blast
  then show ?thesis by (auto simp: map_of_eq_None_iff intro: rev_image_eqI)
qed

lemma absent_slot:
  assumes "history h repo family obs refs qs" and "map_of refs (releaseLedgerRef family ''claims'' (Suc i)) = None"
  shows "length qs \<le> i"
proof (rule ccontr)
  assume "\<not> length qs \<le> i"
  then have "i < length qs" by simp
  then have "(releaseLedgerRef family ''claims'' (Suc i), cm_sha (er_commit (rs_claim (qs ! i)))) \<in> entries family qs"
    unfolding entries_def by (intro UN_I [of i]) (simp_all add: slot_entries_def)
  then show False using entry_listed [OF assms(1)] assms(2) by blast
qed

lemma absent_outcome:
  assumes "history h repo family obs refs qs" and "map_of refs (releaseLedgerRef family ''outcomes'' (Suc i)) = None"
    and "i < length qs"
  shows "rs_outcome (qs ! i) = None"
proof (rule ccontr)
  assume "rs_outcome (qs ! i) \<noteq> None"
  then obtain oc where "rs_outcome (qs ! i) = Some oc" by auto
  then have "(releaseLedgerRef family ''outcomes'' (Suc i), cm_sha (er_commit oc)) \<in> entries family qs"
    unfolding entries_def using assms(3) by (intro UN_I [of i]) (simp_all add: slot_entries_def)
  then show False using entry_listed [OF assms(1)] assms(3) assms(2) by blast
qed

text \<open>What a claim looks at is the same in two logs with the same claims.\<close>

lemma same_log:
  assumes "grown rs qs" and "length qs = length rs"
  shows "next_slot qs = next_slot rs" and "highest qs = highest rs" and "previous_sha (last_of qs) = previous_sha (last_of rs)"
    and "ownedBy rs x = None \<Longrightarrow> ownedBy qs x = None"
    and "\<not> list_ex (collides identity) rs \<Longrightarrow> \<not> list_ex (collides identity) qs"
    and "claim_event h x base f qs branch n = claim_event h x base f rs branch n"
proof -
  have nth: "rs_claim (qs ! i) = rs_claim (rs ! i)" "rs_sequence (qs ! i) = rs_sequence (rs ! i)" if "i < length rs" for i
    using grown_nth(2,4) [OF assms(1) that] .
  show slot: "next_slot qs = next_slot rs" using assms(2) by (simp add: next_slot_def)
  have last: "rs_claim (last qs) = rs_claim (last rs)" "rs_sequence (last qs) = rs_sequence (last rs)" if "rs \<noteq> []"
  proof -
    have "qs \<noteq> []" using that assms(2) by auto
    then show "rs_claim (last qs) = rs_claim (last rs)" "rs_sequence (last qs) = rs_sequence (last rs)"
      using nth [of "length rs - 1"] that assms(2) by (simp_all add: last_conv_nth)
  qed
  have nil: "qs = [] \<longleftrightarrow> rs = []" using assms(2) by auto
  show "highest qs = highest rs" using last nil by (simp add: highest_def previous_sequence_def last_of_def)
  show prev: "previous_sha (last_of qs) = previous_sha (last_of rs)" using last nil by (simp add: previous_sha_def last_of_def)
  have mem: "\<exists>r \<in> set rs. rs_claim r = rs_claim q" if "q \<in> set qs" for q
    using that nth assms(2) by (metis in_set_conv_nth)
  show "ownedBy qs x = None" if "ownedBy rs x = None"
    using that mem unfolding ownedBy_def find_None_iff owned_claim_def by metis
  show "\<not> list_ex (collides identity) qs" if "\<not> list_ex (collides identity) rs"
    using that mem unfolding list_ex_iff collides_def claim_version_def claim_paths_def by metis
  show "claim_event h x base f qs branch n = claim_event h x base f rs branch n"
    by (simp add: claim_event_def slot prev)
qed

lemma claim_reference_good:
  assumes "good h repo v" and "snapshot h repo family v rs"
    and "map_of (rm_refs v) (releaseLedgerRef family ''claims'' (next_slot rs)) = None"
    and "written m (rb_tree base) (rb_sha base) v sha" and "base_ok v base" and "rb_family base = Own f"
    and "buildValidatedReleaseEventMessage (h_frac h) (h_sha256 h) (claim_event h x base f rs branch n) = Some m"
    and "x_family x = family" and "release_family_name family" and "x_repository x = repo"
    and "releaseSequenceRenderable f (JInt n)" and "highest rs < n" and "int (next_slot rs) \<le> ledger_slots_max"
    and "ownedBy rs x = None" and "\<not> list_ex (collides (renderReleaseIdentity f n)) rs"
  shows "good h repo (add_reference (releaseLedgerRef family ''claims'' (next_slot rs)) sha v)"
proof -
  obtain qs where qs: "history h repo family (rm_objects v) (rm_refs v) qs" using assms(1,9) by (auto simp: good_def)
  have g: "grown rs qs" using assms(2) qs by (rule snapshot_grown)
  have "length qs \<le> length rs" using absent_slot [OF qs] assms(3) by (simp add: next_slot_def)
  then have len: "length qs = length rs" using g by (simp add: grown_def)
  note same = same_log [OF g len]
  obtain c where c: "rm_objects v sha = Some c" "cm_sha c = sha" "git_object_id sha" "cm_message c = m"
    "cm_tree c = rb_tree base" "cm_parents c = [rb_sha base]" using assms(4) by (auto simp: written_def)
  obtain b where b: "rm_objects v (rb_sha base) = Some b" "cm_tree b = rb_tree base"
    using assms(5) by (auto simp: base_ok_def object_at_def)
  let ?e = "claim_event h x base f qs branch n"
  let ?r = "\<lparr>rs_slot = next_slot qs, rs_sequence = n, rs_claim = \<lparr>er_commit = c, er_event = ?e\<rparr>, rs_outcome = None\<rparr>"
  have "may_follow h repo family (rm_objects v) qs ?r"
    using c b assms(5-15) same history_sound [OF qs]
    by (intro claim_may_follow [where f = f and x = x and base = base and branch = branch and b = b]) (auto simp: base_ok_def)
  from history_claim [OF qs this] have
    "history h repo family (rm_objects v) (rm_refs v @ [(releaseLedgerRef family ''claims'' (next_slot rs), sha)]) (qs @ [?r])"
    using c(2) same(1) by simp
  then show ?thesis by (rule good_add_reference [OF assms(1,9)])
qed

lemma outcome_reference_good:
  assumes "good h repo v" and "snapshot h repo family v rs" and "i < length rs" and "rs_outcome (rs ! i) = None"
    and "map_of (rm_refs v) (releaseLedgerRef family ''outcomes'' (rs_slot (rs ! i))) = None"
    and "written m (cm_tree (er_commit (rs_claim (rs ! i)))) (cm_sha (er_commit (rs_claim (rs ! i)))) v sha"
    and "decided_outcome (rs ! i) (kind, extra)"
    and "buildValidatedReleaseEventMessage (h_frac h) (h_sha256 h) (outcome_event_js x (rs ! i) kind extra) = Some m"
    and "x_family x = family" and "release_family_name family" and "x_repository x = repo"
  shows "good h repo (add_reference (releaseLedgerRef family ''outcomes'' (rs_slot (rs ! i))) sha v)"
proof -
  obtain qs where qs: "history h repo family (rm_objects v) (rm_refs v) qs" using assms(1,10) by (auto simp: good_def)
  have g: "grown rs qs" using assms(2) qs by (rule snapshot_grown)
  note n = grown_nth [OF g assms(3)]
  have sound: "sound_log h repo family (rm_objects v) qs" using qs by (rule history_sound)
  then have slot: "rs_slot (qs ! i) = Suc i" using n(1) by (simp add: sound_log_def sound_slot_def)
  then have none: "rs_outcome (qs ! i) = None" using absent_outcome [OF qs _ n(1)] assms(5) n(3) by simp
  have same: "qs ! i = rs ! i" using n none assms(4) by (intro reservation.equality) simp_all
  obtain c where c: "rm_objects v sha = Some c" "cm_sha c = sha" "git_object_id sha" "cm_message c = m"
    "cm_tree c = cm_tree (er_commit (rs_claim (rs ! i)))" "cm_parents c = [cm_sha (er_commit (rs_claim (rs ! i)))]"
    using assms(6) by (auto simp: written_def)
  let ?oc = "\<lparr>er_commit = c, er_event = outcome_event_js x (qs ! i) kind extra\<rparr>"
  have "settles h repo family (rm_objects v) (qs ! i) ?oc"
    using c same none n(1) assms(7-11) by (intro outcome_settles [OF sound]) auto
  from history_outcome [OF qs n(1) this] have
    "\<exists>ps. history h repo family (rm_objects v) (rm_refs v @ [(releaseLedgerRef family ''outcomes'' (rs_slot (rs ! i)), sha)]) ps"
    using c(2) slot same by auto
  then show ?thesis using good_add_reference [OF assms(1,10)] by blast
qed

end
