(* ===== verification/ReleaseOperations.thy ===== *)
theory ReleaseOperations
  imports ReleaseCalls
begin

text \<open>
  What the four release-identity actions keep and what they may answer, on top of the requests of
  \<open>ReleaseCalls\<close>: a refusal never reports a malformed log, an acceptance shows a reservation of the log that
  belongs to the caller.
\<close>

section \<open>Refusals\<close>

text \<open>A refusal that is not about the log.\<close>

definition plain_refusal :: "release_result \<Rightarrow> bool" where
  "plain_refusal res = (case res of Refusal c v \<Rightarrow> c \<noteq> ''release_identity_log_malformed'' | _ \<Rightarrow> False)"

lemma plain_refusal_code [simp]: "plain_refusal (Refusal c v) = (c \<noteq> ''release_identity_log_malformed'')"
  "\<not> plain_refusal (Accepted view re urls)" "\<not> plain_refusal (StatusOf n m t vs)"
  by (simp_all add: plain_refusal_def)

lemma keeps_results:
  "results P p \<Longrightarrow> keeps serve (good h repo) later Q p w \<Longrightarrow>
     keeps serve (good h repo) later (\<lambda>r v. Q r v \<and> (\<forall>x. r = Some x \<longrightarrow> P x)) p w"
  by (induction p arbitrary: w) auto

lemma issue_refusals: "results (\<lambda>r. \<forall>e. r = Some e \<longrightarrow> plain_refusal e) (checkIssue x open)"
  unfolding checkIssue_def by (auto split: answer.split)

lemma run_refusals: "results (\<lambda>r. \<forall>e. r = Inl e \<longrightarrow> plain_refusal e) (requireRunBranch h x expected)"
  unfolding requireRunBranch_def Let_def
  by (auto split: answer.split option.split intro!: results_await [OF results_any])

lemma base_refusals: "results (\<lambda>r. \<forall>e. r = Inl e \<longrightarrow> plain_refusal e) (readBaseFamily h x baseBranch)"
  unfolding readBaseFamily_def Let_def
  by (auto split: option.split intro!: results_await [OF results_any])

lemma claim_refusals: "results (\<lambda>r. \<forall>e. r = Inl e \<longrightarrow> plain_refusal e) (claimNext h x base rs branch)"
  unfolding claimNext_def Let_def
  by (auto split: option.split looked_up.split answer.split intro!: results_await [OF results_any])

lemma observe_refusals: "results (\<lambda>d. \<forall>e. d = Inl e \<longrightarrow> plain_refusal e) (observe_head x r n head)"
proof (induction n arbitrary: head)
  case (Suc n)
  show ?case unfolding observe_head.simps Let_def
    by (auto split: option.split intro!: results_await [OF results_any] Suc)
qed simp

lemma publish_refusals: "results (\<lambda>d. \<forall>e. d = Inl e \<longrightarrow> plain_refusal e) (decide_publish x r)"
  unfolding decide_publish_def by (rule results_await [OF results_any]) (rule observe_refusals)

lemma abandon_refusals: "results (\<lambda>d. \<forall>e. d = Inl e \<longrightarrow> plain_refusal e) (decide_abandon h x r)"
  unfolding decide_abandon_def by (rule results_await [OF run_refusals]) (auto split: sum.split)

section \<open>Claims and outcomes\<close>

lemma keeps_any: "ref_free p \<Longrightarrow> keeps serve (good h repo) later (\<lambda>r v. True) p w"
  by (intro log.keeps_weaken [OF ref_free_keeps [OF _ results_any]]) simp_all

lemma snapshot_base_later: "snapshot h repo family w rs \<Longrightarrow> base_ok w b \<Longrightarrow> later w v \<Longrightarrow> snapshot h repo family v rs \<and> base_ok v b"
  using snapshot_later base_ok_later by blast

lemma keeps_claimNext:
  assumes "good h repo w" and "snapshot h repo family w rs" and "base_ok w base" and "ownedBy rs x = None"
    and "x_family x = family" and "release_family_name family" and "x_repository x = repo"
  shows "keeps serve (good h repo) later (\<lambda>r v. True) (claimNext h x base rs branch) w"
proof (cases "rb_family base")
  case (Own f)
  let ?n = "max (fam_sequence_floor f) (highest rs + 1)"
  let ?T = "\<lambda>(r :: (release_result + ref_outcome) option) (v :: remote). True"
  let ?claim = "case buildValidatedReleaseEventMessage (h_frac h) (h_sha256 h) (claim_event h x base f rs branch ?n) of
      None \<Rightarrow> Return (Inl (Refusal ''release_identity_identity_unrepresentable'' None))
    | Some message \<Rightarrow>
        await (createCommit message (rb_tree base) (rb_sha base)) (\<lambda>sha.
        await (createLedgerRef (releaseLedgerRef (x_family x) ''claims'' (next_slot rs)) sha) (\<lambda>made. Return (Inr made)))"
  have wrote: "keeps serve (good h repo) later ?T ?claim v"
    if "releaseSequenceRenderable f (JInt ?n)" "int (next_slot rs) \<le> ledger_slots_max"
      "\<not> list_ex (collides (renderReleaseIdentity f ?n)) rs" "later w v" "good h repo v" for v
  proof (cases "buildValidatedReleaseEventMessage (h_frac h) (h_sha256 h) (claim_event h x base f rs branch ?n)")
    case (Some m)
    have "keeps serve (good h repo) later ?T
      (await (createCommit m (rb_tree base) (rb_sha base)) (\<lambda>sha.
        await (createLedgerRef (releaseLedgerRef (x_family x) ''claims'' (next_slot rs)) sha) (\<lambda>made. Return (Inr made)))) v"
    proof (rule log.keeps_await [OF keeps_createCommit that(5)])
      fix sha u assume u: "later v u" "good h repo u"
        "\<forall>s. Some sha = Some s \<longrightarrow> written m (rb_tree base) (rb_sha base) u s"
      have wu: "later w u" using that(4) u(1) by (rule later_trans)
      show "keeps serve (good h repo) later ?T
        (await (createLedgerRef (releaseLedgerRef (x_family x) ''claims'' (next_slot rs)) sha) (\<lambda>made. Return (Inr made))) u"
      proof (rule log.keeps_await [OF keeps_createLedgerRef u(2)])
        fix t assume t: "later u t" "good h repo t"
          "map_of (rm_refs t) (releaseLedgerRef (x_family x) ''claims'' (next_slot rs)) = None"
        have "later w t" using wu t(1) by (rule later_trans)
        from snapshot_base_later [OF assms(2,3) this] have st: "snapshot h repo family t rs" "base_ok t base" by simp_all
        have wr: "written m (rb_tree base) (rb_sha base) t sha" using u(3) t(1) written_later by blast
        show "good h repo (add_reference (releaseLedgerRef (x_family x) ''claims'' (next_slot rs)) sha t)"
          unfolding assms(5)
          by (rule claim_reference_good [OF t(2) st(1) _ wr st(2) Own Some assms(5-7) that(1) _ that(2) assms(4) that(3)])
            (use t(3) assms(5) in simp_all)
      qed simp_all
    qed simp
    then show ?thesis using Some by simp
  qed simp
  let ?check = "await (identityCollision rs (renderReleaseIdentity f ?n) (rb_tree base)) (\<lambda>collision. case collision of
         Some why \<Rightarrow> Return (Inl (Refusal ''release_identity_identity_collision'' None)) | None \<Rightarrow> ?claim)"
  have check: "keeps serve (good h repo) later ?T ?check v"
    if "releaseSequenceRenderable f (JInt ?n)" "int (next_slot rs) \<le> ledger_slots_max" "later w v" "good h repo v" for v
  proof (rule log.keeps_await [OF ref_free_keeps [OF ref_free_collision collision_results] that(4)])
    fix c u assume u: "later v u" "good h repo u"
      "\<forall>y. Some c = Some y \<longrightarrow> y = None \<longrightarrow> \<not> list_ex (collides (renderReleaseIdentity f ?n)) rs"
    have "later w u" using that(3) u(1) by (rule later_trans)
    then show "keeps serve (good h repo) later ?T
      (case c of Some why \<Rightarrow> Return (Inl (Refusal ''release_identity_identity_collision'' None)) | None \<Rightarrow> ?claim) u"
      using wrote [OF that(1,2)] u by (cases c) simp_all
  qed simp
  have asked: "keeps serve (good h repo) later ?T
      (Ask (PathsOutside (rid_paths (renderReleaseIdentity f ?n))) (\<lambda>a. case a of
         Outside (Some key) \<Rightarrow> Return (Inl (Refusal ''release_identity_path_escapes_checkout'' None))
       | Outside None \<Rightarrow> ?check | _ \<Rightarrow> Throw)) w"
    if r: "releaseSequenceRenderable f (JInt ?n)" "int (next_slot rs) \<le> ledger_slots_max"
  proof (rule log.keeps_ask)
    fix v a u assume v: "later w v" "good h repo v" "serve v (PathsOutside (rid_paths (renderReleaseIdentity f ?n))) a u"
    have u: "good h repo u \<and> later v u" using serve_neutral [OF v(3,2)] by simp
    then have "later w u" using v(1) later_trans by blast
    then have ch: "keeps serve (good h repo) later ?T ?check u" using u check [OF r] by blast
    have "keeps serve (good h repo) later ?T (case a of
         Outside (Some key) \<Rightarrow> Return (Inl (Refusal ''release_identity_path_escapes_checkout'' None))
       | Outside None \<Rightarrow> ?check | _ \<Rightarrow> Throw) u"
    proof (cases a)
      case (Outside k)
      then show ?thesis using ch by (cases k) (simp_all only: answer.case option.case keeps.simps simp_thms)
    qed (simp_all only: answer.case keeps.simps simp_thms)
    then show "good h repo u \<and> later v u \<and> keeps serve (good h repo) later ?T (case a of
         Outside (Some key) \<Rightarrow> Return (Inl (Refusal ''release_identity_path_escapes_checkout'' None))
       | Outside None \<Rightarrow> ?check | _ \<Rightarrow> Throw) u" using u by blast
  qed
  show ?thesis
  proof (cases "\<not> releaseSequenceRenderable f (JInt ?n) \<or> int (next_slot rs) > ledger_slots_max")
    case True
    then show ?thesis unfolding claimNext_def Let_def Own looked_up.case by (simp only: if_P keeps.simps simp_thms)
  next
    case False
    then have "releaseSequenceRenderable f (JInt ?n)" "int (next_slot rs) \<le> ledger_slots_max" by simp_all
    then show ?thesis unfolding claimNext_def Let_def Own looked_up.case if_not_P [OF False] by (rule asked)
  qed
qed (simp_all add: claimNext_def)

lemma keeps_appendOutcome:
  assumes "good h repo w" and "snapshot h repo family w rs" and "r \<in> set rs" and "rs_outcome r = None"
    and "decided_outcome r outcome" and "x_family x = family" and "release_family_name family" and "x_repository x = repo"
  shows "keeps serve (good h repo) later (\<lambda>r v. True) (appendOutcome h x r outcome) w"
proof -
  obtain kind extra where o1: "outcome = (kind, extra)" by (cases outcome)
  obtain i where i: "i < length rs" "r = rs ! i" using assms(3) by (auto simp: in_set_conv_nth)
  let ?T = "\<lambda>(r :: ref_outcome option option) (v :: remote). True"
  let ?ref = "releaseLedgerRef (x_family x) ''outcomes'' (rs_slot r)"
  have wrote: "keeps serve (good h repo) later ?T
      (await (createCommit m (cm_tree (er_commit (rs_claim r))) (cm_sha (er_commit (rs_claim r)))) (\<lambda>sha.
        await (createLedgerRef ?ref sha) (\<lambda>made. Return (Some made)))) w"
    if m: "buildValidatedReleaseEventMessage (h_frac h) (h_sha256 h) (outcome_event_js x r kind extra) = Some m" for m
  proof (rule log.keeps_await [OF keeps_createCommit assms(1)])
    fix sha u assume u: "later w u" "good h repo u" "\<forall>s. Some sha = Some s \<longrightarrow>
      written m (cm_tree (er_commit (rs_claim r))) (cm_sha (er_commit (rs_claim r))) u s"
    show "keeps serve (good h repo) later ?T (await (createLedgerRef ?ref sha) (\<lambda>made. Return (Some made))) u"
    proof (rule log.keeps_await [OF keeps_createLedgerRef u(2)])
      fix t assume t: "later u t" "good h repo t" "map_of (rm_refs t) ?ref = None"
      have "later w t" using u(1) t(1) by (rule later_trans)
      then have st: "snapshot h repo family t rs" by (rule snapshot_later [OF assms(2)])
      have wr: "written m (cm_tree (er_commit (rs_claim r))) (cm_sha (er_commit (rs_claim r))) t sha"
        using u(3) t(1) written_later by blast
      show "good h repo (add_reference ?ref sha t)"
        unfolding assms(6) i(2)
        by (rule outcome_reference_good [OF t(2) st i(1) _ _ _ _ m [unfolded i(2)] assms(6-8)])
          (use t(3) wr assms(4-6) i o1 in simp_all)
    qed simp_all
  qed simp
  show ?thesis unfolding appendOutcome_def o1 prod.case
    using wrote by (auto split: option.split)
qed

section \<open>Whole operations\<close>

text \<open>
  What an operation may answer: no refusal of a malformed log, and acceptance only of a reservation that
  is in the log, belongs to the caller and is as \<open>ok\<close> wants it.
\<close>

definition accepts :: "release_host \<Rightarrow> release_ctx \<Rightarrow> (reservation \<Rightarrow> bool) \<Rightarrow> release_result option \<Rightarrow> remote \<Rightarrow> bool" where
  "accepts h x ok r v \<longleftrightarrow> (\<forall>res. r = Some res \<longrightarrow> plain_refusal res
     \<or> (\<exists>rs q re urls. res = Accepted (toView (x_repository x) (x_family x) q) re urls
          \<and> snapshot h (x_repository x) (x_family x) v rs \<and> q \<in> set rs \<and> owned_claim x q \<and> ok q))"

lemma accepts_refusal: "plain_refusal res \<Longrightarrow> accepts h x ok (Some res) v"
  by (simp add: accepts_def)

lemma accepts_throw [simp]: "accepts h x ok None v"
  by (simp add: accepts_def)

lemma respond_shows:
  "results (\<lambda>res. plain_refusal res \<or> (\<exists>re urls. res = Accepted (toView (x_repository x) (x_family x) r) re urls))
     (respondWithRecords h x r reused)"
  unfolding respondWithRecords_def Let_def by (auto intro!: results_await [OF results_any] split: sum.split)

lemma keeps_respond:
  assumes "snapshot h (x_repository x) (x_family x) w rs" and "q \<in> set rs" and "owned_claim x q" and "ok q"
  shows "keeps serve (good h repo) later (accepts h x ok) (respondWithRecords h x q reused) w"
proof (rule log.keeps_weaken [OF ref_free_keeps [OF ref_free_respond respond_shows]])
  fix r v assume v: "later w v" and r: "\<forall>res. r = Some res \<longrightarrow> plain_refusal res
      \<or> (\<exists>re urls. res = Accepted (toView (x_repository x) (x_family x) q) re urls)"
  have "snapshot h (x_repository x) (x_family x) v rs" using assms(1) v by (rule snapshot_later)
  then show "accepts h x ok r v" using r assms(2-4) unfolding accepts_def by blast
qed

lemma ownedBy_found: "ownedBy rs x = Some q \<Longrightarrow> q \<in> set rs \<and> owned_claim x q"
  unfolding ownedBy_def find_Some_iff by (auto simp: in_set_conv_nth)

text \<open>The two continuations that every step of an operation has.\<close>

lemma keeps_folded:
  assumes "good h repo w" and "x_repository x = repo" and "release_family_name (x_family x)"
    and "\<And>v. Q None v"
    and "\<And>rs v. later w v \<Longrightarrow> good h repo v \<Longrightarrow> snapshot h repo (x_family x) v rs \<Longrightarrow> keeps serve (good h repo) later Q (f rs) v"
  shows "keeps serve (good h repo) later Q
    (await (foldLedger h x) (\<lambda>y. case y of Threw \<Rightarrow> g | Refused d \<Rightarrow> g' d | Got rs \<Rightarrow> f rs)) w"
proof (rule log.keeps_await [OF keeps_fold [OF assms(1-3)] assms(1)], goal_cases)
  case (1 y v)
  then obtain rs where "y = Got rs" "snapshot h repo (x_family x) v rs" by blast
  then show ?case using assms(5) [OF 1(1,2)] by simp
qed (rule assms(4))

lemma keeps_else_refuse:
  assumes "keeps serve (good h repo) later P p w" and "good h repo w"
    and "\<And>e v. P (Some (Inl e)) v \<Longrightarrow> plain_refusal e"
    and "\<And>b v. later w v \<Longrightarrow> good h repo v \<Longrightarrow> P (Some (Inr b)) v \<Longrightarrow> keeps serve (good h repo) later (accepts h x ok) (f b) v"
  shows "keeps serve (good h repo) later (accepts h x ok) (await p (case_sum Return f)) w"
proof (rule log.keeps_await [OF assms(1,2)], goal_cases)
  case (1 c v)
  then show ?case using assms(3,4) by (cases c) (auto intro: accepts_refusal simp del: keeps.simps(3))
qed simp

lemma keeps_issue:
  assumes "good h repo w"
    and "\<And>v. later w v \<Longrightarrow> good h repo v \<Longrightarrow> keeps serve (good h repo) later (accepts h x ok) p v"
  shows "keeps serve (good h repo) later (accepts h x ok)
    (await (checkIssue x open) (\<lambda>e. case e of None \<Rightarrow> p | Some refused \<Rightarrow> Return refused)) w"
proof (rule log.keeps_await [OF ref_free_keeps [OF ref_free_issue issue_refusals] assms(1)], goal_cases)
  case (1 e v)
  then show ?case using assms(2) by (cases e) (auto intro: accepts_refusal simp del: keeps.simps(3))
qed simp

lemma keeps_claimAvailable:
  assumes "good h repo w" and "snapshot h repo (x_family x) w rs" and "base_ok w base" and "ownedBy rs x = None"
    and "release_family_name (x_family x)" and "x_repository x = repo"
  shows "keeps serve (good h repo) later (accepts h x (\<lambda>_. True)) (claimAvailableIdentity h x base n rs branch) w"
  using assms(1-4)
proof (induction n arbitrary: w rs)
  case 0
  then show ?case by (simp add: accepts_refusal)
next
  case (Suc n)
  have again: "keeps serve (good h repo) later (accepts h x (\<lambda>_. True)) (await (foldLedger h x) (\<lambda>refold. case refold of
       Got rs' \<Rightarrow>
         (case ownedBy rs' x of
            Some owned \<Rightarrow> respondWithRecords h x owned (made \<noteq> RefCreated)
          | None \<Rightarrow> claimAvailableIdentity h x base n rs' branch)
     | _ \<Rightarrow> Return (Refusal ''release_identity_log_malformed'' None))) v"
    if v: "later w v" "good h repo v" for made v
  proof (rule keeps_folded [OF v(2) assms(6,5)], goal_cases)
    case (2 rs' u)
    have b: "base_ok u base" using Suc.prems(3) v(1) 2(1) base_ok_later by blast
    show ?case
    proof (cases "ownedBy rs' x")
      case None
      then show ?thesis using Suc.IH [OF 2(2,3) b] by simp
    next
      case (Some q)
      then show ?thesis using ownedBy_found [OF Some] 2 assms(6) by (auto intro!: keeps_respond)
    qed
  qed simp
  note claim = keeps_results [OF claim_refusals keeps_claimNext [OF Suc.prems refl assms(5,6)]]
  show ?case unfolding claimAvailableIdentity.simps
  proof (rule keeps_else_refuse [OF claim Suc.prems(1)], goal_cases)
    case (2 made v)
    then show ?case using again [OF 2(1,2)] by (cases made) (simp_all add: accepts_refusal)
  qed simp
qed

lemma keeps_reserve:
  assumes "good h repo w" and "host_ok h" and "release_family_name (x_family x)" and "x_repository x = repo"
  shows "keeps serve (good h repo) later (accepts h x (\<lambda>_. True)) (reserve h x) w"
  unfolding reserve_def
proof (rule keeps_folded [OF assms(1,4,3)], goal_cases)
  case (2 rs v)
  show ?case
  proof (cases "ownedBy rs x")
    case None
    have base: "keeps serve (good h repo) later (accepts h x (\<lambda>_. True)) (await (readBaseFamily h x (base_of local))
        (case_sum Return (\<lambda>b. claimAvailableIdentity h x b claim_attempts_max rs branch))) u"
      if "later v u" "good h repo u" for local branch u
    proof (rule keeps_else_refuse [OF keeps_results [OF base_refusals keeps_readBaseFamily [OF that(2) assms(2)]] that(2)], goal_cases)
      case (2 b t)
      have "snapshot h repo (x_family x) t rs" using \<open>snapshot h repo (x_family x) v rs\<close> that(1) 2(1) snapshot_later by blast
      then show ?case using 2(2,3) None assms(3,4) by (intro keeps_claimAvailable) simp_all
    qed simp
    have run: "keeps serve (good h repo) later (accepts h x (\<lambda>_. True)) (await (requireRunBranch h x None)
        (case_sum Return (\<lambda>branch. await (readBaseFamily h x (base_of local))
          (case_sum Return (\<lambda>b. claimAvailableIdentity h x b claim_attempts_max rs branch))))) u"
      if "later v u" "good h repo u" for local u
    proof (rule keeps_else_refuse [OF ref_free_keeps [OF ref_free_run run_refusals] that(2)], goal_cases)
      case (2 branch t)
      then show ?case using that(1) later_trans by (intro base) blast+
    qed simp
    have "keeps serve (good h repo) later (accepts h x (\<lambda>_. True)) (await (checkIssue x True) (\<lambda>e. case e of
        None \<Rightarrow> (case x_local x of
           None \<Rightarrow> Return (Refusal ''release_identity_config_invalid'' None)
         | Some fams \<Rightarrow>
             (let local = lookup_family fams (x_family x)
              in if local = Missing then Return (Refusal ''release_identity_family_not_configured'' None)
                 else await (requireRunBranch h x None)
                   (case_sum Return (\<lambda>branch. await (readBaseFamily h x (base_of local))
                     (case_sum Return (\<lambda>b. claimAvailableIdentity h x b claim_attempts_max rs branch))))))
      | Some refused \<Rightarrow> Return refused)) v"
    proof (rule keeps_issue [OF 2(2)])
      fix u assume u: "later v u" "good h repo u"
      show "keeps serve (good h repo) later (accepts h x (\<lambda>_. True)) (case x_local x of
           None \<Rightarrow> Return (Refusal ''release_identity_config_invalid'' None)
         | Some fams \<Rightarrow>
             (let local = lookup_family fams (x_family x)
              in if local = Missing then Return (Refusal ''release_identity_family_not_configured'' None)
                 else await (requireRunBranch h x None)
                   (case_sum Return (\<lambda>branch. await (readBaseFamily h x (base_of local))
                     (case_sum Return (\<lambda>b. claimAvailableIdentity h x b claim_attempts_max rs branch)))))) u"
        using run [OF u] by (auto simp: accepts_refusal Let_def simp del: keeps.simps(3) split: option.split)
    qed
    then show ?thesis using None by simp
  next
    case (Some q)
    then show ?thesis using ownedBy_found [OF Some] 2(3) assms(4) by (auto intro!: keeps_respond)
  qed
qed simp

lemma results_both: "results P p \<Longrightarrow> results Q p \<Longrightarrow> results (\<lambda>x. P x \<and> Q x) p"
  by (induction p) simp_all

text \<open>A transition: it accepts only a reservation whose outcome is the one asked for.\<close>

definition decides :: "(reservation \<Rightarrow> (release_result + string \<times> (string \<times> js) list) op) \<Rightarrow> bool" where
  "decides decide \<longleftrightarrow> (\<forall>r. ref_free (decide r) \<and> results (\<lambda>d. (\<forall>e. d = Inl e \<longrightarrow> plain_refusal e)
     \<and> (\<forall>o1. d = Inr o1 \<longrightarrow> decided_outcome r o1)) (decide r))"

lemma decides_publish: "decides (decide_publish x)"
  unfolding decides_def by (intro allI conjI ref_free_decide results_both publish_refusals decide_publish_results)

lemma decides_abandon: "decides (decide_abandon h x)"
  unfolding decides_def by (intro allI conjI ref_free_decide results_both abandon_refusals decide_abandon_results)

definition settled_as :: "(js \<Rightarrow> bool) \<Rightarrow> reservation \<Rightarrow> bool" where
  "settled_as wanted r \<longleftrightarrow> (\<exists>oc. rs_outcome r = Some oc \<and> wanted (er_event oc))"

lemma terminal_plain [simp]: "plain_refusal (terminalRefusal x r)"
  by (simp add: terminalRefusal_def)

lemma keeps_append:
  assumes "good h repo w" and "snapshot h repo (x_family x) w rs" and "r \<in> set rs" and "rs_outcome r = None"
    and "decided_outcome r outcome" and "release_family_name (x_family x)" and "x_repository x = repo"
    and "\<And>made v. later w v \<Longrightarrow> good h repo v \<Longrightarrow> keeps serve (good h repo) later (accepts h x ok) (f made) v"
  shows "keeps serve (good h repo) later (accepts h x ok) (await (appendOutcome h x r outcome) (\<lambda>made. case made of
       None \<Rightarrow> Return (Refusal ''release_identity_identity_unrepresentable'' None)
     | Some RefCreated \<Rightarrow> f RefCreated | Some RefTaken \<Rightarrow> f RefTaken
     | Some RefUndecided \<Rightarrow> Return (Refusal ''release_identity_write_undecided'' None))) w"
proof (rule log.keeps_await [OF keeps_appendOutcome [OF assms(1-5) refl assms(6,7)] assms(1)], goal_cases)
  case (1 made v)
  show ?case using assms(8) [OF 1(1,2)]
    by (auto simp: accepts_refusal simp del: keeps.simps(3) split: option.split ref_outcome.split)
qed simp

lemma keeps_settled:
  assumes "good h repo w" and "release_family_name (x_family x)" and "x_repository x = repo"
  shows "keeps serve (good h repo) later (accepts h x (settled_as wanted)) (await (foldLedger h x) (\<lambda>settled. case settled of
       Got rs' \<Rightarrow>
         (case ownedBy rs' x of
            None \<Rightarrow> Return (Refusal ''release_identity_write_undecided'' None)
          | Some winner \<Rightarrow>
              (case rs_outcome winner of
                 None \<Rightarrow> Return (Refusal ''release_identity_write_undecided'' None)
               | Some oc \<Rightarrow>
                   if wanted (er_event oc) then respondWithRecords h x winner (created = RefTaken)
                   else Return (terminalRefusal x winner)))
     | _ \<Rightarrow> Return (Refusal ''release_identity_log_malformed'' None))) w"
proof (rule keeps_folded [OF assms(1,3,2)], goal_cases)
  case (2 rs v)
  have "keeps serve (good h repo) later (accepts h x (settled_as wanted)) (respondWithRecords h x q (created = RefTaken)) v"
    if "ownedBy rs x = Some q" "settled_as wanted q" for q
    using that(2) ownedBy_found [OF that(1)] 2(3) assms(3) by (intro keeps_respond [where rs = rs]) simp_all
  then show ?case
    by (auto simp: accepts_refusal settled_as_def simp del: keeps.simps(3) split: option.split)
qed simp

lemma keeps_transition:
  assumes "good h repo w" and "decides decide" and "release_family_name (x_family x)" and "x_repository x = repo"
  shows "keeps serve (good h repo) later (accepts h x (settled_as wanted)) (transition h x wanted decide) w"
  unfolding transition_def
proof (rule keeps_folded [OF assms(1,4,3)], goal_cases)
  case (2 rs v)
  show ?case
  proof (cases "ownedBy rs x")
    case None
    then show ?thesis by (simp add: accepts_refusal)
  next
    case (Some r)
    note r = ownedBy_found [OF Some]
    show ?thesis
    proof (cases "rs_outcome r")
      case None
      have d: "keeps serve (good h repo) later (accepts h x (settled_as wanted)) (await (decide r)
         (case_sum Return (\<lambda>outcome. await (appendOutcome h x r outcome) (\<lambda>made. case made of
            None \<Rightarrow> Return (Refusal ''release_identity_identity_unrepresentable'' None)
          | Some RefCreated \<Rightarrow> settle RefCreated | Some RefTaken \<Rightarrow> settle RefTaken
          | Some RefUndecided \<Rightarrow> Return (Refusal ''release_identity_write_undecided'' None))))) u"
        if u: "later v u" "good h repo u"
          and settle: "\<And>made t. good h repo t \<Longrightarrow> keeps serve (good h repo) later (accepts h x (settled_as wanted)) (settle made) t"
        for u settle
      proof -
        from assms(2) have free: "ref_free (decide r)" and res: "results (\<lambda>d. (\<forall>e. d = Inl e \<longrightarrow> plain_refusal e)
          \<and> (\<forall>o1. d = Inr o1 \<longrightarrow> decided_outcome r o1)) (decide r)" by (simp_all add: decides_def)
        show ?thesis
        proof (rule keeps_else_refuse [OF ref_free_keeps [OF free res] u(2)], goal_cases)
          case (2 outcome t)
          have "snapshot h repo (x_family x) t rs" using \<open>snapshot h repo (x_family x) v rs\<close> u(1) 2(1) snapshot_later by blast
          moreover have "decided_outcome r outcome" using 2(3) by blast
          ultimately show ?case using 2(2) r None assms(3,4) settle by (intro keeps_append [where rs = rs]) simp_all
        qed simp
      qed
      show ?thesis
        unfolding reading.case Some None option.case
        by (rule keeps_issue [OF 2(2)], rule d) (simp_all only: keeps_settled [OF _ assms(3,4)])
    next
      case (Some oc)
      have "keeps serve (good h repo) later (accepts h x (settled_as wanted)) (respondWithRecords h x r True) v"
        if "wanted (er_event oc)"
        using that r Some 2(3) assms(4) by (intro keeps_respond [where rs = rs]) (simp_all add: settled_as_def)
      then show ?thesis using Some \<open>ownedBy rs x = Some r\<close> by (simp add: accepts_refusal)
    qed
  qed
qed simp

text \<open>What each action may answer.\<close>

definition shows_status :: "release_host \<Rightarrow> release_ctx \<Rightarrow> release_result option \<Rightarrow> remote \<Rightarrow> bool" where
  "shows_status h x r v \<longleftrightarrow> (\<forall>res. r = Some res \<longrightarrow> plain_refusal res
     \<or> (\<exists>rs. snapshot h (x_repository x) (x_family x) v rs
          \<and> (let matching = filter (\<lambda>q. x_issue x = None \<or> fld (er_event (rs_claim q)) ''issue_number'' = issue_js x) rs
             in res = StatusOf (highest rs) (length matching) (length matching \<le> status_reservations_max)
                  (map (toView (x_repository x) (x_family x)) (drop (length matching - status_reservations_max) matching)))))"

definition promised :: "release_host \<Rightarrow> release_ctx \<Rightarrow> release_result option \<Rightarrow> remote \<Rightarrow> bool" where
  "promised h x =
     (if x_action x = ''reserve'' then accepts h x (\<lambda>_. True)
      else if x_action x = ''publish'' then accepts h x (settled_as (\<lambda>e. fld e ''event'' = JStr ''published''))
      else if x_action x = ''abandon'' then
        accepts h x (settled_as (\<lambda>e. fld e ''event'' = JStr ''abandoned'' \<and> fld e ''reason'' = JStr (x_reason x)))
      else shows_status h x)"

lemma promised_refusal: "plain_refusal res \<Longrightarrow> promised h x (Some res) v"
  by (simp add: promised_def accepts_refusal shows_status_def)

lemma promised_throw: "promised h x None v"
  by (simp add: promised_def shows_status_def)

lemma keeps_status:
  assumes "good h repo w" and "release_family_name (x_family x)" and "x_repository x = repo"
  shows "keeps serve (good h repo) later (shows_status h x) (status h x) w"
  unfolding status_def
proof (rule keeps_folded [OF assms(1,3,2)], goal_cases)
  case (2 rs v)
  show ?case unfolding reading.case Let_def
  proof (rule log.keeps_return)
    fix u assume "later v u"
    then have "snapshot h (x_repository x) (x_family x) u rs" using 2(3) assms(3) snapshot_later by blast
    then show "shows_status h x (Some (StatusOf (highest rs)
        (length (filter (\<lambda>r. x_issue x = None \<or> fld (er_event (rs_claim r)) ''issue_number'' = issue_js x) rs))
        (length (filter (\<lambda>r. x_issue x = None \<or> fld (er_event (rs_claim r)) ''issue_number'' = issue_js x) rs) \<le> status_reservations_max)
        (map (toView (x_repository x) (x_family x))
          (drop (length (filter (\<lambda>r. x_issue x = None \<or> fld (er_event (rs_claim r)) ''issue_number'' = issue_js x) rs) - status_reservations_max)
            (filter (\<lambda>r. x_issue x = None \<or> fld (er_event (rs_claim r)) ''issue_number'' = issue_js x) rs))))) u"
      unfolding shows_status_def Let_def by blast
  qed
qed (simp add: shows_status_def)

lemma keeps_operation:
  assumes "good h repo w" and "host_ok h" and "release_family_name (x_family x)" and "x_repository x = repo"
  shows "keeps serve (good h repo) later (promised h x) (release_operation h x) w"
  using keeps_reserve [OF assms] keeps_status [OF assms(1,3,4)]
    keeps_transition [OF assms(1) decides_publish assms(3,4)] keeps_transition [OF assms(1) decides_abandon assms(3,4)]
  by (simp add: promised_def release_operation_def publish_def abandon_def)

lemma validate_plain: "validateInput i = Some e \<Longrightarrow> e \<noteq> ''release_identity_log_malformed''"
  by (auto simp: validateInput_def split: if_splits)

lemma validate_family:
  assumes "validateInput i = None"
  shows "release_family_name (text_of (fld i ''family''))"
proof -
  have "case fld i ''family'' of JStr f \<Rightarrow> release_family_name f | _ \<Rightarrow> False"
    using assms by (simp add: validateInput_def split: if_splits)
  then show ?thesis by (cases "fld i ''family''") (simp_all add: text_of_def)
qed

lemma keeps_run:
  assumes "good h repo w" and "host_ok h"
  shows "keeps serve (good h repo) later (\<lambda>r v. r \<noteq> None \<and> promised h (release_context h i repo families) r v)
    (runReleaseIdentity h i (Some repo) families) w"
proof (cases "validateInput i")
  case None
  let ?x = "release_context h i repo families"
  have "release_family_name (x_family ?x)" using validate_family [OF None] by (simp add: release_context_def)
  from keeps_operation [OF assms this] have op: "keeps serve (good h repo) later (promised h ?x) (release_operation h ?x) w"
    by (simp add: release_context_def)
  have "keeps serve (good h repo) later (\<lambda>r v. r \<noteq> None \<and> promised h ?x r v)
      (catching (release_operation h ?x) (Return (Refusal ''release_identity_github_unavailable'' None))) w"
    by (rule log.keeps_catching [OF op assms(1)]) (simp_all add: promised_refusal)
  then show ?thesis using None by (simp add: runReleaseIdentity_def promised_refusal)
next
  case (Some e)
  then show ?thesis using validate_plain [OF Some] by (simp add: runReleaseIdentity_def promised_refusal)
qed

end
