(* ===== verification/ReleaseRun.thy ===== *)
theory ReleaseRun
  imports ReleaseOperations
begin

text \<open>
  One run of the release-identity tool, worked out: issue 7 reserves the first identity of a family, then
  publishes it. The service is one of those that \<open>serve\<close> allows; it shows that what is proved of all runs is
  not proved of none.
\<close>

section \<open>A service\<close>

definition sample_family :: family where
  "sample_family = \<lparr>fam_base_branch = ''main'', fam_sequence_floor = 1, fam_version_template = ''v{sequence}'',
     fam_paths = [(''notes'', ''docs/v{sequence}.md'')]\<rparr>"

definition sample_host :: release_host where
  "sample_host = \<lparr>h_frac = (\<lambda>p q. []), h_sha256 = (\<lambda>s. replicate 64 (CHR ''a'')),
     h_yaml = (\<lambda>t. Some (None, [(''app'', sample_family)])), h_sensitive = (\<lambda>t. False)\<rparr>"

definition id_of :: "char \<Rightarrow> string" where
  "id_of c = replicate 40 c"

definition base_commit :: git_commit where
  "base_commit = \<lparr>cm_sha = id_of (CHR ''1''), cm_message = ''base'', cm_tree = id_of (CHR ''0''), cm_parents = []\<rparr>"

definition world0 :: remote where
  "world0 = \<lparr>rm_refs = [], rm_objects = [id_of (CHR ''1'') \<mapsto> base_commit]\<rparr>"

definition pickup :: comment where
  "pickup = \<lparr>c_id = Some 1,
     c_body = pickup_head @ ''implement - driver codex, branch `7-x`, 2026-01-01T00:00:00.000Z.'',
     c_author = Some ''bot'', c_association = Some ''OWNER'', c_author_type = Some ''Bot'', c_created_at = None\<rparr>"

definition entry :: "string \<Rightarrow> string \<Rightarrow> string \<Rightarrow> string \<Rightarrow> tree_entry" where
  "entry path kind mode sha = \<lparr>te_path = path, te_type = kind, te_mode = mode, te_sha = sha\<rparr>"

text \<open>The tree of the base branch before and after the artifact has been merged.\<close>

definition sample_tree :: "bool \<Rightarrow> string \<Rightarrow> tree_entry list" where
  "sample_tree merged sha =
     (if sha = id_of (CHR ''0'') then
        entry ''.ground-control.yaml'' ''blob'' ''100644'' (id_of (CHR ''c''))
        # (if merged then [entry ''docs'' ''tree'' ''040000'' (id_of (CHR ''d''))] else [])
      else if sha = id_of (CHR ''d'') then [entry ''v1.md'' ''blob'' ''100644'' (id_of (CHR ''e''))] else [])"

definition new_id :: "remote \<Rightarrow> string" where
  "new_id w = id_of (if rm_refs w = [] then CHR ''2'' else CHR ''3'')"

fun sample_service :: "bool \<Rightarrow> request \<Rightarrow> remote \<Rightarrow> answer \<times> remote" where
  "sample_service merged (ListRefs namespace) w =
     (if starts_with ledger_root namespace
      then (Listing (remdups (map (\<lambda>(r, s). (JStr r, JStr s)) (filter (\<lambda>e. starts_with (''refs/'' @ namespace) (fst e)) (rm_refs w)))), w)
      else (Listing [(JStr ''refs/heads/main'', JStr (id_of (CHR ''1'')))], w))"
| "sample_service merged (ReadCommit sha) w = (case rm_objects w sha of Some c \<Rightarrow> Commit c | None \<Rightarrow> Failed, w)"
| "sample_service merged ReadObjects w = (Objects (rm_objects w), w)"
| "sample_service merged (ReadTree sha) w = (Tree (sample_tree merged sha), w)"
| "sample_service merged (ReadBlob sha) w = (Blob (Some ''release_families: ...''), w)"
| "sample_service merged (ReadIssue n) w = (IssueIs (JObj [(''number'', JInt n), (''state'', JStr ''open'')]), w)"
| "sample_service merged (CreateCommit m tree parent) w =
     (let c = \<lparr>cm_sha = new_id w, cm_message = m, cm_tree = tree, cm_parents = [parent]\<rparr>
      in if rm_objects w (new_id w) = None then (Created (new_id w), add_object c w) else (Failed, w))"
| "sample_service merged (CreateRef ref sha) w =
     (if map_of (rm_refs w) ref = None then (Done, add_reference ref sha w) else (Failed, w))"
| "sample_service merged ReadUser w = (User (Some ''bot''), w)"
| "sample_service merged (ListComments n) w = (Comments [(pickup, JNull)], w)"
| "sample_service merged (PostComment n body) w = (Posted JNull, w)"
| "sample_service merged ActiveBranch w = (Branch (Some ''7-x''), w)"
| "sample_service merged (PathsOutside ps) w = (Outside None, w)"

lemma new_id_git: "git_object_id (new_id w)"
proof -
  have "git_object_id (id_of (CHR ''2''))" "git_object_id (id_of (CHR ''3''))" by code_simp+
  then show ?thesis by (simp add: new_id_def)
qed

lemma sample_serves: "serve w q (fst (sample_service merged q w)) (snd (sample_service merged q w))"
proof (cases q)
  case (ListRefs namespace)
  show ?thesis
  proof (cases "starts_with ledger_root namespace")
    case True
    let ?refs = "remdups (map (\<lambda>(r, s). (JStr r, JStr s)) (filter (\<lambda>e. starts_with (''refs/'' @ namespace) (fst e)) (rm_refs w)))"
    have "set ?refs = listed namespace (take (length (rm_refs w)) (rm_refs w))" by (simp add: listed_def)
    from answer_listing [OF True distinct_remdups this] show ?thesis using True ListRefs by simp
  qed (simp add: ListRefs answer_elsewhere)
next
  case (CreateCommit m tree parent)
  then show ?thesis using new_id_git
    by (auto simp: Let_def new_object_def intro!: request_fails make_commit [of w "\<lparr>cm_sha = new_id w, cm_message = m, cm_tree = tree, cm_parents = [parent]\<rparr>", simplified])
qed (auto intro!: request_fails answer_elsewhere answer_commit answer_objects make_ref split: option.split)

lemma sample_host_ok: "host_ok sample_host"
  by (auto simp: host_ok_def sample_host_def sample_family_def)

section \<open>Reserving\<close>

definition reserve_input :: js where
  "reserve_input = JObj [(''action'', JStr ''reserve''), (''repoPath'', JStr ''/r''), (''issueNumber'', JInt 7),
     (''family'', JStr ''app''), (''idempotencyKey'', JStr ''k1'')]"

definition reserve_ctx :: release_ctx where
  "reserve_ctx = release_context sample_host reserve_input ''o/r'' (Some [(''app'', sample_family)])"

lemma ctx_flds:
  "x_action reserve_ctx = ''reserve''" "x_repository reserve_ctx = ''o/r''" "x_family reserve_ctx = ''app''" "x_issue reserve_ctx = Some 7"
  "x_hash reserve_ctx = replicate 64 (CHR ''a'')" "x_local reserve_ctx = Some [(''app'', sample_family)]"
  by (simp_all add: reserve_ctx_def release_context_def reserve_input_def fld_def text_of_def sample_host_def)

lemma run_fold:
  assumes "history sample_host ''o/r'' ''app'' (rm_objects w) (rm_refs w) rs" and "x_family x = ''app''" and "x_repository x = ''o/r''"
  shows "run_calls (sample_service merged) (foldLedger sample_host x) w = (Some (Got rs), w)"
proof -
  let ?refs = "remdups (map (\<lambda>(r, s). (JStr r, JStr s))
    (filter (\<lambda>e. starts_with (''refs/'' @ releaseLedgerNamespace ''app'') (fst e)) (rm_refs w)))"
  have "set ?refs = listed (releaseLedgerNamespace ''app'') (rm_refs w)" by (simp add: listed_def)
  from fold_history [OF assms(1) map_le_refl distinct_remdups this]
  have "foldReleaseLedger (h_frac sample_host) (h_sha256 sample_host) ''o/r'' ?refs (rm_objects w) ''app'' = Got rs"
    by (simp add: finds_def)
  then show ?thesis using assms(2,3)
    by (simp add: foldLedger_def listRefs_def run_await starts_ledger_root del: remdups.simps)
qed

lemma history0: "history sample_host ''o/r'' ''app'' (rm_objects world0) (rm_refs world0) []"
  using history_empty by (simp add: world0_def)

lemma run_issue: "run_calls (sample_service merged) (checkIssue reserve_ctx open) w = (Some None, w)"
  by (simp add: checkIssue_def issue_number_def issue_js_def ctx_flds fld_def nullish_def)

lemma run_trusted: "run_calls (sample_service merged) (isTrustedImplementRunBranch 7 ''7-x'') w = (Some True, w)"
proof -
  have "implementPickupRecordedBy [pickup] (Some ''bot'') ''7-x''" by code_simp
  then show ?thesis
    by (simp add: isTrustedImplementRunBranch_def authenticatedLogin_def listIssueComments_def run_await)
qed

lemma run_branch: "run_calls (sample_service merged) (requireRunBranch sample_host reserve_ctx None) w = (Some (Inr ''7-x''), w)"
proof -
  have "isReleaseIssueBranch (\<lambda>p q. []) (JStr ''7-x'') (JInt 7)" by code_simp
  then show ?thesis
    by (simp add: requireRunBranch_def Let_def run_await run_trusted ctx_flds sample_host_def js_text_def issue_js_def issue_number_def)
qed


definition sample_base :: release_base where
  "sample_base = \<lparr>rb_sha = id_of (CHR ''1''), rb_tree = id_of (CHR ''0''), rb_family = Own sample_family\<rparr>"

lemma sample_ids: "git_object_id (id_of (CHR ''0''))" "git_object_id (id_of (CHR ''1''))" "git_object_id (id_of (CHR ''2''))"
  "git_object_id (id_of (CHR ''3''))" "git_object_id (id_of (CHR ''c''))" "git_object_id (id_of (CHR ''d''))" "git_object_id (id_of (CHR ''e''))"
  by code_simp+

lemma id_of_inj: "id_of c = id_of d \<longleftrightarrow> c = d"
  by (simp add: id_of_def replicate_eq_replicate)

lemma run_config: "run_calls (sample_service merged) (lookupPath (id_of (CHR ''0'')) ''.ground-control.yaml'') w
    = (Some (RegularFile (id_of (CHR ''c''))), w)"
proof -
  have "split_on (CHR ''/'') ''.ground-control.yaml'' = [''.ground-control.yaml'']" by code_simp
  then show ?thesis
    by (simp add: lookupPath_def readTree_def run_await sample_ids sample_tree_def entry_def)
qed

lemma run_head:
  assumes "rm_objects w (id_of (CHR ''1'')) = Some base_commit"
  shows "run_calls (sample_service merged) (branchHead ''main'') w = (Some (Some (id_of (CHR ''1''), id_of (CHR ''0''))), w)"
proof -
  have "\<not> starts_with ledger_root (''heads/'' @ ''main'')" by code_simp
  then show ?thesis
    using assms by (simp add: branchHead_def listRefs_def readCommit_def find_ref_def run_await sample_ids base_commit_def)
qed

lemma run_base:
  assumes "rm_objects w (id_of (CHR ''1'')) = Some base_commit"
  shows "run_calls (sample_service merged) (readBaseFamily sample_host reserve_ctx (Some ''main'')) w = (Some (Inr sample_base), w)"
  by (simp add: readBaseFamily_def shown_base_def run_await run_head [OF assms] run_config readBlobText_def sample_ids
      sample_host_def lookup_family_def ctx_flds base_of_def sample_base_def) (simp add: sample_family_def)

lemma sample_identity: "renderReleaseIdentity sample_family 1 = \<lparr>rid_sequence = 1, rid_version = ''v1'', rid_paths = [(''notes'', ''docs/v1.md'')]\<rparr>"
  "releaseSequenceRenderable sample_family (JInt 1)" "fam_sequence_floor sample_family = 1"
  "split_on (CHR ''/'') ''docs/v1.md'' = [''docs'', ''v1.md'']"
  by code_simp+

lemma run_collision: "run_calls (sample_service False)
    (identityCollision [] (renderReleaseIdentity sample_family 1) (id_of (CHR ''0''))) w = (Some None, w)"
  by (simp add: identityCollision_def sample_identity run_await lookupPath_def readTree_def sample_ids sample_tree_def entry_def)

definition claim1 :: js where
  "claim1 = claim_event sample_host reserve_ctx sample_base sample_family [] ''7-x'' 1"

definition claim1_message :: string where
  "claim1_message = buildReleaseEventMessage (h_frac sample_host) claim1"

lemma unit_length_le: "unit_length s \<le> 2 * length s"
proof -
  have "unit_length s \<le> length s + length s"
    unfolding unit_length_def by (intro add_mono length_filter_le)
  then show ?thesis by simp
qed

lemma claim1_length: "int (length claim1_message) \<le> 8000" by code_simp
lemma claim1_shape: "shape_accepts (h_frac sample_host) (h_sha256 sample_host) ''reserved'' claim1" by code_simp
lemma claim1_printable: "printable claim1" by code_simp
lemma app_name: "release_family_name ''app''" by code_simp

lemma claim1_built:
  "buildValidatedReleaseEventMessage (h_frac sample_host) (h_sha256 sample_host) claim1 = Some claim1_message"
proof -
  note flds = claim_event_flds [of sample_host reserve_ctx sample_base sample_family "[]" "''7-x''" 1, folded claim1_def]
  have "plain_event claim1"
    using flds claim1_printable app_name by (simp add: plain_event_def ctx_flds next_slot_def)
  moreover have "int (unit_length claim1_message) \<le> event_message_max"
    using unit_length_le [of claim1_message] claim1_length by (simp add: event_message_max_def)
  ultimately show ?thesis using claim1_shape flds(5)
    by (simp add: plain_builds claim1_message_def text_of_def)
qed

definition claim1_commit :: git_commit where
  "claim1_commit = \<lparr>cm_sha = id_of (CHR ''2''), cm_message = claim1_message, cm_tree = id_of (CHR ''0''), cm_parents = [id_of (CHR ''1'')]\<rparr>"

definition world1 :: remote where
  "world1 = add_reference (releaseLedgerRef ''app'' ''claims'' 1) (id_of (CHR ''2'')) (add_object claim1_commit world0)"

lemma run_claim: "run_calls (sample_service False) (claimNext sample_host reserve_ctx sample_base [] ''7-x'') world0
    = (Some (Inr RefCreated), world1)"
proof -
  have built: "buildValidatedReleaseEventMessage (h_frac sample_host) (h_sha256 sample_host)
      (claim_event sample_host reserve_ctx sample_base sample_family [] ''7-x'' 1) = Some claim1_message"
    using claim1_built by (simp add: claim1_def)
  have h: "highest [] = 0" by (simp add: highest_def previous_sequence_def last_of_def)
  show ?thesis
    by (simp add: claimNext_def sample_base_def h sample_identity run_await)
      (use built run_collision in \<open>simp add: sample_base_def createCommit_def createLedgerRef_def run_await new_id_def sample_ids id_of_inj
        world0_def world1_def add_object_def add_reference_def claim1_commit_def next_slot_def ledger_slots_max_def ctx_flds sample_identity\<close>)
qed


text \<open>The record on the issue thread: found or posted, never pending here.\<close>

lemma run_post: "\<exists>urls'. run_calls (sample_service merged) (post_records view issue own events urls []) w = (Some (Inr urls'), w)"
proof (induction events arbitrary: urls)
  case (Cons e events)
  obtain event commit where e: "e = (event, commit)" by (cases e)
  show ?case using Cons unfolding e
    by (auto simp: run_await run_catching postIssueComment_def split: option.split)
qed simp

definition fits :: "js \<Rightarrow> bool" where
  "fits view \<longleftrightarrow> list_all (\<lambda>(e, c). int (length (renderRecord view e c)) \<le> comment_body_max) (eventsOf view)"

lemma run_respond: "fits (toView (x_repository x) (x_family x) r) \<Longrightarrow> \<exists>urls. run_calls (sample_service merged) (respondWithRecords sample_host x r re) w
    = (Some (Accepted (toView (x_repository x) (x_family x) r) re urls), w)"
proof -
  let ?view = "toView (x_repository x) (x_family x) r"
  let ?own = "filter (\<lambda>(c, _). (case c_author c of Some a \<Rightarrow> lower a = lower ''bot'' | None \<Rightarrow> False)) [(pickup, JNull)]"
  assume "fits ?view"
  then have quiet: "\<not> list_ex (\<lambda>b. h_sensitive sample_host b \<or> int (length b) > comment_body_max)
      (map (\<lambda>(e, c). renderRecord ?view e c) (eventsOf ?view))"
    by (auto simp: sample_host_def list_ex_iff list_all_iff fits_def)
  obtain urls where "run_calls (sample_service merged) (post_records ?view
      (case fld ?view ''issue_number'' of JInt n \<Rightarrow> n | _ \<Rightarrow> 0) ?own (eventsOf ?view) [] []) w = (Some (Inr urls), w)"
    using run_post by blast
  then show ?thesis
    unfolding respondWithRecords_def ensureReleaseIdentityRecords_def Let_def if_not_P [OF quiet]
    by (auto simp: run_await run_catching authenticatedLogin_def listIssueComments_def simp del: filter.simps)
qed

definition reservation1 :: reservation where
  "reservation1 = \<lparr>rs_slot = 1, rs_sequence = 1, rs_claim = \<lparr>er_commit = claim1_commit, er_event = claim1\<rparr>, rs_outcome = None\<rparr>"

lemma reservation1_fits: "fits (toView ''o/r'' ''app'' reservation1)" by code_simp

lemma world1_parts:
  "rm_objects world1 (id_of (CHR ''1'')) = Some base_commit" "rm_objects world1 (id_of (CHR ''2'')) = Some claim1_commit"
  "rm_refs world1 = [(releaseLedgerRef ''app'' ''claims'' 1, id_of (CHR ''2''))]"
  by (simp_all add: world1_def add_reference_def add_object_def world0_def claim1_commit_def id_of_inj)

lemma sample_paths: "distinct (map fst (fam_paths sample_family))"
  by (simp add: sample_family_def)

lemma history1: "history sample_host ''o/r'' ''app'' (rm_objects world1) (rm_refs world1) [reservation1]"
proof -
  have "may_follow sample_host ''o/r'' ''app'' (rm_objects world1) []
      \<lparr>rs_slot = next_slot [], rs_sequence = 1, rs_claim = \<lparr>er_commit = claim1_commit, er_event = claim1\<rparr>, rs_outcome = None\<rparr>"
    by (rule claim_may_follow [where f = sample_family and x = reserve_ctx and base = sample_base and branch = "''7-x''" and b = base_commit])
      (use claim1_built app_name sample_ids world1_parts in \<open>simp_all add: claim1_def claim1_commit_def base_commit_def sample_base_def
        sample_identity ctx_flds sound_log_def ledger_slots_max_def highest_def previous_sequence_def last_of_def next_slot_def ownedBy_def
        sample_paths\<close>)
  from history_claim [OF history_empty this] show ?thesis
    by (simp add: world1_parts reservation1_def claim1_commit_def next_slot_def)
qed

lemma claim1_flds:
  "fld claim1 ''issue_number'' = JInt 7" "fld claim1 ''idempotency_hash'' = JStr (replicate 64 (CHR ''a''))"
  "fld claim1 ''paths'' = JObj [(''notes'', JStr ''docs/v1.md'')]" "fld claim1 ''base_branch'' = JStr ''main''"
  "fld claim1 ''version'' = JStr ''v1''"
  by code_simp+

lemma owned1: "issue_js x = JInt 7 \<Longrightarrow> x_hash x = replicate 64 (CHR ''a'') \<Longrightarrow>
    ownedBy [reservation1\<lparr>rs_outcome := oc\<rparr>] x = Some (reservation1\<lparr>rs_outcome := oc\<rparr>)"
  by (simp add: ownedBy_def owned_claim_def reservation1_def claim1_flds)

lemma reservation1_same: "reservation1\<lparr>rs_outcome := None\<rparr> = reservation1"
  by (simp add: reservation1_def)

lemma run_reserve: "\<exists>urls. run_calls (sample_service False) (reserve sample_host reserve_ctx) world0
    = (Some (Accepted (toView ''o/r'' ''app'' reservation1) False urls), world1)"
proof -
  obtain urls where urls: "run_calls (sample_service False) (respondWithRecords sample_host reserve_ctx reservation1 False) world1
      = (Some (Accepted (toView ''o/r'' ''app'' reservation1) False urls), world1)"
    using run_respond [of reserve_ctx reservation1 False False world1] reservation1_fits by (auto simp: ctx_flds)
  have own: "ownedBy [] reserve_ctx = None" "ownedBy [reservation1] reserve_ctx = Some reservation1"
    using owned1 [of reserve_ctx None] by (simp_all add: ownedBy_def issue_js_def ctx_flds reservation1_same)
  have base: "run_calls (sample_service False) (readBaseFamily sample_host reserve_ctx (Some ''main'')) world0 = (Some (Inr sample_base), world0)"
    by (rule run_base) (simp add: world0_def)
  have found: "lookup_family [(''app'', sample_family)] ''app'' = Own sample_family" "base_of (Own sample_family) = Some ''main''"
    by (simp_all add: lookup_family_def base_of_def sample_family_def)
  have attempts: "claim_attempts_max = Suc 7" by (simp add: claim_attempts_max_def)
  have claimed: "run_calls (sample_service False) (claimAvailableIdentity sample_host reserve_ctx sample_base claim_attempts_max [] ''7-x'') world0
      = (Some (Accepted (toView ''o/r'' ''app'' reservation1) False urls), world1)"
    unfolding attempts claimAvailableIdentity.simps by (simp add: run_await run_claim run_fold [OF history1] own urls ctx_flds)
  show ?thesis
    by (simp add: reserve_def run_await run_fold [OF history0] own run_issue run_branch base found claimed ctx_flds)
qed

section \<open>Publishing\<close>

definition publish_input :: js where
  "publish_input = JObj [(''action'', JStr ''publish''), (''repoPath'', JStr ''/r''), (''issueNumber'', JInt 7),
     (''family'', JStr ''app''), (''idempotencyKey'', JStr ''k1'')]"

definition publish_ctx :: release_ctx where
  "publish_ctx = release_context sample_host publish_input ''o/r'' None"

lemma publish_flds:
  "x_action publish_ctx = ''publish''" "x_repository publish_ctx = ''o/r''" "x_family publish_ctx = ''app''" "x_issue publish_ctx = Some 7"
  "x_hash publish_ctx = replicate 64 (CHR ''a'')" "issue_js publish_ctx = JInt 7"
  by (simp_all add: publish_ctx_def release_context_def publish_input_def fld_def text_of_def sample_host_def issue_js_def)

definition published1 :: "string \<times> (string \<times> js) list" where
  "published1 = (''published'', [(''published_revision'', JStr (id_of (CHR ''1''))),
     (''artifacts'', JObj [(''notes'', JStr (id_of (CHR ''e'')))])])"

lemma run_observed: "run_calls (sample_service True) (decide_publish publish_ctx reservation1) world1 = (Some (Inr published1), world1)"
proof -
  have three: "head_observations_max = Suc 2" by (simp add: head_observations_max_def)
  have r: "er_event (rs_claim reservation1) = claim1" by (simp add: reservation1_def)
  have path: "run_calls (sample_service True) (lookupPath (id_of (CHR ''0'')) ''docs/v1.md'') world1
      = (Some (RegularFile (id_of (CHR ''e''))), world1)"
    by (simp add: lookupPath_def sample_identity readTree_def run_await sample_ids sample_tree_def entry_def id_of_inj)
  have observed: "run_calls (sample_service True) (observe_head publish_ctx reservation1 (Suc 2)
      (Some (id_of (CHR ''1''), id_of (CHR ''0'')))) world1 = (Some (Inr published1), world1)"
    unfolding observe_head.simps option.case prod.case Let_def
    by (simp add: r claim1_flds text_of_def run_await run_head [OF world1_parts(1)] path published1_def)
  show ?thesis
    unfolding decide_publish_def three
    by (simp only: r claim1_flds text_of_def js.case run_await run_head [OF world1_parts(1)] prod.case option.case observed)
qed

definition outcome1 :: js where
  "outcome1 = outcome_event_js publish_ctx reservation1 (fst published1) (snd published1)"

definition outcome1_message :: string where
  "outcome1_message = buildReleaseEventMessage (h_frac sample_host) outcome1"

definition outcome1_commit :: git_commit where
  "outcome1_commit = \<lparr>cm_sha = id_of (CHR ''3''), cm_message = outcome1_message, cm_tree = id_of (CHR ''0''), cm_parents = [id_of (CHR ''2'')]\<rparr>"

definition world2 :: remote where
  "world2 = add_reference (releaseLedgerRef ''app'' ''outcomes'' 1) (id_of (CHR ''3'')) (add_object outcome1_commit world1)"

definition reservation2 :: reservation where
  "reservation2 = reservation1\<lparr>rs_outcome := Some \<lparr>er_commit = outcome1_commit, er_event = outcome1\<rparr>\<rparr>"

lemma outcome1_length: "int (length outcome1_message) \<le> 8000" by code_simp
lemma outcome1_shape: "shape_accepts (h_frac sample_host) (h_sha256 sample_host) ''published'' outcome1" by code_simp
lemma outcome1_printable: "printable outcome1" by code_simp

lemma outcome1_built:
  "buildValidatedReleaseEventMessage (h_frac sample_host) (h_sha256 sample_host) outcome1 = Some outcome1_message"
proof -
  note flds = outcome_event_flds [of publish_ctx reservation1 "fst published1" "snd published1", folded outcome1_def]
  have "plain_event outcome1"
    using flds outcome1_printable app_name by (simp add: plain_event_def publish_flds reservation1_def published1_def)
  moreover have "int (unit_length outcome1_message) \<le> event_message_max"
    using unit_length_le [of outcome1_message] outcome1_length by (simp add: event_message_max_def)
  ultimately show ?thesis using outcome1_shape flds(5)
    by (simp add: plain_builds outcome1_message_def text_of_def published1_def)
qed

lemma run_outcome: "run_calls (sample_service True) (appendOutcome sample_host publish_ctx reservation1 published1) world1
    = (Some (Some RefCreated), world2)"
proof -
  have built: "buildValidatedReleaseEventMessage (h_frac sample_host) (h_sha256 sample_host)
      (outcome_event_js publish_ctx reservation1 (fst published1) (snd published1)) = Some outcome1_message"
    using outcome1_built by (simp add: outcome1_def)
  have r: "er_commit (rs_claim reservation1) = claim1_commit" "rs_slot reservation1 = 1" by (simp_all add: reservation1_def)
  have objects: "rm_objects world1 (id_of (CHR ''3'')) = None"
    by (simp add: world1_def add_reference_def add_object_def world0_def claim1_commit_def id_of_inj)
  show ?thesis
    unfolding appendOutcome_def case_prod_beta built option.case r
    by (simp add: createCommit_def createLedgerRef_def run_await new_id_def sample_ids objects world1_parts publish_flds
        add_object_def claim1_commit_def world2_def add_reference_def outcome1_commit_def)
qed

lemma history2: "history sample_host ''o/r'' ''app'' (rm_objects world2) (rm_refs world2) [reservation2]"
proof -
  have obs: "rm_objects world1 \<subseteq>\<^sub>m rm_objects world2" "rm_objects world2 (id_of (CHR ''3'')) = Some outcome1_commit"
    by (auto simp: map_le_def world2_def add_reference_def add_object_def outcome1_commit_def world1_def world0_def claim1_commit_def id_of_inj)
  have h: "history sample_host ''o/r'' ''app'' (rm_objects world2) (rm_refs world1) [reservation1]"
    using history_mono [OF history1 obs(1)] .
  have dec: "decided_outcome ([reservation1] ! 0) (fst published1, snd published1)"
    by (simp add: decided_outcome_def published1_def reservation1_def claim1_flds obj_keys_def)
  have "settles sample_host ''o/r'' ''app'' (rm_objects world2) ([reservation1] ! 0) \<lparr>er_commit = outcome1_commit, er_event = outcome1\<rparr>"
    by (rule outcome_settles [OF history_sound [OF h] _ _ _ _ dec, where x = publish_ctx])
      (use outcome1_built obs app_name sample_ids in \<open>simp_all add: outcome1_def outcome1_commit_def publish_flds\<close>,
       simp_all add: reservation1_def claim1_commit_def)
  from history_outcome [OF h _ this] show ?thesis
    by (simp add: world2_def add_reference_def add_object_def world1_parts outcome1_commit_def reservation2_def)
qed


lemma reservation2_fits: "fits (toView ''o/r'' ''app'' reservation2)" by code_simp

lemma run_publish: "\<exists>urls. run_calls (sample_service True) (publish sample_host publish_ctx) world1
    = (Some (Accepted (toView ''o/r'' ''app'' reservation2) False urls), world2)"
proof -
  obtain urls where urls: "run_calls (sample_service True) (respondWithRecords sample_host publish_ctx reservation2 False) world2
      = (Some (Accepted (toView ''o/r'' ''app'' reservation2) False urls), world2)"
    using run_respond [of publish_ctx reservation2 True False world2] reservation2_fits by (auto simp: publish_flds)
  have own: "ownedBy [reservation1] publish_ctx = Some reservation1" "ownedBy [reservation2] publish_ctx = Some reservation2"
    using owned1 [of publish_ctx None] owned1 [of publish_ctx "Some \<lparr>er_commit = outcome1_commit, er_event = outcome1\<rparr>"]
    by (simp_all add: publish_flds reservation2_def reservation1_same)
  have outs: "rs_outcome reservation1 = None" "rs_outcome reservation2 = Some \<lparr>er_commit = outcome1_commit, er_event = outcome1\<rparr>"
    by (simp_all add: reservation1_def reservation2_def)
  have wanted: "fld outcome1 ''event'' = JStr ''published''"
    using outcome_event_flds(5) [of publish_ctx reservation1 "fst published1" "snd published1"] by (simp add: outcome1_def published1_def)
  have issue: "run_calls (sample_service True) (checkIssue publish_ctx False) world1 = (Some None, world1)"
    by (simp add: checkIssue_def issue_number_def publish_flds fld_def nullish_def)
  show ?thesis
    by (simp add: publish_def transition_def run_await run_fold [OF history1] run_fold [OF history2] own outs issue run_observed run_outcome
        wanted urls publish_flds)
qed

section \<open>The two calls\<close>

lemma sample_inputs:
  "validateInput reserve_input = None" "validateInput publish_input = None" "github_repo_ok ''o/r''"
  by code_simp+

lemma reserve_called: "\<exists>urls. run_calls (sample_service False) (runReleaseIdentity sample_host reserve_input (Some ''o/r'') (Some [(''app'', sample_family)])) world0
    = (Some (Accepted (toView ''o/r'' ''app'' reservation1) False urls), world1)"
  using run_reserve
  by (auto simp: runReleaseIdentity_def sample_inputs run_catching release_operation_def ctx_flds simp flip: reserve_ctx_def)

lemma publish_called: "\<exists>urls. run_calls (sample_service True) (runReleaseIdentity sample_host publish_input (Some ''o/r'') None) world1
    = (Some (Accepted (toView ''o/r'' ''app'' reservation2) False urls), world2)"
  using run_publish
  by (auto simp: runReleaseIdentity_def sample_inputs run_catching release_operation_def publish_flds simp flip: publish_ctx_def)

end
