(* ===== verification/ReleaseSafety.thy ===== *)
theory ReleaseSafety
  imports ReleaseRun
begin

text \<open>
  The release-identity tool as a whole: any number of calls, from one server or several, their requests
  interleaved in any order, while commits are pushed.
\<close>

section \<open>Pools of calls\<close>

definition release_call :: "release_host \<Rightarrow> string \<Rightarrow> js \<times> (string \<times> family) list option \<Rightarrow> release_result op" where
  "release_call h repo i = runReleaseIdentity h (fst i) (Some repo) (snd i)"

definition call_context :: "release_host \<Rightarrow> string \<Rightarrow> js \<times> (string \<times> family) list option \<Rightarrow> release_ctx" where
  "call_context h repo i = release_context h (fst i) repo (snd i)"

text \<open>A repository with no release log yet.\<close>

definition fresh :: "remote \<Rightarrow> bool" where
  "fresh w \<longleftrightarrow> (\<forall>sha c. rm_objects w sha = Some c \<longrightarrow> cm_sha c = sha)
     \<and> list_all (\<lambda>e. \<not> starts_with (''refs/'' @ ledger_root) (fst e)) (rm_refs w)"

type_synonym release_pool = "remote \<times> (nat \<Rightarrow> ((js \<times> (string \<times> family) list option) \<times> release_result op) option)"

definition release_runs :: "release_host \<Rightarrow> string \<Rightarrow> release_pool \<Rightarrow> release_pool \<Rightarrow> bool" where
  "release_runs h repo = pool_reaches serve pushes (release_call h repo)"

definition log_listing :: "string \<Rightarrow> (string \<times> string) list \<Rightarrow> listing \<Rightarrow> bool" where
  "log_listing family refs listing \<longleftrightarrow> distinct listing \<and> set listing = listed (releaseLedgerNamespace family) refs"

lemma starts_with_trans:
  assumes "starts_with (p @ q) s"
  shows "starts_with p s"
proof -
  have "s = (p @ q) @ drop (length (p @ q)) s" using assms by (metis append_take_drop_id starts_with_def)
  then have "s = p @ q @ drop (length (p @ q)) s" by (simp only: append_assoc)
  then show ?thesis using starts_with_append by metis
qed

lemma history_plain:
  "list_all (\<lambda>e. \<not> starts_with (ledger_space family) (fst e)) refs \<Longrightarrow> history h repo family obs refs []"
proof (induction refs rule: rev_induct)
  case Nil
  show ?case by (rule history_empty)
next
  case (snoc e refs)
  then show ?case using history_other [of h repo family obs refs "[]" "fst e" "snd e"] by simp
qed

lemma fresh_good:
  assumes "fresh w"
  shows "good h repo w"
proof -
  have "\<not> starts_with (ledger_space family) r" if "\<not> starts_with (''refs/'' @ ledger_root) r" for family r
    using that starts_with_trans [of "''refs/'' @ ledger_root" "family @ ''/''" r]
    by (auto simp: ledger_space_def releaseLedgerNamespace_def ledger_root_def)
  then have "list_all (\<lambda>e. \<not> starts_with (ledger_space family) (fst e)) (rm_refs w)" for family
    using assms by (auto simp: fresh_def list_all_iff)
  then show ?thesis using assms history_plain unfolding good_def fresh_def by blast
qed

lemma release_keeps:
  assumes "release_runs h repo (w0, idle) (w, ps)" and "fresh w0" and "host_ok h"
  shows "good h repo w"
    and "ps n = Some (i, p) \<Longrightarrow> keeps serve (good h repo) later (\<lambda>r v. r \<noteq> None \<and> promised h (call_context h repo i) r v) p w"
proof -
  let ?Q = "\<lambda>i r v. r \<noteq> None \<and> promised h (call_context h repo i) r v"
  have "good h repo (fst (w, ps)) \<and> later (fst (w0, idle :: nat \<Rightarrow> ((js \<times> (string \<times> family) list option) \<times> release_result op) option)) (fst (w, ps))
      \<and> (\<forall>n i p. snd (w, ps) n = Some (i, p) \<longrightarrow> keeps serve (good h repo) later (?Q i) p (fst (w, ps)))"
    by (rule log.pool_keeps [OF assms(1) [unfolded release_runs_def]])
      (use keeps_run fresh_good assms(2,3) in \<open>simp_all add: release_call_def call_context_def idle_def\<close>)
  then show "good h repo w" and "ps n = Some (i, p) \<Longrightarrow> keeps serve (good h repo) later (?Q i) p w"
    unfolding fst_conv snd_conv by blast+
qed

lemma release_later:
  assumes "release_runs h repo (w0, idle) (v, ps)" and "release_runs h repo (v, ps) (w, qs)" and "fresh w0" and "host_ok h"
  shows "later v w" and "release_runs h repo (w0, idle) (w, qs)"
proof -
  note k = release_keeps [OF assms(1,3,4)]
  have "good h repo (fst (w, qs)) \<and> later (fst (v, ps)) (fst (w, qs)) \<and> (\<forall>n i p. snd (w, qs) n = Some (i, p) \<longrightarrow>
      keeps serve (good h repo) later (\<lambda>r v. r \<noteq> None \<and> promised h (call_context h repo i) r v) p (fst (w, qs)))"
    using assms(2) unfolding release_runs_def
    by (rule log.pool_keeps) (use keeps_run k assms(4) in \<open>simp_all add: release_call_def call_context_def\<close>)
  then show "later v w" by simp
  show "release_runs h repo (w0, idle) (w, qs)"
    using assms(1,2) unfolding release_runs_def pool_reaches_def by (rule rtranclp_trans)
qed

section \<open>Sound logs\<close>

text \<open>Slots without gaps, sequences that increase, and nothing shared.\<close>

definition orderly :: "release_host \<Rightarrow> reservation list \<Rightarrow> bool" where
  "orderly h rs \<longleftrightarrow> (\<forall>i < length rs. rs_slot (rs ! i) = Suc i
     \<and> (\<forall>j < i. rs_sequence (rs ! j) < rs_sequence (rs ! i) \<and> apart h (rs ! j) (rs ! i)))"

lemma sound_increasing:
  assumes "sound_log h repo family obs rs" and "i < length rs" and "j < i"
  shows "rs_sequence (rs ! j) < rs_sequence (rs ! i)"
  using assms(2,3)
proof (induction i)
  case (Suc i)
  have "sound_slot h repo family obs rs (Suc i)" using assms(1) Suc.prems(1) by (simp add: sound_log_def)
  then have "previous_sequence (last_of (take (Suc i) rs)) < rs_sequence (rs ! Suc i)"
    by (auto simp: sound_slot_def claim_linked_def)
  then have "rs_sequence (rs ! i) < rs_sequence (rs ! Suc i)"
    using Suc.prems(1) by (simp add: last_of_take previous_sequence_def)
  then show ?case using Suc by (cases "j = i") auto
qed simp

lemma sound_orderly:
  assumes "sound_log h repo family obs rs"
  shows "orderly h rs"
  unfolding orderly_def
proof (intro allI impI conjI)
  fix i assume i: "i < length rs"
  then have "sound_slot h repo family obs rs i" using assms by (simp add: sound_log_def)
  then show "rs_slot (rs ! i) = Suc i" by (simp add: sound_slot_def)
  fix j assume j: "j < i"
  show "rs_sequence (rs ! j) < rs_sequence (rs ! i)" using assms i j by (rule sound_increasing)
  show "apart h (rs ! j) (rs ! i)" using assms i j by (simp add: sound_log_def)
qed

lemma fold_good:
  assumes "good h repo w" and "release_family_name family" and "log_listing family (take n (rm_refs w)) listing"
  shows "\<exists>rs. foldReleaseLedger (h_frac h) (h_sha256 h) repo listing (rm_objects w) family = Got rs
    \<and> history h repo family (rm_objects w) (take n (rm_refs w)) rs"
proof -
  obtain qs where "history h repo family (rm_objects w) (rm_refs w) qs" using assms(1,2) by (auto simp: good_def)
  then obtain rs where rs: "history h repo family (rm_objects w) (take n (rm_refs w)) rs" using history_take by blast
  from fold_history [OF this map_le_refl] assms(3) show ?thesis using rs by (auto simp: log_listing_def finds_def)
qed

lemma fold_whole:
  assumes "good h repo w" and "release_family_name family" and "log_listing family (rm_refs w) listing"
    and "foldReleaseLedger (h_frac h) (h_sha256 h) repo listing (rm_objects w) family = Got rs"
  shows "history h repo family (rm_objects w) (rm_refs w) rs"
  using fold_good [OF assms(1,2), of "length (rm_refs w)" listing] assms(3,4) by simp

section \<open>What the calls were told\<close>

text \<open>The reservation a call was shown, in the log of any later moment.\<close>

lemma shown_in_log:
  assumes "snapshot h repo family w rs" and "q \<in> set rs" and "history h repo family (rm_objects w) (rm_refs w) qs"
  shows "\<exists>i < length qs. rs_claim (qs ! i) = rs_claim q \<and> rs_slot (qs ! i) = rs_slot q \<and> rs_sequence (qs ! i) = rs_sequence q
    \<and> (rs_outcome q \<noteq> None \<longrightarrow> rs_outcome (qs ! i) = rs_outcome q)"
proof -
  obtain i where i: "i < length rs" "q = rs ! i" using assms(2) by (auto simp: in_set_conv_nth)
  show ?thesis using grown_nth [OF snapshot_grown [OF assms(1,3)] i(1)] i(2) by blast
qed

definition same_owner :: "release_ctx \<Rightarrow> release_ctx \<Rightarrow> bool" where
  "same_owner x y \<longleftrightarrow> issue_js x = issue_js y \<and> x_hash x = x_hash y"

lemma one_claim_each:
  assumes "sound_log h repo family obs qs" and "i < length qs" and "j < length qs"
    and "owned_claim x (qs ! i)" and "owned_claim y (qs ! j)"
  shows "i = j \<longleftrightarrow> same_owner x y"
proof
  assume "i = j"
  then show "same_owner x y" using assms(4,5) by (simp add: owned_claim_def same_owner_def)
next
  assume "same_owner x y"
  then have same: "claim_identity (h_frac h) (rs_claim (qs ! i)) = claim_identity (h_frac h) (rs_claim (qs ! j))"
    using assms(4,5) by (simp add: owned_claim_def same_owner_def claim_identity_def)
  have "\<not> b < a" if "a < length qs" "claim_identity (h_frac h) (rs_claim (qs ! a)) = claim_identity (h_frac h) (rs_claim (qs ! b))" for a b
  proof
    assume "b < a"
    then have "apart h (qs ! b) (qs ! a)" using assms(1) that(1) by (simp add: sound_log_def)
    then show False using that(2) by (simp add: apart_def)
  qed
  from this [OF assms(2) same] this [OF assms(3) same [symmetric]] show "i = j" by simp
qed

lemma owned_same_claim: "rs_claim q = rs_claim r \<Longrightarrow> owned_claim x q = owned_claim x r"
  by (simp add: owned_claim_def)

lemma accepts_accepted:
  assumes "accepts h x ok (Some (Accepted view re urls)) w"
  shows "\<exists>rs q. view = toView (x_repository x) (x_family x) q \<and> snapshot h (x_repository x) (x_family x) w rs \<and> q \<in> set rs
    \<and> owned_claim x q \<and> ok q"
  using assms unfolding accepts_def by fastforce

text \<open>A call that accepts shows a reservation of the caller, settled as the action asks.\<close>

definition settled_for :: "string \<Rightarrow> reservation \<Rightarrow> bool" where
  "settled_for action q \<longleftrightarrow>
     (action = ''publish'' \<longrightarrow> settled_as (\<lambda>e. fld e ''event'' = JStr ''published'') q)
     \<and> (action = ''abandon'' \<longrightarrow> settled_as (\<lambda>e. fld e ''event'' = JStr ''abandoned'') q)"

lemma promised_accepted:
  assumes "promised h x (Some (Accepted view re urls)) w"
  shows "\<exists>rs q. view = toView (x_repository x) (x_family x) q \<and> snapshot h (x_repository x) (x_family x) w rs \<and> q \<in> set rs
    \<and> owned_claim x q \<and> settled_for (x_action x) q"
proof -
  have no: "\<not> shows_status h x (Some (Accepted view re urls)) w" by (simp add: shows_status_def Let_def)
  consider "x_action x = ''reserve''" | "x_action x = ''publish''" | "x_action x = ''abandon''"
    using assms no by (auto simp: promised_def split: if_splits)
  then obtain ok where "accepts h x ok (Some (Accepted view re urls)) w" "\<And>q. ok q \<Longrightarrow> settled_for (x_action x) q"
  proof cases
    case 1
    then show ?thesis using assms that [of "\<lambda>_. True"] by (simp add: promised_def settled_for_def)
  next
    case 2
    then show ?thesis using assms that by (simp add: promised_def settled_for_def)
  next
    case 3
    then show ?thesis using assms that by (fastforce simp: promised_def settled_for_def settled_as_def)
  qed
  then show ?thesis using accepts_accepted by meson
qed

section \<open>The promises\<close>

text \<open>
  C3. Whatever calls run, and however their requests interleave, fail or lose their answers, a family's log
  is never malformed: any listing of it, fresh or stale, folds, into slots without gaps whose sequences
  increase and which share no issue-and-key, no version and no path.
\<close>

theorem release_log_orderly:
  assumes "release_runs h repo (w0, idle) (w, ps)" and "fresh w0" and "host_ok h" and "release_family_name family"
    and "log_listing family (take n (rm_refs w)) listing"
  shows "\<exists>rs. foldReleaseLedger (h_frac h) (h_sha256 h) repo listing (rm_objects w) family = Got rs \<and> orderly h rs"
proof -
  obtain rs where rs: "foldReleaseLedger (h_frac h) (h_sha256 h) repo listing (rm_objects w) family = Got rs"
    "history h repo family (rm_objects w) (take n (rm_refs w)) rs"
    using fold_good [OF release_keeps(1) [OF assms(1-3)] assms(4,5)] by blast
  then show ?thesis using sound_orderly [OF history_sound] by blast
qed

text \<open>
  C36. The log only grows: what one moment's log says of a slot, its claim and, once decided, its outcome, every
  later moment's log says too.
\<close>

theorem release_log_append_only:
  assumes "release_runs h repo (w0, idle) (v, ps)" and "release_runs h repo (v, ps) (w, qs)" and "fresh w0" and "host_ok h"
    and "release_family_name family"
    and "log_listing family (rm_refs v) earlier" and "log_listing family (rm_refs w) current"
    and "foldReleaseLedger (h_frac h) (h_sha256 h) repo earlier (rm_objects v) family = Got rs"
    and "foldReleaseLedger (h_frac h) (h_sha256 h) repo current (rm_objects w) family = Got ts"
  shows "grown rs ts"
proof -
  note later = release_later [OF assms(1-4)]
  have "history h repo family (rm_objects v) (rm_refs v) rs"
    using fold_whole [OF release_keeps(1) [OF assms(1,3,4)] assms(5,6,8)] .
  then have "snapshot h repo family v rs" unfolding snapshot_def by (metis take_all order_refl)
  then have "snapshot h repo family w rs" using later(1) by (rule snapshot_later)
  then show ?thesis
    using fold_whole [OF release_keeps(1) [OF later(2) assms(3,4)] assms(5,7,9)] by (rule snapshot_grown)
qed

text \<open>
  C38. Every call ends in a result, never in a throw, and its result is one its action may give: a refusal,
  which never blames the log; a reservation of the log that the caller owns, published or abandoned when
  that was asked for; or the status of the log.
\<close>

theorem release_call_answers:
  assumes "release_runs h repo (w0, idle) (w, ps)" and "fresh w0" and "host_ok h" and "ps n = Some (i, p)"
  shows "p \<noteq> Throw \<and> (\<forall>res. p = Return res \<longrightarrow> promised h (call_context h repo i) (Some res) w)"
  using release_keeps(2) [OF assms] release_keeps(1) [OF assms(1-3)] later_refl by (cases p) auto

lemma overlap_sym: "releasePathSetsOverlap ps qs = releasePathSetsOverlap qs ps"
  unfolding releasePathSetsOverlap_def list_ex_iff pathsOverlap_def by blast

text \<open>What an accepting call was shown, in the log.\<close>

lemma release_accepted:
  assumes "release_runs h repo (w0, idle) (w, ps)" and "fresh w0" and "host_ok h"
    and "ps n = Some (i, Return (Accepted view re urls))" and "x = call_context h repo i"
    and "history h repo (x_family x) (rm_objects w) (rm_refs w) qs"
  shows "\<exists>q k. view = toView repo (x_family x) q \<and> k < length qs \<and> rs_claim (qs ! k) = rs_claim q \<and> owned_claim x (qs ! k)
    \<and> settled_for (x_action x) q \<and> (rs_outcome q \<noteq> None \<longrightarrow> rs_outcome (qs ! k) = rs_outcome q)"
proof -
  have "promised h x (Some (Accepted view re urls)) w"
    using release_keeps [OF assms(1-3)] assms(4,5) later_refl by fastforce
  moreover have "x_repository x = repo" by (simp add: assms(5) call_context_def release_context_def)
  ultimately obtain rs q where q: "view = toView repo (x_family x) q" "snapshot h repo (x_family x) w rs" "q \<in> set rs"
    "owned_claim x q" "settled_for (x_action x) q" using promised_accepted by blast
  from shown_in_log [OF q(2,3) assms(6)] q show ?thesis using owned_same_claim by blast
qed

lemma toView_claim:
  "fld (toView repo family q) ''version'' = claim_version q"
  "fld (toView repo family q) ''paths'' = fld (er_event (rs_claim q)) ''paths''"
  "fld (toView repo family q) ''claim_commit'' = JStr (cm_sha (er_commit (rs_claim q)))"
  by (simp_all add: toView_def Let_def claim_version_def)

definition view_paths :: "js \<Rightarrow> string list" where
  "view_paths view = map text_of (obj_values (fld view ''paths''))"

text \<open>
  C2. A release identity has one owner: two accepted calls for one family were shown the same reservation when
  issue and idempotency key agree, and otherwise two versions and two sets of paths that do not overlap.
\<close>

theorem release_identity_one_owner:
  assumes "release_runs h repo (w0, idle) (w, ps)" and "fresh w0" and "host_ok h"
    and "ps n = Some (i, Return (Accepted view re urls))" and "ps m = Some (j, Return (Accepted view' re' urls'))"
    and "x = call_context h repo i" and "y = call_context h repo j"
    and "x_family x = x_family y" and "release_family_name (x_family x)"
  shows "if same_owner x y then fld view ''claim_commit'' = fld view' ''claim_commit'' \<and> fld view ''version'' = fld view' ''version''
    else fld view ''version'' \<noteq> fld view' ''version'' \<and> \<not> releasePathSetsOverlap (view_paths view) (view_paths view')"
proof -
  obtain qs where qs: "history h repo (x_family x) (rm_objects w) (rm_refs w) qs"
    using release_keeps(1) [OF assms(1-3)] assms(9) by (auto simp: good_def)
  obtain q k where q: "view = toView repo (x_family x) q" "k < length qs" "rs_claim (qs ! k) = rs_claim q" "owned_claim x (qs ! k)"
    using release_accepted [OF assms(1-4,6) qs] by blast
  obtain r l where r: "view' = toView repo (x_family y) r" "l < length qs" "rs_claim (qs ! l) = rs_claim r" "owned_claim y (qs ! l)"
    using release_accepted [OF assms(1-3,5,7) qs [unfolded assms(8)]] by blast
  have sound: "sound_log h repo (x_family x) (rm_objects w) qs" using qs by (rule history_sound)
  have eq: "k = l \<longleftrightarrow> same_owner x y" by (rule one_claim_each [OF sound q(2) r(2) q(4) r(4)])
  show ?thesis
  proof (cases "k = l")
    case True
    then show ?thesis using eq q r by (simp add: toView_claim claim_version_def)
  next
    case False
    then have "apart h (qs ! k) (qs ! l) \<or> apart h (qs ! l) (qs ! k)"
      using sound q(2) r(2) unfolding sound_log_def by (metis nat_neq_iff)
    then have "claim_version (qs ! k) \<noteq> claim_version (qs ! l) \<and> \<not> releasePathSetsOverlap (claim_paths (qs ! k)) (claim_paths (qs ! l))"
      using overlap_sym by (auto simp: apart_def)
    then show ?thesis using False eq q r by (simp add: toView_claim view_paths_def claim_version_def claim_paths_def)
  qed
qed

text \<open>
  C37. A reservation is published or abandoned, never both: no two calls of one owner, one to publish and one to
  abandon, are both accepted.
\<close>

theorem release_outcome_final:
  assumes "release_runs h repo (w0, idle) (w, ps)" and "fresh w0" and "host_ok h"
    and "ps n = Some (i, Return (Accepted view re urls))" and "ps m = Some (j, Return (Accepted view' re' urls'))"
    and "x = call_context h repo i" and "y = call_context h repo j"
    and "x_family x = x_family y" and "release_family_name (x_family x)" and "same_owner x y"
    and "x_action x = ''publish''"
  shows "x_action y \<noteq> ''abandon''"
proof
  assume ab: "x_action y = ''abandon''"
  obtain qs where qs: "history h repo (x_family x) (rm_objects w) (rm_refs w) qs"
    using release_keeps(1) [OF assms(1-3)] assms(9) by (auto simp: good_def)
  obtain q k where q: "k < length qs" "owned_claim x (qs ! k)" "settled_for (x_action x) q"
    "rs_outcome q \<noteq> None \<longrightarrow> rs_outcome (qs ! k) = rs_outcome q"
    using release_accepted [OF assms(1-4,6) qs] by blast
  obtain r l where r: "l < length qs" "owned_claim y (qs ! l)" "settled_for (x_action y) r"
    "rs_outcome r \<noteq> None \<longrightarrow> rs_outcome (qs ! l) = rs_outcome r"
    using release_accepted [OF assms(1-3,5,7) qs [unfolded assms(8)]] by blast
  have "k = l" using one_claim_each [OF history_sound [OF qs] q(1) r(1) q(2) r(2)] assms(10) by simp
  then show False using q(3,4) r(3,4) assms(11) ab by (auto simp: settled_for_def settled_as_def)
qed

section \<open>The promises on a run\<close>

definition reserve_call :: "js \<times> (string \<times> family) list option" where
  "reserve_call = (reserve_input, Some [(''app'', sample_family)])"

definition publish_call :: "js \<times> (string \<times> family) list option" where
  "publish_call = (publish_input, None)"

lemma world0_fresh: "fresh world0"
  by (simp add: fresh_def world0_def base_commit_def)

lemma sample_contexts:
  "call_context sample_host ''o/r'' reserve_call = reserve_ctx" "call_context sample_host ''o/r'' publish_call = publish_ctx"
  by (simp_all add: call_context_def reserve_call_def publish_call_def reserve_ctx_def publish_ctx_def)

text \<open>Issue 7 reserves, then publishes.\<close>

lemma sample_run:
  obtains ps qs urls urls' where "release_runs sample_host ''o/r'' (world0, idle) (world1, ps)"
    and "release_runs sample_host ''o/r'' (world1, ps) (world2, qs)" and "release_runs sample_host ''o/r'' (world0, idle) (world2, qs)"
    and "qs 0 = Some (reserve_call, Return (Accepted (toView ''o/r'' ''app'' reservation1) False urls))"
    and "qs 1 = Some (publish_call, Return (Accepted (toView ''o/r'' ''app'' reservation2) False urls'))"
proof -
  obtain urls where r: "run_calls (sample_service False) (release_call sample_host ''o/r'' reserve_call) world0
      = (Some (Accepted (toView ''o/r'' ''app'' reservation1) False urls), world1)"
    using reserve_called by (auto simp: release_call_def reserve_call_def)
  obtain urls' where p: "run_calls (sample_service True) (release_call sample_host ''o/r'' publish_call) world1
      = (Some (Accepted (toView ''o/r'' ''app'' reservation2) False urls'), world2)"
    using publish_called by (auto simp: release_call_def publish_call_def)
  let ?ps = "idle(0 \<mapsto> (reserve_call, Return (Accepted (toView ''o/r'' ''app'' reservation1) False urls)))"
  have one: "release_runs sample_host ''o/r'' (world0, idle) (world1, ?ps)"
    unfolding release_runs_def by (rule pool_started [where f = "sample_service False" and start = "release_call sample_host ''o/r''" and i = reserve_call])
        (use r in \<open>simp_all add: sample_serves idle_def\<close>)
  have two: "release_runs sample_host ''o/r'' (world1, ?ps) (world2, ?ps(1 \<mapsto> (publish_call, Return (Accepted (toView ''o/r'' ''app'' reservation2) False urls'))))"
    unfolding release_runs_def by (rule pool_started [where f = "sample_service True" and start = "release_call sample_host ''o/r''" and i = publish_call])
        (use p in \<open>simp_all add: sample_serves idle_def\<close>)
  show ?thesis by (rule that [OF one two release_later(2) [OF one two world0_fresh sample_host_ok]]) simp_all
qed

lemma sample_listing: "\<exists>listing. log_listing family refs listing"
proof -
  have "log_listing family refs (remdups (map (\<lambda>(r, s). (JStr r, JStr s))
      (filter (\<lambda>e. starts_with (''refs/'' @ releaseLedgerNamespace family) (fst e)) refs)))"
    by (simp add: log_listing_def listed_def)
  then show ?thesis by blast
qed

lemma release_log_orderly_witness:
  "\<exists>w ps listing rs. release_runs sample_host ''o/r'' (world0, idle) (w, ps) \<and> log_listing ''app'' (rm_refs w) listing
     \<and> foldReleaseLedger (h_frac sample_host) (h_sha256 sample_host) ''o/r'' listing (rm_objects w) ''app'' = Got rs
     \<and> rs = [reservation2] \<and> orderly sample_host rs"
proof -
  obtain qs where all: "release_runs sample_host ''o/r'' (world0, idle) (world2, qs)" using sample_run by blast
  obtain listing where l: "log_listing ''app'' (rm_refs world2) listing" using sample_listing by blast
  from release_log_orderly [OF all world0_fresh sample_host_ok app_name, of "length (rm_refs world2)" listing] l
  obtain rs where rs: "foldReleaseLedger (h_frac sample_host) (h_sha256 sample_host) ''o/r'' listing (rm_objects world2) ''app'' = Got rs"
    "orderly sample_host rs" by auto
  have "rs = [reservation2]"
    using fold_whole [OF release_keeps(1) [OF all world0_fresh sample_host_ok] app_name l rs(1)] history2 history_unique by blast
  then show ?thesis using all l rs by blast
qed

lemma release_log_append_only_witness: "grown [reservation1] [reservation2]"
proof -
  obtain ps qs where run: "release_runs sample_host ''o/r'' (world0, idle) (world1, ps)"
    "release_runs sample_host ''o/r'' (world1, ps) (world2, qs)" using sample_run by blast
  obtain earlier current where l: "log_listing ''app'' (rm_refs world1) earlier" "log_listing ''app'' (rm_refs world2) current"
    using sample_listing by blast
  have f: "foldReleaseLedger (h_frac sample_host) (h_sha256 sample_host) ''o/r'' earlier (rm_objects world1) ''app'' = Got [reservation1]"
    "foldReleaseLedger (h_frac sample_host) (h_sha256 sample_host) ''o/r'' current (rm_objects world2) ''app'' = Got [reservation2]"
    using fold_history [OF history1 map_le_refl] fold_history [OF history2 map_le_refl] l by (simp_all add: log_listing_def finds_def)
  from release_log_append_only [OF run world0_fresh sample_host_ok app_name l f] show ?thesis .
qed

lemma release_call_answers_witness:
  "\<exists>w ps n i res. release_runs sample_host ''o/r'' (world0, idle) (w, ps) \<and> ps n = Some (i, Return res)
     \<and> promised sample_host (call_context sample_host ''o/r'' i) (Some res) w"
proof -
  obtain qs urls where run: "release_runs sample_host ''o/r'' (world0, idle) (world2, qs)"
    "qs 0 = Some (reserve_call, Return (Accepted (toView ''o/r'' ''app'' reservation1) False urls))" using sample_run by blast
  from release_call_answers [OF run(1) world0_fresh sample_host_ok run(2)] show ?thesis using run by blast
qed

lemma release_identity_one_owner_witness:
  "same_owner reserve_ctx publish_ctx
     \<and> fld (toView ''o/r'' ''app'' reservation1) ''claim_commit'' = fld (toView ''o/r'' ''app'' reservation2) ''claim_commit''"
proof -
  obtain qs urls urls' where all: "release_runs sample_host ''o/r'' (world0, idle) (world2, qs)" and
    run: "qs 0 = Some (reserve_call, Return (Accepted (toView ''o/r'' ''app'' reservation1) False urls))"
    "qs 1 = Some (publish_call, Return (Accepted (toView ''o/r'' ''app'' reservation2) False urls'))" using sample_run by blast
  have same: "same_owner reserve_ctx publish_ctx" by (simp add: same_owner_def issue_js_def ctx_flds publish_flds)
  from release_identity_one_owner [OF all world0_fresh sample_host_ok run(1,2) sample_contexts [symmetric]] same app_name
  show ?thesis by (simp add: ctx_flds publish_flds)
qed

lemma release_outcome_final_witness: "x_action reserve_ctx \<noteq> ''abandon'' \<and> x_action publish_ctx = ''publish''"
proof -
  obtain qs urls urls' where all: "release_runs sample_host ''o/r'' (world0, idle) (world2, qs)" and
    run: "qs 0 = Some (reserve_call, Return (Accepted (toView ''o/r'' ''app'' reservation1) False urls))"
    "qs 1 = Some (publish_call, Return (Accepted (toView ''o/r'' ''app'' reservation2) False urls'))" using sample_run by blast
  have same: "same_owner publish_ctx reserve_ctx" by (simp add: same_owner_def issue_js_def ctx_flds publish_flds)
  have fam: "x_family publish_ctx = x_family reserve_ctx" "release_family_name (x_family publish_ctx)" 
    using app_name by (simp_all add: ctx_flds publish_flds)
  from release_outcome_final [OF all world0_fresh sample_host_ok run(2,1) sample_contexts(2,1) [symmetric] fam same publish_flds(1)]
  show ?thesis using publish_flds(1) by simp
qed

end
