(* ===== verification/StationEvidence.thy ===== *)
theory StationEvidence
  imports ObligationRead ReviewCap
begin

text \<open>
  Does the thread prove that a station rendered a verdict for an open station observation?
  (\<open>lib/station-observation-evidence.js\<close>, and the findings-record header of \<open>lib/codex-review.js\<close>.) A verdict is a
  findings record by the trusted identity, consumed by a cycle marker of the same identity, both after the last
  opening of the obligation.
\<close>

section \<open>The findings record\<close>

record findings_header =
  fh_cycle :: nat
  fh_issue :: nat
  fh_branch :: "string option"

definition review_tag :: string where
  "review_tag = ''**gc_codex_review** '' @ em_dash @ '' cycle ''"

definition prepush_tag :: string where "prepush_tag = '' (pre-push) on issue #''"
definition of_tag :: string where "of_tag = '' of ''"
definition branch_open :: string where "branch_open = '' (branch `''"
definition branch_close :: string where "branch_close = ''`)''"

text \<open>\<open>buildHeaderLine\<close>: the last argument is the branch, the pull request the target after the push.\<close>

definition buildHeaderLine :: "bool \<Rightarrow> nat \<Rightarrow> nat \<Rightarrow> nat \<Rightarrow> nat \<Rightarrow> string option \<Rightarrow> string" where
  "buildHeaderLine prepush cy cap issue pr branch =
     (if prepush
      then review_tag @ show_nat cy @ of_tag @ show_nat cap @ prepush_tag @ show_nat issue
        @ (case branch of None \<Rightarrow> [] | Some b \<Rightarrow> if b = [] then [] else branch_open @ b @ branch_close)
      else review_tag @ show_nat cy @ of_tag @ show_nat cap @ '' (post-push) on PR #'' @ show_nat pr
        @ '' (issue #'' @ show_nat issue @ '')'')"

definition not_backtick :: "char \<Rightarrow> bool" where
  "not_backtick c \<longleftrightarrow> c \<noteq> CHR ''`''"

text \<open>What follows the header on its line: nothing, or exactly the branch.\<close>

definition header_branch :: "string \<Rightarrow> string option option" where
  "header_branch rest =
     (if rest = [] then Some None
      else do {
        s1 \<leftarrow> lit branch_open rest;
        (b, s2) \<leftarrow> run not_backtick (\<lambda>_. True) s1;
        if s2 = branch_close then Some (Some b) else None })"

definition parseCodexPrePushFindingsHeader :: "string \<Rightarrow> findings_header option" where
  "parseCodexPrePushFindingsHeader body = do {
     s1 \<leftarrow> lit review_tag (takeWhile (\<lambda>c. c \<noteq> nl) body);
     (cy, s2) \<leftarrow> run is_digit nonempty s1;
     s3 \<leftarrow> lit of_tag s2;
     (_, s4) \<leftarrow> run is_digit nonempty s3;
     s5 \<leftarrow> lit prepush_tag s4;
     (i, rest) \<leftarrow> run is_digit nonempty s5;
     br \<leftarrow> header_branch rest;
     Some \<lparr>fh_cycle = dec_val cy, fh_issue = dec_val i, fh_branch = br\<rparr> }"

section \<open>The search\<close>

text \<open>
  \<open>STATION_EVIDENCE[station]\<close>. Besides its one entry the object answers for what every object inherits; of those
  names a marker's station can only be \<open>constructor\<close>, and that property has no \<open>parseRecord\<close> to call.
\<close>

datatype station_reader = CodexReader | InheritedReader | NoReader

definition station_evidence :: "string option \<Rightarrow> station_reader" where
  "station_evidence st =
     (if st = Some ''codex_review'' then CodexReader
      else if st = Some ''constructor'' then InheritedReader else NoReader)"

definition isTrustedAuthor :: "comment \<Rightarrow> string \<Rightarrow> bool" where
  "isTrustedAuthor c trusted \<longleftrightarrow> author_login c = Some trusted"

definition eventsOf :: "comment \<Rightarrow> nat \<Rightarrow> string \<Rightarrow> obl_event list" where
  "eventsOf c n oid = filter (\<lambda>e. obligation_id e = oid) (parseExecutionObligationV2Markers (c_body c) n)"

definition opens_observation :: "nat \<Rightarrow> string \<Rightarrow> obl_state \<Rightarrow> comment \<Rightarrow> bool" where
  "opens_observation n oid st c \<longleftrightarrow> list_ex (\<lambda>e. obl_action e = Opened \<and> kind e = Some StationObservation
     \<and> station e = st_station st \<and> cycle e = st_cycle st) (eventsOf c n oid)"

text \<open>The loop from the last comment down.\<close>

primrec opened_before :: "(comment \<Rightarrow> bool) \<Rightarrow> comment list \<Rightarrow> nat \<Rightarrow> nat option" where
  "opened_before P cs 0 = None"
| "opened_before P cs (Suc i) = (if P (cs ! i) then Some i else opened_before P cs i)"

definition lastOpenedIndex :: "comment list \<Rightarrow> nat \<Rightarrow> string \<Rightarrow> obl_state \<Rightarrow> nat option" where
  "lastOpenedIndex cs n oid st = opened_before (opens_observation n oid st) cs (length cs)"

type_synonym located = "nat \<times> string option"

text \<open>The records and the cycle markers from an index on, each with its position and branch.\<close>

definition record_here :: "nat \<Rightarrow> nat option \<Rightarrow> nat \<Rightarrow> comment \<Rightarrow> located list" where
  "record_here n cy i c =
     (case parseCodexPrePushFindingsHeader (c_body c) of
        None \<Rightarrow> []
      | Some h \<Rightarrow> if fh_issue h = n \<and> Some (fh_cycle h) = cy then [(i, fh_branch h)] else [])"

definition markers_here :: "nat \<Rightarrow> nat option \<Rightarrow> nat \<Rightarrow> comment \<Rightarrow> located list" where
  "markers_here n cy i c =
     map (\<lambda>(b, _). (i, Some b)) (filter (\<lambda>(_, k). Some k = cy) (parseCodexReviewPrePushCycleMarkerEntries (c_body c) n))"

primrec collectVerdictEvidence ::
  "nat \<Rightarrow> nat option \<Rightarrow> string \<Rightarrow> nat \<Rightarrow> comment list \<Rightarrow> located list \<times> located list" where
  "collectVerdictEvidence n cy trusted i [] = ([], [])"
| "collectVerdictEvidence n cy trusted i (c # cs) =
     (let (rs, ms) = collectVerdictEvidence n cy trusted (Suc i) cs
      in if \<not> isTrustedAuthor c trusted then (rs, ms)
         else (record_here n cy i c @ rs, markers_here n cy i c @ ms))"

definition eligible :: "located \<Rightarrow> located \<Rightarrow> bool" where
  "eligible m r \<longleftrightarrow> fst r < fst m \<and> (snd r = None \<or> snd r = snd m)"

definition last_option :: "'a list \<Rightarrow> 'a option" where
  "last_option xs = (if xs = [] then None else Some (last xs))"

definition recordConsumedBy :: "located list \<Rightarrow> located \<Rightarrow> located option" where
  "recordConsumedBy rs m = last_option (filter (eligible m) rs)"

fun find_index :: "('a \<Rightarrow> bool) \<Rightarrow> 'a list \<Rightarrow> nat option" where
  "find_index P [] = None"
| "find_index P (x # xs) = (if P x then Some 0 else map_option Suc (find_index P xs))"

definition namedRecordPositionError :: "comment list \<Rightarrow> nat \<Rightarrow> nat \<Rightarrow> string option" where
  "namedRecordPositionError cs opened r =
     (case find_index (\<lambda>c. c_id c = Some (int r)) cs of
        None \<Rightarrow> Some ''record_not_found''
      | Some i \<Rightarrow> if i \<le> opened then Some ''record_precedes_opened_event'' else None)"

datatype evidence = Found comment comment | Unproven string | EvidenceThrows

definition blank_login :: "string option \<Rightarrow> bool" where
  "blank_login me \<longleftrightarrow> (case me of None \<Rightarrow> True | Some l \<Rightarrow> trim l = [])"

text \<open>The pairing once the records and markers after the opening are known.\<close>

definition decide_evidence ::
  "comment list \<Rightarrow> nat option \<Rightarrow> located list \<Rightarrow> located list \<Rightarrow> evidence" where
  "decide_evidence cs rid rs ms =
     (if ms = [] then Unproven (if rs = [] then ''verdict_record_not_found'' else ''cycle_marker_not_found'')
      else
        let consumed = map (recordConsumedBy rs) ms
        in if None \<in> set consumed then Unproven ''verdict_record_not_found''
           else if length (remdups (map (\<lambda>r. fst (the r)) consumed)) > 1 then Unproven ''ambiguous_verdict_history''
           else
             let record = cs ! fst (the (hd consumed))
             in (case rid of
                   Some r \<Rightarrow> if c_id record \<noteq> Some (int r) then Unproven ''record_is_not_the_consumed_verdict''
                             else Found record (cs ! fst (hd ms))
                 | None \<Rightarrow> Found record (cs ! fst (hd ms))))"

definition findStationObservationEvidence ::
  "comment list \<Rightarrow> nat \<Rightarrow> string \<times> obl_state \<Rightarrow> string option \<Rightarrow> nat option \<Rightarrow> evidence" where
  "findStationObservationEvidence cs n ob me rid =
     (case ob of (oid, st) \<Rightarrow>
      if blank_login me then Unproven ''trusted_identity_unresolved''
      else if st_kind st \<noteq> Some StationObservation \<or> st_schema_version st \<noteq> 2
           \<or> station_evidence (st_station st) = NoReader
      then Unproven ''not_a_station_observation''
      else (case lastOpenedIndex cs n oid st of
              None \<Rightarrow> Unproven ''opened_event_not_found''
            | Some opened \<Rightarrow>
                (case Option.bind rid (namedRecordPositionError cs opened) of
                   Some err \<Rightarrow> Unproven err
                 | None \<Rightarrow>
                     let trusted = lower (the me); after = drop (Suc opened) cs
                     in if station_evidence (st_station st) = InheritedReader
                        then (if list_ex (\<lambda>c. isTrustedAuthor c trusted) after then EvidenceThrows
                              else decide_evidence cs rid [] [])
                        else (case collectVerdictEvidence n (st_cycle st) trusted (Suc opened) after of
                                (rs, ms) \<Rightarrow> decide_evidence cs rid rs ms))))"

text \<open>Is this exact re-observation recorded already?\<close>

definition hasTrustedReobservation ::
  "comment list \<Rightarrow> nat \<Rightarrow> string \<Rightarrow> string option \<Rightarrow> nat option \<Rightarrow> nat \<Rightarrow> string option \<Rightarrow> bool" where
  "hasTrustedReobservation cs n oid st cy r me \<longleftrightarrow>
     \<not> blank_login me
     \<and> list_ex (\<lambda>c. isTrustedAuthor c (lower (the me))
         \<and> list_ex (\<lambda>e. obl_action e = Resolved \<and> disposition e = Some Reobserved
              \<and> station e = st \<and> cycle e = cy \<and> observation_record_id e = Some r) (eventsOf c n oid)) cs"

section \<open>The header is read back\<close>

lemma not_nl_digits: "\<forall>c \<in> set (show_nat k). c \<noteq> nl"
  using show_nat_digits [of k] by (auto simp: is_digit_def less_eq_char_def)

lemma takeWhile_line: "\<forall>c \<in> set h. c \<noteq> nl \<Longrightarrow> rest = [] \<or> hd rest = nl \<Longrightarrow> takeWhile (\<lambda>c. c \<noteq> nl) (h @ rest) = h"
  by (cases rest) (simp_all add: takeWhile_append2 takeWhile_eq_all_conv)

lemma run_digits: "is_digit d = False \<Longrightarrow> run is_digit nonempty (show_nat k @ d # s) = Some (show_nat k, d # s)"
  by (intro run_append) simp_all

lemma run_digits_end: "run is_digit nonempty (show_nat k) = Some (show_nat k, [])"
proof -
  have t: "takeWhile is_digit (show_nat k) = show_nat k" "dropWhile is_digit (show_nat k) = []"
    using show_nat_attr(1) [of k] by (simp_all add: takeWhile_eq_all_conv dropWhile_eq_Nil_conv)
  show ?thesis unfolding run_def Let_def t by simp
qed

text \<open>The branch as the record shows it: an empty one is left out.\<close>

definition shown_branch :: "string option \<Rightarrow> string option" where
  "shown_branch br = (if br = Some [] then None else br)"

definition branch_text :: "string option \<Rightarrow> string" where
  "branch_text br = (case br of None \<Rightarrow> [] | Some b \<Rightarrow> if b = [] then [] else branch_open @ b @ branch_close)"

lemma run_backtick:
  "run not_backtick (\<lambda>_. True) (b @ branch_close) =
     (if CHR ''`'' \<in> set b then Some (takeWhile not_backtick b, dropWhile not_backtick b @ branch_close) else Some (b, branch_close))"
proof (cases "CHR ''`'' \<in> set b")
  case True
  then have "\<not> (\<forall>c \<in> set b. not_backtick c)" by (auto simp: not_backtick_def)
  then show ?thesis
    using True by (auto simp: run_def Let_def takeWhile_append dropWhile_append)
next
  case False
  then have "\<forall>c \<in> set b. not_backtick c" by (auto simp: not_backtick_def)
  then show ?thesis
    using False by (auto simp: run_def Let_def takeWhile_append dropWhile_append branch_close_def not_backtick_def)
qed

lemma header_branch_text:
  "header_branch (branch_text br) =
     (if br \<noteq> None \<and> CHR ''`'' \<in> set (the br) then None else Some (shown_branch br))"
proof (cases "branch_text br = []")
  case True
  then have "br = None \<or> br = Some []" by (auto simp: branch_text_def branch_open_def split: option.splits if_splits)
  then show ?thesis using True by (auto simp: header_branch_def shown_branch_def)
next
  case False
  then obtain b where b: "br = Some b" "b \<noteq> []" "branch_text br = branch_open @ b @ branch_close"
    by (auto simp: branch_text_def split: option.splits if_splits)
  show ?thesis
  proof (cases "CHR ''`'' \<in> set b")
    case True
    then have "dropWhile not_backtick b \<noteq> []" by (auto simp: not_backtick_def dropWhile_eq_Nil_conv)
    then show ?thesis using True False b by (simp add: header_branch_def run_backtick)
  next
    case nobt: False
    then show ?thesis using False b by (simp add: header_branch_def run_backtick shown_branch_def)
  qed
qed

lemma buildHeaderLine_text:
  "buildHeaderLine True cy cap n pr br
     = review_tag @ show_nat cy @ of_tag @ show_nat cap @ prepush_tag @ show_nat n @ branch_text br"
  by (simp add: buildHeaderLine_def branch_text_def)

lemma run_digits_branch: "run is_digit nonempty (show_nat k @ branch_text br) = Some (show_nat k, branch_text br)"
proof (cases "branch_text br")
  case Nil
  then show ?thesis by (simp add: run_digits_end)
next
  case (Cons c s)
  then have "c = CHR '' ''" by (auto simp: branch_text_def branch_open_def split: option.splits if_splits)
  then show ?thesis using Cons by (simp add: run_digits is_digit_def less_eq_char_def)
qed

lemma header_parsed:
  assumes "rest = [] \<or> hd rest = nl" and "br = None \<or> nl \<notin> set (the br)"
  shows "parseCodexPrePushFindingsHeader (buildHeaderLine True cy cap n pr br @ rest) =
    (if br \<noteq> None \<and> CHR ''`'' \<in> set (the br) then None
     else Some \<lparr>fh_cycle = cy, fh_issue = n, fh_branch = shown_branch br\<rparr>)"
proof -
  let ?h = "buildHeaderLine True cy cap n pr br"
  have "\<forall>c \<in> set (branch_text br). c \<noteq> nl"
    using assms(2) by (auto simp: branch_text_def branch_open_def branch_close_def split: option.splits)
  then have h: "\<forall>c \<in> set ?h. c \<noteq> nl"
    using not_nl_digits unfolding buildHeaderLine_text
    by (auto simp: review_tag_def of_tag_def prepush_tag_def em_dash_def)
  have of: "of_tag @ s = CHR '' '' # ''of '' @ s" and pre: "prepush_tag @ s = CHR '' '' # ''(pre-push) on issue #'' @ s" for s
    by (simp_all add: of_tag_def prepush_tag_def)
  have r1: "run is_digit nonempty (show_nat k @ of_tag @ s) = Some (show_nat k, of_tag @ s)"
    and r2: "run is_digit nonempty (show_nat k @ prepush_tag @ s) = Some (show_nat k, prepush_tag @ s)" for k s
    unfolding of pre by (rule run_digits; simp add: is_digit_def less_eq_char_def)+
  show ?thesis
    unfolding parseCodexPrePushFindingsHeader_def takeWhile_line [OF h assms(1)]
    unfolding buildHeaderLine_text
    by (simp add: r1 r2 run_digits_branch header_branch_text)
qed

section \<open>What the search finds\<close>

lemma opened_before_Some:
  "opened_before P cs m = Some k \<longleftrightarrow> k < m \<and> P (cs ! k) \<and> (\<forall>l. k < l \<and> l < m \<longrightarrow> \<not> P (cs ! l))"
proof (induction m)
  case (Suc m)
  show ?case
  proof (cases "P (cs ! m)")
    case True
    then show ?thesis by (auto simp: less_Suc_eq)
  next
    case False
    then show ?thesis using Suc by (auto simp: less_Suc_eq)
  qed
qed simp

lemma opened_before_None: "opened_before P cs m = None \<longleftrightarrow> (\<forall>l < m. \<not> P (cs ! l))"
  by (induction m) (auto simp: less_Suc_eq)

lemma lastOpenedIndex_Some:
  "lastOpenedIndex cs n oid st = Some k \<longleftrightarrow> k < length cs \<and> opens_observation n oid st (cs ! k)
     \<and> (\<forall>l. k < l \<and> l < length cs \<longrightarrow> \<not> opens_observation n oid st (cs ! l))"
  by (simp add: lastOpenedIndex_def opened_before_Some)

lemma find_index_Some: "find_index P xs = Some i \<Longrightarrow> i < length xs \<and> P (xs ! i) \<and> (\<forall>j < i. \<not> P (xs ! j))"
proof (induction P xs arbitrary: i rule: find_index.induct)
  case (2 P x xs)
  show ?case
  proof (cases "P x")
    case False
    with 2(2) obtain j where j: "find_index P xs = Some j" "i = Suc j" by auto
    with False 2(1) have "j < length xs \<and> P (xs ! j) \<and> (\<forall>l < j. \<not> P (xs ! l))" by blast
    then show ?thesis using False j by (auto simp: nth_Cons split: nat.splits)
  qed (use 2 in simp)
qed simp

lemma find_index_None: "find_index P xs = None \<longleftrightarrow> (\<forall>x \<in> set xs. \<not> P x)"
  by (induction xs) auto

lemma find_index_append:
  "find_index P (xs @ ys) = (case find_index P xs of Some i \<Rightarrow> Some i | None \<Rightarrow> map_option (\<lambda>i. length xs + i) (find_index P ys))"
proof (induction xs)
  case Nil
  then show ?case by (cases "find_index P ys") simp_all
next
  case (Cons x xs)
  then show ?case by (cases "find_index P xs"; cases "find_index P ys") simp_all
qed

text \<open>The evidence found by position.\<close>

definition records_of :: "nat \<Rightarrow> nat option \<Rightarrow> string \<Rightarrow> comment list \<Rightarrow> nat \<Rightarrow> located list" where
  "records_of n cy t cs p = (if isTrustedAuthor (cs ! p) t then record_here n cy p (cs ! p) else [])"

definition markers_of :: "nat \<Rightarrow> nat option \<Rightarrow> string \<Rightarrow> comment list \<Rightarrow> nat \<Rightarrow> located list" where
  "markers_of n cy t cs p = (if isTrustedAuthor (cs ! p) t then markers_here n cy p (cs ! p) else [])"

lemma collect_positions:
  "i \<le> length cs \<Longrightarrow> collectVerdictEvidence n cy t i (drop i cs) =
     (concat (map (records_of n cy t cs) [i..<length cs]), concat (map (markers_of n cy t cs) [i..<length cs]))"
proof (induction "length cs - i" arbitrary: i)
  case 0
  then show ?case by simp
next
  case (Suc d)
  then have i: "i < length cs" by simp
  then have "drop i cs = cs ! i # drop (Suc i) cs" by (simp add: Cons_nth_drop_Suc)
  moreover have "[i..<length cs] = i # [Suc i..<length cs]" using i by (simp add: upt_conv_Cons)
  moreover have "collectVerdictEvidence n cy t (Suc i) (drop (Suc i) cs) =
     (concat (map (records_of n cy t cs) [Suc i..<length cs]), concat (map (markers_of n cy t cs) [Suc i..<length cs]))"
    using Suc i by simp
  ultimately show ?case by (simp add: records_of_def markers_of_def)
qed

lemma in_records_of:
  "(p, br) \<in> set (records_of n cy t cs q) \<longleftrightarrow> p = q \<and> author_login (cs ! q) = Some t
     \<and> (\<exists>h. parseCodexPrePushFindingsHeader (c_body (cs ! q)) = Some h \<and> fh_issue h = n \<and> Some (fh_cycle h) = cy \<and> fh_branch h = br)"
  by (cases "parseCodexPrePushFindingsHeader (c_body (cs ! q))")
    (auto simp: records_of_def record_here_def isTrustedAuthor_def)

lemma in_markers_of:
  "(p, br) \<in> set (markers_of n cy t cs q) \<longleftrightarrow> p = q \<and> author_login (cs ! q) = Some t
     \<and> (\<exists>b k. br = Some b \<and> (b, k) \<in> set (parseCodexReviewPrePushCycleMarkerEntries (c_body (cs ! q)) n) \<and> Some k = cy)"
  by (force simp: markers_of_def markers_here_def isTrustedAuthor_def)

lemma records_increasing: "sorted (map fst (concat (map (records_of n cy t cs) [i..<j])))"
proof (induction j)
  case (Suc j)
  show ?case
  proof (cases "i \<le> j")
    case True
    have "\<forall>x \<in> set (concat (map (records_of n cy t cs) [i..<j])). fst x < j"
      by (auto simp: in_records_of)
    moreover have "sorted (map fst (records_of n cy t cs j))"
      by (auto simp: records_of_def record_here_def split: option.splits)
    ultimately show ?thesis using True Suc
      by (auto simp: sorted_append in_records_of less_imp_le)
  qed simp
qed simp

lemma consumed_latest:
  assumes "recordConsumedBy rs m = Some r" and "sorted (map fst rs)"
  shows "r \<in> set rs \<and> eligible m r \<and> (\<forall>r' \<in> set rs. eligible m r' \<longrightarrow> fst r' \<le> fst r)"
proof -
  let ?F = "filter (eligible m) rs"
  have ne: "?F \<noteq> []" and r: "r = last ?F"
    using assms(1) by (auto simp: recordConsumedBy_def last_option_def split: if_splits)
  have "r \<in> set ?F" using ne r last_in_set by blast
  moreover have "fst r' \<le> fst r" if in_F: "r' \<in> set ?F" for r'
  proof -
    have s: "sorted (map fst ?F)" using assms(2) by (simp add: sorted_wrt_map sorted_wrt_filter)
    obtain q where q: "q < length ?F" "?F ! q = r'" using in_F unfolding in_set_conv_nth by blast
    have "length ?F - 1 < length ?F" using ne by (cases ?F) simp_all
    then have l: "q \<le> length ?F - 1" "length ?F - 1 < length (map fst ?F)" using q(1) by simp_all
    have "map fst ?F ! q \<le> map fst ?F ! (length ?F - 1)" by (rule sorted_nth_mono [OF s l])
    moreover have "r = ?F ! (length ?F - 1)" using r ne by (simp only: last_conv_nth not_False_eq_True)
    ultimately show ?thesis using q l(2) by simp
  qed
  ultimately show ?thesis by auto
qed

lemma decide_found:
  "decide_evidence cs rid rs ms = Found rec mk \<Longrightarrow>
     \<exists>m ms' r. ms = m # ms' \<and> recordConsumedBy rs m = Some r \<and> rec = cs ! fst r \<and> mk = cs ! fst m
       \<and> (\<forall>x. rid = Some x \<longrightarrow> c_id rec = Some (int x))
       \<and> (\<forall>m' \<in> set ms. \<exists>r'. recordConsumedBy rs m' = Some r' \<and> fst r' = fst r)"
proof -
  assume d: "decide_evidence cs rid rs ms = Found rec mk"
  then obtain m ms' where ms: "ms = m # ms'" by (cases ms) (auto simp: decide_evidence_def)
  have some: "None \<notin> set (map (recordConsumedBy rs) ms)"
    using d ms by (auto simp: decide_evidence_def Let_def split: if_splits)
  then obtain r where r: "recordConsumedBy rs m = Some r" using ms by (cases "recordConsumedBy rs m") auto
  let ?is = "map (\<lambda>r. fst (the r)) (map (recordConsumedBy rs) ms)"
  have one: "length (remdups ?is) \<le> 1"
    using d ms some by (auto simp: decide_evidence_def Let_def split: if_splits)
  have "fst r \<in> set (remdups ?is)" using ms r by simp
  with one have only: "set (remdups ?is) = {fst r}"
    by (cases "remdups ?is"; cases "tl (remdups ?is)") auto
  have rest: "\<forall>m' \<in> set ms. \<exists>r'. recordConsumedBy rs m' = Some r' \<and> fst r' = fst r"
  proof
    fix m' assume m': "m' \<in> set ms"
    then obtain r' where r': "recordConsumedBy rs m' = Some r'"
      using some by (cases "recordConsumedBy rs m'") (auto simp: image_iff)
    have "fst r' \<in> set ?is" using m' r' by force
    then show "\<exists>r'. recordConsumedBy rs m' = Some r' \<and> fst r' = fst r" using only r' by auto
  qed
  have "rec = cs ! fst r \<and> mk = cs ! fst m \<and> (\<forall>x. rid = Some x \<longrightarrow> c_id rec = Some (int x))"
    using d ms some one r by (auto simp: decide_evidence_def Let_def split: option.splits if_splits)
  then show ?thesis using ms r rest by blast
qed

text \<open>What a found pair rests on.\<close>

lemma evidence_found:
  assumes "findStationObservationEvidence cs n (oid, st) me rid = Found rec mk"
  obtains login k rs ms where "me = Some login" "trim login \<noteq> []" "st_kind st = Some StationObservation"
    "st_schema_version st = 2" "st_station st = Some ''codex_review''" "lastOpenedIndex cs n oid st = Some k"
    "rs = concat (map (records_of n (st_cycle st) (lower login) cs) [Suc k..<length cs])"
    "ms = concat (map (markers_of n (st_cycle st) (lower login) cs) [Suc k..<length cs])"
    "decide_evidence cs rid rs ms = Found rec mk"
    "Option.bind rid (namedRecordPositionError cs k) = None"
proof -
  note d = assms [unfolded findStationObservationEvidence_def prod.case Let_def]
  have b: "\<not> blank_login me" using d by (cases "blank_login me") simp_all
  then obtain login where me: "me = Some login" "trim login \<noteq> []"
    by (cases me) (auto simp: blank_login_def)
  have k: "st_kind st = Some StationObservation" "st_schema_version st = 2" "station_evidence (st_station st) \<noteq> NoReader"
    using d b by (auto split: if_splits)
  obtain j where j: "lastOpenedIndex cs n oid st = Some j" "Option.bind rid (namedRecordPositionError cs j) = None"
    using d b k by (auto split: option.splits)
  have inh: "station_evidence (st_station st) \<noteq> InheritedReader"
  proof
    assume "station_evidence (st_station st) = InheritedReader"
    then show False using d b k j by (simp add: decide_evidence_def split: if_splits)
  qed
  then have s: "st_station st = Some ''codex_review''" using k(3) by (auto simp: station_evidence_def split: if_splits)
  have "j < length cs" using j(1) by (simp add: lastOpenedIndex_Some)
  then have le: "Suc j \<le> length cs" by simp
  show thesis
  proof (rule that [OF me k(1,2) s j(1) refl refl _ j(2)])
    show "decide_evidence cs rid (concat (map (records_of n (st_cycle st) (lower login) cs) [Suc j..<length cs]))
      (concat (map (markers_of n (st_cycle st) (lower login) cs) [Suc j..<length cs])) = Found rec mk"
      using d b k j inh me by (simp add: collect_positions [OF le] split: if_splits)
  qed
qed

lemma verdict_bound:
  assumes "findStationObservationEvidence cs n (oid, st) me rid = Found rec mk"
  obtains login k i j h b where "me = Some login" "trim login \<noteq> []" "st_kind st = Some StationObservation"
    "st_schema_version st = 2" "st_station st = Some ''codex_review''"
    "lastOpenedIndex cs n oid st = Some k" "k < i" "i < j" "j < length cs" "rec = cs ! i" "mk = cs ! j"
    "author_login rec = Some (lower login)" "author_login mk = Some (lower login)"
    "parseCodexPrePushFindingsHeader (c_body rec) = Some h" "fh_issue h = n" "st_cycle st = Some (fh_cycle h)"
    "(b, fh_cycle h) \<in> set (parseCodexReviewPrePushCycleMarkerEntries (c_body mk) n)"
    "fh_branch h = None \<or> fh_branch h = Some b"
    "\<And>l h'. i < l \<Longrightarrow> l < j \<Longrightarrow> author_login (cs ! l) = Some (lower login)
       \<Longrightarrow> parseCodexPrePushFindingsHeader (c_body (cs ! l)) = Some h' \<Longrightarrow> fh_issue h' = n \<Longrightarrow> fh_cycle h' = fh_cycle h
       \<Longrightarrow> fh_branch h' \<noteq> None \<and> fh_branch h' \<noteq> Some b"
    "\<And>r. rid = Some r \<Longrightarrow> c_id rec = Some (int r)"
proof -
  obtain login k rs ms where f: "me = Some login" "trim login \<noteq> []" "st_kind st = Some StationObservation"
    "st_schema_version st = 2" "st_station st = Some ''codex_review''" "lastOpenedIndex cs n oid st = Some k"
    "rs = concat (map (records_of n (st_cycle st) (lower login) cs) [Suc k..<length cs])"
    "ms = concat (map (markers_of n (st_cycle st) (lower login) cs) [Suc k..<length cs])"
    "decide_evidence cs rid rs ms = Found rec mk"
    "Option.bind rid (namedRecordPositionError cs k) = None"
    using assms by (rule evidence_found)
  obtain m ms' r where d: "ms = m # ms'" "recordConsumedBy rs m = Some r" "rec = cs ! fst r" "mk = cs ! fst m"
    "\<forall>x. rid = Some x \<longrightarrow> c_id rec = Some (int x)"
    using decide_found [OF f(9)] by blast
  have "sorted (map fst rs)" unfolding f(7) by (rule records_increasing)
  from consumed_latest [OF d(2) this] have r: "r \<in> set rs" "eligible m r"
    "\<forall>r' \<in> set rs. eligible m r' \<longrightarrow> fst r' \<le> fst r" by blast+
  obtain i br where ri: "r = (i, br)" by (cases r)
  obtain j bm where mj: "m = (j, bm)" by (cases m)
  have m_in: "(j, bm) \<in> set ms" using d(1) mj by simp
  have r_in: "(i, br) \<in> set rs" using r(1) ri by simp
  have il: "Suc k \<le> i" "i < length cs" "(i, br) \<in> set (records_of n (st_cycle st) (lower login) cs i)"
    using r_in unfolding f(7) by (auto simp: in_records_of)
  have jl: "Suc k \<le> j" "j < length cs" "(j, bm) \<in> set (markers_of n (st_cycle st) (lower login) cs j)"
    using m_in unfolding f(8) by (auto simp: in_markers_of)
  obtain h where h: "author_login (cs ! i) = Some (lower login)"
    "parseCodexPrePushFindingsHeader (c_body (cs ! i)) = Some h" "fh_issue h = n" "Some (fh_cycle h) = st_cycle st" "fh_branch h = br"
    using il(3) by (auto simp: in_records_of)
  obtain b c where b: "author_login (cs ! j) = Some (lower login)" "bm = Some b"
    "(b, c) \<in> set (parseCodexReviewPrePushCycleMarkerEntries (c_body (cs ! j)) n)" "Some c = st_cycle st"
    using jl(3) by (auto simp: in_markers_of)
  have e: "i < j" "br = None \<or> br = Some b" using r(2) ri mj b(2) by (auto simp: eligible_def)
  have c: "c = fh_cycle h" using b(4) h(4) by (metis option.inject)
  have latest: "fh_branch h' \<noteq> None \<and> fh_branch h' \<noteq> Some b"
    if l: "i < l" "l < j" and a: "author_login (cs ! l) = Some (lower login)"
      and p: "parseCodexPrePushFindingsHeader (c_body (cs ! l)) = Some h'" "fh_issue h' = n" "fh_cycle h' = fh_cycle h"
    for l h'
  proof (rule ccontr)
    assume no: "\<not> (fh_branch h' \<noteq> None \<and> fh_branch h' \<noteq> Some b)"
    have "(l, fh_branch h') \<in> set (records_of n (st_cycle st) (lower login) cs l)"
      using a p h(4) by (auto simp: in_records_of)
    moreover have "l \<in> set [Suc k..<length cs]" using il(1) jl(2) l by simp
    ultimately have "(l, fh_branch h') \<in> set rs" unfolding f(7) by auto
    moreover have "eligible m (l, fh_branch h')" using no l mj b(2) by (auto simp: eligible_def)
    ultimately have "l \<le> i" using r(3) ri by fastforce
    with l show False by simp
  qed
  show thesis
  proof (rule that [OF f(1-6) _ e(1) jl(2)])
    show "k < i" using il(1) by simp
    show "rec = cs ! i" "mk = cs ! j" using d(3,4) ri mj by simp_all
    then show "author_login rec = Some (lower login)" "author_login mk = Some (lower login)"
      "parseCodexPrePushFindingsHeader (c_body rec) = Some h"
      "(b, fh_cycle h) \<in> set (parseCodexReviewPrePushCycleMarkerEntries (c_body mk) n)"
      using h b c by simp_all
    show "fh_issue h = n" "st_cycle st = Some (fh_cycle h)" "fh_branch h = None \<or> fh_branch h = Some b"
      using h e(2) by simp_all
  qed (use latest d(5) in blast)+
qed

text \<open>A comment of another author that opens nothing changes nothing.\<close>

lemma opens_append:
  "\<not> opens_observation n oid st c \<Longrightarrow> lastOpenedIndex (cs @ [c]) n oid st = lastOpenedIndex cs n oid st"
proof -
  assume c: "\<not> opens_observation n oid st c"
  have "opened_before P (cs @ [c]) m = opened_before P cs m" if le: "m \<le> length cs" for P m
    using le by (induction m) (simp_all add: nth_append)
  then show ?thesis using c by (simp add: lastOpenedIndex_def)
qed

lemma collect_append:
  assumes "\<not> isTrustedAuthor c t"
  shows "collectVerdictEvidence n cy t i (cs @ [c]) = collectVerdictEvidence n cy t i cs"
  using assms by (induction cs arbitrary: i) simp_all

lemma decide_append:
  assumes "\<forall>r \<in> set rs. fst r < length cs" and "\<forall>m \<in> set ms. fst m < length cs"
  shows "decide_evidence (cs @ [c]) rid rs ms = decide_evidence cs rid rs ms"
proof (cases "ms = [] \<or> None \<in> set (map (recordConsumedBy rs) ms)")
  case True
  then show ?thesis by (auto simp: decide_evidence_def Let_def)
next
  case False
  then obtain m ms' where ms: "ms = m # ms'" by (cases ms) auto
  then obtain r where r: "recordConsumedBy rs m = Some r" using False by (cases "recordConsumedBy rs m") auto
  then have "r \<in> set (filter (eligible m) rs)"
    using last_in_set [of "filter (eligible m) rs"]
    by (auto simp only: recordConsumedBy_def last_option_def option.inject option.distinct split: if_splits)
  then have "fst r < length cs" "fst m < length cs" using assms ms by auto
  then show ?thesis using ms r by (simp add: decide_evidence_def nth_append Let_def split: option.splits)
qed

lemma evidence_append:
  assumes "author_login c \<noteq> map_option lower me" and "\<not> opens_observation n oid st c"
  shows "findStationObservationEvidence (cs @ [c]) n (oid, st) me rid = Found rec mk
    \<longleftrightarrow> findStationObservationEvidence cs n (oid, st) me rid = Found rec mk"
proof (cases "blank_login me \<or> st_kind st \<noteq> Some StationObservation \<or> st_schema_version st \<noteq> 2
    \<or> station_evidence (st_station st) = NoReader \<or> lastOpenedIndex cs n oid st = None")
  case True
  then show ?thesis using opens_append [OF assms(2), of cs]
    by (auto simp: findStationObservationEvidence_def)
next
  case False
  then obtain k login where k: "lastOpenedIndex cs n oid st = Some k" and me: "me = Some login"
    by (cases me) (auto simp: blank_login_def)
  have kl: "Suc k \<le> length cs" using k by (simp add: lastOpenedIndex_Some)
  have nt: "\<not> isTrustedAuthor c (lower login)" using assms(1) me by (simp add: isTrustedAuthor_def)
  let ?rs = "fst (collectVerdictEvidence n (st_cycle st) (lower login) (Suc k) (drop (Suc k) cs))"
    and ?ms = "snd (collectVerdictEvidence n (st_cycle st) (lower login) (Suc k) (drop (Suc k) cs))"
  have in_range: "\<forall>r \<in> set ?rs. fst r < length cs" "\<forall>m \<in> set ?ms. fst m < length cs"
    unfolding collect_positions [OF kl] by (auto simp: in_records_of in_markers_of)
  have d: "decide_evidence (cs @ [c]) rid ?rs ?ms = decide_evidence cs rid ?rs ?ms" by (rule decide_append [OF in_range])
  let ?err = "\<lambda>xs. Option.bind rid (namedRecordPositionError xs k)"
  show ?thesis
  proof (cases "?err (cs @ [c]) = ?err cs")
    case True
    then show ?thesis using False k kl me nt d opens_append [OF assms(2), of cs]
      by (simp add: findStationObservationEvidence_def collect_append list_ex_iff case_prod_beta drop_append
          decide_evidence_def [of _ _ "[]" "[]"] Let_def split: option.splits)
  next
    case err: False
    then obtain r where r: "rid = Some r" by (cases rid) auto
    have none: "find_index (\<lambda>c. c_id c = Some (int r)) cs = None"
      using err r by (cases "find_index (\<lambda>c. c_id c = Some (int r)) cs")
        (auto simp: namedRecordPositionError_def find_index_append)
    have "\<not> findStationObservationEvidence cs n (oid, st) me rid = Found rec mk"
      using False k r none by (auto simp: findStationObservationEvidence_def namedRecordPositionError_def)
    moreover have "\<not> findStationObservationEvidence (cs @ [c]) n (oid, st) me rid = Found rec mk"
    proof
      assume f: "findStationObservationEvidence (cs @ [c]) n (oid, st) me rid = Found rec mk"
      obtain i where i: "rec = (cs @ [c]) ! i" "i < length cs" "author_login rec = Some (lower login)"
        using f
      proof (rule verdict_bound, goal_cases)
        case (1 login' k' i j h b)
        then show ?case using me by auto
      qed
      have "c_id rec = Some (int r)" using f r by (rule_tac verdict_bound [OF f]) blast
      then show False using i none by (auto simp: find_index_None nth_append)
    qed
    ultimately show ?thesis by blast
  qed
qed

section \<open>The marker families do not read each other\<close>

lemma prepush_not_v2: "prepush_marker (v2_build e @ s) = None"
  by (simp add: prepush_marker_def v2_build_def marker_open_def ws0_def is_ws_def less_eq_char_def)

lemma v2_not_prepush: "v2_marker (prepush_marker_line m @ s) = None"
  by (simp add: v2_marker_def prepush_marker_line_def marker_open_def ws0_def is_ws_def less_eq_char_def)

lemma v1_not_prepush: "v1_marker (prepush_marker_line m @ s) = None"
  by (simp add: v1_marker_def prepush_marker_line_def marker_open_def ws0_def is_ws_def less_eq_char_def)

lemma find_prepush_skips_v2: "v2_ok e \<Longrightarrow> find_all prepush_marker (v2_build e @ s) = find_all prepush_marker s"
proof -
  assume "v2_ok e"
  then obtain t where t: "v2_build e = CHR ''<'' # t" "CHR ''<'' \<notin> set t" using v2_build_tail by blast
  show ?thesis using prepush_not_v2 [of e s] prepush_codec.find_plain [OF t(2), of s] by (simp add: t)
qed

lemma prepush_line_tail: "plain_marker m \<Longrightarrow> \<exists>t. prepush_marker_line m = CHR ''<'' # t \<and> CHR ''<'' \<notin> set t"
proof
  assume m: "plain_marker m"
  let ?p = "case cm_publication m of None \<Rightarrow> [] | Some p \<Rightarrow> buildReviewPublicationMarkerAttributes p"
  let ?t = "''!-- gc:codex-prepush-cycle'' @ attr_str ''issue'' (show_nat (cm_subject m))
     @ attr_str ''branch'' (json_escape (cm_branch m)) @ attr_str ''cycle'' (show_nat (cm_cycle m))
     @ override_attr m @ reason_attr m @ ?p @ '' -->''"
  have "plain ?p" using m plain_publication by (auto simp: plain_marker_def plain_def split: option.splits)
  moreover have "CHR ''<'' \<notin> set (json_escape (cm_branch m))"
    using m by (intro json_escape_plain) (simp_all add: plain_marker_def plain_def)
  ultimately show "prepush_marker_line m = CHR ''<'' # ?t \<and> CHR ''<'' \<notin> set ?t"
    using plain_override [of m] plain_reason_attr [OF m]
    by (auto simp: prepush_marker_line_def plain_def attr_str_no_lt)
qed

lemma find_v2_skips_prepush:
  assumes "plain_marker m"
  shows "find_all v2_marker (prepush_marker_line m @ s) = find_all v2_marker s"
    "find_all v1_marker (prepush_marker_line m @ s) = find_all v1_marker s"
proof -
  obtain t where t: "prepush_marker_line m = CHR ''<'' # t" "CHR ''<'' \<notin> set t"
    using prepush_line_tail [OF assms] by blast
  show "find_all v2_marker (prepush_marker_line m @ s) = find_all v2_marker s"
    using v2_not_prepush [of m s] v2.find_plain [OF t(2), of s] by (simp add: t)
  show "find_all v1_marker (prepush_marker_line m @ s) = find_all v1_marker s"
    using v1_not_prepush [of m s] v1.find_plain [OF t(2), of s] by (simp add: t)
qed

lemma cycle_marker_split:
  assumes "plain_marker m"
  obtains rest where "buildCodexReviewPrePushCycleMarker m = prepush_marker_line m @ rest" "CHR ''<'' \<notin> set rest"
proof
  let ?rest = "[nl, nl] @ prepush_headline m
      @ '' Posted by the MCP server to enforce the pre-push hard-cap-'' @ show_int (cm_cap m)
      @ '' contract (issues #796, #804, #906). Do not edit or delete '' @ em_dash
      @ '' used by the next `gc_codex_review` (uncommitted) invocation to count cycles.'' @ reason_line m"
  show "buildCodexReviewPrePushCycleMarker m = prepush_marker_line m @ ?rest"
    by (simp only: buildCodexReviewPrePushCycleMarker_def)
  have "plain (cm_branch m)" using assms by (simp add: plain_marker_def)
  then show "CHR ''<'' \<notin> set ?rest"
    using plain_reason_line [OF assms] by (simp add: plain_def prepush_headline_def em_dash_def)
qed

lemma header_not_marker: "parseCodexPrePushFindingsHeader (CHR ''<'' # s) = None"
  by (simp add: parseCodexPrePushFindingsHeader_def review_tag_def)

lemma cycle_marker_foreign:
  assumes "plain_marker m"
  shows "parseExecutionObligationMarkers [buildCodexReviewPrePushCycleMarker m] n = []"
    "parseCodexPrePushFindingsHeader (buildCodexReviewPrePushCycleMarker m) = None"
proof -
  obtain rest where b: "buildCodexReviewPrePushCycleMarker m = prepush_marker_line m @ rest" "CHR ''<'' \<notin> set rest"
    using assms by (rule cycle_marker_split)
  show "parseExecutionObligationMarkers [buildCodexReviewPrePushCycleMarker m] n = []"
    by (simp add: b(1) parse_one find_v2_skips_prepush [OF assms] v1.find_none [OF b(2)] v2.find_none [OF b(2)])
  show "parseCodexPrePushFindingsHeader (buildCodexReviewPrePushCycleMarker m) = None"
    using prepush_codec.build_start [of m] by (auto simp: b(1) header_not_marker)
qed

section \<open>Properties\<close>

text \<open>
  C33. A verdict is never taken on anyone's word: evidence for an open observation is a findings record of the
  station for this issue and this cycle, by the authenticated login, posted after the last comment that opened the
  observation; a later cycle marker of the same login for the same issue and cycle consumed it, on its branch, with no
  other such record in between. When the caller names a record, it is this one.
\<close>

theorem evidence_binds_verdict:
  assumes "findStationObservationEvidence cs n (oid, st) me rid = Found rec mk"
  shows "\<exists>login k i j h b. me = Some login \<and> k < i \<and> i < j \<and> j < length cs \<and> rec = cs ! i \<and> mk = cs ! j
    \<and> st_station st = Some ''codex_review'' \<and> opens_observation n oid st (cs ! k)
    \<and> (\<forall>l. k < l \<and> l < length cs \<longrightarrow> \<not> opens_observation n oid st (cs ! l))
    \<and> author_login rec = Some (lower login) \<and> author_login mk = Some (lower login)
    \<and> parseCodexPrePushFindingsHeader (c_body rec) = Some h \<and> fh_issue h = n \<and> st_cycle st = Some (fh_cycle h)
    \<and> (b, fh_cycle h) \<in> set (parseCodexReviewPrePushCycleMarkerEntries (c_body mk) n)
    \<and> (fh_branch h = None \<or> fh_branch h = Some b)
    \<and> (\<forall>l h'. i < l \<and> l < j \<and> author_login (cs ! l) = Some (lower login)
         \<and> parseCodexPrePushFindingsHeader (c_body (cs ! l)) = Some h' \<and> fh_issue h' = n \<and> fh_cycle h' = fh_cycle h
         \<longrightarrow> fh_branch h' \<notin> {None, Some b})
    \<and> (\<forall>r. rid = Some r \<longrightarrow> c_id rec = Some (int r))"
  using assms
proof (rule verdict_bound, goal_cases)
  case (1 login k i j h b)
  then have k: "opens_observation n oid st (cs ! k)" "\<forall>l. k < l \<and> l < length cs \<longrightarrow> \<not> opens_observation n oid st (cs ! l)"
    by (simp_all add: lastOpenedIndex_Some)
  have "\<forall>l h'. i < l \<and> l < j \<and> author_login (cs ! l) = Some (lower login)
      \<and> parseCodexPrePushFindingsHeader (c_body (cs ! l)) = Some h' \<and> fh_issue h' = n \<and> fh_cycle h' = fh_cycle h
      \<longrightarrow> fh_branch h' \<notin> {None, Some b}"
    using 1(19) by blast
  then show ?case
    by (rule_tac exI [of _ login], rule_tac exI [of _ k], rule_tac exI [of _ i], rule_tac exI [of _ j],
        rule_tac exI [of _ h], rule_tac exI [of _ b]) (use 1(1,5,7-18,20) k in simp)
qed

text \<open>
  C34. Nobody else can make or unmake the evidence: appending a comment by another author that does not open the
  observation again leaves what is found as it was, whatever the comment says.
\<close>

theorem evidence_unforgeable:
  assumes "author_login c \<noteq> map_option lower me" and "\<not> opens_observation n oid st c"
  shows "findStationObservationEvidence (cs @ [c]) n (oid, st) me rid = Found rec mk
    \<longleftrightarrow> findStationObservationEvidence cs n (oid, st) me rid = Found rec mk"
  using assms by (rule evidence_append)

section \<open>Witnesses\<close>

text \<open>The server opens the observation of cycle 2 (41), then posts the findings record (91) and the cycle marker (93).\<close>

definition obs_opened :: obl_event where
  "obs_opened = \<lparr>issue_number = 7, obligation_id = ''STATION-OBS-CODEX-REVIEW-C2'', obl_action = Opened,
     schema_version = 2, kind = Some StationObservation, station = Some ''codex_review'', cycle = Some 2,
     disposition = None, observation_record_id = None, authorization_comment_id = None\<rparr>"

definition obs_marker :: cycle_marker where
  "obs_marker = \<lparr>cm_subject = 7, cm_branch = ''7-fix'', cm_cycle = 2, cm_override = False, cm_reason = None, cm_cap = 3,
     cm_publication = None\<rparr>"

definition obs_record :: string where
  "obs_record = buildHeaderLine True 2 3 7 0 (Some ''7-fix'')"

definition obs_thread :: "comment list" where
  "obs_thread = [said ''gc-bot'' 41 (v2_build obs_opened), said ''gc-bot'' 91 obs_record,
     said ''gc-bot'' 93 (buildCodexReviewPrePushCycleMarker obs_marker)]"

lemma obs_ok [simp]: "v2_ok obs_opened" "plain_marker obs_marker"
  by (simp_all add: v2_ok_def obs_opened_def obligation_id_ok_def station_ok_def is_upper_def is_lower_def is_digit_def
      id_char_def station_char_def less_eq_char_def plain_marker_def obs_marker_def plain_def)

lemma header_plain: "br = None \<or> CHR ''<'' \<notin> set (the br) \<Longrightarrow> CHR ''<'' \<notin> set (buildHeaderLine True cy cap n pr br)"
  unfolding buildHeaderLine_text
  by (auto simp: review_tag_def of_tag_def prepush_tag_def em_dash_def branch_text_def branch_open_def branch_close_def
      split: option.splits)

lemma obs_record_plain: "CHR ''<'' \<notin> set obs_record"
  unfolding obs_record_def by (rule header_plain) simp

lemma obs_parses [simp]:
  "parseExecutionObligationV2Markers (v2_build obs_opened) 7 = [obs_opened]"
  "parseExecutionObligationV2Markers obs_record 7 = []"
  "parseExecutionObligationV2Markers (buildCodexReviewPrePushCycleMarker obs_marker) 7 = []"
  "parseCodexPrePushFindingsHeader obs_record = Some \<lparr>fh_cycle = 2, fh_issue = 7, fh_branch = Some ''7-fix''\<rparr>"
  "parseCodexPrePushFindingsHeader (buildCodexReviewPrePushCycleMarker obs_marker) = None"
  "parseCodexReviewPrePushCycleMarkerEntries obs_record 7 = []"
  "parseCodexReviewPrePushCycleMarkerEntries (buildCodexReviewPrePushCycleMarker obs_marker) 7 = [(''7-fix'', 2)]"
proof -
  show "parseExecutionObligationV2Markers (v2_build obs_opened) 7 = [obs_opened]"
    using v2.find_build [of obs_opened "[]"]
    by (simp add: parseExecutionObligationV2Markers_def) (simp add: obs_opened_def)
  show "parseExecutionObligationV2Markers obs_record 7 = []"
    by (simp add: parseExecutionObligationV2Markers_def v2.find_none obs_record_plain)
  show "parseExecutionObligationV2Markers (buildCodexReviewPrePushCycleMarker obs_marker) 7 = []"
    using cycle_marker_foreign(1) [of obs_marker 7] by (simp add: parse_one parseExecutionObligationV2Markers_def)
  show "parseCodexPrePushFindingsHeader obs_record = Some \<lparr>fh_cycle = 2, fh_issue = 7, fh_branch = Some ''7-fix''\<rparr>"
    using header_parsed [of "[]" "Some ''7-fix''" 2 3 7 0] by (simp add: obs_record_def shown_branch_def)
  show "parseCodexPrePushFindingsHeader (buildCodexReviewPrePushCycleMarker obs_marker) = None"
    by (simp add: cycle_marker_foreign)
  show "parseCodexReviewPrePushCycleMarkerEntries obs_record 7 = []"
    by (simp add: parseCodexReviewPrePushCycleMarkerEntries_def prepush_codec.find_none [OF obs_record_plain] map_filter_def)
  show "parseCodexReviewPrePushCycleMarkerEntries (buildCodexReviewPrePushCycleMarker obs_marker) 7 = [(''7-fix'', 2)]"
    using prepush_entries [OF obs_ok(2), of 7] by simp (simp add: obs_marker_def)
qed

definition obs_obligation :: "string \<times> obl_state" where
  "obs_obligation = (obligation_id obs_opened, opened_state obs_opened)"

lemma obs_login [simp]: "author_login (said ''gc-bot'' i b) = Some ''gc-bot''" "lower ''gc-bot'' = ''gc-bot''"
  by (simp_all add: author_login_def said_def lower_def lower_char_def is_upper_def less_eq_char_def)

lemma obs_found:
  "findStationObservationEvidence obs_thread 7 obs_obligation (Some ''gc-bot'') (Some 91) =
     Found (said ''gc-bot'' 91 obs_record) (said ''gc-bot'' 93 (buildCodexReviewPrePushCycleMarker obs_marker))"
proof -
  have o: "opens_observation 7 (obligation_id obs_opened) (opened_state obs_opened) (said ''gc-bot'' 41 (v2_build obs_opened))"
    by (simp add: opens_observation_def eventsOf_def) (simp add: obs_opened_def opened_state_def)
  have no: "\<not> opens_observation 7 (obligation_id obs_opened) (opened_state obs_opened) (said ''gc-bot'' 91 obs_record)"
    "\<not> opens_observation 7 (obligation_id obs_opened) (opened_state obs_opened)
        (said ''gc-bot'' 93 (buildCodexReviewPrePushCycleMarker obs_marker))"
    by (simp_all add: opens_observation_def eventsOf_def)
  have st: "st_kind (opened_state obs_opened) = Some StationObservation" "st_schema_version (opened_state obs_opened) = 2"
    "st_station (opened_state obs_opened) = Some ''codex_review''" "st_cycle (opened_state obs_opened) = Some 2"
    by (simp_all add: opened_state_def obs_opened_def)
  have k: "lastOpenedIndex obs_thread 7 (obligation_id obs_opened) (opened_state obs_opened) = Some 0"
    using o no by (simp add: lastOpenedIndex_def obs_thread_def)
  have b: "\<not> blank_login (Some ''gc-bot'')" by (simp add: blank_login_def trim_def is_ws_def less_eq_char_def)
  have e: "namedRecordPositionError obs_thread 0 91 = None"
    by (simp add: namedRecordPositionError_def obs_thread_def said_def)
  have c: "collectVerdictEvidence 7 (Some 2) ''gc-bot'' (Suc 0) (drop (Suc 0) obs_thread) = ([(Suc 0, Some ''7-fix'')], [(2, Some ''7-fix'')])"
    by (simp add: obs_thread_def record_here_def markers_here_def isTrustedAuthor_def)
  have d: "decide_evidence obs_thread (Some 91) [(Suc 0, Some ''7-fix'')] [(2, Some ''7-fix'')] =
     Found (said ''gc-bot'' 91 obs_record) (said ''gc-bot'' 93 (buildCodexReviewPrePushCycleMarker obs_marker))"
    by (simp add: decide_evidence_def recordConsumedBy_def last_option_def eligible_def obs_thread_def said_def)
  have s: "station_evidence (Some ''codex_review'') = CodexReader" by (simp add: station_evidence_def)
  show ?thesis
    by (simp add: findStationObservationEvidence_def obs_obligation_def b st s k e c d)
qed

lemma evidence_binds_verdict_witness:
  "\<exists>i j. i < j \<and> c_id (obs_thread ! i) = Some 91 \<and> c_id (obs_thread ! j) = Some 93"
proof -
  note f = obs_found [unfolded obs_obligation_def]
  obtain i j where "i < j" "said ''gc-bot'' 91 obs_record = obs_thread ! i"
    "said ''gc-bot'' 93 (buildCodexReviewPrePushCycleMarker obs_marker) = obs_thread ! j"
    using evidence_binds_verdict [OF f] by blast
  then have "i < j \<and> c_id (obs_thread ! i) = Some 91 \<and> c_id (obs_thread ! j) = Some 93"
    by (simp flip: \<open>_ = obs_thread ! i\<close> \<open>_ = obs_thread ! j\<close>)
  then show ?thesis by blast
qed

lemma evidence_unforgeable_witness:
  "findStationObservationEvidence (obs_thread @ [said ''alice'' 99 obs_record]) 7 obs_obligation (Some ''gc-bot'') (Some 91) =
     Found (said ''gc-bot'' 91 obs_record) (said ''gc-bot'' 93 (buildCodexReviewPrePushCycleMarker obs_marker))"
  unfolding obs_obligation_def
proof (subst evidence_unforgeable)
  show "author_login (said ''alice'' 99 obs_record) \<noteq> map_option lower (Some ''gc-bot'')"
    by (simp add: author_login_def said_def lower_def lower_char_def is_upper_def less_eq_char_def)
  show "\<not> opens_observation 7 (obligation_id obs_opened) (opened_state obs_opened) (said ''alice'' 99 obs_record)"
    by (simp add: opens_observation_def eventsOf_def)
qed (rule obs_found [unfolded obs_obligation_def])

end
