(* ===== verification/StationRecords.thy ===== *)
theory StationRecords
  imports StationEvidence CallTree
begin

text \<open>
  The three records a station observation leaves on the issue thread (\<open>lib/station-observation-records.js\<close>): opened when
  a station renders no verdict, resolved as re-observed when a later attempt does, escalated when the attempts are
  spent. They are posted through GitHub, a service; what it answers, the sensitive-content guard \<open>sens\<close> and the text of
  a failed command are parameters.
\<close>

section \<open>The services\<close>

text \<open>The observation a run resolves: its obligation id, station and logical cycle.\<close>

record observation =
  ob_id :: string
  ob_station :: string
  ob_cycle :: nat

text \<open>
  \<open>ReadTrust cs n\<close> stands for the requests of the trusted read: the permission of the authors of a thread and, when a
  re-observation has to be attested, the login again. The lease of a reconciliation has an issue and an obligation. The last four
  requests are those of the cycle wrapper: the configuration, the repository, the bodies of a thread, and one
  attempt of the station, answered with its envelope, whether the caller's signal was aborted, and how long it ran.
\<close>

datatype station_request =
    ReadComments nat
  | ReadLogin
  | ReadTrust "comment list" nat
  | PostComment nat string
  | TakeLease nat string
  | DropLease nat string
  | ReadContext
  | ResolveTarget
  | ReadBodies nat
  | InvokeReview "observation option" nat

datatype station_answer =
    Comments "comment list"
  | LoginIs "string option"
  | TrustIs "string \<Rightarrow> string option" "string option"
  | PostedAt string
  | LeaseTaken
  | LeaseContended
  | Done
  | ContextIs js
  | TargetIs string string
  | BodiesAre "string list"
  | Reviewed js bool nat
  | Failed string

type_synonym 'r station_calls = "(station_request, station_answer, 'r) calls"

definition record_body_max :: nat where "record_body_max = 65535"

text \<open>The failure message or the URL of the comment.\<close>

definition postComment :: "(string \<Rightarrow> string option) \<Rightarrow> nat \<Rightarrow> string \<Rightarrow> (string + string) station_calls" where
  "postComment sens n body =
     (case sens body of
        Some s \<Rightarrow> Return (Inl (''sensitive-content guardrail: '' @ s))
      | None \<Rightarrow>
          if length body > record_body_max then Return (Inl ''record exceeds the GitHub issue-comment body cap'')
          else Ask (PostComment n body) (\<lambda>a. Return (case a of
                 PostedAt url \<Rightarrow> Inr (trim url)
               | Failed m \<Rightarrow> Inl m
               | _ \<Rightarrow> Inl ''gh api failed'')))"

text \<open>The digits at the end of the URL, where \<open>#issuecomment-\<close> stands before them.\<close>

definition issuecomment_tag :: string where "issuecomment_tag = ''#issuecomment-''"

definition commentIdFromUrl :: "string \<Rightarrow> nat option" where
  "commentIdFromUrl url =
     (let ds = rev (takeWhile is_digit (rev url)); front = rev (dropWhile is_digit (rev url))
      in if ds \<noteq> [] \<and> ends_with issuecomment_tag front then Some (dec_val ds) else None)"

definition station_label :: "string \<Rightarrow> string" where
  "station_label st = (if st = ''codex_review'' then ''codex review'' else st)"

definition record_header :: "string \<Rightarrow> nat \<Rightarrow> string \<Rightarrow> string" where
  "record_header st cy event =
     ''## Station observation '' @ em_dash @ '' '' @ station_label st @ '' cycle '' @ show_nat cy @ '' '' @ em_dash @ '' '' @ event"

section \<open>Opened\<close>

definition opened_event :: "nat \<Rightarrow> string \<Rightarrow> nat \<Rightarrow> obl_event" where
  "opened_event n st cy =
     \<lparr>issue_number = n, obligation_id = buildStationObservationObligationId st cy, obl_action = Opened,
      schema_version = 2, kind = Some StationObservation, station = Some st, cycle = Some cy,
      disposition = None, observation_record_id = None, authorization_comment_id = None\<rparr>"

definition opened_body :: "nat \<Rightarrow> string \<Rightarrow> nat \<Rightarrow> string \<Rightarrow> nat \<Rightarrow> string" where
  "opened_body n st cy failure k = v2_build (opened_event n st cy) @ nl # join [nl]
     [[], record_header st cy ''Opened'', [],
      ''**Observed state:** the station ran but rendered no verdict, so this gate is unobserved.  '',
      ''**Failure class:** `'' @ failure @ ''`  '',
      ''**Attempt:** '' @ show_nat k @ ''  '',
      ''**Impact:** the review cap was not consumed and no findings record exists for this cycle.  '',
      ''**Current obligation:** observe this station before the run completes.'', [],
      ''This is a missing observation, not a defect. It is resolved by observing the station, not by'',
      ''dispositioning a finding.'']"

definition postStationObservationOpened ::
  "(string \<Rightarrow> string option) \<Rightarrow> nat \<Rightarrow> string \<Rightarrow> nat \<Rightarrow> string \<Rightarrow> nat \<Rightarrow> ((string + string) \<times> string) station_calls" where
  "postStationObservationOpened sens n st cy failure k =
     await (postComment sens n (opened_body n st cy failure k))
       (\<lambda>posted. Return (posted, buildStationObservationObligationId st cy))"

section \<open>Re-observed\<close>

text \<open>The prose for how the verdict was established: a closed set.\<close>

definition reobservation_source :: "string \<Rightarrow> string option" where
  "reobservation_source src =
     (if src = ''cycle_wrapper'' then Some ''a re-attempt of this station at this logical cycle rendered a verdict.''
      else if src = ''reconciliation''
      then Some (''the server matched this station'' @ [CHR 0x27] @ ''s verdict record and cycle marker for this logical cycle, ''
        @ ''posted after the obligation opened, and recorded the resolution the cycle wrapper did not.'')
      else None)"

definition reobserved_event :: "nat \<Rightarrow> observation \<Rightarrow> nat \<Rightarrow> obl_event" where
  "reobserved_event n ob r =
     \<lparr>issue_number = n, obligation_id = ob_id ob, obl_action = Resolved,
      schema_version = 2, kind = Some StationObservation, station = Some (ob_station ob), cycle = Some (ob_cycle ob),
      disposition = Some Reobserved, observation_record_id = Some r, authorization_comment_id = None\<rparr>"

definition reobserved_body :: "nat \<Rightarrow> observation \<Rightarrow> nat \<Rightarrow> string \<Rightarrow> string \<Rightarrow> string" where
  "reobserved_body n ob r url action = v2_build (reobserved_event n ob r) @ nl # join [nl]
     [[], record_header (ob_station ob) (ob_cycle ob) ''Re-observed'', [],
      ''**Disposition:** reobserved  '',
      ''**Corrective action:** '' @ action @ ''  '',
      ''**Evidence:** '' @ url, [],
      ''### Verification'', [],
      ''- The linked findings record is this station'' @ [CHR 0x27] @ ''s validated verdict for this logical cycle.'',
      ''- Re-observation closes only the missing-observation obligation. Any findings in that record'',
      ''  remain subject to the existing `fix` / `wontfix` / `not-applicable` rules.'']"

definition postStationReobservation ::
  "(string \<Rightarrow> string option) \<Rightarrow> nat \<Rightarrow> string \<Rightarrow> observation \<Rightarrow> string \<Rightarrow> (string + string) station_calls" where
  "postStationReobservation sens n url ob src =
     (case commentIdFromUrl url of
        None \<Rightarrow> Return (Inl (''could not derive a comment id from '' @ [CHR 0x27] @ url @ [CHR 0x27]))
      | Some r \<Rightarrow>
          (case reobservation_source src of
             None \<Rightarrow> Return (Inl (''unknown re-observation source '' @ [CHR 0x27] @ src @ [CHR 0x27]))
           | Some action \<Rightarrow> postComment sens n (reobserved_body n ob r url action)))"

text \<open>Between the findings record and the cycle marker: nothing to do, or the caller's failure.\<close>

definition guardStationReobservation ::
  "(string \<Rightarrow> string option) \<Rightarrow> nat \<Rightarrow> observation option \<Rightarrow> string option \<Rightarrow> (string \<Rightarrow> string \<Rightarrow> 'f)
     \<Rightarrow> 'f option station_calls" where
  "guardStationReobservation sens n ob url build_failure =
     (case (ob, url) of
        (Some o_, Some u) \<Rightarrow> await (postStationReobservation sens n u o_ ''cycle_wrapper'') (\<lambda>res.
          Return (case res of
            Inr _ \<Rightarrow> None
          | Inl m \<Rightarrow> Some (build_failure
              (''the findings record posted but the open station-observation obligation '' @ [CHR 0x27] @ ob_id o_
               @ [CHR 0x27] @ '' could not be resolved: '' @ m @ ''. No cycle ''
               @ ''marker has been written, so the cap is untouched and re-running is safe.'') m)))
      | _ \<Rightarrow> Return None)"

section \<open>Escalated\<close>

definition escalated_event :: "nat \<Rightarrow> string \<Rightarrow> nat \<Rightarrow> obl_event" where
  "escalated_event n st cy = (opened_event n st cy)\<lparr>obl_action := Escalated\<rparr>"

definition failure_classes_text :: "string option list \<Rightarrow> string" where
  "failure_classes_text fs =
     (let cs = foldl set_add [] (map the (filter (\<lambda>f. f \<noteq> None \<and> f \<noteq> Some []) fs));
          shown = join '', '' (map (\<lambda>c. ''`'' @ c @ ''`'') cs)
      in if shown = [] then ''`unreadable_envelope`'' else shown)"

definition escalated_body :: "nat \<Rightarrow> string \<Rightarrow> nat \<Rightarrow> string option list \<Rightarrow> nat \<Rightarrow> string" where
  "escalated_body n st cy failures attempts = v2_build (escalated_event n st cy) @ nl # join [nl]
     [[], record_header st cy ''Escalated'', [],
      ''**Pause class:** hard_external_dependency  '',
      ''**Unobserved station:** `'' @ st @ ''` ('' @ station_label st @ '')  '',
      ''**Attempts:** '' @ show_nat attempts @ ''  '',
      ''**Failure classes:** '' @ failure_classes_text failures @ ''  '',
      ''**Decision request:** restore the ability to observe this station, then re-run the review.'', [],
      ''This is not a request to accept a defect. Nothing was measured, so there is no finding to'',
      ''disposition '' @ em_dash @ '' the gate itself could not be run to completion. Restoring the station and'',
      ''re-running it resolves this obligation on the evidence.'', [],
      ''This obligation remains open while the decision is pending.'']"

definition postStationObservationEscalation ::
  "(string \<Rightarrow> string option) \<Rightarrow> nat \<Rightarrow> string \<Rightarrow> nat \<Rightarrow> string option list \<Rightarrow> nat
     \<Rightarrow> ((string + string) \<times> string) station_calls" where
  "postStationObservationEscalation sens n st cy failures attempts =
     await (postComment sens n (escalated_body n st cy failures attempts))
       (\<lambda>posted. Return (posted, buildStationObservationObligationId st cy))"

section \<open>The records are read back\<close>

lemma upper_codex: "map (\<lambda>c. if c = CHR ''_'' then CHR ''-'' else c) (upper ''codex_review'') = ''CODEX-REVIEW''"
  by code_simp

definition codex_prefix :: string where "codex_prefix = ''STATION-OBS-CODEX-REVIEW-C''"

lemma codex_id: "buildStationObservationObligationId ''codex_review'' cy = codex_prefix @ show_nat cy"
  unfolding buildStationObservationObligationId_def upper_codex codex_prefix_def by simp

lemma codex_id_inj: "buildStationObservationObligationId ''codex_review'' cy = buildStationObservationObligationId ''codex_review'' cy' \<longleftrightarrow> cy = cy'"
  by (simp add: codex_id)

lemma codex_id_ok:
  assumes "cy < 2 ^ 53"
  shows "obligation_id_ok (buildStationObservationObligationId ''codex_review'' cy)"
proof -
  have "cy < 10 ^ 16" using assms by simp
  then have l: "length (show_nat cy) \<le> 16" unfolding show_nat_def by (intro radix_str_length) simp_all
  have "list_all id_char (show_nat cy)" using show_nat_digits [of cy] by (auto simp: list_all_iff id_char_def)
  moreover have "list_all id_char codex_prefix" "is_upper (hd (codex_prefix @ show_nat cy))" "length codex_prefix = 26"
    by (simp_all add: codex_prefix_def id_char_def is_upper_def less_eq_char_def)
  ultimately show ?thesis using l by (simp add: codex_id obligation_id_ok_def)
qed

lemma codex_station_ok: "station_ok ''codex_review''"
  by (simp add: station_ok_def station_char_def is_lower_def less_eq_char_def)

lemma v2_record:
  assumes "v2_ok e" and "CHR ''<'' \<notin> set rest"
  shows "parseExecutionObligationMarkers [v2_build e @ rest] n = (if issue_number e = n then [e] else [])"
    "parseExecutionObligationV2Markers (v2_build e @ rest) n = (if issue_number e = n then [e] else [])"
    "parseCodexPrePushFindingsHeader (v2_build e @ rest) = None"
    "parseCodexReviewPrePushCycleMarkerEntries (v2_build e @ rest) n = []"
proof -
  show "parseExecutionObligationMarkers [v2_build e @ rest] n = (if issue_number e = n then [e] else [])"
    using assms by (simp add: parse_one find_obligations)
  show "parseExecutionObligationV2Markers (v2_build e @ rest) n = (if issue_number e = n then [e] else [])"
    using assms by (simp add: parseExecutionObligationV2Markers_def find_obligations)
  show "parseCodexPrePushFindingsHeader (v2_build e @ rest) = None"
    using v2.build_start [of e] by (auto simp: header_not_marker)
  show "parseCodexReviewPrePushCycleMarkerEntries (v2_build e @ rest) n = []"
    using assms by (simp add: parseCodexReviewPrePushCycleMarkerEntries_def find_prepush_skips_v2 prepush_codec.find_none map_filter_def)
qed

lemma join_no_lt: "CHR ''<'' \<notin> set (join sep ws) \<longleftrightarrow> (\<forall>w \<in> set ws. CHR ''<'' \<notin> set w) \<and> (length ws \<le> 1 \<or> CHR ''<'' \<notin> set sep)"
  by (cases ws; cases "tl ws") (auto simp: join_def)

lemma em_dash_no_lt: "CHR ''<'' \<notin> set em_dash"
  by (simp add: em_dash_def)

lemma label_no_lt: "CHR ''<'' \<notin> set st \<Longrightarrow> CHR ''<'' \<notin> set (station_label st)"
  by (simp add: station_label_def)

lemma header_no_lt: "CHR ''<'' \<notin> set st \<Longrightarrow> CHR ''<'' \<notin> set event \<Longrightarrow> CHR ''<'' \<notin> set (record_header st cy event)"
  by (simp add: record_header_def em_dash_no_lt label_no_lt)

lemma set_add_set: "set (foldl set_add xs ys) = set xs \<union> set ys"
  by (induction ys arbitrary: xs) (auto simp: set_add_def)

lemma classes_no_lt: "\<forall>f. Some f \<in> set fs \<longrightarrow> CHR ''<'' \<notin> set f \<Longrightarrow> CHR ''<'' \<notin> set (failure_classes_text fs)"
  by (auto simp: failure_classes_text_def Let_def join_no_lt set_add_set)

text \<open>Each body: its marker, then text that cannot open another.\<close>

lemma opened_read:
  assumes "cy < 2 ^ 53" and "CHR ''<'' \<notin> set failure"
  shows "parseExecutionObligationMarkers [opened_body n ''codex_review'' cy failure k] n'
      = (if n = n' then [opened_event n ''codex_review'' cy] else [])"
    "parseExecutionObligationV2Markers (opened_body n ''codex_review'' cy failure k) n'
      = (if n = n' then [opened_event n ''codex_review'' cy] else [])"
    "parseCodexPrePushFindingsHeader (opened_body n ''codex_review'' cy failure k) = None"
    "parseCodexReviewPrePushCycleMarkerEntries (opened_body n ''codex_review'' cy failure k) n' = []"
proof -
  have ok: "v2_ok (opened_event n ''codex_review'' cy)"
    using codex_id_ok [OF assms(1)] codex_station_ok by (simp add: v2_ok_def opened_event_def)
  have n: "issue_number (opened_event n ''codex_review'' cy) = n" by (simp add: opened_event_def)
  obtain rest where b: "opened_body n ''codex_review'' cy failure k = v2_build (opened_event n ''codex_review'' cy) @ rest" "CHR ''<'' \<notin> set rest"
    using assms(2) by (rule_tac that [OF opened_body_def]) (simp add: join_no_lt header_no_lt)
  note r = v2_record [OF ok b(2), unfolded n, folded b(1)]
  show "parseExecutionObligationMarkers [opened_body n ''codex_review'' cy failure k] n'
      = (if n = n' then [opened_event n ''codex_review'' cy] else [])"
    "parseExecutionObligationV2Markers (opened_body n ''codex_review'' cy failure k) n'
      = (if n = n' then [opened_event n ''codex_review'' cy] else [])"
    "parseCodexPrePushFindingsHeader (opened_body n ''codex_review'' cy failure k) = None"
    "parseCodexReviewPrePushCycleMarkerEntries (opened_body n ''codex_review'' cy failure k) n' = []"
    by (rule r)+
qed

lemma reobserved_read:
  assumes "obligation_id_ok (ob_id ob)" and "station_ok (ob_station ob)" and "CHR ''<'' \<notin> set url" and "CHR ''<'' \<notin> set action"
  shows "parseExecutionObligationMarkers [reobserved_body n ob r url action] n'
      = (if n = n' then [reobserved_event n ob r] else [])"
    "parseExecutionObligationV2Markers (reobserved_body n ob r url action) n'
      = (if n = n' then [reobserved_event n ob r] else [])"
    "parseCodexPrePushFindingsHeader (reobserved_body n ob r url action) = None"
    "parseCodexReviewPrePushCycleMarkerEntries (reobserved_body n ob r url action) n' = []"
proof -
  have ok: "v2_ok (reobserved_event n ob r)" using assms(1,2) by (simp add: v2_ok_def reobserved_event_def)
  have n: "issue_number (reobserved_event n ob r) = n" by (simp add: reobserved_event_def)
  obtain rest where b: "reobserved_body n ob r url action = v2_build (reobserved_event n ob r) @ rest" "CHR ''<'' \<notin> set rest"
    using assms(3,4) station_no_lt [OF assms(2)]
    by (rule_tac that [OF reobserved_body_def]) (simp add: join_no_lt header_no_lt)
  note r = v2_record [OF ok b(2), unfolded n, folded b(1)]
  show "parseExecutionObligationMarkers [reobserved_body n ob r url action] n'
      = (if n = n' then [reobserved_event n ob r] else [])"
    "parseExecutionObligationV2Markers (reobserved_body n ob r url action) n'
      = (if n = n' then [reobserved_event n ob r] else [])"
    "parseCodexPrePushFindingsHeader (reobserved_body n ob r url action) = None"
    "parseCodexReviewPrePushCycleMarkerEntries (reobserved_body n ob r url action) n' = []"
    by (rule r)+
qed

lemma escalated_read:
  assumes "cy < 2 ^ 53" and "\<forall>f. Some f \<in> set failures \<longrightarrow> CHR ''<'' \<notin> set f"
  shows "parseExecutionObligationMarkers [escalated_body n ''codex_review'' cy failures k] n'
      = (if n = n' then [escalated_event n ''codex_review'' cy] else [])"
proof -
  have ok: "v2_ok (escalated_event n ''codex_review'' cy)"
    using codex_id_ok [OF assms(1)] codex_station_ok by (simp add: v2_ok_def opened_event_def escalated_event_def)
  have n: "issue_number (escalated_event n ''codex_review'' cy) = n" by (simp add: opened_event_def escalated_event_def)
  obtain rest where b: "escalated_body n ''codex_review'' cy failures k = v2_build (escalated_event n ''codex_review'' cy) @ rest" "CHR ''<'' \<notin> set rest"
    using classes_no_lt [OF assms(2)]
    by (rule_tac that [OF escalated_body_def]) (simp add: join_no_lt header_no_lt label_no_lt em_dash_no_lt)
  show ?thesis using v2_record(1) [OF ok b(2), of n'] by (simp add: b(1) n)
qed

lemma source_no_lt: "reobservation_source src = Some action \<Longrightarrow> CHR ''<'' \<notin> set action"
  by (auto simp: reobservation_source_def split: if_splits)

section \<open>Comment ids\<close>

lemma ends_with_append: "ends_with p (s @ p)"
  by (simp add: ends_with_def starts_with_def)

lemma comment_id_shown: "commentIdFromUrl (front @ issuecomment_tag @ show_nat r) = Some r"
proof -
  let ?f = "front @ issuecomment_tag"
  obtain g where g: "rev ?f = CHR ''-'' # g" by (simp add: issuecomment_tag_def)
  have d: "\<And>c. c \<in> set (show_nat r) \<Longrightarrow> is_digit c" using show_nat_digits [of r] by blast
  have nd: "\<not> is_digit (CHR ''-'')" by (simp add: is_digit_def less_eq_char_def)
  have "takeWhile is_digit (rev (show_nat r) @ rev ?f) = rev (show_nat r)"
    unfolding g by (subst takeWhile_append2) (use d nd in \<open>auto\<close>)
  moreover have "dropWhile is_digit (rev (show_nat r) @ rev ?f) = rev ?f"
    unfolding g by (subst dropWhile_append2) (use d nd in \<open>auto\<close>)
  moreover have "rev (front @ issuecomment_tag @ show_nat r) = rev (show_nat r) @ rev ?f" by simp
  ultimately have "commentIdFromUrl (front @ issuecomment_tag @ show_nat r) =
     (if show_nat r \<noteq> [] \<and> ends_with issuecomment_tag ?f then Some (dec_val (show_nat r)) else None)"
    unfolding commentIdFromUrl_def Let_def by (simp only: rev_rev_ident)
  then show ?thesis using ends_with_append by simp
qed

end
