(* ===== verification/StationReconcile.thy ===== *)
theory StationReconcile
  imports StationRecords
begin

text \<open>
  Recovering a stranded station observation (\<open>lib/station-observation-reconcile.js\<close>): under a lease the call reads the
  thread, decides on its evidence alone, posts the re-observation, and reads the ledger again before it reports success.
  The authorized repository (\<open>lib/authorized-issue-repository.js\<close>) is a parameter.
\<close>

section \<open>Input\<close>

definition record_url_max :: nat where "record_url_max = 800"

record reconcile_input =
  ri_issue :: js
  ri_obligation :: js
  ri_url :: js

text \<open>\<open>inputError\<close>, and the issue, obligation and comment a valid input names.\<close>

definition inputError :: "reconcile_input \<Rightarrow> string + nat \<times> string \<times> comment_url" where
  "inputError x =
     (case ri_issue x of
        JInt i \<Rightarrow>
          if i \<le> 0 then Inl ''issue_number must be a positive integer''
          else (case ri_obligation x of
                  JStr oid \<Rightarrow>
                    if \<not> obligation_id_ok oid then Inl ''obligation_id must match the execution-obligation id rules''
                    else (case ri_url x of
                            JStr url \<Rightarrow>
                              if unit_length url > record_url_max
                              then Inl ''findings_record_url must be a GitHub issue-comment URL''
                              else (case parseIssueCommentUrl url of
                                      None \<Rightarrow> Inl ''findings_record_url must be a GitHub issue-comment URL''
                                    | Some ref \<Rightarrow> Inr (nat i, oid, ref))
                          | _ \<Rightarrow> Inl ''findings_record_url must be a GitHub issue-comment URL'')
                | _ \<Rightarrow> Inl ''obligation_id must match the execution-obligation id rules'')
      | _ \<Rightarrow> Inl ''issue_number must be a positive integer'')"

definition sameRepository :: "comment_url \<Rightarrow> string \<Rightarrow> string \<Rightarrow> nat \<Rightarrow> bool" where
  "sameRepository u owner name n \<longleftrightarrow> lower (cu_owner u) = lower owner \<and> lower (cu_name u) = lower name \<and> cu_issue u = n"

definition show_id :: "int option \<Rightarrow> string" where
  "show_id i = (case i of Some k \<Rightarrow> show_int k | None \<Rightarrow> ''null'')"

definition commentUrl :: "string \<Rightarrow> string \<Rightarrow> nat \<Rightarrow> int option \<Rightarrow> string" where
  "commentUrl owner name n i =
     ''https://github.com/'' @ owner @ ''/'' @ name @ ''/issues/'' @ show_nat n @ issuecomment_tag @ show_id i"

section \<open>Results\<close>

record declined =
  dc_error :: string
  dc_message :: string
  dc_reason :: "string option"
  dc_next_action :: "string option"
  dc_comment_url :: "string option"

record reconciled =
  rc_obligation :: string
  rc_station :: "string option"
  rc_cycle :: "nat option"
  rc_record_url :: string
  rc_marker_url :: string
  rc_comment_url :: string

datatype reconcile_result = Declined declined | Unreadable read_error | AlreadyRecorded string | Reconciled reconciled

definition declines :: "string \<Rightarrow> string \<Rightarrow> string option \<Rightarrow> string option \<Rightarrow> string option \<Rightarrow> reconcile_result" where
  "declines error message reason action url = Declined
     \<lparr>dc_error = ''station_observation_reconcile_'' @ error, dc_message = message, dc_reason = reason,
      dc_next_action = action, dc_comment_url = url\<rparr>"

section \<open>Reading the thread\<close>

record thread_read =
  tr_comments :: "comment list"
  tr_login :: "string option"
  tr_state :: "read_error + obl_report"

text \<open>\<open>None\<close> when the read throws; only the comments can.\<close>

definition readThread :: "nat \<Rightarrow> thread_read option station_calls" where
  "readThread n = Ask (ReadComments n) (\<lambda>a. case a of
     Comments cs \<Rightarrow> Ask ReadLogin (\<lambda>b. case b of
         LoginIs me \<Rightarrow> Ask (ReadTrust cs n) (\<lambda>c. case c of
             TrustIs perm me' \<Rightarrow> Return (Some \<lparr>tr_comments = cs, tr_login = me,
                 tr_state = readTrustedExecutionObligationState perm me' cs n\<rparr>)
           | _ \<Rightarrow> Return None)
       | _ \<Rightarrow> Return None)
   | _ \<Rightarrow> Return None)"

definition thread_unavailable :: reconcile_result where
  "thread_unavailable = declines ''thread_unavailable'' ''could not read the issue thread or the MCP identity'' None
     (Some ''retry_after_resolving_gh_failure'') None"

section \<open>Selecting the obligation\<close>

definition openedIdentity :: "comment list \<Rightarrow> nat \<Rightarrow> string \<Rightarrow> obl_event option" where
  "openedIdentity cs n oid = last_option (filter (\<lambda>e. obligation_id e = oid \<and> obl_action e = Opened)
     (concat (map (\<lambda>c. parseExecutionObligationV2Markers (c_body c) n) cs)))"

definition alreadyRecorded :: "thread_read \<Rightarrow> nat \<Rightarrow> string \<Rightarrow> nat \<Rightarrow> bool" where
  "alreadyRecorded t n oid r =
     (case openedIdentity (tr_comments t) n oid of
        None \<Rightarrow> False
      | Some e \<Rightarrow> hasTrustedReobservation (tr_comments t) n oid (station e) (cycle e) r (tr_login t))"

definition isReconcilableStationObservation :: "string \<times> obl_state \<Rightarrow> bool" where
  "isReconcilableStationObservation ob \<longleftrightarrow>
     (case ob of (oid, st) \<Rightarrow>
        st_kind st = Some StationObservation \<and> st_schema_version st = 2
        \<and> (case (st_station st, st_cycle st) of
             (Some s, Some cy) \<Rightarrow> oid = buildStationObservationObligationId s cy
           | _ \<Rightarrow> False))"

text \<open>The obligation, or what the call is done with.\<close>

definition selectObligation ::
  "thread_read \<Rightarrow> obl_report \<Rightarrow> nat \<Rightarrow> string \<Rightarrow> nat \<Rightarrow> reconcile_result + (string \<times> obl_state)" where
  "selectObligation t report n oid r =
     (case find (\<lambda>(i, _). i = oid) (open_obligations report) of
        None \<Rightarrow>
          if alreadyRecorded t n oid r then Inl (AlreadyRecorded oid)
          else Inl (declines ''not_open'' (''Execution obligation '' @ [CHR 0x27] @ oid @ [CHR 0x27] @ '' is not open'') None None None)
      | Some ob \<Rightarrow>
          if \<not> isReconcilableStationObservation ob
          then Inl (declines ''not_station_observation''
            ([CHR 0x27] @ oid @ [CHR 0x27]
             @ '' is not a station-observation obligation; resolve it with gc_record_execution_obligation'') None None None)
          else Inr ob)"

section \<open>Under the lease\<close>

definition unproven_message :: "string \<times> obl_state \<Rightarrow> string \<Rightarrow> string" where
  "unproven_message ob reason =
     ''the referenced comment does not prove a ''
     @ (case st_station (snd ob) of Some s \<Rightarrow> s | None \<Rightarrow> ''null'') @ '' verdict for logical cycle ''
     @ (case st_cycle (snd ob) of Some k \<Rightarrow> show_nat k | None \<Rightarrow> ''null'')
     @ '' after '' @ [CHR 0x27] @ fst ob @ [CHR 0x27] @ '' opened ('' @ reason @ '')''"

text \<open>The observation named in the record: an open one has a station and a cycle.\<close>

definition observation_of :: "string \<times> obl_state \<Rightarrow> observation" where
  "observation_of ob = \<lparr>ob_id = fst ob, ob_station = the (st_station (snd ob)), ob_cycle = the (st_cycle (snd ob))\<rparr>"

text \<open>Replay decides, not the answer to the post: the ledger is read again.\<close>

definition confirm_closed ::
  "nat \<Rightarrow> string \<Rightarrow> string \<Rightarrow> reconciled \<Rightarrow> reconcile_result station_calls" where
  "confirm_closed n oid url res = await (readThread n) (\<lambda>after.
     let closed = (case after of
           None \<Rightarrow> False
         | Some t \<Rightarrow> (case tr_state t of Inl _ \<Rightarrow> False | Inr report \<Rightarrow> oid \<notin> set (open_obligation_ids report)))
     in Return (if closed then Reconciled res
                else declines ''unverified_after_post''
                  (''the resolution for '' @ [CHR 0x27] @ oid @ [CHR 0x27]
                   @ '' was posted but the trusted ledger does not show it closed'')
                  None (Some ''retry_to_confirm_resolution'') (Some url)))"

definition post_resolution ::
  "(string \<Rightarrow> string option) \<Rightarrow> string \<Rightarrow> string \<Rightarrow> nat \<Rightarrow> string \<times> obl_state \<Rightarrow> comment \<Rightarrow> comment
     \<Rightarrow> reconcile_result station_calls" where
  "post_resolution sens owner name n ob rec mk =
     (let url = commentUrl owner name n (c_id rec)
      in await (postStationReobservation sens n url (observation_of ob) ''reconciliation'') (\<lambda>posted.
           case posted of
             Inl _ \<Rightarrow> Return (declines ''post_failed''
               ''the reobserved resolution could not be posted to the issue thread'' None
               (Some ''retry_after_resolving_gh_failure'') None)
           | Inr posted_url \<Rightarrow> confirm_closed n (fst ob) posted_url
               \<lparr>rc_obligation = fst ob, rc_station = st_station (snd ob), rc_cycle = st_cycle (snd ob),
                rc_record_url = url, rc_marker_url = commentUrl owner name n (c_id mk),
                rc_comment_url = posted_url\<rparr>))"

definition reconcile_state ::
  "(string \<Rightarrow> string option) \<Rightarrow> string \<Rightarrow> string \<Rightarrow> nat \<Rightarrow> string \<Rightarrow> nat \<Rightarrow> thread_read \<Rightarrow> obl_report
     \<Rightarrow> reconcile_result station_calls" where
  "reconcile_state sens owner name n oid r t report =
     (case selectObligation t report n oid r of
        Inl res \<Rightarrow> Return res
      | Inr ob \<Rightarrow>
          (case findStationObservationEvidence (tr_comments t) n ob (tr_login t) (Some r) of
             EvidenceThrows \<Rightarrow> Throw
           | Unproven reason \<Rightarrow>
               Return (declines ''evidence_unverified'' (unproven_message ob reason) (Some reason) None None)
           | Found rec mk \<Rightarrow> post_resolution sens owner name n ob rec mk))"

definition reconcileUnderLease ::
  "(string \<Rightarrow> string option) \<Rightarrow> string \<Rightarrow> string \<Rightarrow> nat \<Rightarrow> string \<Rightarrow> nat \<Rightarrow> reconcile_result station_calls" where
  "reconcileUnderLease sens owner name n oid r = await (readThread n) (\<lambda>thread.
     case thread of
       None \<Rightarrow> Return thread_unavailable
     | Some t \<Rightarrow>
         (case tr_state t of
            Inl e \<Rightarrow> Return (Unreadable e)
          | Inr report \<Rightarrow> reconcile_state sens owner name n oid r t report))"

text \<open>\<open>try { ... } finally { await release(); }\<close>, where the release may itself throw.\<close>

definition releasing :: "nat \<Rightarrow> string \<Rightarrow> 'r station_calls \<Rightarrow> 'r station_calls" where
  "releasing n oid p =
     await (catching (await p (\<lambda>x. Return (Some x))) (Return None)) (\<lambda>x.
       Ask (DropLease n oid) (\<lambda>a. case a of
         Done \<Rightarrow> (case x of Some y \<Rightarrow> Return y | None \<Rightarrow> Throw)
       | _ \<Rightarrow> Throw))"

text \<open>The repository is the owner and name it was authorized for, or the error and message of the refusal.\<close>

definition runReconcileStationObservation ::
  "(string \<Rightarrow> string option) \<Rightarrow> (string \<times> string) + (string \<times> string) \<Rightarrow> reconcile_input \<Rightarrow> reconcile_result station_calls" where
  "runReconcileStationObservation sens repository x =
     (case inputError x of
        Inl m \<Rightarrow> Return (declines ''input_invalid'' m None None None)
      | Inr (n, oid, ref) \<Rightarrow>
          (case repository of
                Inl (error, message) \<Rightarrow> Return (declines ''repo_not_authorized''
                  (message @ '' ('' @ error @ ''). ''
                   @ ''This tool acts on GitHub with the MCP host'' @ [CHR 0x27] @ ''s credentials, so it acts only on the ''
                   @ ''workspace this server was launched in.'')
                  None (Some ''run_from_the_mcp_launch_workspace_and_retry'') None)
              | Inr (owner, name) \<Rightarrow>
                  if \<not> sameRepository ref owner name n
                  then Return (declines ''evidence_unverified''
                    (''findings_record_url must reference a comment on this repository'' @ [CHR 0x27] @ ''s issue'')
                    (Some ''record_outside_issue'') None None)
                  else Ask (TakeLease n oid) (\<lambda>a. case a of
                    LeaseTaken \<Rightarrow> releasing n oid (reconcileUnderLease sens owner name n oid (cu_comment ref))
                  | LeaseContended \<Rightarrow> Return (declines ''lock_contended''
                      (''another reconciliation of '' @ [CHR 0x27] @ oid @ [CHR 0x27] @ '' is in progress'')
                      None (Some ''retry_after_the_in_flight_reconciliation_completes'') None)
                  | _ \<Rightarrow> Return (declines ''lock_unavailable'' ''the reconciliation lease could not be acquired''
                      None (Some ''retry_after_the_in_flight_reconciliation_completes'') None))))"

section \<open>What completion shows\<close>

record recoverable =
  rv_obligation :: string
  rv_station :: "string option"
  rv_cycle :: "nat option"
  rv_url :: string

text \<open>The candidates with evidence; \<open>None\<close> where the search throws.\<close>

definition proven :: "string \<Rightarrow> string \<Rightarrow> nat \<Rightarrow> comment list \<Rightarrow> string option \<Rightarrow> string \<times> obl_state \<Rightarrow> recoverable list option" where
  "proven owner name n cs me ob =
     (case findStationObservationEvidence cs n ob me None of
        Found rec mk \<Rightarrow> Some [\<lparr>rv_obligation = fst ob, rv_station = st_station (snd ob), rv_cycle = st_cycle (snd ob),
          rv_url = commentUrl owner name n (c_id rec)\<rparr>]
      | Unproven _ \<Rightarrow> Some []
      | EvidenceThrows \<Rightarrow> None)"

fun flat_map :: "('a \<Rightarrow> 'b list option) \<Rightarrow> 'a list \<Rightarrow> 'b list option" where
  "flat_map f [] = Some []"
| "flat_map f (x # xs) =
     (case f x of None \<Rightarrow> None | Some ys \<Rightarrow> map_option (\<lambda>zs. ys @ zs) (flat_map f xs))"

definition findRecoverableStationObservations ::
  "string \<Rightarrow> string \<Rightarrow> nat \<Rightarrow> (string \<times> obl_state) list \<Rightarrow> recoverable list station_calls" where
  "findRecoverableStationObservations owner name n obs =
     (let candidates = filter isReconcilableStationObservation obs
      in if candidates = [] then Return []
         else Ask (ReadComments n) (\<lambda>a. case a of
           Comments cs \<Rightarrow> Ask ReadLogin (\<lambda>b. case b of
             LoginIs me \<Rightarrow> Return (case flat_map (proven owner name n cs me) candidates of Some rs \<Rightarrow> rs | None \<Rightarrow> [])
           | _ \<Rightarrow> Return [])
         | _ \<Rightarrow> Return []))"

end
