(* ===== verification/StationRecovery.thy ===== *)
theory StationRecovery
  imports StationReconcile
begin

section \<open>What closes an observation\<close>

text \<open>Events as the scan returns them.\<close>

lemma find_all_matched: "e \<in> set (find_all m s) \<Longrightarrow> \<exists>u r. m u = Some (e, r)"
proof (induction m s rule: find_all.induct)
  case (2 m c cs)
  show ?case
  proof (cases "m (c # cs)")
    case None
    then show ?thesis using 2 by auto
  next
    case (Some p)
    then obtain a r where p: "m (c # cs) = Some (a, r)" by (cases p) auto
    show ?thesis
    proof (cases "length r \<le> length cs")
      case True
      then have "e = a \<or> e \<in> set (find_all m r)" using 2(4) p by auto
      then show ?thesis
      proof
        assume "e \<in> set (find_all m r)"
        then show ?thesis using 2(2) [OF p refl True] by blast
      qed (use p in blast)
    next
      case False
      then show ?thesis using 2(3) [OF p refl False] 2(4) p by auto
    qed
  qed
qed simp

lemma v1_schema: "e \<in> set (find_all v1_marker s) \<Longrightarrow> schema_version e = 1"
  by (drule find_all_matched)
    (auto simp: v1_marker_def bind_eq_Some_conv Let_def case_prod_beta)

lemma v2_schema: "e \<in> set (find_all v2_marker s) \<Longrightarrow> schema_version e = 2"
  by (drule find_all_matched)
    (auto simp: v2_marker_def bind_eq_Some_conv Let_def case_prod_beta)

definition opening_of :: "string \<Rightarrow> obl_event \<Rightarrow> bool" where
  "opening_of oid e \<longleftrightarrow> obligation_id e = oid \<and> obl_action e = Opened"

lemma last_option_snoc [simp]: "last_option (xs @ [x]) = Some x"
  by (simp add: last_option_def)

lemma last_opening_option: "map_option fst (last_opening oid es) = last_option (filter (opening_of oid) es)"
proof (induction es rule: rev_induct)
  case Nil
  then show ?case by (simp add: last_opening_def last_option_def)
next
  case (snoc e es)
  then show ?case
    by (cases "last_opening oid es") (auto simp: last_opening_snoc opening_of_def)
qed

lemma filter_concat_map: "filter P (concat (map f xs)) = concat (map (\<lambda>x. filter P (f x)) xs)"
  by (induction xs) simp_all

lemma openings_admitted:
  "filter (opening_of oid) (concat (map (\<lambda>c. filter (admissible cs me c) (parseExecutionObligationMarkers [c_body c] n)) ds))
     = concat (map (\<lambda>c. filter (opening_of oid) (parseExecutionObligationMarkers [c_body c] n)) ds)"
  unfolding filter_concat_map
  by (intro arg_cong [where f = concat] map_cong refl)
    (auto simp: opening_of_def admissible_def is_reobservation_def intro!: filter_cong)

lemma open_last_opening:
  assumes "(oid, st) \<in> set (open_obligations (evaluateExecutionObligations es))"
  obtains o_ev where "last_option (filter (opening_of oid) es) = Some o_ev" "st = opened_state o_ev"
proof -
  have "(oid, st) \<in> set (replay_events es)" "st_status st = StOpen"
    using assms by (auto simp: evaluateExecutionObligations_def Let_def)
  then have "jm_get (replay_events es) oid = Some st" "st_status st = StOpen"
    using jm.entries_get [OF replay_wf, of oid st es] by simp_all
  then obtain o_ev post where "last_opening oid es = Some (o_ev, post)" "st = opened_state o_ev"
    unfolding replay_refines spec_state_def by (auto split: option.splits)
  then show thesis using last_opening_option [of oid es] by (intro that) auto
qed

text \<open>A terminating event at the end closes what was opened last.\<close>

lemma closed_at_end:
  assumes "last_option (filter (opening_of oid) es) = Some o_ev" and "terminates o_ev e"
  shows "oid \<notin> set (open_obligation_ids (evaluateExecutionObligations (es @ [e])))"
proof
  assume "oid \<in> set (open_obligation_ids (evaluateExecutionObligations (es @ [e])))"
  then obtain o' post where o': "last_opening oid (es @ [e]) = Some (o', post)" "find (terminates o') post = None"
    by (auto simp: unterminated)
  have e: "obl_action e = Resolved" using assms(2) by simp
  obtain p' where p: "last_opening oid es = Some (o_ev, p')"
    using last_opening_option [of oid es] assms(1) by (cases "last_opening oid es") auto
  then have "o' = o_ev" "post = p' @ [e]" using o'(1) e by (auto simp: last_opening_snoc)
  then show False using o'(2) assms(2) by (auto simp: find_None_iff)
qed

lemma attested_extend:
  "hasVerifiedStationReobservation e c cs me \<Longrightarrow> hasVerifiedStationReobservation e c (cs @ ds) me"
  by (auto simp: hasVerifiedStationReobservation_def find_append split: option.splits if_splits)

lemma admissible_extend: "admissible cs me c e \<Longrightarrow> admissible (cs @ ds) me c e"
  by (auto simp: admissible_def attested_extend)

text \<open>
  A successful read stays successful when the server appends a re-observation that is attested, and its events are
  those of before, perhaps with more re-observations among them, and the new one.
\<close>

lemma read_extended:
  assumes "readTrustedExecutionObligationState perm me cs n = Inr report"
    and "parseExecutionObligationMarkers [c_body p] n = [e]" and "write_author perm p"
    and "is_reobservation e" and "admissible (cs @ [p]) me p e"
  obtains es where "readTrustedExecutionObligationState perm me (cs @ [p]) n = Inr (evaluateExecutionObligations (es @ [e]))"
    "filter (opening_of oid) es = filter (opening_of oid) (ledger me cs n)"
proof
  let ?es = "concat (map (\<lambda>c. filter (admissible (cs @ [p]) me c) (parseExecutionObligationMarkers [c_body c] n)) cs)"
  note ok = assms(1) [unfolded read_ok_iff]
  have l: "ledger me (cs @ [p]) n = ?es @ [e]" using assms(2,5) by (simp add: ledger_def)
  have w: "wontfix_authorized (cs @ [p]) (resolveExecutionObligationTrust perm (cs @ [p])) n x"
    if x: "x \<in> set (?es @ [e])" for x
  proof (cases "is_reobservation x")
    case True
    then show ?thesis by (auto simp: is_reobservation_def wontfix_authorized_def)
  next
    case False
    then have "x \<in> set ?es" using x assms(4) by auto
    then have "x \<in> set (ledger me cs n)" using False by (auto simp: in_ledger admissible_def)
    then show ?thesis using ok wontfix_authorized_extend by blast
  qed
  show "readTrustedExecutionObligationState perm me (cs @ [p]) n = Inr (evaluateExecutionObligations (?es @ [e]))"
    unfolding read_ok_iff l using ok assms(3) w by auto
  show "filter (opening_of oid) ?es = filter (opening_of oid) (ledger me cs n)"
    unfolding ledger_def openings_admitted ..
qed

lemma found_parts:
  assumes "findStationObservationEvidence cs n (oid, st) me rid = Found rec mk"
  shows "rec \<in> set cs" "\<exists>login. me = Some login \<and> trim login \<noteq> [] \<and> author_login rec = Some (lower login)"
    "st_station st = Some ''codex_review''" "st_cycle st \<noteq> None" "rid = Some r \<Longrightarrow> c_id rec = Some (int r)"
  using assms by (rule verdict_bound; simp)+

lemma reobservation_attested:
  assumes "findStationObservationEvidence cs n (oid, st) me (Some r) = Found rec mk"
    and "distinct (map c_id cs)" and "author_login p = map_option lower me" and "c_id p \<noteq> Some (int r)"
    and "observation_record_id e = Some r"
  shows "hasVerifiedStationReobservation e p (cs @ [p]) me"
proof -
  note f = found_parts [OF assms(1)]
  have id: "c_id rec = Some (int r)" using f(5) by simp
  have "find (\<lambda>c. c_id c = Some (int r)) cs = Some rec"
    using f(1) id assms(2)
  proof (induction cs)
    case (Cons c cs)
    then show ?case by (cases "c = rec") (auto simp: image_iff)
  qed simp
  then show ?thesis
    using f(2) assms(3-5) by (auto simp: hasVerifiedStationReobservation_def find_append)
qed

text \<open>The event of a re-observation terminates the opening it was found for.\<close>

lemma reobserved_terminates:
  assumes "isReconcilableStationObservation (oid, opened_state o_ev)" and "obligation_id o_ev = oid"
  shows "terminates o_ev (reobserved_event n (observation_of (oid, opened_state o_ev)) r)"
  using assms
  by (auto simp: isReconcilableStationObservation_def opened_state_def reobserved_event_def observation_of_def
      isTerminalObligationResolution_def canReobservationClose_def split: option.splits)

lemma reobservation_closes:
  assumes "readTrustedExecutionObligationState perm me cs n = Inr report"
    and "(oid, st) \<in> set (open_obligations report)" and "isReconcilableStationObservation (oid, st)"
    and "findStationObservationEvidence cs n (oid, st) me (Some r) = Found rec mk"
    and "distinct (map c_id cs)" and "c_id p \<noteq> Some (int r)" and "author_login p = map_option lower me"
    and "write_author perm p"
    and "parseExecutionObligationMarkers [c_body p] n = [reobserved_event n (observation_of (oid, st)) r]"
  shows "\<exists>after. readTrustedExecutionObligationState perm me (cs @ [p]) n = Inr after \<and> oid \<notin> set (open_obligation_ids after)"
proof -
  let ?e = "reobserved_event n (observation_of (oid, st)) r"
  have e: "is_reobservation ?e" "observation_record_id ?e = Some r" by (simp_all add: is_reobservation_def reobserved_event_def)
  have "hasVerifiedStationReobservation ?e p (cs @ [p]) me"
    using assms(4-7) e(2) by (intro reobservation_attested) auto
  then have adm: "admissible (cs @ [p]) me p ?e" by (simp add: admissible_def)
  obtain es where es: "readTrustedExecutionObligationState perm me (cs @ [p]) n = Inr (evaluateExecutionObligations (es @ [?e]))"
    "filter (opening_of oid) es = filter (opening_of oid) (ledger me cs n)"
    using assms(1,9,8) e(1) adm by (rule read_extended)
  have "report = evaluateExecutionObligations (ledger me cs n)" using assms(1) by (simp add: read_ok_iff)
  then obtain o_ev where o_ev: "last_option (filter (opening_of oid) (ledger me cs n)) = Some o_ev" "st = opened_state o_ev"
    using assms(2) by (auto elim: open_last_opening)
  have "o_ev \<in> set (filter (opening_of oid) (ledger me cs n))"
    using o_ev(1) last_in_set by (auto simp only: last_option_def option.inject option.distinct split: if_splits)
  then have "obligation_id o_ev = oid" by (simp add: opening_of_def)
  then have "terminates o_ev ?e" using assms(3) o_ev(2) reobserved_terminates by simp
  then have "oid \<notin> set (open_obligation_ids (evaluateExecutionObligations (es @ [?e])))"
    using o_ev(1) [folded es(2)] by (intro closed_at_end)
  then show ?thesis using es(1) by blast
qed

text \<open>And a repeat of the call finds the re-observation recorded.\<close>

lemma last_option_filter: "last_option xs = Some x \<Longrightarrow> P x \<Longrightarrow> last_option (filter P xs) = Some x"
  by (cases xs rule: rev_cases) (auto simp: last_option_def)

lemma identity_of_ledger:
  assumes "last_option (filter (opening_of oid) (ledger me cs n)) = Some o_ev" and "schema_version o_ev = 2"
  shows "openedIdentity cs n oid = Some o_ev"
proof -
  let ?all = "concat (map (\<lambda>c. parseExecutionObligationMarkers [c_body c] n) cs)"
  have one: "filter (\<lambda>e. schema_version e = 2) (parseExecutionObligationMarkers [b] n) = parseExecutionObligationV2Markers b n" for b
  proof -
    have "filter (\<lambda>e. schema_version e = 2) (filter (\<lambda>e. issue_number e = n) (find_all v1_marker b)) = []"
      using v1_schema by (force simp: filter_empty_conv)
    moreover have "filter (\<lambda>e. schema_version e = 2) (filter (\<lambda>e. issue_number e = n) (find_all v2_marker b))
        = filter (\<lambda>e. issue_number e = n) (find_all v2_marker b)"
      by (rule filter_True) (auto dest: v2_schema)
    ultimately show ?thesis by (simp add: parse_one parseExecutionObligationV2Markers_def)
  qed
  have v2: "filter (\<lambda>e. schema_version e = 2) ?all = concat (map (\<lambda>c. parseExecutionObligationV2Markers (c_body c) n) cs)"
    unfolding filter_concat_map one ..
  have "last_option (filter (opening_of oid) ?all) = Some o_ev"
    using assms(1) unfolding ledger_def openings_admitted by (simp only: filter_concat_map)
  then have "last_option (filter (\<lambda>e. schema_version e = 2) (filter (opening_of oid) ?all)) = Some o_ev"
    using assms(2) by (rule last_option_filter)
  moreover have "filter (\<lambda>e. schema_version e = 2) (filter (opening_of oid) ?all)
      = filter (opening_of oid) (filter (\<lambda>e. schema_version e = 2) ?all)"
    by (simp add: conj_commute)
  ultimately show ?thesis
    unfolding openedIdentity_def v2 [symmetric] opening_of_def by simp
qed

lemma identity_append:
  assumes "filter (opening_of oid) (parseExecutionObligationV2Markers (c_body p) n) = []"
  shows "openedIdentity (cs @ [p]) n oid = openedIdentity cs n oid"
proof -
  have "opening_of oid = (\<lambda>e. obligation_id e = oid \<and> obl_action e = Opened)" by (auto simp: opening_of_def)
  then show ?thesis using assms by (simp add: openedIdentity_def)
qed

lemma recorded_again:
  assumes "readTrustedExecutionObligationState perm me cs n = Inr report"
    and "(oid, st) \<in> set (open_obligations report)" and "isReconcilableStationObservation (oid, st)"
    and "findStationObservationEvidence cs n (oid, st) me' (Some r) = Found rec mk"
    and "author_login p = map_option lower me'"
    and "parseExecutionObligationV2Markers (c_body p) n = [reobserved_event n (observation_of (oid, st)) r]"
    and "tr_comments t = cs @ [p]" and "tr_login t = me'"
  shows "alreadyRecorded t n oid r"
proof -
  let ?e = "reobserved_event n (observation_of (oid, st)) r"
  have "report = evaluateExecutionObligations (ledger me cs n)" using assms(1) by (simp add: read_ok_iff)
  then obtain o_ev where o_ev: "last_option (filter (opening_of oid) (ledger me cs n)) = Some o_ev" "st = opened_state o_ev"
    using assms(2) by (auto elim: open_last_opening)
  have "st_schema_version st = 2" using assms(3) by (simp add: isReconcilableStationObservation_def)
  then have "schema_version o_ev = 2" using o_ev(2) by (simp add: opened_state_def)
  then have "openedIdentity cs n oid = Some o_ev" using o_ev(1) by (intro identity_of_ledger)
  moreover have "filter (opening_of oid) [?e] = []" by (simp add: opening_of_def reobserved_event_def)
  ultimately have i: "openedIdentity (cs @ [p]) n oid = Some o_ev"
    using identity_append [of oid p n cs] assms(6) by simp
  obtain s cy where st: "st_station st = Some s" "st_cycle st = Some cy"
    using assms(3) by (auto simp: isReconcilableStationObservation_def split: option.splits)
  have io: "station o_ev = Some s" "cycle o_ev = Some cy" using st o_ev(2) by (simp_all add: opened_state_def)
  obtain login where login: "me' = Some login" "trim login \<noteq> []" using found_parts(2) [OF assms(4)] by blast
  have "isTrustedAuthor p (lower login)" using assms(5) login by (simp add: isTrustedAuthor_def)
  moreover have "eventsOf p n oid = [?e]" using assms(6) by (simp add: eventsOf_def reobserved_event_def observation_of_def)
  ultimately have "hasTrustedReobservation (cs @ [p]) n oid (Some s) (Some cy) r me'"
    using login st by (simp add: hasTrustedReobservation_def blank_login_def reobserved_event_def observation_of_def)
  then show ?thesis using assms(7,8) i io by (simp add: alreadyRecorded_def)
qed

section \<open>The thread under many calls\<close>

text \<open>
  GitHub and the leases, as the calls and everybody else see them. \<open>hub_written\<close> names the comments the calls wrote, by
  issue and position. Threads only grow, the server has one login, and a request may fail, a post after its effect too.
\<close>

record hub =
  hub_threads :: "nat \<Rightarrow> comment list"
  hub_leases :: "(nat \<times> string) set"
  hub_login :: string
  hub_written :: "(nat \<times> nat) list"

definition posts :: "nat \<Rightarrow> comment \<Rightarrow> hub \<Rightarrow> hub" where
  "posts n c w = w\<lparr>hub_threads := (hub_threads w)(n := hub_threads w n @ [c]),
                  hub_written := hub_written w @ [(n, length (hub_threads w n))]\<rparr>"

inductive hub_serve :: "hub \<Rightarrow> station_request \<Rightarrow> station_answer \<Rightarrow> hub \<Rightarrow> bool" where
  hub_comments: "hub_serve w (ReadComments n) (Comments (hub_threads w n)) w"
| hub_me: "me = None \<or> me = Some (hub_login w) \<Longrightarrow> hub_serve w ReadLogin (LoginIs me) w"
| hub_trust: "me = None \<or> me = Some (hub_login w) \<Longrightarrow> hub_serve w (ReadTrust cs n) (TrustIs perm me) w"
| hub_posts: "c_body c = body \<Longrightarrow> c_author c = Some (hub_login w) \<Longrightarrow> c_id c \<notin> c_id ` set (hub_threads w n)
    \<Longrightarrow> a = PostedAt url \<or> a = Failed m \<Longrightarrow> hub_serve w (PostComment n body) a (posts n c w)"
| hub_lease: "(n, oid) \<notin> hub_leases w \<Longrightarrow>
    hub_serve w (TakeLease n oid) LeaseTaken (w\<lparr>hub_leases := insert (n, oid) (hub_leases w)\<rparr>)"
| hub_contended: "(n, oid) \<in> hub_leases w \<Longrightarrow> hub_serve w (TakeLease n oid) LeaseContended w"
| hub_release: "hub_serve w (DropLease n oid) Done (w\<lparr>hub_leases := hub_leases w - {(n, oid)}\<rparr>)"
| hub_fails: "hub_serve w q (Failed m) w"

inductive_cases hub_commentsE: "hub_serve w (ReadComments n) a v"
inductive_cases hub_meE: "hub_serve w ReadLogin a v"
inductive_cases hub_trustE: "hub_serve w (ReadTrust cs n) a v"
inductive_cases hub_postsE: "hub_serve w (PostComment n body) a v"
inductive_cases hub_leaseE: "hub_serve w (TakeLease n oid) a v"
inductive_cases hub_releaseE: "hub_serve w (DropLease n oid) a v"

definition hub_later :: "hub \<Rightarrow> hub \<Rightarrow> bool" where
  "hub_later w v \<longleftrightarrow> (\<forall>n. \<exists>ds. hub_threads v n = hub_threads w n @ ds) \<and> hub_login v = hub_login w
     \<and> (\<exists>xs. hub_written v = hub_written w @ xs)"

text \<open>What everybody else does: threads grow, leases come and go.\<close>

definition hub_others :: "hub \<Rightarrow> hub \<Rightarrow> bool" where
  "hub_others w v \<longleftrightarrow> hub_later w v \<and> hub_written v = hub_written w"

text \<open>A comment that resolves an observation whose verdict the thread had proved before it.\<close>

definition backed :: "nat \<Rightarrow> comment list \<Rightarrow> comment \<Rightarrow> bool" where
  "backed n cs c \<longleftrightarrow> (\<exists>k oid st me r rec mk url action. isReconcilableStationObservation (oid, st)
     \<and> findStationObservationEvidence (take k cs) n (oid, st) me (Some r) = Found rec mk
     \<and> author_login c = map_option lower me
     \<and> c_body c = reobserved_body n (observation_of (oid, st)) r url action)"

definition hub_good :: "hub \<Rightarrow> bool" where
  "hub_good w \<longleftrightarrow> (\<forall>n i. (n, i) \<in> set (hub_written w) \<longrightarrow> i < length (hub_threads w n)
     \<and> backed n (take i (hub_threads w n)) (hub_threads w n ! i))"

lemma hub_later_refl: "hub_later w w"
  by (simp add: hub_later_def)

lemma hub_later_trans: "hub_later u v \<Longrightarrow> hub_later v w \<Longrightarrow> hub_later u w"
  unfolding hub_later_def by (metis append_assoc)

lemma hub_later_posts: "hub_later w (posts n c w)"
  by (simp add: hub_later_def posts_def)

lemma hub_later_leases: "hub_later w (w\<lparr>hub_leases := ls\<rparr>)"
  by (simp add: hub_later_def)

lemma hub_good_later: "hub_good w \<Longrightarrow> hub_later w v \<Longrightarrow> hub_written v = hub_written w \<Longrightarrow> hub_good v"
proof -
  assume w: "hub_good w" "hub_later w v" "hub_written v = hub_written w"
  show "hub_good v" unfolding hub_good_def w(3)
  proof (intro allI impI)
    fix n i assume i: "(n, i) \<in> set (hub_written w)"
    then have b: "i < length (hub_threads w n)" "backed n (take i (hub_threads w n)) (hub_threads w n ! i)"
      using w(1) by (auto simp: hub_good_def)
    obtain ds where "hub_threads v n = hub_threads w n @ ds" using w(2) by (auto simp: hub_later_def)
    then show "i < length (hub_threads v n) \<and> backed n (take i (hub_threads v n)) (hub_threads v n ! i)"
      using b by (simp add: nth_append)
  qed
qed

lemma hub_good_posts: "hub_good w \<Longrightarrow> backed n (hub_threads w n) c \<Longrightarrow> hub_good (posts n c w)"
  unfolding hub_good_def
proof (intro allI impI)
  fix m i
  assume w: "\<forall>n i. (n, i) \<in> set (hub_written w) \<longrightarrow> i < length (hub_threads w n)
      \<and> backed n (take i (hub_threads w n)) (hub_threads w n ! i)" "backed n (hub_threads w n) c"
    and i: "(m, i) \<in> set (hub_written (posts n c w))"
  then consider "(m, i) \<in> set (hub_written w)" | "m = n" "i = length (hub_threads w n)" by (auto simp: posts_def)
  then show "i < length (hub_threads (posts n c w) m)
      \<and> backed m (take i (hub_threads (posts n c w) m)) (hub_threads (posts n c w) m ! i)"
  proof cases
    case 1
    then have "i < length (hub_threads w m)" "backed m (take i (hub_threads w m)) (hub_threads w m ! i)" using w(1) by blast+
    then show ?thesis by (cases "m = n") (simp_all add: posts_def nth_append)
  qed (use w(2) in \<open>simp add: posts_def\<close>)
qed

lemma hub_good_leases [simp]: "hub_good (w\<lparr>hub_leases := ls\<rparr>) = hub_good w"
  by (simp add: hub_good_def)

interpretation hub: shared_service hub_serve hub_good hub_later hub_others
  by unfold_locales (use hub_later_refl hub_later_trans hub_good_later in \<open>auto simp: hub_others_def\<close>)

lemma backed_extend: "backed n cs c \<Longrightarrow> backed n (cs @ ds) c"
proof -
  assume "backed n cs c"
  then obtain k oid st me r rec mk url action where b: "isReconcilableStationObservation (oid, st)"
     "findStationObservationEvidence (take k cs) n (oid, st) me (Some r) = Found rec mk"
     "author_login c = map_option lower me"
     "c_body c = reobserved_body n (observation_of (oid, st)) r url action" unfolding backed_def by blast
  have "take k cs = take (min k (length cs)) (cs @ ds)" by (simp add: min_def)
  then show ?thesis unfolding backed_def using b by metis
qed

section \<open>What a reconciliation keeps\<close>

definition seen :: "hub \<Rightarrow> nat \<Rightarrow> comment list \<Rightarrow> bool" where
  "seen w n cs \<longleftrightarrow> (\<exists>ds. hub_threads w n = cs @ ds)"

lemma seen_later: "seen w n cs \<Longrightarrow> hub_later w v \<Longrightarrow> seen v n cs"
  unfolding seen_def hub_later_def by (metis append_assoc)

definition thread_seen :: "nat \<Rightarrow> thread_read option option \<Rightarrow> hub \<Rightarrow> bool" where
  "thread_seen n res v \<longleftrightarrow> (\<forall>t. res = Some (Some t) \<longrightarrow> seen v n (tr_comments t)
     \<and> (tr_login t = None \<or> tr_login t = Some (hub_login v))
     \<and> (\<exists>perm me. tr_state t = readTrustedExecutionObligationState perm me (tr_comments t) n
          \<and> (me = None \<or> me = Some (hub_login v))))"

lemma later_login: "hub_later w v \<Longrightarrow> hub_login v = hub_login w"
  by (simp add: hub_later_def)

lemma keeps_refused: "keeps hub_serve hub_good hub_later (\<lambda>res v. thread_seen n res v) (Return None) w"
  by (rule hub.keeps_return) (simp add: thread_seen_def)

lemma readThread_keeps: "keeps hub_serve hub_good hub_later (\<lambda>res v. thread_seen n res v) (readThread n) w"
  unfolding readThread_def
proof (rule hub.keeps_query, goal_cases)
  case (1 v a u)
  then show ?case by (auto elim: hub_commentsE)
next
  case (2 v a)
  show ?case
  proof (cases a)
    case (Comments cs)
    then have cs: "cs = hub_threads v n" using 2(3) by (auto elim: hub_commentsE)
    show ?thesis unfolding Comments station_answer.case
    proof (rule hub.keeps_query, goal_cases)
      case (1 v a u)
      then show ?case by (auto elim: hub_meE)
    next
      case login: (2 v2 b)
      show ?case
      proof (cases b)
        case (LoginIs me)
        then have me: "me = None \<or> me = Some (hub_login v2)" using login(3) by (auto elim: hub_meE)
        show ?thesis unfolding LoginIs station_answer.case
        proof (rule hub.keeps_query, goal_cases)
          case (1 v a u)
          then show ?case by (auto elim: hub_trustE)
        next
          case trust: (2 v3 c)
          show ?case
          proof (cases c)
            case (TrustIs perm me')
            then have me': "me' = None \<or> me' = Some (hub_login v3)" using trust(3) by (auto elim: hub_trustE)
            show ?thesis unfolding TrustIs station_answer.case
            proof (rule hub.keeps_return)
              fix x assume x: "hub_later v3 x"
              have "seen v n cs" using cs by (simp add: seen_def)
              then have "seen x n cs" using login(1) trust(1) x by (blast intro: seen_later)
              moreover have "hub_login x = hub_login v3" "hub_login x = hub_login v2"
                using trust(1) x by (simp_all add: later_login)
              ultimately show "thread_seen n (Some (Some \<lparr>tr_comments = cs, tr_login = me,
                  tr_state = readTrustedExecutionObligationState perm me' cs n\<rparr>)) x"
                using me me' by (auto simp: thread_seen_def)
            qed
          qed (simp_all only: station_answer.case keeps_refused)
        qed
      qed (simp_all only: station_answer.case keeps_refused)
    qed
  qed (simp_all only: station_answer.case keeps_refused)
qed

text \<open>A comment that is backed may be posted; the answer says nothing about the invariant.\<close>

lemma postComment_keeps:
  assumes "\<And>v c. hub_later w v \<Longrightarrow> c_body c = body \<Longrightarrow> c_author c = Some (hub_login v) \<Longrightarrow> backed n (hub_threads v n) c"
  shows "keeps hub_serve hub_good hub_later (\<lambda>res v. True) (postComment sens n body) w"
proof -
  have ask: "keeps hub_serve hub_good hub_later (\<lambda>res v. True) (Ask (PostComment n body) (\<lambda>a. Return (f a))) w" for f :: "station_answer \<Rightarrow> string + string"
  proof (rule hub.keeps_ask, goal_cases)
    case (1 v a u)
    from 1(3) have "u = v \<or> (\<exists>c. c_body c = body \<and> c_author c = Some (hub_login v) \<and> u = posts n c v)"
      by (auto elim: hub_postsE)
    then show ?case
      using 1(1,2) assms hub_good_posts hub_later_posts hub_later_refl by auto
  qed
  show ?thesis unfolding postComment_def by (auto split: option.splits simp: ask simp del: keeps.simps(3))
qed

abbreviation keeps_backed :: "'r station_calls \<Rightarrow> hub \<Rightarrow> bool" where
  "keeps_backed p w \<equiv> keeps hub_serve hub_good hub_later (\<lambda>_ _. True) p w"

lemma confirm_keeps: "hub_good w \<Longrightarrow> keeps_backed (confirm_closed n oid url res) w"
  unfolding confirm_closed_def by (rule hub.keeps_await [OF readThread_keeps]) (simp_all add: Let_def)

text \<open>An open obligation the selection passes on.\<close>

lemma selected:
  "selectObligation t report n oid r = Inr ob \<Longrightarrow>
     ob \<in> set (open_obligations report) \<and> fst ob = oid \<and> isReconcilableStationObservation ob"
  by (auto simp: selectObligation_def split: option.splits if_splits dest!: findSomeD)

lemma select_done:
  "selectObligation t report n oid r = Inl done \<Longrightarrow>
     (done = AlreadyRecorded oid \<and> oid \<notin> set (open_obligation_ids report) \<and> alreadyRecorded t n oid r) \<or> (\<exists>e m a b c. done = declines e m a b c)"
proof (cases "find (\<lambda>(i, _). i = oid) (open_obligations report)")
  case None
  assume d: "selectObligation t report n oid r = Inl done"
  have no: "oid \<notin> set (open_obligation_ids report)"
    using None by (auto simp: find_None_iff open_obligation_ids_def)
  show ?thesis
  proof (cases "alreadyRecorded t n oid r")
    case True
    then show ?thesis using d None no by (simp add: selectObligation_def)
  next
    case False
    then have "done = declines ''not_open'' (''Execution obligation '' @ [CHR 0x27] @ oid @ [CHR 0x27] @ '' is not open'') None None None"
      using d None by (simp add: selectObligation_def)
    then show ?thesis by blast
  qed
next
  case (Some ob)
  assume d: "selectObligation t report n oid r = Inl done"
  then have "done = declines ''not_station_observation'' ([CHR 0x27] @ oid @ [CHR 0x27]
      @ '' is not a station-observation obligation; resolve it with gc_record_execution_obligation'') None None None"
    using Some by (simp add: selectObligation_def split: if_splits)
  then show ?thesis by blast
qed

lemma resolution_keeps:
  assumes "isReconcilableStationObservation ob" and "hub_good w" and "seen w n cs" and "me = None \<or> me = Some (hub_login w)"
    and "findStationObservationEvidence cs n ob me (Some r) = Found rec mk"
  shows "keeps_backed (post_resolution sens owner name n ob rec mk) w"
proof -
  obtain oid st where ob: "ob = (oid, st)" by (cases ob)
  note f = found_parts [OF assms(5) [unfolded ob]]
  obtain login where login: "me = Some login" using f(2) by blast
  let ?url = "commentUrl owner name n (c_id rec)"
  have "c_id rec = Some (int r)" using f(5) by simp
  then have u: "?url = (''https://github.com/'' @ owner @ ''/'' @ name @ ''/issues/'' @ show_nat n) @ issuecomment_tag @ show_nat r"
    by (simp add: commentUrl_def show_id_def show_int_def)
  have id: "commentIdFromUrl ?url = Some r" unfolding u by (rule comment_id_shown)
  obtain action where act: "reobservation_source ''reconciliation'' = Some action" by (simp add: reobservation_source_def)
  have b: "backed n (hub_threads v n) c"
    if v: "hub_later w v" and c: "c_body c = reobserved_body n (observation_of ob) r ?url action" "c_author c = Some (hub_login v)" for v c
  proof -
    obtain ds where "hub_threads v n = cs @ ds" using seen_later [OF assms(3) v] by (auto simp: seen_def)
    then have "take (length cs) (hub_threads v n) = cs" by simp
    moreover have "author_login c = map_option lower me"
      using c(2) assms(4) login later_login [OF v] by (simp add: author_login_def)
    ultimately show ?thesis unfolding backed_def using assms(1,5) c(1) ob by metis
  qed
  have post: "keeps hub_serve hub_good hub_later (\<lambda>res v. True) (postStationReobservation sens n ?url (observation_of ob) ''reconciliation'') w"
    unfolding postStationReobservation_def id act option.case by (rule postComment_keeps) (rule b)
  show ?thesis unfolding post_resolution_def Let_def
  proof (rule hub.keeps_await [OF post assms(2)], goal_cases)
    case (1 posted v)
    show ?case
    proof (cases posted)
      case (Inr posted_url)
      show ?thesis unfolding Inr sum.case using 1(2) by (rule confirm_keeps)
    qed simp
  next
    case (2 v)
    then show ?case by simp
  qed
qed

lemma reconcile_keeps:
  assumes "hub_good w"
  shows "keeps_backed (reconcileUnderLease sens owner name n oid r) w"
  unfolding reconcileUnderLease_def
proof (rule hub.keeps_await [OF readThread_keeps assms], goal_cases)
  case (1 thread v)
  show ?case
  proof (cases thread)
    case (Some t)
    have seen: "seen v n (tr_comments t)" "tr_login t = None \<or> tr_login t = Some (hub_login v)"
      using 1(3) Some unfolding thread_seen_def by blast+
    have post: "keeps_backed (post_resolution sens owner name n ob rec mk) v"
      if "selectObligation t report n oid r = Inr ob"
        "findStationObservationEvidence (tr_comments t) n ob (tr_login t) (Some r) = Found rec mk" for report ob rec mk
      using resolution_keeps [OF _ 1(2) seen that(2)] selected [OF that(1)] by blast
    have state: "keeps_backed (reconcile_state sens owner name n oid r t report) v" for report
    proof (cases "selectObligation t report n oid r")
      case (Inr ob)
      show ?thesis unfolding reconcile_state_def Inr sum.case
        by (cases "findStationObservationEvidence (tr_comments t) n ob (tr_login t) (Some r)")
          (simp_all add: post [OF Inr])
    qed (simp add: reconcile_state_def)
    show ?thesis unfolding Some option.case by (cases "tr_state t") (simp_all add: state)
  qed simp
next
  case (2 v)
  then show ?case by simp
qed

text \<open>A service step that leaves the comments alone.\<close>

lemma releasing_keeps:
  assumes "keeps_backed p w" and "hub_good w"
  shows "keeps_backed (releasing n oid' p) w"
proof -
  have "keeps_backed (await p (\<lambda>x. Return (Some x))) w"
    by (rule hub.keeps_await [OF assms]) simp_all
  then have "keeps_backed (catching (await p (\<lambda>x. Return (Some x))) (Return None)) w"
    by (rule hub.keeps_catching [OF _ assms(2)]) simp_all
  then show ?thesis unfolding releasing_def
  proof (rule hub.keeps_await [OF _ assms(2)], goal_cases)
    case (1 x v)
    show ?case
    proof (rule hub.keeps_ask, goal_cases)
      case drop: (1 v2 a u)
      have "hub_good u" "hub_later v2 u" using drop(2,3) hub_later_leases hub_later_refl by (auto elim!: hub_releaseE)
      then show ?case by (cases a; cases x) simp_all
    qed
  qed simp
qed

lemma run_keeps:
  assumes "hub_good w"
  shows "keeps_backed (runReconcileStationObservation sens repository x) w"
proof (cases "inputError x")
  case (Inl m)
  then show ?thesis by (simp add: runReconcileStationObservation_def)
next
  case (Inr p)
  obtain n oid ref where p: "p = (n, oid, ref)" by (cases p)
  show ?thesis
  proof (cases repository)
    case (Inl em)
    then show ?thesis using Inr p by (cases em) (simp add: runReconcileStationObservation_def)
  next
    case repo: (Inr on)
    obtain owner name where on: "on = (owner, name)" by (cases on)
    have leased: "keeps_backed (releasing n oid (reconcileUnderLease sens owner name n oid (cu_comment ref))) u"
      if u: "hub_good u" for u
      using u by (intro releasing_keeps reconcile_keeps)
    show ?thesis
    proof (cases "sameRepository ref owner name n")
      case False
      then show ?thesis unfolding runReconcileStationObservation_def Inr p repo on by simp
    next
      case True
      show ?thesis unfolding runReconcileStationObservation_def Inr p repo on sum.case prod.case
      proof (simp only: True not_True_eq_False if_False, rule hub.keeps_ask, goal_cases)
        case (1 v a u)
        have u: "hub_good u" "hub_later v u" using 1(2,3) hub_later_leases hub_later_refl by (auto elim!: hub_leaseE)
        show ?case using u leased [OF u(1)] by (cases a) simp_all
      qed
    qed
  qed
qed

lemma recoverable_keeps:
  "keeps hub_serve hub_good hub_later (\<lambda>_ _. True) (findRecoverableStationObservations owner name n obs) w"
proof -
  have "keeps hub_serve hub_good hub_later (\<lambda>_ _. True)
      (Ask (ReadComments n) (\<lambda>a. case a of
           Comments cs \<Rightarrow> Ask ReadLogin (\<lambda>b. case b of LoginIs me \<Rightarrow> Return (f cs me) | _ \<Rightarrow> Return [])
         | _ \<Rightarrow> Return [])) w" for f :: "comment list \<Rightarrow> string option \<Rightarrow> recoverable list"
  proof (rule hub.keeps_query, goal_cases)
    case (1 v a u)
    then show ?case by (auto elim: hub_commentsE)
  next
    case (2 v a)
    have "keeps hub_serve hub_good hub_later (\<lambda>_ _. True)
        (Ask ReadLogin (\<lambda>b. case b of LoginIs me \<Rightarrow> Return (f cs me) | _ \<Rightarrow> Return [])) v" for cs
    proof (rule hub.keeps_query, goal_cases)
      case (1 v a u)
      then show ?case by (auto elim: hub_meE)
    next
      case (2 v b)
      show ?case by (cases b) simp_all
    qed
    then show ?case by (cases a) (simp_all del: keeps.simps(3))
  qed
  then show ?thesis unfolding findRecoverableStationObservations_def Let_def by (cases "filter isReconcilableStationObservation obs = []") simp_all
qed

section \<open>A quiet service\<close>

text \<open>Every request is answered, a new comment gets a new id, and nobody else writes.\<close>

definition next_comment_id :: "comment list \<Rightarrow> int" where
  "next_comment_id cs = 1 + fold (\<lambda>c m. max m (case c_id c of Some i \<Rightarrow> i | None \<Rightarrow> 0)) cs 0"

lemma fold_max_ge: "m \<le> fold (\<lambda>c m. max m (f c)) cs m" for m :: int
proof (induction cs arbitrary: m)
  case (Cons c cs)
  show ?case using Cons [of "max m (f c)"] by simp
qed simp

lemma fold_max_in: "c \<in> set cs \<Longrightarrow> f c \<le> fold (\<lambda>c m. max m (f c)) cs m" for m :: int
proof (induction cs arbitrary: m)
  case (Cons d cs)
  show ?case
  proof (cases "c = d")
    case True
    then show ?thesis using fold_max_ge [of "max m (f d)" f cs] by simp
  qed (use Cons in simp)
qed simp

lemma next_comment_new: "Some (next_comment_id cs) \<notin> c_id ` set cs"
proof
  assume "Some (next_comment_id cs) \<in> c_id ` set cs"
  then obtain c where "c \<in> set cs" "c_id c = Some (next_comment_id cs)" by auto
  then show False using fold_max_in [of c cs "\<lambda>c. case c_id c of Some i \<Rightarrow> i | None \<Rightarrow> 0" 0]
    by (simp add: next_comment_id_def)
qed

definition new_comment :: "hub \<Rightarrow> nat \<Rightarrow> string \<Rightarrow> comment" where
  "new_comment w n body = \<lparr>c_id = Some (next_comment_id (hub_threads w n)), c_body = body, c_author = Some (hub_login w),
     c_association = None, c_author_type = None, c_created_at = None\<rparr>"

fun quiet :: "string \<Rightarrow> string \<Rightarrow> (string \<Rightarrow> string option) \<Rightarrow> station_request \<Rightarrow> hub \<Rightarrow> station_answer \<times> hub" where
  "quiet owner name perm (ReadComments n) w = (Comments (hub_threads w n), w)"
| "quiet owner name perm ReadLogin w = (LoginIs (Some (hub_login w)), w)"
| "quiet owner name perm (ReadTrust cs n) w = (TrustIs perm (Some (hub_login w)), w)"
| "quiet owner name perm (PostComment n body) w =
     (PostedAt (commentUrl owner name n (Some (next_comment_id (hub_threads w n)))), posts n (new_comment w n body) w)"
| "quiet owner name perm (TakeLease n oid) w =
     (if (n, oid) \<in> hub_leases w then (LeaseContended, w)
      else (LeaseTaken, w\<lparr>hub_leases := insert (n, oid) (hub_leases w)\<rparr>))"
| "quiet owner name perm (DropLease n oid) w = (Done, w\<lparr>hub_leases := hub_leases w - {(n, oid)}\<rparr>)"
| "quiet owner name perm q w = (Failed ''not a request of a reconciliation'', w)"

lemma quiet_serves: "hub_serve w q (fst (quiet owner name perm q w)) (snd (quiet owner name perm q w))"
proof (cases q)
  case (PostComment n body)
  have "hub_serve w (PostComment n body) (PostedAt (commentUrl owner name n (Some (next_comment_id (hub_threads w n)))))
      (posts n (new_comment w n body) w)"
    by (rule hub_posts) (simp_all add: new_comment_def next_comment_new)
  then show ?thesis using PostComment by simp
qed (auto intro: hub_serve.intros)

lemma run_readThread:
  "run_calls (quiet owner name perm) (readThread n) w =
     (Some (Some \<lparr>tr_comments = hub_threads w n, tr_login = Some (hub_login w),
        tr_state = readTrustedExecutionObligationState perm (Some (hub_login w)) (hub_threads w n) n\<rparr>), w)"
  by (simp add: readThread_def)

lemma open_distinct: "distinct (open_obligation_ids (evaluateExecutionObligations es))"
proof -
  let ?F = "filter (\<lambda>(_, s). st_status s = StOpen) (replay_events es)"
  have "distinct (map fst ?F)" using replay_wf by (simp add: jm_wf_def distinct_map_filter)
  then have "distinct ?F" "inj_on fst (set ?F)" by (simp_all only: distinct_map)
  then show ?thesis
    unfolding open_obligation_ids_def evaluateExecutionObligations_def Let_def obl_report.simps distinct_map by simp
qed

lemma select_open:
  assumes "(oid, st) \<in> set (open_obligations report)" and "distinct (open_obligation_ids report)"
    and "isReconcilableStationObservation (oid, st)"
  shows "selectObligation t report n oid r = Inr (oid, st)"
proof -
  have "(oid, st) \<in> set xs \<Longrightarrow> distinct (map fst xs) \<Longrightarrow> find (\<lambda>(i, _). i = oid) xs = Some (oid, st)" for xs
    by (induction xs) (auto simp: image_iff)
  then have "find (\<lambda>(i, _). i = oid) (open_obligations report) = Some (oid, st)"
    using assms(1,2) by (simp add: open_obligation_ids_def)
  then show ?thesis using assms(3) by (simp add: selectObligation_def)
qed

lemma run_station_post:
  assumes "sens body = None" and "length body \<le> record_body_max"
  shows "run_calls (quiet owner name perm) (postComment sens n body) w =
    (Some (Inr (trim (commentUrl owner name n (Some (next_comment_id (hub_threads w n)))))), posts n (new_comment w n body) w)"
  using assms by (simp add: postComment_def)

text \<open>The re-observation the call posts, and the thread with it.\<close>

definition resolution_body :: "string \<Rightarrow> string \<Rightarrow> nat \<Rightarrow> string \<times> obl_state \<Rightarrow> nat \<Rightarrow> string" where
  "resolution_body owner name n ob r = reobserved_body n (observation_of ob) r (commentUrl owner name n (Some (int r)))
     (the (reobservation_source ''reconciliation''))"

lemma url_shown: "commentIdFromUrl (commentUrl owner name n (Some (int r))) = Some r"
  using comment_id_shown [of "''https://github.com/'' @ owner @ ''/'' @ name @ ''/issues/'' @ show_nat n" r]
  by (simp add: commentUrl_def show_id_def show_int_def)

lemma url_no_lt: "CHR ''<'' \<notin> set owner \<Longrightarrow> CHR ''<'' \<notin> set name \<Longrightarrow> CHR ''<'' \<notin> set (commentUrl owner name n i)"
  by (cases i) (simp_all add: commentUrl_def show_id_def issuecomment_tag_def)

text \<open>The conditions of a recovery: a readable ledger that holds the observation open, and its evidence.\<close>

definition recoverable_thread ::
  "(string \<Rightarrow> string option) \<Rightarrow> string \<Rightarrow> comment list \<Rightarrow> nat \<Rightarrow> string \<times> obl_state \<Rightarrow> nat \<Rightarrow> bool" where
  "recoverable_thread perm login cs n ob r \<longleftrightarrow>
     (\<exists>report. readTrustedExecutionObligationState perm (Some login) cs n = Inr report \<and> ob \<in> set (open_obligations report))
     \<and> isReconcilableStationObservation ob \<and> (\<forall>k. st_cycle (snd ob) = Some k \<longrightarrow> k < 2 ^ 53)
     \<and> (\<exists>rec mk. findStationObservationEvidence cs n ob (Some login) (Some r) = Found rec mk)
     \<and> distinct (map c_id cs) \<and> getEffectiveRepositoryPermission perm (lower login) \<noteq> None"

lemma recoverable_closes:
  assumes "recoverable_thread perm login cs n (oid, st) r" and "CHR ''<'' \<notin> set owner" and "CHR ''<'' \<notin> set name"
    and "c_body p = resolution_body owner name n (oid, st) r" and "c_author p = Some login" and "c_id p \<notin> c_id ` set cs"
  shows "\<exists>after. readTrustedExecutionObligationState perm (Some login) (cs @ [p]) n = Inr after \<and> oid \<notin> set (open_obligation_ids after)"
    and "tr_comments t = cs @ [p] \<Longrightarrow> tr_login t = Some login \<Longrightarrow> alreadyRecorded t n oid r"
proof -
  obtain report rec mk where h: "readTrustedExecutionObligationState perm (Some login) cs n = Inr report"
    "(oid, st) \<in> set (open_obligations report)" "isReconcilableStationObservation (oid, st)"
    "findStationObservationEvidence cs n (oid, st) (Some login) (Some r) = Found rec mk" "distinct (map c_id cs)"
    "getEffectiveRepositoryPermission perm (lower login) \<noteq> None" "\<forall>k. st_cycle st = Some k \<longrightarrow> k < 2 ^ 53"
    using assms(1) by (auto simp: recoverable_thread_def)
  note f = found_parts [OF h(4)]
  obtain k where k: "st_cycle st = Some k" "k < 2 ^ 53" using f(4) h(7) by auto
  have ob: "observation_of (oid, st) = \<lparr>ob_id = oid, ob_station = ''codex_review'', ob_cycle = k\<rparr>"
    using f(3) k by (simp add: observation_of_def)
  have "oid = buildStationObservationObligationId ''codex_review'' k"
    using h(3) f(3) k by (simp add: isReconcilableStationObservation_def)
  then have ok: "obligation_id_ok (ob_id (observation_of (oid, st)))" "station_ok (ob_station (observation_of (oid, st)))"
    using codex_id_ok [OF k(2)] codex_station_ok ob by simp_all
  obtain action where act: "reobservation_source ''reconciliation'' = Some action" by (simp add: reobservation_source_def)
  have body: "c_body p = reobserved_body n (observation_of (oid, st)) r (commentUrl owner name n (Some (int r))) action"
    using assms(4) act by (simp add: resolution_body_def)
  note read = reobserved_read(1,2) [OF ok url_no_lt [OF assms(2,3), of n "Some (int r)"] source_no_lt [OF act], of n r n, folded body]
  have author: "author_login p = Some (lower login)" using assms(5) by (simp add: author_login_def)
  have "c_id rec = Some (int r)" "rec \<in> set cs" using f(1,5) by simp_all
  then have new: "c_id p \<noteq> Some (int r)" using assms(6) by (metis image_eqI)
  have wa: "write_author perm p" using h(6) author by (simp add: write_author_def)
  show "\<exists>after. readTrustedExecutionObligationState perm (Some login) (cs @ [p]) n = Inr after \<and> oid \<notin> set (open_obligation_ids after)"
    using h(1-5) new wa author read(1) by (intro reobservation_closes) simp_all
  assume t: "tr_comments t = cs @ [p]" "tr_login t = Some login"
  show "alreadyRecorded t n oid r"
    using h(1-4) author read(2) t by (intro recorded_again) simp_all
qed

lemma run_leased:
  assumes "inputError x = Inr (n, oid, ref)" and "sameRepository ref owner name n" and "(n, oid) \<notin> hub_leases w"
    and "run_calls (quiet owner name perm) (reconcileUnderLease sens owner name n oid (cu_comment ref))
           (w\<lparr>hub_leases := insert (n, oid) (hub_leases w)\<rparr>) = (Some res, v)"
  shows "run_calls (quiet owner name perm) (runReconcileStationObservation sens (Inr (owner, name)) x) w =
    (Some res, v\<lparr>hub_leases := hub_leases v - {(n, oid)}\<rparr>)"
  using assms by (simp add: runReconcileStationObservation_def releasing_def run_await run_catching)

lemma run_found:
  assumes "readTrustedExecutionObligationState perm (Some (hub_login w)) (hub_threads w n) n = Inr report"
    and "selectObligation \<lparr>tr_comments = hub_threads w n, tr_login = Some (hub_login w), tr_state = Inr report\<rparr> report n oid r = Inr (oid, st)"
    and "findStationObservationEvidence (hub_threads w n) n (oid, st) (Some (hub_login w)) (Some r) = Found rec mk"
    and "c_id rec = Some (int r)"
    and "sens (resolution_body owner name n (oid, st) r) = None"
    and "length (resolution_body owner name n (oid, st) r) \<le> record_body_max"
    and "readTrustedExecutionObligationState perm (Some (hub_login w))
           (hub_threads w n @ [new_comment w n (resolution_body owner name n (oid, st) r)]) n = Inr after"
    and "oid \<notin> set (open_obligation_ids after)"
  shows "\<exists>x. run_calls (quiet owner name perm) (reconcileUnderLease sens owner name n oid r) w =
    (Some (Reconciled x), posts n (new_comment w n (resolution_body owner name n (oid, st) r)) w)"
proof -
  let ?body = "resolution_body owner name n (oid, st) r" and ?url = "commentUrl owner name n (Some (int r))"
  let ?v = "posts n (new_comment w n ?body) w"
  obtain action where act: "reobservation_source ''reconciliation'' = Some action" by (simp add: reobservation_source_def)
  have post: "run_calls (quiet owner name perm) (postStationReobservation sens n ?url (observation_of (oid, st)) ''reconciliation'') w
      = (Some (Inr (trim (commentUrl owner name n (Some (next_comment_id (hub_threads w n)))))), ?v)"
    using run_station_post [of sens ?body, OF assms(5,6), of owner name perm n w] act
    by (simp add: postStationReobservation_def url_shown resolution_body_def)
  have t: "hub_threads ?v n = hub_threads w n @ [new_comment w n ?body]" "hub_login ?v = hub_login w" by (simp_all add: posts_def)
  have confirm: "run_calls (quiet owner name perm) (confirm_closed n oid u x) ?v = (Some (Reconciled x), ?v)" for u x
    unfolding confirm_closed_def run_await run_readThread t assms(7) using assms(8) by simp
  show ?thesis
    unfolding reconcileUnderLease_def run_await run_readThread
    by (simp add: assms(1-4) reconcile_state_def post_resolution_def run_await post confirm Let_def)
qed

lemma run_again:
  assumes "readTrustedExecutionObligationState perm (Some (hub_login w)) (hub_threads w n) n = Inr report"
    and "oid \<notin> set (open_obligation_ids report)"
    and "\<And>t. tr_comments t = hub_threads w n \<Longrightarrow> tr_login t = Some (hub_login w) \<Longrightarrow> alreadyRecorded t n oid r"
  shows "run_calls (quiet owner name perm) (reconcileUnderLease sens owner name n oid r) w = (Some (AlreadyRecorded oid), w)"
proof -
  let ?t = "\<lparr>tr_comments = hub_threads w n, tr_login = Some (hub_login w), tr_state = Inr report\<rparr>"
  have "find (\<lambda>(i, _). i = oid) (open_obligations report) = None"
    using assms(2) by (auto simp: find_None_iff open_obligation_ids_def image_iff)
  then have "selectObligation ?t report n oid r = Inl (AlreadyRecorded oid)"
    using assms(3) [of ?t] by (simp add: selectObligation_def)
  then show ?thesis unfolding reconcileUnderLease_def run_await run_readThread
    by (simp add: assms(1) reconcile_state_def)
qed

lemma recovery:
  assumes "inputError x = Inr (n, oid, ref)" and "sameRepository ref owner name n" and "(n, oid) \<notin> hub_leases w"
    and "recoverable_thread perm (hub_login w) (hub_threads w n) n (oid, st) (cu_comment ref)"
    and "CHR ''<'' \<notin> set owner" and "CHR ''<'' \<notin> set name"
    and "sens (resolution_body owner name n (oid, st) (cu_comment ref)) = None"
    and "length (resolution_body owner name n (oid, st) (cu_comment ref)) \<le> record_body_max"
    and "v = posts n (new_comment w n (resolution_body owner name n (oid, st) (cu_comment ref))) w"
  shows "(\<exists>y. run_calls (quiet owner name perm) (runReconcileStationObservation sens (Inr (owner, name)) x) w = (Some (Reconciled y), v))
    \<and> run_calls (quiet owner name perm) (runReconcileStationObservation sens (Inr (owner, name)) x) v = (Some (AlreadyRecorded oid), v)
    \<and> (\<exists>after. readTrustedExecutionObligationState perm (Some (hub_login w)) (hub_threads v n) n = Inr after
         \<and> oid \<notin> set (open_obligation_ids after))"
proof -
  let ?r = "cu_comment ref" and ?w = "w\<lparr>hub_leases := insert (n, oid) (hub_leases w)\<rparr>"
  let ?body = "resolution_body owner name n (oid, st) ?r"
  obtain report rec mk where h: "readTrustedExecutionObligationState perm (Some (hub_login w)) (hub_threads w n) n = Inr report"
    "(oid, st) \<in> set (open_obligations report)" "isReconcilableStationObservation (oid, st)"
    "findStationObservationEvidence (hub_threads w n) n (oid, st) (Some (hub_login w)) (Some ?r) = Found rec mk"
    using assms(4) by (auto simp: recoverable_thread_def)
  have "report = evaluateExecutionObligations (ledger (Some (hub_login w)) (hub_threads w n) n)" using h(1) by (simp add: read_ok_iff)
  then have sel: "selectObligation t report n oid ?r = Inr (oid, st)" for t
    using h(2,3) open_distinct by (intro select_open) simp_all
  have id: "c_id rec = Some (int ?r)" using found_parts(5) [OF h(4)] by simp
  let ?p = "new_comment w n ?body"
  have p: "c_body ?p = ?body" "c_author ?p = Some (hub_login w)" "c_id ?p \<notin> c_id ` set (hub_threads w n)"
    by (simp_all add: new_comment_def next_comment_new)
  note closes = recoverable_closes [OF assms(4-6) p]
  obtain after where after: "readTrustedExecutionObligationState perm (Some (hub_login w)) (hub_threads w n @ [?p]) n = Inr after"
    "oid \<notin> set (open_obligation_ids after)" using closes(1) by blast
  have pw: "new_comment ?w n ?body = ?p" by (simp add: new_comment_def)
  have "\<exists>y. run_calls (quiet owner name perm) (reconcileUnderLease sens owner name n oid ?r) ?w = (Some (Reconciled y), posts n (new_comment ?w n ?body) ?w)"
    using h(1,4) sel id assms(7,8) after pw by (intro run_found) simp_all
  then obtain y where y: "run_calls (quiet owner name perm) (reconcileUnderLease sens owner name n oid ?r) ?w = (Some (Reconciled y), posts n ?p ?w)"
    unfolding pw by blast
  have first: "run_calls (quiet owner name perm) (runReconcileStationObservation sens (Inr (owner, name)) x) w = (Some (Reconciled y), v)"
    using run_leased [OF assms(1-3) y] assms(3,9) by (simp add: posts_def)
  have tv: "hub_threads v n = hub_threads w n @ [?p]" "hub_login v = hub_login w" "(n, oid) \<notin> hub_leases v"
    using assms(3,9) by (simp_all add: posts_def)
  let ?v = "v\<lparr>hub_leases := insert (n, oid) (hub_leases v)\<rparr>"
  have "run_calls (quiet owner name perm) (reconcileUnderLease sens owner name n oid ?r) ?v = (Some (AlreadyRecorded oid), ?v)"
    using after closes(2) tv by (intro run_again) simp_all
  from run_leased [OF assms(1,2) tv(3) this]
  have "run_calls (quiet owner name perm) (runReconcileStationObservation sens (Inr (owner, name)) x) v = (Some (AlreadyRecorded oid), v)"
    using tv(3) by simp
  then show ?thesis using first after tv(1) by auto
qed

section \<open>An inherited station name\<close>

text \<open>
  One open observation whose station is \<open>constructor\<close>, the name of a property every object inherits, hides every
  candidate: the search for it throws as soon as the server commented after its opening, and the caller catches
  that as no candidates at all.
\<close>

lemma inherited_station_hides:
  assumes "ob \<in> set obs" and "isReconcilableStationObservation ob" and "st_station (snd ob) = Some ''constructor''"
    and "lastOpenedIndex (hub_threads w n) n (fst ob) (snd ob) = Some k" and "trim (hub_login w) \<noteq> []"
    and "c \<in> set (drop (Suc k) (hub_threads w n))" and "author_login c = Some (lower (hub_login w))"
  shows "run_calls (quiet owner name perm) (findRecoverableStationObservations owner name n obs) w = (Some [], w)"
proof -
  let ?cs = "hub_threads w n" and ?me = "Some (hub_login w)"
  have st: "st_kind (snd ob) = Some StationObservation" "st_schema_version (snd ob) = 2"
    using assms(2) by (cases ob, simp add: isReconcilableStationObservation_def)+
  have "findStationObservationEvidence ?cs n ob ?me None = EvidenceThrows"
    using assms(3-7) st
    by (cases ob) (auto simp: findStationObservationEvidence_def blank_login_def station_evidence_def Let_def
        list_ex_iff isTrustedAuthor_def)
  then have p: "proven owner name n ?cs ?me ob = None" by (simp add: proven_def)
  have in_f: "ob \<in> set (filter isReconcilableStationObservation obs)" using assms(1,2) by simp
  have "x \<in> set xs \<Longrightarrow> f x = None \<Longrightarrow> flat_map f xs = None" for f :: "string \<times> obl_state \<Rightarrow> recoverable list option" and x xs
    by (induction xs) (auto split: option.splits)
  from this [of ob _ "proven owner name n ?cs ?me", OF in_f p]
  show ?thesis using in_f by (auto simp: findRecoverableStationObservations_def Let_def)
qed

section \<open>What a successful call asked and was told\<close>

lemma trace_readThread:
  assumes "trace (readThread n) t x"
  obtains (refused) "x = Some None"
  | (read) cs me perm me' where "t = [(ReadComments n, Comments cs), (ReadLogin, LoginIs me), (ReadTrust cs n, TrustIs perm me')]"
      "x = Some (Some \<lparr>tr_comments = cs, tr_login = me, tr_state = readTrustedExecutionObligationState perm me' cs n\<rparr>)"
proof -
  obtain a u where a: "t = (ReadComments n, a) # u"
    "trace (case a of Comments cs \<Rightarrow> Ask ReadLogin (\<lambda>b. case b of
         LoginIs me \<Rightarrow> Ask (ReadTrust cs n) (\<lambda>c. case c of
             TrustIs perm me' \<Rightarrow> Return (Some \<lparr>tr_comments = cs, tr_login = me,
                 tr_state = readTrustedExecutionObligationState perm me' cs n\<rparr>)
           | _ \<Rightarrow> Return None)
       | _ \<Rightarrow> Return None)
   | _ \<Rightarrow> Return None) u x"
    using assms by (auto simp: readThread_def)
  show thesis
  proof (cases a)
    case (Comments cs)
    with a(2) obtain b v where b: "u = (ReadLogin, b) # v"
      "trace (case b of LoginIs me \<Rightarrow> Ask (ReadTrust cs n) (\<lambda>c. case c of
             TrustIs perm me' \<Rightarrow> Return (Some \<lparr>tr_comments = cs, tr_login = me,
                 tr_state = readTrustedExecutionObligationState perm me' cs n\<rparr>)
           | _ \<Rightarrow> Return None)
       | _ \<Rightarrow> Return None) v x" by auto
    show thesis
    proof (cases b)
      case (LoginIs me)
      with b(2) obtain c w where c: "v = (ReadTrust cs n, c) # w"
        "trace (case c of TrustIs perm me' \<Rightarrow> Return (Some \<lparr>tr_comments = cs, tr_login = me,
                 tr_state = readTrustedExecutionObligationState perm me' cs n\<rparr>)
           | _ \<Rightarrow> Return None) w x" by auto
      show thesis
      proof (cases c)
        case (TrustIs perm me')
        show thesis by (rule read) (use a(1) b(1) c TrustIs LoginIs Comments in simp_all)
      qed (use c(2) refused in simp_all)
    qed (use b(2) refused in simp_all)
  qed (use a(2) refused in simp_all)
qed

lemma trace_confirm:
  assumes "trace (confirm_closed n oid url res) t (Some (Reconciled y))"
  obtains cs me perm me' after where
    "t = [(ReadComments n, Comments cs), (ReadLogin, LoginIs me), (ReadTrust cs n, TrustIs perm me')]"
    "readTrustedExecutionObligationState perm me' cs n = Inr after" "oid \<notin> set (open_obligation_ids after)" "y = res"
proof -
  let ?closed = "\<lambda>after. case after of None \<Rightarrow> False
     | Some t \<Rightarrow> (case tr_state t of Inl _ \<Rightarrow> False | Inr report \<Rightarrow> oid \<notin> set (open_obligation_ids report))"
  have "\<exists>x. trace (readThread n) t (Some x) \<and> ?closed x \<and> y = res"
    using assms by (auto simp: confirm_closed_def Let_def trace_await declines_def split: if_splits)
  then obtain x where x: "trace (readThread n) t (Some x)" "?closed x" "y = res" by blast
  from x(1) show thesis
  proof (cases rule: trace_readThread)
    case refused
    then show thesis using x(2) by simp
  next
    case (read cs me perm me')
    then show thesis using x(2,3) by (cases "readTrustedExecutionObligationState perm me' cs n") (auto intro: that)
  qed
qed

lemma trace_postComment:
  assumes "trace (postComment sens n body) t (Some (Inr u))"
  obtains posted where "t = [(PostComment n body, PostedAt posted)]" "u = trim posted"
proof -
  obtain a where a: "t = [(PostComment n body, a)]"
    "(case a of PostedAt url \<Rightarrow> Inr (trim url) | Failed m \<Rightarrow> Inl m | _ \<Rightarrow> Inl ''gh api failed'') = Inr u"
    using assms by (auto simp: postComment_def split: option.splits if_splits)
  then show thesis by (cases a) (auto intro: that)
qed

lemma trace_resolution:
  assumes "trace (post_resolution sens owner name n ob rec mk) t (Some (Reconciled y))" and "c_id rec = Some (int r)"
  obtains url action posted cs me perm me' after where
    "t = [(PostComment n (reobserved_body n (observation_of ob) r url action), PostedAt posted),
          (ReadComments n, Comments cs), (ReadLogin, LoginIs me), (ReadTrust cs n, TrustIs perm me')]"
    "readTrustedExecutionObligationState perm me' cs n = Inr after" "fst ob \<notin> set (open_obligation_ids after)"
    "rc_obligation y = fst ob" "rc_comment_url y = trim posted"
proof -
  let ?url = "commentUrl owner name n (c_id rec)"
  have "?url = (''https://github.com/'' @ owner @ ''/'' @ name @ ''/issues/'' @ show_nat n) @ issuecomment_tag @ show_nat r"
    by (simp add: commentUrl_def show_id_def show_int_def assms(2))
  then have id: "commentIdFromUrl ?url = Some r" by (simp only: comment_id_shown)
  obtain action where act: "reobservation_source ''reconciliation'' = Some action" by (simp add: reobservation_source_def)
  have post: "postStationReobservation sens n ?url (observation_of ob) ''reconciliation''
      = postComment sens n (reobserved_body n (observation_of ob) r ?url action)"
    by (simp add: postStationReobservation_def id act)
  obtain t1 t2 x where t: "t = t1 @ t2" "trace (postComment sens n (reobserved_body n (observation_of ob) r ?url action)) t1 (Some x)"
    "trace (case x of
             Inl _ \<Rightarrow> Return (declines ''post_failed''
               ''the reobserved resolution could not be posted to the issue thread'' None
               (Some ''retry_after_resolving_gh_failure'') None)
           | Inr posted_url \<Rightarrow> confirm_closed n (fst ob) posted_url
               \<lparr>rc_obligation = fst ob, rc_station = st_station (snd ob), rc_cycle = st_cycle (snd ob),
                rc_record_url = ?url, rc_marker_url = commentUrl owner name n (c_id mk),
                rc_comment_url = posted_url\<rparr>) t2 (Some (Reconciled y))"
    using assms(1) unfolding post_resolution_def Let_def trace_await post by blast
  obtain u where u: "x = Inr u" using t(3) by (cases x) (auto simp: declines_def)
  obtain posted where p: "t1 = [(PostComment n (reobserved_body n (observation_of ob) r ?url action), PostedAt posted)]" "u = trim posted"
    using t(2) unfolding u by (rule trace_postComment)
  from t(3) [unfolded u sum.case] show thesis
    by (rule trace_confirm) (use that t(1) p in auto)
qed

lemma trace_leased:
  assumes "trace (reconcileUnderLease sens owner name n oid r) t (Some res)"
    and "(\<exists>y. res = Reconciled y) \<or> (\<exists>i. res = AlreadyRecorded i)"
  obtains cs me perm me0 report u where
    "t = [(ReadComments n, Comments cs), (ReadLogin, LoginIs me), (ReadTrust cs n, TrustIs perm me0)] @ u"
    "readTrustedExecutionObligationState perm me0 cs n = Inr report"
    "trace (reconcile_state sens owner name n oid r
       \<lparr>tr_comments = cs, tr_login = me, tr_state = readTrustedExecutionObligationState perm me0 cs n\<rparr> report) u (Some res)"
proof -
  obtain t1 u x where t: "t = t1 @ u" "trace (readThread n) t1 (Some x)"
    "trace (case x of None \<Rightarrow> Return thread_unavailable
       | Some t \<Rightarrow> (case tr_state t of Inl e \<Rightarrow> Return (Unreadable e)
          | Inr report \<Rightarrow> reconcile_state sens owner name n oid r t report)) u (Some res)"
    using assms(1) unfolding reconcileUnderLease_def trace_await by blast
  from t(2) show thesis
  proof (cases rule: trace_readThread)
    case refused
    then show thesis using t(3) assms(2) by (auto simp: thread_unavailable_def declines_def)
  next
    case (read cs me perm me')
    then show thesis
      using t(1,3) assms(2) by (cases "readTrustedExecutionObligationState perm me' cs n") (auto intro: that)
  qed
qed

lemma trace_releasing:
  assumes "trace (releasing n oid p) t (Some y)"
  obtains u where "t = u @ [(DropLease n oid, Done)]" "trace p u (Some y)"
proof -
  obtain t1 t2 x where t: "t = t1 @ t2" "trace (catching (await p (\<lambda>x. Return (Some x))) (Return None)) t1 (Some x)"
    "trace (Ask (DropLease n oid) (\<lambda>a. case a of Done \<Rightarrow> (case x of Some y \<Rightarrow> Return y | None \<Rightarrow> Throw) | _ \<Rightarrow> Throw)) t2 (Some y)"
    using assms unfolding releasing_def trace_await by blast
  from t(3) obtain a v where a: "t2 = (DropLease n oid, a) # v"
    "trace (case a of Done \<Rightarrow> (case x of Some y \<Rightarrow> Return y | None \<Rightarrow> Throw) | _ \<Rightarrow> Throw) v (Some y)" by auto
  have x: "a = Done" "x = Some y" "v = []" using a(2) by (cases a; cases x; simp)+
  have "trace p t1 (Some y)"
    using trace_catching [OF t(2)] unfolding x(2) by (auto simp: trace_await)
  then show thesis using that t(1) a(1) x by blast
qed

lemma trace_reconciliation:
  assumes "trace (runReconcileStationObservation sens repository x) t (Some res)" and "inputError x = Inr (n, oid, ref)"
    and "(\<exists>y. res = Reconciled y) \<or> (\<exists>i. res = AlreadyRecorded i)"
  obtains owner name cs me perm me0 report u where
    "t = [(TakeLease n oid, LeaseTaken), (ReadComments n, Comments cs), (ReadLogin, LoginIs me),
          (ReadTrust cs n, TrustIs perm me0)] @ u @ [(DropLease n oid, Done)]"
    "readTrustedExecutionObligationState perm me0 cs n = Inr report"
    "trace (reconcile_state sens owner name n oid (cu_comment ref)
       \<lparr>tr_comments = cs, tr_login = me, tr_state = readTrustedExecutionObligationState perm me0 cs n\<rparr> report) u (Some res)"
proof -
  obtain owner name where repo: "repository = Inr (owner, name)" "sameRepository ref owner name n"
    using assms by (cases repository) (auto simp: runReconcileStationObservation_def declines_def split: if_splits)
  obtain a v where a: "t = (TakeLease n oid, a) # v"
    "trace (case a of
        LeaseTaken \<Rightarrow> releasing n oid (reconcileUnderLease sens owner name n oid (cu_comment ref))
      | LeaseContended \<Rightarrow> Return (declines ''lock_contended''
          (''another reconciliation of '' @ [CHR 0x27] @ oid @ [CHR 0x27] @ '' is in progress'')
          None (Some ''retry_after_the_in_flight_reconciliation_completes'') None)
      | _ \<Rightarrow> Return (declines ''lock_unavailable'' ''the reconciliation lease could not be acquired''
          None (Some ''retry_after_the_in_flight_reconciliation_completes'') None)) v (Some res)"
    using assms(1) unfolding runReconcileStationObservation_def assms(2) repo(1) sum.case prod.case
    by (simp only: repo(2) not_True_eq_False if_False trace.simps) blast
  have "a = LeaseTaken" using a(2) assms(3) by (cases a) (auto simp: declines_def)
  with a(2) have "trace (releasing n oid (reconcileUnderLease sens owner name n oid (cu_comment ref))) v (Some res)" by simp
  then obtain w where w: "v = w @ [(DropLease n oid, Done)]"
    "trace (reconcileUnderLease sens owner name n oid (cu_comment ref)) w (Some res)" by (rule trace_releasing)
  from w(2) assms(3) show thesis
    by (rule trace_leased) (use that a(1) w(1) \<open>a = LeaseTaken\<close> in auto)
qed

lemma trace_state_reconciled:
  assumes "trace (reconcile_state sens owner name n oid r t report) u (Some (Reconciled y))"
  obtains st rec mk where "(oid, st) \<in> set (open_obligations report)" "isReconcilableStationObservation (oid, st)"
    "findStationObservationEvidence (tr_comments t) n (oid, st) (tr_login t) (Some r) = Found rec mk"
    "trace (post_resolution sens owner name n (oid, st) rec mk) u (Some (Reconciled y))"
proof (cases "selectObligation t report n oid r")
  case (Inl d)
  then show thesis using assms select_done [OF Inl] by (auto simp: reconcile_state_def declines_def)
next
  case (Inr ob)
  obtain st where ob: "ob = (oid, st)" using selected [OF Inr] by (cases ob) auto
  show thesis
  proof (cases "findStationObservationEvidence (tr_comments t) n ob (tr_login t) (Some r)")
    case (Found rec mk)
    have "trace (post_resolution sens owner name n (oid, st) rec mk) u (Some (Reconciled y))"
      using assms Found by (simp add: reconcile_state_def Inr ob)
    then show thesis using that selected [OF Inr] Found unfolding ob by blast
  qed (use assms Inr in \<open>simp_all add: reconcile_state_def declines_def\<close>)
qed

lemma trace_state_recorded:
  assumes "trace (reconcile_state sens owner name n oid r t report) u (Some (AlreadyRecorded i))"
  shows "i = oid \<and> u = [] \<and> oid \<notin> set (open_obligation_ids report) \<and> alreadyRecorded t n oid r"
proof (cases "selectObligation t report n oid r")
  case (Inl d)
  then show ?thesis using assms select_done [OF Inl] by (auto simp: reconcile_state_def declines_def)
next
  case (Inr ob)
  have "\<not> trace (post_resolution sens owner name n ob rec mk) u (Some (AlreadyRecorded i))" for rec mk
    by (auto simp: post_resolution_def confirm_closed_def trace_await declines_def Let_def split: sum.splits if_splits)
  then show ?thesis
    using assms by (cases "findStationObservationEvidence (tr_comments t) n ob (tr_login t) (Some r)")
      (simp_all add: reconcile_state_def Inr declines_def)
qed

section \<open>Properties\<close>

text \<open>
  C7. The recovery writes nothing on its own authority: however many reconciliations run at once, in whatever order
  the services answer them, with failed requests, lost answers and other writers on the threads, every comment they post
  is a re-observation of one observation by the server's own login whose verdict an earlier state of the thread had
  already proved.
\<close>

theorem reconcile_writes_proven:
  assumes "pool_reaches hub_serve hub_others (runReconcileStationObservation sens repository) (w, idle) (v, ps)"
    and "hub_written w = []" and "(n, i) \<in> set (hub_written v)"
  shows "i < length (hub_threads v n)
    \<and> (\<exists>k oid st me r rec mk url action. isReconcilableStationObservation (oid, st)
        \<and> findStationObservationEvidence (take k (take i (hub_threads v n))) n (oid, st) me (Some r) = Found rec mk
        \<and> author_login (hub_threads v n ! i) = map_option lower me
        \<and> c_body (hub_threads v n ! i) = reobserved_body n (observation_of (oid, st)) r url action)"
proof -
  have "hub_good w" using assms(2) by (simp add: hub_good_def)
  then have "hub_good v"
    using hub.pool_keeps [OF assms(1) run_keeps] by (simp add: idle_def)
  then show ?thesis using assms(3) unfolding hub_good_def backed_def by blast
qed

text \<open>
  C32. Success is the ledger's word, not the word of the request that wrote. A reconciliation that reports the
  observation as reconciled made, in this order and nothing else, a read of the thread whose trusted replay shows it
  open and whose comments prove its verdict, one accepted post of the re-observation of it, and a second read whose
  trusted replay succeeds and no longer lists it. One that reports it as already recorded posted nothing: its one
  read does not list the observation and holds a trusted re-observation of the identity opened last, for the comment
  the caller names.
\<close>

theorem reconcile_reports_closed:
  assumes "trace (runReconcileStationObservation sens repository x) t (Some res)"
    and "inputError x = Inr (n, oid, ref)"
  shows "(\<forall>y. res = Reconciled y \<longrightarrow> (\<exists>cs me perm me0 report st rec mk url action posted cs' me1 perm' me' after.
        t = [(TakeLease n oid, LeaseTaken), (ReadComments n, Comments cs), (ReadLogin, LoginIs me),
             (ReadTrust cs n, TrustIs perm me0),
             (PostComment n (reobserved_body n (observation_of (oid, st)) (cu_comment ref) url action), PostedAt posted),
             (ReadComments n, Comments cs'), (ReadLogin, LoginIs me1), (ReadTrust cs' n, TrustIs perm' me'),
             (DropLease n oid, Done)]
        \<and> readTrustedExecutionObligationState perm me0 cs n = Inr report
        \<and> (oid, st) \<in> set (open_obligations report) \<and> isReconcilableStationObservation (oid, st)
        \<and> findStationObservationEvidence cs n (oid, st) me (Some (cu_comment ref)) = Found rec mk
        \<and> readTrustedExecutionObligationState perm' me' cs' n = Inr after
        \<and> oid \<notin> set (open_obligation_ids after)
        \<and> rc_obligation y = oid \<and> rc_comment_url y = trim posted))
    \<and> (\<forall>i. res = AlreadyRecorded i \<longrightarrow> i = oid \<and> (\<exists>cs me perm me0 report e.
        t = [(TakeLease n oid, LeaseTaken), (ReadComments n, Comments cs), (ReadLogin, LoginIs me),
             (ReadTrust cs n, TrustIs perm me0), (DropLease n oid, Done)]
        \<and> readTrustedExecutionObligationState perm me0 cs n = Inr report
        \<and> oid \<notin> set (open_obligation_ids report)
        \<and> openedIdentity cs n oid = Some e
        \<and> hasTrustedReobservation cs n oid (station e) (cycle e) (cu_comment ref) me))"
proof (intro conjI allI impI)
  fix y assume y: "res = Reconciled y"
  obtain owner name cs me perm me0 report u where u:
    "t = [(TakeLease n oid, LeaseTaken), (ReadComments n, Comments cs), (ReadLogin, LoginIs me),
          (ReadTrust cs n, TrustIs perm me0)] @ u @ [(DropLease n oid, Done)]"
    "readTrustedExecutionObligationState perm me0 cs n = Inr report"
    "trace (reconcile_state sens owner name n oid (cu_comment ref)
       \<lparr>tr_comments = cs, tr_login = me, tr_state = readTrustedExecutionObligationState perm me0 cs n\<rparr> report) u (Some (Reconciled y))"
    using assms unfolding y by (rule trace_reconciliation) blast+
  obtain st rec mk where s: "(oid, st) \<in> set (open_obligations report)" "isReconcilableStationObservation (oid, st)"
    "findStationObservationEvidence cs n (oid, st) me (Some (cu_comment ref)) = Found rec mk"
    "trace (post_resolution sens owner name n (oid, st) rec mk) u (Some (Reconciled y))"
    using trace_state_reconciled [OF u(3)] by auto
  have id: "c_id rec = Some (int (cu_comment ref))" using found_parts(5) [OF s(3)] by simp
  obtain url action posted cs' me1 perm' me' after where p:
    "u = [(PostComment n (reobserved_body n (observation_of (oid, st)) (cu_comment ref) url action), PostedAt posted),
          (ReadComments n, Comments cs'), (ReadLogin, LoginIs me1), (ReadTrust cs' n, TrustIs perm' me')]"
    "readTrustedExecutionObligationState perm' me' cs' n = Inr after" "oid \<notin> set (open_obligation_ids after)"
    "rc_obligation y = oid" "rc_comment_url y = trim posted"
    using s(4) id by (rule trace_resolution [where ob = "(oid, st)", unfolded fst_conv])
  show "\<exists>cs me perm me0 report st rec mk url action posted cs' me1 perm' me' after.
        t = [(TakeLease n oid, LeaseTaken), (ReadComments n, Comments cs), (ReadLogin, LoginIs me),
             (ReadTrust cs n, TrustIs perm me0),
             (PostComment n (reobserved_body n (observation_of (oid, st)) (cu_comment ref) url action), PostedAt posted),
             (ReadComments n, Comments cs'), (ReadLogin, LoginIs me1), (ReadTrust cs' n, TrustIs perm' me'),
             (DropLease n oid, Done)]
        \<and> readTrustedExecutionObligationState perm me0 cs n = Inr report
        \<and> (oid, st) \<in> set (open_obligations report) \<and> isReconcilableStationObservation (oid, st)
        \<and> findStationObservationEvidence cs n (oid, st) me (Some (cu_comment ref)) = Found rec mk
        \<and> readTrustedExecutionObligationState perm' me' cs' n = Inr after
        \<and> oid \<notin> set (open_obligation_ids after)
        \<and> rc_obligation y = oid \<and> rc_comment_url y = trim posted"
    unfolding u(1) p(1) using u(2) s(1-3) p(2-5) by (intro exI conjI) (simp, assumption+)
next
  fix i assume i: "res = AlreadyRecorded i"
  obtain owner name cs me perm me0 report u where u:
    "t = [(TakeLease n oid, LeaseTaken), (ReadComments n, Comments cs), (ReadLogin, LoginIs me),
          (ReadTrust cs n, TrustIs perm me0)] @ u @ [(DropLease n oid, Done)]"
    "readTrustedExecutionObligationState perm me0 cs n = Inr report"
    "trace (reconcile_state sens owner name n oid (cu_comment ref)
       \<lparr>tr_comments = cs, tr_login = me, tr_state = readTrustedExecutionObligationState perm me0 cs n\<rparr> report) u (Some (AlreadyRecorded i))"
    using assms unfolding i by (rule trace_reconciliation) blast+
  note rec = trace_state_recorded [OF u(3)]
  show "i = oid" using rec by simp
  obtain e where e: "openedIdentity cs n oid = Some e"
    "hasTrustedReobservation cs n oid (station e) (cycle e) (cu_comment ref) me"
    using rec by (auto simp: alreadyRecorded_def split: option.splits)
  show "\<exists>cs me perm me0 report e.
        t = [(TakeLease n oid, LeaseTaken), (ReadComments n, Comments cs), (ReadLogin, LoginIs me),
             (ReadTrust cs n, TrustIs perm me0), (DropLease n oid, Done)]
        \<and> readTrustedExecutionObligationState perm me0 cs n = Inr report
        \<and> oid \<notin> set (open_obligation_ids report)
        \<and> openedIdentity cs n oid = Some e
        \<and> hasTrustedReobservation cs n oid (station e) (cycle e) (cu_comment ref) me"
    unfolding u(1) using u(2) rec e by (intro exI conjI) (simp, assumption+, simp, assumption+)
qed

text \<open>
  C31. A stranded observation is recovered, once: when the ledger holds it open and the thread proves its verdict, a
  reconciliation that nothing disturbs posts exactly one comment, after which the trusted read shows it closed, and
  reports success; the same call repeated writes nothing and reports it as recorded.
\<close>

theorem reconcile_recovers:
  assumes "inputError x = Inr (n, oid, ref)" and "sameRepository ref owner name n" and "(n, oid) \<notin> hub_leases w"
    and "recoverable_thread perm (hub_login w) (hub_threads w n) n (oid, st) (cu_comment ref)"
    and "CHR ''<'' \<notin> set owner" and "CHR ''<'' \<notin> set name"
    and "sens (resolution_body owner name n (oid, st) (cu_comment ref)) = None"
    and "length (resolution_body owner name n (oid, st) (cu_comment ref)) \<le> record_body_max"
    and "v = posts n (new_comment w n (resolution_body owner name n (oid, st) (cu_comment ref))) w"
  shows "(\<exists>y. run_calls (quiet owner name perm) (runReconcileStationObservation sens (Inr (owner, name)) x) w = (Some (Reconciled y), v))
    \<and> run_calls (quiet owner name perm) (runReconcileStationObservation sens (Inr (owner, name)) x) v = (Some (AlreadyRecorded oid), v)
    \<and> (\<exists>after. readTrustedExecutionObligationState perm (Some (hub_login w)) (hub_threads v n) n = Inr after
         \<and> oid \<notin> set (open_obligation_ids after))"
  using assms by (rule recovery)

section \<open>Witnesses\<close>

definition obs_hub :: hub where
  "obs_hub = \<lparr>hub_threads = (\<lambda>n. if n = 7 then obs_thread else []), hub_leases = {}, hub_login = ''gc-bot'', hub_written = []\<rparr>"

definition obs_input :: reconcile_input where
  "obs_input = \<lparr>ri_issue = JInt 7, ri_obligation = JStr ''STATION-OBS-CODEX-REVIEW-C2'',
     ri_url = JStr ''https://github.com/o/r/issues/7#issuecomment-91''\<rparr>"

lemma obs_input_ok:
  "inputError obs_input = Inr (7, ''STATION-OBS-CODEX-REVIEW-C2'', \<lparr>cu_owner = ''o'', cu_name = ''r'', cu_issue = 7, cu_comment = 91\<rparr>)"
  by code_simp

lemma obs_ledger: "ledger (Some ''gc-bot'') obs_thread 7 = [obs_opened]"
proof -
  have p: "parseExecutionObligationMarkers [v2_build obs_opened] 7 = [obs_opened]"
    "parseExecutionObligationMarkers [obs_record] 7 = []"
    "parseExecutionObligationMarkers [buildCodexReviewPrePushCycleMarker obs_marker] 7 = []"
  proof -
    show "parseExecutionObligationMarkers [v2_build obs_opened] 7 = [obs_opened]"
      using v2_record(1) [OF obs_ok(1), of "[]" 7] by simp (simp add: obs_opened_def)
    show "parseExecutionObligationMarkers [obs_record] 7 = []"
      by (simp add: parse_one v1.find_none v2.find_none obs_record_plain)
    show "parseExecutionObligationMarkers [buildCodexReviewPrePushCycleMarker obs_marker] 7 = []"
      by (rule cycle_marker_foreign) simp
  qed
  have a: "admissible obs_thread (Some ''gc-bot'') c obs_opened" for c
    by (simp add: admissible_def is_reobservation_def obs_opened_def)
  have b: "c_body (said who i x) = x" for who i x by (simp add: said_def)
  show ?thesis using a unfolding ledger_def by (subst obs_thread_def) (simp add: p b)
qed

lemma obs_read:
  "readTrustedExecutionObligationState two_writers (Some ''gc-bot'') obs_thread 7 = Inr (evaluateExecutionObligations [obs_opened])"
  unfolding read_ok_iff obs_ledger
  by (simp add: obs_thread_def wontfix_authorized_def) (simp add: obs_opened_def)

lemma obs_open: "obs_obligation \<in> set (open_obligations (evaluateExecutionObligations [obs_opened]))"
  by (simp add: evaluateExecutionObligations_def replay_events_def obl_step_def jm_get_def jm_set_def obs_obligation_def
      opened_state_def obs_opened_def)

lemma obs_reconcilable: "isReconcilableStationObservation obs_obligation"
proof -
  have "buildStationObservationObligationId ''codex_review'' 2 = ''STATION-OBS-CODEX-REVIEW-C2''" by code_simp
  then show ?thesis by (simp add: isReconcilableStationObservation_def obs_obligation_def opened_state_def obs_opened_def)
qed

lemma obs_recoverable: "recoverable_thread two_writers ''gc-bot'' obs_thread 7 obs_obligation 91"
proof -
  have "distinct (map c_id obs_thread)" by (simp add: obs_thread_def said_def)
  moreover have "getEffectiveRepositoryPermission two_writers (lower ''gc-bot'') \<noteq> None" by code_simp
  moreover have "\<forall>k. st_cycle (snd obs_obligation) = Some k \<longrightarrow> k < 2 ^ 53"
    by (simp add: obs_obligation_def opened_state_def obs_opened_def)
  ultimately show ?thesis
    unfolding recoverable_thread_def using obs_read obs_open obs_reconcilable obs_found by blast
qed

definition obs_body :: string where "obs_body = resolution_body ''o'' ''r'' 7 obs_obligation 91"
lemma obs_body_length: "length obs_body \<le> record_body_max"
proof -
  have n: "show_nat 7 = ''7''" "show_nat 91 = ''91''" "show_nat 2 = ''2''" "show_int 91 = ''91''" by code_simp+
  have e: "observation_of obs_obligation = \<lparr>ob_id = ''STATION-OBS-CODEX-REVIEW-C2'', ob_station = ''codex_review'', ob_cycle = 2\<rparr>"
    by (simp add: observation_of_def obs_obligation_def opened_state_def obs_opened_def)
  have "length (v2_build (reobserved_event 7 (observation_of obs_obligation) 91)) \<le> 400"
    by (simp add: e reobserved_event_def v2_build_def attr_str_def opt_attr_str_def schema_v2_def n)
  moreover have "length (commentUrl ''o'' ''r'' 7 (Some (int 91))) \<le> 100"
    by (simp add: commentUrl_def show_id_def issuecomment_tag_def n)
  moreover have "length (record_header ''codex_review'' 2 ''Re-observed'') \<le> 100"
    by (simp add: record_header_def station_label_def em_dash_def n)
  ultimately show ?thesis
    by (simp add: obs_body_def resolution_body_def reobserved_body_def reobservation_source_def join_def e record_body_max_def)
qed

definition obs_hub' :: hub where "obs_hub' = posts 7 (new_comment obs_hub 7 obs_body) obs_hub"

lemma reconcile_recovers_witness:
  "run_calls (quiet ''o'' ''r'' two_writers) (runReconcileStationObservation (\<lambda>_. None) (Inr (''o'', ''r'')) obs_input) obs_hub'
     = (Some (AlreadyRecorded ''STATION-OBS-CODEX-REVIEW-C2''), obs_hub')
   \<and> (\<exists>y. run_calls (quiet ''o'' ''r'' two_writers) (runReconcileStationObservation (\<lambda>_. None) (Inr (''o'', ''r'')) obs_input) obs_hub
     = (Some (Reconciled y), obs_hub'))"
proof -
  have o: "obs_obligation = (''STATION-OBS-CODEX-REVIEW-C2'', opened_state obs_opened)"
    by (simp add: obs_obligation_def) (simp add: obs_opened_def)
  have len: "length obs_body \<le> record_body_max" by (rule obs_body_length)
  have ref: "sameRepository \<lparr>cu_owner = ''o'', cu_name = ''r'', cu_issue = 7, cu_comment = 91\<rparr> ''o'' ''r'' 7"
    by (simp add: sameRepository_def)
  have w: "hub_threads obs_hub 7 = obs_thread" "hub_login obs_hub = ''gc-bot''" "hub_leases obs_hub = {}"
    by (simp_all add: obs_hub_def)
  show ?thesis
    using reconcile_recovers [OF obs_input_ok ref, of obs_hub two_writers "opened_state obs_opened" "\<lambda>_. None" obs_hub']
      obs_recoverable len by (simp add: w obs_body_def obs_hub'_def flip: o)
qed

text \<open>The same run, as one call of a pool.\<close>

lemma obs_runs:
  obtains ps y where "pool_reaches hub_serve hub_others (runReconcileStationObservation (\<lambda>_. None) (Inr (''o'', ''r'')))
      (obs_hub, idle) (obs_hub', ps)" "ps 0 = Some (obs_input, Return (Reconciled y))"
proof -
  have o: "obs_obligation = (''STATION-OBS-CODEX-REVIEW-C2'', opened_state obs_opened)"
    by (simp add: obs_obligation_def) (simp add: obs_opened_def)
  have ref: "sameRepository \<lparr>cu_owner = ''o'', cu_name = ''r'', cu_issue = 7, cu_comment = 91\<rparr> ''o'' ''r'' 7"
    by (simp add: sameRepository_def)
  have w: "hub_threads obs_hub 7 = obs_thread" "hub_login obs_hub = ''gc-bot''" "hub_leases obs_hub = {}"
    by (simp_all add: obs_hub_def)
  obtain y where y: "run_calls (quiet ''o'' ''r'' two_writers) (runReconcileStationObservation (\<lambda>_. None) (Inr (''o'', ''r'')) obs_input) obs_hub
     = (Some (Reconciled y), obs_hub')"
    using recovery [OF obs_input_ok ref, of obs_hub two_writers "opened_state obs_opened" "\<lambda>_. None" obs_hub']
      obs_recoverable obs_body_length by (auto simp: w obs_body_def obs_hub'_def simp flip: o)
  have "pool_reaches hub_serve hub_others (runReconcileStationObservation (\<lambda>_. None) (Inr (''o'', ''r'')))
      (obs_hub, idle) (obs_hub', idle(0 \<mapsto> (obs_input, Return (Reconciled y))))"
    using quiet_serves y by (rule pool_started) (simp add: idle_def)
  then show thesis by (rule that) simp
qed

lemma obs_hub_after: "hub_written obs_hub' = [(7, 3)]" "length (hub_threads obs_hub' 7) = 4" "hub_written obs_hub = []"
  by (simp_all add: obs_hub'_def posts_def obs_hub_def obs_thread_def)

lemma reconcile_writes_proven_witness:
  "\<exists>k oid st me r rec mk url action.
     findStationObservationEvidence (take k (take 3 (hub_threads obs_hub' 7))) 7 (oid, st) me (Some r) = Found rec mk
     \<and> c_body (hub_threads obs_hub' 7 ! 3) = reobserved_body 7 (observation_of (oid, st)) r url action"
proof -
  obtain ps y where run: "pool_reaches hub_serve hub_others (runReconcileStationObservation (\<lambda>_. None) (Inr (''o'', ''r'')))
      (obs_hub, idle) (obs_hub', ps)" "ps 0 = Some (obs_input, Return (Reconciled y))" by (rule obs_runs)
  have "(7, 3) \<in> set (hub_written obs_hub')" by (simp add: obs_hub_after)
  from reconcile_writes_proven [OF run(1) obs_hub_after(3) this] show ?thesis by blast
qed

text \<open>The two calls as traces: the first recovers, its repetition finds the record.\<close>

lemma obs_traced:
  obtains t y t' where
    "trace (runReconcileStationObservation (\<lambda>_. None) (Inr (''o'', ''r'')) obs_input) t (Some (Reconciled y))"
    "trace (runReconcileStationObservation (\<lambda>_. None) (Inr (''o'', ''r'')) obs_input) t'
       (Some (AlreadyRecorded ''STATION-OBS-CODEX-REVIEW-C2''))"
proof -
  let ?p = "runReconcileStationObservation (\<lambda>_. None) (Inr (''o'', ''r'')) obs_input"
  have o: "obs_obligation = (''STATION-OBS-CODEX-REVIEW-C2'', opened_state obs_opened)"
    by (simp add: obs_obligation_def) (simp add: obs_opened_def)
  have ref: "sameRepository \<lparr>cu_owner = ''o'', cu_name = ''r'', cu_issue = 7, cu_comment = 91\<rparr> ''o'' ''r'' 7"
    by (simp add: sameRepository_def)
  have w: "hub_threads obs_hub 7 = obs_thread" "hub_login obs_hub = ''gc-bot''" "hub_leases obs_hub = {}"
    by (simp_all add: obs_hub_def)
  obtain y where y: "run_calls (quiet ''o'' ''r'' two_writers) ?p obs_hub = (Some (Reconciled y), obs_hub')"
    "run_calls (quiet ''o'' ''r'' two_writers) ?p obs_hub' = (Some (AlreadyRecorded ''STATION-OBS-CODEX-REVIEW-C2''), obs_hub')"
    using recovery [OF obs_input_ok ref, of obs_hub two_writers "opened_state obs_opened" "\<lambda>_. None" obs_hub']
      obs_recoverable obs_body_length by (auto simp: w obs_body_def obs_hub'_def simp flip: o)
  show thesis
    using run_traced [of ?p "quiet ''o'' ''r'' two_writers" obs_hub] run_traced [of ?p "quiet ''o'' ''r'' two_writers" obs_hub']
      that unfolding y by auto
qed

lemma reconcile_reports_closed_witness:
  "\<exists>t t' y. trace (runReconcileStationObservation (\<lambda>_. None) (Inr (''o'', ''r'')) obs_input) t (Some (Reconciled y))
     \<and> length t = 9 \<and> rc_obligation y = ''STATION-OBS-CODEX-REVIEW-C2''
     \<and> trace (runReconcileStationObservation (\<lambda>_. None) (Inr (''o'', ''r'')) obs_input) t'
         (Some (AlreadyRecorded ''STATION-OBS-CODEX-REVIEW-C2'')) \<and> length t' = 5"
proof -
  obtain t y t' where r:
    "trace (runReconcileStationObservation (\<lambda>_. None) (Inr (''o'', ''r'')) obs_input) t (Some (Reconciled y))"
    "trace (runReconcileStationObservation (\<lambda>_. None) (Inr (''o'', ''r'')) obs_input) t'
       (Some (AlreadyRecorded ''STATION-OBS-CODEX-REVIEW-C2''))" by (rule obs_traced)
  have "length t = 9 \<and> rc_obligation y = ''STATION-OBS-CODEX-REVIEW-C2''"
    using reconcile_reports_closed [OF r(1) obs_input_ok] by auto
  moreover have "length t' = 5" using reconcile_reports_closed [OF r(2) obs_input_ok] by auto
  ultimately show ?thesis using r by blast
qed

end
