(* ===== verification/StationSeam.thy ===== *)
theory StationSeam
  imports StationRecords StationRetry
begin

text \<open>
  One review station, its bounded attempts and its obligation (\<open>lib/station-observation-seam.js\<close>). The wrapper reads
  what an earlier run left open, runs the station through the free retries of \<open>lib/review-reattempt.js\<close>, opens the
  obligation when an attempt renders no verdict, hands it to every later attempt, and escalates when all are spent.
\<close>

definition review_station :: string where "review_station = ''codex_review''"

section \<open>Where the records go\<close>

text \<open>The owner and name of the repository, cached once found.\<close>

type_synonym target = "string \<times> string"

definition resolveLedgerTarget :: "target option \<Rightarrow> target option station_calls" where
  "resolveLedgerTarget cached =
     (case cached of
        Some tg \<Rightarrow> Return (Some tg)
      | None \<Rightarrow> Ask ResolveTarget (\<lambda>a. Return (case a of TargetIs owner name \<Rightarrow> Some (owner, name) | _ \<Rightarrow> None)))"

definition resolveLogicalCycle :: "nat \<Rightarrow> nat station_calls" where
  "resolveLogicalCycle n = Ask (ReadBodies n) (\<lambda>a. Return (case a of
     BodiesAre bodies \<Rightarrow> parseCodexReviewPrePushCycleMarkers bodies n + 1
   | _ \<Rightarrow> 1))"

text \<open>What the wrapper carries from attempt to attempt.\<close>

record seam =
  sm_target :: "target option"
  sm_cycle :: "nat option"
  sm_id :: "string option"
  sm_open :: bool

definition holds_open :: "read_error + obl_report \<Rightarrow> string \<Rightarrow> nat \<Rightarrow> bool" where
  "holds_open state oid cy \<longleftrightarrow>
     (case state of
        Inl _ \<Rightarrow> False
      | Inr report \<Rightarrow> list_ex (\<lambda>(i, st). i = oid \<and> st_kind st = Some StationObservation \<and> st_schema_version st = 2
          \<and> st_station st = Some review_station \<and> st_cycle st = Some cy) (open_obligations report))"

text \<open>The ledger's word on the obligation of the coming cycle; an unreadable thread opens nothing.\<close>

definition readOpen :: "nat \<Rightarrow> target option \<Rightarrow> nat \<Rightarrow> seam station_calls" where
  "readOpen n tg cy =
     (let oid = buildStationObservationObligationId review_station cy;
          unread = \<lparr>sm_target = tg, sm_cycle = Some cy, sm_id = None, sm_open = False\<rparr>
      in Ask (ReadComments n) (\<lambda>a. case a of
           Comments cs \<Rightarrow> Ask (ReadTrust cs n) (\<lambda>b. Return (case b of
               TrustIs perm me \<Rightarrow>
                 (let open_now = holds_open (readTrustedExecutionObligationState perm me cs n) oid cy
                  in unread\<lparr>sm_id := (if open_now then Some oid else None), sm_open := open_now\<rparr>)
             | _ \<Rightarrow> unread))
         | _ \<Rightarrow> Return unread))"

definition recoverOpenObservation :: "nat \<Rightarrow> seam station_calls" where
  "recoverOpenObservation n = await (resolveLedgerTarget None) (\<lambda>tg.
     case tg of
       None \<Rightarrow> Return \<lparr>sm_target = None, sm_cycle = None, sm_id = None, sm_open = False\<rparr>
     | Some _ \<Rightarrow> await (resolveLogicalCycle n) (readOpen n tg))"

section \<open>The attempts\<close>

definition failure_text :: "string option \<Rightarrow> string" where
  "failure_text f = (case f of Some t \<Rightarrow> t | None \<Rightarrow> ''null'')"

definition onAttempt :: "(string \<Rightarrow> string option) \<Rightarrow> nat \<Rightarrow> bool \<Rightarrow> seam \<Rightarrow> attempt \<Rightarrow> seam station_calls" where
  "onAttempt sens n durable s att =
     (if at_result att \<noteq> StNotEvaluable then Return s
      else if \<not> durable then Return s
      else if sm_open s then Return s
      else await (resolveLedgerTarget (sm_target s)) (\<lambda>tg.
        case tg of
          None \<Rightarrow> Return (s\<lparr>sm_target := None\<rparr>)
        | Some _ \<Rightarrow> await (resolveLogicalCycle n) (\<lambda>cy.
            await (postStationObservationOpened sens n review_station cy (failure_text (at_failure_class att)) (at_ordinal att))
              (\<lambda>(posted, oid). Return \<lparr>sm_target = tg, sm_cycle = Some cy, sm_id = Some oid,
                 sm_open = (case posted of Inr _ \<Rightarrow> True | Inl _ \<Rightarrow> False)\<rparr>))))"

text \<open>The obligation is carried exactly while it is open.\<close>

definition carried :: "seam \<Rightarrow> observation option" where
  "carried s =
     (if sm_open s then Some \<lparr>ob_id = the (sm_id s), ob_station = review_station, ob_cycle = the (sm_cycle s)\<rparr> else None)"

definition attempt_of :: "string \<Rightarrow> nat \<Rightarrow> js \<Rightarrow> bool \<Rightarrow> nat \<Rightarrow> attempt option" where
  "attempt_of st k env aborted took =
     (let c = classifyStationAttempt env aborted
      in map_option (\<lambda>res. \<lparr>at_station = st, at_ordinal = k, at_result = res, at_failure_class = failure_class c, at_duration = took\<rparr>)
           (stationResultForAttempt c env))"

function attempts_from ::
  "(string \<Rightarrow> string option) \<Rightarrow> nat \<Rightarrow> bool \<Rightarrow> js \<Rightarrow> nat \<Rightarrow> seam \<Rightarrow> attempt list \<Rightarrow> (station_run \<times> seam) station_calls" where
  "attempts_from sens n durable limit k s acc = Ask (InvokeReview (carried s) k) (\<lambda>a. case a of
     Reviewed env aborted took \<Rightarrow>
       (let c = classifyStationAttempt env aborted;
            att = attempt_of review_station k env aborted took
        in await (case att of None \<Rightarrow> Return s | Some at \<Rightarrow> onAttempt sens n durable s at) (\<lambda>s'.
             if \<not> retry_again (decideNonVerdictRetry k limit c)
             then Return (\<lparr>run_envelope = env, run_observed = evaluable c,
                           run_attempts = (case att of None \<Rightarrow> acc | Some at \<Rightarrow> acc @ [at])\<rparr>, s')
             else attempts_from sens n durable limit (k + 1) s' (case att of None \<Rightarrow> acc | Some at \<Rightarrow> acc @ [at])))
   | _ \<Rightarrow> Throw)"
  by pat_completeness auto
termination
proof (relation "measure (\<lambda>(sens, n, durable, limit, k, s, acc). 3 - k)", goal_cases)
  case 1
  then show ?case by simp
next
  case (2 sens n durable limit k s acc a env aborted took c att)
  then have "int k \<le> clampRetryLimit limit"
    by (simp add: decideNonVerdictRetry_def split: if_splits)
  with clamp_range(2) [of limit] show ?case by simp
qed

declare attempts_from.simps [simp del]

section \<open>The run\<close>

record station_outcome =
  so_run :: station_run
  so_cycle :: "nat option"
  so_id :: "string option"
  so_open :: bool
  so_exhausted :: bool

definition exhausted :: "station_run \<Rightarrow> bool" where
  "exhausted r \<longleftrightarrow> \<not> run_observed r \<and> run_attempts r \<noteq> []
     \<and> list_all (\<lambda>a. at_result a = StNotEvaluable) (run_attempts r)"

definition escalate :: "(string \<Rightarrow> string option) \<Rightarrow> nat \<Rightarrow> bool \<Rightarrow> station_run \<Rightarrow> seam \<Rightarrow> unit station_calls" where
  "escalate sens n durable r s =
     (if durable \<and> exhausted r \<and> sm_open s
      then await (resolveLedgerTarget (sm_target s)) (\<lambda>tg.
        case tg of
          None \<Rightarrow> Return ()
        | Some _ \<Rightarrow> await (postStationObservationEscalation sens n review_station (the (sm_cycle s))
              (map at_failure_class (run_attempts r)) (length (run_attempts r))) (\<lambda>_. Return ()))
      else Return ())"

text \<open>\<open>durable\<close> is \<open>recordDurably\<close>: a deferred run reads the ledger but writes nothing to it.\<close>

definition runStationWithObservationLedger ::
  "(string \<Rightarrow> string option) \<Rightarrow> nat \<Rightarrow> bool \<Rightarrow> station_outcome station_calls" where
  "runStationWithObservationLedger sens n durable = Ask ReadContext (\<lambda>a.
     let block = (case a of ContextIs ctx \<Rightarrow> fld (fld ctx ''workflow'') ''codex_review'' | _ \<Rightarrow> JUndef);
         limit = JInt (resolveNonVerdictRetryLimit block)
     in await (recoverOpenObservation n) (\<lambda>s0.
          await (attempts_from sens n durable limit 1 s0 []) (\<lambda>(r, s).
            await (escalate sens n durable r s) (\<lambda>_.
              Return \<lparr>so_run = r, so_cycle = sm_cycle s, so_id = sm_id s, so_open = sm_open s, so_exhausted = exhausted r\<rparr>))))"

section \<open>The envelope of an unobserved station\<close>

definition station_result_text :: "station_result \<Rightarrow> string" where
  "station_result_text res = (case res of StPass \<Rightarrow> ''pass'' | StFail \<Rightarrow> ''fail'' | StCancelled \<Rightarrow> ''cancelled''
     | StSkipped \<Rightarrow> ''skipped'' | StNotEvaluable \<Rightarrow> ''not_evaluable'')"

text \<open>A failure class in JSON: that of an inherited function is left out, that of the prototype is an empty object.\<close>

definition class_js :: "string option \<Rightarrow> js" where
  "class_js f = (case f of
      None \<Rightarrow> JNull
    | Some c \<Rightarrow> if c = inherited_text ''__proto__'' then JObj []
                else if c \<in> inherited_text ` set inherited_names then JUndef
                else JStr c)"

definition attempt_js :: "attempt \<Rightarrow> js" where
  "attempt_js a = JObj [(''station_id'', JStr (at_station a)), (''attempt_ordinal'', JInt (int (at_ordinal a))),
     (''station_result'', JStr (station_result_text (at_result a))),
     (''failure_class'', class_js (at_failure_class a)),
     (''duration_ms'', JInt (int (at_duration a)))]"

definition unobserved_fields :: "station_outcome \<Rightarrow> (string \<times> js) list" where
  "unobserved_fields out =
     [(''next_action'', JStr ''escalate_unobserved_station_under_hard_external_dependency''),
      (''unobserved_station'', JStr review_station),
      (''escalation_pause_class'', JStr ''hard_external_dependency''),
      (''obligation_kind'', JStr ''station_observation'')]
     @ (case so_id out of Some i \<Rightarrow> if i = [] then [] else [(''obligation_id'', JStr i)] | None \<Rightarrow> [])
     @ (case so_cycle out of Some k \<Rightarrow> if k = 0 then [] else [(''logical_cycle'', JInt (int k))] | None \<Rightarrow> [])
     @ [(''obligation_recorded'', JBool (so_open out)),
        (''station_attempts'', JArr (map attempt_js (run_attempts (so_run out))))]"

text \<open>The spread of the envelope, then the fields, each in place of one of the same name.\<close>

definition decorateUnobservedStation :: "js \<Rightarrow> station_outcome \<Rightarrow> js" where
  "decorateUnobservedStation env out =
     JObj (fold (\<lambda>(k, v). jm_set k v) (unobserved_fields out) (case env of JObj fs \<Rightarrow> fs | _ \<Rightarrow> []))"

end
