(* ===== verification/StationLedger.thy ===== *)
theory StationLedger
  imports StationSeam
begin

section \<open>What a trace shows\<close>

definition posted :: "(station_request \<times> station_answer) list \<Rightarrow> (string \<times> station_answer) list" where
  "posted t = concat (map (\<lambda>(q, a). case q of PostComment n b \<Rightarrow> [(b, a)] | _ \<Rightarrow> []) t)"

definition invoked :: "(station_request \<times> station_answer) list \<Rightarrow> (observation option \<times> nat) list" where
  "invoked t = concat (map (\<lambda>(q, a). case q of InvokeReview ob k \<Rightarrow> [(ob, k)] | _ \<Rightarrow> []) t)"

lemma posted_simps [simp]: "posted [] = []" "posted (t @ u) = posted t @ posted u"
  by (simp_all add: posted_def)

lemma invoked_simps [simp]: "invoked [] = []" "invoked (t @ u) = invoked t @ invoked u"
  by (simp_all add: invoked_def)

definition silent :: "(station_request \<times> station_answer) list \<Rightarrow> bool" where
  "silent t \<longleftrightarrow> posted t = [] \<and> invoked t = []"

lemma trace_target: "trace (resolveLedgerTarget tg) t x \<Longrightarrow> silent t \<and> x \<noteq> None"
  by (cases tg) (auto simp: resolveLedgerTarget_def silent_def posted_def invoked_def)

lemma trace_cycle: "trace (resolveLogicalCycle n) t x \<Longrightarrow> silent t \<and> x \<noteq> None"
  by (auto simp: resolveLogicalCycle_def silent_def posted_def invoked_def)

text \<open>The obligation a state carries was opened, as a read or an accepted record of the trace shows.\<close>

definition opened_in :: "nat \<Rightarrow> (station_request \<times> station_answer) list \<Rightarrow> observation \<Rightarrow> bool" where
  "opened_in n t ob \<longleftrightarrow> ob_station ob = review_station
     \<and> ob_id ob = buildStationObservationObligationId review_station (ob_cycle ob)
     \<and> ((\<exists>cs perm me. (ReadTrust cs n, TrustIs perm me) \<in> set t
           \<and> holds_open (readTrustedExecutionObligationState perm me cs n) (ob_id ob) (ob_cycle ob))
        \<or> (\<exists>failure k url. (PostComment n (opened_body n review_station (ob_cycle ob) failure k), PostedAt url) \<in> set t))"

primrec warranted :: "nat \<Rightarrow> (station_request \<times> station_answer) list \<Rightarrow> (station_request \<times> station_answer) list \<Rightarrow> bool" where
  "warranted n before [] \<longleftrightarrow> True"
| "warranted n before (x # t) \<longleftrightarrow> (\<forall>ob k. fst x = InvokeReview (Some ob) k \<longrightarrow> opened_in n before ob)
     \<and> warranted n (before @ [x]) t"

definition honest :: "nat \<Rightarrow> (station_request \<times> station_answer) list \<Rightarrow> seam \<Rightarrow> bool" where
  "honest n t s \<longleftrightarrow> (\<forall>ob. carried s = Some ob \<longrightarrow> opened_in n t ob)"

lemma opened_in_mono: "opened_in n t ob \<Longrightarrow> set t \<subseteq> set u \<Longrightarrow> opened_in n u ob"
  unfolding opened_in_def by blast

lemma honest_append: "honest n t s \<Longrightarrow> honest n (t @ u) s"
  unfolding honest_def by (auto intro: opened_in_mono)

lemma warranted_silent: "invoked t = [] \<Longrightarrow> warranted n before t"
  by (induction t arbitrary: before) (auto simp: invoked_def split: station_request.splits)

lemma warranted_append: "warranted n before (t @ u) \<longleftrightarrow> warranted n before t \<and> warranted n (before @ t) u"
  by (induction t arbitrary: before) auto

lemma postComment_cases:
  obtains m where "postComment sens n body = Return (Inl m)"
  | f where "postComment sens n body = Ask (PostComment n body) (\<lambda>a. Return (f a))"
      "\<And>a. (\<exists>y. f a = Inr y) \<longleftrightarrow> (\<exists>url. a = PostedAt url)"
proof (cases "sens body")
  case None
  show thesis
  proof (cases "length body > record_body_max")
    case False
    show thesis
    proof (rule that(2))
      show "postComment sens n body = Ask (PostComment n body) (\<lambda>a. Return (case a of
          PostedAt url \<Rightarrow> Inr (trim url) | Failed m \<Rightarrow> Inl m | _ \<Rightarrow> Inl ''gh api failed''))"
        using None False by (simp add: postComment_def)
    next
      fix a :: station_answer
      show "(\<exists>y. (case a of PostedAt url \<Rightarrow> Inr (trim url) | Failed m \<Rightarrow> Inl m | _ \<Rightarrow> Inl ''gh api failed'') = Inr y)
        \<longleftrightarrow> (\<exists>url. a = PostedAt url)"
        by (cases a) simp_all
    qed
  qed (use None that(1) in \<open>simp add: postComment_def\<close>)
qed (use that(1) in \<open>simp add: postComment_def\<close>)

lemma trace_post:
  assumes "trace (postComment sens n body) t x"
  shows "invoked t = [] \<and> (\<exists>p. x = Some p
     \<and> (t = [] \<and> (\<exists>m. p = Inl m) \<or> (\<exists>a. t = [(PostComment n body, a)] \<and> ((\<exists>y. p = Inr y) \<longleftrightarrow> (\<exists>url. a = PostedAt url)))))"
proof (rule postComment_cases [of sens n body])
  fix m assume "postComment sens n body = Return (Inl m)"
  then show ?thesis using assms by simp
next
  fix f assume f: "postComment sens n body = Ask (PostComment n body) (\<lambda>a. Return (f a))"
    "\<And>a. (\<exists>y. f a = Inr y) \<longleftrightarrow> (\<exists>url. a = PostedAt url)"
  obtain a where "t = [(PostComment n body, a)]" "x = Some (f a)" using assms unfolding f(1) by auto
  then show ?thesis using f(2) [of a] by (simp add: invoked_def)
qed

lemma trace_readOpen:
  assumes "trace (readOpen n tg cy) t x"
  shows "silent t \<and> (\<exists>s. x = Some s \<and> honest n t s)"
proof -
  obtain a w where a: "t = (ReadComments n, a) # w" using assms by (auto simp: readOpen_def Let_def)
  let ?oid = "buildStationObservationObligationId review_station cy"
  show ?thesis
  proof (cases "\<exists>cs perm me. a = Comments cs \<and> w = [(ReadTrust cs n, TrustIs perm me)]")
    case True
    then obtain cs perm me where w: "a = Comments cs" "w = [(ReadTrust cs n, TrustIs perm me)]" by blast
    let ?now = "holds_open (readTrustedExecutionObligationState perm me cs n) ?oid cy"
    have x: "x = Some \<lparr>sm_target = tg, sm_cycle = Some cy, sm_id = (if ?now then Some ?oid else None), sm_open = ?now\<rparr>"
      using assms a w by (simp add: readOpen_def Let_def)
    have m: "(ReadTrust cs n, TrustIs perm me) \<in> set t" using a w by simp
    have "silent t" using a w by (simp add: silent_def posted_def invoked_def)
    moreover have "honest n t \<lparr>sm_target = tg, sm_cycle = Some cy, sm_id = (if ?now then Some ?oid else None), sm_open = ?now\<rparr>"
      using m by (cases ?now) (auto simp: honest_def carried_def opened_in_def)
    ultimately show ?thesis using x by blast
  next
    case False
    have "w = [] \<or> (\<exists>cs b. a = Comments cs \<and> w = [(ReadTrust cs n, b)])"
      using assms a by (cases a) (auto simp: readOpen_def Let_def)
    then have "silent t" using a by (auto simp: silent_def posted_def invoked_def)
    moreover have "x = Some \<lparr>sm_target = tg, sm_cycle = Some cy, sm_id = None, sm_open = False\<rparr>"
    proof (cases "\<exists>cs. a = Comments cs")
      case True
      then obtain cs b where b: "a = Comments cs" "w = [(ReadTrust cs n, b)]"
        using assms a by (auto simp: readOpen_def Let_def)
      then have "\<not> (\<exists>perm me. b = TrustIs perm me)" using False by blast
      then show ?thesis using assms a b by (cases b) (simp_all add: readOpen_def Let_def)
    next
      case False
      then show ?thesis using assms a by (cases a) (simp_all add: readOpen_def Let_def)
    qed
    ultimately show ?thesis by (simp add: honest_def carried_def)
  qed
qed

lemma silent_append: "silent (t @ u) \<longleftrightarrow> silent t \<and> silent u"
  by (auto simp: silent_def)

lemma recover_trace:
  assumes "trace (recoverOpenObservation n) t x"
  shows "silent t \<and> (\<exists>s. x = Some s \<and> honest n t s)"
proof -
  obtain t1 t2 tg where t: "t = t1 @ t2" "trace (resolveLedgerTarget None) t1 (Some tg)"
    "trace (case tg of
       None \<Rightarrow> Return \<lparr>sm_target = None, sm_cycle = None, sm_id = None, sm_open = False\<rparr>
     | Some _ \<Rightarrow> await (resolveLogicalCycle n) (readOpen n tg)) t2 x"
    using assms unfolding recoverOpenObservation_def trace_await by (blast dest: trace_target)
  have s1: "silent t1" using trace_target [OF t(2)] by simp
  show ?thesis
  proof (cases tg)
    case None
    then show ?thesis using t s1 by (auto simp: silent_append silent_def honest_def carried_def)
  next
    case (Some g)
    obtain u v cy where u: "t2 = u @ v" "trace (resolveLogicalCycle n) u (Some cy)" "trace (readOpen n tg cy) v x"
      using t(3) unfolding Some option.case trace_await by (blast dest: trace_cycle)
    have "silent u" using trace_cycle [OF u(2)] by simp
    moreover obtain s where "silent v" "x = Some s" "honest n v s" using trace_readOpen [OF u(3)] by blast
    ultimately have "silent t" "honest n t s" using s1 t(1) u(1)
      by (auto simp: silent_append honest_def intro: opened_in_mono)
    then show ?thesis using \<open>x = Some s\<close> by blast
  qed
qed

text \<open>The attempt hook: at most one record, after which the state is open exactly when it was accepted.\<close>

lemma trace_opened:
  assumes "trace (postStationObservationOpened sens n st cy f k) t x"
  obtains p where "x = Some (p, buildStationObservationObligationId st cy)" "invoked t = []"
    "t = [] \<and> (\<exists>m. p = Inl m) \<or> (\<exists>a. t = [(PostComment n (opened_body n st cy f k), a)]
        \<and> ((\<exists>y. p = Inr y) \<longleftrightarrow> (\<exists>url. a = PostedAt url)))"
proof -
  have "\<not> trace (postComment sens n (opened_body n st cy f k)) u None" for u using trace_post by blast
  from trace_awaitE [OF assms [unfolded postStationObservationOpened_def] this]
  obtain t1 t2 p where t: "t = t1 @ t2" "trace (postComment sens n (opened_body n st cy f k)) t1 (Some p)"
    "trace (Return (p, buildStationObservationObligationId st cy)) t2 x" by blast
  then have "t = t1" "x = Some (p, buildStationObservationObligationId st cy)" by simp_all
  then show thesis using trace_post [OF t(2)] that [of p] by simp
qed

definition accepted :: "string \<times> station_answer \<Rightarrow> bool" where
  "accepted p \<longleftrightarrow> (\<exists>url. snd p = PostedAt url)"

definition opens :: "nat \<Rightarrow> string \<times> station_answer \<Rightarrow> bool" where
  "opens n p \<longleftrightarrow> (\<exists>cy f k. fst p = opened_body n review_station cy f k)"

lemma trace_onAttempt:
  assumes "trace (onAttempt sens n durable s att) t x"
  shows "invoked t = [] \<and> (\<exists>s'. x = Some s'
    \<and> (posted t = [] \<and> (sm_open s' \<longleftrightarrow> sm_open s) \<and> (sm_open s \<longrightarrow> s' = s)
       \<or> durable \<and> \<not> sm_open s \<and> (\<exists>p. posted t = [p] \<and> opens n p \<and> (sm_open s' \<longleftrightarrow> accepted p)))
    \<and> (honest n before s \<longrightarrow> honest n (before @ t) s'))"
proof (cases "at_result att \<noteq> StNotEvaluable \<or> \<not> durable \<or> sm_open s")
  case True
  then have "onAttempt sens n durable s att = Return s" unfolding onAttempt_def by presburger
  then have "t = []" "x = Some s" using assms by simp_all
  then show ?thesis by simp
next
  case False
  let ?k = "at_ordinal att" and ?f = "failure_text (at_failure_class att)"
  have eq: "onAttempt sens n durable s att = await (resolveLedgerTarget (sm_target s)) (\<lambda>tg.
        case tg of
          None \<Rightarrow> Return (s\<lparr>sm_target := None\<rparr>)
        | Some _ \<Rightarrow> await (resolveLogicalCycle n) (\<lambda>cy.
            await (postStationObservationOpened sens n review_station cy ?f ?k)
              (\<lambda>(res, oid). Return \<lparr>sm_target = tg, sm_cycle = Some cy, sm_id = Some oid,
                 sm_open = (case res of Inr _ \<Rightarrow> True | Inl _ \<Rightarrow> False)\<rparr>)))"
    using False unfolding onAttempt_def by presburger
  obtain t1 t2 tg where t: "t = t1 @ t2" "trace (resolveLedgerTarget (sm_target s)) t1 (Some tg)"
    "trace (case tg of
          None \<Rightarrow> Return (s\<lparr>sm_target := None\<rparr>)
        | Some _ \<Rightarrow> await (resolveLogicalCycle n) (\<lambda>cy.
            await (postStationObservationOpened sens n review_station cy ?f ?k)
              (\<lambda>(res, oid). Return \<lparr>sm_target = tg, sm_cycle = Some cy, sm_id = Some oid,
                 sm_open = (case res of Inr _ \<Rightarrow> True | Inl _ \<Rightarrow> False)\<rparr>))) t2 x"
    by (rule trace_awaitE [OF assms [unfolded eq]]) (use trace_target in blast, blast)
  have s1: "silent t1" using trace_target [OF t(2)] by simp
  show ?thesis
  proof (cases tg)
    case None
    then have "t2 = []" "x = Some (s\<lparr>sm_target := None\<rparr>)" using t(3) by simp_all
    then show ?thesis using s1 t(1) False by (auto simp: silent_def honest_def carried_def)
  next
    case (Some g)
    obtain u v cy where u: "t2 = u @ v" "trace (resolveLogicalCycle n) u (Some cy)"
      "trace (await (postStationObservationOpened sens n review_station cy ?f ?k)
              (\<lambda>(res, oid). Return \<lparr>sm_target = tg, sm_cycle = Some cy, sm_id = Some oid,
                 sm_open = (case res of Inr _ \<Rightarrow> True | Inl _ \<Rightarrow> False)\<rparr>)) v x"
      using t(3) unfolding Some option.case trace_await by (blast dest: trace_cycle)
    have s2: "silent u" using trace_cycle [OF u(2)] by simp
    let ?oid = "buildStationObservationObligationId review_station cy"
    have never: "\<not> trace (postStationObservationOpened sens n review_station cy ?f ?k) w None" for w
      by (meson option.distinct(1) trace_opened)
    from trace_awaitE [OF u(3) never] obtain v1 v2 y where y: "v = v1 @ v2"
      "trace (postStationObservationOpened sens n review_station cy ?f ?k) v1 (Some y)"
      "trace (case y of (res, oid) \<Rightarrow> Return \<lparr>sm_target = tg, sm_cycle = Some cy, sm_id = Some oid,
                 sm_open = (case res of Inr _ \<Rightarrow> True | Inl _ \<Rightarrow> False)\<rparr>) v2 x" by blast
    obtain p where o: "y = (p, ?oid)"
      "v1 = [] \<and> (\<exists>m. p = Inl m) \<or> (\<exists>a. v1 = [(PostComment n (opened_body n review_station cy ?f ?k), a)]
        \<and> ((\<exists>y. p = Inr y) \<longleftrightarrow> (\<exists>url. a = PostedAt url)))" by (rule trace_opened [OF y(2)]) simp
    have v: "v1 = v" and p: "x = Some \<lparr>sm_target = tg, sm_cycle = Some cy, sm_id = Some ?oid,
        sm_open = (case p of Inr _ \<Rightarrow> True | Inl _ \<Rightarrow> False)\<rparr>" using y(1,3) o(1) by simp_all
    show ?thesis
    proof (cases v)
      case Nil
      then obtain m where "p = Inl m" using o(2) v by auto
      then show ?thesis using p Nil s1 s2 t(1) u(1) False by (simp add: silent_def honest_def carried_def)
    next
      case (Cons y ys)
      then obtain a where a: "v = [(PostComment n (opened_body n review_station cy ?f ?k), a)]"
        "(\<exists>y. p = Inr y) \<longleftrightarrow> (\<exists>url. a = PostedAt url)" using o(2) v by auto
      let ?s = "\<lparr>sm_target = tg, sm_cycle = Some cy, sm_id = Some ?oid, sm_open = (case p of Inr _ \<Rightarrow> True | Inl _ \<Rightarrow> False)\<rparr>"
      let ?b = "(opened_body n review_station cy ?f ?k, a)"
      have "posted t = [?b]" "invoked t = []"
        using a(1) s1 s2 t(1) u(1) by (simp_all add: silent_def posted_def invoked_def)
      moreover have "opens n ?b" by (auto simp: opens_def)
      moreover have "sm_open ?s \<longleftrightarrow> accepted ?b" using a(2) by (auto simp: accepted_def split: sum.splits)
      moreover have "honest n (before @ t) ?s"
      proof (cases p)
        case (Inr y)
        then obtain url where "a = PostedAt url" using a(2) by blast
        then have "(PostComment n (opened_body n review_station cy ?f ?k), PostedAt url) \<in> set t" using a(1) t(1) u(1) by simp
        then show ?thesis using Inr by (auto simp: honest_def carried_def opened_in_def)
      qed (simp add: honest_def carried_def)
      ultimately show ?thesis using p False by blast
    qed
  qed
qed

section \<open>The attempts of one run\<close>

definition hook :: "(string \<Rightarrow> string option) \<Rightarrow> nat \<Rightarrow> bool \<Rightarrow> seam \<Rightarrow> attempt option \<Rightarrow> seam station_calls" where
  "hook sens n durable s att = (case att of None \<Rightarrow> Return s | Some at \<Rightarrow> onAttempt sens n durable s at)"

lemma trace_hook:
  assumes "trace (hook sens n durable s att) t x"
  shows "invoked t = [] \<and> (\<exists>s'. x = Some s'
    \<and> (posted t = [] \<and> (sm_open s' \<longleftrightarrow> sm_open s) \<and> (sm_open s \<longrightarrow> s' = s)
       \<or> durable \<and> \<not> sm_open s \<and> (\<exists>p. posted t = [p] \<and> opens n p \<and> (sm_open s' \<longleftrightarrow> accepted p)))
    \<and> (honest n before s \<longrightarrow> honest n (before @ t) s'))"
proof (cases att)
  case None
  then show ?thesis using assms by (simp add: hook_def)
next
  case (Some at)
  then show ?thesis using assms trace_onAttempt [of sens n durable s at t x before] by (simp add: hook_def)
qed

definition with_attempt :: "attempt list \<Rightarrow> attempt option \<Rightarrow> attempt list" where
  "with_attempt acc att = (case att of None \<Rightarrow> acc | Some at \<Rightarrow> acc @ [at])"

text \<open>One attempt: the review, the hook, and either the end or the attempt after it.\<close>

lemma trace_attempt:
  assumes "trace (attempts_from sens n durable limit k s acc) t x"
  obtains (failed) a where "t = [(InvokeReview (carried s) k, a)]" "x = None" "\<And>env aborted took. a \<noteq> Reviewed env aborted took"
  | (stopped) env aborted took u s' where "t = (InvokeReview (carried s) k, Reviewed env aborted took) # u"
      "trace (hook sens n durable s (attempt_of review_station k env aborted took)) u (Some s')"
      "\<not> retry_again (decideNonVerdictRetry k limit (classifyStationAttempt env aborted))"
      "x = Some (\<lparr>run_envelope = env, run_observed = evaluable (classifyStationAttempt env aborted),
                   run_attempts = with_attempt acc (attempt_of review_station k env aborted took)\<rparr>, s')"
  | (again) env aborted took u v s' where "t = (InvokeReview (carried s) k, Reviewed env aborted took) # u @ v"
      "trace (hook sens n durable s (attempt_of review_station k env aborted took)) u (Some s')"
      "retry_again (decideNonVerdictRetry k limit (classifyStationAttempt env aborted))"
      "trace (attempts_from sens n durable limit (k + 1) s'
         (with_attempt acc (attempt_of review_station k env aborted took))) v x"
proof -
  obtain a u where a: "t = (InvokeReview (carried s) k, a) # u" using assms by (subst (asm) attempts_from.simps) auto
  show thesis
  proof (cases "\<exists>env aborted took. a = Reviewed env aborted took")
    case False
    then have "u = []" "x = None" using assms a by (subst (asm) attempts_from.simps, cases a; simp)+
    then show thesis using failed a False by blast
  next
    case True
    then obtain env aborted took where r: "a = Reviewed env aborted took" by blast
    let ?att = "attempt_of review_station k env aborted took" and ?c = "classifyStationAttempt env aborted"
    have "trace (await (hook sens n durable s ?att) (\<lambda>s'.
             if \<not> retry_again (decideNonVerdictRetry k limit ?c)
             then Return (\<lparr>run_envelope = env, run_observed = evaluable ?c, run_attempts = with_attempt acc ?att\<rparr>, s')
             else attempts_from sens n durable limit (k + 1) s' (with_attempt acc ?att))) u x"
      using assms unfolding a r hook_def with_attempt_def by (subst (asm) attempts_from.simps) (simp add: Let_def)
    moreover have "\<not> trace (hook sens n durable s ?att) w None" for w using trace_hook by blast
    ultimately obtain u1 u2 s' where u: "u = u1 @ u2" "trace (hook sens n durable s ?att) u1 (Some s')"
      "trace (if \<not> retry_again (decideNonVerdictRetry k limit ?c)
             then Return (\<lparr>run_envelope = env, run_observed = evaluable ?c, run_attempts = with_attempt acc ?att\<rparr>, s')
             else attempts_from sens n durable limit (k + 1) s' (with_attempt acc ?att)) u2 x"
      by (rule trace_awaitE)
    show thesis
    proof (cases "retry_again (decideNonVerdictRetry k limit ?c)")
      case True
      then show thesis using again [of env aborted took u1 u2 s'] u a r by simp
    next
      case False
      then show thesis using stopped [of env aborted took u1 s'] u a r by simp
    qed
  qed
qed

lemma retry_bound: "retry_again (decideNonVerdictRetry k limit c) \<Longrightarrow> k \<le> 2"
  using clamp_range(2) [of limit] by (simp add: decideNonVerdictRetry_def split: if_splits)

text \<open>The records of the attempts: openings, all but the last refused.\<close>

definition opening_run :: "nat \<Rightarrow> (string \<times> station_answer) list \<Rightarrow> bool" where
  "opening_run n ps \<longleftrightarrow> (\<forall>p \<in> set ps. opens n p) \<and> (\<forall>p \<in> set (butlast ps). \<not> accepted p)"

lemma opening_run_simps [simp]:
  "opening_run n []" "opening_run n [p] \<longleftrightarrow> opens n p"
  "\<not> accepted p \<Longrightarrow> opening_run n (p # ps) \<longleftrightarrow> opens n p \<and> opening_run n ps"
  by (cases ps; auto simp: opening_run_def)+

lemma posted_invoke [simp]: "posted ((InvokeReview ob k, a) # t) = posted t"
  by (simp add: posted_def)

lemma invoked_invoke [simp]: "invoked ((InvokeReview ob k, a) # t) = (ob, k) # invoked t"
  by (simp add: invoked_def)

lemma attempts_ledger:
  assumes "trace (attempts_from sens n durable limit k s acc) t x" and "honest n before s"
  shows "warranted n before t \<and> (durable \<or> posted t = []) \<and> (sm_open s \<longrightarrow> posted t = []) \<and> opening_run n (posted t)
    \<and> (\<forall>r s'. x = Some (r, s') \<longrightarrow> honest n (before @ t) s')"
  using assms
proof (induction "3 - k" arbitrary: k s acc t before rule: less_induct)
  case less
  have first: "\<forall>ob j. fst (InvokeReview (carried s) k, a) = InvokeReview (Some ob) j \<longrightarrow> opened_in n before ob"
    for a :: station_answer using less.prems(2) by (simp add: honest_def)
  have h: "honest n (before @ [y]) s" for y using less.prems(2) by (rule honest_append)
  from less.prems(1) show ?case
  proof (cases rule: trace_attempt)
    case (failed a)
    then show ?thesis using first [of a] by simp
  next
    case (stopped env aborted took u s')
    note o = trace_hook [OF stopped(2), of "before @ [(InvokeReview (carried s) k, Reviewed env aborted took)]"]
    have "warranted n (before @ [(InvokeReview (carried s) k, Reviewed env aborted took)]) u"
      by (rule warranted_silent) (use o in blast)
    then have "warranted n before t" using stopped(1) first [of "Reviewed env aborted took"] by simp
    moreover have "posted t = posted u" using stopped(1) by simp
    moreover have "honest n (before @ t) s'" using o h stopped(1) by simp
    ultimately show ?thesis using o stopped(4) by auto
  next
    case (again env aborted took u v s')
    let ?b = "before @ [(InvokeReview (carried s) k, Reviewed env aborted took)]"
    note o = trace_hook [OF again(2), of ?b]
    have k: "3 - (k + 1) < 3 - k" using retry_bound [OF again(3)] by simp
    have "honest n (?b @ u) s'" using o h by simp
    note IH = less.hyps [OF k again(4) this]
    have "warranted n ?b u" by (rule warranted_silent) (use o in blast)
    then have "warranted n before t"
      using again(1) first [of "Reviewed env aborted took"] IH by (simp add: warranted_append)
    moreover have "posted t = posted u @ posted v" using again(1) by simp
    moreover have "\<forall>r s'. x = Some (r, s') \<longrightarrow> honest n (before @ t) s'" using IH again(1) by simp
    ultimately show ?thesis using o IH by auto
  qed
qed

text \<open>The attempts are those of \<open>station_loop\<close> on the envelopes the reviews returned.\<close>

definition answers :: "(station_request \<times> station_answer) list \<Rightarrow> (nat \<Rightarrow> js) \<Rightarrow> (nat \<Rightarrow> bool) \<Rightarrow> (nat \<Rightarrow> nat) \<Rightarrow> bool" where
  "answers t invoke aborted took \<longleftrightarrow>
     (\<forall>ob k a. (InvokeReview ob k, a) \<in> set t \<longrightarrow> a = Reviewed (invoke k) (aborted k) (took k))"

lemma loop_step:
  "station_loop st limit invoke aborted took k acc =
     (let c = classifyStationAttempt (invoke k) (aborted k);
          acc' = with_attempt acc (attempt_of st k (invoke k) (aborted k) (took k))
      in if \<not> retry_again (decideNonVerdictRetry k limit c)
         then \<lparr>run_envelope = invoke k, run_observed = evaluable c, run_attempts = acc'\<rparr>
         else station_loop st limit invoke aborted took (k + 1) acc')"
  by (subst station_loop.simps) (simp add: Let_def with_attempt_def attempt_of_def split: option.splits)

lemma attempts_refine:
  assumes "trace (attempts_from sens n durable limit k s acc) t (Some (r, s'))"
    and "answers t invoke aborted took" and "k \<le> 3"
  shows "r = station_loop review_station limit invoke aborted took k acc
    \<and> (\<exists>m. k \<le> m \<and> m \<le> 3 \<and> map snd (invoked t) = [k..<Suc m])"
  using assms
proof (induction "3 - k" arbitrary: k s acc t rule: less_induct)
  case less
  from less.prems(1) show ?case
  proof (cases rule: trace_attempt)
    case (stopped env aborted' took' u s1)
    have e: "env = invoke k" "aborted' = aborted k" "took' = took k"
      using less.prems(2) stopped(1) unfolding answers_def by (metis list.set_intros(1) station_answer.inject)+
    have "invoked u = []" using trace_hook [OF stopped(2)] by blast
    then have "map snd (invoked t) = [k..<Suc k]" using stopped(1) by simp
    moreover have "r = station_loop review_station limit invoke aborted took k acc"
      using stopped(3,4) unfolding e by (subst loop_step) (simp add: Let_def)
    ultimately show ?thesis using less.prems(3) by blast
  next
    case (again env aborted' took' u v s1)
    have e: "env = invoke k" "aborted' = aborted k" "took' = took k"
      using less.prems(2) again(1) unfolding answers_def by (metis list.set_intros(1) station_answer.inject)+
    have k: "k \<le> 2" by (rule retry_bound [OF again(3)])
    have "answers v invoke aborted took" using less.prems(2) again(1) by (simp add: answers_def)
    note IH = less.hyps [OF _ again(4) this]
    from k have "3 - (k + 1) < 3 - k" "k + 1 \<le> 3" by simp_all
    from IH [OF this] obtain m where m: "k + 1 \<le> m" "m \<le> 3" "map snd (invoked v) = [k + 1..<Suc m]"
      and r: "r = station_loop review_station limit invoke aborted took (k + 1)
                (with_attempt acc (attempt_of review_station k (invoke k) (aborted k) (took k)))"
      unfolding e by blast
    have "invoked u = []" using trace_hook [OF again(2)] by blast
    then have "map snd (invoked t) = k # [k + 1..<Suc m]" using again(1) m(3) by simp
    also have "\<dots> = [k..<Suc m]" using m(1) by (simp add: upt_conv_Cons)
    finally have "map snd (invoked t) = [k..<Suc m]" .
    moreover have "r = station_loop review_station limit invoke aborted took k acc"
      using again(3) unfolding r e by (subst (2) loop_step) (simp add: Let_def)
    ultimately show ?thesis using m by (intro conjI exI [of _ m]) simp_all
  qed simp
qed

section \<open>The whole run\<close>

lemma escalation_cases:
  "postStationObservationEscalation sens n st cy fs k =
     await (postComment sens n (escalated_body n st cy fs k)) (\<lambda>p. Return (p, buildStationObservationObligationId st cy))"
  by (simp add: postStationObservationEscalation_def)

text \<open>The escalation: one record at most, of a station whose attempts are spent and whose obligation is open.\<close>

definition escalation :: "nat \<Rightarrow> station_run \<Rightarrow> nat \<Rightarrow> string" where
  "escalation n r cy = escalated_body n review_station cy (map at_failure_class (run_attempts r)) (length (run_attempts r))"

lemma trace_escalate:
  assumes "trace (escalate sens n durable r s) t x"
  shows "invoked t = [] \<and> x \<noteq> None \<and> (posted t = []
     \<or> durable \<and> exhausted r \<and> sm_open s \<and> (\<exists>a. posted t = [(escalation n r (the (sm_cycle s)), a)]))"
proof (cases "durable \<and> exhausted r \<and> sm_open s")
  case False
  then have "escalate sens n durable r s = Return ()" unfolding escalate_def by presburger
  then show ?thesis using assms by simp
next
  case True
  let ?post = "postComment sens n (escalation n r (the (sm_cycle s)))"
  have eq: "escalate sens n durable r s = await (resolveLedgerTarget (sm_target s)) (\<lambda>tg. case tg of None \<Rightarrow> Return ()
        | Some _ \<Rightarrow> await ?post (\<lambda>_. Return ()))"
    using True unfolding escalate_def escalation_def escalation_cases
    by (simp add: await_assoc cong: option.case_cong)
  obtain t1 t2 tg where t: "t = t1 @ t2" "trace (resolveLedgerTarget (sm_target s)) t1 (Some tg)"
    "trace (case tg of None \<Rightarrow> Return () | Some _ \<Rightarrow> await ?post (\<lambda>_. Return ())) t2 x"
    by (rule trace_awaitE [OF assms [unfolded eq]]) (use trace_target in blast, blast)
  have s1: "silent t1" using trace_target [OF t(2)] by simp
  show ?thesis
  proof (cases tg)
    case None
    then show ?thesis using t s1 by (simp add: silent_def)
  next
    case (Some g)
    have never: "\<not> trace ?post u None" for u using trace_post by blast
    obtain u v p where u: "t2 = u @ v" "trace ?post u (Some p)" "trace (Return ()) v x"
      by (rule trace_awaitE [OF t(3) [unfolded Some option.case] never])
    then have v: "t2 = u" "x \<noteq> None" by simp_all
    from trace_post [OF u(2)] have "invoked u = []" "posted u = [] \<or> (\<exists>a. posted u = [(escalation n r (the (sm_cycle s)), a)])"
      by (auto simp: posted_def)
    then show ?thesis using v True s1 t(1) by (auto simp: silent_def)
  qed
qed

lemma trace_run:
  assumes "trace (runStationWithObservationLedger sens n durable) t (Some out)"
  obtains a u v w s0 s where "t = (ReadContext, a) # u @ v @ w" "trace (recoverOpenObservation n) u (Some s0)"
    "trace (attempts_from sens n durable
       (JInt (resolveNonVerdictRetryLimit (case a of ContextIs ctx \<Rightarrow> fld (fld ctx ''workflow'') ''codex_review'' | _ \<Rightarrow> JUndef)))
       1 s0 []) v (Some (so_run out, s))"
    "trace (escalate sens n durable (so_run out) s) w (Some ())"
    "so_cycle out = sm_cycle s" "so_id out = sm_id s" "so_open out = sm_open s" "so_exhausted out = exhausted (so_run out)"
proof -
  obtain a z where a: "t = (ReadContext, a) # z" using assms by (auto simp: runStationWithObservationLedger_def)
  let ?block = "case a of ContextIs ctx \<Rightarrow> fld (fld ctx ''workflow'') ''codex_review'' | _ \<Rightarrow> JUndef"
  let ?limit = "JInt (resolveNonVerdictRetryLimit ?block)"
  let ?rest = "\<lambda>r s. await (escalate sens n durable r s) (\<lambda>_.
              Return \<lparr>so_run = r, so_cycle = sm_cycle s, so_id = sm_id s, so_open = sm_open s, so_exhausted = exhausted r\<rparr>)"
  have z: "trace (await (recoverOpenObservation n) (\<lambda>s0. await (attempts_from sens n durable ?limit 1 s0 []) (\<lambda>(r, s). ?rest r s))) z (Some out)"
    using assms a by (simp add: runStationWithObservationLedger_def Let_def)
  obtain u zz s0 where u: "z = u @ zz" "trace (recoverOpenObservation n) u (Some s0)"
    "trace (await (attempts_from sens n durable ?limit 1 s0 []) (\<lambda>(r, s). ?rest r s)) zz (Some out)"
    by (rule trace_awaitE [OF z]) (use recover_trace in blast, blast)
  obtain v w y where y: "zz = v @ w" "trace (attempts_from sens n durable ?limit 1 s0 []) v (Some y)"
    "trace (case y of (r, s) \<Rightarrow> ?rest r s) w (Some out)"
    using u(3) unfolding trace_await [of "attempts_from sens n durable ?limit 1 s0 []"] by blast
  obtain r s where "y = (r, s)" by (cases y)
  with y have v: "zz = v @ w" "trace (attempts_from sens n durable ?limit 1 s0 []) v (Some (r, s))"
    "trace (?rest r s) w (Some out)" by simp_all
  have "\<not> trace (escalate sens n durable r s) y None" for y using trace_escalate by blast
  from trace_awaitE [OF v(3) this] obtain w1 w2 e where w: "w = w1 @ w2" "trace (escalate sens n durable r s) w1 (Some e)"
    "trace (Return \<lparr>so_run = r, so_cycle = sm_cycle s, so_id = sm_id s, so_open = sm_open s, so_exhausted = exhausted r\<rparr>) w2 (Some out)"
    by blast
  then have "w = w1" "out = \<lparr>so_run = r, so_cycle = sm_cycle s, so_id = sm_id s, so_open = sm_open s, so_exhausted = exhausted r\<rparr>"
    by simp_all
  then show thesis using that [of a u v w s0 s] a u(1,2) v(1,2) w(2) by simp
qed

section \<open>Properties\<close>

text \<open>
  C6. The ledger of a run is honest, whatever the services answer: a review is handed an obligation only when a trusted
  read or an accepted record earlier in the run shows it open; a deferred run writes nothing; a run's records are
  openings of this station's obligation, none after an accepted one, and then at most one escalation, of a station whose
  every attempt rendered no verdict and whose obligation the run reports open.
\<close>

theorem station_ledger_honest:
  assumes "trace (runStationWithObservationLedger sens n durable) t (Some out)"
  shows "warranted n [] t
    \<and> (\<not> durable \<longrightarrow> posted t = [])
    \<and> (so_open out \<longrightarrow> opened_in n t \<lparr>ob_id = the (so_id out), ob_station = review_station, ob_cycle = the (so_cycle out)\<rparr>)
    \<and> (\<exists>os es. posted t = os @ es \<and> opening_run n os
         \<and> (es = [] \<or> so_open out \<and> exhausted (so_run out)
              \<and> (\<exists>a. es = [(escalation n (so_run out) (the (so_cycle out)), a)])))"
  using assms
proof (cases rule: trace_run)
  case (1 a u v w s0 s)
  let ?b = "(ReadContext, a)"
  note o = recover_trace [OF 1(2)] and e = trace_escalate [OF 1(4)]
  have "honest n ([?b] @ u) s0" using o by (auto simp: honest_def intro: opened_in_mono)
  note l = attempts_ledger [OF 1(3) this]
  have "warranted n [?b] u" "warranted n (([?b] @ u) @ v) w" by (rule warranted_silent; use o e in \<open>auto simp: silent_def\<close>)+
  then have "warranted n [] t" using l 1(1) by (simp add: warranted_append)
  moreover have p: "posted t = posted v @ posted w" using o 1(1) by (simp add: posted_def silent_def)
  moreover have "honest n t s"
    using l honest_append [of n "[?b] @ u @ v" s w] unfolding 1(1) by auto
  then have "so_open out \<longrightarrow> opened_in n t \<lparr>ob_id = the (so_id out), ob_station = review_station, ob_cycle = the (so_cycle out)\<rparr>"
    using 1(5,6,7) by (simp add: honest_def carried_def)
  moreover have "opening_run n (posted v)" using l by blast
  moreover have "posted w = [] \<or> so_open out \<and> exhausted (so_run out)
              \<and> (\<exists>a. posted w = [(escalation n (so_run out) (the (so_cycle out)), a)])"
    using e 1(5,7) by auto
  moreover have "\<not> durable \<longrightarrow> posted t = []" using l e p by auto
  ultimately show ?thesis by blast
qed

text \<open>
  C35. The ledger does not change what a station reports: whatever it reads or writes, the envelope, the verdict and the
  attempts of a run are those of \<open>runStationWithNonVerdictRetry\<close> on the answers the reviews gave, under the limit the
  repository configures, and the reviews are invoked with the ordinals 1, 2, ... up to at most 3.
\<close>

theorem station_run_refines:
  assumes "trace (runStationWithObservationLedger sens n durable) t (Some out)" and "answers t invoke aborted took"
  shows "\<exists>a u m. t = (ReadContext, a) # u \<and> 1 \<le> m \<and> m \<le> 3 \<and> map snd (invoked t) = [1..<Suc m]
    \<and> so_run out = runStationWithNonVerdictRetry review_station
        (JInt (resolveNonVerdictRetryLimit (case a of ContextIs ctx \<Rightarrow> fld (fld ctx ''workflow'') ''codex_review'' | _ \<Rightarrow> JUndef)))
        invoke aborted took"
  using assms(1)
proof (cases rule: trace_run)
  case (1 a u v w s0 s)
  have "answers v invoke aborted took" using assms(2) 1(1) by (simp add: answers_def)
  from attempts_refine [OF 1(3) this] obtain m where m: "1 \<le> m" "m \<le> 3" "map snd (invoked v) = [1..<Suc m]"
    and r: "so_run out = station_loop review_station
       (JInt (resolveNonVerdictRetryLimit (case a of ContextIs ctx \<Rightarrow> fld (fld ctx ''workflow'') ''codex_review'' | _ \<Rightarrow> JUndef)))
       invoke aborted took 1 []" by auto
  have "invoked [(ReadContext, a)] = []" by (simp add: invoked_def)
  then have "invoked t = invoked v" using recover_trace [OF 1(2)] trace_escalate [OF 1(4)]
    invoked_simps(2) [of "[(ReadContext, a)]" "u @ v @ w"] 1(1) by (simp add: silent_def)
  then show ?thesis using m 1(1) r
    by (intro exI [of _ a] exI [of _ "u @ v @ w"] exI [of _ m]) (simp add: runStationWithNonVerdictRetry_def effective_limit_def)
qed


section \<open>A run on concrete answers\<close>

text \<open>
  The thread shows nothing open; the first attempt covers nothing and its obligation is recorded, the second is handed
  it and renders a verdict.
\<close>

definition cut_env :: js where "cut_env = JObj [(''ok'', JBool False), (''error'', JStr ''review_coverage_incomplete'')]"

definition verdict_env :: js where "verdict_env = JObj [(''ok'', JBool True)]"

definition sample_observation :: observation where
  "sample_observation = \<lparr>ob_id = buildStationObservationObligationId review_station 1, ob_station = review_station, ob_cycle = 1\<rparr>"

definition sample_body :: string where
  "sample_body = opened_body 7 review_station 1 ''incomplete_reviewer_coverage'' 1"

definition sample_run :: "(station_request \<times> station_answer) list" where
  "sample_run = [(ReadContext, Failed ''x''), (ResolveTarget, TargetIs ''o'' ''n''), (ReadBodies 7, BodiesAre []),
     (ReadComments 7, Failed ''x''), (InvokeReview None 1, Reviewed cut_env False 5), (ReadBodies 7, BodiesAre []),
     (PostComment 7 sample_body, PostedAt ''u''), (InvokeReview (Some sample_observation) 2, Reviewed verdict_env False 6)]"

definition sample_outcome :: station_outcome where
  "sample_outcome = \<lparr>so_run = \<lparr>run_envelope = verdict_env, run_observed = True,
       run_attempts = [missed review_station (\<lambda>_. cut_env) (\<lambda>_. 5) 1,
         \<lparr>at_station = review_station, at_ordinal = 2, at_result = StPass, at_failure_class = None, at_duration = 6\<rparr>]\<rparr>,
     so_cycle = Some 1, so_id = Some (buildStationObservationObligationId review_station 1), so_open = True, so_exhausted = False\<rparr>"

lemma sample_body_short: "\<not> length sample_body > record_body_max"
proof -
  have "length sample_body \<le> 2000" by code_simp
  then show ?thesis by (simp add: record_body_max_def)
qed

lemma sample_classes:
  "classifyStationAttempt cut_env False = \<lparr>evaluable = False, retryable = True, failure_class = Some ''incomplete_reviewer_coverage''\<rparr>"
  "classifyStationAttempt verdict_env False = \<lparr>evaluable = True, retryable = False, failure_class = None\<rparr>"
  "attempt_of review_station 1 cut_env False 5 = Some (missed review_station (\<lambda>_. cut_env) (\<lambda>_. 5) 1)"
  "attempt_of review_station 2 verdict_env False 6 =
     Some \<lparr>at_station = review_station, at_ordinal = 2, at_result = StPass, at_failure_class = None, at_duration = 6\<rparr>"
  by code_simp+

lemma sample_limit: "JInt (resolveNonVerdictRetryLimit JUndef) = JInt 1"
  by (simp add: resolveNonVerdictRetryLimit_def retry_limit_default_def fld_def nullish_def)

lemma sample_retry:
  "retry_again (decideNonVerdictRetry 1 (JInt 1) (classifyStationAttempt cut_env False))"
  "\<not> retry_again (decideNonVerdictRetry 2 (JInt 1) (classifyStationAttempt verdict_env False))"
  by code_simp+

lemma trace_againI:
  assumes "trace (hook sens n durable s (attempt_of review_station k env aborted took)) u (Some s')"
    and "retry_again (decideNonVerdictRetry k limit (classifyStationAttempt env aborted))"
    and "trace (attempts_from sens n durable limit (k + 1) s' (with_attempt acc (attempt_of review_station k env aborted took))) v x"
  shows "trace (attempts_from sens n durable limit k s acc) ((InvokeReview (carried s) k, Reviewed env aborted took) # u @ v) x"
  by (subst attempts_from.simps)
    (use trace_awaitI [OF assms(1) [unfolded hook_def]] assms(2,3) [unfolded with_attempt_def] in \<open>simp add: Let_def\<close>)

lemma sample_class:
  "(case fld cut_env ''error'' of JStr e \<Rightarrow> non_verdict_failure_class e | _ \<Rightarrow> None) = Some ''incomplete_reviewer_coverage''"
  by code_simp

lemma sample_hook:
  "trace (hook (\<lambda>_. None) 7 True \<lparr>sm_target = Some (''o'', ''n''), sm_cycle = Some 1, sm_id = None, sm_open = False\<rparr>
       (Some (missed review_station (\<lambda>_. cut_env) (\<lambda>_. 5) 1)))
     [(ReadBodies 7, BodiesAre []), (PostComment 7 sample_body, PostedAt ''u'')]
     (Some \<lparr>sm_target = Some (''o'', ''n''), sm_cycle = Some 1,
            sm_id = Some (buildStationObservationObligationId review_station 1), sm_open = True\<rparr>)"
  using sample_body_short unfolding sample_body_def
  by (simp add: sample_class hook_def missed_def onAttempt_def resolveLedgerTarget_def resolveLogicalCycle_def
      parseCodexReviewPrePushCycleMarkers_def postStationObservationOpened_def postComment_def failure_text_def)

lemma sample_recover:
  "trace (recoverOpenObservation 7)
     [(ResolveTarget, TargetIs ''o'' ''n''), (ReadBodies 7, BodiesAre []), (ReadComments 7, Failed ''x'')]
     (Some \<lparr>sm_target = Some (''o'', ''n''), sm_cycle = Some 1, sm_id = None, sm_open = False\<rparr>)"
  by (simp add: recoverOpenObservation_def resolveLedgerTarget_def resolveLogicalCycle_def readOpen_def Let_def
      parseCodexReviewPrePushCycleMarkers_def)

lemma sample_attempts:
  "trace (attempts_from (\<lambda>_. None) 7 True (JInt 1) 1
       \<lparr>sm_target = Some (''o'', ''n''), sm_cycle = Some 1, sm_id = None, sm_open = False\<rparr> [])
     [(InvokeReview None 1, Reviewed cut_env False 5), (ReadBodies 7, BodiesAre []),
      (PostComment 7 sample_body, PostedAt ''u''), (InvokeReview (Some sample_observation) 2, Reviewed verdict_env False 6)]
     (Some (so_run sample_outcome, \<lparr>sm_target = Some (''o'', ''n''), sm_cycle = Some 1,
        sm_id = Some (buildStationObservationObligationId review_station 1), sm_open = True\<rparr>))"
proof -
  let ?s = "\<lparr>sm_target = Some (''o'', ''n''), sm_cycle = Some 1,
        sm_id = Some (buildStationObservationObligationId review_station 1), sm_open = True\<rparr>"
  have second: "trace (attempts_from (\<lambda>_. None) 7 True (JInt 1) 2 ?s [missed review_station (\<lambda>_. cut_env) (\<lambda>_. 5) 1])
     [(InvokeReview (Some sample_observation) 2, Reviewed verdict_env False 6)] (Some (so_run sample_outcome, ?s))"
    using sample_retry(2)
    by (subst attempts_from.simps)
      (simp add: carried_def sample_observation_def sample_classes sample_outcome_def Let_def onAttempt_def)
  have "trace (attempts_from (\<lambda>_. None) 7 True (JInt 1) (1 + 1) ?s (with_attempt [] (attempt_of review_station 1 cut_env False 5)))
     [(InvokeReview (Some sample_observation) 2, Reviewed verdict_env False 6)] (Some (so_run sample_outcome, ?s))"
    unfolding sample_classes one_add_one using second by (simp add: with_attempt_def)
  from trace_againI [OF sample_hook [folded sample_classes(3)] sample_retry(1) this]
  show ?thesis by (simp add: carried_def)
qed

lemma sample_trace: "trace (runStationWithObservationLedger (\<lambda>_. None) 7 True) sample_run (Some sample_outcome)"
proof -
  let ?s = "\<lparr>sm_target = Some (''o'', ''n''), sm_cycle = Some 1,
        sm_id = Some (buildStationObservationObligationId review_station 1), sm_open = True\<rparr>"
  let ?rest = "\<lambda>(r, s). await (escalate (\<lambda>_. None) 7 True r s) (\<lambda>_.
      Return \<lparr>so_run = r, so_cycle = sm_cycle s, so_id = sm_id s, so_open = sm_open s, so_exhausted = exhausted r\<rparr>)"
  have out: "\<lparr>so_run = so_run sample_outcome, so_cycle = sm_cycle ?s, so_id = sm_id ?s, so_open = sm_open ?s,
      so_exhausted = exhausted (so_run sample_outcome)\<rparr> = sample_outcome"
    by (simp add: sample_outcome_def exhausted_def)
  have "escalate (\<lambda>_. None) 7 True (so_run sample_outcome) ?s = Return ()"
    by (simp add: escalate_def sample_outcome_def exhausted_def)
  then have "trace (await (escalate (\<lambda>_. None) 7 True (so_run sample_outcome) ?s) (\<lambda>_.
      Return \<lparr>so_run = so_run sample_outcome, so_cycle = sm_cycle ?s, so_id = sm_id ?s, so_open = sm_open ?s,
        so_exhausted = exhausted (so_run sample_outcome)\<rparr>)) [] (Some sample_outcome)"
    unfolding out by simp
  then have "trace (?rest (so_run sample_outcome, ?s)) [] (Some sample_outcome)" by simp
  from trace_awaitI [where f = ?rest, OF sample_attempts this]
  have "trace ((\<lambda>s0. await (attempts_from (\<lambda>_. None) 7 True (JInt 1) 1 s0 []) ?rest)
      \<lparr>sm_target = Some (''o'', ''n''), sm_cycle = Some 1, sm_id = None, sm_open = False\<rparr>) (drop 4 sample_run) (Some sample_outcome)"
    by (simp add: sample_run_def)
  from trace_awaitI [where f = "\<lambda>s0. await (attempts_from (\<lambda>_. None) 7 True (JInt 1) 1 s0 []) ?rest", OF sample_recover this]
  show ?thesis unfolding runStationWithObservationLedger_def sample_run_def by (simp add: Let_def sample_limit)
qed

lemma station_ledger_honest_witness:
  "warranted 7 [] sample_run \<and> opened_in 7 sample_run sample_observation
   \<and> invoked sample_run = [(None, 1), (Some sample_observation, 2)]"
  using station_ledger_honest [OF sample_trace]
  by (simp add: sample_outcome_def sample_observation_def) (simp add: sample_run_def invoked_def sample_observation_def)

lemma station_run_refines_witness:
  "so_run sample_outcome = runStationWithNonVerdictRetry review_station (JInt 1)
     (\<lambda>k. if k = 1 then cut_env else verdict_env) (\<lambda>_. False) (\<lambda>k. k + 4)"
proof -
  have a: "answers sample_run (\<lambda>k. if k = 1 then cut_env else verdict_env) (\<lambda>_. False) (\<lambda>k. k + 4)"
    by (simp add: answers_def sample_run_def)
  from station_run_refines [OF sample_trace a] show ?thesis
    by (auto simp: sample_run_def sample_limit)
qed

end
