(* ===== verification/DeliveryRecord.thy ===== *)
theory DeliveryRecord
  imports CloseIssue ReviewCap
begin

text \<open>
  The handoff of a delivery from the agent to the merge event (\<open>lib/delivery-readiness.js\<close>): the readiness record on
  the issue, which carries the completion payload bound to a pull request and its head, and the pointer on the pull
  request, which only says where to look. SHA-256 (\<open>sha\<close>, of the text's bytes to lower-case hexadecimal) is a parameter.
\<close>

section \<open>Backtracking\<close>

text \<open>
  \<open>P*\<close> and \<open>P*?\<close> before the rest \<open>k\<close> of a pattern, in the order the engine tries them: longest first, shortest first.
\<close>

fun greedy :: "(char \<Rightarrow> bool) \<Rightarrow> (string \<Rightarrow> 'a option) \<Rightarrow> string \<Rightarrow> 'a option" where
  "greedy P k [] = k []"
| "greedy P k (c # s) =
     (if P c then (case greedy P k s of Some a \<Rightarrow> Some a | None \<Rightarrow> k (c # s)) else k (c # s))"

fun lazy :: "(char \<Rightarrow> bool) \<Rightarrow> (string \<Rightarrow> 'a option) \<Rightarrow> string \<Rightarrow> (string \<times> 'a) option" where
  "lazy P k [] = map_option (\<lambda>a. ([], a)) (k [])"
| "lazy P k (c # s) =
     (case k (c # s) of
        Some a \<Rightarrow> Some ([], a)
      | None \<Rightarrow> if P c then map_option (\<lambda>(v, a). (c # v, a)) (lazy P k s) else None)"

definition not_nl :: "char \<Rightarrow> bool" where
  "not_nl c \<longleftrightarrow> c \<noteq> nl"

lemma greedy_none: "\<not> P c \<Longrightarrow> greedy P k (c # s) = k (c # s)"
  by simp

lemma greedy_one: "P c \<Longrightarrow> \<not> P d \<Longrightarrow> k (d # s) = Some a \<Longrightarrow> greedy P k (c # d # s) = Some a"
  by simp

lemma lazy_found:
  assumes "\<forall>c \<in> set v. P c" and "\<And>u c w. v = u @ c # w \<Longrightarrow> k (c # w @ s) = None" and "k s = Some a"
  shows "lazy P k (v @ s) = Some (v, a)"
  using assms
proof (induction v)
  case Nil
  then show ?case by (cases s) simp_all
next
  case (Cons c v)
  have "k (c # v @ s) = None" using Cons.prems(2) [of "[]" c v] by simp
  moreover have "k (d # w @ s) = None" if "v = u @ d # w" for u d w
    using Cons.prems(2) [of "c # u" d w] that by simp
  ultimately show ?case using Cons by simp
qed

section \<open>The records\<close>

definition delivery_readiness_version :: nat where "delivery_readiness_version = 1"

definition delivery_lanes :: "string list" where "delivery_lanes = [''implement'', ''quickfix'']"

definition delivery_payload_max :: nat where "delivery_payload_max = 48000"

definition comment_units_max :: nat where "comment_units_max = 65535"

definition full_git_oid :: "string \<Rightarrow> bool" where
  "full_git_oid s \<longleftrightarrow> hex_run 40 s"

definition escaped_hyphen :: string where
  "escaped_hyphen = bs # ''u002d''"

definition no_hyphens :: "string \<Rightarrow> string" where
  "no_hyphens s = concat (map (\<lambda>c. if c = CHR ''-'' then escaped_hyphen else [c]) s)"

definition encodeDeliveryPayload :: "(int \<Rightarrow> nat \<Rightarrow> string) \<Rightarrow> js \<Rightarrow> string" where
  "encodeDeliveryPayload frac payload = no_hyphens (json_text frac payload)"

definition readiness_attrs :: "nat \<Rightarrow> nat \<Rightarrow> string \<Rightarrow> string \<Rightarrow> string \<Rightarrow> string" where
  "readiness_attrs n pr lane head digest =
     ''version='' @ [dq] @ show_nat delivery_readiness_version @ [dq] @ attr_str ''issue'' (show_nat n)
     @ attr_str ''pr'' (show_nat pr) @ attr_str ''lane'' lane @ attr_str ''head'' head @ attr_str ''digest'' digest"

definition readiness_head :: "nat \<Rightarrow> nat \<Rightarrow> string" where
  "readiness_head n pr =
     ''**Delivery readiness recorded** '' @ em_dash @ '' Phase E finalizes issue #'' @ show_nat n
     @ '' automatically when PR #'' @ show_nat pr @ '' merges.'' @ [nl, nl]"

definition readiness_block :: "string \<times> string \<Rightarrow> string" where
  "readiness_block ap = ''<!-- gc:delivery-readiness '' @ fst ap @ nl # snd ap @ nl # ''-->''"

definition buildDeliveryReadinessRecord ::
  "(string \<Rightarrow> string) \<Rightarrow> (int \<Rightarrow> nat \<Rightarrow> string) \<Rightarrow> nat \<Rightarrow> nat \<Rightarrow> string \<Rightarrow> string \<Rightarrow> js \<Rightarrow> string" where
  "buildDeliveryReadinessRecord sha frac n pr lane head payload =
     (let body = encodeDeliveryPayload frac payload
      in readiness_head n pr @ readiness_block (readiness_attrs n pr lane head (sha body), body))"

definition pointer_record :: "nat option \<Rightarrow> string" where
  "pointer_record r = (case r of Some k \<Rightarrow> show_nat k | None \<Rightarrow> ''null'')"

definition buildDeliveryPointerRecord :: "nat \<Rightarrow> nat \<Rightarrow> nat option \<Rightarrow> string" where
  "buildDeliveryPointerRecord n pr r =
     ''**Ground Control delivery** '' @ em_dash @ '' this pull request delivers issue #'' @ show_nat n
     @ ''; Phase E runs on merge.'' @ [nl, nl]
     @ ''<!-- gc:delivery-pointer'' @ attr_str ''issue'' (show_nat n) @ attr_str ''pr'' (show_nat pr)
     @ attr_str ''record'' (pointer_record r) @ '' -->''"

section \<open>Reading them\<close>

text \<open>\<open>READINESS_RE\<close>: the attribute text and the payload text.\<close>

definition readiness_close :: "string \<Rightarrow> string option" where
  "readiness_close s = do { r \<leftarrow> lit [nl] s; greedy is_ws (lit ''-->'') r }"

definition readiness_payload :: "string matcher" where
  "readiness_payload s = do { r \<leftarrow> lit [nl] s; lazy (\<lambda>_. True) readiness_close r }"

definition readiness_text :: "(string \<times> string) matcher" where
  "readiness_text s = map_option (\<lambda>(at, p, r). ((at, p), r)) (lazy not_nl (greedy is_ws readiness_payload) s)"

definition readiness_marker :: "(string \<times> string) matcher" where
  "readiness_marker s = do {
     s1 \<leftarrow> lit ''<!--'' s;
     greedy is_ws (\<lambda>s2. do {
       s3 \<leftarrow> lit ''gc:delivery-readiness'' s2;
       (case s3 of [] \<Rightarrow> None | c # s4 \<Rightarrow> if is_ws c then greedy is_ws readiness_text s4 else None) }) s1 }"

record handoff =
  hf_version :: "nat option"
  hf_issue :: "nat option"
  hf_pr :: "nat option"
  hf_lane :: "string option"
  hf_head :: "string option"
  hf_digest :: "string option"
  hf_text :: string

definition handoff_of :: "string \<times> string \<Rightarrow> handoff" where
  "handoff_of ap =
     (let a = attributes (fst ap)
      in \<lparr>hf_version = positiveInt (jm_get a ''version''), hf_issue = positiveInt (jm_get a ''issue''),
          hf_pr = positiveInt (jm_get a ''pr''), hf_lane = jm_get a ''lane'', hf_head = jm_get a ''head'',
          hf_digest = jm_get a ''digest'', hf_text = snd ap\<rparr>)"

definition parseDeliveryReadinessMarkers :: "string \<Rightarrow> handoff list" where
  "parseDeliveryReadinessMarkers body = map handoff_of (find_all readiness_marker body)"

record pointer =
  po_issue :: "nat option"
  po_pr :: "nat option"
  po_record :: "nat option"

definition parseDeliveryPointerMarkers :: "string \<Rightarrow> pointer list" where
  "parseDeliveryPointerMarkers body =
     map (\<lambda>txt. let a = attributes txt
                in \<lparr>po_issue = positiveInt (jm_get a ''issue''), po_pr = positiveInt (jm_get a ''pr''),
                    po_record = positiveInt (jm_get a ''record'')\<rparr>)
       (find_all (attr_marker ''gc:delivery-pointer'') body)"

definition collectReadinessMarkers :: "comment list \<Rightarrow> nat \<Rightarrow> nat \<Rightarrow> (comment \<times> handoff) list" where
  "collectReadinessMarkers cs n pr =
     concat (map (\<lambda>c. map (\<lambda>m. (c, m))
         (filter (\<lambda>m. hf_issue m = Some n \<and> hf_pr m = Some pr) (parseDeliveryReadinessMarkers (c_body c))))
       (filter (\<lambda>c. unit_length (c_body c) \<le> comment_units_max) cs))"

definition decodeRecord :: "(string \<Rightarrow> string) \<Rightarrow> handoff \<Rightarrow> js option" where
  "decodeRecord sha m =
     (if unit_length (hf_text m) > delivery_payload_max then None
      else if \<not> (case hf_digest m of Some d \<Rightarrow> hex_run 64 d | None \<Rightarrow> False) then None
      else if hf_digest m \<noteq> Some (sha (hf_text m)) then None
      else if \<not> (case hf_head m of Some h \<Rightarrow> full_git_oid h | None \<Rightarrow> False) then None
      else if \<not> (case hf_lane m of Some l \<Rightarrow> l \<in> set delivery_lanes | None \<Rightarrow> False) then None
      else (case json_parse (hf_text m) of
              Some (JObj fs) \<Rightarrow> Some (JObj fs)
            | _ \<Rightarrow> None))"

text \<open>A refusal is its code and its message.\<close>

type_synonym refusal = "string \<times> string"

definition bind_text :: "nat \<Rightarrow> nat \<Rightarrow> string" where
  "bind_text n pr = ''issue #'' @ show_nat n @ '' to PR #'' @ show_nat pr"

record delivery =
  dl_marker :: handoff
  dl_payload :: js
  dl_comment :: "int option"

definition decodeDeliveries :: "(string \<Rightarrow> string) \<Rightarrow> (comment \<times> handoff) list \<Rightarrow> delivery list" where
  "decodeDeliveries sha ms = concat (map (\<lambda>(c, m). case decodeRecord sha m of
       Some p \<Rightarrow> [\<lparr>dl_marker = m, dl_payload = p, dl_comment = c_id c\<rparr>] | None \<Rightarrow> []) ms)"

text \<open>The thread, or what reading it failed with; the permissions of its authors.\<close>

definition readTrustedDeliveryReadiness ::
  "(string \<Rightarrow> string) \<Rightarrow> (string \<Rightarrow> string option) \<Rightarrow> string + comment list \<Rightarrow> nat \<Rightarrow> nat \<Rightarrow> string option \<Rightarrow> refusal + delivery" where
  "readTrustedDeliveryReadiness sha perm thread n pr head =
     (case thread of
        Inl e \<Rightarrow> Inl (''delivery_readiness_unreadable'', e)
      | Inr cs \<Rightarrow>
          let matching = collectReadinessMarkers cs n pr;
              t = resolveExecutionObligationTrust perm cs;
              trusted = filter (\<lambda>(c, m). isTrusted t c) matching;
              supported = filter (\<lambda>(c, m). hf_version m = Some delivery_readiness_version) trusted;
              decoded = decodeDeliveries sha supported;
              atHead = filter (\<lambda>d. hf_head (dl_marker d) = head) decoded;
              digests = remdups (map (\<lambda>d. hf_digest (dl_marker d)) atHead)
          in if matching = [] then Inl (''delivery_readiness_missing'', ''no delivery-readiness record binds '' @ bind_text n pr)
             else if trusted = [] then Inl (''delivery_readiness_untrusted'',
               ''every delivery-readiness record for PR #'' @ show_nat pr
               @ '' was authored outside the repository'' @ [CHR 0x27] @ ''s write set'')
             else if supported = [] then Inl (''delivery_readiness_version_unsupported'',
               ''delivery-readiness envelope version is not '' @ show_nat delivery_readiness_version
               @ ''; refusing to guess its shape'')
             else if decoded = [] then Inl (''delivery_readiness_corrupt'',
               ''no delivery-readiness record for PR #'' @ show_nat pr @ '' passed its digest, bound, and shape checks'')
             else if atHead = [] then Inl (''delivery_readiness_head_mismatch'',
               ''delivery-readiness for PR #'' @ show_nat pr @ '' was recorded against a different head than the merged one'')
             else if length digests > 1 then Inl (''delivery_readiness_conflicting'',
               ''PR #'' @ show_nat pr @ '' carries '' @ show_nat (length digests)
               @ '' disagreeing delivery-readiness records for its merged head'')
             else Inr (last atHead))"

definition collectPointers :: "comment list \<Rightarrow> nat \<Rightarrow> (comment \<times> pointer) list" where
  "collectPointers cs pr = concat (map (\<lambda>c. map (\<lambda>m. (c, m))
     (filter (\<lambda>m. po_pr m = Some pr \<and> po_issue m \<noteq> None) (parseDeliveryPointerMarkers (c_body c)))) cs)"

definition readTrustedDeliveryPointer ::
  "(string \<Rightarrow> string option) \<Rightarrow> string + comment list \<Rightarrow> nat \<Rightarrow> refusal + pointer" where
  "readTrustedDeliveryPointer perm thread pr =
     (case thread of
        Inl e \<Rightarrow> Inl (''delivery_pointer_unreadable'', e)
      | Inr cs \<Rightarrow>
          let matching = collectPointers cs pr;
              t = resolveExecutionObligationTrust perm cs;
              trusted = filter (\<lambda>(c, m). isTrusted t c) matching;
              issues = remdups (map (\<lambda>(c, m). po_issue m) trusted)
          in if matching = [] then Inl (''delivery_pointer_missing'',
               ''PR #'' @ show_nat pr @ '' carries no Ground Control delivery pointer'')
             else if trusted = [] then Inl (''delivery_pointer_untrusted'',
               ''every delivery pointer on PR #'' @ show_nat pr
               @ '' was authored outside the repository'' @ [CHR 0x27] @ ''s write set'')
             else if length issues > 1 then Inl (''delivery_pointer_conflicting'',
               ''PR #'' @ show_nat pr @ '' points at '' @ show_nat (length issues) @ '' different issues; refusing to choose one'')
             else Inr (snd (last trusted)))"

section \<open>The payload reads back\<close>

lemma no_hyphens_simps [simp]:
  "no_hyphens [] = []" "no_hyphens (c # s) = (if c = CHR ''-'' then escaped_hyphen else [c]) @ no_hyphens s"
  "no_hyphens (s @ t) = no_hyphens s @ no_hyphens t"
  by (simp_all add: no_hyphens_def)

lemma no_hyphens_id: "CHR ''-'' \<notin> set s \<Longrightarrow> no_hyphens s = s"
  by (induction s) auto

lemma no_hyphens_none: "CHR ''-'' \<notin> set (no_hyphens s)"
  by (induction s) (auto simp: escaped_hyphen_def)

lemma escaped_hyphen_decoded: "json_unescape (escaped_hyphen @ s) = map_option (\<lambda>r. CHR ''-'' # r) (json_unescape s)"
proof -
  have "utf8 45 = ''-''" by code_simp
  then show ?thesis by (simp add: escaped_hyphen_def simple_escape_def hex4_def hex_val_def is_digit_def less_eq_char_def append_single)
qed

lemma escaped_hyphen_raw: "json_raw (escaped_hyphen @ s) = map_option (\<lambda>(v, r). (escaped_hyphen @ v, r)) (json_raw s)"
  by (cases "json_raw s") (simp_all add: escaped_hyphen_def split: prod.splits)

lemma hex_digit_no_hyphen: "d < 16 \<Longrightarrow> hex_digit d \<noteq> CHR ''-''"
  by (drule hex_val_digit) (auto simp: hex_val_def is_digit_def less_eq_char_def)

lemma escape_no_hyphen: "c \<noteq> CHR ''-'' \<Longrightarrow> CHR ''-'' \<notin> set (json_escape_char c)"
  by (auto simp: json_escape_char_def control_def hex_digit_no_hyphen [symmetric])

lemma escaped_char: "no_hyphens (json_escape_char c) = (if c = CHR ''-'' then escaped_hyphen else json_escape_char c)"
proof (cases "c = CHR ''-''")
  case True
  then show ?thesis by (simp add: json_escape_char_def control_def)
next
  case False
  then show ?thesis using escape_no_hyphen [OF False] by (simp add: no_hyphens_id)
qed

lemma escaped_decoded: "json_unescape (no_hyphens (json_escape s)) = Some s"
  by (induction s) (auto simp: json_escape_def escaped_char escaped_hyphen_decoded json_unescape_escape_char)

lemma escaped_raw: "json_raw (no_hyphens (json_escape s) @ dq # r) = Some (no_hyphens (json_escape s), dq # r)"
proof (induction s)
  case Nil
  then show ?case by (simp add: json_escape_def)
next
  case (Cons c s)
  then show ?case by (simp add: json_escape_def escaped_char escaped_hyphen_raw escape_char_raw)
qed

lemma escaped_quoted: "quoted (no_hyphens (json_escape s) @ dq # r) = Some (s, r)"
  by (simp add: quoted_def escaped_raw escaped_decoded)

text \<open>Values with no number below zero: elsewhere a hyphen stands in a string.\<close>

fun unsigned :: "js \<Rightarrow> bool" where
  "unsigned (JInt n) = (0 \<le> n)"
| "unsigned (JArr vs) = list_all unsigned vs"
| "unsigned (JObj fs) = list_all (\<lambda>(k, v). unsigned v) fs"
| "unsigned _ = True"

lemma no_hyphens_sep: "no_hyphens (sep_by ws) = sep_by (map no_hyphens ws)"
  by (induction ws rule: sep_by.induct) simp_all

lemma show_nat_hyphen: "CHR ''-'' \<notin> set (show_nat k)"
  using show_nat_digits [of k] by (auto simp: is_digit_def less_eq_char_def)

lemma encoded_simps:
  "encodeDeliveryPayload frac JNull = ''null''" "encodeDeliveryPayload frac (JBool b) = (if b then ''true'' else ''false'')"
  "encodeDeliveryPayload frac (JStr s) = dq # no_hyphens (json_escape s) @ [dq]"
  "0 \<le> n \<Longrightarrow> encodeDeliveryPayload frac (JInt n) = show_int n"
  "encodeDeliveryPayload frac (JArr vs) = CHR ''['' # sep_by (map (encodeDeliveryPayload frac) vs) @ '']''"
  by (simp_all add: encodeDeliveryPayload_def json_string_def show_int_def no_hyphens_id show_nat_hyphen no_hyphens_sep comp_def encodeDeliveryPayload_def [abs_def])

lemma encoded_object:
  assumes "list_all (\<lambda>(k, v). printable v) fs"
  shows "encodeDeliveryPayload frac (JObj fs) =
    CHR ''{'' # sep_by (map (\<lambda>(k, v). dq # (no_hyphens (json_escape k) @ [dq]) @ CHR '':'' # encodeDeliveryPayload frac v) fs) @ ''}''"
proof -
  have all: "filter (\<lambda>(k, v). v \<noteq> JUndef) fs = fs" using assms by (auto simp: list_all_iff filter_id_conv)
  have c: "map (\<lambda>x. no_hyphens (case x of (k, v) \<Rightarrow> json_string k @ CHR '':'' # json_text frac v)) fs
    = map (\<lambda>(k, v). dq # (no_hyphens (json_escape k) @ [dq]) @ CHR '':'' # encodeDeliveryPayload frac v) fs"
    by (auto simp: encodeDeliveryPayload_def json_string_def)
  show ?thesis unfolding c [symmetric] by (simp add: encodeDeliveryPayload_def all no_hyphens_sep comp_def)
qed

lemma encoded_head: "printable v \<Longrightarrow> unsigned v \<Longrightarrow> \<exists>c t. encodeDeliveryPayload frac v = c # t \<and> \<not> json_ws c \<and> c \<noteq> CHR '']''"
proof -
  assume v: "printable v" "unsigned v"
  obtain c t where c: "json_text frac v = c # t" "\<not> json_ws c" "c \<noteq> CHR '']''" using text_head [OF v(1)] by blast
  show ?thesis
  proof (cases "c = CHR ''-''")
    case False
    then show ?thesis using c by (simp add: encodeDeliveryPayload_def)
  next
    case True
    then show ?thesis
    proof (cases v)
      case (JInt n)
      then have "json_text frac v = show_nat (nat n)" using v by (simp add: show_int_def)
      then have "c \<in> set (show_nat (nat n))" using c(1) by (metis list.set_intros(1))
      then show ?thesis using True show_nat_hyphen [of "nat n"] by simp
    qed (use v c True in \<open>auto simp: json_string_def split: if_splits\<close>)
  qed
qed

lemma encoded_read:
  "printable v \<Longrightarrow> unsigned v \<Longrightarrow> ends_number r \<Longrightarrow> 2 * length (encodeDeliveryPayload frac v) < k \<Longrightarrow>
     jval k (encodeDeliveryPayload frac v @ r) = Some (v, r)"
proof (induction v arbitrary: r k)
  case (JStr s)
  then show ?case by (cases k) (simp_all add: encoded_simps skip_def json_ws_def escaped_quoted)
next
  case (JInt n)
  then show ?case using number_jval by (cases k) (simp_all add: encoded_simps)
next
  case (JArr vs)
  obtain k' where k: "k = Suc k'" using JArr.prems(4) by (cases k) auto
  show ?case
  proof (cases "vs = []")
    case True
    then show ?thesis using k by (simp add: encoded_simps skip_def json_ws_def)
  next
    case False
    have "elems k' (sep_by (map (encodeDeliveryPayload frac) vs) @ CHR '']'' # r) = Some (vs, r)"
      using JArr k by (intro elems_text False) (auto simp: list_all_iff encoded_simps)
    moreover obtain c t where "sep_by (map (encodeDeliveryPayload frac) vs) = c # t" "\<not> json_ws c" "c \<noteq> CHR '']''"
    proof -
      obtain w ws where w: "vs = w # ws" using False by (cases vs) auto
      with JArr.prems(1,2) obtain c t where "encodeDeliveryPayload frac w = c # t" "\<not> json_ws c" "c \<noteq> CHR '']''"
        using encoded_head [of w frac] by auto
      then show ?thesis using that w by (cases ws) auto
    qed
    ultimately show ?thesis using k by (simp add: encoded_simps skip_head) (simp add: skip_def json_ws_def)
  qed
next
  case (JObj fs)
  obtain k' where k: "k = Suc k'" using JObj.prems(4) by (cases k) auto
  have all: "list_all (\<lambda>(k, v). printable v) fs" using JObj.prems(1) by simp
  note eq = encoded_object [OF all, of frac]
  show ?case
  proof (cases "fs = []")
    case True
    then show ?thesis using k eq by (simp add: skip_def json_ws_def)
  next
    case False
    let ?txt = "sep_by (map (\<lambda>(k, v). dq # (no_hyphens (json_escape k) @ [dq]) @ CHR '':'' # encodeDeliveryPayload frac v) fs)"
    have "members k' [] (?txt @ CHR ''}'' # r) = Some ([] @ fs, r)"
    proof (rule members_text [where nm = "\<lambda>k. no_hyphens (json_escape k) @ [dq]" and pr = "encodeDeliveryPayload frac"])
      show "quoted ((no_hyphens (json_escape key) @ [dq]) @ w) = Some (key, w)" for key w by (simp add: escaped_quoted)
      show "jval ka (encodeDeliveryPayload frac v @ ra) = Some (v, ra)"
        if "(key, v) \<in> set fs" "ends_number ra" "2 * length (encodeDeliveryPayload frac v) < ka" for key v ra ka
        using that JObj.prems(1,2) by (intro JObj.IH [of "(key, v)"]) (auto simp: list_all_iff)
    qed (use False JObj.prems k eq in auto)
    moreover obtain t where "?txt = dq # t"
      using False by (cases fs; cases "tl fs") auto
    ultimately show ?thesis using k unfolding eq by simp (simp add: skip_def json_ws_def)
  qed
qed (case_tac k; simp add: encoded_simps skip_def json_ws_def)+

lemma payload_read: "printable v \<Longrightarrow> unsigned v \<Longrightarrow> json_parse (encodeDeliveryPayload frac v) = Some v"
  using encoded_read [of v "[]" frac "2 * length (encodeDeliveryPayload frac v) + 2"]
  by (simp add: json_parse_def skip_def)

section \<open>The record reads back\<close>

definition block_ok :: "string \<times> string \<Rightarrow> bool" where
  "block_ok ap \<longleftrightarrow> (case ap of (at, p) \<Rightarrow>
     at \<noteq> [] \<and> nl \<notin> set at \<and> \<not> is_ws (hd at) \<and> \<not> is_ws (last at) \<and> p \<noteq> [] \<and> nl \<notin> set p \<and> \<not> is_ws (hd p))"

lemma greedy_no_line:
  assumes "nl \<notin> set w" and "\<exists>d \<in> set w. \<not> is_ws d" and "\<And>c s. c \<noteq> nl \<Longrightarrow> k (c # s) = None"
  shows "greedy is_ws k (w @ s) = None"
  using assms(1,2)
proof (induction w)
  case (Cons c w)
  have "k (c # w @ s) = None" using Cons.prems(1) by (intro assms(3)) auto
  then show ?case using Cons by (cases "is_ws c") auto
qed simp

lemma no_line: "c \<noteq> nl \<Longrightarrow> readiness_close (c # s) = None" "c \<noteq> nl \<Longrightarrow> readiness_payload (c # s) = None"
  by (simp_all add: readiness_close_def readiness_payload_def)

lemma payload_matched:
  assumes "p \<noteq> []" "nl \<notin> set p" "\<not> is_ws (hd p)"
  shows "greedy is_ws readiness_payload (nl # p @ nl # ''-->'' @ s) = Some (p, s)"
proof -
  have e: "greedy is_ws (lit ''-->'') (''-->'' @ s) = Some s" by (simp add: is_ws_def less_eq_char_def)
  have "lazy (\<lambda>_. True) readiness_close (p @ nl # ''-->'' @ s) = Some (p, s)"
  proof (rule lazy_found)
    fix u c w assume "p = u @ c # w"
    then show "readiness_close (c # w @ nl # ''-->'' @ s) = None" using assms(2) by (intro no_line) auto
  qed (use e in \<open>simp_all add: readiness_close_def\<close>)
  then have b: "readiness_payload (nl # p @ nl # ''-->'' @ s) = Some (p, s)" by (simp add: readiness_payload_def)
  obtain c q where c: "p = c # q" "\<not> is_ws c" "c \<noteq> nl" using assms by (cases p) auto
  have "greedy is_ws readiness_payload (p @ nl # ''-->'' @ s) = None" using c by (simp add: no_line)
  moreover have "is_ws nl" by (simp add: is_ws_def less_eq_char_def)
  ultimately show ?thesis using b by simp
qed

lemma text_matched:
  assumes "block_ok (at, p)"
  shows "readiness_text (at @ nl # p @ nl # ''-->'' @ s) = Some ((at, p), s)"
proof -
  have "lazy not_nl (greedy is_ws readiness_payload) (at @ nl # p @ nl # ''-->'' @ s) = Some (at, (p, s))"
  proof (rule lazy_found)
    show "\<forall>c \<in> set at. not_nl c" using assms by (auto simp: block_ok_def not_nl_def)
    fix u c w assume at: "at = u @ c # w"
    then have "last at = last (c # w)" by simp
    then have "\<exists>d \<in> set (c # w). \<not> is_ws d" using assms last_in_set [of "c # w"] unfolding block_ok_def by force
    moreover have "nl \<notin> set (c # w)" using at assms by (auto simp: block_ok_def)
    ultimately have "greedy is_ws readiness_payload ((c # w) @ nl # p @ nl # ''-->'' @ s) = None"
      by (intro greedy_no_line no_line)
    then show "greedy is_ws readiness_payload (c # w @ nl # p @ nl # ''-->'' @ s) = None" by simp
  qed (rule payload_matched; use assms in \<open>simp add: block_ok_def\<close>)
  then show ?thesis by (simp add: readiness_text_def)
qed

lemma readiness_match:
  assumes "block_ok (at, p)"
  shows "readiness_marker (readiness_block (at, p) @ s) = Some ((at, p), s)"
proof -
  obtain c q where c: "at = c # q" "\<not> is_ws c" using assms by (cases at) (auto simp: block_ok_def)
  have sp: "is_ws (CHR '' '')" "\<not> is_ws (CHR ''g'')" by (simp_all add: is_ws_def less_eq_char_def)
  have "greedy is_ws readiness_text (at @ nl # p @ nl # ''-->'' @ s) = Some ((at, p), s)"
    using text_matched [OF assms, of s] c by simp
  then show ?thesis by (simp add: readiness_marker_def readiness_block_def sp)
qed

interpretation handoff: marker_codec readiness_block readiness_marker "\<lambda>ap. ap" block_ok
proof
  show "readiness_marker (readiness_block ap @ s) = Some (ap, s)" if "block_ok ap" for ap s
    using readiness_match [of "fst ap" "snd ap" s] that by simp
  show "\<exists>t. readiness_block ap = CHR ''<'' # t" for ap by (simp add: readiness_block_def)
  show "\<exists>t. s = CHR ''<'' # t" if "readiness_marker s = Some r" for s r
    using that by (auto simp: readiness_marker_def bind_eq_Some_conv lit_iff)
qed

lemma escape_no_nl: "nl \<notin> set (json_escape_char c)"
proof -
  have "hex_val nl = None" by code_simp
  then have h: "d < 16 \<Longrightarrow> nl \<noteq> hex_digit d" for d using hex_val_digit [of d] by auto
  have "control c \<Longrightarrow> (of_char c :: nat) div 16 < 16" by (simp add: control_def)
  then show ?thesis by (auto simp: json_escape_char_def h)
qed

lemma string_no_nl: "nl \<notin> set (json_string s)"
  using escape_no_nl by (auto simp: json_string_def json_escape_def)

lemma sep_no_nl: "\<forall>w \<in> set ws. nl \<notin> set w \<Longrightarrow> nl \<notin> set (sep_by ws)"
  by (induction ws rule: sep_by.induct) auto

lemma json_text_no_nl: "printable v \<Longrightarrow> nl \<notin> set (json_text frac v)"
proof (induction v)
  case (JInt n)
  then show ?case using show_nat_digits [of "nat n"] show_nat_digits [of "nat (- n)"]
    by (auto simp: show_int_def is_digit_def less_eq_char_def)
next
  case (JArr vs)
  then show ?case using sep_no_nl [of "map (json_text frac) vs"] by (auto simp: list_all_iff)
next
  case (JObj fs)
  have "nl \<notin> set (sep_by (map (\<lambda>(k, v). json_string k @ CHR '':'' # json_text frac v) (filter (\<lambda>(k, v). v \<noteq> JUndef) fs)))"
    using JObj string_no_nl by (intro sep_no_nl) (auto simp: list_all_iff)
  then show ?case by simp
qed (simp_all add: string_no_nl)

lemma payload_no_nl: "printable v \<Longrightarrow> nl \<notin> set (encodeDeliveryPayload frac v)"
  using json_text_no_nl [of v frac] by (auto simp: encodeDeliveryPayload_def no_hyphens_def escaped_hyphen_def split: if_splits)

text \<open>The attributes.\<close>

lemma attribute_build:
  assumes "\<forall>c \<in> set nm. is_lower c" and "nm \<noteq> []" and "dq \<notin> set v"
  shows "find_all attribute (nm @ [CHR ''='', dq] @ v @ dq # s) = (nm, v) # find_all attribute s"
    and "find_all attribute (attr_str nm v @ s) = (nm, v) # find_all attribute s"
proof -
  obtain c cs where nm: "nm = c # cs" using assms(2) by (cases nm) auto
  have "run is_lower nonempty (nm @ CHR ''='' # dq # v @ dq # s) = Some (nm, CHR ''='' # dq # v @ dq # s)"
    using assms by (intro run_append) (simp_all add: is_lower_def less_eq_char_def nonempty_def)
  moreover have "run not_dq any_text (v @ dq # s) = Some (v, dq # s)"
    using assms(3) by (intro run_append) (auto simp: not_dq_def any_text_def)
  ultimately have m: "attribute (nm @ [CHR ''='', dq] @ v @ dq # s) = Some ((nm, v), s)" by (simp add: attribute_def)
  then show one: "find_all attribute (nm @ [CHR ''='', dq] @ v @ dq # s) = (nm, v) # find_all attribute s"
    using nm by simp
  have "attribute (CHR '' '' # t) = None" for t
    by (simp add: attribute_def run_def is_lower_def less_eq_char_def nonempty_def)
  then show "find_all attribute (attr_str nm v @ s) = (nm, v) # find_all attribute s"
    using one by (simp add: attr_str_def)
qed

lemma attrs_parsed:
  assumes "dq \<notin> set lane" "dq \<notin> set head" "dq \<notin> set digest"
  shows "attributes (readiness_attrs n pr lane head digest) =
    [(''version'', ''1''), (''issue'', show_nat n), (''pr'', show_nat pr), (''lane'', lane), (''head'', head), (''digest'', digest)]"
proof -
  have d: "dq \<notin> set (show_nat k)" for k
    using show_nat_digits [of k] by (auto simp: is_digit_def less_eq_char_def)
  have v: "show_nat delivery_readiness_version = ''1''" by code_simp
  have low: "\<forall>c \<in> set nm. is_lower c" if "nm \<in> {''version'', ''issue'', ''pr'', ''lane'', ''head'', ''digest''}" for nm
    using that by (auto simp: is_lower_def less_eq_char_def)
  let ?rest = "attr_str ''issue'' (show_nat n) @ attr_str ''pr'' (show_nat pr) @ attr_str ''lane'' lane
      @ attr_str ''head'' head @ attr_str ''digest'' digest @ []"
  have first: "find_all attribute (''version'' @ [CHR ''='', dq] @ ''1'' @ dq # ?rest) = (''version'', ''1'') # find_all attribute ?rest"
    by (rule attribute_build(1)) (use low [of "''version''"] in simp_all)
  have rest: "find_all attribute ?rest =
    [(''issue'', show_nat n), (''pr'', show_nat pr), (''lane'', lane), (''head'', head), (''digest'', digest)]"
    using attribute_build(2) [OF low, of "''issue''"] attribute_build(2) [OF low, of "''pr''"] attribute_build(2) [OF low, of "''lane''"]
      attribute_build(2) [OF low, of "''head''"] attribute_build(2) [OF low, of "''digest''" digest "[]"] assms d by simp
  have "readiness_attrs n pr lane head digest = ''version'' @ [CHR ''='', dq] @ ''1'' @ dq # ?rest"
    unfolding readiness_attrs_def v by simp
  then have "find_all attribute (readiness_attrs n pr lane head digest) =
    [(''version'', ''1''), (''issue'', show_nat n), (''pr'', show_nat pr), (''lane'', lane), (''head'', head), (''digest'', digest)]"
    by (simp only: first rest)
  then show ?thesis by (simp add: attributes_def jm_set_def)
qed

lemma hex_no_dq: "hex_run k s \<Longrightarrow> dq \<notin> set s \<and> nl \<notin> set s \<and> CHR '' '' \<notin> set s"
  by (auto simp: hex_run_def list_all_iff is_hex_def is_digit_def less_eq_char_def)

text \<open>What a record of the server may hold.\<close>

definition handoff_ok :: "(string \<Rightarrow> string) \<Rightarrow> (int \<Rightarrow> nat \<Rightarrow> string) \<Rightarrow> nat \<Rightarrow> nat \<Rightarrow> string \<Rightarrow> string \<Rightarrow> js \<Rightarrow> bool" where
  "handoff_ok sha frac n pr lane head payload \<longleftrightarrow>
     0 < n \<and> 0 < pr \<and> lane \<in> set delivery_lanes \<and> full_git_oid head \<and> hex_run 64 (sha (encodeDeliveryPayload frac payload))
     \<and> (\<exists>fs. payload = JObj fs) \<and> printable payload \<and> unsigned payload"

definition handoff_written :: "(string \<Rightarrow> string) \<Rightarrow> (int \<Rightarrow> nat \<Rightarrow> string) \<Rightarrow> nat \<Rightarrow> nat \<Rightarrow> string \<Rightarrow> string \<Rightarrow> js \<Rightarrow> handoff" where
  "handoff_written sha frac n pr lane head payload =
     (let body = encodeDeliveryPayload frac payload
      in \<lparr>hf_version = Some delivery_readiness_version, hf_issue = Some n, hf_pr = Some pr, hf_lane = Some lane,
          hf_head = Some head, hf_digest = Some (sha body), hf_text = body\<rparr>)"

lemma lane_chars: "lane \<in> set delivery_lanes \<Longrightarrow> dq \<notin> set lane \<and> nl \<notin> set lane"
  by (auto simp: delivery_lanes_def)

lemma block_written:
  assumes "handoff_ok sha frac n pr lane head payload"
  shows "block_ok (readiness_attrs n pr lane head (sha (encodeDeliveryPayload frac payload)), encodeDeliveryPayload frac payload)"
proof -
  let ?body = "encodeDeliveryPayload frac payload"
  have h: "hex_run 40 head" "hex_run 64 (sha ?body)" "lane \<in> set delivery_lanes" "printable payload"
    using assms by (auto simp: handoff_ok_def full_git_oid_def)
  obtain fs where fs: "payload = JObj fs" using assms by (auto simp: handoff_ok_def)
  have digits: "nl \<notin> set (show_nat k)" for k using show_nat_digits [of k] by (auto simp: is_digit_def less_eq_char_def)
  have "nl \<notin> set (readiness_attrs n pr lane head (sha ?body))"
    using h hex_no_dq lane_chars digits by (simp add: readiness_attrs_def attr_str_def)
  moreover have "last (readiness_attrs n pr lane head (sha ?body)) = dq"
    by (simp add: readiness_attrs_def attr_str_def)
  moreover have "hd (readiness_attrs n pr lane head (sha ?body)) = CHR ''v''" by (simp add: readiness_attrs_def)
  moreover have "\<exists>t. ?body = CHR ''{'' # t" using fs by (simp add: encodeDeliveryPayload_def)
  ultimately show ?thesis using payload_no_nl [OF h(4), of frac]
    by (auto simp: block_ok_def is_ws_def less_eq_char_def readiness_attrs_def)
qed

lemma handoff_parsed:
  assumes "handoff_ok sha frac n pr lane head payload"
  shows "parseDeliveryReadinessMarkers (buildDeliveryReadinessRecord sha frac n pr lane head payload)
    = [handoff_written sha frac n pr lane head payload]"
proof -
  let ?body = "encodeDeliveryPayload frac payload"
  have "CHR ''<'' \<notin> set (show_nat k)" for k using show_nat_digits [of k] by (auto simp: is_digit_def less_eq_char_def)
  then have "CHR ''<'' \<notin> set (readiness_head n pr)" by (simp add: readiness_head_def em_dash_def)
  from handoff.find_record [OF block_written [OF assms] this, of "[]"]
  have f: "find_all readiness_marker (buildDeliveryReadinessRecord sha frac n pr lane head payload)
    = [(readiness_attrs n pr lane head (sha ?body), ?body)]"
    by (simp add: buildDeliveryReadinessRecord_def Let_def)
  have q: "dq \<notin> set lane" "dq \<notin> set head" "dq \<notin> set (sha ?body)"
    using assms hex_no_dq lane_chars by (auto simp: handoff_ok_def full_git_oid_def)
  have one: "positiveInt (Some ''1'') = Some 1" by code_simp
  show ?thesis
    using assms unfolding parseDeliveryReadinessMarkers_def f
    by (simp add: handoff_of_def attrs_parsed [OF q] jm_get_def one positiveInt_def [of "Some (show_nat _)"]
        handoff_written_def Let_def handoff_ok_def delivery_readiness_version_def)
qed

lemma written_decoded:
  assumes "handoff_ok sha frac n pr lane head payload"
  shows "decodeRecord sha (handoff_written sha frac n pr lane head payload) =
    (if unit_length (encodeDeliveryPayload frac payload) > delivery_payload_max then None else Some payload)"
proof -
  obtain fs where fs: "payload = JObj fs" using assms by (auto simp: handoff_ok_def)
  show ?thesis using assms payload_read [of payload frac]
    by (simp add: decodeRecord_def handoff_written_def Let_def handoff_ok_def fs)
qed

section \<open>The readers\<close>

text \<open>The deliveries by authors with write permission that are recorded at a head.\<close>

definition candidates ::
  "(string \<Rightarrow> string) \<Rightarrow> (string \<Rightarrow> string option) \<Rightarrow> comment list \<Rightarrow> nat \<Rightarrow> nat \<Rightarrow> string option \<Rightarrow> delivery list" where
  "candidates sha perm cs n pr head = filter (\<lambda>d. hf_head (dl_marker d) = head)
     (decodeDeliveries sha (filter (\<lambda>(c, m). write_author perm c \<and> hf_version m = Some delivery_readiness_version)
        (collectReadinessMarkers cs n pr)))"

lemma collected_in: "(c, m) \<in> set (collectReadinessMarkers cs n pr) \<longleftrightarrow> c \<in> set cs
    \<and> unit_length (c_body c) \<le> comment_units_max \<and> m \<in> set (parseDeliveryReadinessMarkers (c_body c))
    \<and> hf_issue m = Some n \<and> hf_pr m = Some pr"
  by (auto simp: collectReadinessMarkers_def)

lemma trusted_collected:
  "filter (\<lambda>(c, m). hf_version m = v) (filter (\<lambda>(c, m). isTrusted (resolveExecutionObligationTrust perm cs) c)
       (collectReadinessMarkers cs n pr))
   = filter (\<lambda>(c, m). write_author perm c \<and> hf_version m = v) (collectReadinessMarkers cs n pr)"
  unfolding filter_filter
  by (rule filter_cong) (auto simp: collected_in isTrusted_write_author)

lemma readiness_ok_iff:
  "readTrustedDeliveryReadiness sha perm (Inr cs) n pr head = Inr d \<longleftrightarrow>
     candidates sha perm cs n pr head \<noteq> [] \<and> d = last (candidates sha perm cs n pr head)
     \<and> length (remdups (map (\<lambda>d. hf_digest (dl_marker d)) (candidates sha perm cs n pr head))) \<le> 1"
proof -
  let ?c = "candidates sha perm cs n pr head"
  let ?A = "filter (\<lambda>(c, m). isTrusted (resolveExecutionObligationTrust perm cs) c) (collectReadinessMarkers cs n pr)"
  let ?F = "filter (\<lambda>(c, m). write_author perm c \<and> hf_version m = Some delivery_readiness_version) (collectReadinessMarkers cs n pr)"
  have "?c \<noteq> [] \<Longrightarrow> decodeDeliveries sha ?F \<noteq> []" unfolding candidates_def by auto
  moreover have "decodeDeliveries sha ?F \<noteq> [] \<Longrightarrow> ?F \<noteq> []"
  proof
    assume "decodeDeliveries sha ?F \<noteq> []" "?F = []"
    then have "decodeDeliveries sha [] \<noteq> []" by (rule subst [rotated])
    then show False by (simp add: decodeDeliveries_def)
  qed
  moreover have "?F \<noteq> [] \<Longrightarrow> ?A \<noteq> []"
    using trusted_collected [of "Some delivery_readiness_version" perm cs n pr] by (metis filter.simps(1))
  moreover have "?A \<noteq> [] \<Longrightarrow> collectReadinessMarkers cs n pr \<noteq> []" by (metis filter.simps(1))
  ultimately have none: "?c \<noteq> [] \<Longrightarrow> collectReadinessMarkers cs n pr \<noteq> [] \<and> ?A \<noteq> [] \<and> ?F \<noteq> [] \<and> decodeDeliveries sha ?F \<noteq> []"
    by blast
  show ?thesis
    unfolding readTrustedDeliveryReadiness_def Let_def sum.case trusted_collected candidates_def [symmetric]
    using none by (cases "?c = []") (auto simp: not_le)
qed

lemma candidates_in:
  "d \<in> set (candidates sha perm cs n pr head) \<longleftrightarrow>
     (\<exists>c \<in> set cs. write_author perm c \<and> unit_length (c_body c) \<le> comment_units_max
       \<and> dl_marker d \<in> set (parseDeliveryReadinessMarkers (c_body c)) \<and> hf_issue (dl_marker d) = Some n
       \<and> hf_pr (dl_marker d) = Some pr \<and> hf_version (dl_marker d) = Some delivery_readiness_version
       \<and> decodeRecord sha (dl_marker d) = Some (dl_payload d) \<and> dl_comment d = c_id c) \<and> hf_head (dl_marker d) = head"
proof -
  have d: "d = \<lparr>dl_marker = dl_marker d, dl_payload = dl_payload d, dl_comment = dl_comment d\<rparr>" by simp
  show ?thesis (is "?l \<longleftrightarrow> ?r")
  proof
    assume ?l
    then show ?r unfolding candidates_def decodeDeliveries_def by (auto simp: collected_in split: option.splits)
  next
    assume ?r
    then obtain c where c: "(c, dl_marker d) \<in> set (collectReadinessMarkers cs n pr)" "write_author perm c"
      "hf_version (dl_marker d) = Some delivery_readiness_version" "decodeRecord sha (dl_marker d) = Some (dl_payload d)"
      "dl_comment d = c_id c" "hf_head (dl_marker d) = head" by (auto simp: collected_in)
    then have "d \<in> set (case decodeRecord sha (dl_marker d) of
        Some p \<Rightarrow> [\<lparr>dl_marker = dl_marker d, dl_payload = p, dl_comment = c_id c\<rparr>] | None \<Rightarrow> [])" using d by simp
    then show ?l unfolding candidates_def decodeDeliveries_def using c by force
  qed
qed

lemma collected_append: "collectReadinessMarkers (cs @ ds) n pr = collectReadinessMarkers cs n pr @ collectReadinessMarkers ds n pr"
  by (simp add: collectReadinessMarkers_def)

lemma candidates_append: "candidates sha perm (cs @ ds) n pr head = candidates sha perm cs n pr head @ candidates sha perm ds n pr head"
  by (simp add: candidates_def collected_append decodeDeliveries_def)

lemma handoff_candidate:
  assumes "handoff_ok sha frac n pr lane head payload" "write_author perm c"
    and "c_body c = buildDeliveryReadinessRecord sha frac n pr lane head payload" "unit_length (c_body c) \<le> comment_units_max"
  shows "candidates sha perm [c] n pr (Some head) =
    (if unit_length (encodeDeliveryPayload frac payload) > delivery_payload_max then []
     else [\<lparr>dl_marker = handoff_written sha frac n pr lane head payload, dl_payload = payload, dl_comment = c_id c\<rparr>])"
proof -
  let ?m = "handoff_written sha frac n pr lane head payload"
  have f: "hf_issue ?m = Some n" "hf_pr ?m = Some pr" "hf_head ?m = Some head" "hf_version ?m = Some delivery_readiness_version"
    by (simp_all add: handoff_written_def Let_def)
  have "collectReadinessMarkers [c] n pr = [(c, ?m)]"
    using assms(4) handoff_parsed [OF assms(1)] f unfolding assms(3) collectReadinessMarkers_def by (simp add: assms(3))
  then show ?thesis using assms(2) f written_decoded [OF assms(1)]
    by (simp add: candidates_def decodeDeliveries_def)
qed

section \<open>The pointer reads back\<close>

lemma upto_close_build:
  assumes "\<forall>c \<in> set t. c \<noteq> CHR ''-'' \<and> c \<noteq> CHR ''>'' \<and> c \<noteq> nl" and "t \<noteq> []" "\<not> is_ws (last t)"
  shows "upto_close (t @ '' -->'' @ s) = Some (t, s)"
  using assms
proof (induction t)
  case (Cons c t)
  have "\<exists>d u. ws0 ((c # t) @ '' -->'' @ s) = d # u \<and> d \<noteq> CHR ''-''"
  proof -
    have "\<exists>d \<in> set (c # t). \<not> is_ws d" using Cons.prems(3) last_in_set [of "c # t"] by blast
    then obtain e where e: "e \<in> set (c # t)" "\<not> is_ws e" by blast
    have "dropWhile is_ws ((c # t) @ '' -->'' @ s) = dropWhile is_ws (c # t) @ '' -->'' @ s"
      using e by (intro dropWhile_append1)
    moreover have "dropWhile is_ws (c # t) \<noteq> []" using e by (simp only: dropWhile_eq_Nil_conv) blast
    moreover obtain d u where "dropWhile is_ws (c # t) = d # u" using \<open>dropWhile is_ws (c # t) \<noteq> []\<close> by (cases "dropWhile is_ws (c # t)") auto
    moreover have "d \<in> set (c # t)" using \<open>dropWhile is_ws (c # t) = d # u\<close> set_dropWhileD [of d is_ws "c # t"] by simp
    moreover have "d \<noteq> CHR ''-''" using Cons.prems(1) \<open>d \<in> set (c # t)\<close> by blast
    ultimately show ?thesis by (simp add: ws0_def)
  qed
  then have m: "marker_close (c # t @ '' -->'' @ s) = None" by (auto simp: marker_close_def)
  show ?case
  proof (cases "t = []")
    case True
    have "upto_close ('' -->'' @ s) = Some ([], s)"
      unfolding upto_close.simps [of "'' -->'' @ s"] marker_close_build by simp
    then show ?thesis using m True Cons.prems(1) by (subst upto_close.simps) simp
  next
    case False
    then have "upto_close (t @ '' -->'' @ s) = Some (t, s)" using Cons by simp
    then show ?thesis using m Cons.prems(1) by (subst upto_close.simps) simp
  qed
qed simp

lemma find_all_once: "m s = Some (a, []) \<Longrightarrow> s \<noteq> [] \<Longrightarrow> find_all m s = [a]"
  by (cases s) simp_all

lemma pointer_parsed:
  assumes "0 < n" "0 < pr" "\<And>k. r = Some k \<Longrightarrow> 0 < k"
  shows "parseDeliveryPointerMarkers (buildDeliveryPointerRecord n pr r) = [\<lparr>po_issue = Some n, po_pr = Some pr, po_record = r\<rparr>]"
proof -
  have digits: "c \<noteq> CHR ''<'' \<and> c \<noteq> CHR ''-'' \<and> c \<noteq> CHR ''>'' \<and> c \<noteq> nl \<and> c \<noteq> dq" if "c \<in> set (show_nat k)" for c k
    using that show_nat_digits [of k] by (auto simp: is_digit_def less_eq_char_def)
  have rec: "c \<noteq> CHR ''<'' \<and> c \<noteq> CHR ''-'' \<and> c \<noteq> CHR ''>'' \<and> c \<noteq> nl \<and> c \<noteq> dq" if "c \<in> set (pointer_record r)" for c
    using that digits by (cases r) (auto simp: pointer_record_def)
  let ?t = "''issue='' @ [dq] @ show_nat n @ [dq] @ attr_str ''pr'' (show_nat pr) @ attr_str ''record'' (pointer_record r)"
  let ?m = "''<!-- gc:delivery-pointer '' @ ?t @ '' -->''"
  let ?pre = "''**Ground Control delivery** '' @ em_dash @ '' this pull request delivers issue #'' @ show_nat n
     @ ''; Phase E runs on merge.'' @ [nl, nl]"
  have pre: "CHR ''<'' \<notin> set ?pre" using digits [of "CHR ''<''" n] by (auto simp: em_dash_def)
  have "upto_close (?t @ '' -->'' @ []) = Some (?t, [])"
    by (rule upto_close_build) (use digits rec in \<open>auto simp: attr_str_def is_ws_def less_eq_char_def\<close>)
  then have m: "attr_marker ''gc:delivery-pointer'' ?m = Some (?t, [])"
    by (simp add: attr_marker_def marker_open_def ws0_def is_ws_def less_eq_char_def)
  have skip: "find_all (attr_marker tag) (u @ ?m) = find_all (attr_marker tag) ?m" if "CHR ''<'' \<notin> set u" for u tag
    using that
  proof (induction u)
    case (Cons c u)
    have "attr_marker tag (c # u @ ?m) = None"
      using Cons.prems marker_open_start [of tag "c # u @ ?m"]
      by (cases "marker_open tag (c # u @ ?m)") (auto simp: attr_marker_def)
    then show ?case using Cons by simp
  qed simp
  have "find_all (attr_marker ''gc:delivery-pointer'') ?m = [?t]"
    using m by (rule find_all_once) simp
  then have f: "find_all (attr_marker ''gc:delivery-pointer'') (buildDeliveryPointerRecord n pr r) = [?t]"
    using skip [OF pre, of "''gc:delivery-pointer''"] by (simp add: buildDeliveryPointerRecord_def attr_str_def)
  have q: "dq \<notin> set (show_nat k)" "dq \<notin> set (pointer_record r)" for k using digits rec by blast+
  have low: "\<forall>c \<in> set nm. is_lower c" if "nm \<in> {''issue'', ''pr'', ''record''}" for nm
    using that by (auto simp: is_lower_def less_eq_char_def)
  let ?rest = "attr_str ''pr'' (show_nat pr) @ attr_str ''record'' (pointer_record r)"
  have "find_all attribute (''issue'' @ [CHR ''='', dq] @ show_nat n @ dq # ?rest) = (''issue'', show_nat n) # find_all attribute ?rest"
    by (rule attribute_build(1)) (use low [of "''issue''"] q in simp_all)
  moreover have "find_all attribute ?rest = [(''pr'', show_nat pr), (''record'', pointer_record r)]"
    using attribute_build(2) [OF low, of "''pr''"] attribute_build(2) [OF low, of "''record''" "pointer_record r" "[]"] q by simp
  ultimately have "attributes ?t = [(''issue'', show_nat n), (''pr'', show_nat pr), (''record'', pointer_record r)]"
    by (simp add: attributes_def jm_set_def)
  moreover have "positiveInt (Some (pointer_record r)) = r"
  proof (cases r)
    case None
    have "positiveInt (Some ''null'') = None" by code_simp
    then show ?thesis using None by (simp add: pointer_record_def)
  qed (use assms(3) in \<open>simp add: pointer_record_def positiveInt_def\<close>)
  ultimately show ?thesis using assms(1,2) unfolding parseDeliveryPointerMarkers_def f
    by (simp add: jm_get_def positiveInt_def [of "Some (show_nat _)"])
qed

lemma decode_parts:
  "decodeRecord sha m = Some v \<Longrightarrow> \<exists>fs h. v = JObj fs \<and> json_parse (hf_text m) = Some (JObj fs)
     \<and> hf_digest m = Some (sha (hf_text m)) \<and> hf_head m = Some h \<and> full_git_oid h"
  by (auto simp: decodeRecord_def split: if_splits option.splits js.splits)

section \<open>Properties\<close>

text \<open>
  A delivery is taken only on the word of a repository writer: the record accepted for a merged pull request stands
  on the issue's thread in a comment by an author with write permission, names this issue, this pull request and the
  merged head, hashes to its own digest, and parses to the payload handed out; and no other such record of that head says
  anything else.
\<close>

theorem delivery_readiness_sound:
  assumes "readTrustedDeliveryReadiness sha perm (Inr cs) n pr head = Inr d"
  shows "\<exists>c h fs. c \<in> set cs \<and> write_author perm c \<and> dl_comment d = c_id c
    \<and> dl_marker d \<in> set (parseDeliveryReadinessMarkers (c_body c))
    \<and> hf_issue (dl_marker d) = Some n \<and> hf_pr (dl_marker d) = Some pr
    \<and> head = Some h \<and> full_git_oid h \<and> hf_head (dl_marker d) = Some h
    \<and> hf_digest (dl_marker d) = Some (sha (hf_text (dl_marker d)))
    \<and> dl_payload d = JObj fs \<and> json_parse (hf_text (dl_marker d)) = Some (JObj fs)
    \<and> (\<forall>c' m. c' \<in> set cs \<and> write_author perm c' \<and> unit_length (c_body c') \<le> comment_units_max
         \<and> m \<in> set (parseDeliveryReadinessMarkers (c_body c')) \<and> hf_issue m = Some n \<and> hf_pr m = Some pr
         \<and> hf_version m = Some delivery_readiness_version \<and> hf_head m = Some h \<and> decodeRecord sha m \<noteq> None
         \<longrightarrow> sha (hf_text m) = sha (hf_text (dl_marker d)))"
proof -
  let ?c = "candidates sha perm cs n pr head"
  have c: "?c \<noteq> []" "d = last ?c" "length (remdups (map (\<lambda>d. hf_digest (dl_marker d)) ?c)) \<le> 1"
    using assms by (simp_all add: readiness_ok_iff)
  have d: "d \<in> set ?c" using c by simp
  then obtain c where cc: "c \<in> set cs" "write_author perm c" "dl_marker d \<in> set (parseDeliveryReadinessMarkers (c_body c))"
    "hf_issue (dl_marker d) = Some n" "hf_pr (dl_marker d) = Some pr"
    "decodeRecord sha (dl_marker d) = Some (dl_payload d)" "dl_comment d = c_id c" "hf_head (dl_marker d) = head"
    by (auto simp: candidates_in)
  obtain fs h where p: "dl_payload d = JObj fs" "json_parse (hf_text (dl_marker d)) = Some (JObj fs)"
    "hf_digest (dl_marker d) = Some (sha (hf_text (dl_marker d)))" "hf_head (dl_marker d) = Some h" "full_git_oid h"
    using decode_parts [OF cc(6)] by blast
  have same: "sha (hf_text m) = sha (hf_text (dl_marker d))"
    if m: "c' \<in> set cs" "write_author perm c'" "unit_length (c_body c') \<le> comment_units_max"
      "m \<in> set (parseDeliveryReadinessMarkers (c_body c'))" "hf_issue m = Some n" "hf_pr m = Some pr"
      "hf_version m = Some delivery_readiness_version" "hf_head m = Some h" "decodeRecord sha m \<noteq> None" for c' m
  proof -
    obtain v where v: "decodeRecord sha m = Some v" using m(9) by blast
    let ?e = "\<lparr>dl_marker = m, dl_payload = v, dl_comment = c_id c'\<rparr>"
    have "?e \<in> set ?c" using m v cc(8) p(4) by (auto simp: candidates_in)
    then have "hf_digest m \<in> set (remdups (map (\<lambda>d. hf_digest (dl_marker d)) ?c))"
      "hf_digest (dl_marker d) \<in> set (remdups (map (\<lambda>d. hf_digest (dl_marker d)) ?c))" using d by force+
    then have "hf_digest m = hf_digest (dl_marker d)"
      using c(3) by (cases "remdups (map (\<lambda>d. hf_digest (dl_marker d)) ?c)") auto
    moreover have "hf_digest m = Some (sha (hf_text m))" using v by (auto simp: decodeRecord_def split: if_splits)
    ultimately show ?thesis using p(3) by simp
  qed
  show ?thesis
    by (rule exI [of _ c], rule exI [of _ h], rule exI [of _ fs]) (use cc p same in auto)
qed

text \<open>
  What is recorded is what is replayed: a record of the server for a payload within the limit, posted by a
  repository writer, is what the executor reads back from the thread, payload and comment, however the thread looks
  otherwise, unless a writer recorded a different payload for the same head.
\<close>

theorem delivery_handoff_replayed:
  assumes "handoff_ok sha frac n pr lane head payload" and "write_author perm c"
    and "c_body c = buildDeliveryReadinessRecord sha frac n pr lane head payload"
    and "unit_length (c_body c) \<le> comment_units_max" and "unit_length (encodeDeliveryPayload frac payload) \<le> delivery_payload_max"
    and "\<forall>d \<in> set (candidates sha perm cs n pr (Some head)).
           hf_digest (dl_marker d) = Some (sha (encodeDeliveryPayload frac payload))"
  shows "readTrustedDeliveryReadiness sha perm (Inr (cs @ [c])) n pr (Some head)
    = Inr \<lparr>dl_marker = handoff_written sha frac n pr lane head payload, dl_payload = payload, dl_comment = c_id c\<rparr>"
proof -
  let ?d = "\<lparr>dl_marker = handoff_written sha frac n pr lane head payload, dl_payload = payload, dl_comment = c_id c\<rparr>"
  let ?c = "candidates sha perm (cs @ [c]) n pr (Some head)"
  have c: "?c = candidates sha perm cs n pr (Some head) @ [?d]"
    using handoff_candidate [OF assms(1-4)] assms(5) by (simp add: candidates_append)
  have "\<forall>x \<in> set (map (\<lambda>d. hf_digest (dl_marker d)) ?c). x = Some (sha (encodeDeliveryPayload frac payload))"
    using assms(6) unfolding c by (auto simp: handoff_written_def Let_def)
  then have "set (map (\<lambda>d. hf_digest (dl_marker d)) ?c) \<subseteq> {Some (sha (encodeDeliveryPayload frac payload))}" by blast
  then have "length (remdups (map (\<lambda>d. hf_digest (dl_marker d)) ?c)) \<le> 1"
    using card_mono [of "{Some (sha (encodeDeliveryPayload frac payload))}"] by (simp add: length_remdups_card_conv)
  then show ?thesis using c by (simp add: readiness_ok_iff)
qed

section \<open>Witnesses\<close>

definition sample_sha :: "string \<Rightarrow> string" where "sample_sha s = replicate 64 (CHR ''a'')"

definition sample_head :: string where "sample_head = replicate 40 (CHR ''b'')"

definition no_frac :: "int \<Rightarrow> nat \<Rightarrow> string" where "no_frac p q = []"

definition sample_payload :: js where
  "sample_payload = JObj [(''ci_status'', JStr ''green''), (''summary'', JStr ''a --> b'')]"

definition sample_handoff :: string where
  "sample_handoff = buildDeliveryReadinessRecord sample_sha no_frac 7 31 ''implement'' sample_head sample_payload"

lemma unit_length_append: "unit_length (s @ t) = unit_length s + unit_length t"
  by (simp add: unit_length_def)

lemma unit_length_line: "unit_length (nl # s @ t) = unit_length [nl] + unit_length s + unit_length t"
  by (simp add: unit_length_def)

lemma sample_handoff_ok: "handoff_ok sample_sha no_frac 7 31 ''implement'' sample_head sample_payload"
  by (simp add: handoff_ok_def delivery_lanes_def full_git_oid_def hex_run_def sample_sha_def sample_head_def
      sample_payload_def is_hex_def is_digit_def less_eq_char_def list_all_iff)

lemma sample_lengths:
  "unit_length sample_handoff \<le> comment_units_max"
  "unit_length (encodeDeliveryPayload no_frac sample_payload) \<le> delivery_payload_max"
proof -
  have "unit_length sample_handoff \<le> 1000" "unit_length (encodeDeliveryPayload no_frac sample_payload) \<le> 1000"
    by code_simp+
  then show "unit_length sample_handoff \<le> comment_units_max"
    "unit_length (encodeDeliveryPayload no_frac sample_payload) \<le> delivery_payload_max"
    by (simp_all add: comment_units_max_def delivery_payload_max_def)
qed

lemma delivery_handoff_replayed_witness:
  "readTrustedDeliveryReadiness sample_sha two_writers (Inr ([] @ [said ''alice'' 3 sample_handoff])) 7 31 (Some sample_head)
    = Inr \<lparr>dl_marker = handoff_written sample_sha no_frac 7 31 ''implement'' sample_head sample_payload,
           dl_payload = sample_payload, dl_comment = c_id (said ''alice'' 3 sample_handoff)\<rparr>"
  by (rule delivery_handoff_replayed [OF sample_handoff_ok writers(1)])
    (use sample_lengths in \<open>simp_all add: sample_handoff_def candidates_def collectReadinessMarkers_def decodeDeliveries_def\<close>)

lemma sample_delivery_read:
  "readTrustedDeliveryReadiness sample_sha two_writers (Inr [said ''alice'' 3 sample_handoff]) 7 31 (Some sample_head)
    = Inr \<lparr>dl_marker = handoff_written sample_sha no_frac 7 31 ''implement'' sample_head sample_payload,
           dl_payload = sample_payload, dl_comment = Some 3\<rparr>"
proof -
  have "candidates sample_sha two_writers [said ''alice'' 3 sample_handoff] 7 31 (Some sample_head)
    = [\<lparr>dl_marker = handoff_written sample_sha no_frac 7 31 ''implement'' sample_head sample_payload,
           dl_payload = sample_payload, dl_comment = Some 3\<rparr>]"
    using handoff_candidate [OF sample_handoff_ok writers(1) [of 3 sample_handoff]] sample_lengths
    by (simp add: sample_handoff_def)
  then show ?thesis by (simp add: readiness_ok_iff)
qed

lemma delivery_readiness_sound_witness: "full_git_oid sample_head"
  using delivery_readiness_sound [OF sample_delivery_read] by auto

end
