(* ===== verification/SyncRecord.thy ===== *)
theory SyncRecord
  imports DeliveryRecord RunLane ReleaseConfig "HOL-Library.Multiset"
begin

text \<open>
  The synchronization record (\<open>lib/implement-sync-record.js\<close>): what binds a delivery to the base it was synchronized
  with and to its lane, its trusted readers (\<open>lib/knowledge-capture.js\<close>), and the checks made on it before a handoff
  (\<open>lib/delivery-binding.js\<close>, \<open>lib/codex-workflow-4.js\<close>).
\<close>

section \<open>The record\<close>

definition implement_base_sync_schema :: string where "implement_base_sync_schema = ''gc.implement.remote-base-sync/v2''"
definition implement_base_sync_schema_v1 :: string where "implement_base_sync_schema_v1 = ''gc.implement.remote-base-sync/v1''"
definition no_publication :: string where "no_publication = ''-''"
definition sync_outcomes :: "string list" where
  "sync_outcomes = [''already_current'', ''merged_clean'', ''merged_conflicts_resolved'']"

record sync_record =
  sy_version :: nat
  sy_record :: string
  sy_issue :: nat
  sy_branch :: string
  sy_base :: string
  sy_source :: string
  sy_pre :: string
  sy_fetched :: string
  sy_outcome :: string
  sy_result :: string
  sy_verified :: string
  sy_settled :: "string option"
  sy_review :: "string option"
  sy_revision :: "string option"
  sy_lane :: "string option"

definition opt_text :: "string option \<Rightarrow> string" where
  "opt_text v = (case v of Some s \<Rightarrow> s | None \<Rightarrow> ''undefined'')"

definition sync_attrs :: "sync_record \<Rightarrow> (string \<times> string) list" where
  "sync_attrs r =
     [(''schema'', implement_base_sync_schema), (''record'', sy_record r), (''issue'', show_nat (sy_issue r)),
      (''branch'', sy_branch r), (''base'', sy_base r), (''source'', sy_source r), (''pre'', sy_pre r),
      (''fetched'', sy_fetched r), (''outcome'', sy_outcome r), (''result'', sy_result r), (''verified'', sy_verified r),
      (''settled'', opt_text (sy_settled r)), (''review'', opt_text (sy_review r)),
      (''revision'', opt_text (sy_revision r)), (''lane'', opt_text (sy_lane r))]"

definition buildImplementBaseSyncMarker :: "sync_record \<Rightarrow> string" where
  "buildImplementBaseSyncMarker r =
     ''<!-- gc:implement-base-sync'' @ concat (map (\<lambda>(k, v). attr_str k v) (sync_attrs r)) @ '' -->''"

definition isSyncPublicationField :: "string option \<Rightarrow> bool" where
  "isSyncPublicationField v \<longleftrightarrow> (case v of None \<Rightarrow> False | Some s \<Rightarrow> s = no_publication \<or> hex_run 64 s)"

definition baseSyncSchemaVersion :: "string option \<Rightarrow> nat option" where
  "baseSyncSchemaVersion s =
     (if s = Some implement_base_sync_schema then Some 2
      else if s = Some implement_base_sync_schema_v1 then Some 1 else None)"

definition implement_branch_max :: nat where "implement_branch_max = 50"

definition implementBranchName_ok :: "string option \<Rightarrow> nat \<Rightarrow> bool" where
  "implementBranchName_ok b n \<longleftrightarrow> 0 < n \<and> (case b of None \<Rightarrow> False | Some br \<Rightarrow>
     trim br \<noteq> [] \<and> starts_with (show_nat n @ ''-'') br \<and> length br > length (show_nat n) + 1
     \<and> length br \<le> implement_branch_max \<and> list_all branch_char br)"

definition oid_attr :: "(string, string) jmap \<Rightarrow> string \<Rightarrow> bool" where
  "oid_attr a k \<longleftrightarrow> git_object_id (case jm_get a k of Some v \<Rightarrow> v | None \<Rightarrow> [])"

definition commonSyncFieldsValid :: "(string, string) jmap \<Rightarrow> nat option \<Rightarrow> nat \<Rightarrow> bool" where
  "commonSyncFieldsValid a ver n \<longleftrightarrow>
     ver \<noteq> None
     \<and> parse_int (case jm_get a ''issue'' of Some v \<Rightarrow> v | None \<Rightarrow> []) = Some (int n)
     \<and> hex_run 32 (case jm_get a ''record'' of Some v \<Rightarrow> v | None \<Rightarrow> [])
     \<and> implementBranchName_ok (jm_get a ''branch'') n
     \<and> isSafeGitRefName (case jm_get a ''base'' of Some b \<Rightarrow> JStr b | None \<Rightarrow> JUndef)
     \<and> jm_get a ''source'' = Some (''refs/remotes/origin/'' @ (case jm_get a ''base'' of Some b \<Rightarrow> b | None \<Rightarrow> ''undefined''))
     \<and> (case jm_get a ''outcome'' of Some v \<Rightarrow> v \<in> set sync_outcomes | None \<Rightarrow> False)
     \<and> list_all (oid_attr a) [''pre'', ''fetched'', ''result'', ''verified'']"

definition bindingSyncFieldsValid :: "(string, string) jmap \<Rightarrow> nat option \<Rightarrow> bool" where
  "bindingSyncFieldsValid a ver \<longleftrightarrow>
     (if ver = Some 1 then list_all (\<lambda>k. jm_get a k = None) [''settled'', ''review'', ''revision'', ''lane'']
      else oid_attr a ''settled'' \<and> isSyncPublicationField (jm_get a ''review'')
           \<and> isSyncPublicationField (jm_get a ''revision'')
           \<and> (case jm_get a ''lane'' of Some l \<Rightarrow> l \<in> {''implement'', ''quickfix''} | None \<Rightarrow> False))"

text \<open>\<open>None\<close> for a marker that does not validate.\<close>

definition parseImplementBaseSyncMarker :: "string \<Rightarrow> nat \<Rightarrow> sync_record option" where
  "parseImplementBaseSyncMarker txt n =
     (let a = attributes txt; ver = baseSyncSchemaVersion (jm_get a ''schema''); g = (\<lambda>k. the (jm_get a k))
      in if \<not> commonSyncFieldsValid a ver n \<or> \<not> bindingSyncFieldsValid a ver then None
         else Some \<lparr>sy_version = the ver, sy_record = g ''record'', sy_issue = n, sy_branch = g ''branch'',
                sy_base = g ''base'', sy_source = g ''source'', sy_pre = g ''pre'', sy_fetched = g ''fetched'',
                sy_outcome = g ''outcome'', sy_result = g ''result'', sy_verified = g ''verified'',
                sy_settled = (if ver = Some 1 then None else jm_get a ''settled''),
                sy_review = (if ver = Some 1 then None else jm_get a ''review''),
                sy_revision = (if ver = Some 1 then None else jm_get a ''revision''),
                sy_lane = (if ver = Some 1 then None else jm_get a ''lane'')\<rparr>)"

text \<open>\<open>([^>]*?)-->\<close>\<close>

fun before_arrow :: "string \<Rightarrow> (string \<times> string) option" where
  "before_arrow [] = None"
| "before_arrow (c # s) = (case lit ''-->'' (c # s) of
       Some r \<Rightarrow> Some ([], r)
     | None \<Rightarrow> if c = CHR ''>'' then None else map_option (\<lambda>(v, r). (c # v, r)) (before_arrow s))"

definition sync_marker :: "string matcher" where
  "sync_marker s = do { s1 \<leftarrow> marker_open ''gc:implement-base-sync'' s; s2 \<leftarrow> ws1 s1; before_arrow s2 }"

definition parseImplementBaseSyncMarkers :: "string list \<Rightarrow> nat \<Rightarrow> sync_record option list" where
  "parseImplementBaseSyncMarkers bodies n =
     concat (map (\<lambda>b. map (\<lambda>txt. parseImplementBaseSyncMarker txt n) (find_all sync_marker b)) bodies)"

text \<open>The comment that carries it.\<close>

definition sync_record_body :: "sync_record \<Rightarrow> string" where
  "sync_record_body r = buildImplementBaseSyncMarker r @ nl # join [nl]
     [[], ''## Pre-PR base synchronization'', [],
      ''- Source: `'' @ sy_source r @ ''` at `'' @ sy_fetched r @ ''`'',
      ''- Outcome: `'' @ sy_outcome r @ ''`'',
      ''- Published feature head: `'' @ sy_result r @ ''`'',
      ''- Synchronized tree: `'' @ sy_verified r @ ''`'']"

section \<open>The trusted readers\<close>

type_synonym sync_entry = "comment \<times> sync_record"

definition marked :: "comment list \<Rightarrow> nat \<Rightarrow> (comment \<times> sync_record option list) list" where
  "marked cs n = filter (\<lambda>(c, rs). rs \<noteq> []) (map (\<lambda>c. (c, parseImplementBaseSyncMarkers [c_body c] n)) cs)"

text \<open>The error code, or every record of the thread in its order.\<close>

definition readTrustedImplementSyncRecords ::
  "(string \<Rightarrow> string option) \<Rightarrow> comment list \<Rightarrow> nat \<Rightarrow> string + sync_entry list" where
  "readTrustedImplementSyncRecords perm cs n =
     (let t = resolveExecutionObligationTrust perm cs; ms = marked cs n
      in if list_ex (\<lambda>(c, rs). \<not> isTrusted t c) ms then Inl ''implement_pr_sync_record_untrusted''
         else if list_ex (\<lambda>(c, rs). None \<in> set rs) ms then Inl ''implement_pr_sync_record_malformed''
         else Inr (concat (map (\<lambda>(c, rs). map (\<lambda>r. (c, the r)) rs) ms)))"

definition comment_order :: "sync_entry \<Rightarrow> int" where
  "comment_order e = (case c_id (fst e) of Some i \<Rightarrow> i | None \<Rightarrow> 0)"

definition sync_candidates :: "sync_entry list \<Rightarrow> string \<Rightarrow> sync_entry list" where
  "sync_candidates es branch = sort_key comment_order (filter (\<lambda>(c, r). sy_version r = 2 \<and> sy_branch r = branch) es)"

text \<open>The newest, or the one ahead of the record \<open>before\<close> when that is on the thread.\<close>

definition selectLatestSyncRecord :: "sync_entry list \<Rightarrow> string \<Rightarrow> string option \<Rightarrow> sync_entry option" where
  "selectLatestSyncRecord es branch before =
     (let cands = sync_candidates es branch;
          rest = (case before of None \<Rightarrow> cands | Some b \<Rightarrow> takeWhile (\<lambda>(c, r). sy_record r \<noteq> b) cands)
      in if rest = [] then None else Some (last rest))"

definition readTrustedImplementSyncRecord ::
  "(string \<Rightarrow> string option) \<Rightarrow> comment list \<Rightarrow> nat \<Rightarrow> string \<Rightarrow> string + sync_entry" where
  "readTrustedImplementSyncRecord perm cs n rid =
     (case readTrustedImplementSyncRecords perm cs n of
        Inl e \<Rightarrow> Inl e
      | Inr es \<Rightarrow>
          (case filter (\<lambda>(c, r). sy_record r = rid) es of
             [] \<Rightarrow> Inl ''implement_pr_sync_record_missing''
           | [m] \<Rightarrow> if sy_version (snd m) \<noteq> 2 then Inl ''implement_pr_sync_record_superseded_schema'' else Inr m
           | _ \<Rightarrow> Inl ''implement_pr_sync_record_ambiguous''))"

definition readLatestTrustedImplementSyncRecord ::
  "(string \<Rightarrow> string option) \<Rightarrow> comment list \<Rightarrow> nat \<Rightarrow> string \<Rightarrow> string option \<Rightarrow> string + sync_entry option" where
  "readLatestTrustedImplementSyncRecord perm cs n branch before =
     (case readTrustedImplementSyncRecords perm cs n of
        Inl e \<Rightarrow> Inl e
      | Inr es \<Rightarrow> Inr (selectLatestSyncRecord es branch before))"

section \<open>The binding of a delivery\<close>

record binding =
  bd_settled :: string
  bd_review :: string
  bd_revision :: string
  bd_lane :: string

definition resolveDeliveryBinding :: "string + lane_reading \<Rightarrow> string \<Rightarrow> string + binding" where
  "resolveDeliveryBinding lane settled = (case lane of
       Inl e \<Rightarrow> Inl e
     | Inr l \<Rightarrow> Inr \<lparr>bd_settled = settled, bd_review = no_publication, bd_revision = no_publication,
                       bd_lane = lane_str (lr_lane l)\<rparr>)"

definition deliveredHeadRefusal :: "sync_record option \<Rightarrow> string option \<Rightarrow> string \<Rightarrow> nat \<Rightarrow> string option" where
  "deliveredHeadRefusal rec head branch n =
     (case rec of
        None \<Rightarrow> Some (''No trusted synchronization record binds branch '' @ [CHR 0x27] @ branch @ [CHR 0x27]
                 @ '' of issue #'' @ show_nat n @ '' to a delivery.'')
      | Some r \<Rightarrow>
          if head \<noteq> Some (sy_result r)
          then Some (''This pull request'' @ [CHR 0x27] @ ''s head is ''
                 @ (case head of Some h \<Rightarrow> h | None \<Rightarrow> ''unreadable'')
                 @ '', but the delivery that was synchronized ended at '' @ sy_result r
                 @ ''. Work pushed after synchronization is not bound to anything.'')
          else None)"

definition assertDeliveryBindingCurrent :: "sync_record \<Rightarrow> string option \<Rightarrow> bool" where
  "assertDeliveryBindingCurrent r lane \<longleftrightarrow> lane = None \<or> sy_lane r = lane"

definition priorBindingStillCurrent :: "sync_record \<Rightarrow> string + lane_reading \<Rightarrow> bool" where
  "priorBindingStillCurrent r lane = (case lane of Inl _ \<Rightarrow> False | Inr l \<Rightarrow> sy_lane r = Some (lane_str (lr_lane l)))"

text \<open>\<open>tree\<close> reads the tree of a commit.\<close>

definition resolveSettledTree ::
  "(string \<Rightarrow> string) \<Rightarrow> string \<Rightarrow> sync_record option \<Rightarrow> string + lane_reading \<Rightarrow> string" where
  "resolveSettledTree tree pre prior lane =
     (case prior of
        Some r \<Rightarrow> if sy_result r = pre \<and> priorBindingStillCurrent r lane then the (sy_settled r) else tree pre
      | None \<Rightarrow> tree pre)"

definition resolveSyncDeliveryBinding ::
  "(string \<Rightarrow> string) \<Rightarrow> (string \<Rightarrow> string option) \<Rightarrow> comment list \<Rightarrow> nat \<Rightarrow> string \<Rightarrow> string \<Rightarrow> string
     \<Rightarrow> string + lane_reading \<Rightarrow> string + binding" where
  "resolveSyncDeliveryBinding tree perm cs n branch rid pre lane =
     (case readLatestTrustedImplementSyncRecord perm cs n branch (Some rid) of
        Inl e \<Rightarrow> Inl e
      | Inr prior \<Rightarrow> resolveDeliveryBinding lane (resolveSettledTree tree pre (map_option snd prior) lane))"

section \<open>The record reads back\<close>

lemma attributes_concat:
  assumes "list_all (\<lambda>(k, v). k \<noteq> [] \<and> (\<forall>c \<in> set k. is_lower c) \<and> dq \<notin> set v) kvs"
  shows "find_all attribute (concat (map (\<lambda>(k, v). attr_str k v) kvs) @ t) = kvs @ find_all attribute t"
  using assms
proof (induction kvs)
  case (Cons kv kvs)
  obtain k v where "kv = (k, v)" by (cases kv)
  then show ?case using Cons attribute_build(2) [of k v "concat (map (\<lambda>(k, v). attr_str k v) kvs) @ t"] by simp
qed simp

lemma attributes_distinct:
  "distinct (map fst (acc @ kvs)) \<Longrightarrow> foldl (\<lambda>m (k, v). jm_set k v m) acc kvs = acc @ kvs"
proof (induction kvs arbitrary: acc)
  case (Cons kv kvs)
  obtain k v where kv: "kv = (k, v)" by (cases kv)
  have "jm_get acc k = None" using Cons.prems kv by (auto simp: jm_get_def map_of_eq_None_iff)
  then have "jm_set k v acc = acc @ [(k, v)]" by (simp add: jm.entries_put_new)
  then show ?case using Cons kv by simp
qed simp

lemma attribute_space: "find_all attribute (CHR '' '' # s) = find_all attribute s"
  by (simp add: attribute_def run_def is_lower_def less_eq_char_def nonempty_def)

lemma attributes_built:
  assumes "list_all (\<lambda>(k, v). k \<noteq> [] \<and> (\<forall>c \<in> set k. is_lower c) \<and> dq \<notin> set v) kvs" and "distinct (map fst kvs)"
    and "CHR '' '' # s = concat (map (\<lambda>(k, v). attr_str k v) kvs)"
  shows "attributes (s @ '' '') = kvs"
proof -
  have "find_all attribute (s @ '' '') = find_all attribute ((CHR '' '' # s) @ '' '')"
    by (simp add: attribute_space del: find_all.simps)
  also have "\<dots> = kvs @ find_all attribute '' ''" unfolding assms(3) by (rule attributes_concat [OF assms(1)])
  also have "find_all attribute '' '' = []" by code_simp
  finally show ?thesis using attributes_distinct [of "[]" kvs] assms(2) by (simp add: attributes_def)
qed

lemma before_arrow_build: "CHR ''>'' \<notin> set t \<Longrightarrow> before_arrow (t @ ''-->'' @ s) = Some (t, s)"
proof (induction t)
  case (Cons c t)
  have "lit ''-->'' (c # t @ ''-->'' @ s) = None" using Cons.prems by (cases t; cases "tl t") auto
  moreover have "c \<noteq> CHR ''>''" using Cons.prems by auto
  ultimately show ?case using Cons by simp
qed simp

definition sync_ok :: "sync_record \<Rightarrow> bool" where
  "sync_ok r \<longleftrightarrow> sy_version r = 2 \<and> hex_run 32 (sy_record r) \<and> implementBranchName_ok (Some (sy_branch r)) (sy_issue r)
     \<and> isSafeGitRefName (JStr (sy_base r)) \<and> sy_source r = ''refs/remotes/origin/'' @ sy_base r
     \<and> sy_outcome r \<in> set sync_outcomes \<and> git_object_id (sy_pre r) \<and> git_object_id (sy_fetched r)
     \<and> git_object_id (sy_result r) \<and> git_object_id (sy_verified r)
     \<and> (\<exists>t. sy_settled r = Some t \<and> git_object_id t) \<and> isSyncPublicationField (sy_review r)
     \<and> isSyncPublicationField (sy_revision r) \<and> (\<exists>l \<in> {''implement'', ''quickfix''}. sy_lane r = Some l)"

definition tame :: "string \<Rightarrow> bool" where
  "tame v \<longleftrightarrow> dq \<notin> set v \<and> CHR ''>'' \<notin> set v \<and> CHR ''<'' \<notin> set v"

lemma tame_append [simp]: "tame (u @ v) \<longleftrightarrow> tame u \<and> tame v"
  by (auto simp: tame_def)

lemma tame_hex: "hex_run k v \<Longrightarrow> tame v"
  by (auto simp: tame_def hex_run_def list_all_iff is_hex_def is_digit_def less_eq_char_def)

lemma tame_values:
  assumes "sync_ok r"
  shows "list_all (\<lambda>(k, v). tame v) (sync_attrs r)"
proof -
  have oid: "tame v" if "git_object_id v" for v using that tame_hex by (auto simp: git_object_id_def)
  have pub: "tame (opt_text v)" if "isSyncPublicationField v" for v
    using that tame_hex by (auto simp: isSyncPublicationField_def opt_text_def no_publication_def tame_def split: option.splits)
  have base: "tame (sy_base r)" using assms
    by (auto simp: sync_ok_def isSafeGitRefName_def list_all_iff tame_def path_char_def alnum_def is_digit_def is_lower_def
        is_upper_def less_eq_char_def)
  have branch: "tame (sy_branch r)" using assms
    by (auto simp: sync_ok_def implementBranchName_ok_def list_all_iff tame_def branch_char_def is_digit_def is_lower_def
        less_eq_char_def)
  have num: "tame (show_nat k)" for k
    using show_nat_digits [of k] by (auto simp: tame_def is_digit_def less_eq_char_def)
  have lits: "tame implement_base_sync_schema" "tame ''refs/remotes/origin/''" "\<forall>v \<in> set sync_outcomes. tame v"
    "tame ''implement''" "tame ''quickfix''" by code_simp+
  have "sy_source r = ''refs/remotes/origin/'' @ sy_base r" using assms unfolding sync_ok_def by blast
  then have src: "tame (sy_source r)" using lits(2) base by (simp only: tame_append)
  have f: "tame (sy_record r)" "tame (sy_outcome r)" "tame (sy_pre r)" "tame (sy_fetched r)" "tame (sy_result r)"
    "tame (sy_verified r)" "tame (opt_text (sy_settled r))" "tame (opt_text (sy_review r))" "tame (opt_text (sy_revision r))"
    "tame (opt_text (sy_lane r))"
    using assms oid pub lits(3-5) tame_hex unfolding sync_ok_def by (auto simp: opt_text_def)
  show ?thesis using src f base branch num lits(1) by (simp add: sync_attrs_def)
qed

lemma sync_keys: "list_all (\<lambda>(k, v). k \<noteq> [] \<and> (\<forall>c \<in> set k. is_lower c)) (sync_attrs r)" "distinct (map fst (sync_attrs r))"
  by (simp_all add: sync_attrs_def is_lower_def less_eq_char_def)

definition sync_text :: "sync_record \<Rightarrow> string" where
  "sync_text r = tl (concat (map (\<lambda>(k, v). attr_str k v) (sync_attrs r))) @ '' ''"

lemma sync_concat: "concat (map (\<lambda>(k, v). attr_str k v) (sync_attrs r)) = CHR '' '' # tl (concat (map (\<lambda>(k, v). attr_str k v) (sync_attrs r)))"
  by (simp add: sync_attrs_def attr_str_def)

lemma tame_concat:
  assumes "list_all (\<lambda>(k, v). tame v) kvs" "list_all (\<lambda>(k, v). \<forall>c \<in> set k. is_lower c) kvs"
  shows "CHR ''>'' \<notin> set (concat (map (\<lambda>(k, v). attr_str k v) kvs)) \<and> CHR ''<'' \<notin> set (concat (map (\<lambda>(k, v). attr_str k v) kvs))"
  using assms by (fastforce simp: list_all_iff attr_str_def tame_def is_lower_def less_eq_char_def)

interpretation sync: marker_codec buildImplementBaseSyncMarker sync_marker sync_text sync_ok
proof
  show "\<exists>t. buildImplementBaseSyncMarker r = CHR ''<'' # t" for r by (simp add: buildImplementBaseSyncMarker_def)
  show "\<exists>t. s = CHR ''<'' # t" if "sync_marker s = Some x" for s x
    using that marker_open_start by (auto simp: sync_marker_def bind_eq_Some_conv)
  show "sync_marker (buildImplementBaseSyncMarker r @ s) = Some (sync_text r, s)" if "sync_ok r" for r s
  proof -
    let ?c = "concat (map (\<lambda>(k, v). attr_str k v) (sync_attrs r))"
    have gt: "CHR ''>'' \<notin> set ?c" using tame_concat [OF tame_values [OF that]] sync_keys(1) [of r]
      by (auto simp: list_all_iff)
    have "set (tl xs) \<subseteq> set xs" for xs :: string by (cases xs) auto
    then have "CHR ''>'' \<notin> set (tl ?c)" using gt by blast
    then have "CHR ''>'' \<notin> set (sync_text r)" unfolding sync_text_def by simp
    from before_arrow_build [OF this, of s] have b: "before_arrow (sync_text r @ ''-->'' @ s) = Some (sync_text r, s)" .
    obtain u where u: "sync_text r = CHR ''s'' # u" by (simp add: sync_text_def sync_attrs_def attr_str_def)
    have e: "buildImplementBaseSyncMarker r @ s = ''<!-- gc:implement-base-sync '' @ sync_text r @ ''-->'' @ s"
      unfolding buildImplementBaseSyncMarker_def sync_text_def by (subst sync_concat) simp
    show ?thesis unfolding e sync_marker_def using b u
      by (simp add: marker_open_def ws0_def is_ws_def less_eq_char_def)
  qed
qed

lemma sync_attributes: "sync_ok r \<Longrightarrow> attributes (sync_text r) = sync_attrs r"
proof -
  assume r: "sync_ok r"
  have "list_all (\<lambda>(k, v). k \<noteq> [] \<and> (\<forall>c \<in> set k. is_lower c) \<and> dq \<notin> set v) (sync_attrs r)"
    using sync_keys(1) [of r] tame_values [OF r] by (auto simp: list_all_iff tame_def)
  from attributes_built [OF this sync_keys(2) sync_concat [symmetric]] show ?thesis unfolding sync_text_def .
qed

lemma sync_record_read:
  assumes "sync_ok r"
  shows "parseImplementBaseSyncMarker (sync_text r) (sy_issue r) = Some r"
proof -
  note a = sync_attributes [OF assms]
  have schema: "implement_base_sync_schema \<noteq> implement_base_sync_schema_v1" by code_simp
  obtain t l where t: "sy_settled r = Some t" "git_object_id t" "sy_lane r = Some l" "l \<in> {''implement'', ''quickfix''}"
    using assms by (auto simp: sync_ok_def)
  obtain x y where x: "sy_review r = Some x" "sy_revision r = Some y"
    using assms by (auto simp: sync_ok_def isSyncPublicationField_def split: option.splits)
  have get: "jm_get (attributes (sync_text r)) k = map_of (sync_attrs r) k" for k unfolding a jm_get_def ..
  have v: "baseSyncSchemaVersion (jm_get (attributes (sync_text r)) ''schema'') = Some 2"
    unfolding get by (simp add: sync_attrs_def baseSyncSchemaVersion_def)
  have "commonSyncFieldsValid (attributes (sync_text r)) (Some 2) (sy_issue r)"
    using assms unfolding commonSyncFieldsValid_def oid_attr_def get by (simp add: sync_attrs_def sync_ok_def)
  moreover have "bindingSyncFieldsValid (attributes (sync_text r)) (Some 2)"
    using assms t x unfolding bindingSyncFieldsValid_def oid_attr_def get by (simp add: sync_attrs_def sync_ok_def opt_text_def)
  ultimately show ?thesis using t x assms unfolding parseImplementBaseSyncMarker_def Let_def v unfolding get
    by (simp add: sync_attrs_def opt_text_def sync_ok_def)
qed

section \<open>Selection\<close>

lemma sync_body_parsed:
  assumes "sync_ok r"
  shows "parseImplementBaseSyncMarkers [sync_record_body r] (sy_issue r) = [Some r]"
proof -
  have "CHR ''<'' \<notin> set (sy_source r)" "CHR ''<'' \<notin> set (sy_fetched r)" "CHR ''<'' \<notin> set (sy_outcome r)"
    "CHR ''<'' \<notin> set (sy_result r)" "CHR ''<'' \<notin> set (sy_verified r)"
    using tame_values [OF assms] by (auto simp: sync_attrs_def tame_def)
  then have "CHR ''<'' \<notin> set (nl # join [nl]
     [[], ''## Pre-PR base synchronization'', [], ''- Source: `'' @ sy_source r @ ''` at `'' @ sy_fetched r @ ''`'',
      ''- Outcome: `'' @ sy_outcome r @ ''`'', ''- Published feature head: `'' @ sy_result r @ ''`'',
      ''- Synchronized tree: `'' @ sy_verified r @ ''`''])" by (simp add: join_def)
  from sync.find_record [OF assms _ this, of "[]"]
  have "find_all sync_marker (sync_record_body r) = [sync_text r]" by (simp add: sync_record_body_def)
  then show ?thesis by (simp add: parseImplementBaseSyncMarkers_def sync_record_read [OF assms])
qed

lemma candidates_snoc:
  assumes "\<And>e. e \<in> set es \<Longrightarrow> comment_order e \<le> comment_order x" and "sy_version (snd x) = 2" "sy_branch (snd x) = branch"
  shows "sync_candidates (es @ [x]) branch = sync_candidates es branch @ [x]"
proof -
  let ?P = "\<lambda>(c, r). sy_version r = 2 \<and> sy_branch r = branch"
  have x: "?P x" using assms(2,3) by (cases x) simp
  have "sort_key comment_order (filter ?P es @ [x]) = sort_key comment_order (filter ?P es) @ [x]"
  proof (rule properties_for_sort_key)
    show "mset (sort_key comment_order (filter ?P es) @ [x]) = mset (filter ?P es @ [x])" by simp
    show "filter (\<lambda>y. comment_order k = comment_order y) (sort_key comment_order (filter ?P es) @ [x])
        = filter (\<lambda>y. comment_order k = comment_order y) (filter ?P es @ [x])" for k
      using sort_key_stable [of comment_order "comment_order k" "filter ?P es"]
      by (simp add: eq_commute [of "comment_order k"])
    show "sorted (map comment_order (sort_key comment_order (filter ?P es) @ [x]))"
      using assms(1) by (auto simp: sorted_append)
  qed
  then show ?thesis using x by (simp add: sync_candidates_def)
qed

lemma takeWhile_stop: "\<not> P x \<Longrightarrow> takeWhile P (xs @ [x]) = takeWhile P xs"
  by (induction xs) auto

lemma selected_in: "selectLatestSyncRecord es branch before = Some e \<Longrightarrow> e \<in> set es \<and> sy_version (snd e) = 2 \<and> sy_branch (snd e) = branch"
proof -
  assume "selectLatestSyncRecord es branch before = Some e"
  then have "e \<in> set (sync_candidates es branch)"
    by (auto simp: selectLatestSyncRecord_def Let_def split: option.splits if_splits dest: last_in_set set_takeWhileD)
  then show ?thesis by (auto simp: sync_candidates_def)
qed

lemma selected_newest:
  assumes "selectLatestSyncRecord es branch None = Some e" "e' \<in> set es" "sy_version (snd e') = 2" "sy_branch (snd e') = branch"
  shows "comment_order e' \<le> comment_order e"
proof -
  let ?c = "sync_candidates es branch"
  have e: "?c \<noteq> []" "e = last ?c" using assms(1) by (auto simp: selectLatestSyncRecord_def Let_def split: if_splits)
  then obtain xs where xs: "?c = xs @ [e]" by (metis append_butlast_last_id)
  have "sorted (map comment_order ?c)" by (simp add: sync_candidates_def)
  then have "\<forall>x \<in> set xs. comment_order x \<le> comment_order e" unfolding xs by (auto simp: sorted_append)
  moreover obtain c r where "e' = (c, r)" by (cases e')
  moreover from this have "e' \<in> set ?c" using assms(2-4) by (simp add: sync_candidates_def)
  ultimately show ?thesis unfolding xs by auto
qed

section \<open>Properties\<close>

text \<open>
  The synchronization record of the server reads back as itself, whatever the comment says around it, and is the
  only one of its comment.
\<close>

theorem sync_record_roundtrip:
  assumes "sync_ok r"
  shows "parseImplementBaseSyncMarkers [sync_record_body r] (sy_issue r) = [Some r]"
  using assms by (rule sync_body_parsed)

text \<open>
  The record a delivery is judged against is trusted, current and newest: it stands in a comment by an author with
  write permission, carries the binding of schema 2 for the branch, and no other such record of the branch is newer; and
  no comment of anybody else, and no malformed one, carries a synchronization marker at all.
\<close>

theorem latest_sync_record_sound:
  assumes "readLatestTrustedImplementSyncRecord perm cs n branch None = Inr (Some (c, r))"
  shows "c \<in> set cs \<and> write_author perm c \<and> Some r \<in> set (parseImplementBaseSyncMarkers [c_body c] n)
    \<and> sy_version r = 2 \<and> sy_branch r = branch
    \<and> (\<forall>c' \<in> set cs. \<forall>x \<in> set (parseImplementBaseSyncMarkers [c_body c'] n). write_author perm c'
         \<and> (\<exists>r'. x = Some r' \<and> (sy_version r' = 2 \<and> sy_branch r' = branch \<longrightarrow> comment_order (c', r') \<le> comment_order (c, r))))"
proof -
  let ?t = "resolveExecutionObligationTrust perm cs"
  obtain es where es: "readTrustedImplementSyncRecords perm cs n = Inr es" "selectLatestSyncRecord es branch None = Some (c, r)"
    using assms by (auto simp: readLatestTrustedImplementSyncRecord_def split: sum.splits)
  have all: "write_author perm c' \<and> x \<noteq> None"
    if "c' \<in> set cs" "x \<in> set (parseImplementBaseSyncMarkers [c_body c'] n)" for c' x
  proof -
    have "(c', parseImplementBaseSyncMarkers [c_body c'] n) \<in> set (marked cs n)" using that by (auto simp: marked_def)
    then have "isTrusted ?t c' \<and> None \<notin> set (parseImplementBaseSyncMarkers [c_body c'] n)"
      using es(1) by (auto simp: readTrustedImplementSyncRecords_def Let_def list_ex_iff split: if_splits)
    then show ?thesis using that isTrusted_write_author [of c' cs perm] by (cases x) auto
  qed
  have mem: "(c', r') \<in> set es \<longleftrightarrow> c' \<in> set cs \<and> Some r' \<in> set (parseImplementBaseSyncMarkers [c_body c'] n)" for c' r'
  proof -
    have "es = concat (map (\<lambda>(c, rs). map (\<lambda>r. (c, the r)) rs) (marked cs n))"
      using es(1) by (auto simp: readTrustedImplementSyncRecords_def Let_def split: if_splits)
    then have "(c', r') \<in> set es \<longleftrightarrow> c' \<in> set cs \<and> (\<exists>x \<in> set (parseImplementBaseSyncMarkers [c_body c'] n). r' = the x)"
      by (force simp: marked_def)
    also have "\<dots> \<longleftrightarrow> c' \<in> set cs \<and> Some r' \<in> set (parseImplementBaseSyncMarkers [c_body c'] n)" using all by force
    finally show ?thesis .
  qed
  have s: "(c, r) \<in> set es" "sy_version r = 2" "sy_branch r = branch" using selected_in [OF es(2)] by simp_all
  then have c: "c \<in> set cs" "Some r \<in> set (parseImplementBaseSyncMarkers [c_body c] n)" using mem by simp_all
  have "\<exists>r'. x = Some r' \<and> (sy_version r' = 2 \<and> sy_branch r' = branch \<longrightarrow> comment_order (c', r') \<le> comment_order (c, r))"
    if x: "c' \<in> set cs" "x \<in> set (parseImplementBaseSyncMarkers [c_body c'] n)" for c' x
  proof -
    obtain r' where "x = Some r'" using all [OF x] by blast
    then show ?thesis using selected_newest [OF es(2), of "(c', r')"] mem x by simp
  qed
  then show ?thesis using c s all by blast
qed

text \<open>
  A completion retried after its own record was posted sees what its first attempt saw: with its record on the
  thread as the newest comment, the record selected ahead of it, the settled tree and the binding are the ones of before.
\<close>

theorem sync_retry_stable:
  assumes "\<forall>e \<in> set es. comment_order e \<le> comment_order (c, r) \<and> sy_record (snd e) \<noteq> sy_record r"
    and "sy_version r = 2" and "sy_branch r = branch"
  shows "selectLatestSyncRecord (es @ [(c, r)]) branch (Some (sy_record r)) = selectLatestSyncRecord es branch (Some (sy_record r))
    \<and> selectLatestSyncRecord es branch (Some (sy_record r)) = selectLatestSyncRecord es branch None"
proof -
  have s: "sync_candidates (es @ [(c, r)]) branch = sync_candidates es branch @ [(c, r)]"
    by (rule candidates_snoc) (use assms in auto)
  have "selectLatestSyncRecord (es @ [(c, r)]) branch (Some (sy_record r)) = selectLatestSyncRecord es branch (Some (sy_record r))"
    using takeWhile_stop [of "\<lambda>(c, r'). sy_record r' \<noteq> sy_record r" "(c, r)" "sync_candidates es branch"]
    unfolding selectLatestSyncRecord_def Let_def option.case s by simp
  moreover have "\<forall>e \<in> set (sync_candidates es branch). (\<lambda>(c, r'). sy_record r' \<noteq> sy_record r) e"
    using assms(1) by (auto simp: sync_candidates_def)
  then have "takeWhile (\<lambda>(c, r'). sy_record r' \<noteq> sy_record r) (sync_candidates es branch) = sync_candidates es branch"
    by (simp only: takeWhile_eq_all_conv)
  then have "selectLatestSyncRecord es branch (Some (sy_record r)) = selectLatestSyncRecord es branch None"
    unfolding selectLatestSyncRecord_def Let_def option.case by (simp only:)
  ultimately show ?thesis ..
qed

section \<open>Witnesses\<close>

definition oid_a :: string where "oid_a = replicate 40 (CHR ''a'')"

definition sample_sync :: sync_record where
  "sample_sync = \<lparr>sy_version = 2, sy_record = replicate 32 (CHR ''c''), sy_issue = 7, sy_branch = ''7-fix'', sy_base = ''dev'',
     sy_source = ''refs/remotes/origin/dev'', sy_pre = oid_a, sy_fetched = oid_a, sy_outcome = ''already_current'',
     sy_result = oid_a, sy_verified = oid_a, sy_settled = Some oid_a, sy_review = Some ''-'', sy_revision = Some ''-'',
     sy_lane = Some ''implement''\<rparr>"

lemma sample_sync_ok: "sync_ok sample_sync"
proof -
  have n: "implementBranchName_ok (Some ''7-fix'') 7" "isSafeGitRefName (JStr ''dev'')" "git_object_id oid_a"
    "hex_run 32 (replicate 32 (CHR ''c''))" "''already_current'' \<in> set sync_outcomes" "isSyncPublicationField (Some ''-'')"
    by code_simp+
  then show ?thesis by (simp add: sync_ok_def sample_sync_def)
qed

lemma sync_record_roundtrip_witness: "parseImplementBaseSyncMarkers [sync_record_body sample_sync] 7 = [Some sample_sync]"
  using sync_record_roundtrip [OF sample_sync_ok] by (simp add: sample_sync_def)

definition sync_comment :: comment where "sync_comment = said ''alice'' 5 (sync_record_body sample_sync)"

lemma sample_latest: "readLatestTrustedImplementSyncRecord two_writers [sync_comment] 7 ''7-fix'' None = Inr (Some (sync_comment, sample_sync))"
proof -
  have "parseImplementBaseSyncMarkers [c_body sync_comment] 7 = [Some sample_sync]"
    using sync_body_parsed [OF sample_sync_ok] by (simp add: sync_comment_def sample_sync_def)
  moreover have "isTrusted (resolveExecutionObligationTrust two_writers [sync_comment]) sync_comment"
    unfolding sync_comment_def by (simp add: isTrusted_write_author)
  ultimately show ?thesis
    by (simp add: readLatestTrustedImplementSyncRecord_def readTrustedImplementSyncRecords_def marked_def
        selectLatestSyncRecord_def sync_candidates_def) (simp add: sample_sync_def)
qed

lemma latest_sync_record_sound_witness: "write_author two_writers sync_comment"
  using latest_sync_record_sound [OF sample_latest] by blast

lemma sync_retry_stable_witness:
  "selectLatestSyncRecord ([] @ [(sync_comment, sample_sync)]) ''7-fix'' (Some (sy_record sample_sync)) = None"
  using sync_retry_stable [of "[]" sync_comment sample_sync "''7-fix''"]
  by (simp add: sample_sync_def selectLatestSyncRecord_def sync_candidates_def)

end
