(* ===== verification/FinalReport.thy ===== *)
theory FinalReport
  imports ReviewCap ReleaseLedger
begin

text \<open>
  What a final report must say (\<open>validateFinalReportInput\<close> of \<open>lib/plan-posting.js\<close>, \<open>validateDocumentationOutcome\<close> of
  \<open>lib/doc-coverage.js\<close>), and the one mapping from a tool's completion input to it (\<open>lib/completion-mapping.js\<close>). A
  validation is the list of its errors, in the order the code reports them.
\<close>

section \<open>The mapping\<close>

text \<open>The arguments of a mechanical action, as far as they are read here.\<close>

record mech_args =
  ma_repo :: string
  ma_issue :: nat
  ma_pr :: "nat option"
  ma_lane :: "string option"
  ma_completion :: js
  ma_run :: js

definition map_requirement :: "js \<Rightarrow> js option" where
  "map_requirement r =
     (if nullish r then None
      else Some (JObj [(''uid'', fld r ''uid''), (''title'', fld r ''title''), (''status'', fld r ''status''),
                       (''statusIntent'', fld r ''status_intent''), (''note'', fld r ''note'')]))"

text \<open>\<open>None\<close> where reading a field of \<open>null\<close> or calling \<open>map\<close> on anything but an array throws.\<close>

definition mapCompletion :: "mech_args \<Rightarrow> string \<Rightarrow> js option" where
  "mapCompletion m phase =
     (let v = ma_completion m
      in if nullish v then None
         else (case coalesce (fld v ''requirements'') (JArr []) of
                 JArr rs \<Rightarrow>
                   (case those (map map_requirement rs) of
                      None \<Rightarrow> None
                    | Some qs \<Rightarrow> Some (JObj
                        [(''repoPath'', JStr (ma_repo m)), (''issueNumber'', JInt (int (ma_issue m))),
                         (''prNumber'', (case ma_pr m of Some k \<Rightarrow> JInt (int k) | None \<Rightarrow> JUndef)),
                         (''requirements'', JArr qs), (''files'', fld v ''files''), (''reviews'', fld v ''reviews''),
                         (''traceability'', fld v ''traceability''), (''ciStatus'', fld v ''ci_status''),
                         (''sonarStatus'', fld v ''sonar_status''), (''planCommentUrl'', fld v ''plan_comment_url''),
                         (''summary'', fld v ''summary''), (''plainEnglishOutcome'', fld v ''plain_english_outcome''),
                         (''touchedFiles'', fld v ''touched_files''), (''project'', fld v ''project''),
                         (''lane'', JStr (case ma_lane m of Some l \<Rightarrow> l | None \<Rightarrow> ''implement'')),
                         (''automationRunId'', coalesce (ma_run m) JNull), (''phase'', JStr phase)]))
               | _ \<Rightarrow> None))"

section \<open>The gate\<close>

definition final_report_file_kinds :: "string list" where
  "final_report_file_kinds = [''added'', ''modified'', ''renamed'', ''deleted'']"

definition final_report_ci_statuses :: "string list" where
  "final_report_ci_statuses = [''green'', ''red'', ''skipped'']"

definition final_report_sonar_statuses :: "string list" where
  "final_report_sonar_statuses = [''passed'', ''failed'', ''skipped'']"

definition final_report_summary_max :: nat where "final_report_summary_max = 800"
definition final_report_outcome_max :: nat where "final_report_outcome_max = 600"
definition final_report_review_max :: nat where "final_report_review_max = 240"

definition documentation_outcomes :: "string list" where
  "documentation_outcomes = [''updated'', ''verified_unchanged'', ''not_updated_authorized'']"

definition documentation_rationale_max :: nat where "documentation_rationale_max = 2000"

definition validateDocumentationOutcome :: "(int \<Rightarrow> nat \<Rightarrow> string) \<Rightarrow> js \<Rightarrow> string list" where
  "validateDocumentationOutcome frac v =
     (if \<not> is_object v then [''documentation_outcome must be an object'']
      else (let outcome = fld v ''outcome''; rationale = fld v ''rationale''
            in (if (case outcome of JStr s \<Rightarrow> s \<in> set documentation_outcomes | _ \<Rightarrow> False) then []
                else [''documentation_outcome.outcome must be one of: '' @ join '', '' documentation_outcomes])
             @ (if outcome = JStr ''not_updated_authorized''
                then (case rationale of
                        JStr s \<Rightarrow>
                          if trim s = []
                          then [''documentation_outcome.rationale is required for outcome=not_updated_authorized and must be non-empty'']
                          else if unit_length s > documentation_rationale_max
                          then [''documentation_outcome.rationale exceeds the '' @ show_nat documentation_rationale_max
                                @ ''-character limit (got '' @ show_nat (unit_length s) @ '')'']
                          else []
                      | _ \<Rightarrow> [''documentation_outcome.rationale is required for outcome=not_updated_authorized and must be non-empty''])
                else if nullish rationale then []
                else [''documentation_outcome.rationale must not be supplied for outcome='' @ js_string frac outcome @ '' (strict)''])))"

text \<open>\<open>EXACT_REQUIREMENT_UID_RE\<close> on bytes.\<close>

definition uid_first :: "char \<Rightarrow> bool" where
  "uid_first c \<longleftrightarrow> is_digit c \<or> is_lower c \<or> is_upper c"

definition uid_rest :: "char \<Rightarrow> bool" where
  "uid_rest c \<longleftrightarrow> uid_first c \<or> c \<in> {CHR ''.'', CHR ''_'', CHR ''-''}"

definition exact_uid :: "string \<Rightarrow> bool" where
  "exact_uid s \<longleftrightarrow> (case s of [] \<Rightarrow> False | c # t \<Rightarrow> uid_first c \<and> length t \<le> 49 \<and> list_all uid_rest t)"

definition uid_contract :: string where
  "uid_contract = ''a single requirement UID: 1-50 characters, starting with a letter or digit, containing only letters, digits, ''
     @ [CHR 0x27] @ ''.'' @ [CHR 0x27] @ '', '' @ [CHR 0x27] @ ''_'' @ [CHR 0x27] @ '', or '' @ [CHR 0x27] @ ''-'' @ [CHR 0x27]"

definition nonblank :: "js \<Rightarrow> bool" where
  "nonblank v = (case v of JStr s \<Rightarrow> trim s \<noteq> [] | _ \<Rightarrow> False)"

definition must :: "bool \<Rightarrow> string \<Rightarrow> string list" where
  "must ok m = (if ok then [] else [m])"

text \<open>An error of each position of an array, \<open>at\<close> naming the array.\<close>

definition at_index :: "string \<Rightarrow> nat \<Rightarrow> string" where
  "at_index nm i = nm @ ''['' @ show_nat i @ '']''"

definition each :: "string \<Rightarrow> (string \<Rightarrow> js \<Rightarrow> string list) \<Rightarrow> js list \<Rightarrow> string list" where
  "each nm f xs = concat (map (\<lambda>(i, x). f (at_index nm i) x) (enumerate 0 xs))"

definition over_cap :: "string \<Rightarrow> string \<Rightarrow> nat \<Rightarrow> string \<Rightarrow> string \<Rightarrow> string" where
  "over_cap nm what cap s advice = nm @ '' exceeds the final-report '' @ what @ '' cap of '' @ show_nat cap
     @ '' bytes (got '' @ show_nat (length s) @ ''). '' @ advice"

definition requirement_errors :: "string \<Rightarrow> js \<Rightarrow> string list" where
  "requirement_errors nm r =
     (if \<not> is_object r then [nm @ '' must be an object'']
      else must (case fld r ''uid'' of JStr u \<Rightarrow> exact_uid u | _ \<Rightarrow> False) (nm @ ''.uid must be '' @ uid_contract)
         @ must (nonblank (fld r ''title'')) (nm @ ''.title must be a non-empty string'')
         @ must (nonblank (fld r ''status'')) (nm @ ''.status must be a non-empty string'')
         @ must (nullish (fld r ''note'') \<or> is_string (fld r ''note'')) (nm @ ''.note must be a string when set''))"

definition kind_errors :: "js \<Rightarrow> string \<Rightarrow> string list" where
  "kind_errors files k =
     (if k \<notin> set final_report_file_kinds
      then [''files has unknown key '' @ [CHR 0x27] @ k @ [CHR 0x27] @ '' (allowed: '' @ join '', '' final_report_file_kinds @ '')'']
      else (case fld files k of
              JArr ps \<Rightarrow> each (''files.'' @ k) (\<lambda>nm p. must (nonblank p) (nm @ '' must be a non-empty string'')) ps
            | _ \<Rightarrow> [''files.'' @ k @ '' must be an array'']))"

definition file_errors :: "js \<Rightarrow> string list" where
  "file_errors files =
     (if is_mapping files then concat (map (kind_errors files) (obj_keys files))
      else must (nullish files) ''files must be a mapping of {added|modified|renamed|deleted: [paths]}'')"

definition review_errors :: "string \<Rightarrow> js \<Rightarrow> string list" where
  "review_errors nm r =
     (if \<not> is_object r then [nm @ '' must be an object'']
      else must (nonblank (fld r ''reviewer'')) (nm @ ''.reviewer must be a non-empty string'')
         @ (case fld r ''summary'' of
              JStr s \<Rightarrow>
                if trim s = [] then [nm @ ''.summary must be a non-empty string'']
                else must (length s \<le> final_report_review_max)
                  (over_cap (nm @ ''.summary'') ''review-summary'' final_report_review_max s
                    (''A review summary is one tight line '' @ em_dash @ '' restated context and hedging are the usual offenders.''))
            | _ \<Rightarrow> [nm @ ''.summary must be a non-empty string'']))"

definition traceability_errors :: "js \<Rightarrow> string list" where
  "traceability_errors v =
     (if nullish v then []
      else if \<not> is_mapping v
      then [''traceability must be a mapping with optional keys '' @ join '', '' (map (\<lambda>k. [CHR 0x27] @ k @ [CHR 0x27]) [''added'', ''updated'', ''deleted''])]
      else concat (map (\<lambda>k. must (k \<in> set [''added'', ''updated'', ''deleted'', ''notes''])
             (''traceability has unknown key '' @ [CHR 0x27] @ k @ [CHR 0x27] @ '' (allowed: added, updated, deleted, notes)'')) (obj_keys v)))"

definition one_of :: "string list \<Rightarrow> js \<Rightarrow> bool" where
  "one_of xs v = (case v of JStr s \<Rightarrow> s \<in> set xs | _ \<Rightarrow> False)"

definition summary_errors :: "js \<Rightarrow> string list" where
  "summary_errors v = (case v of
       JStr s \<Rightarrow> must (length s \<le> final_report_summary_max)
         (over_cap ''summary'' ''summary'' final_report_summary_max s
           (''A final-report summary is one tight paragraph '' @ em_dash @ '' restated context and hedging are the usual offenders.''))
     | _ \<Rightarrow> must (nullish v) ''summary must be a string when set'')"

definition outcome_errors :: "js \<Rightarrow> js \<Rightarrow> string list" where
  "outcome_errors lane v =
     (if nullish v then must (lane = JStr ''quickfix'') ''plainEnglishOutcome is required for /implement final reports''
      else (case v of
              JStr s \<Rightarrow>
                if trim s = [] then [''plainEnglishOutcome must be a non-empty string when set'']
                else must (length s \<le> final_report_outcome_max)
                  (over_cap ''plainEnglishOutcome'' ''plain-English outcome'' final_report_outcome_max s
                    ''Keep it to 1-3 plain-language sentences.'')
            | _ \<Rightarrow> [''plainEnglishOutcome must be a non-empty string when set'']))"

definition validateFinalReportInput :: "(int \<Rightarrow> nat \<Rightarrow> string) \<Rightarrow> js \<Rightarrow> string list" where
  "validateFinalReportInput frac v =
     (if \<not> is_object v then [''input must be an object'']
      else must (nullish (fld v ''lane'') \<or> one_of [''implement'', ''quickfix''] (fld v ''lane''))
             (''lane must be '' @ [CHR 0x27] @ ''implement'' @ [CHR 0x27] @ '' or '' @ [CHR 0x27] @ ''quickfix'' @ [CHR 0x27] @ '' when set'')
         @ must (is_pos_int (fld v ''issueNumber'')) ''issueNumber must be a positive integer''
         @ must (is_pos_int (fld v ''prNumber'')) ''prNumber must be a positive integer''
         @ (case fld v ''requirements'' of
              JArr rs \<Rightarrow> each ''requirements'' requirement_errors rs
            | _ \<Rightarrow> [''requirements must be an array (may be empty)''])
         @ file_errors (fld v ''files'')
         @ (case fld v ''reviews'' of
              JArr rs \<Rightarrow> each ''reviews'' review_errors rs
            | _ \<Rightarrow> [''reviews must be an array (may be empty)''])
         @ traceability_errors (fld v ''traceability'')
         @ must (one_of final_report_ci_statuses (fld v ''ciStatus'')) (''ciStatus must be one of: '' @ join '', '' final_report_ci_statuses)
         @ must (one_of final_report_sonar_statuses (fld v ''sonarStatus''))
             (''sonarStatus must be one of: '' @ join '', '' final_report_sonar_statuses)
         @ must (nullish (fld v ''planCommentUrl'') \<or> is_string (fld v ''planCommentUrl'')) ''planCommentUrl must be a string when set''
         @ summary_errors (fld v ''summary'')
         @ outcome_errors (fld v ''lane'') (fld v ''plainEnglishOutcome'')
         @ (if nullish (fld v ''documentation_outcome'') then []
            else map (\<lambda>e. ''documentation_outcome: '' @ e) (validateDocumentationOutcome frac (fld v ''documentation_outcome''))))"

section \<open>What an accepted completion holds\<close>

lemma must_nil [simp]: "must ok m = [] \<longleftrightarrow> ok"
  by (simp add: must_def)

lemma each_nil:
  assumes "\<And>at x. f at x = [] \<longleftrightarrow> P x"
  shows "each nm f xs = [] \<longleftrightarrow> list_all P xs"
proof -
  have "each nm f xs = [] \<longleftrightarrow> (\<forall>ix \<in> set (enumerate 0 xs). P (snd ix))"
    using assms by (auto simp: each_def)
  also have "\<dots> \<longleftrightarrow> (\<forall>x \<in> snd ` set (enumerate 0 xs). P x)" by blast
  also have "snd ` set (enumerate 0 xs) = set xs" by (metis map_snd_enumerate set_map)
  finally show ?thesis by (simp add: list_all_iff)
qed

lemma one_of_iff: "one_of xs v \<longleftrightarrow> (\<exists>s. v = JStr s \<and> s \<in> set xs)"
  by (cases v) (auto simp: one_of_def)

lemma nonblank_iff: "nonblank v \<longleftrightarrow> (\<exists>s. v = JStr s \<and> trim s \<noteq> [])"
  by (cases v) (auto simp: nonblank_def)

text \<open>The fields of a requirement, a review and the rest of a completion that a report can be written from.\<close>

definition requirement_fit :: "js \<Rightarrow> bool" where
  "requirement_fit r \<longleftrightarrow> (\<exists>u. fld r ''uid'' = JStr u \<and> exact_uid u) \<and> nonblank (fld r ''title'') \<and> nonblank (fld r ''status'')
     \<and> (nullish (fld r ''note'') \<or> is_string (fld r ''note''))"

definition review_fit :: "js \<Rightarrow> bool" where
  "review_fit r \<longleftrightarrow> nonblank (fld r ''reviewer'')
     \<and> (\<exists>s. fld r ''summary'' = JStr s \<and> trim s \<noteq> [] \<and> length s \<le> final_report_review_max)"

definition files_fit :: "js \<Rightarrow> bool" where
  "files_fit v \<longleftrightarrow> nullish v \<or> is_mapping v \<and> (\<forall>k \<in> set (obj_keys v). k \<in> set final_report_file_kinds
     \<and> (\<exists>ps. fld v k = JArr ps \<and> list_all nonblank ps))"

definition completion_fit :: "string \<Rightarrow> js \<Rightarrow> bool" where
  "completion_fit lane v \<longleftrightarrow>
     (\<exists>rs. coalesce (fld v ''requirements'') (JArr []) = JArr rs \<and> list_all requirement_fit rs)
     \<and> files_fit (fld v ''files'')
     \<and> (\<exists>rs. fld v ''reviews'' = JArr rs \<and> list_all review_fit rs)
     \<and> (nullish (fld v ''traceability'') \<or> is_mapping (fld v ''traceability'')
        \<and> set (obj_keys (fld v ''traceability'')) \<subseteq> {''added'', ''updated'', ''deleted'', ''notes''})
     \<and> one_of final_report_ci_statuses (fld v ''ci_status'') \<and> one_of final_report_sonar_statuses (fld v ''sonar_status'')
     \<and> (nullish (fld v ''plan_comment_url'') \<or> is_string (fld v ''plan_comment_url''))
     \<and> (nullish (fld v ''summary'') \<or> (\<exists>s. fld v ''summary'' = JStr s \<and> length s \<le> final_report_summary_max))
     \<and> (nullish (fld v ''plain_english_outcome'') \<and> lane = ''quickfix''
        \<or> (\<exists>s. fld v ''plain_english_outcome'' = JStr s \<and> trim s \<noteq> [] \<and> length s \<le> final_report_outcome_max))"

lemma is_object_fld: "fld r k = JStr s \<Longrightarrow> is_object r"
  by (cases r) (simp_all add: fld_def is_object_def)

lemma requirement_errors_nil: "requirement_errors nm r = [] \<longleftrightarrow> requirement_fit r"
proof -
  have u: "(case fld r ''uid'' of JStr u \<Rightarrow> exact_uid u | _ \<Rightarrow> False) \<longleftrightarrow> (\<exists>u. fld r ''uid'' = JStr u \<and> exact_uid u)"
    by (cases "fld r ''uid''") simp_all
  have "\<not> is_object r \<Longrightarrow> \<not> requirement_fit r" using is_object_fld by (auto simp: requirement_fit_def)
  then show ?thesis by (simp add: requirement_errors_def u requirement_fit_def)
qed

lemma review_errors_nil: "review_errors nm r = [] \<longleftrightarrow> review_fit r"
proof -
  have "\<not> is_object r \<Longrightarrow> \<not> review_fit r" using is_object_fld by (auto simp: review_fit_def)
  then show ?thesis by (cases "fld r ''summary''") (simp_all add: review_errors_def review_fit_def)
qed

lemma kind_errors_nil:
  "kind_errors files k = [] \<longleftrightarrow> k \<in> set final_report_file_kinds \<and> (\<exists>ps. fld files k = JArr ps \<and> list_all nonblank ps)"
proof -
  have "each nm (\<lambda>nm p. must (nonblank p) (nm @ t)) ps = [] \<longleftrightarrow> list_all nonblank ps" for nm ps t by (rule each_nil) simp
  then show ?thesis by (cases "fld files k") (simp_all add: kind_errors_def)
qed

lemma file_errors_nil: "file_errors v = [] \<longleftrightarrow> files_fit v"
  by (cases v) (auto simp: file_errors_def files_fit_def kind_errors_nil is_mapping_def nullish_def)

lemma mapped_requirement: "map_requirement r = Some q \<Longrightarrow> requirement_fit q \<longleftrightarrow> requirement_fit r"
  by (auto simp: map_requirement_def requirement_fit_def split: if_splits)

lemma mapped_requirements: "those (map map_requirement rs) = Some qs \<Longrightarrow> list_all requirement_fit qs \<longleftrightarrow> list_all requirement_fit rs"
  by (induction rs arbitrary: qs) (auto simp: mapped_requirement split: option.splits)

lemma fit_mapped: "list_all requirement_fit rs \<Longrightarrow> \<exists>qs. those (map map_requirement rs) = Some qs"
proof (induction rs)
  case (Cons r rs)
  then have "\<not> nullish r" by (auto simp: requirement_fit_def fld_def nullish_def split: js.splits)
  then show ?case using Cons by (auto simp: map_requirement_def)
qed simp

text \<open>The input a completion maps to.\<close>

definition mapped_input :: "mech_args \<Rightarrow> string \<Rightarrow> js list \<Rightarrow> js" where
  "mapped_input m phase qs =
     (let v = ma_completion m
      in JObj
        [(''repoPath'', JStr (ma_repo m)), (''issueNumber'', JInt (int (ma_issue m))),
         (''prNumber'', (case ma_pr m of Some k \<Rightarrow> JInt (int k) | None \<Rightarrow> JUndef)),
         (''requirements'', JArr qs), (''files'', fld v ''files''), (''reviews'', fld v ''reviews''),
         (''traceability'', fld v ''traceability''), (''ciStatus'', fld v ''ci_status''),
         (''sonarStatus'', fld v ''sonar_status''), (''planCommentUrl'', fld v ''plan_comment_url''),
         (''summary'', fld v ''summary''), (''plainEnglishOutcome'', fld v ''plain_english_outcome''),
         (''touchedFiles'', fld v ''touched_files''), (''project'', fld v ''project''),
         (''lane'', JStr (case ma_lane m of Some l \<Rightarrow> l | None \<Rightarrow> ''implement'')),
         (''automationRunId'', coalesce (ma_run m) JNull), (''phase'', JStr phase)])"

lemma mapCompletion_Some:
  "mapCompletion m phase = Some v \<longleftrightarrow> \<not> nullish (ma_completion m)
     \<and> (\<exists>rs qs. coalesce (fld (ma_completion m) ''requirements'') (JArr []) = JArr rs
          \<and> those (map map_requirement rs) = Some qs \<and> v = mapped_input m phase qs)"
  by (auto simp: mapCompletion_def mapped_input_def Let_def split: js.splits option.splits)

lemma review_array: "(case v of JArr rs \<Rightarrow> each nm review_errors rs | _ \<Rightarrow> [t]) = [] \<longleftrightarrow> (\<exists>rs. v = JArr rs \<and> list_all review_fit rs)"
  using each_nil [of review_errors review_fit nm] by (cases v) (simp_all add: review_errors_nil)

lemma traceability_errors_nil:
  "traceability_errors v = [] \<longleftrightarrow> nullish v \<or> is_mapping v \<and> set (obj_keys v) \<subseteq> {''added'', ''updated'', ''deleted'', ''notes''}"
  by (simp add: traceability_errors_def subset_eq)

lemma summary_errors_nil:
  "summary_errors v = [] \<longleftrightarrow> nullish v \<or> (\<exists>s. v = JStr s \<and> length s \<le> final_report_summary_max)"
  by (cases v) (simp_all add: summary_errors_def nullish_def)

lemma outcome_errors_nil:
  "outcome_errors (JStr lane) v = [] \<longleftrightarrow> nullish v \<and> lane = ''quickfix''
     \<or> (\<exists>s. v = JStr s \<and> trim s \<noteq> [] \<and> length s \<le> final_report_outcome_max)"
  by (cases v) (simp_all add: outcome_errors_def nullish_def)

lemma validated:
  assumes "0 < ma_issue m" "ma_pr m = Some k" "0 < k" "ma_lane m = Some lane" "lane \<in> {''implement'', ''quickfix''}"
  shows "validateFinalReportInput frac (mapped_input m phase qs) = [] \<longleftrightarrow>
    list_all requirement_fit qs \<and> files_fit (fld (ma_completion m) ''files'')
    \<and> (\<exists>rs. fld (ma_completion m) ''reviews'' = JArr rs \<and> list_all review_fit rs)
    \<and> (nullish (fld (ma_completion m) ''traceability'') \<or> is_mapping (fld (ma_completion m) ''traceability'')
        \<and> set (obj_keys (fld (ma_completion m) ''traceability'')) \<subseteq> {''added'', ''updated'', ''deleted'', ''notes''})
    \<and> one_of final_report_ci_statuses (fld (ma_completion m) ''ci_status'')
    \<and> one_of final_report_sonar_statuses (fld (ma_completion m) ''sonar_status'')
    \<and> (nullish (fld (ma_completion m) ''plan_comment_url'') \<or> is_string (fld (ma_completion m) ''plan_comment_url''))
    \<and> (nullish (fld (ma_completion m) ''summary'')
       \<or> (\<exists>s. fld (ma_completion m) ''summary'' = JStr s \<and> length s \<le> final_report_summary_max))
    \<and> (nullish (fld (ma_completion m) ''plain_english_outcome'') \<and> lane = ''quickfix''
       \<or> (\<exists>s. fld (ma_completion m) ''plain_english_outcome'' = JStr s \<and> trim s \<noteq> [] \<and> length s \<le> final_report_outcome_max))"
proof -
  have l: "one_of [''implement'', ''quickfix''] (JStr lane)" using assms(5) by (auto simp: one_of_def)
  have f: "nullish (JStr x) = False" "nullish JUndef" "is_pos_int (JInt (int (ma_issue m)))" "is_pos_int (JInt (int k))" for x
    using assms by (simp_all add: nullish_def is_pos_int_def)
  have v: "is_object (mapped_input m phase qs)" by (simp add: mapped_input_def Let_def is_object_def)
  have fl: "fld (mapped_input m phase qs) ''lane'' = JStr lane" "fld (mapped_input m phase qs) ''issueNumber'' = JInt (int (ma_issue m))"
    "fld (mapped_input m phase qs) ''prNumber'' = JInt (int k)" "fld (mapped_input m phase qs) ''requirements'' = JArr qs"
    "fld (mapped_input m phase qs) ''files'' = fld (ma_completion m) ''files''"
    "fld (mapped_input m phase qs) ''reviews'' = fld (ma_completion m) ''reviews''"
    "fld (mapped_input m phase qs) ''traceability'' = fld (ma_completion m) ''traceability''"
    "fld (mapped_input m phase qs) ''ciStatus'' = fld (ma_completion m) ''ci_status''"
    "fld (mapped_input m phase qs) ''sonarStatus'' = fld (ma_completion m) ''sonar_status''"
    "fld (mapped_input m phase qs) ''planCommentUrl'' = fld (ma_completion m) ''plan_comment_url''"
    "fld (mapped_input m phase qs) ''summary'' = fld (ma_completion m) ''summary''"
    "fld (mapped_input m phase qs) ''plainEnglishOutcome'' = fld (ma_completion m) ''plain_english_outcome''"
    "fld (mapped_input m phase qs) ''documentation_outcome'' = JUndef"
    using assms(2,4) by (simp_all add: mapped_input_def Let_def)
  show ?thesis
    unfolding validateFinalReportInput_def fl
    using v l f each_nil [of requirement_errors requirement_fit "''requirements''" qs]
    by (simp add: requirement_errors_nil file_errors_nil review_array traceability_errors_nil summary_errors_nil outcome_errors_nil)
qed

text \<open>The gate accepts a completion exactly when a report can be written from it.\<close>

lemma completion_gate_exact:
  assumes "0 < ma_issue m" "ma_pr m = Some k" "0 < k" "ma_lane m = Some lane" "lane \<in> {''implement'', ''quickfix''}"
  shows "(\<exists>v. mapCompletion m phase = Some v \<and> validateFinalReportInput frac v = []) \<longleftrightarrow> completion_fit lane (ma_completion m)"
proof -
  have some: "completion_fit lane (ma_completion m) \<Longrightarrow> \<not> nullish (ma_completion m)"
    by (auto simp: completion_fit_def one_of_iff fld_def nullish_def split: js.splits)
  show ?thesis
  proof
    assume "\<exists>v. mapCompletion m phase = Some v \<and> validateFinalReportInput frac v = []"
    then obtain rs qs where r: "coalesce (fld (ma_completion m) ''requirements'') (JArr []) = JArr rs"
      "those (map map_requirement rs) = Some qs" "validateFinalReportInput frac (mapped_input m phase qs) = []"
      unfolding mapCompletion_Some by blast
    then show "completion_fit lane (ma_completion m)"
      using validated [OF assms, of frac phase qs] mapped_requirements [OF r(2)] unfolding completion_fit_def by simp
  next
    assume c: "completion_fit lane (ma_completion m)"
    then obtain rs where r: "coalesce (fld (ma_completion m) ''requirements'') (JArr []) = JArr rs" "list_all requirement_fit rs"
      unfolding completion_fit_def by blast
    then obtain qs where q: "those (map map_requirement rs) = Some qs" using fit_mapped by blast
    have "validateFinalReportInput frac (mapped_input m phase qs) = []"
      unfolding validated [OF assms] using c mapped_requirements [OF q] r(2) unfolding completion_fit_def by simp
    then show "\<exists>v. mapCompletion m phase = Some v \<and> validateFinalReportInput frac v = []"
      using some [OF c] r q unfolding mapCompletion_Some by blast
  qed
qed

end
