(* ===== verification/Delivery.thy ===== *)
theory Delivery
  imports SyncRecord FinalReport CallTree
begin

text \<open>
  From a ready pull request to a closed issue: the readiness action, which records the handoff
  (\<open>implement/completion.js\<close>, \<open>runRecordDeliveryReadiness\<close> of \<open>lib/delivery-readiness.js\<close>), the finalize action, and
  the executor that runs it after the merge (\<open>implement/phase-e-automation.js\<close>). The calls are trees over any behaviour
  of the services; envelopes are the objects the code returns. \<open>sens\<close> is the sensitive-content test, \<open>sha\<close> SHA-256,
  \<open>frac\<close> prints numbers that are no integers.
\<close>

section \<open>Services\<close>

text \<open>
  The workspace authorization, a pull request as \<open>fetchPullRequest\<close> returns it, the comments of an issue or pull request
  (with the permissions its authors have then), a comment posted, the completion assertion, the close, the workflow check
  and the hosted-gate snapshot.
\<close>

datatype delivery_request =
    AskRepo
  | AskPr nat
  | AskThread nat
  | AskPost nat string
  | AskAssert js
  | AskClose nat nat
  | AskPhaseE nat
  | AskGates nat

text \<open>What \<open>readRemoteGateSnapshot\<close> reports of a pull request it could read.\<close>

record gates =
  gt_passed :: bool
  gt_state :: string
  gt_branch :: string
  gt_head :: string

text \<open>A posted comment has the number of the response, where it holds one, and its URL or \<open>null\<close>.\<close>

datatype delivery_answer =
    Gave js
  | Threw string
  | ThreadIs "comment list" "string \<Rightarrow> string option"
  | PostedAs "nat option" js
  | GatesAre gates

type_synonym 'r delivery_calls = "(delivery_request, delivery_answer, 'r) calls"

section \<open>Envelopes\<close>

definition accepted :: "js \<Rightarrow> bool" where
  "accepted v \<longleftrightarrow> truthy (fld v ''ok'')"

definition refused :: "string \<Rightarrow> string \<Rightarrow> js" where
  "refused code m = JObj [(''ok'', JBool False), (''error'', JStr code), (''message'', JStr m)]"

text \<open>
  \<open>s.slice(0, n)\<close> in UTF-16 code units of a text given by its bytes; half of a surrogate pair is printed as the
  replacement character.
\<close>

fun take_units :: "nat \<Rightarrow> string \<Rightarrow> string" where
  "take_units n [] = []"
| "take_units n (c # s) =
     (if CHR 0x80 \<le> c \<and> c < CHR 0xC0 then c # take_units n s
      else if CHR 0xF0 \<le> c
      then (if n \<ge> 2 then c # take_units (n - 2) s else if n = 1 then [CHR 0xEF, CHR 0xBF, CHR 0xBD] else [])
      else if n \<ge> 1 then c # take_units (n - 1) s else [])"

definition bounded :: "string \<Rightarrow> nat \<Rightarrow> string" where
  "bounded s cap = (if unit_length s \<le> cap then s else take_units (cap - 1) s @ [CHR 0xE2, CHR 0x80, CHR 0xA6])"

text \<open>\<open>typeof v === "string" ? v : String(v ?? "")\<close>\<close>

definition text_of :: "(int \<Rightarrow> nat \<Rightarrow> string) \<Rightarrow> js \<Rightarrow> string" where
  "text_of frac v = (case v of JStr s \<Rightarrow> s | _ \<Rightarrow> js_string frac (coalesce v (JStr [])))"

definition failure_env ::
  "(string \<Rightarrow> string option) \<Rightarrow> (int \<Rightarrow> nat \<Rightarrow> string) \<Rightarrow> string \<Rightarrow> js \<Rightarrow> js \<Rightarrow> js \<Rightarrow> (string \<times> js) list \<Rightarrow> js" where
  "failure_env sens frac action code m next_action extra =
     (let safe = bounded (text_of frac m) 1200
      in JObj ([(''ok'', JBool False), (''action'', JStr action), (''error'', code),
                (''message'', JStr (if sens safe \<noteq> None then ''<redacted>'' else safe)),
                (''agent_required'', JBool True), (''next_action'', next_action)] @ extra))"

definition requireField ::
  "(string \<Rightarrow> string option) \<Rightarrow> (int \<Rightarrow> nat \<Rightarrow> string) \<Rightarrow> js \<Rightarrow> string \<Rightarrow> string \<Rightarrow> js option" where
  "requireField sens frac v field action =
     (if nullish v \<or> v = JStr []
      then Some (failure_env sens frac action (JStr ''implement_mechanical_input_invalid'')
                   (JStr (field @ '' is required for action='' @ action))
                   (JStr ''supply_the_required_structured_input_and_retry'') [])
      else None)"

definition num_opt :: "nat option \<Rightarrow> js" where
  "num_opt v = (case v of Some k \<Rightarrow> JInt (int k) | None \<Rightarrow> JNull)"

definition issueRepositoryNotAuthorized :: "(int \<Rightarrow> nat \<Rightarrow> string) \<Rightarrow> string \<Rightarrow> js \<Rightarrow> (string \<times> js) list \<Rightarrow> js" where
  "issueRepositoryNotAuthorized frac prefix r extra = JObj
     ([(''ok'', JBool False), (''error'', JStr (prefix @ ''_repo_not_authorized'')),
       (''message'', JStr (js_string frac (fld r ''message'') @ '' ('' @ js_string frac (fld r ''error'') @ ''). ''
          @ ''This tool acts on GitHub with the MCP host'' @ [CHR 0x27] @ ''s credentials, so it acts only on the ''
          @ ''workspace this server was launched in.''))]
      @ extra @ [(''next_action'', JStr ''run_from_the_mcp_launch_workspace_and_retry'')])"

section \<open>Recording the handoff\<close>

definition post_pointer :: "nat \<Rightarrow> nat \<Rightarrow> string \<Rightarrow> string \<Rightarrow> nat option \<Rightarrow> js \<Rightarrow> js delivery_calls" where
  "post_pointer n pr lane head rid url =
     Ask (AskPost pr (buildDeliveryPointerRecord n pr rid)) (\<lambda>a. case a of
       Threw e \<Rightarrow> Return (refused ''delivery_pointer_post_failed'' e)
     | PostedAs _ _ \<Rightarrow> Return (JObj
         [(''ok'', JBool True), (''issue_number'', JInt (int n)), (''pr_number'', JInt (int pr)), (''lane'', JStr lane),
          (''head_sha'', JStr head), (''record_comment_id'', num_opt rid), (''record_comment_url'', url)])
     | _ \<Rightarrow> Throw)"

definition post_handoff ::
  "(int \<Rightarrow> nat \<Rightarrow> string) \<Rightarrow> nat \<Rightarrow> nat \<Rightarrow> string \<Rightarrow> string \<Rightarrow> string \<Rightarrow> js delivery_calls" where
  "post_handoff frac n pr lane head body =
     Ask AskRepo (\<lambda>a. case a of
       Gave r \<Rightarrow>
         if \<not> accepted r
         then Return (issueRepositoryNotAuthorized frac ''delivery_readiness'' r [(''issue_number'', JInt (int n))])
         else Ask (AskPost n body) (\<lambda>b. case b of
                Threw e \<Rightarrow> Return (refused ''delivery_readiness_post_failed'' e)
              | PostedAs rid url \<Rightarrow> post_pointer n pr lane head rid url
              | _ \<Rightarrow> Throw)
     | _ \<Rightarrow> Throw)"

definition runRecordDeliveryReadiness ::
  "(string \<Rightarrow> string option) \<Rightarrow> (string \<Rightarrow> string) \<Rightarrow> (int \<Rightarrow> nat \<Rightarrow> string) \<Rightarrow> string \<Rightarrow> nat \<Rightarrow> nat \<Rightarrow> string \<Rightarrow> js \<Rightarrow> js
     \<Rightarrow> js delivery_calls" where
  "runRecordDeliveryReadiness sens sha frac repo n pr lane head payload =
     (if lane \<notin> set delivery_lanes
      then Return (refused ''delivery_readiness_lane_invalid'' (''lane must be one of '' @ join '', '' delivery_lanes))
      else (case head of
        JStr h \<Rightarrow>
          if \<not> full_git_oid h
          then Return (refused ''delivery_readiness_head_invalid''
                 (''headSha must be the pull request'' @ [CHR 0x27] @ ''s full 40-character head OID''))
          else (case mapCompletion \<lparr>ma_repo = repo, ma_issue = n, ma_pr = Some pr, ma_lane = Some lane,
                                     ma_completion = payload, ma_run = JUndef\<rparr> ''pre_merge'' of
                  None \<Rightarrow> Throw
                | Some v \<Rightarrow>
                    let errors = validateFinalReportInput frac v;
                        body = buildDeliveryReadinessRecord sha frac n pr lane h payload
                    in if errors \<noteq> [] then Return (refused ''delivery_readiness_payload_invalid'' (join ''; '' errors))
                       else if unit_length body > comment_units_max
                       then Return (refused ''delivery_readiness_payload_too_large''
                              (''the rendered readiness record exceeds GitHub'' @ [CHR 0x27] @ ''s comment size limit''))
                       else (case sens body of
                               Some s \<Rightarrow> Return (refused ''delivery_readiness_sensitive_content'' s)
                             | None \<Rightarrow> post_handoff frac n pr lane h body))
      | _ \<Rightarrow> Return (refused ''delivery_readiness_head_invalid''
               (''headSha must be the pull request'' @ [CHR 0x27] @ ''s full 40-character head OID''))))"

section \<open>The readiness action\<close>

definition or_else :: "js \<Rightarrow> string \<Rightarrow> js" where
  "or_else v s = coalesce v (JStr s)"

text \<open>The error of the record, or the record.\<close>

definition recordHandoff ::
  "(string \<Rightarrow> string option) \<Rightarrow> (string \<Rightarrow> string) \<Rightarrow> (int \<Rightarrow> nat \<Rightarrow> string) \<Rightarrow> mech_args \<Rightarrow> nat \<Rightarrow> string \<Rightarrow> js
     \<Rightarrow> (js + js) delivery_calls" where
  "recordHandoff sens sha frac m pr lane head =
     await (runRecordDeliveryReadiness sens sha frac (ma_repo m) (ma_issue m) pr lane head (ma_completion m)) (\<lambda>recorded.
       Return (if accepted recorded then Inr recorded
         else Inl (failure_env sens frac ''readiness'' (fld recorded ''error'') (fld recorded ''message'')
                (or_else (fld recorded ''next_action'') ''repair_delivery_readiness_payload_and_retry'')
                [(''delivery_readiness'', recorded)])))"

text \<open>The trusted lane and the newest synchronization record, each read for a path the workspace authorizes.\<close>

definition readRunLane :: "nat \<Rightarrow> string \<Rightarrow> (string + lane_reading) delivery_calls" where
  "readRunLane n branch = Ask AskRepo (\<lambda>a. case a of
     Gave r \<Rightarrow>
       if \<not> accepted r then Return (resolveTrustedRunLane False (\<lambda>_. None) None branch)
       else Ask (AskThread n) (\<lambda>b. case b of
              ThreadIs cs perm \<Rightarrow> Return (resolveTrustedRunLane True perm (Some cs) branch)
            | _ \<Rightarrow> Return (resolveTrustedRunLane True (\<lambda>_. None) None branch))
   | _ \<Rightarrow> Throw)"

definition readSyncRecord :: "nat \<Rightarrow> string \<Rightarrow> (string + sync_entry option) delivery_calls" where
  "readSyncRecord n branch = Ask AskRepo (\<lambda>a. case a of
     Gave r \<Rightarrow>
       if \<not> accepted r then Return (Inl ''synchronization_record_repo_not_authorized'')
       else Ask (AskThread n) (\<lambda>b. case b of
              ThreadIs cs perm \<Rightarrow> Return (readLatestTrustedImplementSyncRecord perm cs n branch None)
            | _ \<Rightarrow> Throw)
   | _ \<Rightarrow> Throw)"

definition handed_off :: "string \<Rightarrow> js + js \<Rightarrow> (string \<times> js) list \<Rightarrow> js" where
  "handed_off lane h extra = (case h of
       Inl e \<Rightarrow> e
     | Inr recorded \<Rightarrow> JObj ([(''ok'', JBool True), (''action'', JStr ''readiness''), (''lane'', JStr lane),
         (''phase'', JStr ''ready_for_review'')] @ extra @
         [(''delivery_readiness'', recorded), (''next_action'', JStr ''wait_for_user_to_merge_the_pr'')]))"

text \<open>
  A refusal of the lane reader or of the record reader is its code, its message is left out; so is the snapshot a refusal
  repeats.
\<close>

definition refuse_readiness :: "(string \<Rightarrow> string option) \<Rightarrow> (int \<Rightarrow> nat \<Rightarrow> string) \<Rightarrow> string \<Rightarrow> string \<Rightarrow> string \<Rightarrow> js" where
  "refuse_readiness sens frac code m next_action =
     failure_env sens frac ''readiness'' (JStr code) (JStr m) (JStr next_action) []"

definition lane_next_action :: "string \<Rightarrow> string" where
  "lane_next_action e =
     (if e = ''run_lane_unverifiable'' then ''retry_after_restoring_github_access''
      else if e = ''run_lane_repo_not_authorized'' then ''run_from_the_mcp_launch_workspace_and_retry''
      else ''repair_run_lane_evidence_and_retry'')"

definition sync_next_action :: "string \<Rightarrow> string" where
  "sync_next_action e =
     (if e = ''synchronization_record_repo_not_authorized'' then ''run_from_the_mcp_launch_workspace_and_retry''
      else ''return_to_the_synchronization_boundary'')"

definition quickfixBound :: "sync_entry option \<Rightarrow> gates \<Rightarrow> nat \<Rightarrow> refusal option" where
  "quickfixBound synced g n =
     (case deliveredHeadRefusal (map_option snd synced) (Some (gt_head g)) (gt_branch g) n of
        Some m \<Rightarrow> Some (''readiness_delivery_head_unsynchronized'', m)
      | None \<Rightarrow> if assertDeliveryBindingCurrent (snd (the synced)) (Some ''quickfix'') then None
                else Some (''implement_delivery_binding_lane_mismatch'',
                  ''This run is an /quickfix delivery, but its synchronization record was written for an /''
                  @ opt_text (sy_lane (snd (the synced))) @ '' one. Re-synchronize so the record binds this run''
                  @ [CHR 0x27] @ ''s lane.''))"

definition quickfixReadiness ::
  "(string \<Rightarrow> string option) \<Rightarrow> (string \<Rightarrow> string) \<Rightarrow> (int \<Rightarrow> nat \<Rightarrow> string) \<Rightarrow> mech_args \<Rightarrow> nat \<Rightarrow> js delivery_calls" where
  "quickfixReadiness sens sha frac m pr =
     Ask (AskGates pr) (\<lambda>a. case a of
       GatesAre g \<Rightarrow>
         if \<not> gt_passed g \<or> gt_state g \<noteq> ''OPEN''
         then Return (refuse_readiness sens frac ''readiness_hosted_checks_not_green''
                (''required hosted checks for PR #'' @ show_nat pr @ '' are not green on its current head'')
                ''repair_or_wait_for_current_head_hosted_checks'')
         else await (readRunLane (ma_issue m) (gt_branch g)) (\<lambda>lane. case lane of
                Inl e \<Rightarrow> Return (refuse_readiness sens frac e [] (lane_next_action e))
              | Inr l \<Rightarrow>
                  (case laneClaimRefusal l (Some ''quickfix'') of
                     Some _ \<Rightarrow> Return (refuse_readiness sens frac ''readiness_lane_mismatch'' []
                                  ''record_readiness_for_the_lane_this_run_was_picked_up_under'')
                   | None \<Rightarrow> await (readSyncRecord (ma_issue m) (gt_branch g)) (\<lambda>synced. case synced of
                       Inl e \<Rightarrow> Return (refuse_readiness sens frac e [] (sync_next_action e))
                     | Inr rec \<Rightarrow>
                         (case quickfixBound rec g (ma_issue m) of
                            Some (e, t) \<Rightarrow> Return (refuse_readiness sens frac e t ''return_to_the_synchronization_boundary'')
                          | None \<Rightarrow> await (recordHandoff sens sha frac m pr ''quickfix'' (JStr (gt_head g))) (\<lambda>h.
                              Return (handed_off ''quickfix'' h []))))))
     | Gave hosted \<Rightarrow> Return (failure_env sens frac ''readiness''
         (or_else (fld hosted ''error'') ''readiness_hosted_checks_not_green'')
         (or_else (fld hosted ''message'') (''required hosted checks for PR #'' @ show_nat pr @ '' are not green on its current head''))
         (or_else (fld hosted ''next_action'') ''repair_or_wait_for_current_head_hosted_checks'') [(''hosted'', hosted)])
     | _ \<Rightarrow> Throw)"

definition implementReadiness ::
  "(string \<Rightarrow> string option) \<Rightarrow> (string \<Rightarrow> string) \<Rightarrow> (int \<Rightarrow> nat \<Rightarrow> string) \<Rightarrow> mech_args \<Rightarrow> nat \<Rightarrow> js delivery_calls" where
  "implementReadiness sens sha frac m pr =
     (case mapCompletion m ''pre_merge'' of
        None \<Rightarrow> Throw
      | Some v \<Rightarrow> Ask (AskAssert v) (\<lambda>a. case a of
          Gave result \<Rightarrow>
            if \<not> accepted result
            then Return (failure_env sens frac ''readiness'' (fld result ''error'') (fld result ''message'')
                   (or_else (fld result ''next_action'') ''repair_readiness_evidence_and_retry'') [(''completion'', result)])
            else await (recordHandoff sens sha frac m pr ''implement'' (fld result ''head_sha'')) (\<lambda>h.
                   Return (handed_off ''implement'' h
                     [(''head_sha'', fld result ''head_sha''), (''readiness_report'', fld result ''readiness_report'')]))
        | _ \<Rightarrow> Throw))"

definition required_fields ::
  "(string \<Rightarrow> string option) \<Rightarrow> (int \<Rightarrow> nat \<Rightarrow> string) \<Rightarrow> mech_args \<Rightarrow> string \<Rightarrow> js option" where
  "required_fields sens frac m action =
     (case requireField sens frac (num_opt (ma_pr m)) ''prNumber'' action of
        Some e \<Rightarrow> Some e
      | None \<Rightarrow> requireField sens frac (ma_completion m) ''completion'' action)"

definition runReadiness ::
  "(string \<Rightarrow> string option) \<Rightarrow> (string \<Rightarrow> string) \<Rightarrow> (int \<Rightarrow> nat \<Rightarrow> string) \<Rightarrow> mech_args \<Rightarrow> js delivery_calls" where
  "runReadiness sens sha frac m =
     (case required_fields sens frac m ''readiness'' of
        Some e \<Rightarrow> Return e
      | None \<Rightarrow>
          let pr = the (ma_pr m)
          in Ask (AskPhaseE pr) (\<lambda>a. case a of
               Gave p \<Rightarrow>
                 if \<not> accepted p
                 then Return (failure_env sens frac ''readiness'' (fld p ''error'') (fld p ''message'') (fld p ''next_action'')
                        [(''phase_e'', p)])
                 else if ma_lane m = Some ''quickfix'' then quickfixReadiness sens sha frac m pr
                 else implementReadiness sens sha frac m pr
             | _ \<Rightarrow> Throw))"

section \<open>The finalize action\<close>

definition finalize_close :: "(string \<Rightarrow> string option) \<Rightarrow> (int \<Rightarrow> nat \<Rightarrow> string) \<Rightarrow> mech_args \<Rightarrow> nat \<Rightarrow> js \<Rightarrow> js delivery_calls" where
  "finalize_close sens frac m pr completion =
     Ask (AskClose (ma_issue m) pr) (\<lambda>a. case a of
       Gave close \<Rightarrow> Return
         (if \<not> accepted close
          then failure_env sens frac ''finalize'' (fld close ''error'') (fld close ''message'')
                 (or_else (fld close ''next_action'') ''repair_issue_close_and_retry'') [(''completion'', completion), (''close'', close)]
          else JObj [(''ok'', JBool True), (''action'', JStr ''finalize''), (''phase'', JStr ''closed''),
                     (''completion'', completion), (''close'', close), (''next_action'', JStr ''workflow_complete'')])
     | _ \<Rightarrow> Throw)"

definition runFinalize :: "(string \<Rightarrow> string option) \<Rightarrow> (int \<Rightarrow> nat \<Rightarrow> string) \<Rightarrow> mech_args \<Rightarrow> js delivery_calls" where
  "runFinalize sens frac m =
     (case required_fields sens frac m ''finalize'' of
        Some e \<Rightarrow> Return e
      | None \<Rightarrow>
          (case mapCompletion m ''post_merge'' of
             None \<Rightarrow> Throw
           | Some v \<Rightarrow> Ask (AskAssert v) (\<lambda>a. case a of
               Gave completion \<Rightarrow>
                 if \<not> accepted completion
                 then Return (failure_env sens frac ''finalize'' (fld completion ''error'') (fld completion ''message'')
                        (or_else (fld completion ''next_action'') ''repair_post_merge_evidence_and_retry'')
                        [(''completion'', completion)])
                 else finalize_close sens frac m (the (ma_pr m)) completion
             | _ \<Rightarrow> Throw)))"

section \<open>The executor after the merge\<close>

definition failureMarker :: "nat \<Rightarrow> string \<Rightarrow> string" where
  "failureMarker pr code = ''<!-- gc:delivery-finalization-failed'' @ attr_str ''pr'' (show_nat pr) @ attr_str ''code'' code @ '' -->''"

definition tick :: "string \<Rightarrow> string" where
  "tick s = CHR 0x60 # s @ [CHR 0x60]"

definition buildFailureRecord :: "nat \<Rightarrow> js \<Rightarrow> string \<Rightarrow> string \<Rightarrow> js \<Rightarrow> (int \<Rightarrow> nat \<Rightarrow> string) \<Rightarrow> string" where
  "buildFailureRecord pr rid code m next_action frac = join [nl]
     ([failureMarker pr code, [], ''## Phase E could not finalize PR #'' @ show_nat pr, [],
       ''The merge was detected and the delivery-readiness record was read, but finalization did'',
       ''not complete. **This issue is intentionally left open.**'', [],
       ''- **Reason:** '' @ tick code, ''- **Detail:** '' @ bounded m 600]
      @ (if truthy next_action then [''- **Repair:** '' @ tick (js_string frac next_action)] else [])
      @ (if truthy rid then [''- **Readiness record:** comment '' @ js_string frac rid] else [])
      @ [[], ''Repair the cause, then re-run the Ground Control Phase E workflow for this pull request.''])"

definition recordFailure :: "nat \<Rightarrow> string \<Rightarrow> nat \<Rightarrow> string \<Rightarrow> unit delivery_calls" where
  "recordFailure n body pr code =
     Ask (AskThread n) (\<lambda>a.
       let existing = (case a of ThreadIs cs _ \<Rightarrow> cs | _ \<Rightarrow> [])
       in if list_ex (\<lambda>c. contains_text (failureMarker pr code) (c_body c)) existing then Return ()
          else Ask (AskPost n body) (\<lambda>_. Return ()))"

datatype phase_e_result =
    PhaseEFailed "nat option" string string
  | PhaseESkipped string
  | PhaseEFinalized nat string bool bool

definition phase_e_fail ::
  "(string \<Rightarrow> string option) \<Rightarrow> (int \<Rightarrow> nat \<Rightarrow> string) \<Rightarrow> nat \<Rightarrow> nat \<Rightarrow> js \<Rightarrow> string \<Rightarrow> js \<Rightarrow> js \<Rightarrow> phase_e_result delivery_calls" where
  "phase_e_fail sens frac n pr rid code m next_action =
     (let safe = (if (case coalesce m (JStr []) of JStr s \<Rightarrow> sens s | _ \<Rightarrow> None) \<noteq> None then ''<redacted>'' else bounded (text_of frac (or_else m code)) 600)
      in await (recordFailure n (buildFailureRecord pr rid code safe next_action frac) pr code)
           (\<lambda>_. Return (PhaseEFailed (Some n) code safe)))"

definition finalized ::
  "(string \<Rightarrow> string option) \<Rightarrow> (int \<Rightarrow> nat \<Rightarrow> string) \<Rightarrow> nat \<Rightarrow> nat \<Rightarrow> delivery \<Rightarrow> js \<Rightarrow> phase_e_result delivery_calls" where
  "finalized sens frac n pr d r =
     (if \<not> accepted r
      then phase_e_fail sens frac n pr (case dl_comment d of Some i \<Rightarrow> JInt i | None \<Rightarrow> JNull)
             (js_string frac (or_else (fld r ''error'') ''phase_e_finalize_failed'')) (fld r ''message'') (fld r ''next_action'')
      else Return (PhaseEFinalized n (the (hf_lane (dl_marker d)))
             (fld (fld r ''completion'') ''already_reported'' = JBool True) (fld (fld r ''close'') ''ok'' = JBool True)))"

definition readiness_of :: "(string \<Rightarrow> string) \<Rightarrow> delivery_answer \<Rightarrow> nat \<Rightarrow> nat \<Rightarrow> js \<Rightarrow> refusal + delivery" where
  "readiness_of sha a n pr p = (case a of
       ThreadIs cs perm \<Rightarrow> readTrustedDeliveryReadiness sha perm (Inr cs) n pr (case fld p ''headRefOid'' of JStr h \<Rightarrow> Some h | _ \<Rightarrow> None)
     | Threw e \<Rightarrow> readTrustedDeliveryReadiness sha (\<lambda>_. None) (Inl e) n pr None
     | _ \<Rightarrow> readTrustedDeliveryReadiness sha (\<lambda>_. None) (Inl []) n pr None)"

definition pointer_of :: "delivery_answer \<Rightarrow> nat \<Rightarrow> refusal + pointer" where
  "pointer_of a pr = (case a of
       ThreadIs cs perm \<Rightarrow> readTrustedDeliveryPointer perm (Inr cs) pr
     | Threw e \<Rightarrow> readTrustedDeliveryPointer (\<lambda>_. None) (Inl e) pr
     | _ \<Rightarrow> readTrustedDeliveryPointer (\<lambda>_. None) (Inl []) pr)"

definition finalize_args :: "string \<Rightarrow> nat \<Rightarrow> nat \<Rightarrow> js \<Rightarrow> delivery \<Rightarrow> mech_args" where
  "finalize_args repo n pr runid d =
     \<lparr>ma_repo = repo, ma_issue = n, ma_pr = Some pr, ma_lane = hf_lane (dl_marker d), ma_completion = dl_payload d, ma_run = runid\<rparr>"

definition deliver_issue ::
  "(string \<Rightarrow> string option) \<Rightarrow> (string \<Rightarrow> string) \<Rightarrow> (int \<Rightarrow> nat \<Rightarrow> string) \<Rightarrow> string \<Rightarrow> nat \<Rightarrow> js \<Rightarrow> js \<Rightarrow> pointer \<Rightarrow> nat
     \<Rightarrow> phase_e_result delivery_calls" where
  "deliver_issue sens sha frac repo pr runid p po n =
     Ask (AskThread n) (\<lambda>a. case readiness_of sha a n pr p of
       Inl (code, m) \<Rightarrow> phase_e_fail sens frac n pr (num_opt (po_record po)) code (JStr m)
         (JStr ''re_record_phase_d_readiness_for_the_merged_head_and_rerun_phase_e'')
     | Inr d \<Rightarrow> await (runFinalize sens frac (finalize_args repo n pr runid d)) (finalized sens frac n pr d))"

definition is_merged :: "js \<Rightarrow> bool" where
  "is_merged p \<longleftrightarrow> truthy (fld p ''mergedAt'') \<and> fld p ''state'' = JStr ''MERGED''"

definition not_merged_text :: "(int \<Rightarrow> nat \<Rightarrow> string) \<Rightarrow> nat \<Rightarrow> js \<Rightarrow> string" where
  "not_merged_text frac pr p = ''PR #'' @ show_nat pr @ '' state='' @ js_string frac (or_else (fld p ''state'') ''unknown'')
     @ '', merged_at='' @ js_string frac (or_else (fld p ''mergedAt'') ''null'')"

definition phase_e_merged ::
  "(string \<Rightarrow> string option) \<Rightarrow> (string \<Rightarrow> string) \<Rightarrow> (int \<Rightarrow> nat \<Rightarrow> string) \<Rightarrow> string \<Rightarrow> nat \<Rightarrow> js \<Rightarrow> phase_e_result delivery_calls" where
  "phase_e_merged sens sha frac repo pr runid =
     Ask (AskPr pr) (\<lambda>b. case b of
       Threw e \<Rightarrow> Return (PhaseEFailed None ''phase_e_pr_unreadable'' e)
     | Gave p \<Rightarrow>
         if \<not> is_merged p then Return (PhaseEFailed None ''phase_e_pr_not_merged'' (not_merged_text frac pr p))
         else Ask (AskThread pr) (\<lambda>c. case pointer_of c pr of
                Inl e \<Rightarrow> Return (PhaseESkipped (fst e))
              | Inr po \<Rightarrow> deliver_issue sens sha frac repo pr runid p po (the (po_issue po)))
     | _ \<Rightarrow> Throw)"

definition runAutomatedPhaseE ::
  "(string \<Rightarrow> string option) \<Rightarrow> (string \<Rightarrow> string) \<Rightarrow> (int \<Rightarrow> nat \<Rightarrow> string) \<Rightarrow> string \<Rightarrow> js \<Rightarrow> js \<Rightarrow> phase_e_result delivery_calls" where
  "runAutomatedPhaseE sens sha frac repo prNumber runid =
     (if \<not> is_pos_int prNumber then Return (PhaseEFailed None ''phase_e_pr_number_invalid'' ''pr_number must be a positive integer'')
      else Ask AskRepo (\<lambda>a. case a of
             Gave r \<Rightarrow>
               if \<not> accepted r
               then Return (PhaseEFailed None (js_string frac (fld r ''error'')) (js_string frac (fld r ''message'')))
               else phase_e_merged sens sha frac repo (nat (the (as_int prNumber))) runid
           | _ \<Rightarrow> Throw))"

end
