(* ===== verification/DeliverySafety.thy ===== *)
theory DeliverySafety
  imports Delivery
begin

text \<open>
  What the requests of a delivery's calls show: \<open>trace\<close> lists them with their answers, so a property of all traces holds
  whatever the services do. A handoff is recorded, an issue finalized and a failure reported only on the evidence read
  before; and a recorded handoff is what the executor finalizes.
\<close>

section \<open>Evidence before requests\<close>

text \<open>Every request of a trace satisfies \<open>P\<close> with what was asked and answered before it.\<close>

primrec justified :: "(('q \<times> 'a) list \<Rightarrow> 'q \<Rightarrow> bool) \<Rightarrow> ('q \<times> 'a) list \<Rightarrow> ('q \<times> 'a) list \<Rightarrow> bool" where
  "justified P u [] \<longleftrightarrow> True"
| "justified P u (qa # t) \<longleftrightarrow> P u (fst qa) \<and> justified P (u @ [qa]) t"

lemma justified_append [simp]: "justified P u (s @ t) \<longleftrightarrow> justified P u s \<and> justified P (u @ s) t"
  by (induction s arbitrary: u) simp_all

definition asserts :: "delivery_request \<Rightarrow> bool" where
  "asserts q = (case q of AskAssert _ \<Rightarrow> True | _ \<Rightarrow> False)"
definition closes :: "delivery_request \<Rightarrow> bool" where
  "closes q = (case q of AskClose _ _ \<Rightarrow> True | _ \<Rightarrow> False)"
definition comments :: "delivery_request \<Rightarrow> bool" where
  "comments q = (case q of AskPost _ _ \<Rightarrow> True | _ \<Rightarrow> False)"

lemma request_kinds [simp]:
  "\<not> asserts AskRepo" "\<not> asserts (AskPr k)" "\<not> asserts (AskThread k)" "\<not> asserts (AskPost k b)" "asserts (AskAssert v)"
  "\<not> asserts (AskClose k j)" "\<not> asserts (AskPhaseE k)" "\<not> asserts (AskGates k)"
  "\<not> closes AskRepo" "\<not> closes (AskPr k)" "\<not> closes (AskThread k)" "\<not> closes (AskPost k b)" "\<not> closes (AskAssert v)"
  "closes (AskClose k j)" "\<not> closes (AskPhaseE k)" "\<not> closes (AskGates k)"
  "\<not> comments AskRepo" "\<not> comments (AskPr k)" "\<not> comments (AskThread k)" "comments (AskPost k b)" "\<not> comments (AskAssert v)"
  "\<not> comments (AskClose k j)" "\<not> comments (AskPhaseE k)" "\<not> comments (AskGates k)"
  by (simp_all add: asserts_def closes_def comments_def)

text \<open>How often requests of a kind were made.\<close>

definition count_of :: "('q \<Rightarrow> bool) \<Rightarrow> ('q \<times> 'a) list \<Rightarrow> nat" where
  "count_of P t = length (filter (\<lambda>qa. P (fst qa)) t)"

lemma count_of_simps [simp]:
  "count_of P [] = 0" "count_of P (qa # t) = (if P (fst qa) then 1 else 0) + count_of P t"
  "count_of P (s @ t) = count_of P s + count_of P t"
  by (simp_all add: count_of_def)

section \<open>The executor\<close>

text \<open>
  A merged pull request points at an issue when a comment on it, by an author with write permission, says so; its
  delivery is proven when such a comment on the issue hands over the payload for exactly the merged head.
\<close>

definition pointed :: "nat \<Rightarrow> (delivery_request \<times> delivery_answer) list \<Rightarrow> nat \<Rightarrow> bool" where
  "pointed pr u n \<longleftrightarrow> (\<exists>p cs perm c po. (AskPr pr, Gave p) \<in> set u \<and> is_merged p
     \<and> (AskThread pr, ThreadIs cs perm) \<in> set u \<and> c \<in> set cs \<and> write_author perm c
     \<and> po \<in> set (parseDeliveryPointerMarkers (c_body c)) \<and> po_pr po = Some pr \<and> po_issue po = Some n)"

definition proven_delivery ::
  "(string \<Rightarrow> string) \<Rightarrow> nat \<Rightarrow> (delivery_request \<times> delivery_answer) list \<Rightarrow> nat \<Rightarrow> delivery \<Rightarrow> bool" where
  "proven_delivery sha pr u n d \<longleftrightarrow> pointed pr u n \<and> (\<exists>p h cs perm c. (AskPr pr, Gave p) \<in> set u \<and> is_merged p
     \<and> fld p ''headRefOid'' = JStr h \<and> (AskThread n, ThreadIs cs perm) \<in> set u \<and> c \<in> set cs \<and> write_author perm c
     \<and> dl_marker d \<in> set (parseDeliveryReadinessMarkers (c_body c)) \<and> hf_issue (dl_marker d) = Some n
     \<and> hf_pr (dl_marker d) = Some pr \<and> hf_head (dl_marker d) = Some h \<and> decodeRecord sha (dl_marker d) = Some (dl_payload d))"

lemma pointed_mono: "pointed pr u n \<Longrightarrow> set u \<subseteq> set v \<Longrightarrow> pointed pr v n"
  unfolding pointed_def by blast

lemma proven_mono: "proven_delivery sha pr u n d \<Longrightarrow> set u \<subseteq> set v \<Longrightarrow> proven_delivery sha pr v n d"
  unfolding proven_delivery_def using pointed_mono by blast

text \<open>What a request of the executor needs.\<close>

definition marker_absent :: "nat \<Rightarrow> string \<Rightarrow> delivery_answer \<Rightarrow> bool" where
  "marker_absent pr code a \<longleftrightarrow> (\<forall>cs perm c. a = ThreadIs cs perm \<and> c \<in> set cs \<longrightarrow> \<not> contains_text (failureMarker pr code) (c_body c))"

definition phase_e_rule ::
  "(string \<Rightarrow> string) \<Rightarrow> string \<Rightarrow> nat \<Rightarrow> js \<Rightarrow> (delivery_request \<times> delivery_answer) list \<Rightarrow> delivery_request \<Rightarrow> bool" where
  "phase_e_rule sha repo pr runid u q = (case q of
       AskAssert v \<Rightarrow> \<exists>n d. proven_delivery sha pr u n d \<and> mapCompletion (finalize_args repo n pr runid d) ''post_merge'' = Some v
     | AskClose n k \<Rightarrow> k = pr \<and> (\<exists>d v c. proven_delivery sha pr u n d
          \<and> mapCompletion (finalize_args repo n pr runid d) ''post_merge'' = Some v \<and> (AskAssert v, Gave c) \<in> set u \<and> accepted c)
     | AskPost n b \<Rightarrow> pointed pr u n \<and> (\<exists>code a. starts_with (failureMarker pr code) b \<and> (AskThread n, a) \<in> set u \<and> marker_absent pr code a)
     | _ \<Rightarrow> True)"

lemma phase_e_rule_simps [simp]:
  "phase_e_rule sha repo pr runid u AskRepo" "phase_e_rule sha repo pr runid u (AskPr k)"
  "phase_e_rule sha repo pr runid u (AskThread k)"
  by (simp_all add: phase_e_rule_def)

text \<open>A failure is on the thread: there before, or posted now.\<close>

definition reported :: "nat \<Rightarrow> nat \<Rightarrow> string \<Rightarrow> (delivery_request \<times> delivery_answer) list \<Rightarrow> bool" where
  "reported pr n code t \<longleftrightarrow>
     (\<exists>cs perm c. (AskThread n, ThreadIs cs perm) \<in> set t \<and> c \<in> set cs \<and> contains_text (failureMarker pr code) (c_body c))
     \<or> (\<exists>b a. (AskPost n b, a) \<in> set t \<and> starts_with (failureMarker pr code) b)"

lemma reported_mono: "reported pr n code t \<Longrightarrow> set t \<subseteq> set u \<Longrightarrow> reported pr n code u"
  unfolding reported_def by blast

lemma failure_record_start: "starts_with (failureMarker pr code) (buildFailureRecord pr rid code m na frac)"
  by (simp add: buildFailureRecord_def join_def starts_with_def)

lemma trace_fail:
  assumes "trace (phase_e_fail sens frac n pr rid code m na) t x" and "pointed pr u n"
  shows "justified (phase_e_rule sha repo pr runid) u t \<and> count_of asserts t = 0 \<and> count_of closes t = 0 \<and> count_of comments t \<le> 1
    \<and> (\<exists>s. x = Some (PhaseEFailed (Some n) code s)) \<and> reported pr n code t"
proof -
  obtain body s a w where t: "t = (AskThread n, a) # w" and body: "starts_with (failureMarker pr code) body"
    and x: "x = Some (PhaseEFailed (Some n) code s)"
    and w: "\<not> marker_absent pr code a \<and> w = [] \<or> marker_absent pr code a \<and> (\<exists>b. w = [(AskPost n body, b)])"
  proof -
    let ?safe = "if (case coalesce m (JStr []) of JStr s \<Rightarrow> sens s | _ \<Rightarrow> None) \<noteq> None then ''<redacted>''
      else bounded (text_of frac (or_else m code)) 600"
    let ?body = "buildFailureRecord pr rid code ?safe na frac"
    obtain a w where w: "t = (AskThread n, a) # w" "trace (await
        (if list_ex (\<lambda>c. contains_text (failureMarker pr code) (c_body c)) (case a of ThreadIs cs _ \<Rightarrow> cs | _ \<Rightarrow> []) then Return ()
          else Ask (AskPost n ?body) (\<lambda>_. Return ())) (\<lambda>_. Return (PhaseEFailed (Some n) code ?safe))) w x"
      using assms(1) unfolding phase_e_fail_def recordFailure_def Let_def await.simps trace.simps by blast
    have "list_ex (\<lambda>c. contains_text (failureMarker pr code) (c_body c)) (case a of ThreadIs cs _ \<Rightarrow> cs | _ \<Rightarrow> [])
        \<longleftrightarrow> \<not> marker_absent pr code a"
      by (cases a) (auto simp: marker_absent_def list_ex_iff)
    with w that [OF w(1) failure_record_start, of ?safe rid ?safe na frac] show thesis
      by (auto split: if_splits)
  qed
  show ?thesis
  proof (cases "marker_absent pr code a")
    case True
    then obtain b where b: "w = [(AskPost n body, b)]" using w by blast
    have "pointed pr (u @ [(AskThread n, a)]) n" by (rule pointed_mono [OF assms(2)]) auto
    then have "phase_e_rule sha repo pr runid (u @ [(AskThread n, a)]) (AskPost n body)"
      using body True by (auto simp: phase_e_rule_def)
    moreover have "reported pr n code t" using body unfolding t b reported_def by auto
    ultimately show ?thesis using t b x by simp
  next
    case False
    then have "reported pr n code t" unfolding t reported_def marker_absent_def by auto
    then show ?thesis using t x w False by simp
  qed
qed

lemma failure_not_accepted [simp]: "\<not> accepted (failure_env sens frac action code m na extra)"
  by (simp add: accepted_def failure_env_def Let_def truthy_def)

lemma required_not_accepted: "required_fields sens frac m action = Some e \<Longrightarrow> \<not> accepted e"
  by (auto simp: required_fields_def requireField_def split: option.splits if_splits)

lemma trace_close:
  assumes "trace (finalize_close sens frac m pr completion) t y"
  obtains b where "t = [(AskClose (ma_issue m) pr, b)]"
    "\<forall>e. y = Some e \<and> accepted e \<longrightarrow> (\<exists>close. b = Gave close \<and> accepted close)"
proof -
  obtain b w where t: "t = (AskClose (ma_issue m) pr, b) # w"
    and w: "trace (case b of Gave close \<Rightarrow> Return
         (if \<not> accepted close
          then failure_env sens frac ''finalize'' (fld close ''error'') (fld close ''message'')
                 (or_else (fld close ''next_action'') ''repair_issue_close_and_retry'') [(''completion'', completion), (''close'', close)]
          else JObj [(''ok'', JBool True), (''action'', JStr ''finalize''), (''phase'', JStr ''closed''),
                     (''completion'', completion), (''close'', close), (''next_action'', JStr ''workflow_complete'')])
     | _ \<Rightarrow> Throw) w y"
    using assms unfolding finalize_close_def trace.simps by blast
  show thesis
  proof (cases b)
    case (Gave close)
    then show thesis using that [of b] t w by (auto split: if_splits)
  qed (use that [of b] t w in auto)
qed

lemma trace_runFinalize:
  assumes "trace (runFinalize sens frac m) t y"
  obtains
    (refused) "t = []" "\<And>e. y = Some e \<Longrightarrow> \<not> accepted e"
  | (asserted) v a where "mapCompletion m ''post_merge'' = Some v" "t = [(AskAssert v, a)]" "\<And>e. y = Some e \<Longrightarrow> \<not> accepted e"
  | (closed) v c b where "mapCompletion m ''post_merge'' = Some v" "accepted c"
      "t = [(AskAssert v, Gave c), (AskClose (ma_issue m) (the (ma_pr m)), b)]"
      "\<And>e. y = Some e \<Longrightarrow> accepted e \<Longrightarrow> \<exists>close. b = Gave close \<and> accepted close"
proof (cases "required_fields sens frac m ''finalize''")
  case (Some e)
  then show thesis using assms required_not_accepted [OF Some] by (intro refused) (auto simp: runFinalize_def)
next
  case None
  show thesis
  proof (cases "mapCompletion m ''post_merge''")
    case N: None
    then show thesis using assms None by (intro refused) (auto simp: runFinalize_def)
  next
    case (Some v)
    obtain a w where t: "t = (AskAssert v, a) # w"
      and w: "trace (case a of Gave completion \<Rightarrow>
                 if \<not> accepted completion
                 then Return (failure_env sens frac ''finalize'' (fld completion ''error'') (fld completion ''message'')
                        (or_else (fld completion ''next_action'') ''repair_post_merge_evidence_and_retry'')
                        [(''completion'', completion)])
                 else finalize_close sens frac m (the (ma_pr m)) completion
             | _ \<Rightarrow> Throw) w y"
      using assms Some None unfolding runFinalize_def by auto
    show thesis
    proof (cases a)
      case (Gave c)
      show thesis
      proof (cases "accepted c")
        case True
        then have "trace (finalize_close sens frac m (the (ma_pr m)) c) w y" using w Gave by simp
        then obtain b where "w = [(AskClose (ma_issue m) (the (ma_pr m)), b)]"
          "\<forall>e. y = Some e \<and> accepted e \<longrightarrow> (\<exists>close. b = Gave close \<and> accepted close)" by (rule trace_close)
        then show thesis using closed [of v c b] Some True t Gave by blast
      next
        case False
        then show thesis using asserted [of v a] Some t w Gave by auto
      qed
    qed (use asserted [of v a] Some t w in auto)
  qed
qed

definition finished :: "nat \<Rightarrow> (delivery_request \<times> delivery_answer) list \<Rightarrow> phase_e_result \<Rightarrow> bool" where
  "finished pr t r = (case r of
       PhaseEFinalized n l ar cl \<Rightarrow> \<exists>close. (AskClose n pr, Gave close) \<in> set t \<and> accepted close
     | PhaseEFailed (Some n) code m \<Rightarrow> reported pr n code t
     | PhaseEFailed None code m \<Rightarrow> count_of comments t = 0
     | PhaseESkipped code \<Rightarrow> count_of comments t = 0)"

lemma trace_deliver:
  assumes "trace (await (runFinalize sens frac (finalize_args repo n pr runid d)) (finalized sens frac n pr d)) t x"
    and "proven_delivery sha pr u n d"
  shows "justified (phase_e_rule sha repo pr runid) u t \<and> count_of asserts t \<le> 1 \<and> count_of closes t \<le> 1 \<and> count_of comments t \<le> 1
    \<and> (\<forall>r. x = Some r \<longrightarrow> finished pr t r)"
proof -
  let ?m = "finalize_args repo n pr runid d" and ?J = "phase_e_rule sha repo pr runid"
  have m: "ma_issue ?m = n" "the (ma_pr ?m) = pr" by (simp_all add: finalize_args_def)
  have point: "pointed pr (u @ s) n" for s
    using assms(2) unfolding proven_delivery_def by (auto intro: pointed_mono)
  have prov: "proven_delivery sha pr (u @ s) n d" for s by (rule proven_mono [OF assms(2)]) simp
  have rules: "?J u (AskAssert v)" "accepted c \<Longrightarrow> ?J (u @ [(AskAssert v, Gave c)]) (AskClose n pr)"
    if "mapCompletion ?m ''post_merge'' = Some v" for v c
    using that prov [of "[]"] prov [of "[(AskAssert v, Gave c)]"] by (auto simp: phase_e_rule_def)
  consider (stop) "trace (runFinalize sens frac ?m) t None" "x = None"
    | (go) t1 t2 y where "t = t1 @ t2" "trace (runFinalize sens frac ?m) t1 (Some y)" "trace (finalized sens frac n pr d y) t2 x"
    using assms(1) unfolding trace_await by blast
  then show ?thesis
  proof cases
    case stop
    from stop(1) show ?thesis by (cases rule: trace_runFinalize) (use stop(2) rules m in simp_all)
  next
    case go
    have "justified ?J u t1 \<and> count_of asserts t1 \<le> 1 \<and> count_of closes t1 \<le> 1 \<and> count_of comments t1 = 0
      \<and> (accepted y \<longrightarrow> (\<exists>close. (AskClose n pr, Gave close) \<in> set t1 \<and> accepted close))"
      using go(2) by (cases rule: trace_runFinalize) (use rules m in auto)
    note first = this
    show ?thesis
    proof (cases "accepted y")
      case True
      then show ?thesis using go(1,3) first by (auto simp: finalized_def finished_def)
    next
      case False
      then have "trace (phase_e_fail sens frac n pr (case dl_comment d of Some i \<Rightarrow> JInt i | None \<Rightarrow> JNull)
             (js_string frac (or_else (fld y ''error'') ''phase_e_finalize_failed'')) (fld y ''message'') (fld y ''next_action'')) t2 x"
        using go(3) by (simp add: finalized_def)
      note f = trace_fail [OF this point [of t1], of sha repo runid]
      then obtain s where "x = Some (PhaseEFailed (Some n) (js_string frac (or_else (fld y ''error'') ''phase_e_finalize_failed'')) s)" by blast
      moreover have "reported pr n (js_string frac (or_else (fld y ''error'') ''phase_e_finalize_failed'')) t"
        using f go(1) by (auto intro: reported_mono)
      ultimately show ?thesis using first f go(1) by (simp add: finished_def)
    qed
  qed
qed

lemma pointer_found:
  assumes "pointer_of a pr = Inr po"
  shows "\<exists>cs perm c. a = ThreadIs cs perm \<and> c \<in> set cs \<and> write_author perm c
    \<and> po \<in> set (parseDeliveryPointerMarkers (c_body c)) \<and> po_pr po = Some pr \<and> po_issue po = Some (the (po_issue po))"
proof (cases a)
  case (ThreadIs cs perm)
  let ?t = "filter (\<lambda>(c, m). isTrusted (resolveExecutionObligationTrust perm cs) c) (collectPointers cs pr)"
  have "?t \<noteq> [] \<and> po = snd (last ?t)" using assms ThreadIs
    by (auto simp: pointer_of_def readTrustedDeliveryPointer_def Let_def split: if_splits)
  then obtain c where "(c, po) \<in> set ?t" by (metis last_in_set prod.collapse)
  then show ?thesis using ThreadIs by (auto simp: collectPointers_def isTrusted_write_author)
qed (use assms in \<open>simp_all add: pointer_of_def readTrustedDeliveryPointer_def\<close>)

lemma readiness_found:
  assumes "readiness_of sha a n pr p = Inr d"
  shows "\<exists>cs perm c h. a = ThreadIs cs perm \<and> fld p ''headRefOid'' = JStr h \<and> c \<in> set cs \<and> write_author perm c
    \<and> dl_marker d \<in> set (parseDeliveryReadinessMarkers (c_body c)) \<and> hf_issue (dl_marker d) = Some n
    \<and> hf_pr (dl_marker d) = Some pr \<and> hf_head (dl_marker d) = Some h \<and> decodeRecord sha (dl_marker d) = Some (dl_payload d)"
proof (cases a)
  case (ThreadIs cs perm)
  let ?h = "case fld p ''headRefOid'' of JStr h \<Rightarrow> Some h | _ \<Rightarrow> None"
  have "d \<in> set (candidates sha perm cs n pr ?h)"
    using assms ThreadIs by (simp add: readiness_of_def readiness_ok_iff)
  then obtain c where c: "c \<in> set cs" "write_author perm c" "dl_marker d \<in> set (parseDeliveryReadinessMarkers (c_body c))"
    "hf_issue (dl_marker d) = Some n" "hf_pr (dl_marker d) = Some pr" "decodeRecord sha (dl_marker d) = Some (dl_payload d)"
    "hf_head (dl_marker d) = ?h" unfolding candidates_in by blast
  moreover obtain h where "hf_head (dl_marker d) = Some h" using decode_parts [OF c(6)] by blast
  moreover have "fld p ''headRefOid'' = JStr h" if "?h = Some h" using that by (cases "fld p ''headRefOid''") simp_all
  ultimately show ?thesis using ThreadIs by auto
qed (use assms in \<open>simp_all add: readiness_of_def readTrustedDeliveryReadiness_def\<close>)

lemma trace_issue:
  assumes "trace (deliver_issue sens sha frac repo pr runid p po n) t x"
    and "pointed pr u n" "(AskPr pr, Gave p) \<in> set u" "is_merged p"
  shows "justified (phase_e_rule sha repo pr runid) u t \<and> count_of asserts t \<le> 1 \<and> count_of closes t \<le> 1 \<and> count_of comments t \<le> 1
    \<and> (\<forall>r. x = Some r \<longrightarrow> finished pr t r)"
proof -
  let ?J = "phase_e_rule sha repo pr runid"
  obtain a w where t: "t = (AskThread n, a) # w" and w: "trace (case readiness_of sha a n pr p of
       Inl (code, m) \<Rightarrow> phase_e_fail sens frac n pr (num_opt (po_record po)) code (JStr m)
         (JStr ''re_record_phase_d_readiness_for_the_merged_head_and_rerun_phase_e'')
     | Inr d \<Rightarrow> await (runFinalize sens frac (finalize_args repo n pr runid d)) (finalized sens frac n pr d)) w x"
    using assms(1) unfolding deliver_issue_def by auto
  let ?u = "u @ [(AskThread n, a)]"
  have point: "pointed pr ?u n" by (rule pointed_mono [OF assms(2)]) auto
  have fin: "finished pr w r \<Longrightarrow> finished pr t r" for r
    unfolding t finished_def by (auto intro: reported_mono split: phase_e_result.splits option.splits)
  show ?thesis
  proof (cases "readiness_of sha a n pr p")
    case (Inl e)
    obtain code m where e: "e = (code, m)" by (cases e)
    have f: "trace (phase_e_fail sens frac n pr (num_opt (po_record po)) code (JStr m)
         (JStr ''re_record_phase_d_readiness_for_the_merged_head_and_rerun_phase_e'')) w x" using w Inl e by simp
    note g = trace_fail [OF f point, of sha repo runid]
    have "\<forall>r. x = Some r \<longrightarrow> finished pr w r" using g by (auto simp: finished_def)
    then show ?thesis using g fin t by simp
  next
    case (Inr d)
    obtain cs perm c h where r: "a = ThreadIs cs perm" "fld p ''headRefOid'' = JStr h" "c \<in> set cs" "write_author perm c"
      "dl_marker d \<in> set (parseDeliveryReadinessMarkers (c_body c))" "hf_issue (dl_marker d) = Some n"
      "hf_pr (dl_marker d) = Some pr" "hf_head (dl_marker d) = Some h" "decodeRecord sha (dl_marker d) = Some (dl_payload d)"
      using readiness_found [OF Inr] by blast
    have "(AskThread n, ThreadIs cs perm) \<in> set ?u" "(AskPr pr, Gave p) \<in> set ?u" using r(1) assms(3) by simp_all
    then have "proven_delivery sha pr ?u n d"
      unfolding proven_delivery_def using point assms(4) r(2-9) by blast
    from trace_deliver [OF _ this] w Inr fin t show ?thesis by simp
  qed
qed

lemma trace_phase_e:
  assumes "trace (runAutomatedPhaseE sens sha frac repo (JInt (int pr)) runid) t x"
  shows "justified (phase_e_rule sha repo pr runid) [] t \<and> count_of asserts t \<le> 1 \<and> count_of closes t \<le> 1 \<and> count_of comments t \<le> 1
    \<and> (\<forall>r. x = Some r \<longrightarrow> finished pr t r)"
proof (cases "0 < pr")
  case False
  then show ?thesis using assms by (simp add: runAutomatedPhaseE_def is_pos_int_def finished_def)
next
  case True
  let ?J = "phase_e_rule sha repo pr runid"
  have num: "phase_e_merged sens sha frac repo (nat (the (as_int (JInt (int pr))))) runid = phase_e_merged sens sha frac repo pr runid"
    by simp
  obtain a w where t: "t = (AskRepo, a) # w" and w: "trace (case a of
      Gave r \<Rightarrow>
               if \<not> accepted r
               then Return (PhaseEFailed None (js_string frac (fld r ''error'')) (js_string frac (fld r ''message'')))
               else phase_e_merged sens sha frac repo pr runid
           | _ \<Rightarrow> Throw) w x"
    using assms True unfolding runAutomatedPhaseE_def num by (auto simp: is_pos_int_def)
  show ?thesis
  proof (cases "\<exists>r. a = Gave r \<and> accepted r")
    case False
    then have "w = [] \<and> (\<forall>r. x = Some r \<longrightarrow> finished pr t r)"
      using w t by (cases a) (auto simp: finished_def split: if_splits)
    moreover from this have "t = [(AskRepo, a)]" using t by simp
    ultimately show ?thesis by simp
  next
    case True
    then have "trace (phase_e_merged sens sha frac repo pr runid) w x" using w by auto
    then obtain b v where v: "w = (AskPr pr, b) # v" "trace (case b of
       Threw e \<Rightarrow> Return (PhaseEFailed None ''phase_e_pr_unreadable'' e)
     | Gave p \<Rightarrow>
         if \<not> is_merged p then Return (PhaseEFailed None ''phase_e_pr_not_merged'' (not_merged_text frac pr p))
         else Ask (AskThread pr) (\<lambda>c. case pointer_of c pr of
                Inl e \<Rightarrow> Return (PhaseESkipped (fst e))
              | Inr po \<Rightarrow> deliver_issue sens sha frac repo pr runid p po (the (po_issue po)))
     | _ \<Rightarrow> Throw) v x" unfolding phase_e_merged_def by auto
    show ?thesis
    proof (cases "\<exists>p. b = Gave p \<and> is_merged p")
      case False
      then have "v = [] \<and> (\<forall>r. x = Some r \<longrightarrow> finished pr t r)"
        using v t by (cases b) (auto simp: finished_def split: if_splits)
      moreover from this have "t = [(AskRepo, a), (AskPr pr, b)]" using t v(1) by simp
      ultimately show ?thesis by simp
    next
      case True
      then obtain p where p: "b = Gave p" "is_merged p" by blast
      then obtain c y where y: "v = (AskThread pr, c) # y" "trace (case pointer_of c pr of
                Inl e \<Rightarrow> Return (PhaseESkipped (fst e))
              | Inr po \<Rightarrow> deliver_issue sens sha frac repo pr runid p po (the (po_issue po))) y x"
        using v(2) by auto
      let ?u = "[(AskRepo, a), (AskPr pr, b), (AskThread pr, c)]"
      have t': "t = ?u @ y" using t v(1) y(1) by simp
      show ?thesis
      proof (cases "pointer_of c pr")
        case (Inl e)
        then show ?thesis using t' y(2) by (auto simp: finished_def)
      next
        case (Inr po)
        have "pointed pr ?u (the (po_issue po))"
          using pointer_found [OF Inr] p unfolding pointed_def by fastforce
        moreover have "trace (deliver_issue sens sha frac repo pr runid p po (the (po_issue po))) y x" using y(2) Inr by simp
        ultimately have "justified ?J ?u y \<and> count_of asserts y \<le> 1 \<and> count_of closes y \<le> 1 \<and> count_of comments y \<le> 1
          \<and> (\<forall>r. x = Some r \<longrightarrow> finished pr y r)" using p by (intro trace_issue) simp_all
        moreover have "finished pr y r \<Longrightarrow> count_of comments ?u = 0 \<Longrightarrow> finished pr t r" for r
          unfolding t' finished_def by (auto intro: reported_mono split: phase_e_result.splits option.splits)
        ultimately show ?thesis unfolding t' by simp
      qed
    qed
  qed
qed

end
