(* ===== verification/HandoffSafety.thy ===== *)
theory HandoffSafety
  imports DeliverySafety
begin

text \<open>
  The readiness action: a handoff is written only for a head whose checks were verified in the same call, with a payload
  a final report can be written from.
\<close>

section \<open>Recording\<close>

lemma refused_not_accepted [simp]: "\<not> accepted (refused code m)"
  by (simp add: accepted_def refused_def truthy_def)

lemma unauthorized_not_accepted [simp]: "\<not> accepted (issueRepositoryNotAuthorized frac prefix r extra)"
  by (simp add: accepted_def issueRepositoryNotAuthorized_def truthy_def)

lemma trace_pointer:
  assumes "trace (post_pointer n pr lane head rid url) t y"
  obtains b where "t = [(AskPost pr (buildDeliveryPointerRecord n pr rid), b)]"
    "\<forall>e. y = Some e \<and> accepted e \<longrightarrow> (\<exists>k l. b = PostedAs k l)"
proof -
  obtain b w where t: "t = (AskPost pr (buildDeliveryPointerRecord n pr rid), b) # w" and w: "trace (case b of
       Threw e \<Rightarrow> Return (refused ''delivery_pointer_post_failed'' e)
     | PostedAs _ _ \<Rightarrow> Return (JObj
         [(''ok'', JBool True), (''issue_number'', JInt (int n)), (''pr_number'', JInt (int pr)), (''lane'', JStr lane),
          (''head_sha'', JStr head), (''record_comment_id'', num_opt rid), (''record_comment_url'', url)])
     | _ \<Rightarrow> Throw) w y"
    using assms unfolding post_pointer_def by auto
  then show thesis using that [of b] by (cases b) auto
qed

lemma trace_handoff:
  assumes "trace (post_handoff frac n pr lane head body) t y"
  obtains
    (unposted) a where "t = [(AskRepo, a)]" "\<forall>e. y = Some e \<longrightarrow> \<not> accepted e"
  | (half) r a where "t = [(AskRepo, Gave r), (AskPost n body, a)]" "\<forall>e. y = Some e \<longrightarrow> \<not> accepted e"
  | (both) r rid url b where
      "t = [(AskRepo, Gave r), (AskPost n body, PostedAs rid url), (AskPost pr (buildDeliveryPointerRecord n pr rid), b)]"
      "\<forall>e. y = Some e \<and> accepted e \<longrightarrow> (\<exists>k l. b = PostedAs k l)"
proof -
  obtain a w where t: "t = (AskRepo, a) # w" and w: "trace (case a of
       Gave r \<Rightarrow>
         if \<not> accepted r
         then Return (issueRepositoryNotAuthorized frac ''delivery_readiness'' r [(''issue_number'', JInt (int n))])
         else Ask (AskPost n body) (\<lambda>b. case b of
                Threw e \<Rightarrow> Return (refused ''delivery_readiness_post_failed'' e)
              | PostedAs rid url \<Rightarrow> post_pointer n pr lane head rid url
              | _ \<Rightarrow> Throw)
     | _ \<Rightarrow> Throw) w y"
    using assms unfolding post_handoff_def by auto
  show thesis
  proof (cases "\<exists>r. a = Gave r \<and> accepted r")
    case False
    then have "w = [] \<and> (\<forall>e. y = Some e \<longrightarrow> \<not> accepted e)" using w by (cases a) (auto split: if_splits)
    then show thesis using unposted t by simp
  next
    case True
    then obtain r where r: "a = Gave r" "accepted r" by blast
    then obtain b v where v: "w = (AskPost n body, b) # v" "trace (case b of
                Threw e \<Rightarrow> Return (refused ''delivery_readiness_post_failed'' e)
              | PostedAs rid url \<Rightarrow> post_pointer n pr lane head rid url
              | _ \<Rightarrow> Throw) v y" using w by auto
    show thesis
    proof (cases b)
      case (PostedAs rid url)
      then have "trace (post_pointer n pr lane head rid url) v y" using v(2) by simp
      then obtain c where "v = [(AskPost pr (buildDeliveryPointerRecord n pr rid), c)]"
        "\<forall>e. y = Some e \<and> accepted e \<longrightarrow> (\<exists>k l. c = PostedAs k l)" by (rule trace_pointer)
      then show thesis using both [of r rid url c] t r v(1) PostedAs by blast
    qed (use half [of r b] t r v in auto)
  qed
qed

lemma trace_recorded:
  assumes "trace (runRecordDeliveryReadiness sens sha frac repo n pr lane head payload) t y" and "0 < n" "0 < pr"
  obtains (quiet) "t = []" "\<forall>e. y = Some e \<longrightarrow> \<not> accepted e"
  | (posting) h where "head = JStr h" "full_git_oid h" "lane \<in> set delivery_lanes" "completion_fit lane payload"
      "unit_length (buildDeliveryReadinessRecord sha frac n pr lane h payload) \<le> comment_units_max"
      "trace (post_handoff frac n pr lane h (buildDeliveryReadinessRecord sha frac n pr lane h payload)) t y"
proof (cases "lane \<in> set delivery_lanes \<and> (\<exists>h. head = JStr h \<and> full_git_oid h)")
  case False
  then have "t = [] \<and> (\<forall>e. y = Some e \<longrightarrow> \<not> accepted e)"
    using assms(1) by (cases head) (auto simp: runRecordDeliveryReadiness_def split: if_splits)
  then show thesis using quiet by blast
next
  case True
  then obtain h where h: "lane \<in> set delivery_lanes" "head = JStr h" "full_git_oid h" by blast
  let ?m = "\<lparr>ma_repo = repo, ma_issue = n, ma_pr = Some pr, ma_lane = Some lane, ma_completion = payload, ma_run = JUndef\<rparr>"
  let ?body = "buildDeliveryReadinessRecord sha frac n pr lane h payload"
  have r: "runRecordDeliveryReadiness sens sha frac repo n pr lane head payload =
    (case mapCompletion ?m ''pre_merge'' of
                  None \<Rightarrow> Throw
                | Some v \<Rightarrow>
                    if validateFinalReportInput frac v \<noteq> []
                    then Return (refused ''delivery_readiness_payload_invalid'' (join ''; '' (validateFinalReportInput frac v)))
                       else if unit_length ?body > comment_units_max
                       then Return (refused ''delivery_readiness_payload_too_large''
                              (''the rendered readiness record exceeds GitHub'' @ [CHR 0x27] @ ''s comment size limit''))
                       else (case sens ?body of
                               Some s \<Rightarrow> Return (refused ''delivery_readiness_sensitive_content'' s)
                             | None \<Rightarrow> post_handoff frac n pr lane h ?body))"
    unfolding runRecordDeliveryReadiness_def Let_def using h by simp
  show thesis
  proof (cases "\<exists>v. mapCompletion ?m ''pre_merge'' = Some v \<and> validateFinalReportInput frac v = []
      \<and> unit_length ?body \<le> comment_units_max \<and> sens ?body = None")
    case False
    then have "t = [] \<and> (\<forall>e. y = Some e \<longrightarrow> \<not> accepted e)"
      using assms(1) unfolding r by (auto split: option.splits if_splits)
    then show thesis using quiet by blast
  next
    case True
    then have "\<exists>v. mapCompletion ?m ''pre_merge'' = Some v \<and> validateFinalReportInput frac v = []" by blast
    then have "completion_fit lane payload"
      using completion_gate_exact [of ?m pr lane "''pre_merge''" frac] assms(2,3) h(1) by (simp add: delivery_lanes_def)
    moreover have "trace (post_handoff frac n pr lane h ?body) t y" using True assms(1) unfolding r by auto
    ultimately show thesis using posting [of h] h True by blast
  qed
qed

text \<open>A handoff in the trace: both records, of a payload a report can be written from.\<close>

definition handed :: "(string \<Rightarrow> string) \<Rightarrow> (int \<Rightarrow> nat \<Rightarrow> string) \<Rightarrow> mech_args \<Rightarrow> nat \<Rightarrow> string \<Rightarrow> string
    \<Rightarrow> (delivery_request \<times> delivery_answer) list \<Rightarrow> bool" where
  "handed sha frac m pr lane h t \<longleftrightarrow> lane \<in> set delivery_lanes \<and> full_git_oid h \<and> completion_fit lane (ma_completion m)
     \<and> unit_length (buildDeliveryReadinessRecord sha frac (ma_issue m) pr lane h (ma_completion m)) \<le> comment_units_max
     \<and> (\<exists>rid url k l.
     (AskPost (ma_issue m) (buildDeliveryReadinessRecord sha frac (ma_issue m) pr lane h (ma_completion m)), PostedAs rid url) \<in> set t
     \<and> (AskPost pr (buildDeliveryPointerRecord (ma_issue m) pr rid), PostedAs k l) \<in> set t)"

definition verified_head :: "mech_args \<Rightarrow> nat \<Rightarrow> (delivery_request \<times> delivery_answer) list \<Rightarrow> string \<Rightarrow> string \<Rightarrow> bool" where
  "verified_head m pr u lane h \<longleftrightarrow> (\<exists>p. (AskPhaseE pr, Gave p) \<in> set u \<and> accepted p)
     \<and> (lane = ''implement'' \<and> ma_lane m \<noteq> Some ''quickfix''
          \<and> (\<exists>v r. mapCompletion m ''pre_merge'' = Some v \<and> (AskAssert v, Gave r) \<in> set u \<and> accepted r \<and> fld r ''head_sha'' = JStr h)
        \<or> lane = ''quickfix'' \<and> ma_lane m = Some ''quickfix''
          \<and> (\<exists>g cs perm l cs' perm' c sr. (AskGates pr, GatesAre g) \<in> set u \<and> gt_passed g \<and> gt_state g = ''OPEN'' \<and> gt_head g = h
               \<and> (AskThread (ma_issue m), ThreadIs cs perm) \<in> set u
               \<and> readTrustedRunLane perm (Some cs) (gt_branch g) = Inr l \<and> lr_lane l = Quickfix
               \<and> (AskThread (ma_issue m), ThreadIs cs' perm') \<in> set u
               \<and> readLatestTrustedImplementSyncRecord perm' cs' (ma_issue m) (gt_branch g) None = Inr (Some (c, sr))
               \<and> sy_result sr = h \<and> sy_lane sr = Some ''quickfix''))"

definition handoff_rule :: "(string \<Rightarrow> string) \<Rightarrow> (int \<Rightarrow> nat \<Rightarrow> string) \<Rightarrow> mech_args \<Rightarrow> nat
    \<Rightarrow> (delivery_request \<times> delivery_answer) list \<Rightarrow> delivery_request \<Rightarrow> bool" where
  "handoff_rule sha frac m pr u q = (case q of
       AskPost k b \<Rightarrow> \<exists>lane h. verified_head m pr u lane h \<and> full_git_oid h \<and> completion_fit lane (ma_completion m)
         \<and> (k = ma_issue m \<and> b = buildDeliveryReadinessRecord sha frac (ma_issue m) pr lane h (ma_completion m)
            \<or> k = pr \<and> (\<exists>rid url. b = buildDeliveryPointerRecord (ma_issue m) pr rid
                 \<and> (AskPost (ma_issue m) (buildDeliveryReadinessRecord sha frac (ma_issue m) pr lane h (ma_completion m)),
                    PostedAs rid url) \<in> set u))
     | AskClose _ _ \<Rightarrow> False
     | _ \<Rightarrow> True)"

lemma handoff_rule_simps [simp]:
  "handoff_rule sha frac m pr u AskRepo" "handoff_rule sha frac m pr u (AskPr k)" "handoff_rule sha frac m pr u (AskThread k)"
  "handoff_rule sha frac m pr u (AskAssert v)" "handoff_rule sha frac m pr u (AskPhaseE k)" "handoff_rule sha frac m pr u (AskGates k)"
  by (simp_all add: handoff_rule_def)

lemma verified_mono: "verified_head m pr u lane h \<Longrightarrow> set u \<subseteq> set v \<Longrightarrow> verified_head m pr v lane h"
  unfolding verified_head_def by blast

lemma trace_recordHandoff:
  assumes "trace (recordHandoff sens sha frac m pr lane head) t y" and "0 < ma_issue m" "0 < pr"
    and "\<forall>h. head = JStr h \<longrightarrow> verified_head m pr u lane h"
  shows "justified (handoff_rule sha frac m pr) u t \<and> count_of comments t \<le> 2
    \<and> (\<forall>r. y = Some (Inr r) \<longrightarrow> (\<exists>h. head = JStr h \<and> handed sha frac m pr lane h t))
    \<and> (\<forall>e. y = Some (Inl e) \<longrightarrow> \<not> accepted e)"
proof -
  let ?R = "runRecordDeliveryReadiness sens sha frac (ma_repo m) (ma_issue m) pr lane head (ma_completion m)"
  let ?J = "handoff_rule sha frac m pr"
  have main: "justified ?J u t \<and> count_of comments t \<le> 2
      \<and> (\<forall>r. z = Some r \<and> accepted r \<longrightarrow> (\<exists>h. head = JStr h \<and> handed sha frac m pr lane h t))"
    if "trace ?R t z" for z
    using that assms(2,3)
  proof (cases rule: trace_recorded)
    case quiet
    then show ?thesis by auto
  next
    case (posting h)
    let ?body = "buildDeliveryReadinessRecord sha frac (ma_issue m) pr lane h (ma_completion m)"
    have v: "verified_head m pr (u @ s) lane h" for s using assms(4) posting(1) by (auto intro: verified_mono)
    have first: "?J (u @ s) (AskPost (ma_issue m) ?body)" for s
      using v [of s] posting(2,4) by (auto simp: handoff_rule_def)
    have second: "?J (u @ s) (AskPost pr (buildDeliveryPointerRecord (ma_issue m) pr rid))"
      if "(AskPost (ma_issue m) ?body, PostedAs rid url) \<in> set s" for s rid url
      using v [of s] posting(2,4) that by (auto simp: handoff_rule_def)
    from posting(6) show ?thesis
    proof (cases rule: trace_handoff)
      case (unposted a)
      then show ?thesis by auto
    next
      case (half r a)
      then show ?thesis using first by auto
    next
      case (both r rid url b)
      have "\<exists>h. head = JStr h \<and> handed sha frac m pr lane h t" if "z = Some e" "accepted e" for e
        using both that posting(1-5) unfolding handed_def by auto
      then show ?thesis using both first second [of rid url "[(AskRepo, Gave r), (AskPost (ma_issue m) ?body, PostedAs rid url)]"]
        by auto
    qed
  qed
  consider (stop) "trace ?R t None" "y = None"
    | (go) z where "trace ?R t (Some z)" "y = Some (if accepted z then Inr z
         else Inl (failure_env sens frac ''readiness'' (fld z ''error'') (fld z ''message'')
                (or_else (fld z ''next_action'') ''repair_delivery_readiness_payload_and_retry'')
                [(''delivery_readiness'', z)]))"
    using assms(1) unfolding recordHandoff_def trace_await by auto
  then show ?thesis
  proof cases
    case stop
    then show ?thesis using main by simp
  next
    case go
    then show ?thesis using main [OF go(1)] by (auto split: if_splits)
  qed
qed

section \<open>The action\<close>

text \<open>The readers make quiet requests and stand for a thread that was read.\<close>

definition quiet :: "(delivery_request \<times> delivery_answer) list \<Rightarrow> bool" where
  "quiet t \<longleftrightarrow> list_all (\<lambda>qa. fst qa = AskRepo \<or> (\<exists>k. fst qa = AskThread k)) t"

lemma quiet_simps [simp]: "quiet []" "quiet (s @ t) \<longleftrightarrow> quiet s \<and> quiet t"
  "quiet ((AskRepo, a) # t) \<longleftrightarrow> quiet t" "quiet ((AskThread k, a) # t) \<longleftrightarrow> quiet t"
  by (simp_all add: quiet_def)

lemma quiet_handoff: "quiet t \<Longrightarrow> justified (handoff_rule sha frac m pr) u t \<and> count_of comments t = 0 \<and> count_of closes t = 0"
  by (induction t arbitrary: u) (auto simp: quiet_def)

lemma trace_lane:
  assumes "trace (readRunLane n branch) t y"
  shows "quiet t \<and> (\<forall>l. y = Some (Inr l) \<longrightarrow> (\<exists>cs perm. (AskThread n, ThreadIs cs perm) \<in> set t
    \<and> readTrustedRunLane perm (Some cs) branch = Inr l))"
proof -
  obtain a w where t: "t = (AskRepo, a) # w" and w: "trace (case a of
     Gave r \<Rightarrow>
       if \<not> accepted r then Return (resolveTrustedRunLane False (\<lambda>_. None) None branch)
       else Ask (AskThread n) (\<lambda>b. case b of
              ThreadIs cs perm \<Rightarrow> Return (resolveTrustedRunLane True perm (Some cs) branch)
            | _ \<Rightarrow> Return (resolveTrustedRunLane True (\<lambda>_. None) None branch))
   | _ \<Rightarrow> Throw) w y" using assms unfolding readRunLane_def by auto
  show ?thesis
  proof (cases "\<exists>r. a = Gave r \<and> accepted r")
    case False
    then have "w = [] \<and> (\<forall>l. y \<noteq> Some (Inr l))" using w by (cases a) (auto simp: resolveTrustedRunLane_def split: if_splits)
    then show ?thesis using t by simp
  next
    case True
    then obtain b v where v: "w = (AskThread n, b) # v" "trace (case b of
              ThreadIs cs perm \<Rightarrow> Return (resolveTrustedRunLane True perm (Some cs) branch)
            | _ \<Rightarrow> Return (resolveTrustedRunLane True (\<lambda>_. None) None branch)) v y" using w by auto
    then show ?thesis using t
      by (cases b) (auto simp: resolveTrustedRunLane_def readTrustedRunLane_def [of _ None])
  qed
qed

lemma trace_sync:
  assumes "trace (readSyncRecord n branch) t y"
  shows "quiet t \<and> (\<forall>e. y = Some (Inr e) \<longrightarrow> (\<exists>cs perm. (AskThread n, ThreadIs cs perm) \<in> set t
    \<and> readLatestTrustedImplementSyncRecord perm cs n branch None = Inr e))"
proof -
  obtain a w where t: "t = (AskRepo, a) # w" and w: "trace (case a of
     Gave r \<Rightarrow>
       if \<not> accepted r then Return (Inl ''synchronization_record_repo_not_authorized'')
       else Ask (AskThread n) (\<lambda>b. case b of
              ThreadIs cs perm \<Rightarrow> Return (readLatestTrustedImplementSyncRecord perm cs n branch None)
            | _ \<Rightarrow> Throw)
   | _ \<Rightarrow> Throw) w y" using assms unfolding readSyncRecord_def by auto
  show ?thesis
  proof (cases "\<exists>r. a = Gave r \<and> accepted r")
    case False
    then have "w = [] \<and> (\<forall>l. y \<noteq> Some (Inr l))" using w by (cases a) (auto split: if_splits)
    then show ?thesis using t by simp
  next
    case True
    then obtain b v where v: "w = (AskThread n, b) # v" "trace (case b of
              ThreadIs cs perm \<Rightarrow> Return (readLatestTrustedImplementSyncRecord perm cs n branch None)
            | _ \<Rightarrow> Throw) v y" using w by auto
    then show ?thesis using t by (cases b) auto
  qed
qed

lemma quickfix_bound:
  assumes "quickfixBound synced g n = None"
  shows "\<exists>c sr. synced = Some (c, sr) \<and> sy_result sr = gt_head g \<and> sy_lane sr = Some ''quickfix''"
proof (cases synced)
  case None
  then show ?thesis using assms by (simp add: quickfixBound_def deliveredHeadRefusal_def)
next
  case (Some e)
  then obtain c sr where e: "synced = Some (c, sr)" by (cases e) simp
  then show ?thesis using assms
    by (auto simp: quickfixBound_def deliveredHeadRefusal_def assertDeliveryBindingCurrent_def split: if_splits)
qed

lemma claim_quickfix: "laneClaimRefusal l (Some ''quickfix'') = None \<Longrightarrow> lr_lane l = Quickfix"
  by (cases "lr_lane l") (auto simp: laneClaimRefusal_def split: if_splits)

lemma refuse_not_accepted [simp]: "\<not> accepted (refuse_readiness sens frac code m na)"
  by (simp add: refuse_readiness_def)

text \<open>What a lane's part of the action does, after the evidence \<open>u\<close>.\<close>

definition ready_outcome :: "(string \<Rightarrow> string) \<Rightarrow> (int \<Rightarrow> nat \<Rightarrow> string) \<Rightarrow> mech_args \<Rightarrow> nat \<Rightarrow> (delivery_request \<times> delivery_answer) list
    \<Rightarrow> (delivery_request \<times> delivery_answer) list \<Rightarrow> js option \<Rightarrow> bool" where
  "ready_outcome sha frac m pr u t y \<longleftrightarrow> justified (handoff_rule sha frac m pr) u t \<and> count_of comments t \<le> 2
     \<and> (\<forall>r. y = Some r \<and> accepted r \<longrightarrow> (\<exists>lane h. verified_head m pr (u @ t) lane h \<and> handed sha frac m pr lane h t))"

lemma ready_quiet: "quiet t \<Longrightarrow> (\<And>r. y = Some r \<Longrightarrow> \<not> accepted r) \<Longrightarrow> ready_outcome sha frac m pr u t y"
  using quiet_handoff [of t sha frac m pr u] by (auto simp: ready_outcome_def)

lemma ready_step:
  assumes "ready_outcome sha frac m pr (u @ s) t y" "justified (handoff_rule sha frac m pr) u s" "count_of comments s = 0"
  shows "ready_outcome sha frac m pr u (s @ t) y"
  using assms unfolding ready_outcome_def handed_def by fastforce

lemma ready_handoff:
  assumes "trace (await (recordHandoff sens sha frac m pr lane head) (\<lambda>h. Return (handed_off lane h extra))) t y"
    and "0 < ma_issue m" "0 < pr" "\<forall>h. head = JStr h \<longrightarrow> verified_head m pr u lane h"
  shows "ready_outcome sha frac m pr u t y"
proof -
  consider "trace (recordHandoff sens sha frac m pr lane head) t None" "y = None"
    | z where "trace (recordHandoff sens sha frac m pr lane head) t (Some z)" "y = Some (handed_off lane z extra)"
    using assms(1) unfolding trace_await by auto
  then show ?thesis
  proof cases
    case 1
    from trace_recordHandoff [OF 1(1) assms(2-4)] 1(2) show ?thesis by (simp add: ready_outcome_def)
  next
    case (2 z)
    note r = trace_recordHandoff [OF 2(1) assms(2-4)]
    have "\<exists>lane h. verified_head m pr (u @ t) lane h \<and> handed sha frac m pr lane h t" if acc: "accepted (handed_off lane z extra)"
    proof -
      obtain e where "z = Inr e" using r acc by (cases z) (auto simp: handed_off_def)
      then obtain h where h: "head = JStr h" "handed sha frac m pr lane h t" using r by blast
      then have "verified_head m pr (u @ t) lane h" using assms(4) by (auto intro: verified_mono)
      then show ?thesis using h(2) by blast
    qed
    then show ?thesis using r 2(2) by (simp add: ready_outcome_def)
  qed
qed

lemma trace_quickfix:
  assumes "trace (quickfixReadiness sens sha frac m pr) t y" and "0 < ma_issue m" "0 < pr"
    and "ma_lane m = Some ''quickfix''" "(AskPhaseE pr, Gave p) \<in> set u" "accepted p"
  shows "ready_outcome sha frac m pr u t y"
proof -
  let ?lane = "\<lambda>g lane. case lane of
                Inl e \<Rightarrow> Return (refuse_readiness sens frac e [] (lane_next_action e))
              | Inr l \<Rightarrow>
                  (case laneClaimRefusal l (Some ''quickfix'') of
                     Some _ \<Rightarrow> Return (refuse_readiness sens frac ''readiness_lane_mismatch'' []
                                  ''record_readiness_for_the_lane_this_run_was_picked_up_under'')
                   | None \<Rightarrow> await (readSyncRecord (ma_issue m) (gt_branch g)) (\<lambda>synced. case synced of
                       Inl e \<Rightarrow> Return (refuse_readiness sens frac e [] (sync_next_action e))
                     | Inr rec \<Rightarrow>
                         (case quickfixBound rec g (ma_issue m) of
                            Some (e, t) \<Rightarrow> Return (refuse_readiness sens frac e t ''return_to_the_synchronization_boundary'')
                          | None \<Rightarrow> await (recordHandoff sens sha frac m pr ''quickfix'' (JStr (gt_head g))) (\<lambda>h.
                              Return (handed_off ''quickfix'' h [])))))"
  obtain a w where t: "t = (AskGates pr, a) # w" and w: "\<And>g. a = GatesAre g \<Longrightarrow> gt_passed g \<Longrightarrow> gt_state g = ''OPEN'' \<Longrightarrow>
      trace (await (readRunLane (ma_issue m) (gt_branch g)) (?lane g)) w y"
    and stop: "\<not> (\<exists>g. a = GatesAre g \<and> gt_passed g \<and> gt_state g = ''OPEN'') \<Longrightarrow> w = [] \<and> (\<forall>r. y = Some r \<longrightarrow> \<not> accepted r)"
  proof -
    obtain a w where "t = (AskGates pr, a) # w" and w: "trace (case a of
       GatesAre g \<Rightarrow>
         if \<not> gt_passed g \<or> gt_state g \<noteq> ''OPEN''
         then Return (refuse_readiness sens frac ''readiness_hosted_checks_not_green''
                (''required hosted checks for PR #'' @ show_nat pr @ '' are not green on its current head'')
                ''repair_or_wait_for_current_head_hosted_checks'')
         else await (readRunLane (ma_issue m) (gt_branch g)) (?lane g)
     | Gave hosted \<Rightarrow> Return (failure_env sens frac ''readiness''
         (or_else (fld hosted ''error'') ''readiness_hosted_checks_not_green'')
         (or_else (fld hosted ''message'') (''required hosted checks for PR #'' @ show_nat pr @ '' are not green on its current head''))
         (or_else (fld hosted ''next_action'') ''repair_or_wait_for_current_head_hosted_checks'') [(''hosted'', hosted)])
     | _ \<Rightarrow> Throw) w y"
      using assms(1) unfolding quickfixReadiness_def trace.simps by blast
    then show thesis by (intro that [of a w]) (cases a; auto split: if_splits)+
  qed
  have rule1: "justified (handoff_rule sha frac m pr) u [(AskGates pr, a)]" by simp
  have "ready_outcome sha frac m pr (u @ [(AskGates pr, a)]) w y"
  proof (cases "\<exists>g. a = GatesAre g \<and> gt_passed g \<and> gt_state g = ''OPEN''")
    case False
    then show ?thesis using stop by (auto intro!: ready_quiet)
  next
    case True
    then obtain g where g: "a = GatesAre g" "gt_passed g" "gt_state g = ''OPEN''" by blast
    let ?u = "u @ [(AskGates pr, a)]"
    consider (stop1) "trace (readRunLane (ma_issue m) (gt_branch g)) w None" "y = None"
      | (go1) w1 w2 x where "w = w1 @ w2" "trace (readRunLane (ma_issue m) (gt_branch g)) w1 (Some x)" "trace (?lane g x) w2 y"
      using w [OF g] unfolding trace_await by blast
    then show ?thesis
    proof cases
      case stop1
      then show ?thesis using trace_lane [OF stop1(1)] by (intro ready_quiet) auto
    next
      case go1
      note l = trace_lane [OF go1(2)]
      show ?thesis
      proof (cases "\<exists>l. x = Inr l \<and> laneClaimRefusal l (Some ''quickfix'') = None")
        case False
        then have "w2 = [] \<and> (\<forall>r. y = Some r \<longrightarrow> \<not> accepted r)"
          using go1(3) by (auto split: sum.splits option.splits)
        then show ?thesis using l go1(1) by (intro ready_quiet) auto
      next
        case True
        then obtain ln where ln: "x = Inr ln" "laneClaimRefusal ln (Some ''quickfix'') = None" by blast
        obtain cs perm where cs: "(AskThread (ma_issue m), ThreadIs cs perm) \<in> set w1"
          "readTrustedRunLane perm (Some cs) (gt_branch g) = Inr ln" using l ln(1) by blast
        let ?sync = "\<lambda>synced. case synced of
                       Inl e \<Rightarrow> Return (refuse_readiness sens frac e [] (sync_next_action e))
                     | Inr rec \<Rightarrow>
                         (case quickfixBound rec g (ma_issue m) of
                            Some (e, t) \<Rightarrow> Return (refuse_readiness sens frac e t ''return_to_the_synchronization_boundary'')
                          | None \<Rightarrow> await (recordHandoff sens sha frac m pr ''quickfix'' (JStr (gt_head g))) (\<lambda>h.
                              Return (handed_off ''quickfix'' h [])))"
        have q1: "justified (handoff_rule sha frac m pr) ?u w1" "count_of comments w1 = 0" using quiet_handoff l by blast+
        have "trace (await (readSyncRecord (ma_issue m) (gt_branch g)) ?sync) w2 y" using go1(3) ln by simp
        then consider (stop2) "trace (readSyncRecord (ma_issue m) (gt_branch g)) w2 None" "y = None"
          | (go2) v1 v2 z where "w2 = v1 @ v2" "trace (readSyncRecord (ma_issue m) (gt_branch g)) v1 (Some z)" "trace (?sync z) v2 y"
          unfolding trace_await by blast
        then have "ready_outcome sha frac m pr (?u @ w1) w2 y"
        proof cases
          case stop2
          then show ?thesis using trace_sync [OF stop2(1)] by (intro ready_quiet) auto
        next
          case go2
          note sy = trace_sync [OF go2(2)]
          show ?thesis
          proof (cases "\<exists>e. z = Inr e \<and> quickfixBound e g (ma_issue m) = None")
            case False
            then have "v2 = [] \<and> (\<forall>r. y = Some r \<longrightarrow> \<not> accepted r)"
              using go2(3) by (auto split: sum.splits option.splits prod.splits)
            then show ?thesis using sy go2(1) by (intro ready_quiet) auto
          next
            case True
            then obtain e where e: "z = Inr e" "quickfixBound e g (ma_issue m) = None" by blast
            obtain c sr where sr: "e = Some (c, sr)" "sy_result sr = gt_head g" "sy_lane sr = Some ''quickfix''"
              using quickfix_bound [OF e(2)] by blast
            obtain cs' perm' where cs': "(AskThread (ma_issue m), ThreadIs cs' perm') \<in> set v1"
              "readLatestTrustedImplementSyncRecord perm' cs' (ma_issue m) (gt_branch g) None = Inr (Some (c, sr))"
              using sy e(1) sr(1) by blast
            have "verified_head m pr ((?u @ w1) @ v1) ''quickfix'' (gt_head g)"
              unfolding verified_head_def using assms(4-6) g cs cs' sr claim_quickfix [OF ln(2)] by fastforce
            then have "ready_outcome sha frac m pr ((?u @ w1) @ v1) v2 y"
              using go2(3) e assms(2,3)
              by (intro ready_handoff [of sens sha frac m pr "''quickfix''" "JStr (gt_head g)" "[]"]) simp_all
            then show ?thesis unfolding go2(1) by (rule ready_step) (use quiet_handoff sy in blast)+
          qed
        qed
        then show ?thesis unfolding go1(1) using q1 by (rule ready_step)
      qed
    qed
  qed
  then have "ready_outcome sha frac m pr u ([(AskGates pr, a)] @ w) y" by (rule ready_step) simp_all
  then show ?thesis using t by simp
qed

lemma trace_implement:
  assumes "trace (implementReadiness sens sha frac m pr) t y" and "0 < ma_issue m" "0 < pr"
    and "ma_lane m \<noteq> Some ''quickfix''" "(AskPhaseE pr, Gave p) \<in> set u" "accepted p"
  shows "ready_outcome sha frac m pr u t y"
proof (cases "mapCompletion m ''pre_merge''")
  case None
  then show ?thesis using assms(1) by (auto simp: implementReadiness_def intro!: ready_quiet)
next
  case (Some v)
  obtain a w where t: "t = (AskAssert v, a) # w" and w: "trace (case a of
          Gave result \<Rightarrow>
            if \<not> accepted result
            then Return (failure_env sens frac ''readiness'' (fld result ''error'') (fld result ''message'')
                   (or_else (fld result ''next_action'') ''repair_readiness_evidence_and_retry'') [(''completion'', result)])
            else await (recordHandoff sens sha frac m pr ''implement'' (fld result ''head_sha'')) (\<lambda>h.
                   Return (handed_off ''implement'' h
                     [(''head_sha'', fld result ''head_sha''), (''readiness_report'', fld result ''readiness_report'')]))
        | _ \<Rightarrow> Throw) w y"
    using assms(1) Some unfolding implementReadiness_def by auto
  have "ready_outcome sha frac m pr (u @ [(AskAssert v, a)]) w y"
  proof (cases "\<exists>r. a = Gave r \<and> accepted r")
    case False
    then have "w = [] \<and> (\<forall>r. y = Some r \<longrightarrow> \<not> accepted r)" using w by (cases a) (auto split: if_splits)
    then show ?thesis by (auto intro!: ready_quiet)
  next
    case True
    then obtain r where r: "a = Gave r" "accepted r" by blast
    have "verified_head m pr (u @ [(AskAssert v, a)]) ''implement'' h" if "fld r ''head_sha'' = JStr h" for h
      unfolding verified_head_def using assms(4-6) Some r that by auto
    then show ?thesis using w r assms(2,3)
      by (intro ready_handoff [of sens sha frac m pr "''implement''" "fld r ''head_sha''"
            "[(''head_sha'', fld r ''head_sha''), (''readiness_report'', fld r ''readiness_report'')]"]) simp_all
  qed
  then have "ready_outcome sha frac m pr u ([(AskAssert v, a)] @ w) y" by (rule ready_step) simp_all
  then show ?thesis using t by simp
qed

lemma trace_readiness:
  assumes "trace (runReadiness sens sha frac m) t y" and "0 < ma_issue m" "ma_pr m = Some pr" "0 < pr"
  shows "ready_outcome sha frac m pr [] t y"
proof (cases "required_fields sens frac m ''readiness''")
  case (Some e)
  then show ?thesis using assms(1) required_not_accepted [OF Some] by (auto simp: runReadiness_def intro!: ready_quiet)
next
  case None
  obtain a w where t: "t = (AskPhaseE pr, a) # w" and w: "trace (case a of
               Gave p \<Rightarrow>
                 if \<not> accepted p
                 then Return (failure_env sens frac ''readiness'' (fld p ''error'') (fld p ''message'') (fld p ''next_action'')
                        [(''phase_e'', p)])
                 else if ma_lane m = Some ''quickfix'' then quickfixReadiness sens sha frac m pr
                 else implementReadiness sens sha frac m pr
             | _ \<Rightarrow> Throw) w y"
    using assms(1,3) None unfolding runReadiness_def by (auto simp: Let_def)
  have "ready_outcome sha frac m pr ([] @ [(AskPhaseE pr, a)]) w y"
  proof (cases "\<exists>p. a = Gave p \<and> accepted p")
    case False
    then have "w = [] \<and> (\<forall>r. y = Some r \<longrightarrow> \<not> accepted r)" using w by (cases a) (auto split: if_splits)
    then show ?thesis by (auto intro!: ready_quiet)
  next
    case True
    then obtain p where p: "a = Gave p" "accepted p" by blast
    have i: "(AskPhaseE pr, Gave p) \<in> set ([] @ [(AskPhaseE pr, a)])" using p by simp
    show ?thesis
    proof (cases "ma_lane m = Some ''quickfix''")
      case True
      then show ?thesis using w p by (intro trace_quickfix [OF _ assms(2,4) True i p(2)]) auto
    next
      case False
      then show ?thesis using w p by (intro trace_implement [OF _ assms(2,4) False i p(2)]) auto
    qed
  qed
  then have "ready_outcome sha frac m pr [] ([(AskPhaseE pr, a)] @ w) y" by (rule ready_step) simp_all
  then show ?thesis using t by simp
qed

end
