(* ===== verification/DeliveryRun.thy ===== *)
theory DeliveryRun
  imports HandoffSafety
begin

text \<open>
  The life of a delivery: what its two calls may ask, and that the handoff the first one records is what the second one
  finalizes.
\<close>

section \<open>Running against fixed answers\<close>

text \<open>A service that always answers the same, keeping the requests it got.\<close>

definition host_serves :: "(delivery_request \<Rightarrow> delivery_answer) \<Rightarrow> delivery_request \<Rightarrow> delivery_request list
    \<Rightarrow> delivery_answer \<times> delivery_request list" where
  "host_serves host q log = (host q, log @ [q])"

lemma host_serves_simps [simp]: "fst (host_serves host q log) = host q" "snd (host_serves host q log) = log @ [q]"
  by (simp_all add: host_serves_def)

lemma host_traced:
  "run_calls (host_serves host) p log = (y, log') \<Longrightarrow>
    \<exists>t. trace p t y \<and> log' = log @ map fst t \<and> (\<forall>qa \<in> set t. snd qa = host (fst qa))"
proof (induction p arbitrary: log)
  case (Ask q k)
  then obtain t where "trace (k (host q)) t y" "log' = (log @ [q]) @ map fst t" "\<forall>qa \<in> set t. snd qa = host (fst qa)"
    by (force simp: rangeI)
  then show ?case by (intro exI [of _ "(q, host q) # t"]) simp
qed auto

section \<open>The recorded delivery\<close>

lemma pointer_kept:
  assumes "c \<in> set cs" "write_author perm c" "c_body c = buildDeliveryPointerRecord n pr rid"
    and "0 < n" "0 < pr" "rid \<noteq> Some 0"
    and one: "\<forall>c' \<in> set cs. \<forall>po \<in> set (parseDeliveryPointerMarkers (c_body c')).
      write_author perm c' \<and> po_pr po = Some pr \<and> po_issue po \<noteq> None \<longrightarrow> po_issue po = Some n"
  shows "\<exists>po. pointer_of (ThreadIs cs perm) pr = Inr po \<and> po_issue po = Some n"
proof -
  let ?M = "collectPointers cs pr"
  let ?T = "filter (\<lambda>(c, m). isTrusted (resolveExecutionObligationTrust perm cs) c) ?M"
  let ?p = "\<lparr>po_issue = Some n, po_pr = Some pr, po_record = rid\<rparr>"
  have "parseDeliveryPointerMarkers (c_body c) = [?p]"
    unfolding assms(3) by (rule pointer_parsed) (use assms(4-6) in auto)
  then have "(c, ?p) \<in> set ?M" using assms(1) unfolding collectPointers_def by force
  then have in_T: "(c, ?p) \<in> set ?T" using assms(1,2) by (simp add: isTrusted_write_author)
  have all: "po_issue m = Some n" if "(c', m) \<in> set ?T" for c' m
    using that one by (auto simp: collectPointers_def isTrusted_write_author)
  have "set (map (\<lambda>(c, m). po_issue m) ?T) \<subseteq> {Some n}" using all by force
  then have "length (remdups (map (\<lambda>(c, m). po_issue m) ?T)) \<le> 1"
    using card_mono [of "{Some n}"] by (simp add: length_remdups_card_conv)
  moreover have "?T \<noteq> []" using in_T by (metis empty_iff empty_set)
  moreover from this have "?M \<noteq> []" by (metis filter.simps(1))
  ultimately have "pointer_of (ThreadIs cs perm) pr = Inr (snd (last ?T))"
    by (simp add: pointer_of_def readTrustedDeliveryPointer_def Let_def)
  moreover have "po_issue (snd (last ?T)) = Some n"
    using all [of "fst (last ?T)" "snd (last ?T)"] last_in_set [OF \<open>?T \<noteq> []\<close>] by simp
  ultimately show ?thesis by blast
qed

lemma readiness_kept:
  assumes "c \<in> set cs" "write_author perm c" "c_body c = buildDeliveryReadinessRecord sha frac n pr lane h payload"
    and ok: "handoff_ok sha frac n pr lane h payload" and "unit_length (c_body c) \<le> comment_units_max"
    and "unit_length (encodeDeliveryPayload frac payload) \<le> delivery_payload_max"
    and one: "\<forall>d \<in> set (candidates sha perm cs n pr (Some h)). dl_marker d = handoff_written sha frac n pr lane h payload"
    and p: "fld p ''headRefOid'' = JStr h"
  shows "\<exists>d. readiness_of sha (ThreadIs cs perm) n pr p = Inr d \<and> dl_payload d = payload \<and> hf_lane (dl_marker d) = Some lane"
proof -
  let ?C = "candidates sha perm cs n pr (Some h)" and ?w = "handoff_written sha frac n pr lane h payload"
  obtain us vs where "cs = us @ c # vs" using assms(1) by (meson split_list)
  then have "?C = candidates sha perm us n pr (Some h) @ candidates sha perm [c] n pr (Some h) @ candidates sha perm vs n pr (Some h)"
    using candidates_append [of sha perm us "c # vs"] candidates_append [of sha perm "[c]" vs] by simp
  then have ne: "?C \<noteq> []" using handoff_candidate [OF ok assms(2,3,5)] assms(6) by simp
  have "set (map (\<lambda>d. hf_digest (dl_marker d)) ?C) \<subseteq> {hf_digest ?w}" using one by auto
  then have "length (remdups (map (\<lambda>d. hf_digest (dl_marker d)) ?C)) \<le> 1"
    using card_mono [of "{hf_digest ?w}"] by (simp add: length_remdups_card_conv)
  then have "readiness_of sha (ThreadIs cs perm) n pr p = Inr (last ?C)"
    using ne p by (simp add: readiness_of_def readiness_ok_iff)
  moreover have m: "last ?C \<in> set ?C" using ne by simp
  then have "dl_marker (last ?C) = ?w" using one by blast
  moreover from m have "decodeRecord sha (dl_marker (last ?C)) = Some (dl_payload (last ?C))" by (auto simp: candidates_in)
  moreover have "decodeRecord sha ?w = Some payload" using written_decoded [OF ok] assms(6) by simp
  ultimately show ?thesis by (auto simp: handoff_written_def Let_def)
qed

lemma phase_e_finalizes:
  assumes "0 < pr" "host AskRepo = Gave a" "accepted a" "host (AskPr pr) = Gave p" "is_merged p"
    and "pointer_of (host (AskThread pr)) pr = Inr po" "po_issue po = Some n"
    and "readiness_of sha (host (AskThread n)) n pr p = Inr d" "dl_payload d = JObj fs" "hf_lane (dl_marker d) = Some lane"
    and "mapCompletion (finalize_args repo n pr runid d) ''post_merge'' = Some v"
    and "host (AskAssert v) = Gave c" "accepted c" "host (AskClose n pr) = Gave close" "accepted close"
  shows "run_calls (host_serves host) (runAutomatedPhaseE sens sha frac repo (JInt (int pr)) runid) [] =
    (Some (PhaseEFinalized n lane (fld c ''already_reported'' = JBool True) (fld close ''ok'' = JBool True)),
     [AskRepo, AskPr pr, AskThread pr, AskThread n, AskAssert v, AskClose n pr])"
proof -
  let ?m = "finalize_args repo n pr runid d"
  have f: "required_fields sens frac ?m ''finalize'' = None" "ma_issue ?m = n" "the (ma_pr ?m) = pr"
    using assms(9) by (simp_all add: required_fields_def requireField_def finalize_args_def num_opt_def nullish_def)
  let ?r = "JObj [(''ok'', JBool True), (''action'', JStr ''finalize''), (''phase'', JStr ''closed''),
                  (''completion'', c), (''close'', close), (''next_action'', JStr ''workflow_complete'')]"
  have fin: "run_calls (host_serves host) (runFinalize sens frac ?m) log = (Some ?r, log @ [AskAssert v, AskClose n pr])" for log
    unfolding runFinalize_def f using assms(11-15) by (simp add: f finalize_close_def)
  have "accepted ?r" by (simp add: accepted_def truthy_def)
  then have last_step: "finalized sens frac n pr d ?r =
      Return (PhaseEFinalized n lane (fld c ''already_reported'' = JBool True) (fld close ''ok'' = JBool True))"
    using assms(10) by (simp add: finalized_def)
  have issue: "run_calls (host_serves host) (deliver_issue sens sha frac repo pr runid p po n) log =
      (Some (PhaseEFinalized n lane (fld c ''already_reported'' = JBool True) (fld close ''ok'' = JBool True)),
       log @ [AskThread n, AskAssert v, AskClose n pr])" for log
    unfolding deliver_issue_def using assms(8) by (simp add: run_await fin last_step)
  have "run_calls (host_serves host) (phase_e_merged sens sha frac repo pr runid) log =
      (Some (PhaseEFinalized n lane (fld c ''already_reported'' = JBool True) (fld close ''ok'' = JBool True)),
       log @ [AskPr pr, AskThread pr, AskThread n, AskAssert v, AskClose n pr])" for log
    unfolding phase_e_merged_def using assms(4-7) by (simp add: issue)
  then show ?thesis
    unfolding runAutomatedPhaseE_def using assms(1-3) by (simp add: is_pos_int_def)
qed

text \<open>
  The pull request was merged at the head handed over, and nobody with write permission recorded another delivery of that
  head or pointed the pull request at another issue.
\<close>

definition undisturbed ::
  "(string \<Rightarrow> string) \<Rightarrow> (int \<Rightarrow> nat \<Rightarrow> string) \<Rightarrow> mech_args \<Rightarrow> nat \<Rightarrow> (delivery_request \<times> delivery_answer) list
     \<Rightarrow> (delivery_request \<Rightarrow> delivery_answer) \<Rightarrow> js \<Rightarrow> bool" where
  "undisturbed sha frac m pr t host p \<longleftrightarrow>
     (\<forall>lane h. handed sha frac m pr lane h t \<longrightarrow> fld p ''headRefOid'' = JStr h
        \<and> (\<forall>cs perm. host (AskThread (ma_issue m)) = ThreadIs cs perm \<longrightarrow>
             (\<forall>d \<in> set (candidates sha perm cs (ma_issue m) pr (Some h)).
                dl_marker d = handoff_written sha frac (ma_issue m) pr lane h (ma_completion m))))
     \<and> (\<forall>cs perm. host (AskThread pr) = ThreadIs cs perm \<longrightarrow>
          (\<forall>c \<in> set cs. \<forall>po \<in> set (parseDeliveryPointerMarkers (c_body c)).
             write_author perm c \<and> po_pr po = Some pr \<and> po_issue po \<noteq> None \<longrightarrow> po_issue po = Some (ma_issue m)))"

text \<open>Every comment the call posted is on its thread, and its author may write.\<close>

definition kept_posts :: "(delivery_request \<times> delivery_answer) list \<Rightarrow> (delivery_request \<Rightarrow> delivery_answer) \<Rightarrow> bool" where
  "kept_posts t host \<longleftrightarrow> (\<forall>k b j l. (AskPost k b, PostedAs j l) \<in> set t \<longrightarrow> j \<noteq> Some 0
     \<and> (\<exists>cs perm c. host (AskThread k) = ThreadIs cs perm \<and> c \<in> set cs \<and> write_author perm c \<and> c_body c = b))"

lemma fit_object: "completion_fit lane v \<Longrightarrow> \<exists>fs. v = JObj fs"
  by (cases v) (auto simp: completion_fit_def one_of_def fld_def)

lemma fit_maps: "completion_fit lane (ma_completion m) \<Longrightarrow> \<exists>v. mapCompletion m ph = Some v"
  unfolding mapCompletion_Some using fit_mapped fit_object [of lane "ma_completion m"]
  by (fastforce simp: completion_fit_def nullish_def)

lemma record_posts:
  assumes "lane \<in> set delivery_lanes" "full_git_oid h" "completion_fit lane payload" "0 < n" "0 < pr"
    and "unit_length (buildDeliveryReadinessRecord sha frac n pr lane h payload) \<le> comment_units_max"
    and "sens (buildDeliveryReadinessRecord sha frac n pr lane h payload) = None"
  shows "runRecordDeliveryReadiness sens sha frac repo n pr lane (JStr h) payload =
    post_handoff frac n pr lane h (buildDeliveryReadinessRecord sha frac n pr lane h payload)"
proof -
  let ?m = "\<lparr>ma_repo = repo, ma_issue = n, ma_pr = Some pr, ma_lane = Some lane, ma_completion = payload, ma_run = JUndef\<rparr>"
  obtain v where "mapCompletion ?m ''pre_merge'' = Some v" "validateFinalReportInput frac v = []"
    using completion_gate_exact [of ?m pr lane "''pre_merge''" frac] assms(1,3-5) by (auto simp: delivery_lanes_def)
  then show ?thesis unfolding runRecordDeliveryReadiness_def Let_def using assms by simp
qed

lemma post_handoff_run:
  assumes "host AskRepo = Gave a" "accepted a" "host (AskPost n body) = PostedAs rid url"
    and "host (AskPost pr (buildDeliveryPointerRecord n pr rid)) = PostedAs k l"
  shows "\<exists>r. run_calls (host_serves host) (post_handoff frac n pr lane h body) log =
    (Some r, log @ [AskRepo, AskPost n body, AskPost pr (buildDeliveryPointerRecord n pr rid)]) \<and> accepted r"
  using assms by (simp add: post_handoff_def post_pointer_def accepted_def truthy_def)

lemma delivery_finalized:
  assumes "trace (runReadiness sens sha frac m) t (Some r)" "accepted r" "0 < ma_issue m" "ma_pr m = Some pr" "0 < pr"
    and "kept_posts t host" "undisturbed sha frac m pr t host p"
    and "host AskRepo = Gave a" "accepted a" "host (AskPr pr) = Gave p" "is_merged p"
    and "printable (ma_completion m)" "unsigned (ma_completion m)"
      "hex_run 64 (sha (encodeDeliveryPayload frac (ma_completion m)))"
      "unit_length (encodeDeliveryPayload frac (ma_completion m)) \<le> delivery_payload_max"
    and "\<forall>v. \<exists>c. host (AskAssert v) = Gave c \<and> accepted c" "host (AskClose (ma_issue m) pr) = Gave close" "accepted close"
  shows "\<exists>lane v ar cl. mapCompletion \<lparr>ma_repo = repo, ma_issue = ma_issue m, ma_pr = Some pr, ma_lane = Some lane,
        ma_completion = ma_completion m, ma_run = runid\<rparr> ''post_merge'' = Some v
    \<and> run_calls (host_serves host) (runAutomatedPhaseE sens' sha frac repo (JInt (int pr)) runid) [] =
        (Some (PhaseEFinalized (ma_issue m) lane ar cl),
         [AskRepo, AskPr pr, AskThread pr, AskThread (ma_issue m), AskAssert v, AskClose (ma_issue m) pr])"
proof -
  let ?n = "ma_issue m" and ?v = "ma_completion m"
  have "ready_outcome sha frac m pr [] t (Some r)" using assms(1,3-5) by (rule trace_readiness)
  then obtain lane h where h: "handed sha frac m pr lane h t" using assms(2) by (auto simp: ready_outcome_def)
  let ?body = "buildDeliveryReadinessRecord sha frac ?n pr lane h ?v"
  obtain rid url k l where posts: "(AskPost ?n ?body, PostedAs rid url) \<in> set t"
    "(AskPost pr (buildDeliveryPointerRecord ?n pr rid), PostedAs k l) \<in> set t"
    and fit: "lane \<in> set delivery_lanes" "full_git_oid h" "completion_fit lane ?v" "unit_length ?body \<le> comment_units_max"
    using h unfolding handed_def by blast
  obtain cs perm c where c: "host (AskThread ?n) = ThreadIs cs perm" "c \<in> set cs" "write_author perm c" "c_body c = ?body"
    using assms(6) posts(1) unfolding kept_posts_def by blast
  obtain cs' perm' c' where c': "host (AskThread pr) = ThreadIs cs' perm'" "c' \<in> set cs'" "write_author perm' c'"
    "c_body c' = buildDeliveryPointerRecord ?n pr rid" "rid \<noteq> Some 0"
    using assms(6) posts unfolding kept_posts_def by blast
  have u: "fld p ''headRefOid'' = JStr h"
    "\<forall>d \<in> set (candidates sha perm cs ?n pr (Some h)). dl_marker d = handoff_written sha frac ?n pr lane h ?v"
    using assms(7) h c(1) unfolding undisturbed_def by blast+
  have one: "\<forall>c \<in> set cs'. \<forall>po \<in> set (parseDeliveryPointerMarkers (c_body c)).
      write_author perm' c \<and> po_pr po = Some pr \<and> po_issue po \<noteq> None \<longrightarrow> po_issue po = Some ?n"
    using assms(7) c'(1) unfolding undisturbed_def by blast
  obtain po where po: "pointer_of (host (AskThread pr)) pr = Inr po" "po_issue po = Some ?n"
    using pointer_kept [OF c'(2-4) assms(3,5) c'(5) one] c'(1) by auto
  obtain fs where fs: "?v = JObj fs" using fit_object [OF fit(3)] by blast
  have "handoff_ok sha frac ?n pr lane h ?v" using assms(3,5,12-14) fit fs by (simp add: handoff_ok_def)
  from readiness_kept [OF c(2-4) this _ assms(15) u(2,1)] c(1,4) fit(4)
  obtain d where d: "readiness_of sha (host (AskThread ?n)) ?n pr p = Inr d" "dl_payload d = ?v" "hf_lane (dl_marker d) = Some lane"
    by auto
  have args: "finalize_args repo ?n pr runid d = \<lparr>ma_repo = repo, ma_issue = ?n, ma_pr = Some pr, ma_lane = Some lane,
        ma_completion = ?v, ma_run = runid\<rparr>" using d by (simp add: finalize_args_def)
  obtain v where v: "mapCompletion (finalize_args repo ?n pr runid d) ''post_merge'' = Some v"
    using fit_maps [of lane "finalize_args repo ?n pr runid d"] fit(3) unfolding args by auto
  obtain cc where cc: "host (AskAssert v) = Gave cc" "accepted cc" using assms(16) by blast
  have fsd: "dl_payload d = JObj fs" using d(2) fs by simp
  show ?thesis
    using phase_e_finalizes [OF assms(5,8-11) po d(1) fsd d(3) v cc assms(17,18)] v
    unfolding args by blast
qed

section \<open>Properties\<close>

text \<open>
  Nothing is finalized on less than a trusted handoff, whatever the services answer: the executor asks for the
  completion of an issue only when the pull request is merged, a writer's comment on it points at the issue, and a
  writer's comment on the issue hands over exactly the payload asserted, for exactly the merged head; it closes the issue
  only after that completion was accepted; it comments only on the issue pointed at, to report a failure that is not on
  the thread yet; each at most once. A run that reports the issue finalized closed it, and one that reports a failure of
  the issue left its report.
\<close>

theorem phase_e_evidence:
  assumes "trace (runAutomatedPhaseE sens sha frac repo (JInt (int pr)) runid) t x"
  shows "justified (phase_e_rule sha repo pr runid) [] t
    \<and> count_of asserts t \<le> 1 \<and> count_of closes t \<le> 1 \<and> count_of comments t \<le> 1
    \<and> (\<forall>r. x = Some r \<longrightarrow> finished pr t r)"
  using assms by (rule trace_phase_e)

text \<open>
  A handoff is recorded only for a head that was verified in the same call, whatever the services answer: the
  workflow check passed, and either the completion assertion accepted the completion and named the head, or, for a
  quickfix, the hosted checks of the open pull request passed on it, a writer's pickup put the branch in that lane and the
  newest trusted synchronization record of the branch ends at it in that lane. What is posted is the record of the
  caller's completion, which a final report can be written from, and then the pointer to it; a run that reports success
  posted both.
\<close>

theorem handoff_evidence:
  assumes "trace (runReadiness sens sha frac m) t y" and "0 < ma_issue m" "ma_pr m = Some pr" "0 < pr"
  shows "justified (handoff_rule sha frac m pr) [] t \<and> count_of comments t \<le> 2
    \<and> (\<forall>r. y = Some r \<and> accepted r \<longrightarrow> (\<exists>lane h. verified_head m pr t lane h \<and> handed sha frac m pr lane h t))"
  using trace_readiness [OF assms] by (simp add: ready_outcome_def)

text \<open>
  A delivery made ready is finished by its merge: after a successful readiness call whose comments stay on their
  threads, the executor finalizes the issue with exactly the completion the caller handed over, in six requests and
  without a comment, when the pull request was merged at the verified head, nobody recorded a different delivery of it,
  and the completion and the close are accepted.
\<close>

theorem recorded_delivery_finalized:
  assumes "trace (runReadiness sens sha frac m) t (Some r)" "accepted r" "0 < ma_issue m" "ma_pr m = Some pr" "0 < pr"
    and "kept_posts t host" "undisturbed sha frac m pr t host p"
    and "host AskRepo = Gave a" "accepted a" "host (AskPr pr) = Gave p" "is_merged p"
    and "printable (ma_completion m)" "unsigned (ma_completion m)"
      "hex_run 64 (sha (encodeDeliveryPayload frac (ma_completion m)))"
      "unit_length (encodeDeliveryPayload frac (ma_completion m)) \<le> delivery_payload_max"
    and "\<forall>v. \<exists>c. host (AskAssert v) = Gave c \<and> accepted c" "host (AskClose (ma_issue m) pr) = Gave close" "accepted close"
  shows "\<exists>lane v ar cl. mapCompletion \<lparr>ma_repo = repo, ma_issue = ma_issue m, ma_pr = Some pr, ma_lane = Some lane,
        ma_completion = ma_completion m, ma_run = runid\<rparr> ''post_merge'' = Some v
    \<and> run_calls (host_serves host) (runAutomatedPhaseE sens' sha frac repo (JInt (int pr)) runid) [] =
        (Some (PhaseEFinalized (ma_issue m) lane ar cl),
         [AskRepo, AskPr pr, AskThread pr, AskThread (ma_issue m), AskAssert v, AskClose (ma_issue m) pr])"
  using assms by (rule delivery_finalized)

text \<open>
  The limit of the reader is not the limit of the writer: a handoff the writer accepted and posted, with a payload
  beyond 48,000 code units, is refused as corrupt after the merge, when it is the only record of the head.
\<close>

theorem oversized_handoff_lost:
  assumes "trace (runRecordDeliveryReadiness sens sha frac repo n pr lane (JStr h) payload) t (Some r)" "accepted r"
    and "0 < n" "0 < pr" "printable payload" "unsigned payload" "hex_run 64 (sha (encodeDeliveryPayload frac payload))"
    and "unit_length (encodeDeliveryPayload frac payload) > delivery_payload_max"
    and "write_author perm c" "c_body c = buildDeliveryReadinessRecord sha frac n pr lane h payload"
  shows "(\<exists>j l. (AskPost n (c_body c), PostedAs j l) \<in> set t)
    \<and> (\<exists>msg. readTrustedDeliveryReadiness sha perm (Inr [c]) n pr (Some h) = Inl (''delivery_readiness_corrupt'', msg))"
  using assms(1,3,4)
proof (cases rule: trace_recorded)
  case quiet
  then show ?thesis using assms(2) by simp
next
  case (posting g)
  then have g: "g = h" by simp
  note fit = posting(2-5) [unfolded g]
  from posting(6) have "\<exists>j l. (AskPost n (c_body c), PostedAs j l) \<in> set t"
    by (cases rule: trace_handoff) (use assms(2,10) g in auto)
  moreover have ok: "handoff_ok sha frac n pr lane h payload"
    using assms(3-7) fit fit_object [OF fit(3)] by (simp add: handoff_ok_def)
  let ?m = "handoff_written sha frac n pr lane h payload"
  have f: "hf_issue ?m = Some n" "hf_pr ?m = Some pr" "hf_head ?m = Some h" "hf_version ?m = Some delivery_readiness_version"
    by (simp_all add: handoff_written_def Let_def)
  have "collectReadinessMarkers [c] n pr = [(c, ?m)]"
    using fit(4) handoff_parsed [OF ok] f unfolding collectReadinessMarkers_def by (simp add: assms(10))
  then have "\<exists>msg. readTrustedDeliveryReadiness sha perm (Inr [c]) n pr (Some h) = Inl (''delivery_readiness_corrupt'', msg)"
    using assms(8,9) f written_decoded [OF ok]
    by (simp add: readTrustedDeliveryReadiness_def isTrusted_write_author decodeDeliveries_def)
  ultimately show ?thesis by blast
qed

section \<open>Witnesses\<close>

definition yes :: js where "yes = JObj [(''ok'', JBool True), (''head_sha'', JStr sample_head)]"

lemma yes_accepted [simp]: "accepted yes"
  by (simp add: yes_def accepted_def truthy_def)

definition sample_completion :: js where
  "sample_completion = JObj [(''reviews'', JArr []), (''ci_status'', JStr ''green''), (''sonar_status'', JStr ''passed''),
     (''plain_english_outcome'', JStr ''Done.'')]"

definition sample_args :: mech_args where
  "sample_args = \<lparr>ma_repo = ''/repo'', ma_issue = 7, ma_pr = Some 31, ma_lane = None, ma_completion = sample_completion, ma_run = JUndef\<rparr>"

definition sample_body :: string where
  "sample_body = buildDeliveryReadinessRecord sample_sha no_frac 7 31 ''implement'' sample_head sample_completion"

definition sample_pointer :: string where "sample_pointer = buildDeliveryPointerRecord 7 31 (Some 3)"

definition sample_pr :: js where
  "sample_pr = JObj [(''mergedAt'', JStr ''2026-01-01T00:00:00Z''), (''state'', JStr ''MERGED''), (''headRefOid'', JStr sample_head)]"

definition sample_host :: "delivery_request \<Rightarrow> delivery_answer" where
  "sample_host q = (case q of
       AskPr _ \<Rightarrow> Gave sample_pr
     | AskThread k \<Rightarrow> ThreadIs [if k = 7 then said ''alice'' 3 sample_body else said ''alice'' 4 sample_pointer] two_writers
     | AskPost k _ \<Rightarrow> PostedAs (Some (if k = 7 then 3 else 4)) JNull
     | _ \<Rightarrow> Gave yes)"

lemma sample_host_simps [simp]:
  "sample_host AskRepo = Gave yes" "sample_host (AskPr k) = Gave sample_pr" "sample_host (AskAssert v) = Gave yes"
  "sample_host (AskClose k j) = Gave yes" "sample_host (AskPhaseE k) = Gave yes"
  "sample_host (AskThread 7) = ThreadIs [said ''alice'' 3 sample_body] two_writers"
  "sample_host (AskThread 31) = ThreadIs [said ''alice'' 4 sample_pointer] two_writers"
  "sample_host (AskPost 7 b) = PostedAs (Some 3) JNull" "sample_host (AskPost 31 b) = PostedAs (Some 4) JNull"
  by (simp_all add: sample_host_def)

lemma sample_fit: "completion_fit ''implement'' sample_completion"
  by (simp add: completion_fit_def sample_completion_def coalesce_def nullish_def files_fit_def one_of_def
      final_report_ci_statuses_def final_report_sonar_statuses_def final_report_outcome_max_def trim_def is_ws_def)

lemma sample_printable: "printable sample_completion" "unsigned sample_completion"
  "hex_run 64 (sample_sha (encodeDeliveryPayload no_frac sample_completion))" "full_git_oid sample_head"
  "\<exists>fs. sample_completion = JObj fs"
  by (simp_all add: sample_completion_def sample_sha_def sample_head_def full_git_oid_def hex_run_def is_hex_def is_digit_def
      less_eq_char_def list_all_iff)

lemma sample_body_lengths:
  "unit_length sample_body \<le> comment_units_max"
  "unit_length (encodeDeliveryPayload no_frac sample_completion) \<le> delivery_payload_max"
proof -
  have "unit_length sample_body \<le> 1000" "unit_length (encodeDeliveryPayload no_frac sample_completion) \<le> 1000" by code_simp+
  then show "unit_length sample_body \<le> comment_units_max"
    "unit_length (encodeDeliveryPayload no_frac sample_completion) \<le> delivery_payload_max"
    by (simp_all add: comment_units_max_def delivery_payload_max_def)
qed

lemma sample_handoff_made: "handoff_ok sample_sha no_frac 7 31 ''implement'' sample_head sample_completion"
  using sample_printable by (simp add: handoff_ok_def delivery_lanes_def)

lemma sample_ready:
  obtains r v where "run_calls (host_serves sample_host) (runReadiness (\<lambda>_. None) sample_sha no_frac sample_args) [] =
      (Some r, [AskPhaseE 31, AskAssert v, AskRepo, AskPost 7 sample_body, AskPost 31 sample_pointer])" "accepted r"
proof -
  have f: "required_fields (\<lambda>_. None) no_frac sample_args ''readiness'' = None" "ma_lane sample_args \<noteq> Some ''quickfix''"
    "the (ma_pr sample_args) = 31" "ma_issue sample_args = 7" "ma_completion sample_args = sample_completion"
    by (simp_all add: required_fields_def requireField_def sample_args_def sample_completion_def num_opt_def nullish_def)
  obtain v where v: "mapCompletion sample_args ''pre_merge'' = Some v"
    using fit_maps [of "''implement''" sample_args] sample_fit f(5) by auto
  have h: "fld yes ''head_sha'' = JStr sample_head" by (simp add: yes_def fld_def)
  have rec: "runRecordDeliveryReadiness (\<lambda>_. None) sample_sha no_frac repo 7 31 ''implement'' (JStr sample_head) sample_completion
      = post_handoff no_frac 7 31 ''implement'' sample_head sample_body" for repo
    unfolding sample_body_def
    using sample_body_lengths(1) sample_printable(4) sample_fit
    by (intro record_posts) (simp_all add: delivery_lanes_def sample_body_def)
  obtain x where x: "run_calls (host_serves sample_host) (post_handoff no_frac 7 31 ''implement'' sample_head sample_body)
      [AskPhaseE 31, AskAssert v] = (Some x, [AskPhaseE 31, AskAssert v, AskRepo, AskPost 7 sample_body, AskPost 31 sample_pointer])"
      "accepted x"
    using post_handoff_run [of sample_host yes 7 sample_body "Some 3" JNull 31 "Some 4" JNull no_frac "''implement''" sample_head
        "[AskPhaseE 31, AskAssert v]"] unfolding sample_pointer_def by auto
  let ?r = "handed_off ''implement'' (Inr x) [(''head_sha'', fld yes ''head_sha''), (''readiness_report'', fld yes ''readiness_report'')]"
  have hand: "run_calls (host_serves sample_host) (recordHandoff (\<lambda>_. None) sample_sha no_frac sample_args 31 ''implement'' (fld yes ''head_sha''))
      [AskPhaseE 31, AskAssert v] = (Some (Inr x), [AskPhaseE 31, AskAssert v, AskRepo, AskPost 7 sample_body, AskPost 31 sample_pointer])"
    unfolding recordHandoff_def f(4,5) h rec run_await x(1) by (simp only: prod.case option.case x(2) if_True run_calls.simps)
  have "run_calls (host_serves sample_host) (implementReadiness (\<lambda>_. None) sample_sha no_frac sample_args 31) [AskPhaseE 31]
      = (Some ?r, [AskPhaseE 31, AskAssert v, AskRepo, AskPost 7 sample_body, AskPost 31 sample_pointer])"
    unfolding implementReadiness_def v option.case run_calls.simps host_serves_simps sample_host_simps append.simps
      delivery_answer.case run_await
    by (simp only: yes_accepted not_True_eq_False if_False run_await hand prod.case option.case run_calls.simps)
  then have "run_calls (host_serves sample_host) (runReadiness (\<lambda>_. None) sample_sha no_frac sample_args) [] =
      (Some ?r, [AskPhaseE 31, AskAssert v, AskRepo, AskPost 7 sample_body, AskPost 31 sample_pointer])"
    unfolding runReadiness_def f(1,3) Let_def option.case run_calls.simps host_serves_simps sample_host_simps append.simps
      delivery_answer.case using f(2) by (simp only: yes_accepted not_True_eq_False if_False)
  moreover have "accepted ?r" unfolding handed_off_def sum.case by (simp add: accepted_def truthy_def fld_def)
  ultimately show thesis by (rule that)
qed

lemma record_inj:
  assumes "handoff_ok sha frac n pr lane h v" "handoff_ok sha frac n pr lane' h' v"
    and "buildDeliveryReadinessRecord sha frac n pr lane h v = buildDeliveryReadinessRecord sha frac n pr lane' h' v"
  shows "lane = lane' \<and> h = h'"
proof -
  have "[handoff_written sha frac n pr lane h v] = [handoff_written sha frac n pr lane' h' v]"
    unfolding handoff_parsed [OF assms(1), symmetric] handoff_parsed [OF assms(2), symmetric] assms(3) ..
  then show ?thesis by (simp add: handoff_written_def Let_def)
qed

lemma sample_undisturbed:
  assumes posts: "\<And>k b a. (AskPost k b, a) \<in> set t \<Longrightarrow> k = 7 \<and> b = sample_body \<or> k = 31 \<and> b = sample_pointer"
  shows "undisturbed sample_sha no_frac sample_args 31 t sample_host sample_pr"
  unfolding undisturbed_def
proof (intro conjI allI impI)
  fix lane h assume h: "handed sample_sha no_frac sample_args 31 lane h t"
  have a: "ma_issue sample_args = 7" "ma_completion sample_args = sample_completion" by (simp_all add: sample_args_def)
  have ok: "handoff_ok sample_sha no_frac 7 31 lane h sample_completion"
    using h sample_printable unfolding handed_def a by (auto simp: handoff_ok_def)
  have "buildDeliveryReadinessRecord sample_sha no_frac 7 31 lane h sample_completion = sample_body"
    using h posts unfolding handed_def a by fastforce
  then have lh: "lane = ''implement''" "h = sample_head"
    using record_inj [OF ok sample_handoff_made] by (simp_all add: sample_body_def)
  show "fld sample_pr ''headRefOid'' = JStr h" by (simp add: sample_pr_def fld_def lh)
  fix cs perm assume "sample_host (AskThread (ma_issue sample_args)) = ThreadIs cs perm"
  then have c: "cs = [said ''alice'' 3 sample_body]" "perm = two_writers" by (simp_all add: a)
  have "candidates sample_sha two_writers cs 7 31 (Some sample_head)
      = [\<lparr>dl_marker = handoff_written sample_sha no_frac 7 31 ''implement'' sample_head sample_completion,
          dl_payload = sample_completion, dl_comment = c_id (said ''alice'' 3 sample_body)\<rparr>]"
    unfolding c using handoff_candidate [OF sample_handoff_made, of two_writers "said ''alice'' 3 sample_body"] sample_body_lengths
    by (simp add: sample_body_def)
  then show "\<forall>d \<in> set (candidates sample_sha perm cs (ma_issue sample_args) 31 (Some h)).
      dl_marker d = handoff_written sample_sha no_frac (ma_issue sample_args) 31 lane h (ma_completion sample_args)"
    by (simp add: c(2) a lh)
next
  fix cs perm assume "sample_host (AskThread 31) = ThreadIs cs perm"
  then have c: "cs = [said ''alice'' 4 sample_pointer]" by simp
  have "parseDeliveryPointerMarkers sample_pointer = [\<lparr>po_issue = Some 7, po_pr = Some 31, po_record = Some 3\<rparr>]"
    unfolding sample_pointer_def by (rule pointer_parsed) simp_all
  then show "\<forall>c \<in> set cs. \<forall>po \<in> set (parseDeliveryPointerMarkers (c_body c)).
      write_author perm c \<and> po_pr po = Some 31 \<and> po_issue po \<noteq> None \<longrightarrow> po_issue po = Some (ma_issue sample_args)"
    by (simp add: c sample_args_def)
qed

lemma handoff_sample_trace:
  obtains t r where "trace (runReadiness (\<lambda>_. None) sample_sha no_frac sample_args) t (Some r)" "accepted r"
    "kept_posts t sample_host" "undisturbed sample_sha no_frac sample_args 31 t sample_host sample_pr"
proof -
  obtain r v where r: "run_calls (host_serves sample_host) (runReadiness (\<lambda>_. None) sample_sha no_frac sample_args) [] =
      (Some r, [AskPhaseE 31, AskAssert v, AskRepo, AskPost 7 sample_body, AskPost 31 sample_pointer])" "accepted r"
    by (rule sample_ready)
  from host_traced [OF r(1)] obtain t where t: "trace (runReadiness (\<lambda>_. None) sample_sha no_frac sample_args) t (Some r)"
    "map fst t = [AskPhaseE 31, AskAssert v, AskRepo, AskPost 7 sample_body, AskPost 31 sample_pointer]"
    "\<forall>qa \<in> set t. snd qa = sample_host (fst qa)" by auto
  have posts: "(k = 7 \<and> b = sample_body \<or> k = 31 \<and> b = sample_pointer) \<and> a = sample_host (AskPost k b)"
    if "(AskPost k b, a) \<in> set t" for k b a
  proof -
    have "AskPost k b \<in> set (map fst t)" using that by force
    then show ?thesis using t(3) that unfolding t(2) by auto
  qed
  have "kept_posts t sample_host"
    unfolding kept_posts_def
  proof (intro allI impI)
    fix k b j l assume "(AskPost k b, PostedAs j l) \<in> set t"
    from posts [OF this] show "j \<noteq> Some 0 \<and> (\<exists>cs perm c. sample_host (AskThread k) = ThreadIs cs perm \<and> c \<in> set cs
        \<and> write_author perm c \<and> c_body c = b)"
      by (elim conjE disjE) simp_all
  qed
  moreover have "undisturbed sample_sha no_frac sample_args 31 t sample_host sample_pr"
    by (rule sample_undisturbed) (use posts in blast)
  ultimately show thesis using that t(1) r(2) by blast
qed

lemma recorded_delivery_finalized_witness:
  "\<exists>lane v ar cl. run_calls (host_serves sample_host) (runAutomatedPhaseE (\<lambda>_. None) sample_sha no_frac ''/repo'' (JInt 31) JUndef) [] =
     (Some (PhaseEFinalized 7 lane ar cl), [AskRepo, AskPr 31, AskThread 31, AskThread 7, AskAssert v, AskClose 7 31])"
proof -
  obtain t r where t: "trace (runReadiness (\<lambda>_. None) sample_sha no_frac sample_args) t (Some r)" "accepted r"
    "kept_posts t sample_host" "undisturbed sample_sha no_frac sample_args 31 t sample_host sample_pr" by (rule handoff_sample_trace)
  have a: "ma_issue sample_args = 7" "ma_completion sample_args = sample_completion" "ma_pr sample_args = Some 31"
    by (simp_all add: sample_args_def)
  have m: "is_merged sample_pr" by (simp add: is_merged_def sample_pr_def fld_def truthy_def)
  show ?thesis
    using recorded_delivery_finalized [OF t(1,2) _ a(3) _ t(3,4), of yes yes, unfolded a] sample_printable sample_body_lengths(2) m
    by simp blast
qed

lemma handoff_evidence_witness:
  "\<exists>t r lane h. trace (runReadiness (\<lambda>_. None) sample_sha no_frac sample_args) t (Some r) \<and> verified_head sample_args 31 t lane h"
proof -
  obtain t r where t: "trace (runReadiness (\<lambda>_. None) sample_sha no_frac sample_args) t (Some r)" "accepted r" by (rule handoff_sample_trace)
  have "0 < ma_issue sample_args" "ma_pr sample_args = Some 31" by (simp_all add: sample_args_def)
  from handoff_evidence [OF t(1) this] t show ?thesis by auto
qed

text \<open>A completion within a comment and beyond the reader: a long list of files.\<close>

definition long_completion :: js where
  "long_completion = JObj [(''reviews'', JArr []), (''ci_status'', JStr ''green''), (''sonar_status'', JStr ''passed''),
     (''plain_english_outcome'', JStr ''Done.''), (''files'', JObj [(''added'', JArr [JStr (replicate 48000 (CHR ''a''))])])]"

lemma escape_replicate: "json_escape (replicate k (CHR ''a'')) = replicate k (CHR ''a'')"
  by (induction k) (simp_all add: json_escape_def json_escape_char_def control_def)

lemma unit_length_replicate: "unit_length (replicate k (CHR ''a'')) = k"
  by (induction k) (simp_all add: unit_length_def less_char_def less_eq_char_def)

lemma unit_length_quote: "unit_length (dq # s @ t) = unit_length [dq] + unit_length s + unit_length t"
  by (simp add: unit_length_def)

lemma long_fit: "completion_fit ''implement'' long_completion"
  by (simp add: completion_fit_def long_completion_def coalesce_def nullish_def files_fit_def one_of_def nonblank_def
      final_report_ci_statuses_def final_report_sonar_statuses_def final_report_outcome_max_def trim_def is_ws_def
      final_report_file_kinds_def is_mapping_def obj_keys_def)

lemma long_printable: "printable long_completion" "unsigned long_completion"
  "hex_run 64 (sample_sha (encodeDeliveryPayload no_frac long_completion))"
  by (simp_all add: long_completion_def sample_sha_def hex_run_def is_hex_def is_digit_def less_eq_char_def list_all_iff)

definition long_prefix :: string where
  "long_prefix = butlast (butlast (butlast (butlast (butlast (encodeDeliveryPayload no_frac
     (JObj [(''reviews'', JArr []), (''ci_status'', JStr ''green''), (''sonar_status'', JStr ''passed''),
       (''plain_english_outcome'', JStr ''Done.''), (''files'', JObj [(''added'', JArr [JStr []])])]))))))"

lemma long_text: "encodeDeliveryPayload no_frac long_completion
  = long_prefix @ dq # replicate 48000 (CHR ''a'') @ [dq, CHR '']'', CHR ''}'', CHR ''}'']"
proof -
  have "no_hyphens (replicate 48000 (CHR ''a'')) = replicate 48000 (CHR ''a'')" by (rule no_hyphens_id) simp
  moreover have "json_escape ''reviews'' = ''reviews''" "json_escape ''ci_status'' = ''ci_status''" "json_escape ''green'' = ''green''"
    "json_escape ''sonar_status'' = ''sonar_status''" "json_escape ''passed'' = ''passed''" "json_escape ''Done.'' = ''Done.''"
    "json_escape ''plain_english_outcome'' = ''plain_english_outcome''" "json_escape ''files'' = ''files''"
    "json_escape ''added'' = ''added''" "json_escape [] = []" by code_simp+
  ultimately show ?thesis
    by (simp add: long_completion_def long_prefix_def encodeDeliveryPayload_def json_string_def escape_replicate)
qed

definition long_body :: string where
  "long_body = buildDeliveryReadinessRecord sample_sha no_frac 7 31 ''implement'' sample_head long_completion"

lemma long_lengths:
  "unit_length long_body \<le> comment_units_max"
  "unit_length (encodeDeliveryPayload no_frac long_completion) > delivery_payload_max"
proof -
  have "unit_length long_prefix \<le> 500" "unit_length [dq] \<le> 1" "unit_length [dq, CHR '']'', CHR ''}'', CHR ''}''] \<le> 4" by code_simp+
  moreover have l: "unit_length (encodeDeliveryPayload no_frac long_completion)
      = unit_length long_prefix + unit_length [dq] + 48000 + unit_length [dq, CHR '']'', CHR ''}'', CHR ''}'']"
    unfolding long_text
    by (simp only: unit_length_append unit_length_quote unit_length_replicate add.assoc)
  ultimately have le: "unit_length (encodeDeliveryPayload no_frac long_completion) \<le> 48505" by simp
  have "unit_length [dq] = 1" by code_simp
  then show "unit_length (encodeDeliveryPayload no_frac long_completion) > delivery_payload_max"
    using l by (simp add: delivery_payload_max_def)
  have "unit_length (readiness_head 7 31 @ ''<!-- gc:delivery-readiness ''
      @ readiness_attrs 7 31 ''implement'' sample_head (replicate 64 (CHR ''a'')) @ [nl] @ nl # ''-->'') \<le> 1000" by code_simp
  then have "unit_length long_body \<le> 1000 + 48505"
    using le unfolding long_body_def buildDeliveryReadinessRecord_def Let_def readiness_block_def sample_sha_def
    by (simp only: fst_conv snd_conv unit_length_line unit_length_append)
  then show "unit_length long_body \<le> comment_units_max" by (simp add: comment_units_max_def)
qed

lemma oversized_handoff_lost_witness:
  "\<exists>m. readTrustedDeliveryReadiness sample_sha two_writers (Inr [said ''alice'' 3 long_body]) 7 31 (Some sample_head)
     = Inl (''delivery_readiness_corrupt'', m)"
proof -
  have rec: "runRecordDeliveryReadiness (\<lambda>_. None) sample_sha no_frac ''/repo'' 7 31 ''implement'' (JStr sample_head) long_completion
      = post_handoff no_frac 7 31 ''implement'' sample_head long_body"
    unfolding long_body_def
    using long_lengths(1) sample_printable(4) long_fit
    by (intro record_posts) (simp_all add: delivery_lanes_def long_body_def)
  obtain x where x: "run_calls (host_serves sample_host) (post_handoff no_frac 7 31 ''implement'' sample_head long_body) []
      = (Some x, [] @ [AskRepo, AskPost 7 long_body, AskPost 31 (buildDeliveryPointerRecord 7 31 (Some 3))])" "accepted x"
    using post_handoff_run [of sample_host yes 7 long_body "Some 3" JNull 31 "Some 4" JNull no_frac "''implement''" sample_head "[]"]
    by auto
  obtain t where t: "trace (post_handoff no_frac 7 31 ''implement'' sample_head long_body) t (Some x)"
    using host_traced [OF x(1)] by blast
  show ?thesis
    using oversized_handoff_lost [OF t [folded rec] x(2) _ _ long_printable long_lengths(2), of two_writers "said ''alice'' 3 long_body"]
    by (simp add: long_body_def)
qed

end
