(* ===== verification/Spec2Isabelle.thy ===== *)
theory Spec2Isabelle
  imports Prelude Scanning JsonText Thread Obligations ObligationReplay ObligationRead
    FailureDiagnostics AsyncJobs ReviewCap StationRetry Json CapDisposition IssueDependency
    RunLane CloseIssue IssueScope RequirementFiles ScopeWriter PublishJournal
    CallTree ReleaseConfig ReleaseLedger ReleaseIdentity ReleaseHistory ReleaseCalls ReleaseOperations ReleaseRun
    ReleaseSafety
    StationEvidence StationRecords StationReconcile StationRecovery StationSeam StationLedger
    DeliveryRecord SyncRecord FinalReport Delivery DeliverySafety HandoffSafety DeliveryRun
begin

text \<open>
  Ground Control's MCP server (\<open>src/mcp/ground-control\<close>): the part that decides.

  \<^bold>\<open>The program.\<close> Ground Control drives an agent through a delivery workflow on a GitHub issue: plan,
  implement, review, publish, monitor, close. The server holds no database. What has happened is
  read back from the issue thread, as marker comments (\<open><!-- gc:... -->\<close>) and JSON fences that the
  server posted earlier, filtered by who wrote them. Each tool call reads the thread, decides, and
  at most posts a record or makes one write. The safety of the workflow is therefore in three
  places: the formats of the records (they must read back as what was written), the trust in their
  authors, and the decisions taken from the replayed history. These are what is modelled.

  \<^bold>\<open>Theories and sources\<close> (file names are under \<open>src/mcp/ground-control/lib\<close>):

    \<^item> \<open>Prelude\<close>: JavaScript values (\<open>js\<close>), truthiness, \<open>??\<close>, field access, \<open>Map\<close> objects in insertion
      order, and the generic list facts the components share.
    \<^item> \<open>Scanning\<close>: numerals, white space, \<open>split\<close>, \<open>join\<close>, \<open>startsWith\<close>, the marker attribute grammar, and the
      printer and scanner facts every marker round trip uses.
    \<^item> \<open>JsonText\<close>, \<open>Json\<close>: \<open>JSON.stringify\<close> and \<open>JSON.parse\<close>, with the round trip on the values the records hold.
    \<^item> \<open>Thread\<close>: comments, effective permissions, author trust, phase markers and phase prerequisites
      (\<open>grc-legacy-compat*.js\<close>, \<open>codex-review.js\<close>).
    \<^item> \<open>Obligations\<close>, \<open>ObligationReplay\<close>, \<open>ObligationRead\<close>: the execution-obligation ledger. The two marker
      families (\<open>codex-workflow.js\<close>, \<open>execution-obligation-v2.js\<close>), the replay to the list of open
      obligations, and the trusted read with the wontfix authorization chain and the attestation of
      re-observations (\<open>grc-legacy-compat-3.js\<close>, \<open>-4.js\<close>).
    \<^item> \<open>FailureDiagnostics\<close>: bounded failure texts (\<open>command-failure-diagnostics.js\<close>).
    \<^item> \<open>AsyncJobs\<close>: the background-job registry (\<open>async-job-registry.js\<close>): start, poll, wait, cancel, the promise
      chain of a job and its waiters, as operations on an explicit heap of job objects and a step
      relation over their interleavings.
    \<^item> \<open>ReviewCap\<close>: the pre-push, post-push and per-finding caps and the two review gates
      (\<open>api-requirements.js\<close>, \<open>repo-context-2.js\<close>, \<open>codex-verify-cap.js\<close>, \<open>codex-review-cap.js\<close>).
    \<^item> \<open>CapDisposition\<close>: the disposition at a reached cap, its durable record and the over-cap grant
      (\<open>review-cap-disposition.js\<close>, \<open>review-cap-disposition-2.js\<close>).
    \<^item> \<open>StationRetry\<close>: the bounded retry of a station, the CI conclusion and the Sonar gate
      (\<open>review-reattempt.js\<close>, \<open>ci-conclusion.js\<close>, \<open>sonar-gate.js\<close>).
    \<^item> \<open>IssueDependency\<close>: guarded writes of "blocked by" relationships (\<open>issue-dependency.js\<close>).
    \<^item> \<open>RunLane\<close>: the lane of a run (\<open>run-lane-evidence.js\<close>).
    \<^item> \<open>CloseIssue\<close>: final-report evidence and the close (\<open>final-report-marker.js\<close>, \<open>close-issue.js\<close>).
    \<^item> \<open>IssueScope\<close>, \<open>RequirementFiles\<close>, \<open>ScopeWriter\<close>: the \<open>## Requirements\<close> section of an issue, requirement
      files, and the one writer of the section under its lease (\<open>issue-requirements-scope.js\<close>,
      \<open>requirement-files.js\<close>, \<open>issue-requirements-writer.js\<close>).
    \<^item> \<open>PublishJournal\<close>: the write-ahead journal of the mechanical publish and its recovery
      (\<open>implement-recovery-journal.js\<close>, \<open>implement-publish-recovery.js\<close>).
    \<^item> \<open>CallTree\<close>: operations that wait for services, as trees of requests, and the pools in which they interleave.
    \<^item> \<open>ReleaseConfig\<close>, \<open>ReleaseLedger\<close>, \<open>ReleaseIdentity\<close>: the allocation of release identities. The family grammar
      (\<open>release-identity-config.js\<close>), the events and the fold of the reservation log
      (\<open>release-identity-ledger.js\<close>), and reserve, publish, abandon and status with their GitHub calls and
      issue records (\<open>release-identity.js\<close>, \<open>-github.js\<close>, \<open>-records.js\<close>).
    \<^item> \<open>ReleaseHistory\<close>, \<open>ReleaseCalls\<close>, \<open>ReleaseOperations\<close>, \<open>ReleaseSafety\<close>: the repository as the calls share it, the
      abstract log it means, and what every pool of calls keeps of it; \<open>ReleaseRun\<close> is one run worked out.
    \<^item> \<open>StationEvidence\<close>, \<open>StationRecords\<close>, \<open>StationReconcile\<close>, \<open>StationSeam\<close>: the obligation of a review station that
      rendered no verdict. The search of the thread for the verdict (\<open>station-observation-evidence.js\<close>, and the
      findings-record header of \<open>codex-review.js\<close>), the records (\<open>-records.js\<close>), the reconciliation under its lease
      (\<open>-reconcile.js\<close>) and the wrapper around the attempts of one station (\<open>-seam.js\<close>).
    \<^item> \<open>StationRecovery\<close>, \<open>StationLedger\<close>: what concurrent reconciliations do to the threads of a hub other writers also
      write to, and what the trace of one station run or of one reported reconciliation says of the ledger.
    \<^item> \<open>DeliveryRecord\<close>, \<open>SyncRecord\<close>, \<open>FinalReport\<close>: the records a delivery rests on. The readiness record and its pointer
      (\<open>delivery-readiness.js\<close>), the synchronization record and the binding of a delivery to it
      (\<open>implement-sync-record.js\<close>, \<open>knowledge-capture.js\<close>, \<open>delivery-binding.js\<close>), and what a final report must say
      (\<open>plan-posting.js\<close>, \<open>doc-coverage.js\<close>, \<open>completion-mapping.js\<close>).
    \<^item> \<open>Delivery\<close>: the readiness action, the finalize action (\<open>../implement/completion.js\<close>) and the executor that runs it
      after the merge (\<open>../implement/phase-e-automation.js\<close>). \<open>DeliverySafety\<close>, \<open>HandoffSafety\<close> and \<open>DeliveryRun\<close>: what the
      two calls may ask on which evidence, whatever is answered (\<open>phase_e_evidence\<close>, \<open>handoff_evidence\<close>), and that
      a handoff recorded is finalized by its merge (\<open>recorded_delivery_finalized\<close>) unless its payload is longer than the
      reader takes (\<open>oversized_handoff_lost\<close>). The records have their own theorems: \<open>delivery_readiness_sound\<close>,
      \<open>delivery_handoff_replayed\<close>, \<open>sync_record_roundtrip\<close>, \<open>latest_sync_record_sound\<close>, \<open>sync_retry_stable\<close>.

  \<^bold>\<open>How they interact.\<close> Everything that reads the thread goes through \<open>Thread\<close>: the ledger read, the lane,
  the close evidence and the scope writer's removal authorization call
  \<open>resolveExecutionObligationTrust\<close> on their own candidates. \<open>CapDisposition\<close> posts the record that
  \<open>ReviewCap\<close>'s gate counts against. \<open>ScopeWriter\<close> composes the section transformer of \<open>IssueScope\<close>, the identity
  reader of \<open>RequirementFiles\<close>, the slug reading of \<open>IssueDependency\<close> and the trust of \<open>Thread\<close>. The station
  theories compose the attempts of \<open>StationRetry\<close>, the cycle markers of \<open>ReviewCap\<close> and the ledger read of \<open>ObligationRead\<close>.
  \<open>Delivery\<close> composes the lane of \<open>RunLane\<close> with the records of a delivery; the completion assertion and the close are
  services to it.

  \<^bold>\<open>What the lemmas show.\<close> For each record format: what is built parses back, and as nothing else. For each
  history: the replay equals a specification stated on the event list (open exactly when
  unterminated; counts never pass their caps; a grant rests on one authoritative record). For each
  decision: the result holds only with its evidence, on every branch, with the errors listed. For
  each stateful component: an invariant kept by every operation and by every interleaving of its
  steps (the job registry, concurrent scope writers, release-identity calls and reconciliations of any number of servers). For texts: bounds, exactness of the part
  rewritten and idempotence.

  \<^bold>\<open>Conventions.\<close>

    \<^item> A text is a \<open>string\<close> of its UTF-8 bytes where only ASCII matters, and a list of 16-bit code units
      (\<open>16 word list\<close>) where the code counts or cuts at code units: \<open>FailureDiagnostics\<close>, the errors of
      \<open>AsyncJobs\<close>, \<open>IssueScope\<close>, \<open>RequirementFiles\<close>, \<open>ScopeWriter\<close>. \<open>unit_length\<close> is \<open>.length\<close> of a byte text.
    \<^item> Regular expressions are written out as the scanners they denote; the text around a \<open>fun\<close> or
      \<open>definition\<close> says which expression it is.
    \<^item> Refusals carry the code's error code; explanatory prose of messages is left out.
    \<^item> Numbers are exact: \<open>int\<close>, or \<open>rat\<close> where the code computes a ratio; risk scores are in thousandths.
      The counts involved stay far below \<open>2 ^ 53\<close>. A JSON number with a fraction is a pair of integers, and how
      JavaScript prints it is a parameter.
    \<^item> GitHub, Git, the file system, SHA-256, the model process, the clock and the sensitive-content test
      are parameters: functions from the request to what is answered, failures included. Nothing is
      assumed of them beyond the named hypotheses of a theorem.
    \<^item> The service of a release call is a relation: GitHub may fail any request, lose the answer to a write it made,
      and list references as they were at an earlier moment. It is relied on only for what the code says it
      relies on: objects never change, and creating a reference that exists fails. A listing that the code reads page
      by page (\<open>release-identity-github.js\<close>) is taken to be a snapshot: the references of one moment.
    \<^item> The lease of \<open>ScopeWriter\<close> lies in the Git directory of a worktree, so what it shows about concurrent writers is
      about processes of one worktree; writers elsewhere are not excluded by the code either.
    \<^item> \<open>\s\<close> and \<open>trim\<close> on byte texts are the ASCII white space; on code units they are all of JavaScript's.
    \<^item> A lookup \<open>map[key]\<close> in a plain object also finds what every object inherits (\<open>inherited_names\<close> of \<open>Scanning\<close>), and an
      assignment to \<open>__proto__\<close> sets the prototype; both are modelled where a key comes from outside.
    \<^item> \<open>json_parse\<close> recurses on fuel \<open>2 * length + 2\<close>: each of its calls that does not consume a character is
      followed by one that does, so it never runs out, and the round-trip lemmas are proved for this fuel.
      The station loop recurses on the attempts its bound leaves; \<open>station_run_bounded\<close> shows it returns.

  \<^bold>\<open>Not modelled\<close>, and why. The prompts, the slicing and the engines of the review pipeline, the publish and
  integration orchestration, the watchers' polling, the pull-request bodies, the completion assertion and the posting of prose:
  they assemble text or run subprocesses around the decisions modelled here. The configuration
  normalizers, the server's start-up and command-line front ends, the tool schemas, the knowledge inbox
  and the Incus sandbox: input, output and declarations. The manifest lists every one of them.

\<close>

end
